(* ===== verification/Prelude.thy ===== *)
theory Prelude
  imports Main "HOL-Library.Word" "HOL-Library.Monad_Syntax"
begin

unbundle bit_operations_syntax

text \<open>
  Shared vocabulary of the development: the machine integer types, the parts of the Rust
  standard library the sources use (slices, little-endian byte conversion, \<open>partition_point\<close>,
  \<open>binary_search_by_key\<close>), and the generic lemmas on them.

  Conventions.
  \<^item> \<open>u8\<close> \dots \<open>u64\<close> are words; \<open>i32\<close> and \<open>i64\<close> are words read with \<^const>\<open>sint\<close>; \<open>usize\<close>
    indices and lengths are \<^typ>\<open>nat\<close>.
  \<^item> A panic (index out of range, failed \<open>unwrap\<close>) is \<^const>\<open>None\<close> of an \<open>option\<close> type.
  \<^item> Arithmetic is that of the release profile: it wraps, and a shift amount is taken modulo
    the width.
\<close>

type_synonym u8 = "8 word"
type_synonym u16 = "16 word"
type_synonym u32 = "32 word"
type_synonym u64 = "64 word"
type_synonym i8 = "8 word"
type_synonym i32 = "32 word"
type_synonym i64 = "64 word"
type_synonym bytes = "8 word list"

named_theorems byte_simps \<open>rewriting byte lists read as words\<close>
named_theorems slice_simps \<open>unfolding of checked slice operations\<close>

section \<open>Slices\<close>

text \<open>\<open>xs.get(i)\<close>, \<open>xs.get(lo..)\<close> and \<open>&xs[lo..hi]\<close>, with a panic as \<^const>\<open>None\<close>.\<close>

definition get :: "'a list \<Rightarrow> nat \<Rightarrow> 'a option" where
  [slice_simps]: "get xs i = (if i < length xs then Some (xs ! i) else None)"

definition get_from :: "'a list \<Rightarrow> nat \<Rightarrow> 'a list option" where
  [slice_simps]: "get_from xs lo = (if lo \<le> length xs then Some (drop lo xs) else None)"

definition get_range :: "'a list \<Rightarrow> nat \<Rightarrow> nat \<Rightarrow> 'a list option" where
  [slice_simps]: "get_range xs lo hi =
     (if lo \<le> hi \<and> hi \<le> length xs then Some (take (hi - lo) (drop lo xs)) else None)"

text \<open>\<open>xs[i] = v\<close> and \<open>xs[lo..lo + src.len()].copy_from_slice(src)\<close>.\<close>

definition set_at :: "'a list \<Rightarrow> nat \<Rightarrow> 'a \<Rightarrow> 'a list option" where
  [slice_simps]: "set_at xs i v = (if i < length xs then Some (xs[i := v]) else None)"

definition copy_at :: "'a list \<Rightarrow> nat \<Rightarrow> 'a list \<Rightarrow> 'a list option" where
  [slice_simps]: "copy_at xs lo src =
     (if lo + length src \<le> length xs
      then Some (take lo xs @ src @ drop (lo + length src) xs) else None)"

text \<open>
  Two buffers agree outside a window: they have the same length and differ at most at the
  indices from \<open>lo\<close> up to \<open>hi\<close>.
\<close>

definition same_outside :: "nat \<Rightarrow> nat \<Rightarrow> 'a list \<Rightarrow> 'a list \<Rightarrow> bool" where
  "same_outside lo hi xs ys \<longleftrightarrow>
     length ys = length xs \<and> take lo ys = take lo xs \<and> drop hi ys = drop hi xs"

lemma same_outside_refl [simp, intro]: "same_outside lo hi xs xs"
  by (simp add: same_outside_def)

lemma same_outside_trans:
  "same_outside lo hi xs ys \<Longrightarrow> same_outside lo hi ys zs \<Longrightarrow> same_outside lo hi xs zs"
  by (simp add: same_outside_def)

lemma same_outside_mono:
  assumes "same_outside lo hi xs ys" and "lo' \<le> lo" and "hi \<le> hi'"
  shows "same_outside lo' hi' xs ys"
proof -
  have "take lo' ys = take lo' (take lo ys)" and "take lo' xs = take lo' (take lo xs)"
    using assms(2) by simp_all
  moreover have "drop hi' ys = drop (hi' - hi) (drop hi ys)"
    and "drop hi' xs = drop (hi' - hi) (drop hi xs)"
    using assms(3) by simp_all
  ultimately show ?thesis
    using assms(1) by (simp only: same_outside_def)
qed

lemma same_outside_set_at:
  "set_at xs i v = Some ys \<Longrightarrow> lo \<le> i \<Longrightarrow> i < hi \<Longrightarrow> same_outside lo hi xs ys"
  by (auto simp: same_outside_def set_at_def split: if_splits)

lemma same_outside_copy_at:
  assumes "copy_at xs i src = Some ys" and "lo \<le> i" and "i + length src \<le> hi"
  shows "same_outside lo hi xs ys"
proof -
  have len: "i + length src \<le> length xs"
    and ys: "ys = take i xs @ src @ drop (i + length src) xs"
    using assms(1) by (auto simp: copy_at_def split: if_splits)
  have "same_outside i (i + length src) xs ys"
    using len by (simp add: same_outside_def ys)
  then show ?thesis
    using assms(2,3) by (rule same_outside_mono)
qed

lemma copy_at_length: "copy_at xs lo src = Some ys \<Longrightarrow> length ys = length xs"
  by (auto simp: copy_at_def split: if_splits)

section \<open>Searching sorted slices\<close>

text \<open>
  \<open>partition_point\<close> returns the length of the prefix on which the predicate holds. The
  standard library promises this for slices on which the predicate is partitioned; every call
  site of the development is shown to be of this kind (\<open>partitioned\<close>).
\<close>

definition partition_point :: "('a \<Rightarrow> bool) \<Rightarrow> 'a list \<Rightarrow> nat" where
  "partition_point P xs = length (takeWhile P xs)"

definition partitioned :: "('a \<Rightarrow> bool) \<Rightarrow> 'a list \<Rightarrow> bool" where
  "partitioned P xs \<longleftrightarrow> (\<forall>x \<in> set (dropWhile P xs). \<not> P x)"

lemma partition_point_le [simp]: "partition_point P xs \<le> length xs"
  by (simp add: partition_point_def length_takeWhile_le)

lemma partition_point_0_iff: "partition_point P xs = 0 \<longleftrightarrow> (xs = [] \<or> \<not> P (hd xs))"
  by (cases xs) (auto simp: partition_point_def)

lemma partition_point_prefix: "i < partition_point P xs \<Longrightarrow> P (xs ! i)"
  by (metis partition_point_def nth_mem set_takeWhileD takeWhile_nth)

lemma partition_point_at:
  "partition_point P xs < length xs \<Longrightarrow> \<not> P (xs ! partition_point P xs)"
  by (simp add: partition_point_def nth_length_takeWhile)

lemma partition_point_eqI:
  assumes "n \<le> length xs" and "\<And>i. i < n \<Longrightarrow> P (xs ! i)" and "n < length xs \<Longrightarrow> \<not> P (xs ! n)"
  shows "partition_point P xs = n"
proof -
  have "takeWhile P xs = take n xs"
    using assms(2,3) by (intro takeWhile_eq_take_P_nth) auto
  then show ?thesis
    using assms(1) by (simp add: partition_point_def)
qed

text \<open>A predicate that a sorted order carries downwards is partitioned on sorted slices.\<close>

lemma partitioned_sorted_wrt:
  assumes "sorted_wrt R xs" and "\<And>x y. R x y \<Longrightarrow> P y \<Longrightarrow> P x"
  shows "partitioned P xs"
  using assms(1)
proof (induction xs)
  case Nil
  then show ?case by (simp add: partitioned_def)
next
  case (Cons x xs)
  then show ?case
    using assms(2) by (auto simp: partitioned_def)
qed

definition binary_search_by_key :: "'k::linorder \<Rightarrow> ('a \<Rightarrow> 'k) \<Rightarrow> 'a list \<Rightarrow> nat + nat" where
  "binary_search_by_key k f xs =
     (let i = partition_point (\<lambda>x. f x < k) xs
      in if i < length xs \<and> f (xs ! i) = k then Inr i else Inl i)"

definition strictly_sorted_by :: "('a \<Rightarrow> 'k::linorder) \<Rightarrow> 'a list \<Rightarrow> bool" where
  "strictly_sorted_by f xs \<longleftrightarrow> sorted_wrt (\<lambda>x y. f x < f y) xs"

lemma strictly_sorted_by_simps [simp]:
  "strictly_sorted_by f []"
  "strictly_sorted_by f (x # xs) \<longleftrightarrow> (\<forall>y \<in> set xs. f x < f y) \<and> strictly_sorted_by f xs"
  by (auto simp: strictly_sorted_by_def)

lemma strictly_sorted_by_append:
  "strictly_sorted_by f (xs @ ys) \<longleftrightarrow>
     strictly_sorted_by f xs \<and> strictly_sorted_by f ys \<and>
     (\<forall>x \<in> set xs. \<forall>y \<in> set ys. f x < f y)"
  by (auto simp: strictly_sorted_by_def sorted_wrt_append)

lemma strictly_sorted_by_unique:
  "strictly_sorted_by f xs \<Longrightarrow> x \<in> set xs \<Longrightarrow> y \<in> set xs \<Longrightarrow> f x = f y \<Longrightarrow> x = y"
  by (induction xs) fastforce+

lemma strictly_sorted_by_nth:
  "strictly_sorted_by f xs \<Longrightarrow> i < j \<Longrightarrow> j < length xs \<Longrightarrow> f (xs ! i) < f (xs ! j)"
  unfolding strictly_sorted_by_def by (drule sorted_wrt_nth_less) auto

lemma binary_search_by_key_Inr:
  "binary_search_by_key k f xs = Inr i \<Longrightarrow> i < length xs \<and> f (xs ! i) = k"
  by (auto simp: binary_search_by_key_def Let_def split: if_splits)

lemma binary_search_by_key_found:
  assumes "strictly_sorted_by f xs" and "i < length xs"
  shows "binary_search_by_key (f (xs ! i)) f xs = Inr i"
proof -
  have "partition_point (\<lambda>x. f x < f (xs ! i)) xs = i"
    using assms by (intro partition_point_eqI) (auto dest: strictly_sorted_by_nth)
  then show ?thesis
    using assms(2) by (simp add: binary_search_by_key_def)
qed

lemma binary_search_by_key_absent:
  "k \<notin> f ` set xs \<Longrightarrow> \<exists>i. binary_search_by_key k f xs = Inl i"
  by (auto simp: binary_search_by_key_def Let_def) (metis imageI nth_mem)

section \<open>Words as numbers\<close>

lemma unat_power2:
  assumes "n < LENGTH('a)"
  shows "unat (2 ^ n :: 'a::len word) = 2 ^ n"
proof -
  have "unat (of_nat (2 ^ n) :: 'a word) = 2 ^ n"
    using assms by (simp only: unat_of_nat) simp
  then show ?thesis by simp
qed

lemma unat_take_bit: "unat (take_bit n w) = unat w mod 2 ^ n"
proof -
  have "unat (take_bit n w) = take_bit n (unat w)"
    by (rule unsigned_take_bit_eq)
  then show ?thesis by (simp only: take_bit_eq_mod)
qed

lemma unat_add_no_overflow:
  "unat (x :: 'a::len word) + unat y < 2 ^ LENGTH('a) \<Longrightarrow> unat (x + y) = unat x + unat y"
  by (simp add: unat_add_lem)

lemma take_bit_eq_self_less:
  fixes w :: "'a::len word"
  assumes "n < LENGTH('a)"
  shows "take_bit n w = w \<longleftrightarrow> w < 2 ^ n"
proof -
  have "take_bit n w = w \<longleftrightarrow> unat w mod 2 ^ n = unat w"
    by (metis unat_take_bit unsigned_word_eqI)
  also have "\<dots> \<longleftrightarrow> unat w < unat (2 ^ n :: 'a word)"
    by (simp add: unat_power2 [OF assms] mod_eq_self_iff_div_eq_0 div_eq_0_iff)
  finally show ?thesis by (simp add: word_less_nat_alt)
qed

lemma ucast_add_down:
  assumes "LENGTH('b) \<le> LENGTH('a)"
  shows "(ucast (x + y :: 'a::len word) :: 'b::len word) = ucast x + ucast y"
proof -
  have "uint (x + y) = take_bit LENGTH('a) (uint x + uint y)"
    by (simp add: uint_word_ariths(1) take_bit_eq_mod)
  then have "(ucast (x + y) :: 'b word) = of_int (take_bit LENGTH('a) (uint x + uint y))"
    by (metis of_int_uint)
  also have "\<dots> = of_int (uint x + uint y)"
    using assms by (rule wi_bintr)
  finally show ?thesis by simp
qed

lemma take_bit_add_word:
  fixes a b :: "'a::len word"
  shows "take_bit n (take_bit n a + b) = take_bit n (a + b)"
proof -
  have of_int: "take_bit n (of_int i :: 'a word) = of_int (take_bit n i)" for i
    using and_mask_wi [where 'a = 'a, of i n] by (simp only: take_bit_eq_mask [where 'a = "'a word"])
  have "take_bit n (take_bit n a + b) = take_bit n (of_int (take_bit n (uint a) + uint b))"
    using of_int [of "uint a"] by simp
  also have "\<dots> = of_int (take_bit n (uint a + uint b))"
    unfolding of_int by (metis take_bit_add take_bit_take_bit min.idem)
  finally show ?thesis using of_int [of "uint a + uint b"] by simp
qed

section \<open>Little-endian byte conversion\<close>

text \<open>
  \<open>w.to_le_bytes()\<close> (truncated to \<open>n\<close> bytes) and \<open>from_le_bytes\<close>. The value of a byte list
  is characterised by its bits, so that bytewise operations become wordwise ones.
\<close>

definition le_bytes :: "nat \<Rightarrow> 'a::len word \<Rightarrow> bytes" where
  "le_bytes n w = map (\<lambda>i. ucast (drop_bit (8 * i) w)) [0..<n]"

definition from_le_bytes :: "bytes \<Rightarrow> 'a::len word" where
  "from_le_bytes bs = foldr (\<lambda>b acc. ucast b OR push_bit 8 acc) bs 0"

lemma length_le_bytes [simp]: "length (le_bytes n w) = n"
  by (simp add: le_bytes_def)

lemma from_le_bytes_simps [simp]:
  "from_le_bytes [] = 0"
  "from_le_bytes (b # bs) = ucast b OR push_bit 8 (from_le_bytes bs)"
  by (simp_all add: from_le_bytes_def)

lemma bit_from_le_bytes:
  "bit (from_le_bytes bs :: 'a::len word) k \<longleftrightarrow>
     k < LENGTH('a) \<and> k < 8 * length bs \<and> bit (bs ! (k div 8)) (k mod 8)"
proof (induction bs arbitrary: k)
  case Nil
  then show ?case by simp
next
  case (Cons b bs)
  show ?case
  proof (cases "k < 8")
    case True
    then show ?thesis
      by (auto simp: bit_simps dest: bit_imp_le_length)
  next
    case False
    then have "k div 8 = Suc ((k - 8) div 8)" and "k mod 8 = (k - 8) mod 8"
      by (simp_all add: le_div_geq le_mod_geq)
    moreover have "\<not> bit b k"
      using False by (auto dest: bit_imp_le_length)
    ultimately show ?thesis
      using False Cons.IH [of "k - 8"] by (auto simp: bit_simps)
  qed
qed

lemma nth_le_bytes: "i < n \<Longrightarrow> le_bytes n w ! i = ucast (drop_bit (8 * i) w)"
  by (simp add: le_bytes_def)

lemma from_le_bytes_le_bytes [byte_simps]:
  "from_le_bytes (le_bytes n w) = (take_bit (8 * n) w :: 'a::len word)"
proof (rule bit_word_eqI)
  fix k assume "k < LENGTH('a)"
  show "bit (from_le_bytes (le_bytes n w) :: 'a word) k = bit (take_bit (8 * n) w) k"
  proof (cases "k < 8 * n")
    case True
    then have "k div 8 < n" by linarith
    have "8 * (k div 8) + k mod 8 = k" by simp
    then show ?thesis
      using True \<open>k div 8 < n\<close> \<open>k < LENGTH('a)\<close>
      by (simp add: bit_from_le_bytes nth_le_bytes bit_simps)
  next
    case False
    then show ?thesis by (simp add: bit_from_le_bytes bit_simps)
  qed
qed

lemma from_le_bytes_map2_OR [byte_simps]:
  assumes "length as = length bs"
  shows "from_le_bytes (map2 (OR) as bs) =
    (from_le_bytes as OR from_le_bytes bs :: 'a::len word)"
  using assms
  by (intro bit_word_eqI)
    (auto simp: bit_from_le_bytes bit_simps nth_append less_mult_imp_div_less mult.commute)

lemma from_le_bytes_map2_AND [byte_simps]:
  assumes "length as = length bs"
  shows "from_le_bytes (map2 (AND) as bs) =
    (from_le_bytes as AND from_le_bytes bs :: 'a::len word)"
  using assms
  by (intro bit_word_eqI)
    (auto simp: bit_from_le_bytes bit_simps less_mult_imp_div_less mult.commute)

lemma bit_nth_le_bytes:
  "i < n \<Longrightarrow> j < 8 \<Longrightarrow> bit (le_bytes n w ! i) j = bit w (8 * i + j)"
  by (simp add: nth_le_bytes bit_simps)

text \<open>
  A buffer whose first \<open>n\<close> bytes hold a word of exactly that size: every write of the
  relocation code is brought into the form \<open>le_bytes n w @ drop n dest\<close>.
\<close>

lemma bytewise_eq_wordwise:
  fixes w :: "'a::len word" and h :: "'a word \<Rightarrow> 'a word \<Rightarrow> 'a word"
  assumes "LENGTH('a) = 8 * n" and "n \<le> length dest"
    and "\<And>a b j. bit (f a b :: u8) j = (j < 8 \<and> g (bit a j) (bit b j))"
    and "\<And>a b j. bit (h a b) j = (j < LENGTH('a) \<and> g (bit a j) (bit b j))"
  shows "map2 f (take n dest) (le_bytes n w) = le_bytes n (h (from_le_bytes (take n dest)) w)"
proof (rule nth_equalityI)
  show "length (map2 f (take n dest) (le_bytes n w)) =
      length (le_bytes n (h (from_le_bytes (take n dest)) w))"
    using assms(2) by simp
next
  fix i assume "i < length (map2 f (take n dest) (le_bytes n w))"
  then have i: "i < n" by simp
  have "bit (f (dest ! i) (le_bytes n w ! i)) j =
      bit (le_bytes n (h (from_le_bytes (take n dest)) w) ! i) j" if j: "j < 8" for j
  proof -
    have b: "8 * i + j < 8 * n" using i j by linarith
    have "(8 * i + j) div 8 = i" and "(8 * i + j) mod 8 = j" using j by simp_all
    then have "bit (from_le_bytes (take n dest) :: 'a word) (8 * i + j) = bit (dest ! i) j"
      using b i assms(1,2) by (simp add: bit_from_le_bytes)
    then show ?thesis
      using b i j assms(1) by (simp add: assms(3,4) bit_nth_le_bytes)
  qed
  then show "map2 f (take n dest) (le_bytes n w) ! i =
      le_bytes n (h (from_le_bytes (take n dest)) w) ! i"
    using i assms(2) by (intro bit_word_eqI) simp
qed

lemma map2_OR_le_bytes [byte_simps]:
  "LENGTH('a) = 8 * n \<Longrightarrow> n \<le> length dest \<Longrightarrow>
    map2 (OR) (take n dest) (le_bytes n (w :: 'a::len word)) =
    le_bytes n (from_le_bytes (take n dest) OR w)"
  by (rule bytewise_eq_wordwise [where g = "(\<or>)"]) (auto simp: bit_simps dest: bit_imp_le_length)

lemma map2_AND_le_bytes [byte_simps]:
  "LENGTH('a) = 8 * n \<Longrightarrow> n \<le> length dest \<Longrightarrow>
    map2 (AND) (take n dest) (le_bytes n (w :: 'a::len word)) =
    le_bytes n (from_le_bytes (take n dest) AND w)"
  by (rule bytewise_eq_wordwise [where g = "(\<and>)"]) (auto simp: bit_simps dest: bit_imp_le_length)

lemma from_le_bytes_le_bytes_full [simp]:
  "LENGTH('a) = 8 * n \<Longrightarrow> from_le_bytes (le_bytes n w) = (w :: 'a::len word)"
  by (simp add: from_le_bytes_le_bytes take_bit_word_eq_self)

lemma halves_le_bytes:
  fixes w :: u64
  shows "take 4 (le_bytes 8 w) = le_bytes 4 (ucast w :: u32)"
    and "drop 4 (le_bytes 8 w) = le_bytes 4 (ucast (drop_bit 32 w) :: u32)"
  by (rule nth_equalityI; (rule bit_word_eqI)?; simp add: nth_le_bytes bit_simps add.commute add.left_commute)+

section \<open>Keyed stores\<close>

text \<open>
  The contract of a store that maps keys to values and is filled with fresh keys only. A client
  may insert entries in any order and then look up what it inserted.
\<close>

locale keyed_store =
  fixes empty :: 'm
    and insert :: "'m \<Rightarrow> 'k \<Rightarrow> 'v \<Rightarrow> 'm"
    and lookup :: "'m \<Rightarrow> 'k \<Rightarrow> 'v option"
    and inv :: "'m \<Rightarrow> bool"
  assumes inv_empty: "inv empty"
    and lookup_empty: "lookup empty k = None"
    and inv_insert: "inv m \<Longrightarrow> lookup m k = None \<Longrightarrow> inv (insert m k v)"
    and lookup_insert: "inv m \<Longrightarrow> lookup m k = None \<Longrightarrow>
      lookup (insert m k v) k' = (if k' = k then Some v else lookup m k')"
begin

lemma insert_all:
  "inv m \<Longrightarrow> distinct (map fst kvs) \<Longrightarrow> \<forall>k \<in> fst ` set kvs. lookup m k = None \<Longrightarrow>
    inv (foldl (\<lambda>m (k, v). insert m k v) m kvs) \<and>
    lookup (foldl (\<lambda>m (k, v). insert m k v) m kvs) k' =
      (case map_of kvs k' of Some v \<Rightarrow> Some v | None \<Rightarrow> lookup m k')"
proof (induction kvs arbitrary: m)
  case Nil
  then show ?case by simp
next
  case (Cons kv kvs)
  obtain k v where kv: "kv = (k, v)" by (cases kv)
  have fresh: "lookup m k = None" using Cons.prems(3) by (simp add: kv)
  have "inv (insert m k v)" using Cons.prems(1) fresh by (rule inv_insert)
  moreover have "\<forall>k'' \<in> fst ` set kvs. lookup (insert m k v) k'' = None"
    using Cons.prems fresh by (auto simp: kv lookup_insert)
  ultimately have IH: "inv (foldl (\<lambda>m (k, v). insert m k v) (insert m k v) kvs) \<and>
      lookup (foldl (\<lambda>m (k, v). insert m k v) (insert m k v) kvs) k' =
      (case map_of kvs k' of Some v \<Rightarrow> Some v | None \<Rightarrow> lookup (insert m k v) k')"
    using Cons.prems(2) by (intro Cons.IH) (simp_all add: kv)
  have "map_of kvs k = None"
    using Cons.prems(2) by (simp add: kv map_of_eq_None_iff)
  with IH show ?case
    using Cons.prems(1) fresh by (auto simp: kv lookup_insert split: option.splits)
qed

lemma lookup_built:
  "distinct (map fst kvs) \<Longrightarrow> lookup (foldl (\<lambda>m (k, v). insert m k v) empty kvs) k = map_of kvs k"
  using insert_all [OF inv_empty, of kvs k] by (auto simp: lookup_empty split: option.splits)

end

end
