(* ===== verification/Bit_Misc.thy ===== *)
theory Bit_Misc
  imports Prelude
begin

text \<open>
  Model of \<open>linker-utils/src/bit_misc.rs\<close> (the \<open>BitExtraction\<close> trait on \<open>u64\<close>) and of the
  byte-slice helpers of \<open>linker-utils/src/utils.rs\<close>. Bit extraction is related to
  \<^const>\<open>take_bit\<close>, \<^const>\<open>drop_bit\<close> and \<^const>\<open>signed_take_bit\<close>; the slice helpers to
  operations on the little-endian word the slice starts with.
\<close>

section \<open>Bit extraction\<close>

record BitRange =
  start :: nat
  end_bit :: nat

text \<open>Shifts of the release profile: the amount is reduced modulo the width.\<close>

definition shl64 :: "u64 \<Rightarrow> nat \<Rightarrow> u64" where
  "shl64 x n = push_bit (n mod 64) x"

definition shr64 :: "u64 \<Rightarrow> nat \<Rightarrow> u64" where
  "shr64 x n = drop_bit (n mod 64) x"

definition extract_bit_range :: "u64 \<Rightarrow> nat \<Rightarrow> nat \<Rightarrow> u64" where
  "extract_bit_range v lo hi =
     (if lo = 0 \<and> hi = 64 then v
      else shr64 v lo AND (shl64 1 (hi - lo) - 1))"

definition extract_bit :: "u64 \<Rightarrow> nat \<Rightarrow> u64" where
  "extract_bit v position = extract_bit_range v position (position + 1)"

definition low_bits :: "u64 \<Rightarrow> nat \<Rightarrow> u64" where
  "low_bits v num_bits = v AND (shl64 1 num_bits - 1)"

definition sign_extend :: "u64 \<Rightarrow> nat \<Rightarrow> u64" where
  "sign_extend v sign_bit =
     (if v AND shl64 1 sign_bit \<noteq> 0 then v OR NOT (shl64 2 sign_bit - 1) else v)"

definition low_bits_signed :: "u64 \<Rightarrow> nat \<Rightarrow> u64" where
  "low_bits_signed v num_bits = sign_extend (low_bits v num_bits) (num_bits - 1)"

named_theorems extract_simps \<open>bit extraction as take, drop and sign extension\<close>

lemma shl64_1_minus_1: "n < 64 \<Longrightarrow> shl64 1 n - 1 = mask n"
  by (simp add: shl64_def mask_eq_decr_exp)

lemma extract_bit_range_eq [extract_simps]:
  "lo < hi \<Longrightarrow> hi \<le> 64 \<Longrightarrow> extract_bit_range v lo hi = take_bit (hi - lo) (drop_bit lo v)"
  by (rule bit_word_eqI)
    (auto simp: extract_bit_range_def shl64_1_minus_1 shr64_def bit_simps)

lemma extract_bit_eq [extract_simps]:
  "k < 64 \<Longrightarrow> extract_bit v k = of_bool (bit v k)"
  by (simp add: extract_bit_def extract_bit_range_eq bit_iff_odd_drop_bit odd_iff_mod_2_eq_one
      take_bit_eq_mod flip: mod_2_eq_odd)

lemma low_bits_eq [extract_simps]: "n < 64 \<Longrightarrow> low_bits v n = take_bit n v"
  by (simp add: low_bits_def shl64_1_minus_1 take_bit_eq_mask)

lemma AND_single_bit: "n < 64 \<Longrightarrow> v AND shl64 1 n \<noteq> 0 \<longleftrightarrow> bit v n"
  by (simp add: shl64_def and_exp_eq_0_iff_not_bit)

lemma shl64_2_minus_1: "n < 64 \<Longrightarrow> shl64 2 n - 1 = mask (Suc n)"
  by (simp add: shl64_def mask_eq_decr_exp push_bit_eq_mult mult.commute)

lemma low_bits_signed_eq [extract_simps]:
  assumes "0 < n" and "n < 64"
  shows "low_bits_signed v n = signed_take_bit (n - 1) v"
proof -
  obtain m where n: "n = Suc m" using assms(1) by (cases n) auto
  have "bit (low_bits_signed v (Suc m)) k = bit (signed_take_bit m v) k" if "k < 64" for k
    using assms(2) that
    by (auto simp: n low_bits_signed_def sign_extend_def low_bits_eq AND_single_bit
        shl64_2_minus_1 bit_simps min_def less_Suc_eq)
  then show ?thesis
    by (intro bit_word_eqI) (simp add: n)
qed

text \<open>
  Sign extension undoes truncation exactly on the values that fit: this is what makes a signed
  range check in front of a field write sufficient.
\<close>

lemma sint_signed_take_bit: "sint (signed_take_bit n v) = signed_take_bit n (sint (v :: 'a::len word))"
proof -
  have "LENGTH('a) - Suc 0 = n" if "LENGTH('a) - Suc 0 \<le> n" "n < LENGTH('a)"
    using that by simp
  then show ?thesis
    by (intro bit_eqI) (auto simp: bit_simps min_def)
qed

lemma signed_take_bit_fits_iff:
  "signed_take_bit n v = v \<longleftrightarrow> - (2 ^ n) \<le> sint v \<and> sint (v :: 'a::len word) < 2 ^ n"
proof -
  have "signed_take_bit n v = v \<longleftrightarrow> signed_take_bit n (sint v) = sint v"
    by (metis signed_word_eqI sint_signed_take_bit)
  then show ?thesis by (simp add: signed_take_bit_int_eq_self_iff)
qed

lemma signed_take_bit_fits:
  "- (2 ^ n) \<le> sint v \<Longrightarrow> sint v < 2 ^ n \<Longrightarrow> signed_take_bit n v = (v :: 'a::len word)"
  by (simp add: signed_take_bit_fits_iff)

lemma sint_of_int_small:
  assumes "- (2 ^ 63) \<le> k" and "k < 2 ^ 63"
  shows "sint (of_int k :: u64) = k"
  using assms signed_take_bit_int_eq_self_iff [of 63 k] by (simp add: sint_sbintrunc')

text \<open>Sign extension as adding and removing a bias.\<close>

lemma signed_take_bit_shift:
  fixes x :: "'a::len word"
  assumes "n < LENGTH('a) - 1"
  shows "signed_take_bit n x = take_bit (Suc n) (x + 2 ^ n) - 2 ^ n"
proof -
  have "(of_int (signed_take_bit n (sint x)) :: 'a word) = of_int (take_bit (Suc n) (sint x + 2 ^ n) - 2 ^ n)"
    by (simp only: signed_take_bit_eq_take_bit_shift)
  moreover have "(of_int (signed_take_bit n (sint x)) :: 'a word) = signed_take_bit n x"
    using assms by (intro bit_word_eqI) (auto simp: bit_simps min_def)
  moreover have "(of_int (take_bit (Suc n) (sint x + 2 ^ n) - 2 ^ n) :: 'a word) =
      take_bit (Suc n) (x + 2 ^ n) - 2 ^ n"
    by (simp add: take_bit_eq_mask [where a = "x + 2 ^ n"] flip: and_mask_wi)
  ultimately show ?thesis by simp
qed

text \<open>
  The high part rounded to nearest and the sign-extended low part add up to the value: the split
  that pairs of instructions with a signed low immediate use.
\<close>

lemma hi_lo_split:
  fixes x :: "'a::len word"
  assumes "n < LENGTH('a) - 1"
  shows "push_bit (Suc n) (drop_bit (Suc n) (x + 2 ^ n)) + signed_take_bit n x = x"
  using bits_ident [of "Suc n" "x + 2 ^ n"]
  by (simp only: signed_take_bit_shift [OF assms]) (simp add: algebra_simps)

section \<open>Byte slices\<close>

definition u32_from_slice :: "bytes \<Rightarrow> u32 option" where
  "u32_from_slice data = (if 4 \<le> length data then Some (from_le_bytes (take 4 data)) else None)"

definition u64_from_slice :: "bytes \<Rightarrow> u64 option" where
  "u64_from_slice data = (if 8 \<le> length data then Some (from_le_bytes (take 8 data)) else None)"

definition or_from_slice :: "bytes \<Rightarrow> bytes \<Rightarrow> bytes option" where
  "or_from_slice dest mask_bytes =
     (if length mask_bytes \<le> length dest
      then Some (map2 (OR) (take (length mask_bytes) dest) mask_bytes @ drop (length mask_bytes) dest)
      else None)"

definition and_from_slice :: "bytes \<Rightarrow> bytes \<Rightarrow> bytes option" where
  "and_from_slice dest mask_bytes =
     (if length mask_bytes \<le> length dest
      then Some (map2 (AND) (take (length mask_bytes) dest) mask_bytes @ drop (length mask_bytes) dest)
      else None)"

lemma length_or_from_slice: "or_from_slice dest m = Some d \<Longrightarrow> length d = length dest"
  by (auto simp: or_from_slice_def split: if_splits)

lemma length_and_from_slice: "and_from_slice dest m = Some d \<Longrightarrow> length d = length dest"
  by (auto simp: and_from_slice_def split: if_splits)

text \<open>On a buffer that is long enough the slice helpers act on the word it starts with.\<close>

lemma or_from_slice_le_bytes [byte_simps]:
  "LENGTH('a) = 8 * n \<Longrightarrow> n \<le> length dest \<Longrightarrow>
    or_from_slice dest (le_bytes n (w :: 'a::len word)) =
    Some (le_bytes n (from_le_bytes (take n dest) OR w) @ drop n dest)"
  by (simp add: or_from_slice_def map2_OR_le_bytes)

lemma and_from_slice_le_bytes [byte_simps]:
  "LENGTH('a) = 8 * n \<Longrightarrow> n \<le> length dest \<Longrightarrow>
    and_from_slice dest (le_bytes n (w :: 'a::len word)) =
    Some (le_bytes n (from_le_bytes (take n dest) AND w) @ drop n dest)"
  by (simp add: and_from_slice_def map2_AND_le_bytes)

lemma or_from_slice_short: "length dest < length m \<Longrightarrow> or_from_slice dest m = None"
  by (simp add: or_from_slice_def)

lemma and_from_slice_short: "length dest < length m \<Longrightarrow> and_from_slice dest m = None"
  by (simp add: and_from_slice_def)

end
