(* ===== verification/Elf_Reloc.thy ===== *)
theory Elf_Reloc
  imports Bit_Misc
begin

text \<open>
  Model of the relocation vocabulary of \<open>linker-utils/src/elf.rs\<close>: relocation kinds, the
  instruction encodings a relocation can patch, relocation sizes, page masks, the range and
  alignment check (\<open>AllowedRange\<close>, \<open>RelocationKindInfo::verify\<close>), and the matching of a raw
  relocation type against the arms of an architecture's table.

  The ELF constants \<open>object::elf::R_*\<close> come from the \<open>object\<close> crate. They are a parameter
  \<open>elf\<close> from constant names to numbers; a table is a list of arms, tried in order.
\<close>

section \<open>Data\<close>

datatype Sign = Signed | Unsigned

datatype RelocationKind =
    Absolute
  | AbsoluteSet
  | AbsoluteSetWord6
  | AbsoluteAddition
  | AbsoluteAdditionWord6
  | AbsoluteSubtraction
  | AbsoluteSubtractionWord6
  | AbsoluteLowPart
  | PairSubtractionULEB128 u32
  | Relative
  | RelativeLoongArchHigh
  | RelativeRiscVLow12
  | SymRelGotBase
  | GotRelGotBase
  | Got
  | PltRelGotBase
  | PltRelative
  | GotRelative
  | GotRelativeLoongArch64
  | TlsGd
  | TlsGdGot
  | TlsGdGotBase
  | TlsLd
  | TlsLdGot
  | TlsLdGotBase
  | DtpOff
  | GotTpOff
  | GotTpOffLoongArch64
  | GotTpOffGot
  | GotTpOffGotBase
  | TpOff
  | TlsDesc
  | TlsDescLoongArch64
  | TlsDescGot
  | TlsDescGotBase
  | TlsDescCall
  | None_kind
  | Alignment_kind

definition is_tls :: "RelocationKind \<Rightarrow> bool" where
  "is_tls k \<longleftrightarrow>
     k \<in> {DtpOff, GotTpOff, GotTpOffGotBase, TlsDesc, TlsDescCall, TlsDescGot, TlsDescGotBase,
          TlsGd, TlsGdGot, TlsGdGotBase, TlsLd, TlsLdGot, TlsLdGotBase, TpOff}"

datatype DynamicRelocationKind =
    Copy
  | Irelative
  | DtpMod
  | DtpOff
  | TlsDesc
  | TpOff
  | Relative
  | Absolute
  | GotEntry
  | JumpSlot

datatype AArch64Instruction =
  Adr | Movkz | Movnz | Ldr | LdrRegister | Add | LdSt | TstBr | Bcond | JumpCall

datatype RiscVInstruction =
  UiType | UType | IType | SType | BType | JType | CbType | CjType | CluiType

datatype LoongArch64Instruction = Shift5 | Shift10 | Branch21 | Branch26 | Call30 | Call36

datatype RelocationInstruction =
    AArch64 AArch64Instruction
  | RiscV RiscVInstruction
  | LoongArch64 LoongArch64Instruction

record BitMask =
  instruction :: RelocationInstruction
  bit_range :: BitRange

datatype RelocationSize = ByteSize nat | BitMasking BitMask

definition BitMask_new :: "RelocationInstruction \<Rightarrow> nat \<Rightarrow> nat \<Rightarrow> BitMask" where
  "BitMask_new insn bit_start bit_end =
     \<lparr>instruction = insn, bit_range = \<lparr>start = bit_start, end_bit = bit_end\<rparr>\<rparr>"

definition bit_mask_aarch64 :: "nat \<Rightarrow> nat \<Rightarrow> AArch64Instruction \<Rightarrow> RelocationSize" where
  "bit_mask_aarch64 bit_start bit_end insn =
     BitMasking (BitMask_new (AArch64 insn) bit_start bit_end)"

definition bit_mask_riscv :: "nat \<Rightarrow> nat \<Rightarrow> RiscVInstruction \<Rightarrow> RelocationSize" where
  "bit_mask_riscv bit_start bit_end insn =
     BitMasking (BitMask_new (RiscV insn) bit_start bit_end)"

definition bit_mask_loongarch64 :: "nat \<Rightarrow> nat \<Rightarrow> LoongArch64Instruction \<Rightarrow> RelocationSize" where
  "bit_mask_loongarch64 bit_start bit_end insn =
     BitMasking (BitMask_new (LoongArch64 insn) bit_start bit_end)"

definition SIZE_2KB :: u64 where "SIZE_2KB = push_bit 11 1"
definition SIZE_4KB :: u64 where "SIZE_4KB = push_bit 12 1"
definition SIZE_2GB :: u64 where "SIZE_2GB = push_bit 31 1"
definition SIZE_4GB :: u64 where "SIZE_4GB = push_bit 32 1"
definition PAGE_MASK_4KB :: u64 where "PAGE_MASK_4KB = SIZE_4KB - 1"
definition PAGE_MASK_4GB :: u64 where "PAGE_MASK_4GB = SIZE_4GB - 1"

datatype PageMask =
    SymbolPlusAddendAndPosition u64
  | GotEntryAndPosition u64
  | GotBase u64
  | Position u64

text \<open>The bounds of an allowed range are \<open>i64\<close> values, kept as integers.\<close>

record AllowedRange =
  range_min :: int
  range_max :: int

record RelocationKindInfo =
  rel_kind :: RelocationKind
  rel_size :: RelocationSize
  rel_mask :: "PageMask option"
  rel_range :: AllowedRange
  rel_alignment :: nat
  rel_bias :: u64

section \<open>Range and alignment check\<close>

definition AllowedRange_new :: "int \<Rightarrow> int \<Rightarrow> AllowedRange" where
  "AllowedRange_new lo hi = \<lparr>range_min = lo, range_max = hi\<rparr>"

definition no_check :: AllowedRange where
  "no_check = AllowedRange_new (- (2 ^ 63)) (2 ^ 63 - 1)"

text \<open>\<^const>\<open>None\<close> is the panic of the \<open>const fn\<close>.\<close>

definition from_bit_size :: "nat \<Rightarrow> Sign \<Rightarrow> AllowedRange option" where
  "from_bit_size n_bits sign =
     (if n_bits = 0 \<or> n_bits = 64 then Some no_check
      else if n_bits = 63 \<and> sign = Unsigned then None
      else if 1 \<le> n_bits \<and> n_bits < 64 then
        (case sign of
           Unsigned \<Rightarrow> Some (AllowedRange_new 0 (2 ^ n_bits))
         | Signed \<Rightarrow> Some (AllowedRange_new (- (2 ^ (n_bits - 1))) (2 ^ (n_bits - 1))))
      else None)"

definition from_byte_size :: "nat \<Rightarrow> Sign \<Rightarrow> AllowedRange option" where
  "from_byte_size n_bytes sign = from_bit_size (8 * n_bytes) sign"

definition range_contains :: "AllowedRange \<Rightarrow> int \<Rightarrow> bool" where
  "range_contains r value \<longleftrightarrow> range_min r \<le> value \<and> value < range_max r"

datatype reloc_error =
    NotAligned u64 nat
  | OutsideOfBounds u64 AllowedRange
  | OutsideOfSection
  | CannotWriteUleb nat

definition is_multiple_of :: "nat \<Rightarrow> nat \<Rightarrow> bool" where
  "is_multiple_of x m \<longleftrightarrow> (if m = 0 then x = 0 else x mod m = 0)"

definition verify :: "RelocationKindInfo \<Rightarrow> u64 \<Rightarrow> reloc_error + unit" where
  "verify info value =
     (if \<not> is_multiple_of (unat value) (rel_alignment info)
      then Inl (NotAligned value (rel_alignment info))
      else if \<not> range_contains (rel_range info) (sint value)
      then Inl (OutsideOfBounds value (rel_range info))
      else Inr ())"

lemma verify_Inr_iff:
  "verify info value = Inr () \<longleftrightarrow>
     is_multiple_of (unat value) (rel_alignment info) \<and>
     range_contains (rel_range info) (sint value)"
  by (simp add: verify_def)

text \<open>A value in an \<open>n\<close>-bit signed range is unchanged by truncation to \<open>n\<close> bits and sign extension.\<close>

lemma contains_signed_fits:
  assumes "from_bit_size n Signed = Some r" and "0 < n" and "n < 64"
    and "range_contains r (sint v)"
  shows "signed_take_bit (n - 1) v = v"
  using assms
  by (intro signed_take_bit_fits)
    (auto simp: from_bit_size_def range_contains_def AllowedRange_new_def split: if_splits)

lemma contains_unsigned_fits:
  assumes "from_bit_size n Unsigned = Some r" and "0 < n" and "n < 63"
    and "range_contains r (sint v)"
  shows "take_bit n v = (v :: u64)"
proof -
  have "0 \<le> sint v" and lt: "sint v < 2 ^ n"
    using assms by (auto simp: from_bit_size_def range_contains_def AllowedRange_new_def split: if_splits)
  moreover have "(2 :: int) ^ n < 2 ^ 64"
    using assms(3) by (intro power_strict_increasing) auto
  ultimately have "uint v = sint v"
    unfolding uint_sint [of v] by (intro take_bit_int_eq_self) auto
  then have "uint (take_bit n v) = uint v"
    using lt \<open>0 \<le> sint v\<close> by (simp add: unsigned_take_bit_eq take_bit_int_eq_self_iff)
  then show ?thesis by (rule unsigned_word_eqI)
qed

section \<open>Matching a raw relocation type\<close>

text \<open>
  The arms of a \<open>match r_type\<close>: each arm lists the constants of its pattern and its value. The
  first arm that matches wins.
\<close>

type_synonym 'v arms = "(string list \<times> 'v) list"
type_synonym reloc_tuple =
  "RelocationKind \<times> RelocationSize \<times> PageMask option \<times> AllowedRange option \<times> nat"

definition match_arms :: "(string \<Rightarrow> u32) \<Rightarrow> 'v arms \<Rightarrow> u32 \<Rightarrow> 'v option" where
  "match_arms elf arms r_type =
     map_option snd (find (\<lambda>(names, v). list_ex (\<lambda>n. elf n = r_type) names) arms)"

lemma match_arms_mem:
  "match_arms elf arms r = Some v \<Longrightarrow> \<exists>names. (names, v) \<in> set arms \<and> r \<in> elf ` set names"
  by (auto simp: match_arms_def find_Some_iff list_ex_iff image_iff)
    (metis nth_mem prod.collapse)

lemma match_arms_list_all:
  "match_arms elf arms r = Some v \<Longrightarrow> list_all (\<lambda>(names, w). P names w) arms \<Longrightarrow>
    \<exists>names. P names v \<and> r \<in> elf ` set names"
  by (auto simp: list_all_iff dest!: match_arms_mem)

text \<open>
  With distinct constants, an arm is reached by each name of its own pattern: no arm is shadowed
  by an earlier one.
\<close>

definition arm_names :: "'v arms \<Rightarrow> string list" where
  "arm_names arms = concat (map fst arms)"

text \<open>A numeric key of a name, to check the distinctness of many names by arithmetic.\<close>

fun name_key :: "string \<Rightarrow> int" where
  "name_key [] = 0"
| "name_key (c # cs) = of_char c + 3 * name_key cs"

lemma distinct_name_keys: "distinct (map name_key xs) \<Longrightarrow> distinct xs"
  by (simp add: distinct_map)

lemma match_arms_unique:
  assumes "distinct (arm_names arms)" and "inj_on elf (set (arm_names arms))"
    and "(names, v) \<in> set arms" and "n \<in> set names"
  shows "match_arms elf arms (elf n) = Some v"
  using assms
proof (induction arms)
  case Nil
  then show ?case by simp
next
  case (Cons arm arms)
  obtain ns w where arm: "arm = (ns, w)" by (cases arm)
  show ?case
  proof (cases "n \<in> set ns")
    case True
    moreover have "n \<in> set (arm_names arms)" if "(names, v) \<in> set arms"
      using that Cons.prems(4) by (force simp: arm_names_def)
    ultimately have "(names, v) = arm"
      using Cons.prems(1,3) by (auto simp: arm arm_names_def)
    with True show ?thesis
      by (simp add: match_arms_def arm list_ex_iff) blast
  next
    case False
    then have mem: "(names, v) \<in> set arms" using Cons.prems(3,4) by (auto simp: arm)
    have "n \<in> set (arm_names arms)" using mem Cons.prems(4) by (force simp: arm_names_def)
    then have "\<forall>m \<in> set ns. elf m \<noteq> elf n"
      using Cons.prems(2) False by (auto simp: arm arm_names_def inj_on_def)
    moreover have "match_arms elf arms (elf n) = Some v"
      using Cons.prems mem by (intro Cons.IH) (auto simp: arm_names_def inj_on_def)
    ultimately show ?thesis
      by (auto simp: match_arms_def arm list_ex_iff)
  qed
qed

text \<open>Numbering the names of a table by position gives constants that are distinct.\<close>

definition numbered :: "string list \<Rightarrow> string \<Rightarrow> u32" where
  "numbered names n = of_nat (length (takeWhile (\<lambda>m. m \<noteq> n) names))"

lemma takeWhile_neq_nth: "n \<in> set xs \<Longrightarrow> xs ! length (takeWhile (\<lambda>m. m \<noteq> n) xs) = n"
  by (induction xs) auto

lemma inj_on_numbered:
  assumes "length names < 2 ^ 32"
  shows "inj_on (numbered names) (set names)"
proof (rule inj_onI)
  fix m n assume mem: "m \<in> set names" "n \<in> set names" and eq: "numbered names m = numbered names n"
  have "unat (numbered names k) = length (takeWhile (\<lambda>x. x \<noteq> k) names)" for k
    using assms length_takeWhile_le [of "\<lambda>x. x \<noteq> k" names]
    unfolding numbered_def by (subst unat_of_nat) (rule mod_less, simp)
  then have "length (takeWhile (\<lambda>x. x \<noteq> m) names) = length (takeWhile (\<lambda>x. x \<noteq> n) names)"
    using eq by metis
  then show "m = n"
    using mem takeWhile_neq_nth by metis
qed

end
