(* ===== verification/Insn_Codec.thy ===== *)
theory Insn_Codec
  imports Elf_Reloc
begin

text \<open>
  The interface between the relocation writer and the instruction encoders of the
  architectures: an encoder patches a window of bytes at the start of its destination and, for
  values that fit its immediate, changes only the bits of that immediate. The facts the writer
  needs are proved once from these laws.
\<close>

section \<open>Shared pieces of the encoders\<close>

definition and_then_or :: "bytes \<Rightarrow> bytes \<Rightarrow> bytes \<Rightarrow> bytes option" where
  "and_then_or dest keep bits = do { d \<leftarrow> and_from_slice dest keep; or_from_slice d bits }"

lemma and_then_or_le_bytes [byte_simps]:
  "LENGTH('a) = 8 * n \<Longrightarrow> n \<le> length dest \<Longrightarrow>
    and_then_or dest (le_bytes n k) (le_bytes n (b :: 'a::len word)) =
    Some (le_bytes n ((from_le_bytes (take n dest) AND k) OR b) @ drop n dest)"
  by (simp add: and_then_or_def and_from_slice_le_bytes or_from_slice_le_bytes)

lemma and_then_or_short: "length dest < length k \<Longrightarrow> and_then_or dest k b = None"
  by (simp add: and_then_or_def and_from_slice_short)

text \<open>\<open>((imm as i32) << n) >> n\<close>, widened to \<open>u64\<close>, with its sign.\<close>

definition sext32 :: "nat \<Rightarrow> i32 \<Rightarrow> u64 \<times> bool" where
  "sext32 n imm =
     (let sign_extended = signed_drop_bit n (push_bit n imm)
      in (scast sign_extended, sint sign_extended < 0))"

lemma list_all_upt_numeral:
  "list_all P [0..<numeral k] \<longleftrightarrow> P (pred_numeral k) \<and> list_all P [0..<pred_numeral k]"
  "list_all P [0..<1] \<longleftrightarrow> P 0"
  by (auto simp: numeral_eq_Suc)

lemma AND_low_mask:
  "w AND 0x1 = take_bit 1 w" "w AND 0x3 = take_bit 2 w" "w AND 0x7 = take_bit 3 w"
  "w AND 0xf = take_bit 4 w" "w AND 0x1f = take_bit 5 w" "w AND 0x3f = take_bit 6 w"
  "w AND 0x7f = take_bit 7 w" "w AND 0xff = take_bit 8 w" "w AND 0x3ff = take_bit 10 w"
  "w AND 0xfff = take_bit 12 w" "w AND 0xfffff = take_bit 20 w" for w :: "'a::len word"
  by (simp_all add: take_bit_eq_mask mask_numeral del: and_one_eq)

lemma shl_sar_eq:
  assumes "m + n = 31"
  shows "signed_drop_bit n (push_bit n imm) = signed_take_bit m (imm :: i32)"
proof (rule bit_word_eqI)
  fix k assume k: "k < LENGTH(32)"
  show "bit (signed_drop_bit n (push_bit n imm)) k = bit (signed_take_bit m imm) k"
  proof (cases "k \<le> m")
    case True
    then have "\<not> 32 - n \<le> k" "n + k < 32" using assms by linarith+
    with True k show ?thesis by (simp add: bit_signed_drop_bit_iff bit_signed_take_bit_iff bit_push_bit_iff min_absorb1)
  next
    case False
    then have "32 - n \<le> k" "31 - n = m" "n \<le> 31" using assms by linarith+
    with False k show ?thesis by (simp add: bit_signed_drop_bit_iff bit_signed_take_bit_iff bit_push_bit_iff min_absorb2)
  qed
qed

lemma scast_signed_take_bit:
  assumes "m \<le> 31"
  shows "(scast (signed_take_bit m (imm :: i32)) :: u64) = signed_take_bit m (ucast imm)"
proof (rule bit_word_eqI)
  fix k assume "k < LENGTH(64)"
  then show "bit (scast (signed_take_bit m imm) :: u64) k = bit (signed_take_bit m (ucast imm :: u64)) k"
    using assms by (cases "k \<le> m"; cases "k \<le> 31")
      (simp_all add: bit_signed_iff bit_signed_take_bit_iff bit_unsigned_iff min_absorb1 min_absorb2)
qed

lemma sext32_eq:
  assumes "m + n = 31"
  shows "sext32 n imm = (signed_take_bit m (ucast imm), bit imm m)"
proof -
  have "sint (signed_take_bit m imm) < 0 \<longleftrightarrow> bit imm m"
    using bit_last_iff [of "signed_take_bit m imm"] assms
    by (simp add: bit_signed_take_bit_iff min_absorb2)
  then show ?thesis
    using assms by (simp add: sext32_def shl_sar_eq [OF assms] scast_signed_take_bit)
qed

lemma u32_from_slice_le_bytes [byte_simps]: "u32_from_slice (le_bytes 4 (w :: u32) @ bs) = Some w"
  by (simp add: u32_from_slice_def)

lemma sext32_eqI:
  assumes "list_all (\<lambda>k. bit imm k = bit v k) [0..<Suc m]" and "m + n = 31"
  shows "sext32 n imm = (signed_take_bit m v, bit v m)"
proof -
  have "bit imm k = bit v k" if "k < Suc m" for k
    using assms(1) that unfolding list_all_iff by (metis atLeastLessThan_iff atLeastLessThan_upt zero_le)
  then have "take_bit (Suc m) (ucast imm) = take_bit (Suc m) v" and "bit imm m = bit v m"
    using assms(2) by (auto intro!: bit_word_eqI simp: bit_simps)
  then show ?thesis
    using assms by (simp add: sext32_eq signed_take_bit_eq_iff_take_bit_eq)
qed

lemma signed_fits_sign:
  assumes "signed_take_bit m v = (v :: u64)" and "m < 64"
  shows "bit v m \<longleftrightarrow> sint v < 0"
proof -
  have "bit (signed_take_bit m v) 63 = bit v m"
    using assms(2) by (simp add: bit_signed_take_bit_iff min_absorb2)
  then have "bit v 63 = bit v m" by (simp only: assms(1))
  then show ?thesis
    using bit_last_iff [of v] by simp
qed

section \<open>Changing only the immediate\<close>

definition preserves_outside :: "nat \<Rightarrow> u64 \<Rightarrow> bytes \<Rightarrow> bytes \<Rightarrow> bool" where
  "preserves_outside n field dest d \<longleftrightarrow>
     length d = length dest \<and> drop n d = drop n dest \<and>
     (from_le_bytes (take n d) :: u64) AND NOT field = from_le_bytes (take n dest) AND NOT field"

lemma preserves_outside_same_outside: "preserves_outside n field dest d \<Longrightarrow> same_outside 0 n dest d"
  by (simp add: preserves_outside_def same_outside_def)

lemma preserves_outside_bit:
  assumes "preserves_outside n field dest d" and "n \<le> length dest" and "n \<le> 8"
    and "i < n" and "j < 8" and "\<not> bit field (8 * i + j)"
  shows "bit (d ! i) j = bit (dest ! i) j"
proof -
  have k: "8 * i + j < 8 * n" "8 * i + j < 64" using assms(3-5) by linarith+
  have "bit ((from_le_bytes (take n d) :: u64) AND NOT field) (8 * i + j) =
      bit ((from_le_bytes (take n dest) :: u64) AND NOT field) (8 * i + j)"
    using assms(1) by (simp add: preserves_outside_def)
  moreover have "length d = length dest"
    using assms(1) by (simp add: preserves_outside_def)
  ultimately show ?thesis
    using assms(2-6) k by (simp add: bit_simps bit_from_le_bytes)
qed

text \<open>A word-sized patch, seen as a window of its bytes.\<close>

lemma ucast_from_le_bytes:
  assumes "LENGTH('a) = 8 * n" and "length bs = n" and "LENGTH('a::len) \<le> LENGTH('b::len)"
  shows "(from_le_bytes bs :: 'b word) = ucast (from_le_bytes bs :: 'a word)"
  using assms by (intro bit_word_eqI) (auto simp: bit_from_le_bytes bit_simps)

lemma preserves_outside_word:
  fixes w w' f :: "'a::len word"
  assumes "LENGTH('a) = 8 * n" and "n \<le> 8" and "n \<le> length dest"
    and "w = from_le_bytes (take n dest)" and "w' AND NOT f = w AND NOT f"
  shows "preserves_outside n (ucast f) dest (le_bytes n w' @ drop n dest)"
proof -
  have eq: "bit w' k = bit w k" if "\<not> bit f k" "k < LENGTH('a)" for k
  proof -
    have "bit (w' AND NOT f) k = bit (w AND NOT f) k"
      by (simp only: assms(5))
    then show ?thesis using that by (simp add: bit_simps)
  qed
  have "(from_le_bytes (take n dest) :: u64) = ucast w"
    using ucast_from_le_bytes [where 'a = 'a and 'b = 64 and bs = "take n dest"] assms(1-4)
    by simp
  moreover have "(from_le_bytes (le_bytes n w') :: u64) = ucast w'"
    using ucast_from_le_bytes [where 'a = 'a and 'b = 64 and bs = "le_bytes n w'"] assms(1,2)
    by simp
  moreover have "(ucast w' :: u64) AND NOT (ucast f) = ucast w AND NOT (ucast f)"
    using eq by (intro bit_word_eqI) (auto simp: bit_simps dest: bit_imp_le_length)
  ultimately show ?thesis
    using assms(3) by (simp add: preserves_outside_def)
qed

text \<open>Two adjacent windows of four bytes make one of eight.\<close>

lemma from_le_bytes_append:
  "from_le_bytes (as @ bs) = (from_le_bytes as OR push_bit (8 * length as) (from_le_bytes bs) :: 'a::len word)"
  by (induction as) (simp_all add: push_bit_or or.assoc)

lemma preserves_outside_append:
  assumes "preserves_outside 4 f (take 4 dest) hi" and "preserves_outside 4 g (drop 4 dest) lo"
    and "8 \<le> length dest"
  shows "preserves_outside 8 (f OR push_bit 32 g) dest (hi @ lo)"
proof -
  have len: "length hi = 4" "length lo = length dest - 4" "drop 4 lo = drop 4 (drop 4 dest)"
    using assms by (simp_all add: preserves_outside_def)
  have hi: "(from_le_bytes hi :: u64) AND NOT f = from_le_bytes (take 4 dest) AND NOT f"
    using assms(1) len by (simp add: preserves_outside_def)
  have lo: "(from_le_bytes (take 4 lo) :: u64) AND NOT g = from_le_bytes (take 4 (drop 4 dest)) AND NOT g"
    using assms(2) by (simp add: preserves_outside_def)
  have dest8: "take 8 dest = take 4 dest @ take 4 (drop 4 dest)"
    by (simp add: take_drop [symmetric] flip: take_add)
  have "bit (from_le_bytes (hi @ take 4 lo) AND NOT (f OR push_bit 32 g)) k =
      bit (from_le_bytes (take 8 dest) AND NOT (f OR push_bit 32 g)) k" if "k < 64" for k :: nat
    using arg_cong [OF hi, of "\<lambda>w. bit w k"] arg_cong [OF lo, of "\<lambda>w. bit w (k - 32)"] that len assms(3)
    by (auto simp: dest8 from_le_bytes_append bit_simps)
  then have "(from_le_bytes (hi @ take 4 lo) :: u64) AND NOT (f OR push_bit 32 g) =
      from_le_bytes (take 8 dest) AND NOT (f OR push_bit 32 g)"
    by (intro bit_word_eqI) simp
  then show ?thesis
    using len assms(3) by (simp add: preserves_outside_def)
qed

text \<open>Reading a field back from a word whose field was clear before the value was or-ed in.\<close>

lemma take_bit_field_readback:
  fixes v :: u64 and w :: u32
  assumes "w AND push_bit p (mask n) = 0" and "p + n \<le> 32"
  shows "take_bit n (drop_bit p (ucast (w OR push_bit p (ucast (take_bit n v))) :: u64)) = take_bit n v"
proof (rule bit_word_eqI)
  fix k assume "k < LENGTH(64)"
  have "k < n \<Longrightarrow> \<not> bit w (k + p)"
    using arg_cong [OF assms(1), of "\<lambda>w. bit w (k + p)"] assms(2) by (simp add: bit_simps)
  then show "bit (take_bit n (drop_bit p (ucast (w OR push_bit p (ucast (take_bit n v))) :: u64))) k =
      bit (take_bit n v) k"
    using assms(2) by (auto simp: bit_simps add.commute)
qed

lemma signed_field_readback:
  fixes v :: u64 and w :: u32
  assumes "w AND push_bit p (mask (Suc n)) = 0" and "p + Suc n \<le> 32"
  shows "signed_take_bit n (drop_bit p (ucast (w OR push_bit p (ucast (take_bit (Suc n) v))) :: u64)) =
    signed_take_bit n v"
  using take_bit_field_readback [OF assms] by (simp add: signed_take_bit_eq_iff_take_bit_eq)

text \<open>Shifting an extracted signed field back into place restores the value above the field's start.\<close>

lemma push_signed_drop:
  fixes v :: u64
  assumes "lo < hi" and "hi \<le> 64"
  shows "push_bit lo (signed_take_bit (hi - lo - 1) (drop_bit lo v)) =
    signed_take_bit (hi - 1) v AND NOT (mask lo)"
proof (rule bit_word_eqI)
  fix n assume "n < LENGTH(64)"
  then show "bit (push_bit lo (signed_take_bit (hi - lo - 1) (drop_bit lo v))) n =
      bit (signed_take_bit (hi - 1) v AND NOT (mask lo)) n"
    using assms by (cases "lo \<le> n"; cases "hi - 1 \<le> n") (auto simp: bit_simps min_def)
qed

lemma aligned_low_bits_clear:
  assumes "unat v mod 2 ^ lo = 0"
  shows "v AND NOT (mask lo) = (v :: 'a::len word)"
proof -
  have "take_bit lo v = 0"
    using assms unat_take_bit [of lo v] by (metis unsigned_0 unsigned_word_eqI)
  then have "\<not> bit v n" if "n < lo" for n
    using that by (metis bit_0_eq bit_take_bit_iff bot_apply bot_bool_def)
  then show ?thesis
    by (intro bit_word_eqI) (auto simp: bit_simps)
qed

text \<open>
  A relocation size is within bounds for a table of immediate widths when it is a whole number
  of bytes of at most a word, or a non-empty bit range no wider than the immediate.
\<close>

definition size_fits :: "(RelocationInstruction \<Rightarrow> nat) \<Rightarrow> RelocationSize \<Rightarrow> bool" where
  "size_fits width sz =
     (case sz of
        ByteSize n \<Rightarrow> n \<le> 8
      | BitMasking bm \<Rightarrow>
          start (bit_range bm) < end_bit (bit_range bm) \<and> end_bit (bit_range bm) \<le> 64 \<and>
          end_bit (bit_range bm) - start (bit_range bm) \<le> width (instruction bm))"

locale insn_writer =
  fixes enc :: "'i \<Rightarrow> u64 \<Rightarrow> bool \<Rightarrow> bytes \<Rightarrow> bytes option"
    and window :: "'i \<Rightarrow> nat"
    and width :: "'i \<Rightarrow> nat"
    and field :: "'i \<Rightarrow> u64"
  assumes window_le: "window i \<le> 8"
    and write_None_iff: "enc i v neg dest = None \<longleftrightarrow> length dest < window i"
    and write_preserves: "enc i v neg dest = Some d \<Longrightarrow> take_bit (width i) v = v \<Longrightarrow>
      preserves_outside (window i) (field i) dest d"
begin

lemma extract_fits:
  assumes "lo < hi" and "hi \<le> 64" and "hi - lo \<le> width i"
  shows "take_bit (width i) (extract_bit_range v lo hi) = extract_bit_range v lo hi"
  using assms by (simp add: extract_bit_range_eq min_def)

text \<open>
  Patching an extracted field that is no wider than the immediate succeeds on every buffer that
  holds the window and changes nothing but the immediate.
\<close>

lemma write_extracted:
  assumes "lo < hi" and "hi \<le> 64" and "hi - lo \<le> width i" and "window i \<le> length dest"
  shows "\<exists>d. enc i (extract_bit_range v lo hi) neg dest = Some d \<and>
    preserves_outside (window i) (field i) dest d"
proof -
  obtain d where d: "enc i (extract_bit_range v lo hi) neg dest = Some d"
    using assms(4) write_None_iff [of i "extract_bit_range v lo hi" neg dest] by (metis not_le option.exhaust)
  then show ?thesis
    using write_preserves extract_fits [OF assms(1-3)] by blast
qed

lemma write_extracted_bit:
  assumes "enc i (extract_bit_range v lo hi) neg dest = Some d"
    and "lo < hi" and "hi \<le> 64" and "hi - lo \<le> width i"
    and "k < window i" and "j < 8" and "\<not> bit (field i) (8 * k + j)"
  shows "bit (d ! k) j = bit (dest ! k) j"
proof (rule preserves_outside_bit)
  show "preserves_outside (window i) (field i) dest d"
    using assms(1) extract_fits [OF assms(2-4)] by (rule write_preserves)
  show "window i \<le> length dest"
    using assms(1) write_None_iff [of i "extract_bit_range v lo hi" neg dest] by (simp add: not_less)
qed (use assms window_le in auto)

end

end
