(* ===== verification/Relaxation.thy ===== *)
theory Relaxation
  imports Prelude "HOL-Library.Multiset"
begin

text \<open>
  Model of \<open>linker-utils/src/relaxation.rs\<close>: the byte adjustments relaxation makes to a
  section, and the translation of offsets between the input and the output section. A positive
  delta deletes bytes, a negative one inserts them.
\<close>

datatype RelocationModifier = Normal | SkipNextRelocation

record RelaxDelta =
  input_offset :: u64
  cumulative_delta :: i64
  bytes_delta :: i32

record SectionDeltas =
  deltas :: "RelaxDelta list"

section \<open>Construction\<close>

fun push_deltas :: "i64 \<Rightarrow> (u64 \<times> i32) list \<Rightarrow> RelaxDelta list" where
  "push_deltas running [] = []"
| "push_deltas running ((off, d) # raw) =
     (let running' = running + scast d
      in \<lparr>input_offset = off, cumulative_delta = running', bytes_delta = d\<rparr> # push_deltas running' raw)"

definition SectionDeltas_new :: "(u64 \<times> i32) list \<Rightarrow> SectionDeltas" where
  "SectionDeltas_new raw = \<lparr>deltas = push_deltas 0 raw\<rparr>"

definition deltas_is_empty :: "SectionDeltas \<Rightarrow> bool" where
  "deltas_is_empty s \<longleftrightarrow> deltas s = []"

definition total_delta :: "SectionDeltas \<Rightarrow> i64" where
  "total_delta s = (if deltas s = [] then 0 else cumulative_delta (last (deltas s)))"

definition merge_additional :: "SectionDeltas \<Rightarrow> (u64 \<times> i32) list \<Rightarrow> SectionDeltas" where
  "merge_additional s additional =
     (if additional = [] then s
      else SectionDeltas_new
        (sort_key fst (map (\<lambda>d. (input_offset d, bytes_delta d)) (deltas s) @ additional)))"

section \<open>Lookup\<close>

definition has_delta_at :: "SectionDeltas \<Rightarrow> u64 \<Rightarrow> bool" where
  "has_delta_at s off = (case binary_search_by_key off input_offset (deltas s) of Inr _ \<Rightarrow> True | Inl _ \<Rightarrow> False)"

definition delta_at :: "SectionDeltas \<Rightarrow> u64 \<Rightarrow> i32" where
  "delta_at s off =
     (case binary_search_by_key off input_offset (deltas s) of
        Inr i \<Rightarrow> bytes_delta (deltas s ! i) | Inl _ \<Rightarrow> 0)"

text \<open>The predicate both the direct lookup and the cursor use to pick the deltas before an offset.\<close>

definition covers :: "u64 \<Rightarrow> RelaxDelta \<Rightarrow> bool" where
  "covers off d \<longleftrightarrow> input_offset d < off \<or> (input_offset d = off \<and> sint (bytes_delta d) < 0)"

definition input_to_output_offset :: "SectionDeltas \<Rightarrow> u64 \<Rightarrow> u64" where
  "input_to_output_offset s off =
     (if deltas s = [] then off
      else let idx = partition_point (covers off) (deltas s)
           in if idx = 0 then off else off - cumulative_delta (deltas s ! (idx - 1)))"

definition boundary :: "RelaxDelta \<Rightarrow> int" where
  "boundary d = uint (input_offset d) + sint (bytes_delta d) - sint (cumulative_delta d)"

definition output_to_input_offset :: "SectionDeltas \<Rightarrow> u64 \<Rightarrow> u64" where
  "output_to_input_offset s off =
     (if deltas s = [] then off
      else let lo = partition_point (\<lambda>d. boundary d \<le> uint off) (deltas s)
           in if lo = 0 then off else off + cumulative_delta (deltas s ! (lo - 1)))"

definition opt_input_to_output :: "SectionDeltas option \<Rightarrow> u64 \<Rightarrow> u64" where
  "opt_input_to_output ds off =
     (case ds of Some d \<Rightarrow> input_to_output_offset d off | None \<Rightarrow> off)"

section \<open>Cursor\<close>

record RelaxCursor =
  cursor_deltas :: "RelaxDelta list"
  index :: nat
  current_cumulative :: i64

definition cursor :: "SectionDeltas \<Rightarrow> RelaxCursor" where
  "cursor s = \<lparr>cursor_deltas = deltas s, index = 0, current_cumulative = 0\<rparr>"

text \<open>The loop of \<open>translate\<close>: consume the deltas that cover the offset.\<close>

function advance :: "u64 \<Rightarrow> RelaxCursor \<Rightarrow> RelaxCursor" where
  "advance off c =
     (if index c < length (cursor_deltas c) \<and> covers off (cursor_deltas c ! index c)
      then advance off (c\<lparr>index := Suc (index c),
             current_cumulative := cumulative_delta (cursor_deltas c ! index c)\<rparr>)
      else c)"
  by pat_completeness auto
termination
  by (relation "measure (\<lambda>(off, c). length (cursor_deltas c) - index c)") auto

declare advance.simps [simp del]

definition translate :: "RelaxCursor \<Rightarrow> u64 \<Rightarrow> u64 \<times> RelaxCursor" where
  "translate c off = (let c' = advance off c in (off - current_cumulative c', c'))"

section \<open>Sparse map from section index to deltas\<close>

record SectionDeltaMap =
  entries :: "(nat \<times> SectionDeltas) list"

definition SectionDeltaMap_new :: SectionDeltaMap where
  "SectionDeltaMap_new = \<lparr>entries = []\<rparr>"

definition map_insert :: "SectionDeltaMap \<Rightarrow> nat \<Rightarrow> SectionDeltas \<Rightarrow> SectionDeltaMap" where
  "map_insert m section_index ds = m\<lparr>entries := entries m @ [(section_index, ds)]\<rparr>"

definition map_get :: "SectionDeltaMap \<Rightarrow> nat \<Rightarrow> SectionDeltas option" where
  "map_get m section_index =
     (case binary_search_by_key section_index fst (entries m) of
        Inr i \<Rightarrow> Some (snd (entries m ! i)) | Inl _ \<Rightarrow> None)"

text \<open>\<open>get_mut\<close> hands out the entry for update: the model takes the update as a function.\<close>

definition map_get_mut :: "SectionDeltaMap \<Rightarrow> nat \<Rightarrow> (SectionDeltas \<Rightarrow> SectionDeltas) \<Rightarrow> SectionDeltaMap" where
  "map_get_mut m section_index f =
     (case binary_search_by_key section_index fst (entries m) of
        Inr i \<Rightarrow> m\<lparr>entries := (entries m)[i := (fst (entries m ! i), f (snd (entries m ! i)))]\<rparr>
      | Inl _ \<Rightarrow> m)"

definition map_insert_sorted :: "SectionDeltaMap \<Rightarrow> nat \<Rightarrow> SectionDeltas \<Rightarrow> SectionDeltaMap" where
  "map_insert_sorted m section_index ds =
     (let pos = partition_point (\<lambda>(idx, _). idx < section_index) (entries m)
      in m\<lparr>entries := take pos (entries m) @ (section_index, ds) # drop pos (entries m)\<rparr>)"

definition map_is_empty :: "SectionDeltaMap \<Rightarrow> bool" where
  "map_is_empty m \<longleftrightarrow> entries m = []"

section \<open>Specification of the translation\<close>

text \<open>
  The reference: the number of bytes removed before an offset is the sum of the deltas that
  cover it. It does not mention cumulative sums or searching.
\<close>

definition covers_raw :: "u64 \<Rightarrow> u64 \<times> i32 \<Rightarrow> bool" where
  "covers_raw off e \<longleftrightarrow> fst e < off \<or> (fst e = off \<and> sint (snd e) < 0)"

definition removed_before :: "(u64 \<times> i32) list \<Rightarrow> u64 \<Rightarrow> int" where
  "removed_before raw off = (\<Sum>e \<leftarrow> raw. if covers_raw off e then sint (snd e) else 0)"

lemma removed_before_simps [simp]:
  "removed_before [] off = 0"
  "removed_before (e # raw) off =
     (if covers_raw off e then sint (snd e) else 0) + removed_before raw off"
  by (simp_all add: removed_before_def)

lemma removed_before_append:
  "removed_before (xs @ ys) off = removed_before xs off + removed_before ys off"
  by (simp add: removed_before_def)

lemma removed_before_mset_cong: "mset xs = mset ys \<Longrightarrow> removed_before xs off = removed_before ys off"
  unfolding removed_before_def
  by (metis (no_types, lifting) mset_map sum_mset_sum_list)

lemma removed_before_none:
  "\<forall>e \<in> set raw. \<not> covers_raw off e \<Longrightarrow> removed_before raw off = 0"
  by (induction raw) auto

lemma push_deltas_map:
  "map (\<lambda>d. (input_offset d, bytes_delta d)) (push_deltas run raw) = raw"
  by (induction raw arbitrary: run) (auto simp: Let_def)

lemma length_push_deltas [simp]: "length (push_deltas run raw) = length raw"
  by (metis length_map push_deltas_map)

lemma push_deltas_eq_Nil [simp]: "push_deltas run raw = [] \<longleftrightarrow> raw = []"
  by (metis length_0_conv length_push_deltas)

lemma strictly_sorted_push_deltas:
  "strictly_sorted_by input_offset (push_deltas run raw) \<longleftrightarrow> strictly_sorted_by fst raw"
proof -
  have "strictly_sorted_by fst (map (\<lambda>d. (input_offset d, bytes_delta d)) ds) \<longleftrightarrow>
      strictly_sorted_by input_offset ds" for ds :: "RelaxDelta list"
    by (simp add: strictly_sorted_by_def sorted_wrt_map)
  from this [of "push_deltas run raw"] show ?thesis
    by (simp add: push_deltas_map)
qed

lemma scast_of_int: "(scast d :: i64) = of_int (sint (d :: i32))"
  by (rule bit_word_eqI) (simp add: bit_simps min_def)

text \<open>
  The cumulative delta in front of the first entry that does not satisfy a predicate, starting
  from a running sum.
\<close>

definition cum_before :: "(RelaxDelta \<Rightarrow> bool) \<Rightarrow> i64 \<Rightarrow> RelaxDelta list \<Rightarrow> i64" where
  "cum_before P run ds =
     (let idx = partition_point P ds in if idx = 0 then run else cumulative_delta (ds ! (idx - 1)))"

lemma cum_before_Nil [simp]: "cum_before P run [] = run"
  by (simp add: cum_before_def partition_point_def)

lemma cum_before_Cons:
  "cum_before P run (d # ds) = (if P d then cum_before P (cumulative_delta d) ds else run)"
  by (simp add: cum_before_def partition_point_def nth_Cons' Let_def)

lemma input_to_output_cum_before:
  "input_to_output_offset s off = off - cum_before (covers off) 0 (deltas s)"
  by (auto simp: input_to_output_offset_def cum_before_def Let_def partition_point_def)

lemma output_to_input_cum_before:
  "output_to_input_offset s off = off + cum_before (\<lambda>d. boundary d \<le> uint off) 0 (deltas s)"
  by (auto simp: output_to_input_offset_def cum_before_def Let_def partition_point_def)

lemma covers_raw_sorted:
  "strictly_sorted_by fst (e # raw) \<Longrightarrow> \<not> covers_raw off e \<Longrightarrow> e' \<in> set raw \<Longrightarrow> \<not> covers_raw off e'"
  by (auto simp: covers_raw_def)

lemma cum_before_covers:
  "strictly_sorted_by fst raw \<Longrightarrow>
    cum_before (covers off) run (push_deltas run raw) = run + of_int (removed_before raw off)"
proof (induction raw arbitrary: run)
  case Nil
  then show ?case by simp
next
  case (Cons e raw)
  obtain o' d where e: "e = (o', d)" by (cases e)
  have cov: "covers off \<lparr>input_offset = o', cumulative_delta = c, bytes_delta = d\<rparr> = covers_raw off e" for c
    by (simp add: covers_def covers_raw_def e)
  show ?case
  proof (cases "covers_raw off e")
    case True
    have "cum_before (covers off) run (push_deltas run (e # raw)) =
        cum_before (covers off) (run + scast d) (push_deltas (run + scast d) raw)"
      using True by (simp add: e Let_def cum_before_Cons cov [unfolded e])
    also have "\<dots> = run + scast d + of_int (removed_before raw off)"
      using Cons.prems by (intro Cons.IH) simp
    finally show ?thesis
      using True by (simp add: e add.assoc)
  next
    case False
    have "removed_before raw off = 0"
      using covers_raw_sorted [OF Cons.prems False] by (simp add: removed_before_none)
    then show ?thesis
      using False by (simp add: e Let_def cum_before_Cons cov [unfolded e])
  qed
qed

lemma input_to_output_refines:
  "strictly_sorted_by fst raw \<Longrightarrow>
    input_to_output_offset (SectionDeltas_new raw) off = off - of_int (removed_before raw off)"
  by (simp add: input_to_output_cum_before SectionDeltas_new_def cum_before_covers)

section \<open>The cursor\<close>

lemma covers_mono: "covers off d \<Longrightarrow> off \<le> off' \<Longrightarrow> covers off' d"
  by (auto simp: covers_def)

lemma covers_partitioned:
  "strictly_sorted_by input_offset ds \<Longrightarrow> partitioned (covers off) ds"
  unfolding strictly_sorted_by_def
  by (erule partitioned_sorted_wrt) (auto simp: covers_def)

text \<open>
  Cursor invariant: the consumed entries all cover the last translated offset, and the
  cumulative delta is that of the last consumed entry.
\<close>

definition cursor_inv :: "RelaxDelta list \<Rightarrow> u64 \<Rightarrow> RelaxCursor \<Rightarrow> bool" where
  "cursor_inv ds off c \<longleftrightarrow>
     cursor_deltas c = ds \<and> index c \<le> length ds \<and>
     (\<forall>i < index c. covers off (ds ! i)) \<and>
     current_cumulative c = (if index c = 0 then 0 else cumulative_delta (ds ! (index c - 1)))"

lemma cursor_inv_start: "cursor_inv (deltas s) off (cursor s)"
  by (simp add: cursor_inv_def cursor_def)

lemma cursor_inv_mono: "cursor_inv ds off c \<Longrightarrow> off \<le> off' \<Longrightarrow> cursor_inv ds off' c"
  by (auto simp: cursor_inv_def intro: covers_mono)

lemma advance_inv:
  "cursor_inv ds off c \<Longrightarrow>
    cursor_inv ds off (advance off c) \<and> index (advance off c) = partition_point (covers off) ds"
proof (induction off c rule: advance.induct)
  case (1 off c)
  show ?case
  proof (cases "index c < length (cursor_deltas c) \<and> covers off (cursor_deltas c ! index c)")
    case True
    let ?c' = "c\<lparr>index := Suc (index c), current_cumulative := cumulative_delta (cursor_deltas c ! index c)\<rparr>"
    have "cursor_inv ds off ?c'"
      using "1.prems" True by (auto simp: cursor_inv_def less_Suc_eq)
    with "1.IH" [OF True] True show ?thesis
      by (simp add: advance.simps [of off c])
  next
    case False
    then have "partition_point (covers off) ds = index c"
      using "1.prems" by (intro partition_point_eqI) (auto simp: cursor_inv_def)
    moreover have "advance off c = c"
      using False by (subst advance.simps) (simp only: if_False)
    ultimately show ?thesis
      using "1.prems" by simp
  qed
qed

lemma translate_inv:
  assumes "cursor_inv (deltas s) off c"
  shows "fst (translate c off) = input_to_output_offset s off"
    and "cursor_inv (deltas s) off (snd (translate c off))"
proof -
  have inv: "cursor_inv (deltas s) off (advance off c)"
    and idx: "index (advance off c) = partition_point (covers off) (deltas s)"
    using advance_inv [OF assms] by auto
  show "cursor_inv (deltas s) off (snd (translate c off))"
    using inv by (simp add: translate_def Let_def)
  have "current_cumulative (advance off c) = cum_before (covers off) 0 (deltas s)"
    using inv idx by (simp add: cursor_inv_def cum_before_def Let_def)
  then show "fst (translate c off) = input_to_output_offset s off"
    by (simp add: translate_def Let_def input_to_output_cum_before)
qed

text \<open>A sequence of queries against one cursor.\<close>

fun translate_all :: "RelaxCursor \<Rightarrow> u64 list \<Rightarrow> u64 list" where
  "translate_all c [] = []"
| "translate_all c (off # offs) =
     (let (out, c') = translate c off in out # translate_all c' offs)"

lemma translate_all_inv:
  "sorted (off # offs) \<Longrightarrow> cursor_inv (deltas s) off c \<Longrightarrow>
    translate_all c offs = map (input_to_output_offset s) offs"
proof (induction offs arbitrary: off c)
  case Nil
  then show ?case by simp
next
  case (Cons x offs)
  have "cursor_inv (deltas s) x c"
    using Cons.prems by (auto intro: cursor_inv_mono)
  note step = translate_inv [OF this]
  have "translate_all (snd (translate c x)) offs = map (input_to_output_offset s) offs"
    using Cons.prems step(2) by (intro Cons.IH) auto
  then show ?case
    using step(1) by (simp add: case_prod_unfold Let_def)
qed

section \<open>Round trip\<close>

text \<open>
  Well-formed adjustments: offsets strictly ascend, no deletion reaches into the next entry, and
  the adjustments together stay below \<open>2 ^ 63\<close>, so that the running \<open>i64\<close> sum is exact.
\<close>

definition magnitude :: "(u64 \<times> i32) list \<Rightarrow> int" where
  "magnitude raw = (\<Sum>e \<leftarrow> raw. \<bar>sint (snd e)\<bar>)"

definition disjoint_deltas :: "(u64 \<times> i32) list \<Rightarrow> bool" where
  "disjoint_deltas raw \<longleftrightarrow>
     sorted_wrt (\<lambda>e e'. fst e < fst e' \<and> uint (fst e) + sint (snd e) \<le> uint (fst e')) raw"

definition wf_deltas :: "(u64 \<times> i32) list \<Rightarrow> bool" where
  "wf_deltas raw \<longleftrightarrow> disjoint_deltas raw \<and> magnitude raw < 2 ^ 63"

text \<open>An offset survives when no deletion removes the byte at it.\<close>

definition survives :: "(u64 \<times> i32) list \<Rightarrow> u64 \<Rightarrow> bool" where
  "survives raw off \<longleftrightarrow>
     (\<forall>e \<in> set raw. fst e \<le> off \<longrightarrow> uint (fst e) + sint (snd e) \<le> uint off \<or> sint (snd e) < 0)"

lemma magnitude_simps [simp]:
  "magnitude [] = 0"
  "magnitude (e # raw) = \<bar>sint (snd e)\<bar> + magnitude raw"
  by (simp_all add: magnitude_def)

lemma magnitude_nonneg: "0 \<le> magnitude raw"
  by (induction raw) auto

lemma disjoint_deltas_Cons [simp]:
  "disjoint_deltas (e # raw) \<longleftrightarrow>
     (\<forall>e' \<in> set raw. fst e < fst e' \<and> uint (fst e) + sint (snd e) \<le> uint (fst e')) \<and>
     disjoint_deltas raw"
  by (simp add: disjoint_deltas_def)

lemma disjoint_deltas_sorted: "disjoint_deltas raw \<Longrightarrow> strictly_sorted_by fst raw"
  by (induction raw) auto

lemma survives_Cons [simp]:
  "survives (e # raw) off \<longleftrightarrow>
     (fst e \<le> off \<longrightarrow> uint (fst e) + sint (snd e) \<le> uint off \<or> sint (snd e) < 0) \<and>
     survives raw off"
  by (simp add: survives_def)

text \<open>
  Deletions in front of a surviving offset are disjoint intervals below it, so together they
  remove no more bytes than lie between the first of them and the offset.
\<close>

lemma removed_before_le:
  "disjoint_deltas raw \<Longrightarrow> survives raw off \<Longrightarrow> b \<le> uint off \<Longrightarrow>
    \<forall>e \<in> set raw. b \<le> uint (fst e) \<Longrightarrow> removed_before raw off \<le> uint off - b"
proof (induction raw arbitrary: b)
  case Nil
  then show ?case by simp
next
  case (Cons e raw)
  show ?case
  proof (cases "covers_raw off e")
    case False
    then have "removed_before raw off = 0"
      using covers_raw_sorted [OF disjoint_deltas_sorted [OF Cons.prems(1)]]
      by (intro removed_before_none) blast
    with False Cons.prems(3) show ?thesis by simp
  next
    case True
    define b' where "b' = uint (fst e) + max 0 (sint (snd e))"
    have le: "fst e \<le> off"
      using True by (auto simp: covers_raw_def)
    have "b' \<le> uint off"
      using Cons.prems(2) le by (auto simp: b'_def word_le_def)
    moreover have "\<forall>e' \<in> set raw. b' \<le> uint (fst e')"
      using Cons.prems(1) by (fastforce simp: b'_def word_less_def)
    ultimately have "removed_before raw off \<le> uint off - b'"
      using Cons.prems by (intro Cons.IH) auto
    then show ?thesis
      using True Cons.prems(4) by (simp add: b'_def max_def split: if_splits)
  qed
qed

lemma sint_add_exact:
  assumes "- (2 ^ 63) \<le> sint a + sint b" and "sint a + sint b < 2 ^ 63"
  shows "sint (a + b :: i64) = sint a + sint b"
proof -
  have "sint (a + b) = signed_take_bit 63 (sint a + sint b)"
    by (simp add: sint_word_ariths(1))
  then show ?thesis
    using assms by (simp add: signed_take_bit_int_eq_self)
qed

lemma sint_scast_i32: "sint (scast (d :: i32) :: i64) = sint d"
  by (rule bit_eqI) (auto simp: bit_simps min_def)

lemma boundary_push:
  assumes "\<bar>sint run\<bar> + \<bar>sint d\<bar> < 2 ^ 63"
  shows "boundary \<lparr>input_offset = off, cumulative_delta = run + scast d, bytes_delta = d\<rparr> =
    uint off - sint run"
    and "sint (run + scast d) = sint run + sint d"
proof -
  show "sint (run + scast d) = sint run + sint d"
    using assms by (subst sint_add_exact) (auto simp: sint_scast_i32)
  then show "boundary \<lparr>input_offset = off, cumulative_delta = run + scast d, bytes_delta = d\<rparr> =
      uint off - sint run"
    by (simp add: boundary_def)
qed

text \<open>
  Searching the boundaries with the translated offset finds the same running sum as searching
  the input offsets with the original one.
\<close>

lemma cum_before_boundary:
  "disjoint_deltas raw \<Longrightarrow> survives raw off \<Longrightarrow> \<bar>sint run\<bar> + magnitude raw < 2 ^ 63 \<Longrightarrow>
    uint y = uint off - sint run - removed_before raw off \<Longrightarrow>
    cum_before (\<lambda>d. boundary d \<le> uint y) run (push_deltas run raw) =
    run + of_int (removed_before raw off)"
proof (induction raw arbitrary: run)
  case Nil
  then show ?case by simp
next
  case (Cons e raw)
  obtain x d where e: "e = (x, d)" by (cases e)
  have mag: "\<bar>sint run\<bar> + \<bar>sint d\<bar> < 2 ^ 63"
    using Cons.prems(3) magnitude_nonneg [of raw] by (simp add: e)
  note push = boundary_push [OF mag]
  have step: "cum_before (\<lambda>d. boundary d \<le> uint y) run (push_deltas run (e # raw)) =
      (if uint x - sint run \<le> uint y
       then cum_before (\<lambda>d. boundary d \<le> uint y) (run + scast d) (push_deltas (run + scast d) raw)
       else run)"
    by (simp add: e Let_def cum_before_Cons push(1))
  have IH: "cum_before (\<lambda>d. boundary d \<le> uint y) (run + scast d) (push_deltas (run + scast d) raw) =
      run + scast d + of_int (removed_before raw off)"
    if "uint y = uint off - (sint run + sint d) - removed_before raw off"
  proof (rule Cons.IH)
    show "disjoint_deltas raw" and "survives raw off"
      using Cons.prems(1,2) by simp_all
    have "\<bar>sint run\<bar> + (\<bar>sint d\<bar> + magnitude raw) < 2 ^ 63"
      using Cons.prems(3) by (simp only: e magnitude_simps snd_conv)
    then show "\<bar>sint (run + scast d)\<bar> + magnitude raw < 2 ^ 63"
      unfolding push(2) by linarith
    show "uint y = uint off - sint (run + scast d) - removed_before raw off"
      using that by (simp only: push(2))
  qed
  show ?case
  proof (cases "covers_raw off e")
    case True
    have "uint x \<le> uint off"
      using True by (auto simp: covers_raw_def e word_less_def)
    then have "removed_before (e # raw) off \<le> uint off - uint x"
      using Cons.prems(1,2) by (intro removed_before_le) (auto simp: e word_less_def)
    then show ?thesis
      using True Cons.prems(4) IH step by (simp add: e add.assoc)
  next
    case False
    have r0: "removed_before raw off = 0"
      using covers_raw_sorted [OF disjoint_deltas_sorted [OF Cons.prems(1)] False]
      by (simp add: removed_before_none)
    show ?thesis
    proof (cases "x \<le> off")
      case False
      then show ?thesis
        using \<open>\<not> covers_raw off e\<close> Cons.prems(4) step r0 by (simp add: word_le_def)
    next
      case True
      then have "sint d = 0"
        using \<open>\<not> covers_raw off e\<close> Cons.prems(2) by (auto simp: covers_raw_def e)
      then have "scast d = (0 :: i64)"
        by (metis scast_of_int of_int_0)
      then show ?thesis
        using \<open>\<not> covers_raw off e\<close> True \<open>sint d = 0\<close> Cons.prems(4) step IH r0
        by (simp add: e)
    qed
  qed
qed

lemma uint_diff_of_int:
  assumes "0 \<le> uint x - k" and "uint x - k < 2 ^ 64"
  shows "uint (x - of_int k :: u64) = uint x - k"
proof -
  have "(x - of_int k :: u64) = of_int (uint x - k)"
    by simp
  then have "uint (x - of_int k :: u64) = take_bit 64 (uint x - k)"
    by (simp only: uint_word_of_int take_bit_eq_mod) simp
  then show ?thesis
    using assms by (simp add: take_bit_int_eq_self)
qed

text \<open>The translated offset as an integer: no wrap-around for surviving offsets.\<close>

lemma uint_input_to_output:
  assumes "wf_deltas raw" and "survives raw off"
    and "uint off - removed_before raw off < 2 ^ 64"
  shows "uint (input_to_output_offset (SectionDeltas_new raw) off) = uint off - removed_before raw off"
proof -
  have dis: "disjoint_deltas raw" using assms(1) by (simp add: wf_deltas_def)
  have "removed_before raw off \<le> uint off - 0"
    using dis assms(2) by (rule removed_before_le) auto
  then show ?thesis
    using assms(3) input_to_output_refines [OF disjoint_deltas_sorted [OF dis], of off]
    by (simp add: uint_diff_of_int)
qed

section \<open>Properties\<close>

text \<open>
  (C17) Offset translation refines its specification: for strictly ascending adjustments the
  output offset is the input offset less the sum of the deltas in front of it (a deletion counts
  strictly after its anchor, an insertion at and after it), computed modulo \<open>2 ^ 64\<close>.
\<close>

theorem input_to_output_spec:
  assumes "strictly_sorted_by fst raw"
  shows "input_to_output_offset (SectionDeltas_new raw) off = off - of_int (removed_before raw off)"
  using assms by (rule input_to_output_refines)

theorem input_to_output_spec_witness:
  "strictly_sorted_by fst [(10 :: u64, 4 :: i32), (20, -8)] \<and>
   input_to_output_offset (SectionDeltas_new [(10, 4), (20, -8)]) 20 = 24"
proof -
  have s: "strictly_sorted_by fst [(10 :: u64, 4 :: i32), (20, -8)]" by simp
  show ?thesis
    using s input_to_output_spec [OF s, of 20] by (simp add: covers_raw_def)
qed

text \<open>
  (C18) The two translations are inverse on surviving bytes: translating the offset of a byte
  that no deletion removes to the output and back returns it, for adjustments whose deletions do
  not overlap and whose output offset fits 64 bits.
\<close>

theorem output_to_input_roundtrip:
  assumes "wf_deltas raw" and "survives raw off"
    and "uint off - removed_before raw off < 2 ^ 64"
  shows "output_to_input_offset (SectionDeltas_new raw)
    (input_to_output_offset (SectionDeltas_new raw) off) = off"
proof -
  have dis: "disjoint_deltas raw" and mag: "magnitude raw < 2 ^ 63"
    using assms(1) by (simp_all add: wf_deltas_def)
  let ?y = "input_to_output_offset (SectionDeltas_new raw) off"
  have "cum_before (\<lambda>d. boundary d \<le> uint ?y) 0 (push_deltas 0 raw) =
      0 + of_int (removed_before raw off)"
    using dis assms(2) mag uint_input_to_output [OF assms] by (intro cum_before_boundary) auto
  then show ?thesis
    using input_to_output_refines [OF disjoint_deltas_sorted [OF dis], of off]
    by (simp add: output_to_input_cum_before SectionDeltas_new_def)
qed

theorem output_to_input_roundtrip_witness:
  "output_to_input_offset (SectionDeltas_new [(10, 4), (20, -8)])
    (input_to_output_offset (SectionDeltas_new [(10, 4), (20, -8)]) 17) = 17"
  by (rule output_to_input_roundtrip)
    (simp_all add: wf_deltas_def disjoint_deltas_def survives_def covers_raw_def)

text \<open>
  Relaxation keeps the order of code: of two surviving bytes, the one that comes first in
  the input section comes first in the output section.
\<close>

theorem input_to_output_strict_mono:
  assumes "wf_deltas raw" and "survives raw x" and "survives raw y" and "x < y"
    and "uint y + magnitude raw < 2 ^ 64"
  shows "input_to_output_offset (SectionDeltas_new raw) x < input_to_output_offset (SectionDeltas_new raw) y"
proof -
  have dis: "disjoint_deltas raw" using assms(1) by (simp add: wf_deltas_def)
  have mag: "- removed_before raw z \<le> magnitude raw" for z
    by (induction raw) auto
  have xy: "uint x < uint y" using assms(4) by (simp add: word_less_def)
  have "removed_before raw y - removed_before raw x < uint y - uint x"
    using dis assms(2,3) xy
  proof (induction raw)
    case (Cons e raw)
    show ?case
    proof (cases "covers_raw x e")
      case True
      then have "covers_raw y e" using xy by (auto simp: covers_raw_def word_less_def)
      with True Cons show ?thesis by simp
    next
      case False
      then have "removed_before (e # raw) x = 0"
        using covers_raw_sorted [OF disjoint_deltas_sorted [OF Cons.prems(1)] False]
        by (simp add: removed_before_none)
      moreover have "removed_before (e # raw) y < uint y - uint x"
      proof (cases "fst e \<le> x")
        case True
        then have z: "sint (snd e) = 0" "fst e = x"
          using False Cons.prems(2) by (auto simp: covers_raw_def)
        then have "\<forall>e' \<in> set raw. uint x + 1 \<le> uint (fst e')"
          using Cons.prems(1) by (auto simp: word_less_def)
        then have "removed_before raw y \<le> uint y - (uint x + 1)"
          using Cons.prems xy by (intro removed_before_le) auto
        then show ?thesis using z by simp
      next
        case False
        then have "\<forall>e' \<in> set (e # raw). uint x + 1 \<le> uint (fst e')"
          using Cons.prems(1) by (auto simp: word_less_def word_le_def)
        then have "removed_before (e # raw) y \<le> uint y - (uint x + 1)"
          using Cons.prems xy by (intro removed_before_le) auto
        then show ?thesis by simp
      qed
      ultimately show ?thesis by simp
    qed
  qed simp
  moreover have "uint x - removed_before raw x < 2 ^ 64" and "uint y - removed_before raw y < 2 ^ 64"
    using assms(5) xy mag [of x] mag [of y] by linarith+
  ultimately show ?thesis
    using assms uint_input_to_output by (simp add: word_less_def)
qed

theorem input_to_output_strict_mono_witness:
  "input_to_output_offset (SectionDeltas_new [(10, 4), (20, -8)]) 9
    < input_to_output_offset (SectionDeltas_new [(10, 4), (20, -8)]) 14"
  by (rule input_to_output_strict_mono)
    (simp_all add: wf_deltas_def disjoint_deltas_def survives_def)

text \<open>
  The cursor agrees with the direct lookup: translating an ascending sequence of offsets
  with one cursor gives, offset by offset, what \<open>input_to_output_offset\<close> gives.
\<close>

theorem cursor_equiv_lookup:
  assumes "sorted offs"
  shows "translate_all (cursor s) offs = map (input_to_output_offset s) offs"
proof (cases offs)
  case Nil
  then show ?thesis by simp
next
  case (Cons x xs)
  have "sorted (x # offs)" using assms Cons by simp
  then show ?thesis
    using cursor_inv_start by (rule translate_all_inv)
qed

theorem cursor_equiv_lookup_witness:
  "translate_all (cursor (SectionDeltas_new [(10, 4), (20, -8)])) [5, 14, 20, 20, 30] = [5, 10, 24, 24, 34]"
proof -
  have "sorted [5 :: u64, 14, 20, 20, 30]" by simp
  from cursor_equiv_lookup [OF this, of "SectionDeltas_new [(10, 4), (20, -8)]"]
  show ?thesis
    by (simp add: input_to_output_refines covers_raw_def)
qed

text \<open>
  Merging adds up: after \<open>merge_additional\<close> with entries at new offsets, an offset moves
  by the deltas in front of it in the old set and those in the added set together.
\<close>

theorem merge_additional_adds:
  assumes "strictly_sorted_by fst raw" and "distinct (map fst (raw @ extra))"
  shows "input_to_output_offset (merge_additional (SectionDeltas_new raw) extra) off =
    off - of_int (removed_before raw off) - of_int (removed_before extra off)"
proof (cases "extra = []")
  case True
  then show ?thesis
    using assms(1) by (simp add: merge_additional_def input_to_output_refines)
next
  case False
  let ?all = "sort_key fst (raw @ extra)"
  have "sorted (map fst ?all)" by (rule sorted_sort_key)
  moreover have "mset (map fst ?all) = mset (map fst (raw @ extra))"
    by simp
  then have "distinct (map fst ?all)"
    using assms(2) mset_eq_imp_distinct_iff by blast
  ultimately have "strictly_sorted_by fst ?all"
    by (simp add: strictly_sorted_by_def strict_sorted_iff flip: sorted_wrt_map)
  then have "input_to_output_offset (SectionDeltas_new ?all) off =
      off - of_int (removed_before ?all off)"
    by (rule input_to_output_refines)
  moreover have "removed_before ?all off = removed_before raw off + removed_before extra off"
    using removed_before_mset_cong [of ?all "raw @ extra"] by (simp add: removed_before_append)
  ultimately show ?thesis
    using False by (simp add: merge_additional_def SectionDeltas_new_def push_deltas_map)
qed

theorem merge_additional_adds_witness:
  "input_to_output_offset (merge_additional (SectionDeltas_new [(10, 4)]) [(4, 2)]) 20 = 14"
proof -
  have "strictly_sorted_by fst [(10 :: u64, 4 :: i32)]" by simp
  from merge_additional_adds [OF this, of "[(4, 2)]" 20] show ?thesis
    by (simp add: covers_raw_def)
qed

lemma push_deltas_last:
  "raw \<noteq> [] \<Longrightarrow> cumulative_delta (last (push_deltas run raw)) = run + of_int (\<Sum>e \<leftarrow> raw. sint (snd e))"
proof (induction raw arbitrary: run)
  case Nil
  then show ?case by simp
next
  case (Cons e raw)
  then show ?case
    by (cases e; cases "raw = []") (simp_all add: Let_def add.assoc)
qed

text \<open>
  The end of the section moves by the total: an offset behind every adjustment is
  translated by \<open>total_delta\<close>, so the output section is that much shorter (or longer).
\<close>

theorem total_delta_at_end:
  assumes "strictly_sorted_by fst raw" and "\<forall>e \<in> set raw. fst e < off"
  shows "input_to_output_offset (SectionDeltas_new raw) off = off - total_delta (SectionDeltas_new raw)"
proof -
  have "removed_before raw off = (\<Sum>e \<leftarrow> raw. sint (snd e))"
    using assms(2) by (induction raw) (auto simp: covers_raw_def)
  moreover have "total_delta (SectionDeltas_new raw) = of_int (\<Sum>e \<leftarrow> raw. sint (snd e))"
    using push_deltas_last [of raw 0] by (simp add: total_delta_def SectionDeltas_new_def)
  ultimately show ?thesis
    using input_to_output_refines [OF assms(1)] by simp
qed

theorem total_delta_at_end_witness:
  "input_to_output_offset (SectionDeltas_new [(10, 4), (20, -8)]) 64 = 64 - total_delta (SectionDeltas_new [(10, 4), (20, -8)])"
  by (rule total_delta_at_end) simp_all

section \<open>The section map as a keyed store\<close>

definition map_inv :: "SectionDeltaMap \<Rightarrow> bool" where
  "map_inv m \<longleftrightarrow> strictly_sorted_by fst (entries m)"

lemma strictly_sorted_distinct: "strictly_sorted_by f xs \<Longrightarrow> distinct (map f xs)"
  by (induction xs) auto

lemma map_get_map_of:
  assumes "map_inv m"
  shows "map_get m k = map_of (entries m) k"
proof (cases "k \<in> fst ` set (entries m)")
  case True
  then obtain i where i: "i < length (entries m)" "fst (entries m ! i) = k"
    by (auto simp: in_set_conv_nth)
  then have "binary_search_by_key k fst (entries m) = Inr i"
    using assms binary_search_by_key_found [of fst "entries m" i] by (simp add: map_inv_def)
  moreover have "map_of (entries m) k = Some (snd (entries m ! i))"
    using assms i nth_mem [OF i(1)]
    by (intro map_of_is_SomeI) (auto simp: map_inv_def strictly_sorted_distinct)
  ultimately show ?thesis
    using i by (simp add: map_get_def)
next
  case False
  then obtain i where "binary_search_by_key k fst (entries m) = Inl i"
    using binary_search_by_key_absent by metis
  then show ?thesis
    using False map_of_eq_None_iff [of "entries m" k] by (simp add: map_get_def)
qed

lemma split_at_partition_point:
  assumes "strictly_sorted_by fst xs" and "k \<notin> fst ` set xs"
    and "pos = partition_point (\<lambda>(idx, _). idx < k) xs"
  shows "\<forall>e \<in> set (take pos xs). fst e < k" and "\<forall>e \<in> set (drop pos xs). k < fst e"
proof -
  have split: "take pos xs = takeWhile (\<lambda>(idx, _). idx < k) xs"
    "drop pos xs = dropWhile (\<lambda>(idx, _). idx < k) xs"
    by (simp_all add: assms(3) partition_point_def takeWhile_eq_take [symmetric] dropWhile_eq_drop [symmetric])
  show "\<forall>e \<in> set (take pos xs). fst e < k"
    by (auto simp: split dest: set_takeWhileD)
  have "partitioned (\<lambda>(idx, _). idx < k) xs"
    using assms(1) unfolding strictly_sorted_by_def
    by (rule partitioned_sorted_wrt) auto
  then have "\<not> fst e < k" and "fst e \<noteq> k" if "e \<in> set (drop pos xs)" for e
    using that assms(2) set_drop_subset [of pos xs]
    by (auto simp: partitioned_def split(2) [symmetric])
  then show "\<forall>e \<in> set (drop pos xs). k < fst e"
    by (meson linorder_neqE)
qed

lemma entries_insert_sorted:
  assumes "map_inv m" and "map_get m k = None"
  obtains ls rs where "entries m = ls @ rs"
    and "entries (map_insert_sorted m k ds) = ls @ (k, ds) # rs"
    and "\<forall>e \<in> set ls. fst e < k" and "\<forall>e \<in> set rs. k < fst e"
proof -
  let ?pos = "partition_point (\<lambda>(idx, _). idx < k) (entries m)"
  have "k \<notin> fst ` set (entries m)"
    using assms(2) by (simp add: map_get_map_of [OF assms(1)] map_of_eq_None_iff)
  with assms(1) show thesis
    using split_at_partition_point [of "entries m" k ?pos]
    by (intro that [of "take ?pos (entries m)" "drop ?pos (entries m)"])
      (simp_all add: map_insert_sorted_def Let_def map_inv_def)
qed

interpretation delta_map: keyed_store SectionDeltaMap_new map_insert_sorted map_get map_inv
proof
  show "map_inv SectionDeltaMap_new"
    by (simp add: map_inv_def SectionDeltaMap_new_def)
  show "map_get SectionDeltaMap_new k = None" for k
    by (simp add: map_get_def SectionDeltaMap_new_def binary_search_by_key_def)
next
  fix m k ds
  assume m: "map_inv m" "map_get m k = None"
  then obtain ls rs where es: "entries m = ls @ rs"
      "entries (map_insert_sorted m k ds) = ls @ (k, ds) # rs"
      "\<forall>e \<in> set ls. fst e < k" "\<forall>e \<in> set rs. k < fst e"
    by (rule entries_insert_sorted)
  show inv: "map_inv (map_insert_sorted m k ds)"
    using m(1) es(3,4) by (fastforce simp: map_inv_def es(1,2) strictly_sorted_by_append)
  have "k \<notin> fst ` set ls" using es(3) by auto
  then show "map_get (map_insert_sorted m k ds) k' = (if k' = k then Some ds else map_get m k')" for k'
    using map_of_eq_None_iff [of ls k]
    by (auto simp: map_get_map_of [OF inv] map_get_map_of [OF m(1)] es(1,2) map_add_def
        split: option.splits)
qed

text \<open>
  The section map is a map: filled through \<open>insert_sorted\<close> with distinct section
  indices in any order, \<open>get\<close> finds by binary search exactly the deltas that were inserted under an
  index, and nothing for the other indices.
\<close>

theorem section_delta_map_lookup:
  assumes "distinct (map fst kvs)"
  shows "map_get (foldl (\<lambda>m (k, ds). map_insert_sorted m k ds) SectionDeltaMap_new kvs) k = map_of kvs k"
  using assms by (rule delta_map.lookup_built)

theorem section_delta_map_lookup_witness:
  "map_get (foldl (\<lambda>m (k, ds). map_insert_sorted m k ds) SectionDeltaMap_new
      [(7, SectionDeltas_new [(4, 2)]), (3, SectionDeltas_new [(8, 4)])]) 3 =
   Some (SectionDeltas_new [(8, 4)])"
  using section_delta_map_lookup [of "[(7, SectionDeltas_new [(4, 2)]), (3, SectionDeltas_new [(8, 4)])]" 3]
  by simp

text \<open>
  Adjustments are found where they were recorded: \<open>delta_at\<close> returns the adjustment
  anchored at exactly this offset and 0 elsewhere, and \<open>has_delta_at\<close> says whether there is one.
\<close>

theorem delta_at_spec:
  assumes "strictly_sorted_by fst raw"
  shows "delta_at (SectionDeltas_new raw) off = (case map_of raw off of Some d \<Rightarrow> d | None \<Rightarrow> 0) \<and>
    (has_delta_at (SectionDeltas_new raw) off \<longleftrightarrow> off \<in> fst ` set raw)"
proof -
  let ?ds = "push_deltas 0 raw"
  have nth: "input_offset (?ds ! i) = fst (raw ! i)" "bytes_delta (?ds ! i) = snd (raw ! i)"
    if "i < length raw" for i
    using that arg_cong [OF push_deltas_map [of 0 raw], of "\<lambda>xs. xs ! i"]
    by (auto simp: prod_eq_iff)
  show ?thesis
  proof (cases "off \<in> fst ` set raw")
    case True
    then obtain i where i: "i < length raw" "fst (raw ! i) = off"
      by (auto simp: in_set_conv_nth)
    then have "binary_search_by_key off input_offset ?ds = Inr i"
      using assms binary_search_by_key_found [of input_offset ?ds i]
      by (simp add: strictly_sorted_push_deltas nth)
    moreover have "map_of raw off = Some (snd (raw ! i))"
      using assms i nth_mem [OF i(1)]
      by (intro map_of_is_SomeI) (auto simp: strictly_sorted_distinct)
    ultimately show ?thesis
      using True i by (simp add: delta_at_def has_delta_at_def SectionDeltas_new_def nth)
  next
    case False
    moreover have "input_offset ` set ?ds = fst ` set raw"
      by (metis (no_types, lifting) fst_conv image_cong image_image push_deltas_map set_map)
    ultimately obtain i where "binary_search_by_key off input_offset ?ds = Inl i"
      using binary_search_by_key_absent by metis
    then show ?thesis
      using False map_of_eq_None_iff [of raw off]
      by (simp add: delta_at_def has_delta_at_def SectionDeltas_new_def)
  qed
qed

theorem delta_at_spec_witness:
  "delta_at (SectionDeltas_new [(10, 4), (20, -8)]) 20 = -8"
proof -
  have "strictly_sorted_by fst [(10 :: u64, 4 :: i32), (20, -8)]" by simp
  from delta_at_spec [OF this, of 20] show ?thesis by simp
qed

end
