(* ===== verification/AArch64.thy ===== *)
theory AArch64
  imports Insn_Codec Relaxation
begin

text \<open>
  Model of \<open>linker-utils/src/aarch64.rs\<close>: the instruction rewrites of relaxation
  (\<open>RelaxationKind::apply\<close>), the relocation table (\<open>relocation_type_from_raw\<close>), and the
  encoding of relocation values into instruction immediates (\<open>write_to_value\<close>,
  \<open>read_value\<close>), with the AArch64 rows of \<open>DynamicRelocationKind\<close> from \<open>elf.rs\<close>.
\<close>

section \<open>Relaxations\<close>

datatype RelaxationKind =
    NoOp
  | ReplaceWithNop
  | MovzX0Lsl16
  | MovkX0
  | MovzXnLsl16
  | MovkXn
  | AdrpToAdr
  | AdrpX0
  | LdrX0
  | AddToAdr
  | LdrToAdr

text \<open>
  \<open>apply\<close> patches the section in place; the offset and the addend are unchanged. The register
  numbers are read from the instruction that is replaced.
\<close>

definition patch_and :: "bytes \<Rightarrow> nat \<Rightarrow> u8 \<Rightarrow> bytes option" where
  "patch_and section_bytes i m =
     do { b \<leftarrow> get section_bytes i; set_at section_bytes i (b AND m) }"

definition aarch64_apply :: "RelaxationKind \<Rightarrow> bytes \<Rightarrow> nat \<Rightarrow> bytes option" where
  "aarch64_apply k section_bytes offset =
     (case k of
        NoOp \<Rightarrow> Some section_bytes
      | ReplaceWithNop \<Rightarrow> copy_at section_bytes offset [0x1f, 0x20, 0x03, 0xd5]
      | MovzX0Lsl16 \<Rightarrow> copy_at section_bytes offset [0x0, 0x0, 0xa0, 0xd2]
      | MovkX0 \<Rightarrow> copy_at section_bytes offset [0x0, 0x0, 0x80, 0xf2]
      | MovzXnLsl16 \<Rightarrow> do {
          insn \<leftarrow> get_range section_bytes offset (offset + 4);
          raw \<leftarrow> u32_from_slice insn;
          let reg = ucast (extract_bit_range (ucast raw) 0 5);
          copy_at section_bytes offset [reg, 0x0, 0xa0, 0xd2] }
      | MovkXn \<Rightarrow> do {
          insn \<leftarrow> get_range section_bytes offset (offset + 4);
          raw \<leftarrow> u32_from_slice insn;
          let dst_reg = ucast (extract_bit_range (ucast raw) 0 5);
          copy_at section_bytes offset [dst_reg, 0x0, 0x80, 0xf2] }
      | AdrpToAdr \<Rightarrow> patch_and section_bytes (offset + 3) (NOT 0x80)
      | AddToAdr \<Rightarrow> patch_and section_bytes (offset + 3) (NOT 0x89)
      | LdrToAdr \<Rightarrow> patch_and section_bytes (offset + 3) (NOT 0x89)
      | AdrpX0 \<Rightarrow> copy_at section_bytes offset [0x0, 0x0, 0x0, 0x90]
      | LdrX0 \<Rightarrow> copy_at section_bytes offset [0x0, 0x0, 0x40, 0xf9])"

definition aarch64_next_modifier :: "RelaxationKind \<Rightarrow> RelocationModifier" where
  "aarch64_next_modifier k = Normal"

section \<open>Relocation table\<close>

definition aarch64_arms_1 :: "reloc_tuple arms" where
  "aarch64_arms_1 = [
    ([''R_AARCH64_NONE''],
      (RelocationKind.None_kind, ByteSize 0, None, Some no_check, 1)),
    ([''R_AARCH64_ABS64''],
      (RelocationKind.Absolute, ByteSize 8, None, Some no_check, 1)),
    ([''R_AARCH64_ABS32''],
      (RelocationKind.Absolute, ByteSize 4, None, Some (AllowedRange_new (- (2 ^ 31)) (2 ^ 32)), 1)),
    ([''R_AARCH64_ABS16''],
      (RelocationKind.Absolute, ByteSize 2, None, Some (AllowedRange_new (- (2 ^ 15)) (2 ^ 16)), 1)),
    ([''R_AARCH64_PREL64''],
      (RelocationKind.Relative, ByteSize 8, None, Some no_check, 1)),
    ([''R_AARCH64_PREL32''],
      (RelocationKind.Relative, ByteSize 4, None, Some (AllowedRange_new (- (2 ^ 31)) (2 ^ 32)), 1)),
    ([''R_AARCH64_PREL16''],
      (RelocationKind.Relative, ByteSize 2, None, Some (AllowedRange_new (- (2 ^ 15)) (2 ^ 16)), 1)),
    ([''R_AARCH64_PLT32''],
      (RelocationKind.PltRelative, ByteSize 4, None, from_bit_size 32 Signed, 1)),
    ([''R_AARCH64_MOVW_UABS_G0''],
      (RelocationKind.Absolute, bit_mask_aarch64 0 16 Movkz, None, from_bit_size 16 Unsigned, 1)),
    ([''R_AARCH64_MOVW_UABS_G0_NC''],
      (RelocationKind.Absolute, bit_mask_aarch64 0 16 Movkz, None, Some no_check, 1)),
    ([''R_AARCH64_MOVW_UABS_G1''],
      (RelocationKind.Absolute, bit_mask_aarch64 16 32 Movkz, None, from_bit_size 32 Unsigned, 1)),
    ([''R_AARCH64_MOVW_UABS_G1_NC''],
      (RelocationKind.Absolute, bit_mask_aarch64 16 32 Movkz, None, Some no_check, 1)),
    ([''R_AARCH64_MOVW_UABS_G2''],
      (RelocationKind.Absolute, bit_mask_aarch64 32 48 Movkz, None, from_bit_size 48 Unsigned, 1)),
    ([''R_AARCH64_MOVW_UABS_G2_NC''],
      (RelocationKind.Absolute, bit_mask_aarch64 32 48 Movkz, None, Some no_check, 1)),
    ([''R_AARCH64_MOVW_UABS_G3''],
      (RelocationKind.Absolute, bit_mask_aarch64 48 64 Movkz, None, Some no_check, 1)),
    ([''R_AARCH64_MOVW_SABS_G0''],
      (RelocationKind.Absolute, bit_mask_aarch64 0 16 Movnz, None, from_bit_size 17 Signed, 1)),
    ([''R_AARCH64_MOVW_SABS_G1''],
      (RelocationKind.Absolute, bit_mask_aarch64 16 32 Movnz, None, from_bit_size 33 Signed, 1)),
    ([''R_AARCH64_MOVW_SABS_G2''],
      (RelocationKind.Absolute, bit_mask_aarch64 32 48 Movnz, None, from_bit_size 49 Signed, 1)),
    ([''R_AARCH64_LD_PREL_LO19''],
      (RelocationKind.Relative, bit_mask_aarch64 2 21 Ldr, None, from_bit_size 21 Signed, 4))]"

definition aarch64_arms_2 :: "reloc_tuple arms" where
  "aarch64_arms_2 = [
    ([''R_AARCH64_ADR_PREL_LO21''],
      (RelocationKind.Relative, bit_mask_aarch64 0 21 Adr, None, from_bit_size 21 Signed, 1)),
    ([''R_AARCH64_ADR_PREL_PG_HI21''],
      (RelocationKind.Relative, bit_mask_aarch64 12 33 Adr, Some (SymbolPlusAddendAndPosition PAGE_MASK_4KB), from_bit_size 33 Signed, 1)),
    ([''R_AARCH64_ADR_PREL_PG_HI21_NC''],
      (RelocationKind.Relative, bit_mask_aarch64 12 33 Adr, Some (SymbolPlusAddendAndPosition PAGE_MASK_4KB), Some no_check, 1)),
    ([''R_AARCH64_ADD_ABS_LO12_NC''],
      (RelocationKind.AbsoluteLowPart, bit_mask_aarch64 0 12 Add, None, Some no_check, 1)),
    ([''R_AARCH64_LDST8_ABS_LO12_NC''],
      (RelocationKind.AbsoluteLowPart, bit_mask_aarch64 0 12 LdSt, None, Some no_check, 1)),
    ([''R_AARCH64_LDST16_ABS_LO12_NC''],
      (RelocationKind.AbsoluteLowPart, bit_mask_aarch64 1 12 LdSt, None, Some no_check, 2)),
    ([''R_AARCH64_LDST32_ABS_LO12_NC''],
      (RelocationKind.AbsoluteLowPart, bit_mask_aarch64 2 12 LdSt, None, Some no_check, 4)),
    ([''R_AARCH64_LDST64_ABS_LO12_NC''],
      (RelocationKind.AbsoluteLowPart, bit_mask_aarch64 3 12 LdSt, None, Some no_check, 8)),
    ([''R_AARCH64_LDST128_ABS_LO12_NC''],
      (RelocationKind.AbsoluteLowPart, bit_mask_aarch64 4 12 LdSt, None, Some no_check, 16)),
    ([''R_AARCH64_TSTBR14''],
      (RelocationKind.Relative, bit_mask_aarch64 2 16 TstBr, None, from_bit_size 16 Signed, 4)),
    ([''R_AARCH64_CONDBR19''],
      (RelocationKind.Relative, bit_mask_aarch64 2 21 Bcond, None, from_bit_size 21 Signed, 4)),
    ([''R_AARCH64_JUMP26''],
      (RelocationKind.PltRelative, bit_mask_aarch64 2 28 JumpCall, None, from_bit_size 28 Signed, 4)),
    ([''R_AARCH64_CALL26''],
      (RelocationKind.PltRelative, bit_mask_aarch64 2 28 JumpCall, None, from_bit_size 28 Signed, 4)),
    ([''R_AARCH64_MOVW_PREL_G0''],
      (RelocationKind.Relative, bit_mask_aarch64 0 16 Movnz, None, Some no_check, 1)),
    ([''R_AARCH64_MOVW_PREL_G0_NC''],
      (RelocationKind.Relative, bit_mask_aarch64 0 16 Movkz, None, Some no_check, 1)),
    ([''R_AARCH64_MOVW_PREL_G1''],
      (RelocationKind.Relative, bit_mask_aarch64 16 32 Movnz, None, Some no_check, 1)),
    ([''R_AARCH64_MOVW_PREL_G1_NC''],
      (RelocationKind.Relative, bit_mask_aarch64 16 32 Movkz, None, Some no_check, 1)),
    ([''R_AARCH64_MOVW_PREL_G2''],
      (RelocationKind.Relative, bit_mask_aarch64 32 48 Movnz, None, Some no_check, 1)),
    ([''R_AARCH64_MOVW_PREL_G2_NC''],
      (RelocationKind.Relative, bit_mask_aarch64 32 48 Movkz, None, Some no_check, 1)),
    ([''R_AARCH64_MOVW_PREL_G3''],
      (RelocationKind.Relative, bit_mask_aarch64 48 64 Movnz, None, Some no_check, 1))]"

definition aarch64_arms_3 :: "reloc_tuple arms" where
  "aarch64_arms_3 = [
    ([''R_AARCH64_MOVW_GOTOFF_G0''],
      (RelocationKind.GotRelGotBase, bit_mask_aarch64 0 16 Movnz, None, Some no_check, 1)),
    ([''R_AARCH64_MOVW_GOTOFF_G0_NC''],
      (RelocationKind.GotRelGotBase, bit_mask_aarch64 0 16 Movkz, None, Some no_check, 1)),
    ([''R_AARCH64_MOVW_GOTOFF_G1''],
      (RelocationKind.GotRelGotBase, bit_mask_aarch64 16 32 Movnz, None, Some no_check, 1)),
    ([''R_AARCH64_MOVW_GOTOFF_G1_NC''],
      (RelocationKind.GotRelGotBase, bit_mask_aarch64 16 32 Movkz, None, Some no_check, 1)),
    ([''R_AARCH64_MOVW_GOTOFF_G2''],
      (RelocationKind.GotRelGotBase, bit_mask_aarch64 32 48 Movnz, None, Some no_check, 1)),
    ([''R_AARCH64_MOVW_GOTOFF_G2_NC''],
      (RelocationKind.GotRelGotBase, bit_mask_aarch64 32 48 Movkz, None, Some no_check, 1)),
    ([''R_AARCH64_MOVW_GOTOFF_G3''],
      (RelocationKind.GotRelGotBase, bit_mask_aarch64 48 64 Movnz, None, Some no_check, 1)),
    ([''R_AARCH64_GOTREL64''],
      (RelocationKind.SymRelGotBase, ByteSize 4, None, Some no_check, 1)),
    ([''R_AARCH64_GOTREL32''],
      (RelocationKind.SymRelGotBase, ByteSize 8, None, from_bit_size 32 Signed, 1)),
    ([''R_AARCH64_GOTPCREL32''],
      (RelocationKind.GotRelative, ByteSize 4, None, from_bit_size 32 Signed, 1)),
    ([''R_AARCH64_GOT_LD_PREL19''],
      (RelocationKind.GotRelative, bit_mask_aarch64 2 21 LdSt, None, from_bit_size 21 Signed, 4)),
    ([''R_AARCH64_LD64_GOTOFF_LO15''],
      (RelocationKind.GotRelGotBase, bit_mask_aarch64 3 15 LdSt, None, from_bit_size 15 Unsigned, 8)),
    ([''R_AARCH64_ADR_GOT_PAGE''],
      (RelocationKind.GotRelative, bit_mask_aarch64 12 33 Adr, Some (GotEntryAndPosition PAGE_MASK_4KB), from_bit_size 33 Signed, 1)),
    ([''R_AARCH64_LD64_GOT_LO12_NC''],
      (RelocationKind.Got, bit_mask_aarch64 3 12 LdSt, None, Some no_check, 8)),
    ([''R_AARCH64_LD64_GOTPAGE_LO15''],
      (RelocationKind.GotRelGotBase, bit_mask_aarch64 3 15 LdSt, Some (GotBase PAGE_MASK_4KB), from_bit_size 15 Unsigned, 8)),
    ([''R_AARCH64_TLSGD_ADR_PREL21''],
      (RelocationKind.TlsGd, bit_mask_aarch64 0 21 Adr, None, from_bit_size 21 Signed, 1)),
    ([''R_AARCH64_TLSGD_ADR_PAGE21''],
      (RelocationKind.TlsGd, bit_mask_aarch64 12 33 Adr, Some (GotEntryAndPosition PAGE_MASK_4KB), from_bit_size 33 Signed, 1)),
    ([''R_AARCH64_TLSGD_ADD_LO12_NC''],
      (RelocationKind.TlsGdGot, bit_mask_aarch64 0 12 Add, None, Some no_check, 1)),
    ([''R_AARCH64_TLSGD_MOVW_G1''],
      (RelocationKind.TlsGdGotBase, bit_mask_aarch64 16 33 Movnz, None, Some no_check, 1)),
    ([''R_AARCH64_TLSGD_MOVW_G0_NC''],
      (RelocationKind.TlsGdGotBase, bit_mask_aarch64 0 16 Movkz, None, Some no_check, 1))]"

definition aarch64_arms_4 :: "reloc_tuple arms" where
  "aarch64_arms_4 = [
    ([''R_AARCH64_TLSLD_ADR_PREL21''],
      (RelocationKind.TlsLd, bit_mask_aarch64 0 21 Adr, None, from_bit_size 21 Signed, 1)),
    ([''R_AARCH64_TLSLD_ADR_PAGE21''],
      (RelocationKind.TlsLd, bit_mask_aarch64 12 33 Adr, Some (GotEntryAndPosition PAGE_MASK_4KB), from_bit_size 33 Signed, 1)),
    ([''R_AARCH64_TLSLD_ADD_LO12_NC''],
      (RelocationKind.TlsLdGot, bit_mask_aarch64 0 12 Add, None, Some no_check, 1)),
    ([''R_AARCH64_TLSLD_MOVW_G1''],
      (RelocationKind.TlsLdGotBase, bit_mask_aarch64 16 32 Movnz, None, Some no_check, 1)),
    ([''R_AARCH64_TLSLD_MOVW_G0_NC''],
      (RelocationKind.TlsLdGotBase, bit_mask_aarch64 0 16 Movkz, None, Some no_check, 1)),
    ([''R_AARCH64_TLSLD_LD_PREL19''],
      (RelocationKind.TlsLd, bit_mask_aarch64 0 21 Ldr, None, from_bit_size 21 Signed, 1)),
    ([''R_AARCH64_TLSLD_MOVW_DTPREL_G2''],
      (RelocationKind.DtpOff, bit_mask_aarch64 32 48 Movnz, None, Some no_check, 1)),
    ([''R_AARCH64_TLSLD_MOVW_DTPREL_G1''],
      (RelocationKind.DtpOff, bit_mask_aarch64 16 32 Movnz, None, Some no_check, 1)),
    ([''R_AARCH64_TLSLD_MOVW_DTPREL_G1_NC''],
      (RelocationKind.DtpOff, bit_mask_aarch64 16 32 Movkz, None, Some no_check, 1)),
    ([''R_AARCH64_TLSLD_MOVW_DTPREL_G0''],
      (RelocationKind.DtpOff, bit_mask_aarch64 0 16 Movnz, None, Some no_check, 1)),
    ([''R_AARCH64_TLSLD_MOVW_DTPREL_G0_NC''],
      (RelocationKind.DtpOff, bit_mask_aarch64 0 16 Movkz, None, Some no_check, 1)),
    ([''R_AARCH64_TLSLD_ADD_DTPREL_HI12''],
      (RelocationKind.DtpOff, bit_mask_aarch64 12 24 Add, None, from_bit_size 24 Unsigned, 1)),
    ([''R_AARCH64_TLSLD_ADD_DTPREL_LO12''],
      (RelocationKind.DtpOff, bit_mask_aarch64 0 12 Add, None, from_bit_size 12 Unsigned, 1)),
    ([''R_AARCH64_TLSLD_ADD_DTPREL_LO12_NC''],
      (RelocationKind.DtpOff, bit_mask_aarch64 0 12 Add, None, Some no_check, 1)),
    ([''R_AARCH64_TLSLD_LDST8_DTPREL_LO12''],
      (RelocationKind.DtpOff, bit_mask_aarch64 0 12 LdSt, None, from_bit_size 12 Unsigned, 1)),
    ([''R_AARCH64_TLSLD_LDST8_DTPREL_LO12_NC''],
      (RelocationKind.DtpOff, bit_mask_aarch64 0 12 LdSt, None, Some no_check, 1)),
    ([''R_AARCH64_TLSLD_LDST16_DTPREL_LO12''],
      (RelocationKind.DtpOff, bit_mask_aarch64 1 12 LdSt, None, from_bit_size 12 Unsigned, 2)),
    ([''R_AARCH64_TLSLD_LDST16_DTPREL_LO12_NC''],
      (RelocationKind.DtpOff, bit_mask_aarch64 1 12 LdSt, None, Some no_check, 2)),
    ([''R_AARCH64_TLSLD_LDST32_DTPREL_LO12''],
      (RelocationKind.DtpOff, bit_mask_aarch64 2 12 LdSt, None, from_bit_size 12 Unsigned, 4)),
    ([''R_AARCH64_TLSLD_LDST32_DTPREL_LO12_NC''],
      (RelocationKind.DtpOff, bit_mask_aarch64 2 12 LdSt, None, Some no_check, 4)),
    ([''R_AARCH64_TLSLD_LDST64_DTPREL_LO12''],
      (RelocationKind.DtpOff, bit_mask_aarch64 3 12 LdSt, None, from_bit_size 12 Unsigned, 8))]"

definition aarch64_arms_5 :: "reloc_tuple arms" where
  "aarch64_arms_5 = [
    ([''R_AARCH64_TLSLD_LDST64_DTPREL_LO12_NC''],
      (RelocationKind.DtpOff, bit_mask_aarch64 3 12 LdSt, None, Some no_check, 8)),
    ([''R_AARCH64_TLSLD_LDST128_DTPREL_LO12''],
      (RelocationKind.DtpOff, bit_mask_aarch64 4 12 LdSt, None, from_bit_size 12 Unsigned, 16)),
    ([''R_AARCH64_TLSLD_LDST128_DTPREL_LO12_NC''],
      (RelocationKind.DtpOff, bit_mask_aarch64 4 12 LdSt, None, Some no_check, 16)),
    ([''R_AARCH64_TLSIE_MOVW_GOTTPREL_G1''],
      (RelocationKind.GotTpOffGotBase, bit_mask_aarch64 16 32 Movnz, None, Some no_check, 1)),
    ([''R_AARCH64_TLSIE_MOVW_GOTTPREL_G0_NC''],
      (RelocationKind.GotTpOffGotBase, bit_mask_aarch64 0 16 Movkz, None, Some no_check, 1)),
    ([''R_AARCH64_TLSIE_ADR_GOTTPREL_PAGE21''],
      (RelocationKind.GotTpOff, bit_mask_aarch64 12 33 Adr, Some (GotEntryAndPosition PAGE_MASK_4KB), from_bit_size 33 Signed, 1)),
    ([''R_AARCH64_TLSIE_LD64_GOTTPREL_LO12_NC''],
      (RelocationKind.GotTpOffGot, bit_mask_aarch64 3 12 LdrRegister, None, Some no_check, 8)),
    ([''R_AARCH64_TLSIE_LD_GOTTPREL_PREL19''],
      (RelocationKind.GotTpOff, bit_mask_aarch64 2 21 Ldr, None, from_bit_size 21 Signed, 4)),
    ([''R_AARCH64_TLSLE_MOVW_TPREL_G2''],
      (RelocationKind.TpOff, bit_mask_aarch64 32 48 Movnz, None, Some no_check, 1)),
    ([''R_AARCH64_TLSLE_MOVW_TPREL_G1''],
      (RelocationKind.TpOff, bit_mask_aarch64 16 32 Movnz, None, Some no_check, 1)),
    ([''R_AARCH64_TLSLE_MOVW_TPREL_G1_NC''],
      (RelocationKind.TpOff, bit_mask_aarch64 16 32 Movkz, None, Some no_check, 1)),
    ([''R_AARCH64_TLSLE_MOVW_TPREL_G0''],
      (RelocationKind.TpOff, bit_mask_aarch64 0 16 Movnz, None, Some no_check, 1)),
    ([''R_AARCH64_TLSLE_MOVW_TPREL_G0_NC''],
      (RelocationKind.TpOff, bit_mask_aarch64 0 16 Movkz, None, Some no_check, 1)),
    ([''R_AARCH64_TLSLE_ADD_TPREL_HI12''],
      (RelocationKind.TpOff, bit_mask_aarch64 12 24 Add, None, from_bit_size 24 Unsigned, 1)),
    ([''R_AARCH64_TLSLE_ADD_TPREL_LO12''],
      (RelocationKind.TpOff, bit_mask_aarch64 0 12 Add, None, from_bit_size 12 Unsigned, 1)),
    ([''R_AARCH64_TLSLE_ADD_TPREL_LO12_NC''],
      (RelocationKind.TpOff, bit_mask_aarch64 0 12 Add, None, Some no_check, 1)),
    ([''R_AARCH64_TLSLE_LDST8_TPREL_LO12''],
      (RelocationKind.TpOff, bit_mask_aarch64 0 12 LdSt, None, from_bit_size 12 Unsigned, 1)),
    ([''R_AARCH64_TLSLE_LDST8_TPREL_LO12_NC''],
      (RelocationKind.TpOff, bit_mask_aarch64 0 12 LdSt, None, Some no_check, 1)),
    ([''R_AARCH64_TLSLE_LDST16_TPREL_LO12''],
      (RelocationKind.TpOff, bit_mask_aarch64 1 12 LdSt, None, from_bit_size 12 Unsigned, 2)),
    ([''R_AARCH64_TLSLE_LDST16_TPREL_LO12_NC''],
      (RelocationKind.TpOff, bit_mask_aarch64 1 12 LdSt, None, Some no_check, 2))]"

definition aarch64_arms_6 :: "reloc_tuple arms" where
  "aarch64_arms_6 = [
    ([''R_AARCH64_TLSLE_LDST32_TPREL_LO12''],
      (RelocationKind.TpOff, bit_mask_aarch64 2 12 LdSt, None, from_bit_size 12 Unsigned, 4)),
    ([''R_AARCH64_TLSLE_LDST32_TPREL_LO12_NC''],
      (RelocationKind.TpOff, bit_mask_aarch64 2 12 LdSt, None, Some no_check, 4)),
    ([''R_AARCH64_TLSLE_LDST64_TPREL_LO12''],
      (RelocationKind.TpOff, bit_mask_aarch64 3 12 LdSt, None, from_bit_size 12 Unsigned, 8)),
    ([''R_AARCH64_TLSLE_LDST64_TPREL_LO12_NC''],
      (RelocationKind.TpOff, bit_mask_aarch64 3 12 LdSt, None, Some no_check, 8)),
    ([''R_AARCH64_TLSLE_LDST128_TPREL_LO12''],
      (RelocationKind.TpOff, bit_mask_aarch64 4 12 LdSt, None, from_bit_size 12 Unsigned, 16)),
    ([''R_AARCH64_TLSLE_LDST128_TPREL_LO12_NC''],
      (RelocationKind.TpOff, bit_mask_aarch64 4 12 LdSt, None, Some no_check, 16)),
    ([''R_AARCH64_TLSDESC_LD_PREL19''],
      (RelocationKind.TlsDesc, bit_mask_aarch64 2 21 Ldr, None, from_bit_size 21 Signed, 4)),
    ([''R_AARCH64_TLSDESC_ADR_PREL21''],
      (RelocationKind.TlsDesc, bit_mask_aarch64 0 21 Adr, None, from_bit_size 21 Signed, 1)),
    ([''R_AARCH64_TLSDESC_ADR_PAGE21''],
      (RelocationKind.TlsDesc, bit_mask_aarch64 12 33 Adr, Some (GotEntryAndPosition PAGE_MASK_4KB), from_bit_size 33 Signed, 1)),
    ([''R_AARCH64_TLSDESC_LD64_LO12''],
      (RelocationKind.TlsDescGot, bit_mask_aarch64 3 12 LdrRegister, None, Some no_check, 8)),
    ([''R_AARCH64_TLSDESC_ADD_LO12''],
      (RelocationKind.TlsDescGot, bit_mask_aarch64 0 12 Add, None, Some no_check, 1)),
    ([''R_AARCH64_TLSDESC_OFF_G1''],
      (RelocationKind.TlsDescGotBase, bit_mask_aarch64 16 32 Movnz, None, from_bit_size 33 Signed, 1)),
    ([''R_AARCH64_TLSDESC_OFF_G0_NC''],
      (RelocationKind.TlsDescGotBase, bit_mask_aarch64 0 16 Movkz, None, Some no_check, 1)),
    ([''R_AARCH64_TLSDESC_CALL''],
      (RelocationKind.TlsDescCall, ByteSize 0, None, Some no_check, 1))]"

definition aarch64_arms :: "reloc_tuple arms" where
  "aarch64_arms = aarch64_arms_1 @ aarch64_arms_2 @ aarch64_arms_3 @ aarch64_arms_4 @
     aarch64_arms_5 @ aarch64_arms_6"

definition aarch64_relocation_type_from_raw ::
    "(string \<Rightarrow> u32) \<Rightarrow> u32 \<Rightarrow> RelocationKindInfo option" where
  "aarch64_relocation_type_from_raw elf r_type =
     do {
       (kind, sz, msk, rng, alignment) \<leftarrow> match_arms elf aarch64_arms r_type;
       r \<leftarrow> rng;
       Some \<lparr>rel_kind = kind, rel_size = sz, rel_mask = msk, rel_range = r,
             rel_alignment = alignment, rel_bias = 0\<rparr>
     }"

section \<open>Dynamic relocations\<close>

definition aarch64_dynamic_arms :: "DynamicRelocationKind arms" where
  "aarch64_dynamic_arms =
       [([''R_AARCH64_COPY''], DynamicRelocationKind.Copy),
        ([''R_AARCH64_IRELATIVE''], DynamicRelocationKind.Irelative),
        ([''R_AARCH64_TLS_DTPMOD''], DynamicRelocationKind.DtpMod),
        ([''R_AARCH64_TLS_DTPREL''], DynamicRelocationKind.DtpOff),
        ([''R_AARCH64_TLS_TPREL''], DynamicRelocationKind.TpOff),
        ([''R_AARCH64_RELATIVE''], DynamicRelocationKind.Relative),
        ([''R_AARCH64_ABS64''], DynamicRelocationKind.Absolute),
        ([''R_AARCH64_GLOB_DAT''], DynamicRelocationKind.GotEntry),
        ([''R_AARCH64_TLSDESC''], DynamicRelocationKind.TlsDesc),
        ([''R_AARCH64_JUMP_SLOT''], DynamicRelocationKind.JumpSlot)]"

definition from_aarch64_r_type :: "(string \<Rightarrow> u32) \<Rightarrow> u32 \<Rightarrow> DynamicRelocationKind option" where
  "from_aarch64_r_type elf r_type = match_arms elf aarch64_dynamic_arms r_type"

definition aarch64_r_name :: "DynamicRelocationKind \<Rightarrow> string" where
  "aarch64_r_name k =
     (case k of
        DynamicRelocationKind.Copy \<Rightarrow> ''R_AARCH64_COPY''
      | DynamicRelocationKind.Irelative \<Rightarrow> ''R_AARCH64_IRELATIVE''
      | DynamicRelocationKind.DtpMod \<Rightarrow> ''R_AARCH64_TLS_DTPMOD''
      | DynamicRelocationKind.DtpOff \<Rightarrow> ''R_AARCH64_TLS_DTPREL''
      | DynamicRelocationKind.TpOff \<Rightarrow> ''R_AARCH64_TLS_TPREL''
      | DynamicRelocationKind.Relative \<Rightarrow> ''R_AARCH64_RELATIVE''
      | DynamicRelocationKind.Absolute \<Rightarrow> ''R_AARCH64_ABS64''
      | DynamicRelocationKind.GotEntry \<Rightarrow> ''R_AARCH64_GLOB_DAT''
      | DynamicRelocationKind.TlsDesc \<Rightarrow> ''R_AARCH64_TLSDESC''
      | DynamicRelocationKind.JumpSlot \<Rightarrow> ''R_AARCH64_JUMP_SLOT'')"

definition aarch64_r_type :: "(string \<Rightarrow> u32) \<Rightarrow> DynamicRelocationKind \<Rightarrow> u32" where
  "aarch64_r_type elf k = elf (aarch64_r_name k)"

section \<open>Instruction immediates\<close>

definition aarch64_write_to_value ::
    "AArch64Instruction \<Rightarrow> u64 \<Rightarrow> bool \<Rightarrow> bytes \<Rightarrow> bytes option" where
  "aarch64_write_to_value insn v negative dest =
     (case insn of
        Adr \<Rightarrow> or_from_slice dest (le_bytes 4
          (push_bit 29 (ucast (extract_bit_range v 0 2)) OR
           push_bit 5 (ucast (extract_bit_range v 2 32)) :: u32))
      | Movkz \<Rightarrow> or_from_slice dest (le_bytes 4 (push_bit 5 (ucast v) :: u32))
      | Movnz \<Rightarrow> do {
          d \<leftarrow> and_from_slice dest (le_bytes 4 (0x0060001F :: u32));
          let value = (if negative then NOT v else v);
          let opcode = (if negative then 0x92800000 else 0xd2800000);
          or_from_slice d (le_bytes 4
            (opcode OR push_bit 5 (ucast (extract_bit_range value 0 16)) :: u32)) }
      | Ldr \<Rightarrow> or_from_slice dest (le_bytes 4 (push_bit 5 (ucast v) :: u32))
      | LdrRegister \<Rightarrow> or_from_slice dest (le_bytes 4 (push_bit 10 (ucast v) :: u32))
      | Add \<Rightarrow> or_from_slice dest (le_bytes 4 (push_bit 10 (ucast v) :: u32))
      | LdSt \<Rightarrow> or_from_slice dest (le_bytes 4 (push_bit 10 (ucast v) :: u32))
      | TstBr \<Rightarrow> or_from_slice dest (le_bytes 4 (push_bit 5 (ucast v) :: u32))
      | Bcond \<Rightarrow> or_from_slice dest (le_bytes 4 (push_bit 5 (ucast v) :: u32))
      | JumpCall \<Rightarrow> or_from_slice dest (le_bytes 4 (ucast v :: u32)))"

definition aarch64_read_value :: "AArch64Instruction \<Rightarrow> bytes \<Rightarrow> (u64 \<times> bool) option" where
  "aarch64_read_value insn bs =
     do {
       w \<leftarrow> u32_from_slice bs;
       let value = (ucast w :: u64);
       Some (case insn of
          Adr \<Rightarrow> (low_bits (drop_bit 29 value) 2 OR
                  push_bit 2 (low_bits_signed (drop_bit 5 value) 19), False)
        | Movkz \<Rightarrow> (low_bits_signed (drop_bit 5 value) 16, False)
        | Movnz \<Rightarrow>
            (let negative = (value AND push_bit 30 1 = 0);
                 v = low_bits (drop_bit 5 value) 16
             in (if negative then NOT v else v, negative))
        | Ldr \<Rightarrow> (low_bits_signed (drop_bit 5 value) 19, False)
        | LdrRegister \<Rightarrow> (low_bits (drop_bit 10 value) 12, False)
        | Add \<Rightarrow> (low_bits (drop_bit 10 value) 12, False)
        | LdSt \<Rightarrow> (low_bits_signed (drop_bit 10 value) 12, False)
        | TstBr \<Rightarrow> (low_bits_signed (drop_bit 5 value) 14, False)
        | Bcond \<Rightarrow> (low_bits_signed (drop_bit 5 value) 19, False)
        | JumpCall \<Rightarrow> (low_bits_signed value 26, False))
     }"

section \<open>Patching one instruction word\<close>

text \<open>
  The reference view of the encoder: the bits it keeps of the old instruction word, the bits
  it sets, and the field it may change.
\<close>

definition aarch64_keep :: "AArch64Instruction \<Rightarrow> u32" where
  "aarch64_keep i = (if i = Movnz then 0x0060001F else - 1)"

definition aarch64_bits :: "AArch64Instruction \<Rightarrow> u64 \<Rightarrow> bool \<Rightarrow> u32" where
  "aarch64_bits i v negative =
     (case i of
        Adr \<Rightarrow> push_bit 29 (ucast (take_bit 2 v)) OR push_bit 5 (ucast (take_bit 30 (drop_bit 2 v)))
      | Movnz \<Rightarrow> (if negative then 0x92800000 else 0xd2800000) OR
          push_bit 5 (ucast (take_bit 16 (if negative then NOT v else v)))
      | JumpCall \<Rightarrow> ucast v
      | _ \<Rightarrow> push_bit (if i \<in> {Add, LdSt, LdrRegister} then 10 else 5) (ucast v))"

fun aarch64_width :: "AArch64Instruction \<Rightarrow> nat" where
  "aarch64_width Adr = 21"
| "aarch64_width Movkz = 16"
| "aarch64_width Movnz = 64"
| "aarch64_width Ldr = 19"
| "aarch64_width LdrRegister = 12"
| "aarch64_width Add = 12"
| "aarch64_width LdSt = 12"
| "aarch64_width TstBr = 14"
| "aarch64_width Bcond = 19"
| "aarch64_width JumpCall = 26"

fun aarch64_field :: "AArch64Instruction \<Rightarrow> u32" where
  "aarch64_field Adr = push_bit 29 (mask 2) OR push_bit 5 (mask 19)"
| "aarch64_field Movnz = NOT 0x0060001F"
| "aarch64_field JumpCall = mask 26"
| "aarch64_field i = push_bit (if i \<in> {Add, LdSt, LdrRegister} then 10 else 5) (mask (aarch64_width i))"

lemma aarch64_write_word:
  assumes "4 \<le> length dest"
  shows "aarch64_write_to_value i v negative dest =
    Some (le_bytes 4 ((from_le_bytes (take 4 dest) AND aarch64_keep i) OR aarch64_bits i v negative)
      @ drop 4 dest)"
  using assms
  by (cases i)
    (simp_all add: aarch64_write_to_value_def aarch64_bits_def aarch64_keep_def
      byte_simps extract_simps take_bit_word_eq_self)

lemma aarch64_write_short:
  "length dest < 4 \<Longrightarrow> aarch64_write_to_value i v negative dest = None"
  by (cases i)
    (simp_all add: aarch64_write_to_value_def or_from_slice_short and_from_slice_short)

lemma movnz_opcode_field:
  "(push_bit 5 (ucast (take_bit 16 (x :: u64))) :: u32) AND 0x0060001F = 0"
proof -
  have c: "(0x0060001F :: u32) = mask 5 OR push_bit 21 (mask 2)" by (simp add: mask_numeral)
  show ?thesis
    unfolding c by (rule bit_word_eqI) (auto simp: bit_simps)
qed

lemma aarch64_bits_in_field:
  assumes "take_bit (aarch64_width i) v = v"
  shows "aarch64_bits i v negative AND NOT (aarch64_field i) = 0"
proof (cases "i = Movnz")
  case True
  then show ?thesis
    by (simp add: aarch64_bits_def bit.conj_disj_distrib2 movnz_opcode_field)
next
  case False
  have fits: "bit v n \<Longrightarrow> n < aarch64_width i" for n
    using assms by (metis bit_take_bit_iff)
  show ?thesis
    using False by (cases i; intro bit_word_eqI) (auto simp: aarch64_bits_def bit_simps dest!: fits)
qed

lemma aarch64_keep_outside: "NOT (aarch64_field i) AND aarch64_keep i = NOT (aarch64_field i)"
  by (cases i) (simp_all add: aarch64_keep_def)

interpretation aarch64: insn_writer aarch64_write_to_value "\<lambda>_. 4" aarch64_width
  "\<lambda>i. ucast (aarch64_field i)"
proof
  show "(aarch64_write_to_value i v neg dest = None) = (length dest < 4)" for i v neg dest
    using aarch64_write_word [of dest i v neg] aarch64_write_short [of dest i v neg]
    by (cases "length dest < 4") auto
  show "preserves_outside 4 (ucast (aarch64_field i)) dest d"
    if "aarch64_write_to_value i v neg dest = Some d" and "take_bit (aarch64_width i) v = v"
    for i v neg dest d
  proof -
    let ?w = "from_le_bytes (take 4 dest) :: u32"
    have len: "4 \<le> length dest"
      using that(1) aarch64_write_short [of dest i v neg] by (cases "length dest < 4") auto
    have "((?w AND aarch64_keep i) OR aarch64_bits i v neg) AND NOT (aarch64_field i) =
        ?w AND NOT (aarch64_field i)"
      using aarch64_bits_in_field [OF that(2), of neg] aarch64_keep_outside [of i]
      by (simp add: bit.conj_disj_distrib2 and.assoc) (simp add: and.commute)
    then have "preserves_outside 4 (ucast (aarch64_field i)) dest
        (le_bytes 4 ((?w AND aarch64_keep i) OR aarch64_bits i v neg) @ drop 4 dest)"
      using len by (intro preserves_outside_word) simp_all
    then show ?thesis
      using that(1) aarch64_write_word [OF len, of i v neg] by simp
  qed
qed simp

text \<open>Reading back the signed immediates of PC-relative instructions.\<close>

definition aarch64_pc_relative :: "AArch64Instruction \<Rightarrow> bool" where
  "aarch64_pc_relative i \<longleftrightarrow> i \<in> {Adr, Ldr, TstBr, Bcond, JumpCall}"

lemma adr_field_join:
  "take_bit 2 v OR push_bit 2 (signed_take_bit 18 (drop_bit 2 v)) = signed_take_bit 20 (v :: u64)"
proof (rule bit_word_eqI)
  fix n
  have "n < 2 \<or> Suc (Suc (n - 2)) = n" by linarith
  then show "bit (take_bit 2 v OR push_bit 2 (signed_take_bit 18 (drop_bit 2 v))) n =
      bit (signed_take_bit 20 v) n"
    by (auto simp: bit_simps min_def)
qed

lemma adr_field_readback:
  fixes v :: u64 and w :: u32
  assumes "w AND aarch64_field Adr = 0"
  defines "w' \<equiv> ucast (w OR (push_bit 29 (ucast (take_bit 2 v)) OR
    push_bit 5 (ucast (take_bit 19 (drop_bit 2 v))))) :: u64"
  shows "take_bit 2 (drop_bit 29 w') = take_bit 2 v"
    and "signed_take_bit 18 (drop_bit 5 w') = signed_take_bit 18 (drop_bit 2 v)"
proof -
  let ?hi = "push_bit 29 (ucast (take_bit 2 v)) :: u32"
  let ?lo = "push_bit 5 (ucast (take_bit 19 (drop_bit 2 v))) :: u32"
  have "w AND push_bit 29 (mask 2) = 0" "w AND push_bit 5 (mask 19) = 0"
    using assms(1) by (simp_all add: bit.conj_disj_distrib or_eq_0_iff)
  moreover have "?lo AND push_bit 29 (mask 2) = 0" "?hi AND push_bit 5 (mask 19) = 0"
    by (rule bit_word_eqI, auto simp: bit_simps)+
  ultimately have "(w OR ?lo) AND push_bit 29 (mask 2) = 0"
    and "(w OR ?hi) AND push_bit 5 (mask (Suc 18)) = 0"
    by (simp_all add: bit.conj_disj_distrib2)
  from take_bit_field_readback [OF this(1)] signed_field_readback [OF this(2)]
  show "take_bit 2 (drop_bit 29 w') = take_bit 2 v"
    and "signed_take_bit 18 (drop_bit 5 w') = signed_take_bit 18 (drop_bit 2 v)"
    by (simp_all add: w'_def or.assoc or.commute or.left_commute)
qed

lemma aarch64_read_written:
  assumes "aarch64_pc_relative i" and "4 \<le> length dest"
    and "from_le_bytes (take 4 dest) AND aarch64_field i = 0"
  shows "\<exists>d. aarch64_write_to_value i (take_bit (aarch64_width i) v) negative dest = Some d \<and>
    aarch64_read_value i d = Some (signed_take_bit (aarch64_width i - 1) v, False)"
proof -
  let ?v = "take_bit (aarch64_width i) v"
  let ?w = "from_le_bytes (take 4 dest) :: u32"
  let ?w' = "?w OR aarch64_bits i ?v negative"
  have "aarch64_write_to_value i ?v negative dest = Some (le_bytes 4 ?w' @ drop 4 dest)"
    using assms(1) aarch64_write_word [OF assms(2), of i ?v negative]
    by (auto simp: aarch64_keep_def aarch64_pc_relative_def)
  moreover have slice: "u32_from_slice (le_bytes 4 ?w' @ drop 4 dest) = Some ?w'"
    by (simp add: u32_from_slice_def)
  have "aarch64_read_value i (le_bytes 4 ?w' @ drop 4 dest) =
      Some (signed_take_bit (aarch64_width i - 1) v, False)"
  proof (cases "i = Adr")
    case True
    have "take_bit 30 (drop_bit 2 (take_bit 21 v)) = take_bit 19 (drop_bit 2 v)"
      by (rule bit_word_eqI) (auto simp: bit_simps)
    then show ?thesis
      using True assms(3) slice adr_field_readback [of ?w v] adr_field_join [of v]
      by (simp add: aarch64_read_value_def extract_simps aarch64_bits_def Let_def)
  next
    case False
    then show ?thesis
      using assms(1,3) slice signed_field_readback [of ?w 5 18 v] signed_field_readback [of ?w 5 13 v]
        signed_field_readback [of ?w 0 25 v]
      unfolding aarch64_pc_relative_def
      by (elim insertE emptyE)
        (simp_all add: aarch64_read_value_def extract_simps aarch64_bits_def Let_def)
  qed
  ultimately show ?thesis by blast
qed

section \<open>The relocation table\<close>

definition aarch64_size_fits :: "RelocationSize \<Rightarrow> bool" where
  "aarch64_size_fits sz =
     size_fits (\<lambda>i. case i of AArch64 a \<Rightarrow> aarch64_width a | _ \<Rightarrow> 0) sz"

lemmas aarch64_arms_defs = aarch64_arms_def aarch64_arms_1_def aarch64_arms_2_def
  aarch64_arms_3_def aarch64_arms_4_def aarch64_arms_5_def aarch64_arms_6_def

text \<open>
  Every arm of the table extracts no more bits than the immediate of its instruction holds, with
  two exceptions: \<open>GOT_LD_PREL19\<close> extracts 19 bits for the 12-bit immediate of a scaled load, and
  \<open>TLSLD_LD_PREL19\<close> extracts 21 bits for the 19-bit immediate of a literal load.
\<close>

definition aarch64_oversized :: "string list" where
  "aarch64_oversized = [''R_AARCH64_GOT_LD_PREL19'', ''R_AARCH64_TLSLD_LD_PREL19'']"

lemma aarch64_arms_fit:
  "list_all (\<lambda>(names, kind, sz, msk, rng, alignment).
     (aarch64_size_fits sz \<or> set names \<subseteq> set aarch64_oversized) \<and> rng \<noteq> None) aarch64_arms"
  by (simp add: aarch64_arms_defs aarch64_size_fits_def size_fits_def bit_mask_aarch64_def
      BitMask_new_def from_bit_size_def from_byte_size_def aarch64_oversized_def)

text \<open>
  A signed range check of a PC-relative immediate covers exactly the bits up to the end of the
  field.
\<close>

definition aarch64_signed_arm :: "reloc_tuple \<Rightarrow> bool" where
  "aarch64_signed_arm = (\<lambda>(kind, sz, msk, rng, alignment).
     case sz of
       ByteSize n \<Rightarrow> True
     | BitMasking bm \<Rightarrow>
         (case instruction bm of
            AArch64 i \<Rightarrow>
              aarch64_pc_relative i \<longrightarrow> rng \<noteq> Some no_check \<longrightarrow>
              rng = from_bit_size (end_bit (bit_range bm)) Signed \<and> end_bit (bit_range bm) < 64 \<and>
              start (bit_range bm) < end_bit (bit_range bm) \<and>
              end_bit (bit_range bm) - start (bit_range bm) = aarch64_width i
          | _ \<Rightarrow> False))"

lemma aarch64_arms_signed:
  "list_all (\<lambda>(names, t). aarch64_signed_arm t \<or> set names \<subseteq> set aarch64_oversized) aarch64_arms"
  by (simp add: aarch64_arms_defs aarch64_signed_arm_def bit_mask_aarch64_def
      BitMask_new_def aarch64_pc_relative_def aarch64_oversized_def)

lemma aarch64_relocation_type_from_raw_cases:
  assumes "aarch64_relocation_type_from_raw elf r = Some info"
    and "r \<notin> elf ` set aarch64_oversized"
  shows "aarch64_size_fits (rel_size info)"
    and "aarch64_signed_arm (rel_kind info, rel_size info, rel_mask info, Some (rel_range info), rel_alignment info)"
proof -
  obtain kind sz msk rng al where arm: "match_arms elf aarch64_arms r = Some (kind, sz, msk, Some rng, al)"
    and info: "info = \<lparr>rel_kind = kind, rel_size = sz, rel_mask = msk, rel_range = rng,
      rel_alignment = al, rel_bias = 0\<rparr>"
    using assms(1) by (auto simp: aarch64_relocation_type_from_raw_def bind_eq_Some_conv)
  show "aarch64_size_fits (rel_size info)"
    using match_arms_list_all [OF arm aarch64_arms_fit]
      assms(2) info by auto
  show "aarch64_signed_arm (rel_kind info, rel_size info, rel_mask info, Some (rel_range info), rel_alignment info)"
    using match_arms_list_all [OF arm aarch64_arms_signed] assms(2) info by auto
qed

section \<open>Properties\<close>

text \<open>
  (C19) PC-relative relocations reach their target: for every relocation type of the table with a
  range-checked PC-relative immediate (the two oversized arms excepted), a value that passes
  \<open>verify\<close>, written into an instruction whose immediate is clear, is what \<open>read_value\<close> decodes,
  up to the low bits the instruction does not store; those are zero when the checked alignment
  is that of the field.
\<close>

theorem aarch64_pc_relative_roundtrip:
  assumes "aarch64_relocation_type_from_raw elf r = Some info" and "r \<notin> elf ` set aarch64_oversized"
    and "rel_size info = BitMasking \<lparr>instruction = AArch64 i, bit_range = \<lparr>start = lo, end_bit = hi\<rparr>\<rparr>"
    and "aarch64_pc_relative i" and "rel_range info \<noteq> no_check"
    and "verify info value = Inr ()"
    and "4 \<le> length dest" and "from_le_bytes (take 4 dest) AND aarch64_field i = 0"
  shows "\<exists>d x. aarch64_write_to_value i (extract_bit_range value lo hi) negative dest = Some d \<and>
    aarch64_read_value i d = Some (x, False) \<and> push_bit lo x = value AND NOT (mask lo) \<and>
    (rel_alignment info = 2 ^ lo \<longrightarrow> push_bit lo x = value)"
proof -
  have arm: "from_bit_size hi Signed = Some (rel_range info)" "hi < 64" "lo < hi"
      "hi - lo = aarch64_width i"
    using aarch64_relocation_type_from_raw_cases(2) [OF assms(1,2)] assms(3-5)
    by (simp_all add: aarch64_signed_arm_def)
  have "range_contains (rel_range info) (sint value)"
    using assms(6) by (simp add: verify_Inr_iff)
  then have fits: "signed_take_bit (hi - 1) value = value"
    using arm by (intro contains_signed_fits [of hi]) auto
  let ?x = "signed_take_bit (aarch64_width i - 1) (drop_bit lo value)"
  obtain d where d: "aarch64_write_to_value i (extract_bit_range value lo hi) negative dest = Some d"
      "aarch64_read_value i d = Some (?x, False)"
    using aarch64_read_written [OF assms(4,7,8), of "drop_bit lo value" negative] arm
    by (auto simp: extract_bit_range_eq)
  have "push_bit lo (signed_take_bit (hi - lo - 1) (drop_bit lo value)) =
      signed_take_bit (hi - 1) value AND NOT (mask lo)"
    using arm(2,3) by (intro push_signed_drop) auto
  then have x: "push_bit lo ?x = value AND NOT (mask lo)"
    using fits arm(4) by simp
  moreover have "value AND NOT (mask lo) = value" if "rel_alignment info = 2 ^ lo"
    using assms(6) that arm by (intro aligned_low_bits_clear) (auto simp: verify_Inr_iff is_multiple_of_def)
  ultimately show ?thesis
    using d by auto
qed

theorem aarch64_pc_relative_roundtrip_witness:
  "\<exists>d x. aarch64_write_to_value JumpCall (extract_bit_range (- 8) 2 28) False [0, 0, 0, 0x94] = Some d \<and>
    aarch64_read_value JumpCall d = Some (x, False) \<and> push_bit 2 x = - 8"
proof -
  let ?elf = "\<lambda>n. if n = ''R_AARCH64_CALL26'' then 1 else 0 :: u32"
  obtain info where info: "aarch64_relocation_type_from_raw ?elf 1 = Some info"
    and "info = \<lparr>rel_kind = RelocationKind.PltRelative, rel_size = bit_mask_aarch64 2 28 JumpCall,
      rel_mask = None, rel_range = AllowedRange_new (- (2 ^ 27)) (2 ^ 27), rel_alignment = 4, rel_bias = 0\<rparr>"
    by (simp add: aarch64_relocation_type_from_raw_def match_arms_def aarch64_arms_defs from_bit_size_def)
  then show ?thesis
    using aarch64_pc_relative_roundtrip [OF info, of JumpCall 2 28 "- 8" "[0, 0, 0, 0x94]" False]
    by (simp add: aarch64_oversized_def bit_mask_aarch64_def BitMask_new_def aarch64_pc_relative_def
        no_check_def AllowedRange_new_def verify_def is_multiple_of_def range_contains_def mask_numeral)
qed

lemma aarch64_arm_names_distinct: "distinct (arm_names aarch64_arms)"
  by (rule distinct_name_keys) code_simp

lemma aarch64_arm_found:
  assumes "inj_on elf (set (arm_names aarch64_arms))"
    and "([n], kind, sz, msk, Some rng, al) \<in> set aarch64_arms"
  shows "aarch64_relocation_type_from_raw elf (elf n) =
    Some \<lparr>rel_kind = kind, rel_size = sz, rel_mask = msk, rel_range = rng, rel_alignment = al, rel_bias = 0\<rparr>"
  using match_arms_unique [OF aarch64_arm_names_distinct assms]
  by (simp add: aarch64_relocation_type_from_raw_def)

text \<open>
  (C32) \<open>R_AARCH64_GOT_LD_PREL19\<close> destroys the instruction it patches: the table extracts 19
  bits for it but encodes them as the 12-bit offset of a scaled load. The value \<open>0xFFFFC\<close> passes
  the range and alignment checks of the type, and writing it sets bits outside the immediate.
\<close>

theorem aarch64_got_ld_prel19_clobbers:
  assumes "inj_on elf (set (arm_names aarch64_arms))"
  shows "\<exists>info d. aarch64_relocation_type_from_raw elf (elf ''R_AARCH64_GOT_LD_PREL19'') = Some info \<and>
    rel_size info = bit_mask_aarch64 2 21 LdSt \<and> verify info 0xFFFFC = Inr () \<and>
    aarch64_write_to_value LdSt (extract_bit_range 0xFFFFC 2 21) False [0, 0, 0, 0x58] = Some d \<and>
    \<not> preserves_outside 4 (ucast (aarch64_field LdSt)) [0, 0, 0, 0x58] d"
proof -
  let ?rng = "AllowedRange_new (- (2 ^ 20)) (2 ^ 20)"
  have "from_bit_size 21 Signed = Some ?rng" by (simp add: from_bit_size_def)
  then have "([''R_AARCH64_GOT_LD_PREL19''], RelocationKind.GotRelative, bit_mask_aarch64 2 21 LdSt,
      None, Some ?rng, 4) \<in> set aarch64_arms"
    by (simp add: aarch64_arms_defs)
  note arm = aarch64_arm_found [OF assms this]
  moreover have "aarch64_write_to_value LdSt (extract_bit_range 0xFFFFC 2 21) False [0, 0, 0, 0x58] =
      Some (le_bytes 4 (0x58000000 OR 0x0FFFFC00 :: u32))"
    by (simp add: aarch64_write_word aarch64_keep_def aarch64_bits_def extract_bit_range_eq)
  moreover have "\<not> preserves_outside 4 (ucast (aarch64_field LdSt)) [0, 0, 0, 0x58]
      (le_bytes 4 (0x58000000 OR 0x0FFFFC00 :: u32))"
    by (simp add: preserves_outside_def le_bytes_def upt_rec mask_numeral)
  ultimately show ?thesis
    by (simp add: verify_def is_multiple_of_def range_contains_def AllowedRange_new_def)
qed

lemma aarch64_numbered: "inj_on (numbered (arm_names aarch64_arms)) (set (arm_names aarch64_arms))"
  by (rule inj_on_numbered) (simp add: arm_names_def aarch64_arms_defs)

theorem aarch64_got_ld_prel19_clobbers_witness:
  "\<exists>d. aarch64_write_to_value LdSt (extract_bit_range 0xFFFFC 2 21) False [0, 0, 0, 0x58] = Some d \<and>
    \<not> preserves_outside 4 (ucast (aarch64_field LdSt)) [0, 0, 0, 0x58] d"
  using aarch64_got_ld_prel19_clobbers [OF aarch64_numbered] by blast

lemma aarch64_dynamic:
  assumes "inj_on elf (set (arm_names aarch64_dynamic_arms))"
  shows "from_aarch64_r_type elf (aarch64_r_type elf k) = Some k"
  unfolding from_aarch64_r_type_def aarch64_r_type_def
proof (rule match_arms_unique [OF _ assms])
  show "distinct (arm_names aarch64_dynamic_arms)"
    by (simp add: arm_names_def aarch64_dynamic_arms_def)
  show "([aarch64_r_name k], k) \<in> set aarch64_dynamic_arms"
    by (cases k) (simp_all add: aarch64_dynamic_arms_def aarch64_r_name_def)
qed simp

end
