(* ===== verification/RiscV64.thy ===== *)
theory RiscV64
  imports Insn_Codec Relaxation
begin

text \<open>
  Model of \<open>linker-utils/src/riscv64.rs\<close>: the instruction rewrites of relaxation, the tests
  that decide the compressed forms, the relocation table, and the encoding of relocation values
  into the immediates of the RISC-V instruction formats, with the RISC-V rows of
  \<open>DynamicRelocationKind\<close> from \<open>elf.rs\<close>.
\<close>

section \<open>Relaxations\<close>

definition JAL_RANGE :: "int \<times> int" where
  "JAL_RANGE = (- (2 ^ 20), 2 ^ 20 - 1)"

definition distance_fits_jal :: "i64 \<Rightarrow> bool" where
  "distance_fits_jal distance \<longleftrightarrow> fst JAL_RANGE \<le> sint distance \<and> sint distance \<le> snd JAL_RANGE"

datatype RelaxationKind =
    NoOp
  | ReplaceWithNop
  | CallToJal
  | Hi20ToCLui
  | Hi20Delete
  | Lo12Rs1ToZero

definition RS1_MASK :: u32 where "RS1_MASK = push_bit 15 0x1f"

definition riscv_apply :: "RelaxationKind \<Rightarrow> bytes \<Rightarrow> nat \<Rightarrow> bytes option" where
  "riscv_apply k section_bytes offset =
     (case k of
        NoOp \<Rightarrow> Some section_bytes
      | ReplaceWithNop \<Rightarrow> copy_at section_bytes offset [0x01, 0x0, 0x01, 0x0]
      | CallToJal \<Rightarrow> do {
          tail \<leftarrow> get_from section_bytes offset;
          auipc_word \<leftarrow> u32_from_slice tail;
          let rd = drop_bit 7 auipc_word AND 0x1f;
          let jal_base = (0x6f OR push_bit 7 rd :: u32);
          copy_at section_bytes offset (le_bytes 4 jal_base) }
      | Hi20ToCLui \<Rightarrow> do {
          b0 \<leftarrow> get section_bytes offset;
          b1 \<leftarrow> get section_bytes (offset + 1);
          let lui_lo = (from_le_bytes [b0, b1] :: u16);
          let rd = drop_bit 7 lui_lo AND 0x1f;
          let clui_base = (0x6001 OR push_bit 7 rd :: u16);
          copy_at section_bytes offset (le_bytes 2 clui_base) }
      | Hi20Delete \<Rightarrow> Some section_bytes
      | Lo12Rs1ToZero \<Rightarrow> do {
          tail \<leftarrow> get_from section_bytes offset;
          word \<leftarrow> u32_from_slice tail;
          copy_at section_bytes offset (le_bytes 4 (word AND NOT RS1_MASK)) })"

definition riscv_next_modifier :: "RelaxationKind \<Rightarrow> RelocationModifier" where
  "riscv_next_modifier k = (if k \<in> {CallToJal, Hi20Delete} then SkipNextRelocation else Normal)"

definition hi20_is_zero :: "u64 \<Rightarrow> bool" where
  "hi20_is_zero value = (let hi20 = drop_bit 12 (value + 0x800) in hi20 AND 0xfffff = 0)"

definition hi20_fits_clui :: "u64 \<Rightarrow> bool" where
  "hi20_fits_clui value =
     (let hi20 = drop_bit 12 (value + 0x800);
          as_6bit = (signed_drop_bit 2 (push_bit 2 (ucast hi20 :: i8)) :: i8)
      in (scast as_6bit :: i64) = hi20 \<and> hi20 \<noteq> 0)"

definition rd_valid_for_clui :: "u32 \<Rightarrow> bool" where
  "rd_valid_for_clui rd \<longleftrightarrow> rd \<noteq> 0 \<and> rd \<noteq> 2"

definition clui_rel_info :: RelocationKindInfo where
  "clui_rel_info =
     \<lparr>rel_kind = RelocationKind.Absolute, rel_size = bit_mask_riscv 0 32 CluiType, rel_mask = None,
      rel_range = AllowedRange_new (- (2 ^ 31)) (2 ^ 32), rel_alignment = 1, rel_bias = 0\<rparr>"

section \<open>Relocation table\<close>

text \<open>An arm that is \<^const>\<open>None\<close> is a \<open>return None\<close> of the source.\<close>

definition riscv_arms_1 :: "(string \<Rightarrow> u32) \<Rightarrow> (reloc_tuple option) arms" where
  "riscv_arms_1 elf = [
    ([''R_RISCV_NONE''],
      Some (RelocationKind.None_kind, ByteSize 0, None, Some no_check, 1)),
    ([''R_RISCV_32''],
      Some (RelocationKind.Absolute, ByteSize 4, None, Some (AllowedRange_new (- (2 ^ 31)) (2 ^ 32)), 1)),
    ([''R_RISCV_64''],
      Some (RelocationKind.Absolute, ByteSize 4, None, Some no_check, 1)),
    ([''R_RISCV_BRANCH''],
      Some (RelocationKind.Relative, bit_mask_riscv 0 32 BType, None, Some (AllowedRange_new (- (2 ^ 12)) (2 ^ 12 - 1)), 2)),
    ([''R_RISCV_JAL''],
      Some (RelocationKind.Relative, bit_mask_riscv 0 32 JType, None, Some (AllowedRange_new (- (2 ^ 20)) (2 ^ 20 - 1)), 2)),
    ([''R_RISCV_CALL'', ''R_RISCV_CALL_PLT''],
      Some (RelocationKind.PltRelative, bit_mask_riscv 0 64 UiType, None, Some (AllowedRange_new (- (2 ^ 31)) (2 ^ 32)), 1)),
    ([''R_RISCV_GOT_HI20''],
      Some (RelocationKind.GotRelative, bit_mask_riscv 0 32 UType, None, Some (AllowedRange_new (- (2 ^ 31)) (2 ^ 32)), 1)),
    ([''R_RISCV_TLS_GOT_HI20''],
      Some (RelocationKind.GotTpOff, bit_mask_riscv 0 32 UType, None, Some (AllowedRange_new (- (2 ^ 31)) (2 ^ 32)), 1)),
    ([''R_RISCV_TLS_GD_HI20''],
      Some (RelocationKind.TlsGd, bit_mask_riscv 0 32 UType, None, Some (AllowedRange_new (- (2 ^ 31)) (2 ^ 32)), 1)),
    ([''R_RISCV_PCREL_HI20''],
      Some (RelocationKind.Relative, bit_mask_riscv 0 32 UType, None, Some (AllowedRange_new (- (2 ^ 31)) (2 ^ 32)), 1)),
    ([''R_RISCV_PCREL_LO12_I''],
      Some (RelocationKind.RelativeRiscVLow12, bit_mask_riscv 0 32 IType, None, Some (AllowedRange_new (- (2 ^ 31)) (2 ^ 32)), 1)),
    ([''R_RISCV_PCREL_LO12_S''],
      Some (RelocationKind.RelativeRiscVLow12, bit_mask_riscv 0 32 SType, None, Some (AllowedRange_new (- (2 ^ 31)) (2 ^ 32)), 1)),
    ([''R_RISCV_HI20''],
      Some (RelocationKind.Absolute, bit_mask_riscv 0 32 UType, None, Some (AllowedRange_new (- (2 ^ 31)) (2 ^ 32)), 1)),
    ([''R_RISCV_LO12_I''],
      Some (RelocationKind.Absolute, bit_mask_riscv 0 32 IType, None, Some (AllowedRange_new (- (2 ^ 31)) (2 ^ 32)), 1)),
    ([''R_RISCV_LO12_S''],
      Some (RelocationKind.Absolute, bit_mask_riscv 0 32 SType, None, Some (AllowedRange_new (- (2 ^ 31)) (2 ^ 32)), 1)),
    ([''R_RISCV_TPREL_HI20''],
      Some (RelocationKind.TpOff, bit_mask_riscv 0 32 UType, None, Some (AllowedRange_new (- (2 ^ 31)) (2 ^ 32)), 1)),
    ([''R_RISCV_TPREL_LO12_I''],
      Some (RelocationKind.TpOff, bit_mask_riscv 0 32 IType, None, Some (AllowedRange_new (- (2 ^ 31)) (2 ^ 32)), 1)),
    ([''R_RISCV_TPREL_LO12_S''],
      Some (RelocationKind.TpOff, bit_mask_riscv 0 32 SType, None, Some (AllowedRange_new (- (2 ^ 31)) (2 ^ 32)), 1)),
    ([''R_RISCV_TPREL_ADD''],
      Some (RelocationKind.None_kind, ByteSize 0, None, Some no_check, 1))]"

definition riscv_arms_2 :: "(string \<Rightarrow> u32) \<Rightarrow> (reloc_tuple option) arms" where
  "riscv_arms_2 elf = [
    ([''R_RISCV_ADD8''],
      Some (RelocationKind.AbsoluteAddition, ByteSize 1, None, Some no_check, 1)),
    ([''R_RISCV_ADD16''],
      Some (RelocationKind.AbsoluteAddition, ByteSize 2, None, Some no_check, 1)),
    ([''R_RISCV_ADD32''],
      Some (RelocationKind.AbsoluteAddition, ByteSize 4, None, Some no_check, 1)),
    ([''R_RISCV_ADD64''],
      Some (RelocationKind.AbsoluteAddition, ByteSize 8, None, Some no_check, 1)),
    ([''R_RISCV_SUB8''],
      Some (RelocationKind.AbsoluteSubtraction, ByteSize 1, None, Some no_check, 1)),
    ([''R_RISCV_SUB16''],
      Some (RelocationKind.AbsoluteSubtraction, ByteSize 2, None, Some no_check, 1)),
    ([''R_RISCV_SUB32''],
      Some (RelocationKind.AbsoluteSubtraction, ByteSize 4, None, Some no_check, 1)),
    ([''R_RISCV_SUB64''],
      Some (RelocationKind.AbsoluteSubtraction, ByteSize 8, None, Some no_check, 1)),
    ([''R_RISCV_GOT32_PCREL''],
      Some (RelocationKind.GotRelative, ByteSize 4, None, Some (AllowedRange_new (- (2 ^ 31)) (2 ^ 32)), 1)),
    ([''R_RISCV_ALIGN''],
      Some (RelocationKind.Alignment_kind, ByteSize 0, None, Some no_check, 1)),
    ([''R_RISCV_RVC_BRANCH''],
      Some (RelocationKind.Relative, bit_mask_riscv 0 16 CbType, None, Some (AllowedRange_new (- (2 ^ 8)) (2 ^ 8 - 1)), 2)),
    ([''R_RISCV_RVC_JUMP''],
      Some (RelocationKind.Relative, bit_mask_riscv 0 16 CjType, None, Some (AllowedRange_new (- (2 ^ 11)) (2 ^ 11 - 1)), 2)),
    ([''R_RISCV_RELAX''],
      Some (RelocationKind.None_kind, ByteSize 0, None, Some no_check, 1)),
    ([''R_RISCV_SUB6''],
      Some (RelocationKind.AbsoluteSubtractionWord6, ByteSize 1, None, Some no_check, 1)),
    ([''R_RISCV_SET6''],
      Some (RelocationKind.AbsoluteSetWord6, ByteSize 1, None, Some no_check, 1)),
    ([''R_RISCV_SET8''],
      Some (RelocationKind.AbsoluteSet, ByteSize 1, None, Some no_check, 1)),
    ([''R_RISCV_SET16''],
      Some (RelocationKind.AbsoluteSet, ByteSize 2, None, Some no_check, 1)),
    ([''R_RISCV_SET32''],
      Some (RelocationKind.AbsoluteSet, ByteSize 4, None, Some no_check, 1)),
    ([''R_RISCV_32_PCREL''],
      Some (RelocationKind.Relative, ByteSize 4, None, Some (AllowedRange_new (- (2 ^ 31)) (2 ^ 32)), 1)),
    ([''R_RISCV_PLT32''],
      Some (RelocationKind.PltRelative, ByteSize 4, None, Some (AllowedRange_new (- (2 ^ 31)) (2 ^ 32)), 1))]"

definition riscv_arms_3 :: "(string \<Rightarrow> u32) \<Rightarrow> (reloc_tuple option) arms" where
  "riscv_arms_3 elf = [
    ([''R_RISCV_SET_ULEB128''],
      Some (RelocationKind.Relative, ByteSize 0, None, Some no_check, 1)),
    ([''R_RISCV_SUB_ULEB128''],
      Some (RelocationKind.PairSubtractionULEB128 (elf ''R_RISCV_SET_ULEB128''), ByteSize 8, None, Some no_check, 1)),
    ([''R_RISCV_TLSDESC_HI20''],
      None),
    ([''R_RISCV_TLSDESC_LOAD_LO12''],
      None),
    ([''R_RISCV_TLSDESC_ADD_LO12''],
      None),
    ([''R_RISCV_TLSDESC_CALL''],
      None)]"

definition riscv_arms :: "(string \<Rightarrow> u32) \<Rightarrow> (reloc_tuple option) arms" where
  "riscv_arms elf = riscv_arms_1 elf @ riscv_arms_2 elf @ riscv_arms_3 elf"

definition riscv_relocation_type_from_raw ::
    "(string \<Rightarrow> u32) \<Rightarrow> u32 \<Rightarrow> RelocationKindInfo option" where
  "riscv_relocation_type_from_raw elf r_type =
     do {
       arm \<leftarrow> match_arms elf (riscv_arms elf) r_type;
       (kind, sz, msk, rng, alignment) \<leftarrow> arm;
       r \<leftarrow> rng;
       Some \<lparr>rel_kind = kind, rel_size = sz, rel_mask = msk, rel_range = r,
             rel_alignment = alignment, rel_bias = 0\<rparr>
     }"

section \<open>Dynamic relocations\<close>

definition riscv_dynamic_arms :: "DynamicRelocationKind arms" where
  "riscv_dynamic_arms =
       [([''R_RISCV_COPY''], DynamicRelocationKind.Copy),
        ([''R_RISCV_IRELATIVE''], DynamicRelocationKind.Irelative),
        ([''R_RISCV_TLS_DTPMOD64''], DynamicRelocationKind.DtpMod),
        ([''R_RISCV_TLS_DTPREL64''], DynamicRelocationKind.DtpOff),
        ([''R_RISCV_TLS_TPREL64''], DynamicRelocationKind.TpOff),
        ([''R_RISCV_RELATIVE''], DynamicRelocationKind.Relative),
        ([''R_RISCV_64''], DynamicRelocationKind.Absolute),
        ([''R_RISCV_TLSDESC''], DynamicRelocationKind.TlsDesc),
        ([''R_RISCV_JUMP_SLOT''], DynamicRelocationKind.JumpSlot)]"

definition from_riscv64_r_type :: "(string \<Rightarrow> u32) \<Rightarrow> u32 \<Rightarrow> DynamicRelocationKind option" where
  "from_riscv64_r_type elf r_type = match_arms elf riscv_dynamic_arms r_type"

definition riscv64_r_name :: "DynamicRelocationKind \<Rightarrow> string" where
  "riscv64_r_name k =
     (case k of
        DynamicRelocationKind.Copy \<Rightarrow> ''R_RISCV_COPY''
      | DynamicRelocationKind.Irelative \<Rightarrow> ''R_RISCV_IRELATIVE''
      | DynamicRelocationKind.DtpMod \<Rightarrow> ''R_RISCV_TLS_DTPMOD64''
      | DynamicRelocationKind.DtpOff \<Rightarrow> ''R_RISCV_TLS_DTPREL64''
      | DynamicRelocationKind.TpOff \<Rightarrow> ''R_RISCV_TLS_TPREL64''
      | DynamicRelocationKind.Relative \<Rightarrow> ''R_RISCV_RELATIVE''
      | DynamicRelocationKind.Absolute \<Rightarrow> ''R_RISCV_64''
      | DynamicRelocationKind.GotEntry \<Rightarrow> ''R_RISCV_64''
      | DynamicRelocationKind.TlsDesc \<Rightarrow> ''R_RISCV_TLSDESC''
      | DynamicRelocationKind.JumpSlot \<Rightarrow> ''R_RISCV_JUMP_SLOT'')"

definition riscv64_r_type :: "(string \<Rightarrow> u32) \<Rightarrow> DynamicRelocationKind \<Rightarrow> u32" where
  "riscv64_r_type elf k = elf (riscv64_r_name k)"

section \<open>Instruction immediates\<close>

definition UTYPE_IMMEDIATE_MASK :: u32 where "UTYPE_IMMEDIATE_MASK = 0x00000FFF"
definition ITYPE_IMMEDIATE_MASK :: u32 where "ITYPE_IMMEDIATE_MASK = 0x000FFFFF"
definition STYPE_IMMEDIATE_MASK :: u32 where "STYPE_IMMEDIATE_MASK = 0x01FFF07F"
definition BTYPE_IMMEDIATE_MASK :: u32 where "BTYPE_IMMEDIATE_MASK = 0x01FFF07F"
definition JTYPE_IMMEDIATE_MASK :: u32 where "JTYPE_IMMEDIATE_MASK = 0x00000FFF"
definition CBTYPE_IMMEDIATE_MASK :: u16 where "CBTYPE_IMMEDIATE_MASK = 0xE383"
definition CJTYPE_IMMEDIATE_MASK :: u16 where "CJTYPE_IMMEDIATE_MASK = 0xE003"
definition CLUITYPE_IMMEDIATE_MASK :: u16 where "CLUITYPE_IMMEDIATE_MASK = 0xEF83"

text \<open>The bits a format takes from the value, before they are cut to the size of the instruction.\<close>

definition riscv_mask :: "RiscVInstruction \<Rightarrow> u64 \<Rightarrow> u64" where
  "riscv_mask insn v =
     (case insn of
        UiType \<Rightarrow> 0
      | UType \<Rightarrow> push_bit 12 (extract_bit_range (v + 0x800) 12 32)
      | IType \<Rightarrow> push_bit 20 v
      | SType \<Rightarrow> push_bit 7 (extract_bit_range v 0 5) OR push_bit 25 (extract_bit_range v 5 12)
      | BType \<Rightarrow> push_bit 7 (extract_bit v 11) OR push_bit 8 (extract_bit_range v 1 5) OR
          push_bit 25 (extract_bit_range v 5 11) OR push_bit 31 (extract_bit v 12)
      | JType \<Rightarrow> push_bit 12 (extract_bit_range v 12 20) OR push_bit 20 (extract_bit v 11) OR
          push_bit 21 (extract_bit_range v 1 11) OR push_bit 31 (extract_bit v 20)
      | CbType \<Rightarrow> push_bit 2 (extract_bit v 5) OR push_bit 3 (extract_bit_range v 1 3) OR
          push_bit 5 (extract_bit_range v 6 8) OR push_bit 10 (extract_bit_range v 3 5) OR
          push_bit 12 (extract_bit v 8)
      | CjType \<Rightarrow> push_bit 2 (extract_bit v 5) OR push_bit 3 (extract_bit_range v 1 4) OR
          push_bit 6 (extract_bit v 7) OR push_bit 7 (extract_bit v 6) OR
          push_bit 8 (extract_bit v 10) OR push_bit 9 (extract_bit_range v 8 10) OR
          push_bit 11 (extract_bit v 4) OR push_bit 12 (extract_bit v 11)
      | CluiType \<Rightarrow>
          (let hi20 = drop_bit 12 (v + 0x800)
           in push_bit 2 (hi20 AND 0x1f) OR push_bit 12 (drop_bit 5 hi20 AND 1)))"

fun riscv_write_one :: "RiscVInstruction \<Rightarrow> u64 \<Rightarrow> bytes \<Rightarrow> bytes option" where
  "riscv_write_one UType v dest =
     and_then_or dest (le_bytes 4 UTYPE_IMMEDIATE_MASK) (le_bytes 4 (ucast (riscv_mask UType v) :: u32))"
| "riscv_write_one IType v dest =
     and_then_or dest (le_bytes 4 ITYPE_IMMEDIATE_MASK) (le_bytes 4 (ucast (riscv_mask IType v) :: u32))"
| "riscv_write_one SType v dest =
     and_then_or dest (le_bytes 4 STYPE_IMMEDIATE_MASK) (le_bytes 4 (ucast (riscv_mask SType v) :: u32))"
| "riscv_write_one BType v dest =
     and_then_or dest (le_bytes 4 BTYPE_IMMEDIATE_MASK) (le_bytes 4 (ucast (riscv_mask BType v) :: u32))"
| "riscv_write_one JType v dest =
     and_then_or dest (le_bytes 4 JTYPE_IMMEDIATE_MASK) (le_bytes 4 (ucast (riscv_mask JType v) :: u32))"
| "riscv_write_one CbType v dest =
     and_then_or dest (le_bytes 2 CBTYPE_IMMEDIATE_MASK) (take 2 (le_bytes 8 (riscv_mask CbType v)))"
| "riscv_write_one CjType v dest =
     and_then_or dest (le_bytes 2 CJTYPE_IMMEDIATE_MASK) (take 2 (le_bytes 8 (riscv_mask CjType v)))"
| "riscv_write_one CluiType v dest =
     and_then_or dest (le_bytes 2 CLUITYPE_IMMEDIATE_MASK) (le_bytes 2 (ucast (riscv_mask CluiType v) :: u16))"
| "riscv_write_one UiType v dest = None"

definition riscv_write_to_value :: "RiscVInstruction \<Rightarrow> u64 \<Rightarrow> bool \<Rightarrow> bytes \<Rightarrow> bytes option" where
  "riscv_write_to_value insn v negative dest =
     (if insn = UiType then do {
        hi \<leftarrow> get_range dest 0 4;
        hi' \<leftarrow> riscv_write_one UType v hi;
        lo \<leftarrow> get_from (hi' @ drop 4 dest) 4;
        lo' \<leftarrow> riscv_write_one IType v lo;
        Some (hi' @ lo') }
      else riscv_write_one insn v dest)"

definition u16_at :: "bytes \<Rightarrow> u16 option" where
  "u16_at bs = do { b0 \<leftarrow> get bs 0; b1 \<leftarrow> get bs 1; Some (from_le_bytes [b0, b1]) }"

definition riscv_read_one :: "RiscVInstruction \<Rightarrow> bytes \<Rightarrow> (u64 \<times> bool) option" where
  "riscv_read_one insn bs =
     (case insn of
        UiType \<Rightarrow> None
      | UType \<Rightarrow> do {
          value \<leftarrow> u32_from_slice bs;
          let imm = drop_bit 12 value AND 0xfffff;
          let adjusted = (signed_drop_bit 12 (push_bit 12 imm) :: i32);
          Some (scast adjusted - 0x800, False) }
      | IType \<Rightarrow> do {
          value \<leftarrow> u32_from_slice bs;
          let imm = drop_bit 20 value AND 0xfff;
          Some (sext32 20 imm) }
      | SType \<Rightarrow> do {
          value \<leftarrow> u32_from_slice bs;
          let imm_low = drop_bit 7 value AND 0x1f;
          let imm_high = drop_bit 25 value AND 0x7f;
          Some (sext32 20 (push_bit 5 imm_high OR imm_low)) }
      | BType \<Rightarrow> do {
          value \<leftarrow> u32_from_slice bs;
          let imm11 = drop_bit 7 value AND 0x1;
          let imm1_4 = drop_bit 8 value AND 0xf;
          let imm5_10 = drop_bit 25 value AND 0x3f;
          let imm12 = drop_bit 31 value AND 0x1;
          Some (sext32 19 (push_bit 12 imm12 OR push_bit 11 imm11 OR push_bit 5 imm5_10 OR
            push_bit 1 imm1_4)) }
      | JType \<Rightarrow> do {
          value \<leftarrow> u32_from_slice bs;
          let imm12_19 = drop_bit 12 value AND 0xff;
          let imm11 = drop_bit 20 value AND 0x1;
          let imm1_10 = drop_bit 21 value AND 0x3ff;
          let imm20 = drop_bit 31 value AND 0x1;
          Some (sext32 11 (push_bit 20 imm20 OR push_bit 12 imm12_19 OR push_bit 11 imm11 OR
            push_bit 1 imm1_10)) }
      | CbType \<Rightarrow> do {
          value \<leftarrow> u16_at bs;
          let imm5 = drop_bit 2 value AND 0x1;
          let imm1_2 = drop_bit 3 value AND 0x3;
          let imm6_7 = drop_bit 5 value AND 0x3;
          let imm3_4 = drop_bit 10 value AND 0x3;
          let imm8 = drop_bit 12 value AND 0x1;
          Some (sext32 23 (ucast (push_bit 8 imm8 OR push_bit 6 imm6_7 OR push_bit 5 imm5 OR
            push_bit 3 imm3_4 OR push_bit 1 imm1_2))) }
      | CjType \<Rightarrow> do {
          value \<leftarrow> u16_at bs;
          let imm5 = drop_bit 2 value AND 0x1;
          let imm1_3 = drop_bit 3 value AND 0x7;
          let imm7 = drop_bit 6 value AND 0x1;
          let imm6 = drop_bit 7 value AND 0x1;
          let imm10 = drop_bit 8 value AND 0x1;
          let imm8_9 = drop_bit 9 value AND 0x3;
          let imm4 = drop_bit 11 value AND 0x1;
          let imm11 = drop_bit 12 value AND 0x1;
          Some (sext32 20 (ucast (push_bit 11 imm11 OR push_bit 10 imm10 OR push_bit 8 imm8_9 OR
            push_bit 7 imm7 OR push_bit 6 imm6 OR push_bit 5 imm5 OR push_bit 4 imm4 OR
            push_bit 1 imm1_3))) }
      | CluiType \<Rightarrow> do {
          value \<leftarrow> u16_at bs;
          let nzimm4_0 = drop_bit 2 value AND 0x1f;
          let nzimm5 = drop_bit 12 value AND 0x1;
          let nzimm = push_bit 5 nzimm5 OR nzimm4_0;
          let (hi20, neg) = sext32 26 (ucast nzimm);
          Some (push_bit 12 hi20 - 0x800, sint hi20 < 0) })"

definition riscv_read_value :: "RiscVInstruction \<Rightarrow> bytes \<Rightarrow> (u64 \<times> bool) option" where
  "riscv_read_value insn bs =
     (if insn = UiType then do {
        hi_bytes \<leftarrow> get_range bs 0 4;
        (hi, _) \<leftarrow> riscv_read_one UType hi_bytes;
        lo_bytes \<leftarrow> get_from bs 4;
        (lo, _) \<leftarrow> riscv_read_one IType lo_bytes;
        Some (push_bit 12 hi OR lo, False) }
      else riscv_read_one insn bs)"

section \<open>Encoding as a patch of the instruction word\<close>

lemma take_2_le_bytes: "take 2 (le_bytes 8 (v :: u64)) = le_bytes 2 (ucast v :: u16)"
  by (simp add: le_bytes_def upt_rec take_Cons' ucast_drop_bit_eq) (auto intro!: bit_word_eqI simp: bit_simps)

text \<open>The masks as unions of bit ranges.\<close>

lemma riscv_mask_ranges:
  "UTYPE_IMMEDIATE_MASK = mask 12"
  "ITYPE_IMMEDIATE_MASK = mask 20"
  "STYPE_IMMEDIATE_MASK = mask 7 OR push_bit 12 (mask 13)"
  "BTYPE_IMMEDIATE_MASK = mask 7 OR push_bit 12 (mask 13)"
  "JTYPE_IMMEDIATE_MASK = mask 12"
  "CBTYPE_IMMEDIATE_MASK = mask 2 OR push_bit 7 (mask 3) OR push_bit 13 (mask 3)"
  "CJTYPE_IMMEDIATE_MASK = mask 2 OR push_bit 13 (mask 3)"
  "CLUITYPE_IMMEDIATE_MASK = mask 2 OR push_bit 7 (mask 5) OR push_bit 13 (mask 3)"
  by (simp_all add: UTYPE_IMMEDIATE_MASK_def ITYPE_IMMEDIATE_MASK_def STYPE_IMMEDIATE_MASK_def
      BTYPE_IMMEDIATE_MASK_def JTYPE_IMMEDIATE_MASK_def CBTYPE_IMMEDIATE_MASK_def
      CJTYPE_IMMEDIATE_MASK_def CLUITYPE_IMMEDIATE_MASK_def mask_numeral)

fun riscv_keep32 :: "RiscVInstruction \<Rightarrow> u32" where
  "riscv_keep32 UType = UTYPE_IMMEDIATE_MASK"
| "riscv_keep32 IType = ITYPE_IMMEDIATE_MASK"
| "riscv_keep32 SType = STYPE_IMMEDIATE_MASK"
| "riscv_keep32 BType = BTYPE_IMMEDIATE_MASK"
| "riscv_keep32 JType = JTYPE_IMMEDIATE_MASK"
| "riscv_keep32 _ = - 1"

fun riscv_keep16 :: "RiscVInstruction \<Rightarrow> u16" where
  "riscv_keep16 CbType = CBTYPE_IMMEDIATE_MASK"
| "riscv_keep16 CjType = CJTYPE_IMMEDIATE_MASK"
| "riscv_keep16 CluiType = CLUITYPE_IMMEDIATE_MASK"
| "riscv_keep16 _ = - 1"

definition riscv_compressed :: "RiscVInstruction \<Rightarrow> bool" where
  "riscv_compressed i \<longleftrightarrow> i \<in> {CbType, CjType, CluiType}"

lemma riscv_write_word32:
  assumes "\<not> riscv_compressed i" and "i \<noteq> UiType" and "4 \<le> length dest"
  shows "riscv_write_one i v dest = Some (le_bytes 4
    ((from_le_bytes (take 4 dest) AND riscv_keep32 i) OR ucast (riscv_mask i v)) @ drop 4 dest)"
  using assms by (cases i) (simp_all add: riscv_compressed_def byte_simps)

lemma riscv_write_word16:
  assumes "riscv_compressed i" and "2 \<le> length dest"
  shows "riscv_write_one i v dest = Some (le_bytes 2
    ((from_le_bytes (take 2 dest) AND riscv_keep16 i) OR ucast (riscv_mask i v)) @ drop 2 dest)"
  using assms by (cases i) (simp_all add: riscv_compressed_def byte_simps take_2_le_bytes)

lemma riscv_mask_disjoint32:
  "\<not> riscv_compressed i \<Longrightarrow> i \<noteq> UiType \<Longrightarrow> (ucast (riscv_mask i v) :: u32) AND riscv_keep32 i = 0"
  by (cases i; rule bit_word_eqI)
    (auto simp: riscv_compressed_def riscv_mask_ranges riscv_mask_def extract_simps bit_simps)

lemma riscv_mask_clui:
  "riscv_mask CluiType v =
    push_bit 2 (take_bit 5 (drop_bit 12 (v + 0x800))) OR push_bit 12 (take_bit 1 (drop_bit 17 (v + 0x800)))"
  by (simp add: riscv_mask_def Let_def take_bit_eq_mask mask_numeral)

lemma riscv_mask_disjoint16:
  assumes "riscv_compressed i"
  shows "(ucast (riscv_mask i v) :: u16) AND riscv_keep16 i = 0"
proof (cases "i = CluiType")
  case True
  then show ?thesis
    by (auto simp: riscv_mask_clui riscv_mask_ranges bit_simps simp del: take_bit_of_1 intro!: bit_word_eqI)
next
  case False
  with assms show ?thesis
    by (cases i; intro bit_word_eqI)
      (auto simp: riscv_compressed_def riscv_mask_ranges riscv_mask_def extract_simps bit_simps)
qed

fun riscv_window :: "RiscVInstruction \<Rightarrow> nat" where
  "riscv_window UiType = 8"
| "riscv_window i = (if riscv_compressed i then 2 else 4)"

fun riscv_field :: "RiscVInstruction \<Rightarrow> u64" where
  "riscv_field UiType = ucast (NOT UTYPE_IMMEDIATE_MASK) OR push_bit 32 (ucast (NOT ITYPE_IMMEDIATE_MASK))"
| "riscv_field i = (if riscv_compressed i then ucast (NOT (riscv_keep16 i)) else ucast (NOT (riscv_keep32 i)))"

lemma riscv_write_one_None_iff:
  "i \<noteq> UiType \<Longrightarrow> riscv_write_one i v dest = None \<longleftrightarrow> length dest < riscv_window i"
proof -
  assume i: "i \<noteq> UiType"
  have "length dest < riscv_window i \<Longrightarrow> riscv_write_one i v dest = None"
    using i by (cases i) (simp_all add: riscv_compressed_def and_then_or_short)
  moreover have "riscv_window i \<le> length dest \<Longrightarrow> riscv_write_one i v dest \<noteq> None"
    using i riscv_write_word32 [of i dest v] riscv_write_word16 [of i dest v]
    by (cases i) (simp_all add: riscv_compressed_def)
  ultimately show ?thesis by (meson not_less)
qed

lemma riscv_write_one_preserves:
  assumes "riscv_write_one i v dest = Some d" and "i \<noteq> UiType"
  shows "preserves_outside (riscv_window i) (riscv_field i) dest d"
proof -
  have len: "riscv_window i \<le> length dest"
    using assms riscv_write_one_None_iff [of i v dest] by (simp add: not_less)
  show ?thesis
  proof (cases "riscv_compressed i")
    case True
    then have "riscv_window i = 2" and f: "riscv_field i = ucast (NOT (riscv_keep16 i))"
      using assms(2) by (cases i; simp)+
    with True len assms(1) riscv_write_word16 [of i dest v] show ?thesis
      using riscv_mask_disjoint16 [OF True, of v] unfolding f
      by (auto intro!: preserves_outside_word simp: bit.conj_disj_distrib2 and.assoc)
  next
    case False
    then have "riscv_window i = 4" and f: "riscv_field i = ucast (NOT (riscv_keep32 i))"
      using assms(2) by (cases i; simp)+
    with False len assms riscv_write_word32 [of i dest v] show ?thesis
      using riscv_mask_disjoint32 [of i v] unfolding f
      by (auto intro!: preserves_outside_word simp: bit.conj_disj_distrib2 and.assoc)
  qed
qed

interpretation riscv: insn_writer riscv_write_to_value riscv_window "\<lambda>_. 64" riscv_field
proof
  show "riscv_window i \<le> 8" for i
    by (cases i) simp_all
  show "riscv_write_to_value i v neg dest = None \<longleftrightarrow> length dest < riscv_window i" for i v neg dest
  proof (cases "i = UiType")
    case True
    show ?thesis
    proof (cases "4 \<le> length dest")
      case len: True
      then obtain hi' where hi': "riscv_write_one UType v (take 4 dest) = Some hi'"
        using riscv_write_one_None_iff [of UType v "take 4 dest"]
        by (cases "riscv_write_one UType v (take 4 dest)") (auto simp: riscv_compressed_def)
      then have "length hi' = 4"
        using riscv_write_one_preserves [OF hi'] len by (simp add: preserves_outside_def)
      with hi' len have "riscv_write_to_value i v neg dest = None \<longleftrightarrow> riscv_write_one IType v (drop 4 dest) = None"
        unfolding True riscv_write_to_value_def
        by (cases "riscv_write_one IType v (drop 4 dest)") (simp_all add: get_range_def get_from_def)
      then show ?thesis
        using True len riscv_write_one_None_iff [of IType v "drop 4 dest"]
        by (auto simp: riscv_compressed_def simp del: riscv_write_one.simps)
    next
      case False
      then show ?thesis
        using True by (simp add: riscv_write_to_value_def get_range_def)
    qed
  next
    case False
    then show ?thesis
      by (simp add: riscv_write_to_value_def riscv_write_one_None_iff)
  qed
  show "preserves_outside (riscv_window i) (riscv_field i) dest d"
    if written: "riscv_write_to_value i v neg dest = Some d" for i v neg dest d
  proof (cases "i = UiType")
    case True
    obtain hi' lo' where w: "riscv_write_one UType v (take 4 dest) = Some hi'" "4 \<le> length dest"
        "riscv_write_one IType v (drop 4 (hi' @ drop 4 dest)) = Some lo'" "d = hi' @ lo'"
      using written True
      by (auto simp: riscv_write_to_value_def bind_eq_Some_conv get_range_def get_from_def
          simp del: riscv_write_one.simps drop_append split: if_splits)
    have hi: "preserves_outside 4 (riscv_field UType) (take 4 dest) hi'"
      using riscv_write_one_preserves [OF w(1)] by (simp add: riscv_compressed_def)
    then have "length hi' = 4" using w(2) by (simp add: preserves_outside_def)
    then have lo: "preserves_outside 4 (riscv_field IType) (drop 4 dest) lo'" and "8 \<le> length dest"
      using riscv_write_one_preserves [OF w(3)] riscv_write_one_None_iff [of IType v "drop 4 dest"] w(2,3)
      by (auto simp: riscv_compressed_def simp del: riscv_write_one.simps)
    with hi show ?thesis
      unfolding w(4) True
      using preserves_outside_append by (simp add: riscv_compressed_def)
  next
    case False
    then show ?thesis
      using written riscv_write_one_preserves by (simp add: riscv_write_to_value_def)
  qed
qed

section \<open>Reading back\<close>

text \<open>The branch and jump formats decode to the value with its low bit dropped.\<close>

fun riscv_jump_bits :: "RiscVInstruction \<Rightarrow> nat option" where
  "riscv_jump_bits BType = Some 13"
| "riscv_jump_bits JType = Some 21"
| "riscv_jump_bits CbType = Some 9"
| "riscv_jump_bits CjType = Some 12"
| "riscv_jump_bits _ = None"

lemma u16_at_le_bytes [byte_simps]: "u16_at (le_bytes 2 (w :: u16) @ bs) = Some w"
proof -
  have "[le_bytes 2 w ! 0, le_bytes 2 w ! 1] = le_bytes 2 w"
    by (simp add: le_bytes_def upt_rec)
  then have "from_le_bytes [le_bytes 2 w ! 0, le_bytes 2 w ! 1] = w"
    by (simp only:) simp
  then show ?thesis
    by (simp add: u16_at_def get_def nth_append)
qed

definition riscv_word32 :: "RiscVInstruction \<Rightarrow> u32 \<Rightarrow> u64 \<Rightarrow> u32" where
  "riscv_word32 i w v = (w AND riscv_keep32 i) OR ucast (riscv_mask i v)"

definition riscv_word16 :: "RiscVInstruction \<Rightarrow> u16 \<Rightarrow> u64 \<Rightarrow> u16" where
  "riscv_word16 i w v = (w AND riscv_keep16 i) OR ucast (riscv_mask i v)"

text \<open>Evaluating single bits of an encoded word.\<close>

lemmas riscv_bit_simps = riscv_word32_def riscv_word16_def riscv_mask_ranges riscv_mask_def extract_simps
  bit_simps

lemma riscv_btype_bits:
  "bit (riscv_word32 BType w v) 7 = bit v 11" "bit (riscv_word32 BType w v) 8 = bit v 1"
    "bit (riscv_word32 BType w v) 9 = bit v 2" "bit (riscv_word32 BType w v) 10 = bit v 3"
    "bit (riscv_word32 BType w v) 11 = bit v 4" "bit (riscv_word32 BType w v) 25 = bit v 5"
    "bit (riscv_word32 BType w v) 26 = bit v 6" "bit (riscv_word32 BType w v) 27 = bit v 7"
    "bit (riscv_word32 BType w v) 28 = bit v 8" "bit (riscv_word32 BType w v) 29 = bit v 9"
    "bit (riscv_word32 BType w v) 30 = bit v 10" "bit (riscv_word32 BType w v) 31 = bit v 12"
  by (simp_all add: riscv_bit_simps del: One_nat_def)

lemma riscv_read_btype:
  "riscv_read_one BType (le_bytes 4 (riscv_word32 BType w v) @ bs) =
    Some (signed_take_bit 12 (v AND NOT 1), bit (v AND NOT 1) 12)"
proof -
  have "sext32 19 imm = (signed_take_bit 12 (v AND NOT 1), bit (v AND NOT 1) 12)"
    if "list_all (\<lambda>k. bit imm k = bit (v AND NOT 1) k) [0..<13]" for imm
    using sext32_eqI [of imm "v AND NOT 1" 12 19] that by simp
  then show ?thesis
    by (simp add: riscv_read_one_def byte_simps AND_low_mask Let_def list_all_upt_numeral bit_simps bit_1_iff
        riscv_btype_bits del: and_one_eq One_nat_def)
qed

lemma riscv_jtype_bits:
  "bit (riscv_word32 JType w v) 12 = bit v 12" "bit (riscv_word32 JType w v) 13 = bit v 13"
    "bit (riscv_word32 JType w v) 14 = bit v 14" "bit (riscv_word32 JType w v) 15 = bit v 15"
    "bit (riscv_word32 JType w v) 16 = bit v 16" "bit (riscv_word32 JType w v) 17 = bit v 17"
    "bit (riscv_word32 JType w v) 18 = bit v 18" "bit (riscv_word32 JType w v) 19 = bit v 19"
    "bit (riscv_word32 JType w v) 20 = bit v 11" "bit (riscv_word32 JType w v) 21 = bit v 1"
    "bit (riscv_word32 JType w v) 22 = bit v 2" "bit (riscv_word32 JType w v) 23 = bit v 3"
    "bit (riscv_word32 JType w v) 24 = bit v 4" "bit (riscv_word32 JType w v) 25 = bit v 5"
    "bit (riscv_word32 JType w v) 26 = bit v 6" "bit (riscv_word32 JType w v) 27 = bit v 7"
    "bit (riscv_word32 JType w v) 28 = bit v 8" "bit (riscv_word32 JType w v) 29 = bit v 9"
    "bit (riscv_word32 JType w v) 30 = bit v 10" "bit (riscv_word32 JType w v) 31 = bit v 20"
  by (simp_all add: riscv_bit_simps del: One_nat_def)

lemma riscv_read_jtype:
  "riscv_read_one JType (le_bytes 4 (riscv_word32 JType w v) @ bs) =
    Some (signed_take_bit 20 (v AND NOT 1), bit (v AND NOT 1) 20)"
proof -
  have "sext32 11 imm = (signed_take_bit 20 (v AND NOT 1), bit (v AND NOT 1) 20)"
    if "list_all (\<lambda>k. bit imm k = bit (v AND NOT 1) k) [0..<21]" for imm
    using sext32_eqI [of imm "v AND NOT 1" 20 11] that by simp
  then show ?thesis
    by (simp add: riscv_read_one_def byte_simps AND_low_mask Let_def list_all_upt_numeral bit_simps bit_1_iff
        riscv_jtype_bits del: and_one_eq One_nat_def)
qed

lemma riscv_cbtype_bits:
  "bit (riscv_word16 CbType w v) 2 = bit v 5" "bit (riscv_word16 CbType w v) 3 = bit v 1"
    "bit (riscv_word16 CbType w v) 4 = bit v 2" "bit (riscv_word16 CbType w v) 5 = bit v 6"
    "bit (riscv_word16 CbType w v) 6 = bit v 7" "bit (riscv_word16 CbType w v) 10 = bit v 3"
    "bit (riscv_word16 CbType w v) 11 = bit v 4" "bit (riscv_word16 CbType w v) 12 = bit v 8"
  by (simp_all add: riscv_bit_simps del: One_nat_def)

lemma riscv_read_cbtype:
  "riscv_read_one CbType (le_bytes 2 (riscv_word16 CbType w v) @ bs) =
    Some (signed_take_bit 8 (v AND NOT 1), bit (v AND NOT 1) 8)"
proof -
  have "sext32 23 imm = (signed_take_bit 8 (v AND NOT 1), bit (v AND NOT 1) 8)"
    if "list_all (\<lambda>k. bit imm k = bit (v AND NOT 1) k) [0..<9]" for imm
    using sext32_eqI [of imm "v AND NOT 1" 8 23] that by simp
  then show ?thesis
    by (simp add: riscv_read_one_def byte_simps AND_low_mask Let_def list_all_upt_numeral bit_simps bit_1_iff
        riscv_cbtype_bits del: and_one_eq One_nat_def)
qed

lemma riscv_cjtype_bits:
  "bit (riscv_word16 CjType w v) 2 = bit v 5" "bit (riscv_word16 CjType w v) 3 = bit v 1"
    "bit (riscv_word16 CjType w v) 4 = bit v 2" "bit (riscv_word16 CjType w v) 5 = bit v 3"
    "bit (riscv_word16 CjType w v) 6 = bit v 7" "bit (riscv_word16 CjType w v) 7 = bit v 6"
    "bit (riscv_word16 CjType w v) 8 = bit v 10" "bit (riscv_word16 CjType w v) 9 = bit v 8"
    "bit (riscv_word16 CjType w v) 10 = bit v 9" "bit (riscv_word16 CjType w v) 11 = bit v 4"
    "bit (riscv_word16 CjType w v) 12 = bit v 11"
  by (simp_all add: riscv_bit_simps del: One_nat_def)

lemma riscv_read_cjtype:
  "riscv_read_one CjType (le_bytes 2 (riscv_word16 CjType w v) @ bs) =
    Some (signed_take_bit 11 (v AND NOT 1), bit (v AND NOT 1) 11)"
proof -
  have "sext32 20 imm = (signed_take_bit 11 (v AND NOT 1), bit (v AND NOT 1) 11)"
    if "list_all (\<lambda>k. bit imm k = bit (v AND NOT 1) k) [0..<12]" for imm
    using sext32_eqI [of imm "v AND NOT 1" 11 20] that by simp
  then show ?thesis
    by (simp add: riscv_read_one_def byte_simps AND_low_mask Let_def list_all_upt_numeral bit_simps bit_1_iff
        riscv_cjtype_bits del: and_one_eq One_nat_def)
qed

lemma riscv_jtype_low: "take_bit 12 (riscv_word32 JType w v) = take_bit 12 w"
  by (rule bit_word_eqI) (auto simp: riscv_bit_simps)

lemma riscv_itype_bits:
  "20 \<le> k \<Longrightarrow> k < 32 \<Longrightarrow> bit (riscv_word32 IType w v) k = bit v (k - 20)"
  by (simp add: riscv_bit_simps)

lemma riscv_read_itype:
  "riscv_read_one IType (le_bytes 4 (riscv_word32 IType w v) @ bs) =
    Some (signed_take_bit 11 v, bit v 11)"
proof -
  have "sext32 20 (take_bit 12 (drop_bit 20 (riscv_word32 IType w v))) = (signed_take_bit 11 v, bit v 11)"
    by (rule sext32_eqI) (simp_all add: list_all_iff bit_simps riscv_itype_bits)
  then show ?thesis
    by (simp add: riscv_read_one_def byte_simps AND_low_mask Let_def)
qed

lemma riscv_stype_bits:
  "7 \<le> k \<Longrightarrow> k < 12 \<Longrightarrow> bit (riscv_word32 SType w v) k = bit v (k - 7)"
  "25 \<le> k \<Longrightarrow> k < 32 \<Longrightarrow> bit (riscv_word32 SType w v) k = bit v (k - 20)"
  by (auto simp: riscv_bit_simps)

lemma riscv_read_stype:
  "riscv_read_one SType (le_bytes 4 (riscv_word32 SType w v) @ bs) =
    Some (signed_take_bit 11 v, bit v 11)"
proof -
  let ?w = "riscv_word32 SType w v"
  have "sext32 20 (push_bit 5 (take_bit 7 (drop_bit 25 ?w)) OR take_bit 5 (drop_bit 7 ?w)) =
      (signed_take_bit 11 v, bit v 11)"
    by (rule sext32_eqI, simp_all add: list_all_upt_numeral bit_simps riscv_stype_bits del: One_nat_def)
      simp
  then show ?thesis
    by (simp add: riscv_read_one_def byte_simps AND_low_mask Let_def)
qed

text \<open>The upper immediate as the processor reads it: the top 20 bits in place.\<close>

definition riscv_upper :: "u32 \<Rightarrow> u32" where
  "riscv_upper w = w AND 0xFFFFF000"

lemma riscv_upper_utype: "riscv_upper (riscv_word32 UType w v) = push_bit 12 (drop_bit 12 (ucast v + 0x800))"
proof -
  have m: "(0xFFFFF000 :: u32) = NOT (mask 12)" by (simp add: mask_numeral)
  have "(ucast (v + 0x800) :: u32) = ucast v + 0x800"
    by (simp add: ucast_add_down)
  moreover have "riscv_upper (riscv_word32 UType w v) = push_bit 12 (drop_bit 12 (ucast (v + 0x800)))"
    unfolding riscv_upper_def m
    by (rule bit_word_eqI) (auto simp: riscv_bit_simps)
  ultimately show ?thesis by simp
qed

lemma riscv_write_word32':
  "\<not> riscv_compressed i \<Longrightarrow> i \<noteq> UiType \<Longrightarrow> 4 \<le> length dest \<Longrightarrow>
    riscv_write_to_value i v negative dest =
    Some (le_bytes 4 (riscv_word32 i (from_le_bytes (take 4 dest)) v) @ drop 4 dest)"
  by (simp add: riscv_write_to_value_def riscv_write_word32 riscv_word32_def)

lemma riscv_write_word16':
  "riscv_compressed i \<Longrightarrow> 2 \<le> length dest \<Longrightarrow>
    riscv_write_to_value i v negative dest =
    Some (le_bytes 2 (riscv_word16 i (from_le_bytes (take 2 dest)) v) @ drop 2 dest)"
  using riscv_write_word16 [of i dest v]
  by (auto simp: riscv_write_to_value_def riscv_word16_def riscv_compressed_def)

lemma riscv_jump_readback:
  assumes "riscv_jump_bits i = Some n" and "riscv_window i \<le> length dest"
  shows "\<exists>d. riscv_write_to_value i v negative dest = Some d \<and>
    riscv_read_value i d = Some (signed_take_bit (n - 1) (v AND NOT 1), bit (v AND NOT 1) (n - 1))"
  using assms
  by (cases i)
    (simp_all add: riscv_write_word32' riscv_write_word16' riscv_compressed_def riscv_read_value_def
      riscv_read_btype riscv_read_jtype riscv_read_cbtype riscv_read_cjtype del: One_nat_def)

section \<open>The relocation table\<close>

lemmas riscv_arms_defs = riscv_arms_def riscv_arms_1_def riscv_arms_2_def riscv_arms_3_def

definition riscv_size_fits :: "RelocationSize \<Rightarrow> bool" where
  "riscv_size_fits sz = size_fits (\<lambda>i. case i of RiscV _ \<Rightarrow> 64 | _ \<Rightarrow> 0) sz"

text \<open>
  What holds of every arm: the size is in bounds, the range exists, and the branch and jump
  formats have the signed range of their immediate without its last value, and alignment 2.
\<close>

definition riscv_arm_ok :: "reloc_tuple \<Rightarrow> bool" where
  "riscv_arm_ok = (\<lambda>(kind, sz, msk, rng, alignment).
     riscv_size_fits sz \<and>
     (case sz of
        ByteSize _ \<Rightarrow> True
      | BitMasking bm \<Rightarrow>
          (case instruction bm of
             RiscV i \<Rightarrow>
               (case riscv_jump_bits i of
                  None \<Rightarrow> True
                | Some n \<Rightarrow>
                    rng = Some (AllowedRange_new (- (2 ^ (n - 1))) (2 ^ (n - 1) - 1)) \<and> alignment = 2 \<and>
                    start (bit_range bm) = 0 \<and> n \<le> end_bit (bit_range bm))
           | _ \<Rightarrow> False)))"

lemma riscv_arms_ok:
  "list_all (\<lambda>(names, arm). case arm of None \<Rightarrow> True | Some t \<Rightarrow> riscv_arm_ok t) (riscv_arms elf)"
  by (simp add: riscv_arms_defs riscv_arm_ok_def riscv_size_fits_def size_fits_def bit_mask_riscv_def
      BitMask_new_def)

lemma riscv_arm_names_distinct: "distinct (arm_names (riscv_arms elf))"
  by (simp add: arm_names_def riscv_arms_defs)

lemma riscv_arm_found:
  assumes "inj_on elf (set (arm_names (riscv_arms elf)))" "(names, Some (kind, sz, msk, Some rng, al)) \<in> set (riscv_arms elf)" "n \<in> set names"
  shows "riscv_relocation_type_from_raw elf (elf n) =
    Some \<lparr>rel_kind = kind, rel_size = sz, rel_mask = msk, rel_range = rng, rel_alignment = al, rel_bias = 0\<rparr>"
  using match_arms_unique [OF riscv_arm_names_distinct assms] by (simp add: riscv_relocation_type_from_raw_def)

lemma riscv_numbered: "inj_on (numbered (arm_names (riscv_arms f))) (set (arm_names (riscv_arms g)))"
proof -
  have "arm_names (riscv_arms f) = arm_names (riscv_arms g)" by (simp add: arm_names_def riscv_arms_defs)
  moreover have "length (arm_names (riscv_arms g)) < 2 ^ 32" by (simp add: arm_names_def riscv_arms_defs)
  ultimately show ?thesis by (simp only: inj_on_numbered)
qed

lemma riscv_relocation_type_from_raw_ok:
  assumes "riscv_relocation_type_from_raw elf r = Some info"
  shows "riscv_arm_ok (rel_kind info, rel_size info, rel_mask info, Some (rel_range info), rel_alignment info)"
proof -
  obtain kind sz msk rng al where arm: "match_arms elf (riscv_arms elf) r = Some (Some (kind, sz, msk, Some rng, al))"
    and info: "info = \<lparr>rel_kind = kind, rel_size = sz, rel_mask = msk, rel_range = rng,
      rel_alignment = al, rel_bias = 0\<rparr>"
    using assms by (auto simp: riscv_relocation_type_from_raw_def bind_eq_Some_conv)
  show ?thesis
    using match_arms_list_all [OF arm riscv_arms_ok] info by auto
qed

section \<open>Properties\<close>

lemma even_value: "unat v mod 2 = 0 \<Longrightarrow> v AND NOT 1 = (v :: u64)"
  using aligned_low_bits_clear [of v 1] by (simp add: mask_eq_exp_minus_1)

text \<open>
  (C20) Branches and jumps reach their target: for every relocation type of the table that
  patches a branch or jump format (B, J, CB, CJ), a value that passes \<open>verify\<close> is written and
  decoded back exactly, with its sign.
\<close>

theorem riscv_jump_roundtrip:
  assumes "riscv_relocation_type_from_raw elf r = Some info"
    and "rel_size info = BitMasking \<lparr>instruction = RiscV i, bit_range = \<lparr>start = lo, end_bit = hi\<rparr>\<rparr>"
    and "riscv_jump_bits i = Some n" and "verify info value = Inr ()"
    and "riscv_window i \<le> length dest"
  shows "\<exists>d. riscv_write_to_value i (extract_bit_range value lo hi) negative dest = Some d \<and>
    riscv_read_value i d = Some (value, sint value < 0)"
proof -
  have arm: "rel_range info = AllowedRange_new (- (2 ^ (n - 1))) (2 ^ (n - 1) - 1)"
      "rel_alignment info = 2" "lo = 0" "n \<le> hi" "0 < hi" "hi \<le> 64"
    using riscv_relocation_type_from_raw_ok [OF assms(1)] assms(2,3)
    by (simp_all add: riscv_arm_ok_def riscv_size_fits_def size_fits_def)
  have n: "0 < n" "n \<le> 21" using assms(3) by (cases i; simp)+
  have even: "value AND NOT 1 = value"
    using assms(4) arm(2) by (intro even_value) (simp add: verify_Inr_iff is_multiple_of_def)
  have fits: "signed_take_bit (n - 1) value = value"
    using assms(4) arm(1)
    by (intro signed_take_bit_fits) (simp_all add: verify_Inr_iff range_contains_def AllowedRange_new_def)
  have "take_bit n (take_bit hi value AND NOT 1) = take_bit n (value AND NOT 1)"
    using arm(4) by (intro bit_word_eqI) (auto simp: bit_simps)
  then have "take_bit (Suc (n - 1)) (take_bit hi value AND NOT 1) = take_bit (Suc (n - 1)) value"
    using n(1) unfolding even by simp
  then have x: "signed_take_bit (n - 1) (take_bit hi value AND NOT 1) = value"
    using fits signed_take_bit_eq_iff_take_bit_eq by metis
  have "bit (take_bit hi value AND NOT 1) (n - 1) = bit (value AND NOT 1) (n - 1)"
    using arm(4) n by (auto simp: bit_simps)
  then have "bit (take_bit hi value AND NOT 1) (n - 1) \<longleftrightarrow> sint value < 0"
    using even signed_fits_sign [OF fits] n by simp
  moreover have "extract_bit_range value lo hi = take_bit hi value"
    using arm by (simp add: extract_bit_range_eq)
  ultimately show ?thesis
    using riscv_jump_readback [OF assms(3,5), of "take_bit hi value" negative] x by simp
qed

theorem riscv_jump_roundtrip_witness:
  "\<exists>d. riscv_write_to_value JType (extract_bit_range (- 2048) 0 32) True [0xef, 0, 0, 0] = Some d \<and>
    riscv_read_value JType d = Some (- 2048, True)"
proof -
  let ?elf = "\<lambda>n. if n = ''R_RISCV_JAL'' then 1 else 0 :: u32"
  obtain info where info: "riscv_relocation_type_from_raw ?elf 1 = Some info"
    and "info = \<lparr>rel_kind = RelocationKind.Relative, rel_size = bit_mask_riscv 0 32 JType,
      rel_mask = None, rel_range = AllowedRange_new (- (2 ^ 20)) (2 ^ 20 - 1), rel_alignment = 2, rel_bias = 0\<rparr>"
    by (simp add: riscv_relocation_type_from_raw_def match_arms_def riscv_arms_defs)
  then show ?thesis
    using riscv_jump_roundtrip [OF info, of JType 0 32 21 "- 2048" "[0xef, 0, 0, 0]" True]
    by (simp add: bit_mask_riscv_def BitMask_new_def riscv_compressed_def verify_def is_multiple_of_def
        range_contains_def AllowedRange_new_def)
qed

text \<open>
  (C21) The two halves of a 32-bit address add up: after the upper immediate of one instruction
  and the low immediate of another (I or S format) are patched with the same value, the upper
  immediate plus the sign-extended low immediate is the value modulo \<open>2\<^sup>3\<^sup>2\<close>, whatever the
  instructions held before.
\<close>

theorem riscv_hi_lo_pair:
  assumes "4 \<le> length hi_dest" and "4 \<le> length lo_dest" and "i = IType \<or> i = SType"
  shows "\<exists>h l x neg. riscv_write_to_value UType (extract_bit_range value 0 32) negative hi_dest = Some h \<and>
    riscv_write_to_value i (extract_bit_range value 0 32) negative lo_dest = Some l \<and>
    riscv_read_value i l = Some (x, neg) \<and>
    riscv_upper (from_le_bytes (take 4 h)) + ucast x = (ucast value :: u32)"
proof -
  let ?v = "extract_bit_range value 0 32"
  have v: "?v = take_bit 32 value" by (simp add: extract_bit_range_eq)
  let ?w = "riscv_word32 UType (from_le_bytes (take 4 hi_dest)) ?v"
  have "riscv_upper ?w + signed_take_bit 11 (ucast ?v) = (ucast ?v :: u32)"
    using hi_lo_split [of 11 "ucast ?v :: u32"] by (simp add: riscv_upper_utype)
  moreover have "(ucast ?v :: u32) = ucast value"
    by (rule bit_word_eqI) (simp add: v bit_simps)
  moreover have "(ucast (signed_take_bit 11 ?v) :: u32) = signed_take_bit 11 (ucast ?v)"
    by (rule bit_word_eqI) (simp add: bit_simps min_def)
  ultimately have "riscv_upper ?w + ucast (signed_take_bit 11 ?v) = (ucast value :: u32)"
    by simp
  moreover have "riscv_read_value i (le_bytes 4 (riscv_word32 i w ?v) @ bs) = Some (signed_take_bit 11 ?v, bit ?v 11)" for w bs
    using assms(3) riscv_read_itype riscv_read_stype by (auto simp: riscv_read_value_def)
  ultimately show ?thesis
    using assms riscv_write_word32' [of UType hi_dest ?v negative] riscv_write_word32' [of i lo_dest ?v negative]
    by (auto simp: riscv_compressed_def)
qed

theorem riscv_hi_lo_pair_witness:
  "\<exists>h l x neg. riscv_write_to_value UType (extract_bit_range 0x12345FFF 0 32) False [0x37, 5, 0, 0] = Some h \<and>
    riscv_write_to_value IType (extract_bit_range 0x12345FFF 0 32) False [0x13, 5, 5, 0] = Some l \<and>
    riscv_read_value IType l = Some (x, neg) \<and>
    riscv_upper (from_le_bytes (take 4 h)) + ucast x = 0x12345FFF"
  using riscv_hi_lo_pair [of "[0x37, 5, 0, 0]" "[0x13, 5, 5, 0]" IType "0x12345FFF" False] by simp

lemma sign_extend_6_iff:
  fixes h :: u64
  assumes "take_bit 52 h = h"
  shows "(scast (signed_drop_bit 2 (push_bit 2 (ucast h :: i8)) :: i8) :: i64) = h \<longleftrightarrow> h < 32"
proof -
  have "bit (scast (signed_drop_bit 2 (push_bit 2 (ucast h :: i8)) :: i8) :: i64) k = bit h (min k 5)"
    if "k < 64" for k
  proof -
    consider "k < 5" | "k = 5" | "6 \<le> k" by linarith
    then show ?thesis using that by cases (auto simp: bit_simps min_def)
  qed
  then have s: "(scast (signed_drop_bit 2 (push_bit 2 (ucast h :: i8)) :: i8) :: i64) = signed_take_bit 5 h"
    by (intro bit_word_eqI) (simp add: bit_signed_take_bit_iff min.commute)
  have hi: "\<not> bit h 63" by (subst assms [symmetric]) (simp add: bit_simps)
  have lt: "h < 32 \<longleftrightarrow> take_bit 5 h = h" using take_bit_eq_self_less [of 5 h] by simp
  show ?thesis
  proof (cases "bit h 5")
    case True
    then have "bit (signed_take_bit 5 h) 63" by (simp add: bit_simps)
    moreover have "\<not> bit (take_bit 5 h) 5" by (simp add: bit_simps)
    ultimately show ?thesis unfolding s lt using hi True by metis
  next
    case False
    then have "signed_take_bit 5 h = take_bit 5 h" by (simp add: signed_take_bit_eq_if_positive)
    then show ?thesis by (simp add: s lt)
  qed
qed

lemma hi20_fits_clui_less: "hi20_fits_clui value \<longleftrightarrow> drop_bit 12 (value + 0x800) < 32 \<and> drop_bit 12 (value + 0x800) \<noteq> 0"
proof -
  have "take_bit 52 (drop_bit 12 x) = drop_bit 12 x" for x :: u64
    by (rule bit_word_eqI) (auto simp: bit_simps dest: bit_imp_le_length)
  then show ?thesis
    unfolding hi20_fits_clui_def Let_def by (simp only: sign_extend_6_iff)
qed

text \<open>
  When the linker compresses \<open>lui\<close>: the rounded upper part has to lie between 1 and 31.
  Negative upper parts are never compressed, although the documentation of \<open>hi20_fits_clui\<close> also
  lists the range from -32 to -1: the shift is unsigned, so the sign is lost.
\<close>

theorem hi20_fits_clui_iff:
  "hi20_fits_clui value \<longleftrightarrow> 1 \<le> uint (drop_bit 12 (value + 0x800)) \<and> uint (drop_bit 12 (value + 0x800)) \<le> 31"
proof -
  let ?h = "drop_bit 12 (value + 0x800)"
  have "x \<noteq> 0 \<longleftrightarrow> 1 \<le> uint x" for x :: u64
    using unsigned_greater_eq [of x] by (metis int_one_le_iff_zero_less order_le_less uint_0_iff zero_less_one_class.zero_le_one not_one_le_zero)
  then have "?h \<noteq> 0 \<longleftrightarrow> 1 \<le> uint ?h" .
  moreover have "?h < 32 \<longleftrightarrow> uint ?h \<le> 31" by (auto simp: word_less_def)
  ultimately show ?thesis by (auto simp: hi20_fits_clui_less)
qed

text \<open>
  Compressing \<open>lui\<close> is sound: for a value that \<open>hi20_fits_clui\<close> accepts, the patched
  \<open>c.lui\<close> decodes to the rounded upper part of the value, which is what \<open>lui\<close> would have loaded.
\<close>

theorem riscv_clui_roundtrip:
  assumes "hi20_fits_clui value" and "2 \<le> length dest"
  shows "\<exists>d. riscv_write_to_value CluiType value negative dest = Some d \<and>
    riscv_read_value CluiType d = Some (push_bit 12 (drop_bit 12 (value + 0x800)) - 0x800, False)"
proof -
  let ?h = "drop_bit 12 (value + 0x800)"
  define w where "w = riscv_word16 CluiType (from_le_bytes (take 2 dest)) value"
  have h: "take_bit 5 ?h = ?h"
    using assms(1) take_bit_eq_self_less [of 5 ?h] by (simp add: hi20_fits_clui_less)
  have bits: "bit w 2 = bit ?h 0" "bit w 3 = bit ?h 1" "bit w 4 = bit ?h 2" "bit w 5 = bit ?h 3"
    "bit w 6 = bit ?h 4" "bit w 12 = bit ?h 5"
    by (simp_all add: w_def riscv_word16_def riscv_mask_clui riscv_mask_ranges bit_simps del: One_nat_def)
  have "sext32 26 (ucast (push_bit 5 (take_bit 1 (drop_bit 12 w)) OR take_bit 5 (drop_bit 2 w))) =
      (signed_take_bit 5 ?h, bit ?h 5)"
    by (rule sext32_eqI, simp_all add: list_all_upt_numeral bit_unsigned_iff bit_or_iff bit_push_bit_iff
        bit_take_bit_iff bit_drop_bit_eq bits bits(1) [unfolded numeral_2_eq_2] del: One_nat_def)
  moreover have not5: "\<not> bit ?h 5" by (subst h [symmetric]) (simp add: bit_simps)
  moreover have "signed_take_bit 5 ?h = ?h"
    using not5 h by (simp add: signed_take_bit_eq_if_positive)
  moreover have "\<not> sint ?h < 0"
  proof -
    have "\<not> sint (take_bit 5 x) < 0" for x :: u64
      using bit_last_iff [of "take_bit 5 x"] by (simp add: bit_simps)
    then show ?thesis using h by metis
  qed
  ultimately have "riscv_read_value CluiType (le_bytes 2 w @ drop 2 dest) = Some (push_bit 12 ?h - 0x800, False)"
    by (simp add: riscv_read_value_def riscv_read_one_def byte_simps AND_low_mask Let_def del: and_one_eq)
  then show ?thesis
    using assms(2) by (simp add: riscv_write_word16' riscv_compressed_def w_def)
qed

theorem riscv_clui_roundtrip_witness:
  "\<exists>d. riscv_write_to_value CluiType 0x5900 False [0x01, 0x65] = Some d \<and>
    riscv_read_value CluiType d = Some (push_bit 12 6 - 0x800, False)"
  using riscv_clui_roundtrip [of "0x5900" "[0x01, 0x65]" False] by (simp add: hi20_fits_clui_less)

text \<open>A GOT entry is emitted as an absolute relocation, so it is read back as one.\<close>

lemma riscv_dynamic:
  assumes "inj_on elf (set (arm_names riscv_dynamic_arms))"
  shows "from_riscv64_r_type elf (riscv64_r_type elf k) =
    Some (if k = GotEntry then DynamicRelocationKind.Absolute else k)"
  unfolding from_riscv64_r_type_def riscv64_r_type_def
proof (rule match_arms_unique [OF _ assms])
  show "distinct (arm_names riscv_dynamic_arms)"
    by (simp add: arm_names_def riscv_dynamic_arms_def)
  show "([riscv64_r_name k], if k = GotEntry then DynamicRelocationKind.Absolute else k) \<in> set riscv_dynamic_arms"
    by (cases k) (simp_all add: riscv_dynamic_arms_def riscv64_r_name_def)
qed simp

end
