(* ===== verification/LoongArch64.thy ===== *)
theory LoongArch64
  imports Insn_Codec Relaxation
begin

text \<open>
  Model of \<open>linker-utils/src/loongarch64.rs\<close>: relaxation, the relocation table with its bias,
  the encoding of relocation values into instruction immediates, and the computation of the
  highest part of a 64-bit PC-relative address, with the LoongArch rows of
  \<open>DynamicRelocationKind\<close> from \<open>elf.rs\<close>.
\<close>

section \<open>Relaxations\<close>

datatype RelaxationKind = NoOp | ReplaceWithNop

definition loongarch64_apply :: "RelaxationKind \<Rightarrow> bytes \<Rightarrow> nat \<Rightarrow> bytes option" where
  "loongarch64_apply k section_bytes offset =
     (case k of
        NoOp \<Rightarrow> Some section_bytes
      | ReplaceWithNop \<Rightarrow> copy_at section_bytes offset [0x03, 0x40, 0x0, 0x0])"

definition loongarch64_next_modifier :: "RelaxationKind \<Rightarrow> RelocationModifier" where
  "loongarch64_next_modifier k = Normal"

section \<open>Relocation table\<close>

type_synonym reloc_tuple_bias =
  "RelocationKind \<times> RelocationSize \<times> PageMask option \<times> AllowedRange option \<times> nat \<times> u64"

definition loongarch64_arms_1 :: "(string \<Rightarrow> u32) \<Rightarrow> (reloc_tuple_bias option) arms" where
  "loongarch64_arms_1 elf = [
    ([''R_LARCH_NONE''],
      Some (RelocationKind.None_kind, ByteSize 0, None, Some no_check, 1, 0)),
    ([''R_LARCH_32''],
      Some (RelocationKind.Absolute, ByteSize 4, None, Some (AllowedRange_new (- (2 ^ 31)) (2 ^ 32)), 1, 0)),
    ([''R_LARCH_64''],
      Some (RelocationKind.Absolute, ByteSize 4, None, Some no_check, 1, 0)),
    ([''R_LARCH_ADD6''],
      Some (RelocationKind.AbsoluteAdditionWord6, ByteSize 1, None, Some no_check, 1, 0)),
    ([''R_LARCH_ADD8''],
      Some (RelocationKind.AbsoluteAddition, ByteSize 1, None, Some no_check, 1, 0)),
    ([''R_LARCH_ADD16''],
      Some (RelocationKind.AbsoluteAddition, ByteSize 2, None, Some no_check, 1, 0)),
    ([''R_LARCH_ADD24''],
      Some (RelocationKind.AbsoluteAddition, ByteSize 3, None, Some no_check, 1, 0)),
    ([''R_LARCH_ADD32''],
      Some (RelocationKind.AbsoluteAddition, ByteSize 4, None, Some no_check, 1, 0)),
    ([''R_LARCH_ADD64''],
      Some (RelocationKind.AbsoluteAddition, ByteSize 8, None, Some no_check, 1, 0)),
    ([''R_LARCH_SUB6''],
      Some (RelocationKind.AbsoluteSubtractionWord6, ByteSize 1, None, Some no_check, 1, 0)),
    ([''R_LARCH_SUB8''],
      Some (RelocationKind.AbsoluteSubtraction, ByteSize 1, None, Some no_check, 1, 0)),
    ([''R_LARCH_SUB16''],
      Some (RelocationKind.AbsoluteSubtraction, ByteSize 2, None, Some no_check, 1, 0)),
    ([''R_LARCH_SUB24''],
      Some (RelocationKind.AbsoluteSubtraction, ByteSize 3, None, Some no_check, 1, 0)),
    ([''R_LARCH_SUB32''],
      Some (RelocationKind.AbsoluteSubtraction, ByteSize 4, None, Some no_check, 1, 0)),
    ([''R_LARCH_SUB64''],
      Some (RelocationKind.AbsoluteSubtraction, ByteSize 8, None, Some no_check, 1, 0)),
    ([''R_LARCH_ADD_ULEB128''],
      Some (RelocationKind.Relative, ByteSize 0, None, Some no_check, 1, 0)),
    ([''R_LARCH_SUB_ULEB128''],
      Some (RelocationKind.PairSubtractionULEB128 (elf ''R_LARCH_ADD_ULEB128''), ByteSize 8, None, Some no_check, 1, 0)),
    ([''R_LARCH_ABS_HI20''],
      Some (RelocationKind.Absolute, bit_mask_loongarch64 12 32 Shift5, None, Some no_check, 1, 0))]"

definition loongarch64_arms_2 :: "(string \<Rightarrow> u32) \<Rightarrow> (reloc_tuple_bias option) arms" where
  "loongarch64_arms_2 elf = [
    ([''R_LARCH_ABS_LO12''],
      Some (RelocationKind.Absolute, bit_mask_loongarch64 0 12 Shift10, None, Some no_check, 1, 0)),
    ([''R_LARCH_ABS64_HI12''],
      Some (RelocationKind.Absolute, bit_mask_loongarch64 52 64 Shift10, None, Some no_check, 1, 0)),
    ([''R_LARCH_ABS64_LO20''],
      Some (RelocationKind.Absolute, bit_mask_loongarch64 32 52 Shift5, None, Some no_check, 1, 0)),
    ([''R_LARCH_PCALA_HI20''],
      Some (RelocationKind.Relative, bit_mask_loongarch64 12 32 Shift5, Some (SymbolPlusAddendAndPosition PAGE_MASK_4KB), Some no_check, 1, SIZE_2KB)),
    ([''R_LARCH_PCALA_LO12''],
      Some (RelocationKind.AbsoluteLowPart, bit_mask_loongarch64 0 12 Shift10, None, Some no_check, 1, 0)),
    ([''R_LARCH_PCALA64_HI12''],
      Some (RelocationKind.RelativeLoongArchHigh, bit_mask_loongarch64 52 64 Shift10, None, Some no_check, 1, 0)),
    ([''R_LARCH_PCALA64_LO20''],
      Some (RelocationKind.RelativeLoongArchHigh, bit_mask_loongarch64 32 52 Shift5, None, Some no_check, 1, 0)),
    ([''R_LARCH_32_PCREL''],
      Some (RelocationKind.Relative, ByteSize 4, None, from_bit_size 32 Signed, 1, 0)),
    ([''R_LARCH_PCREL20_S2''],
      Some (RelocationKind.Relative, bit_mask_loongarch64 2 22 Shift5, None, from_bit_size 22 Signed, 4, 0)),
    ([''R_LARCH_64_PCREL''],
      Some (RelocationKind.Relative, ByteSize 8, None, Some no_check, 1, 0)),
    ([''R_LARCH_PCADD_HI20''],
      Some (RelocationKind.Relative, bit_mask_loongarch64 12 32 Shift5, None, Some no_check, 1, SIZE_2KB)),
    ([''R_LARCH_GOT_PC_HI20''],
      Some (RelocationKind.GotRelative, bit_mask_loongarch64 12 32 Shift5, Some (GotEntryAndPosition PAGE_MASK_4KB), Some no_check, 1, SIZE_2KB)),
    ([''R_LARCH_GOT_PC_LO12''],
      Some (RelocationKind.Got, bit_mask_loongarch64 0 12 Shift10, None, Some no_check, 1, 0)),
    ([''R_LARCH_GOT64_PC_HI12''],
      Some (RelocationKind.GotRelativeLoongArch64, bit_mask_loongarch64 52 64 Shift10, None, Some no_check, 1, 0)),
    ([''R_LARCH_GOT64_PC_LO20''],
      Some (RelocationKind.GotRelativeLoongArch64, bit_mask_loongarch64 32 52 Shift5, None, Some no_check, 1, 0)),
    ([''R_LARCH_B16''],
      Some (RelocationKind.Relative, bit_mask_loongarch64 2 18 Shift10, None, from_bit_size 18 Signed, 4, 0)),
    ([''R_LARCH_B21''],
      Some (RelocationKind.Relative, bit_mask_loongarch64 2 23 Branch21, None, from_bit_size 23 Signed, 4, 0))]"

definition loongarch64_arms_3 :: "(string \<Rightarrow> u32) \<Rightarrow> (reloc_tuple_bias option) arms" where
  "loongarch64_arms_3 elf = [
    ([''R_LARCH_B26''],
      Some (RelocationKind.PltRelative, bit_mask_loongarch64 2 28 Branch26, None, from_bit_size 28 Signed, 4, 0)),
    ([''R_LARCH_CALL36''],
      Some (RelocationKind.Relative, bit_mask_loongarch64 2 38 Call36, None, from_bit_size 38 Signed, 4, 0)),
    ([''R_LARCH_CALL30''],
      Some (RelocationKind.Relative, bit_mask_loongarch64 2 19 Call30, None, Some no_check, 1, 0)),
    ([''R_LARCH_TLS_LE_HI20''],
      Some (RelocationKind.TpOff, bit_mask_loongarch64 12 32 Shift5, None, Some no_check, 1, 0)),
    ([''R_LARCH_TLS_LE_LO12''],
      Some (RelocationKind.TpOff, bit_mask_loongarch64 0 12 Shift10, None, Some no_check, 1, 0)),
    ([''R_LARCH_TLS_LE64_LO20''],
      Some (RelocationKind.TpOff, bit_mask_loongarch64 32 52 Shift5, None, Some no_check, 1, 0)),
    ([''R_LARCH_TLS_LE64_HI12''],
      Some (RelocationKind.TpOff, bit_mask_loongarch64 52 64 Shift10, None, Some no_check, 1, 0)),
    ([''R_LARCH_TLS_LE_HI20_R''],
      Some (RelocationKind.TpOff, bit_mask_loongarch64 12 32 Shift5, None, Some no_check, 1, SIZE_2KB)),
    ([''R_LARCH_TLS_LE_LO12_R''],
      Some (RelocationKind.TpOff, bit_mask_loongarch64 0 12 Shift10, None, Some no_check, 1, 0)),
    ([''R_LARCH_TLS_IE_PC_HI20''],
      Some (RelocationKind.GotTpOff, bit_mask_loongarch64 12 32 Shift5, Some (GotEntryAndPosition PAGE_MASK_4KB), Some no_check, 1, SIZE_2KB)),
    ([''R_LARCH_TLS_IE_PC_LO12''],
      Some (RelocationKind.GotTpOffGot, bit_mask_loongarch64 0 12 Shift10, None, Some no_check, 1, 0)),
    ([''R_LARCH_TLS_IE64_PC_LO20''],
      Some (RelocationKind.GotTpOffLoongArch64, bit_mask_loongarch64 32 52 Shift5, None, Some no_check, 1, 0)),
    ([''R_LARCH_TLS_IE64_PC_HI12''],
      Some (RelocationKind.GotTpOffLoongArch64, bit_mask_loongarch64 52 64 Shift10, None, Some no_check, 1, 0)),
    ([''R_LARCH_TLS_IE_HI20''],
      Some (RelocationKind.GotTpOffGot, bit_mask_loongarch64 12 32 Shift5, None, Some no_check, 1, 0)),
    ([''R_LARCH_TLS_IE_LO12''],
      Some (RelocationKind.GotTpOffGot, bit_mask_loongarch64 0 12 Shift10, None, Some no_check, 1, 0)),
    ([''R_LARCH_TLS_IE64_HI12''],
      Some (RelocationKind.GotTpOffGot, bit_mask_loongarch64 52 64 Shift10, None, Some no_check, 1, 0)),
    ([''R_LARCH_TLS_IE64_LO20''],
      Some (RelocationKind.GotTpOffGot, bit_mask_loongarch64 32 52 Shift5, None, Some no_check, 1, 0))]"

definition loongarch64_arms_4 :: "(string \<Rightarrow> u32) \<Rightarrow> (reloc_tuple_bias option) arms" where
  "loongarch64_arms_4 elf = [
    ([''R_LARCH_TLS_LD_PC_HI20''],
      Some (RelocationKind.TlsGd, bit_mask_loongarch64 12 32 Shift5, Some (GotEntryAndPosition PAGE_MASK_4KB), Some no_check, 1, SIZE_2KB)),
    ([''R_LARCH_TLS_LD_HI20''],
      Some (RelocationKind.TlsGdGot, bit_mask_loongarch64 12 32 Shift5, None, Some no_check, 1, 0)),
    ([''R_LARCH_TLS_GD_PC_HI20''],
      Some (RelocationKind.TlsGd, bit_mask_loongarch64 12 32 Shift5, Some (GotEntryAndPosition PAGE_MASK_4KB), Some no_check, 1, SIZE_2KB)),
    ([''R_LARCH_TLS_GD_HI20''],
      Some (RelocationKind.TlsGdGot, bit_mask_loongarch64 12 32 Shift5, None, Some no_check, 1, 0)),
    ([''R_LARCH_TLS_DESC_PC_HI20''],
      Some (RelocationKind.TlsDesc, bit_mask_loongarch64 12 32 Shift5, Some (GotEntryAndPosition PAGE_MASK_4KB), Some no_check, 1, SIZE_2KB)),
    ([''R_LARCH_TLS_DESC_PC_LO12''],
      Some (RelocationKind.TlsDescGot, bit_mask_loongarch64 0 12 Shift10, None, Some no_check, 1, 0)),
    ([''R_LARCH_TLS_DESC64_PC_HI12''],
      Some (RelocationKind.TlsDescLoongArch64, bit_mask_loongarch64 52 64 Shift10, None, Some no_check, 1, 0)),
    ([''R_LARCH_TLS_DESC64_PC_LO20''],
      Some (RelocationKind.TlsDescLoongArch64, bit_mask_loongarch64 32 52 Shift5, None, Some no_check, 1, 0)),
    ([''R_LARCH_TLS_DESC_LD''],
      Some (RelocationKind.None_kind, ByteSize 0, None, Some no_check, 1, 0)),
    ([''R_LARCH_TLS_DESC_CALL''],
      Some (RelocationKind.TlsDescCall, ByteSize 0, None, Some no_check, 1, 0)),
    ([''R_LARCH_TLS_DTPREL32''],
      Some (RelocationKind.DtpOff, ByteSize 4, None, Some no_check, 1, 0)),
    ([''R_LARCH_TLS_DTPREL64''],
      Some (RelocationKind.DtpOff, ByteSize 8, None, Some no_check, 1, 0)),
    ([''R_LARCH_TLS_LD_PCREL20_S2'', ''R_LARCH_TLS_GD_PCREL20_S2'', ''R_LARCH_TLS_DESC_PCREL20_S2''],
      None),
    ([''R_LARCH_RELAX'', ''R_LARCH_TLS_LE_ADD_R''],
      Some (RelocationKind.None_kind, ByteSize 0, None, Some no_check, 1, 0)),
    ([''R_LARCH_ALIGN''],
      Some (RelocationKind.None_kind, ByteSize 0, None, Some no_check, 1, 0))]"

definition loongarch64_arms :: "(string \<Rightarrow> u32) \<Rightarrow> (reloc_tuple_bias option) arms" where
  "loongarch64_arms elf = loongarch64_arms_1 elf @ loongarch64_arms_2 elf @ loongarch64_arms_3 elf @
     loongarch64_arms_4 elf"

definition loongarch64_relocation_type_from_raw ::
    "(string \<Rightarrow> u32) \<Rightarrow> u32 \<Rightarrow> RelocationKindInfo option" where
  "loongarch64_relocation_type_from_raw elf r_type =
     do {
       arm \<leftarrow> match_arms elf (loongarch64_arms elf) r_type;
       (kind, sz, msk, rng, alignment, bias) \<leftarrow> arm;
       r \<leftarrow> rng;
       Some \<lparr>rel_kind = kind, rel_size = sz, rel_mask = msk, rel_range = r,
             rel_alignment = alignment, rel_bias = bias\<rparr>
     }"

section \<open>Dynamic relocations\<close>

definition loongarch64_dynamic_arms :: "DynamicRelocationKind arms" where
  "loongarch64_dynamic_arms =
       [([''R_LARCH_COPY''], DynamicRelocationKind.Copy),
        ([''R_LARCH_IRELATIVE''], DynamicRelocationKind.Irelative),
        ([''R_LARCH_TLS_DTPMOD64''], DynamicRelocationKind.DtpMod),
        ([''R_LARCH_TLS_DTPREL64''], DynamicRelocationKind.DtpOff),
        ([''R_LARCH_TLS_TPREL64''], DynamicRelocationKind.TpOff),
        ([''R_LARCH_RELATIVE''], DynamicRelocationKind.Relative),
        ([''R_LARCH_64''], DynamicRelocationKind.Absolute),
        ([''R_LARCH_TLS_DESC64''], DynamicRelocationKind.TlsDesc),
        ([''R_LARCH_JUMP_SLOT''], DynamicRelocationKind.JumpSlot)]"

definition from_loongarch64_r_type :: "(string \<Rightarrow> u32) \<Rightarrow> u32 \<Rightarrow> DynamicRelocationKind option" where
  "from_loongarch64_r_type elf r_type = match_arms elf loongarch64_dynamic_arms r_type"

definition loongarch64_r_name :: "DynamicRelocationKind \<Rightarrow> string" where
  "loongarch64_r_name k =
     (case k of
        DynamicRelocationKind.Copy \<Rightarrow> ''R_LARCH_COPY''
      | DynamicRelocationKind.Irelative \<Rightarrow> ''R_LARCH_IRELATIVE''
      | DynamicRelocationKind.DtpMod \<Rightarrow> ''R_LARCH_TLS_DTPMOD64''
      | DynamicRelocationKind.DtpOff \<Rightarrow> ''R_LARCH_TLS_DTPREL64''
      | DynamicRelocationKind.TpOff \<Rightarrow> ''R_LARCH_TLS_TPREL64''
      | DynamicRelocationKind.Relative \<Rightarrow> ''R_LARCH_RELATIVE''
      | DynamicRelocationKind.Absolute \<Rightarrow> ''R_LARCH_64''
      | DynamicRelocationKind.GotEntry \<Rightarrow> ''R_LARCH_64''
      | DynamicRelocationKind.TlsDesc \<Rightarrow> ''R_LARCH_TLS_DESC64''
      | DynamicRelocationKind.JumpSlot \<Rightarrow> ''R_LARCH_JUMP_SLOT'')"

definition loongarch64_r_type :: "(string \<Rightarrow> u32) \<Rightarrow> DynamicRelocationKind \<Rightarrow> u32" where
  "loongarch64_r_type elf k = elf (loongarch64_r_name k)"

section \<open>Instruction immediates\<close>

definition CALL30_CLEAR :: u64 where
  "CALL30_CLEAR = push_bit 32 0xFFF803FF OR 0xFE00001F"

definition CALL36_CLEAR :: u64 where
  "CALL36_CLEAR = push_bit 32 0xFC0003FF OR 0xFE00001F"

definition loongarch64_write_to_value ::
    "LoongArch64Instruction \<Rightarrow> u64 \<Rightarrow> bool \<Rightarrow> bytes \<Rightarrow> bytes option" where
  "loongarch64_write_to_value insn v negative dest =
     (case insn of
        Shift5 \<Rightarrow> do {
          d \<leftarrow> and_from_slice dest (le_bytes 4 (0xFE00001F :: u32));
          or_from_slice d (le_bytes 4 (ucast (push_bit 5 v) :: u32)) }
      | Shift10 \<Rightarrow> do {
          d \<leftarrow> and_from_slice dest (le_bytes 4 (0xFFC003FF :: u32));
          or_from_slice d (le_bytes 4 (ucast (push_bit 10 v) :: u32)) }
      | Branch26 \<Rightarrow> do {
          d \<leftarrow> and_from_slice dest (le_bytes 4 (0xFC000000 :: u32));
          let low_part = push_bit 10 (v AND 0xffff);
          let high_part = drop_bit 16 v;
          or_from_slice d (le_bytes 4 (ucast (low_part OR high_part) :: u32)) }
      | Branch21 \<Rightarrow> do {
          d \<leftarrow> and_from_slice dest (le_bytes 4 (0xFC0003E0 :: u32));
          let low_part = push_bit 10 (v AND 0xffff);
          let high_part = drop_bit 16 v;
          or_from_slice d (le_bytes 4 (ucast (low_part OR high_part) :: u32)) }
      | Call30 \<Rightarrow> do {
          d \<leftarrow> and_from_slice dest (le_bytes 8 CALL30_CLEAR);
          let low_part = push_bit (32 + 10) (v AND 0x1ff);
          let high_part = push_bit 5 (v AND NOT 0x1ff);
          or_from_slice d (le_bytes 8 (low_part OR high_part)) }
      | Call36 \<Rightarrow> do {
          d \<leftarrow> and_from_slice dest (le_bytes 8 CALL36_CLEAR);
          let low_part = push_bit (32 + 10) (v AND 0xffff);
          let high_part = push_bit 5 (drop_bit 16 (v + 0x8000));
          or_from_slice d (le_bytes 8 (low_part OR high_part)) })"

text \<open>\<open>((imm as i32) << n) >> n\<close>, widened to \<open>u64\<close>, with its sign, is \<^const>\<open>sext32\<close>.\<close>

definition loongarch64_read_value :: "LoongArch64Instruction \<Rightarrow> bytes \<Rightarrow> (u64 \<times> bool) option" where
  "loongarch64_read_value insn bs =
     (case insn of
        Shift5 \<Rightarrow> do {
          value \<leftarrow> u32_from_slice bs;
          let imm = drop_bit 5 value AND 0xfffff;
          Some (ucast imm, False) }
      | Shift10 \<Rightarrow> do {
          value \<leftarrow> u32_from_slice bs;
          let imm = drop_bit 10 value AND 0xfff;
          Some (ucast imm, False) }
      | Branch26 \<Rightarrow> do {
          value \<leftarrow> u32_from_slice bs;
          let low_part = drop_bit 10 value AND 0xffff;
          let high_part = value AND 0x3ff;
          Some (sext32 6 (push_bit 16 high_part OR low_part)) }
      | Branch21 \<Rightarrow> do {
          value \<leftarrow> u32_from_slice bs;
          let low_part = drop_bit 10 value AND 0xffff;
          let high_part = value AND 0x1f;
          Some (sext32 11 (push_bit 16 high_part OR low_part)) }
      | Call30 \<Rightarrow> do {
          value \<leftarrow> u64_from_slice bs;
          let insn1 = (ucast (drop_bit 32 value) :: u32);
          let insn2 = (ucast value :: u32);
          let high_part = push_bit 9 (drop_bit 5 insn1 AND 0x7ffff);
          let low_part = drop_bit 10 insn2 AND 0x1ff;
          Some (ucast (high_part OR low_part), False) }
      | Call36 \<Rightarrow> do {
          value \<leftarrow> u64_from_slice bs;
          let insn1 = (ucast value :: u32);
          let insn2 = (ucast (drop_bit 32 value) :: u32);
          let high_part = (ucast (drop_bit 5 insn1 AND 0xfffff) :: u64);
          let low_part = (ucast (drop_bit 10 insn2 AND 0xffff) :: u64);
          let imm = ((push_bit 16 high_part - 0x8000) AND 0xffffffff) OR low_part;
          Some (imm, False) })"

definition highest_relocation_with_bias :: "u64 \<Rightarrow> u64 \<Rightarrow> u64" where
  "highest_relocation_with_bias symbol_with_addend pc =
     ((symbol_with_addend + SIZE_2GB +
        (if symbol_with_addend AND SIZE_2KB \<noteq> 0 then SIZE_4KB - SIZE_4GB else 0))
       AND NOT PAGE_MASK_4KB) - ((pc - 8) AND NOT PAGE_MASK_4KB)"

section \<open>Encoding as a patch of the instruction word\<close>

fun loongarch64_window :: "LoongArch64Instruction \<Rightarrow> nat" where
  "loongarch64_window Call30 = 8"
| "loongarch64_window Call36 = 8"
| "loongarch64_window _ = 4"

fun loongarch64_width :: "LoongArch64Instruction \<Rightarrow> nat" where
  "loongarch64_width Shift5 = 20"
| "loongarch64_width Shift10 = 16"
| "loongarch64_width Branch21 = 21"
| "loongarch64_width Branch26 = 26"
| "loongarch64_width Call30 = 20"
| "loongarch64_width Call36 = 36"

text \<open>
  The bits a write may change. \<open>Shift10\<close> serves the 12-bit and the 16-bit immediates that start
  at bit 10. The rounding of \<open>Call36\<close> can carry into bit 25 of the first instruction.
\<close>

fun loongarch64_field :: "LoongArch64Instruction \<Rightarrow> u64" where
  "loongarch64_field Shift5 = push_bit 5 (mask 20)"
| "loongarch64_field Shift10 = push_bit 10 (mask 16)"
| "loongarch64_field Branch21 = push_bit 10 (mask 16) OR mask 5"
| "loongarch64_field Branch26 = mask 26"
| "loongarch64_field Call30 = push_bit 5 (mask 20) OR push_bit 42 (mask 9)"
| "loongarch64_field Call36 = push_bit 5 (mask 21) OR push_bit 42 (mask 16)"

fun loongarch64_cleared :: "LoongArch64Instruction \<Rightarrow> u64" where
  "loongarch64_cleared Shift10 = push_bit 10 (mask 12)"
| "loongarch64_cleared Call36 = push_bit 5 (mask 20) OR push_bit 42 (mask 16)"
| "loongarch64_cleared i = loongarch64_field i"

fun loongarch64_bits :: "LoongArch64Instruction \<Rightarrow> u64 \<Rightarrow> u64" where
  "loongarch64_bits Shift5 v = push_bit 5 v"
| "loongarch64_bits Shift10 v = push_bit 10 v"
| "loongarch64_bits Branch21 v = push_bit 10 (take_bit 16 v) OR drop_bit 16 v"
| "loongarch64_bits Branch26 v = push_bit 10 (take_bit 16 v) OR drop_bit 16 v"
| "loongarch64_bits Call30 v = push_bit 42 (take_bit 9 v) OR push_bit 5 (v AND NOT (mask 9))"
| "loongarch64_bits Call36 v = push_bit 42 (take_bit 16 v) OR push_bit 5 (drop_bit 16 (v + 0x8000))"

lemma AND_low_mask_wide:
  "w AND 0xffff = take_bit 16 w" "w AND 0x1ff = take_bit 9 w" for w :: "'a::len word"
  by (simp_all add: take_bit_eq_mask mask_numeral)

definition loongarch64_word32 :: "LoongArch64Instruction \<Rightarrow> u32 \<Rightarrow> u64 \<Rightarrow> u32" where
  "loongarch64_word32 i w v = (w AND NOT (ucast (loongarch64_cleared i))) OR ucast (loongarch64_bits i v)"

definition loongarch64_word64 :: "LoongArch64Instruction \<Rightarrow> u64 \<Rightarrow> u64 \<Rightarrow> u64" where
  "loongarch64_word64 i w v = (w AND NOT (loongarch64_cleared i)) OR loongarch64_bits i v"

lemma loongarch64_clear_masks:
  "NOT (ucast (loongarch64_cleared Shift5)) = (0xFE00001F :: u32)"
  "NOT (ucast (loongarch64_cleared Shift10)) = (0xFFC003FF :: u32)"
  "NOT (ucast (loongarch64_cleared Branch26)) = (0xFC000000 :: u32)"
  "NOT (ucast (loongarch64_cleared Branch21)) = (0xFC0003E0 :: u32)"
  "NOT (loongarch64_cleared Call30) = CALL30_CLEAR"
  "NOT (loongarch64_cleared Call36) = CALL36_CLEAR"
  "NOT (mask 9) = NOT (0x1ff :: u64)"
  by (simp_all add: CALL30_CLEAR_def CALL36_CLEAR_def mask_numeral)

lemmas loongarch64_write_unfold = loongarch64_clear_masks loongarch64_bits.simps
  loongarch64_write_to_value_def and_then_or_def AND_low_mask_wide

lemma loongarch64_write_as_and_or4:
  assumes "loongarch64_window i = 4"
  shows "loongarch64_write_to_value i v negative dest =
    and_then_or dest (le_bytes 4 (NOT (ucast (loongarch64_cleared i)) :: u32))
      (le_bytes 4 (ucast (loongarch64_bits i v) :: u32))"
proof (cases i)
  case Shift5
  show ?thesis unfolding Shift5 loongarch64_write_unfold by simp
next
  case Shift10
  show ?thesis unfolding Shift10 loongarch64_write_unfold by simp
next
  case Branch21
  show ?thesis unfolding Branch21 loongarch64_write_unfold by simp
next
  case Branch26
  show ?thesis unfolding Branch26 loongarch64_write_unfold by simp
qed (use assms in simp_all)

lemma loongarch64_write_as_and_or8:
  assumes "loongarch64_window i = 8"
  shows "loongarch64_write_to_value i v negative dest =
    and_then_or dest (le_bytes 8 (NOT (loongarch64_cleared i))) (le_bytes 8 (loongarch64_bits i v))"
proof (cases i)
  case Call30
  show ?thesis unfolding Call30 loongarch64_write_unfold by simp
next
  case Call36
  show ?thesis unfolding Call36 loongarch64_write_unfold by simp
qed (use assms in simp_all)

lemmas loongarch64_write_as_and_or = loongarch64_write_as_and_or4 loongarch64_write_as_and_or8

lemma loongarch64_write_word:
  "loongarch64_window i = 4 \<Longrightarrow> 4 \<le> length dest \<Longrightarrow> loongarch64_write_to_value i v negative dest =
    Some (le_bytes 4 (loongarch64_word32 i (from_le_bytes (take 4 dest)) v) @ drop 4 dest)"
  "loongarch64_window i = 8 \<Longrightarrow> 8 \<le> length dest \<Longrightarrow> loongarch64_write_to_value i v negative dest =
    Some (le_bytes 8 (loongarch64_word64 i (from_le_bytes (take 8 dest)) v) @ drop 8 dest)"
  by (simp_all add: loongarch64_write_as_and_or byte_simps loongarch64_word32_def loongarch64_word64_def)

lemma loongarch64_windows: "loongarch64_window i = 4 \<or> loongarch64_window i = 8"
  by (cases i) simp_all

lemma loongarch64_write_None_iff:
  "loongarch64_write_to_value i v negative dest = None \<longleftrightarrow> length dest < loongarch64_window i"
  using loongarch64_windows [of i] loongarch64_write_word [of i dest v negative]
    loongarch64_write_as_and_or [of i v negative dest]
  by (cases "length dest < loongarch64_window i") (auto simp: and_then_or_short)

lemma call36_carry:
  assumes "take_bit 36 v = (v :: u64)"
  shows "take_bit 21 (drop_bit 16 (v + 0x8000)) = drop_bit 16 (v + 0x8000)"
proof -
  have "v < 2 ^ 36" using assms take_bit_eq_self_less [of 36 v] by simp
  then have "unat v < 2 ^ 36" by (simp add: word_less_nat_alt)
  then have "unat (v + 0x8000) < 2 ^ 37"
    by (subst unat_add_no_overflow) simp_all
  then have "v + 0x8000 < 2 ^ 37" by (simp add: word_less_nat_alt)
  then have "take_bit 37 (v + 0x8000) = v + 0x8000"
    using take_bit_eq_self_less [of 37 "v + 0x8000"] by simp
  then have "drop_bit 16 (v + 0x8000) = drop_bit 16 (take_bit 37 (v + 0x8000))" by simp
  then show ?thesis by (simp add: drop_bit_take_bit)
qed

lemma loongarch64_bits_in_field:
  assumes "take_bit (loongarch64_width i) v = v"
  shows "loongarch64_bits i v AND NOT (loongarch64_field i) = 0"
proof -
  have fits: "bit v n \<Longrightarrow> n < loongarch64_width i" for n
    using assms by (metis bit_take_bit_iff)
  show ?thesis
  proof (cases "i = Call36")
    case True
    then have "bit (drop_bit 16 (v + 0x8000)) n \<Longrightarrow> n < 21" for n
      using call36_carry [of v] assms by (metis bit_take_bit_iff loongarch64_width.simps(6))
    then show ?thesis
      using True by (auto intro!: bit_word_eqI simp: bit_push_bit_iff bit_or_iff bit_and_iff bit_not_iff bit_mask_iff bit_take_bit_iff)
  next
    case False
    then show ?thesis
      by (cases i; intro bit_word_eqI) (auto simp: bit_simps dest!: fits)
  qed
qed

interpretation loongarch64: insn_writer loongarch64_write_to_value loongarch64_window loongarch64_width
  loongarch64_field
proof
  show "loongarch64_window i \<le> 8" for i
    using loongarch64_windows [of i] by auto
  show "loongarch64_write_to_value i v neg dest = None \<longleftrightarrow> length dest < loongarch64_window i" for i v neg dest
    by (rule loongarch64_write_None_iff)
  show "preserves_outside (loongarch64_window i) (loongarch64_field i) dest d"
    if written: "loongarch64_write_to_value i v neg dest = Some d" and fits: "take_bit (loongarch64_width i) v = v"
    for i v neg dest d
  proof -
    have len: "loongarch64_window i \<le> length dest"
      using written loongarch64_write_None_iff [of i v neg dest] by (simp add: not_less)
    have clr: "NOT (loongarch64_cleared i) AND NOT (loongarch64_field i) = NOT (loongarch64_field i)"
      by (cases i; intro bit_word_eqI) (auto simp: bit_simps)
    note bits = loongarch64_bits_in_field [OF fits]
    have w64: "(w AND NOT (loongarch64_cleared i) OR loongarch64_bits i v) AND NOT (loongarch64_field i) =
        w AND NOT (loongarch64_field i)" for w
      using clr bits by (simp add: bit.conj_disj_distrib2 and.assoc)
    show ?thesis
    proof (cases "loongarch64_window i = 8")
      case True
      then show ?thesis
        using written len loongarch64_write_word(2) [of i dest v neg] w64
          preserves_outside_word [of 8 dest "from_le_bytes (take 8 dest) :: u64"
            "loongarch64_word64 i (from_le_bytes (take 8 dest)) v" "loongarch64_field i"]
        by (simp add: loongarch64_word64_def)
    next
      case False
      then have w4: "loongarch64_window i = 4" using loongarch64_windows [of i] by simp
      have f: "loongarch64_field i = ucast (ucast (loongarch64_field i) :: u32)"
        using w4 by (cases i) (simp_all add: mask_numeral)
      have "loongarch64_word32 i w v AND NOT (ucast (loongarch64_field i)) = w AND NOT (ucast (loongarch64_field i))" for w
      proof (rule bit_word_eqI)
        fix k assume k: "k < LENGTH(32)"
        show "bit (loongarch64_word32 i w v AND NOT (ucast (loongarch64_field i))) k =
            bit (w AND NOT (ucast (loongarch64_field i))) k"
          using k arg_cong [OF w64 [of "ucast w"], of "\<lambda>x. bit x k"]
          by (auto simp: loongarch64_word32_def bit_simps)
      qed
      then show ?thesis
        using written len w4 loongarch64_write_word(1) [of i dest v neg]
          preserves_outside_word [of 4 dest "from_le_bytes (take 4 dest) :: u32"
            "loongarch64_word32 i (from_le_bytes (take 4 dest)) v" "ucast (loongarch64_field i)"]
        by (simp add: f [symmetric])
    qed
  qed
qed

section \<open>The relocation table\<close>

lemmas loongarch64_arms_defs = loongarch64_arms_def loongarch64_arms_1_def loongarch64_arms_2_def
  loongarch64_arms_3_def loongarch64_arms_4_def

definition loongarch64_size_fits :: "RelocationSize \<Rightarrow> bool" where
  "loongarch64_size_fits sz =
     size_fits (\<lambda>i. case i of LoongArch64 l \<Rightarrow> loongarch64_width l | _ \<Rightarrow> 0) sz"

text \<open>The formats whose whole immediate is a PC-relative byte distance in units of four.\<close>

definition loongarch64_jump :: "LoongArch64Instruction \<Rightarrow> bool" where
  "loongarch64_jump i \<longleftrightarrow> i \<in> {Branch21, Branch26, Call36}"

definition loongarch64_arm_ok :: "reloc_tuple_bias \<Rightarrow> bool" where
  "loongarch64_arm_ok = (\<lambda>(kind, sz, msk, rng, alignment, bias).
     loongarch64_size_fits sz \<and>
     (case sz of
        ByteSize _ \<Rightarrow> True
      | BitMasking bm \<Rightarrow>
          (case instruction bm of
             LoongArch64 i \<Rightarrow>
               loongarch64_jump i \<longrightarrow>
               start (bit_range bm) = 2 \<and> end_bit (bit_range bm) = 2 + loongarch64_width i \<and>
               rng = from_bit_size (2 + loongarch64_width i) Signed \<and> alignment = 4
           | _ \<Rightarrow> False)))"

lemma loongarch64_arms_ok:
  "list_all (\<lambda>(names, arm). case arm of None \<Rightarrow> True | Some t \<Rightarrow> loongarch64_arm_ok t) (loongarch64_arms elf)"
  by (simp add: loongarch64_arms_defs loongarch64_arm_ok_def loongarch64_size_fits_def size_fits_def
      bit_mask_loongarch64_def BitMask_new_def loongarch64_jump_def)

lemma loongarch64_arm_names_distinct: "distinct (arm_names (loongarch64_arms elf))"
  by (simp add: arm_names_def loongarch64_arms_defs)

lemma loongarch64_arm_found:
  assumes "inj_on elf (set (arm_names (loongarch64_arms elf)))"
    "(names, Some (kind, sz, msk, Some rng, al, bias)) \<in> set (loongarch64_arms elf)" "n \<in> set names"
  shows "loongarch64_relocation_type_from_raw elf (elf n) =
    Some \<lparr>rel_kind = kind, rel_size = sz, rel_mask = msk, rel_range = rng, rel_alignment = al, rel_bias = bias\<rparr>"
  using match_arms_unique [OF loongarch64_arm_names_distinct assms] by (simp add: loongarch64_relocation_type_from_raw_def)

lemma loongarch64_numbered: "inj_on (numbered (arm_names (loongarch64_arms f))) (set (arm_names (loongarch64_arms g)))"
proof -
  have "arm_names (loongarch64_arms f) = arm_names (loongarch64_arms g)" by (simp add: arm_names_def loongarch64_arms_defs)
  moreover have "length (arm_names (loongarch64_arms g)) < 2 ^ 32" by (simp add: arm_names_def loongarch64_arms_defs)
  ultimately show ?thesis by (simp only: inj_on_numbered)
qed

lemma loongarch64_relocation_type_from_raw_ok:
  assumes "loongarch64_relocation_type_from_raw elf r = Some info"
  shows "loongarch64_arm_ok (rel_kind info, rel_size info, rel_mask info, Some (rel_range info),
    rel_alignment info, rel_bias info)"
proof -
  obtain kind sz msk rng al b where
    arm: "match_arms elf (loongarch64_arms elf) r = Some (Some (kind, sz, msk, Some rng, al, b))"
    and info: "info = \<lparr>rel_kind = kind, rel_size = sz, rel_mask = msk, rel_range = rng,
      rel_alignment = al, rel_bias = b\<rparr>"
    using assms by (auto simp: loongarch64_relocation_type_from_raw_def bind_eq_Some_conv)
  show ?thesis
    using match_arms_list_all [OF arm loongarch64_arms_ok] info by auto
qed

lemma loongarch64_jump_checked:
  assumes "loongarch64_relocation_type_from_raw elf r = Some info"
    and "rel_size info = BitMasking \<lparr>instruction = LoongArch64 i, bit_range = \<lparr>start = lo, end_bit = hi\<rparr>\<rparr>"
    and "loongarch64_jump i" and "verify info v = Inr ()"
  shows "lo = 2" and "hi = 2 + loongarch64_width i"
    and "push_bit 2 (signed_take_bit (loongarch64_width i - 1) (drop_bit 2 v)) = v"
    and "extract_bit_range v lo hi = take_bit (loongarch64_width i) (drop_bit 2 v)"
proof -
  let ?w = "loongarch64_width i"
  have arm: "lo = 2" "hi = 2 + ?w" "from_bit_size (2 + ?w) Signed = Some (rel_range info)"
      "rel_alignment info = 4"
    using loongarch64_relocation_type_from_raw_ok [OF assms(1)] assms(2,3)
    by (simp_all add: loongarch64_arm_ok_def)
  have w: "0 < ?w" "?w \<le> 36" by (cases i; simp)+
  show "lo = 2" "hi = 2 + ?w" by fact+
  show "extract_bit_range v lo hi = take_bit ?w (drop_bit 2 v)"
    using w by (simp add: arm extract_bit_range_eq)
  have "signed_take_bit (2 + ?w - 1) v = v"
    using arm w assms(4) by (intro contains_signed_fits [of "2 + ?w"]) (auto simp: verify_Inr_iff)
  moreover have "v AND NOT (mask 2) = v"
    using assms(4) arm(4) by (intro aligned_low_bits_clear) (simp add: verify_Inr_iff is_multiple_of_def)
  ultimately show "push_bit 2 (signed_take_bit (?w - 1) (drop_bit 2 v)) = v"
    using push_signed_drop [of 2 "2 + ?w" v] w by simp
qed

section \<open>Properties\<close>

lemma loongarch64_branch_bits:
  "k < 21 \<Longrightarrow> bit (push_bit 16 (take_bit 5 (loongarch64_word32 Branch21 w (take_bit 21 v))) OR
      take_bit 16 (drop_bit 10 (loongarch64_word32 Branch21 w (take_bit 21 v)))) k = bit v k"
  "k < 26 \<Longrightarrow> bit (push_bit 16 (take_bit 10 (loongarch64_word32 Branch26 w (take_bit 26 v))) OR
      take_bit 16 (drop_bit 10 (loongarch64_word32 Branch26 w (take_bit 26 v)))) k = bit v k"
  by (cases "k < 16"; auto simp: loongarch64_word32_def bit_or_iff bit_and_iff bit_not_iff bit_push_bit_iff bit_take_bit_iff
      bit_drop_bit_eq bit_unsigned_iff bit_mask_iff)+

lemma loongarch64_branch_read:
  assumes "i = Branch21 \<or> i = Branch26"
  shows "loongarch64_read_value i (le_bytes 4 (loongarch64_word32 i w (take_bit (loongarch64_width i) v)) @ bs) =
    Some (signed_take_bit (loongarch64_width i - 1) v, bit v (loongarch64_width i - 1))"
  using assms
proof
  assume i: "i = Branch21"
  let ?w = "loongarch64_word32 Branch21 w (take_bit 21 v)"
  have "sext32 11 (push_bit 16 (take_bit 5 ?w) OR take_bit 16 (drop_bit 10 ?w)) = (signed_take_bit 20 v, bit v 20)"
    by (rule sext32_eqI) (unfold list_all_iff, use loongarch64_branch_bits(1) in simp_all)
  then show ?thesis
    by (simp add: i loongarch64_read_value_def byte_simps AND_low_mask AND_low_mask_wide Let_def)
next
  assume i: "i = Branch26"
  let ?w = "loongarch64_word32 Branch26 w (take_bit 26 v)"
  have "sext32 6 (push_bit 16 (take_bit 10 ?w) OR take_bit 16 (drop_bit 10 ?w)) = (signed_take_bit 25 v, bit v 25)"
    by (rule sext32_eqI) (unfold list_all_iff, use loongarch64_branch_bits(2) in simp_all)
  then show ?thesis
    by (simp add: i loongarch64_read_value_def byte_simps AND_low_mask AND_low_mask_wide Let_def)
qed

text \<open>
  Branches reach their target: for the relocation types that patch the 21-bit and 26-bit
  branch formats, a value that passes \<open>verify\<close> is written whatever the instruction held before,
  and the immediate \<open>read_value\<close> decodes, shifted left by two, is the value.
\<close>

theorem loongarch64_branch_roundtrip:
  assumes "loongarch64_relocation_type_from_raw elf r = Some info"
    and "rel_size info = BitMasking \<lparr>instruction = LoongArch64 i, bit_range = \<lparr>start = lo, end_bit = hi\<rparr>\<rparr>"
    and "i = Branch21 \<or> i = Branch26" and "verify info v = Inr ()"
    and "4 \<le> length dest"
  shows "\<exists>d x neg. loongarch64_write_to_value i (extract_bit_range v lo hi) negative dest = Some d \<and>
    loongarch64_read_value i d = Some (x, neg) \<and> push_bit 2 x = v"
proof -
  have jump: "loongarch64_jump i" "loongarch64_window i = 4"
    using assms(3) by (auto simp: loongarch64_jump_def)
  note checked = loongarch64_jump_checked [OF assms(1,2) jump(1) assms(4)]
  show ?thesis
    using checked(3) loongarch64_branch_read [OF assms(3)] assms(5) jump(2)
    by (simp add: checked(4) loongarch64_write_word)
qed

theorem loongarch64_branch_roundtrip_witness:
  "\<exists>d x neg. loongarch64_write_to_value Branch26 (extract_bit_range (- 4096) 2 28) True [0, 0, 0, 0x54] = Some d \<and>
    loongarch64_read_value Branch26 d = Some (x, neg) \<and> push_bit 2 x = - 4096"
proof -
  let ?elf = "\<lambda>n. if n = ''R_LARCH_B26'' then 1 else 0 :: u32"
  obtain info kind where info: "loongarch64_relocation_type_from_raw ?elf 1 = Some info"
    and "info = \<lparr>rel_kind = kind, rel_size = bit_mask_loongarch64 2 28 Branch26,
      rel_mask = None, rel_range = AllowedRange_new (- (2 ^ 27)) (2 ^ 27), rel_alignment = 4, rel_bias = 0\<rparr>"
    by (simp add: loongarch64_relocation_type_from_raw_def match_arms_def loongarch64_arms_defs from_bit_size_def)
  then show ?thesis
    using loongarch64_branch_roundtrip [OF info, of Branch26 2 28 "- 4096" "[0, 0, 0, 0x54]" True]
    by (simp add: bit_mask_loongarch64_def BitMask_new_def verify_def is_multiple_of_def
        range_contains_def AllowedRange_new_def)
qed

text \<open>
  The target of a \<open>pcaddu18i\<close>/\<open>jirl\<close> pair relative to its address, as the processor computes
  it: both immediates are sign-extended.
\<close>

definition call36_target :: "u32 \<Rightarrow> u32 \<Rightarrow> u64" where
  "call36_target insn1 insn2 =
     push_bit 18 (signed_take_bit 19 (drop_bit 5 (ucast insn1))) +
     push_bit 2 (signed_take_bit 15 (drop_bit 10 (ucast insn2)))"

lemma call36_fields:
  fixes w v :: u64
  assumes "take_bit 36 v = v"
  defines "w' \<equiv> loongarch64_word64 Call36 w v"
  shows "take_bit 20 (drop_bit 5 (ucast (ucast w' :: u32) :: u64)) = take_bit 20 (drop_bit 16 (v + 0x8000))"
    and "take_bit 16 (drop_bit 10 (ucast (ucast (drop_bit 32 w') :: u32) :: u64)) = take_bit 16 v"
proof -
  show "take_bit 20 (drop_bit 5 (ucast (ucast w' :: u32) :: u64)) = take_bit 20 (drop_bit 16 (v + 0x8000))"
    by (rule bit_word_eqI) (auto simp: w'_def loongarch64_word64_def bit_simps)
  have carry: "\<not> bit (drop_bit 16 (v + 0x8000)) n" if "21 \<le> n" for n
    using call36_carry [OF assms(1)] that by (metis bit_take_bit_iff not_le)
  show "take_bit 16 (drop_bit 10 (ucast (ucast (drop_bit 32 w') :: u32) :: u64)) = take_bit 16 v"
  proof (rule bit_word_eqI)
    fix k assume "k < LENGTH(64)"
    show "bit (take_bit 16 (drop_bit 10 (ucast (ucast (drop_bit 32 w') :: u32) :: u64))) k = bit (take_bit 16 v) k"
      using carry [of "k + 37"]
      by (auto simp: w'_def loongarch64_word64_def bit_simps add.commute)
  qed
qed

text \<open>The rounded high part and the signed low part of a quarter distance add up to it.\<close>

lemma call36_target_eq:
  fixes s :: u64
  assumes "signed_take_bit 35 s = s" and "signed_take_bit 35 (s + 0x8000) = s + 0x8000"
    and "take_bit 20 (drop_bit 5 (ucast insn1)) = take_bit 20 (drop_bit 16 (s + 0x8000))"
    and "take_bit 16 (drop_bit 10 (ucast insn2)) = take_bit 16 s"
  shows "call36_target insn1 insn2 = push_bit 2 s"
proof -
  have hi: "signed_take_bit 19 (drop_bit 5 (ucast insn1)) = signed_take_bit 19 (drop_bit 16 (s + 0x8000))"
    using assms(3) by (simp add: signed_take_bit_eq_iff_take_bit_eq)
  have lo: "signed_take_bit 15 (drop_bit 10 (ucast insn2)) = signed_take_bit 15 s"
    using assms(4) by (simp add: signed_take_bit_eq_iff_take_bit_eq)
  have "push_bit 16 (signed_take_bit 19 (drop_bit 16 (s + 0x8000))) = (s + 0x8000) AND NOT (mask 16)"
    using push_signed_drop [of 16 36 "s + 0x8000"] assms(2) by simp
  also have "\<dots> = push_bit 16 (drop_bit 16 (s + 0x8000))"
    by (rule bit_word_eqI) (auto simp: bit_simps)
  finally have "push_bit 16 (signed_take_bit 19 (drop_bit 16 (s + 0x8000))) + signed_take_bit 15 s = s"
    using hi_lo_split [of 15 s] by simp
  then have "push_bit 2 (push_bit 16 (signed_take_bit 19 (drop_bit 16 (s + 0x8000))) + signed_take_bit 15 s) = push_bit 2 s"
    by simp
  then show ?thesis
    by (simp add: call36_target_def hi lo push_bit_add)
qed

text \<open>
  (C22) Long calls reach their target: for the relocation type that patches a \<open>pcaddu18i\<close>/\<open>jirl\<close>
  pair, a value that passes \<open>verify\<close> and is below \<open>2\<^sup>3\<^sup>7 - 2\<^sup>1\<^sup>7\<close> is written so that the pair
  jumps by exactly the value, although the low immediate is signed and the high one is rounded.
\<close>

theorem loongarch64_call36_target:
  assumes "loongarch64_relocation_type_from_raw elf r = Some info"
    and "rel_size info = BitMasking \<lparr>instruction = LoongArch64 Call36, bit_range = \<lparr>start = lo, end_bit = hi\<rparr>\<rparr>"
    and "verify info v = Inr ()" and "sint v < 2 ^ 37 - 2 ^ 17" and "8 \<le> length dest"
  shows "\<exists>d insn1 insn2. loongarch64_write_to_value Call36 (extract_bit_range v lo hi) negative dest = Some d \<and>
    u32_from_slice d = Some insn1 \<and> u32_from_slice (drop 4 d) = Some insn2 \<and>
    call36_target insn1 insn2 = v"
proof -
  have jump: "loongarch64_jump Call36" by (simp add: loongarch64_jump_def)
  note checked = loongarch64_jump_checked [OF assms(1,2) jump assms(3)]
  define s where "s = signed_take_bit 35 (drop_bit 2 v)"
  have v: "push_bit 2 s = v" using checked(3) by (simp add: s_def)
  have s35: "signed_take_bit 35 s = s" by (simp add: s_def)
  have s36: "take_bit 36 (drop_bit 2 v) = take_bit 36 s" by (simp add: s_def take_bit_signed_take_bit)
  have range: "- (2 ^ 35) \<le> sint s" "sint s < 2 ^ 35"
    using s35 by (simp_all add: signed_take_bit_fits_iff)
  have "sint v = 4 * sint s"
    using sint_of_int_small [of "4 * sint s"] range v by (simp add: push_bit_eq_mult mult.commute)
  then have "sint (s + 0x8000) = sint s + 0x8000"
    using sint_of_int_small [of "sint s + 0x8000"] range assms(4) by simp
  then have big: "signed_take_bit 35 (s + 0x8000) = s + 0x8000"
    using range \<open>sint v = 4 * sint s\<close> assms(4) by (intro signed_take_bit_fits) simp_all
  let ?u = "take_bit 36 s"
  define w' where "w' = loongarch64_word64 Call36 (from_le_bytes (take 8 dest)) ?u"
  have d: "loongarch64_write_to_value Call36 (extract_bit_range v lo hi) negative dest = Some (le_bytes 8 w' @ drop 8 dest)"
    using assms(5) by (simp add: checked(4) s36 w'_def loongarch64_write_word)
  have "take_bit 36 (?u + 0x8000) = take_bit 36 (s + 0x8000)"
    by (rule take_bit_add_word)
  from arg_cong [OF this, of "drop_bit 16"]
  have "take_bit 20 (drop_bit 16 (?u + 0x8000)) = take_bit 20 (drop_bit 16 (s + 0x8000))"
    by (simp add: drop_bit_take_bit)
  with s35 big have "call36_target (ucast w') (ucast (drop_bit 32 w')) = push_bit 2 s"
    using call36_fields [of ?u "from_le_bytes (take 8 dest)"]
    by (intro call36_target_eq) (simp_all add: w'_def)
  moreover have "u32_from_slice (le_bytes 8 w' @ drop 8 dest) = Some (ucast w')"
    and "u32_from_slice (drop 4 (le_bytes 8 w' @ drop 8 dest)) = Some (ucast (drop_bit 32 w'))"
    by (simp_all add: u32_from_slice_def halves_le_bytes)
  ultimately show ?thesis
    using d v by auto
qed

theorem loongarch64_call36_target_witness:
  "\<exists>d insn1 insn2. loongarch64_write_to_value Call36 (extract_bit_range (- 4) 2 38) True
      [1, 0, 0, 0x1e, 0x21, 0, 0, 0x4c] = Some d \<and>
    u32_from_slice d = Some insn1 \<and> u32_from_slice (drop 4 d) = Some insn2 \<and>
    call36_target insn1 insn2 = - 4"
proof -
  let ?elf = "\<lambda>n. if n = ''R_LARCH_CALL36'' then 1 else 0 :: u32"
  obtain info kind where info: "loongarch64_relocation_type_from_raw ?elf 1 = Some info"
    and "info = \<lparr>rel_kind = kind, rel_size = bit_mask_loongarch64 2 38 Call36,
      rel_mask = None, rel_range = AllowedRange_new (- (2 ^ 37)) (2 ^ 37), rel_alignment = 4, rel_bias = 0\<rparr>"
    by (simp add: loongarch64_relocation_type_from_raw_def match_arms_def loongarch64_arms_defs from_bit_size_def)
  then show ?thesis
    using loongarch64_call36_target [OF info, of 2 38 "- 4" "[1, 0, 0, 0x1e, 0x21, 0, 0, 0x4c]" True]
    by (simp add: bit_mask_loongarch64_def BitMask_new_def verify_def is_multiple_of_def
        range_contains_def AllowedRange_new_def)
qed

text \<open>
  The range check of long calls is too wide: the distance \<open>2\<^sup>3\<^sup>7 - 4\<close> lies in the range
  \<open>verify\<close> accepts for a 38-bit signed value, but the instruction pair that is written jumps
  backwards by \<open>2\<^sup>3\<^sup>7 + 4\<close> instead.
\<close>

theorem loongarch64_call36_range_gap:
  "from_bit_size 38 Signed = Some (AllowedRange_new (- (2 ^ 37)) (2 ^ 37)) \<and>
   range_contains (AllowedRange_new (- (2 ^ 37)) (2 ^ 37)) (sint (2 ^ 37 - 4 :: u64)) \<and>
   (\<exists>d insn1 insn2. loongarch64_write_to_value Call36 (extract_bit_range (2 ^ 37 - 4) 2 38) False
      [1, 0, 0, 0x1e, 0x21, 0, 0, 0x4c] = Some d \<and>
    u32_from_slice d = Some insn1 \<and> u32_from_slice (drop 4 d) = Some insn2 \<and>
    call36_target insn1 insn2 = - (2 ^ 37) - 4)"
proof -
  let ?dest = "[1, 0, 0, 0x1e, 0x21, 0, 0, 0x4c] :: bytes"
  define w where "w = (0x4FFFFC211F000001 :: u64)"
  have wr: "loongarch64_write_to_value Call36 x False ?dest =
      Some (le_bytes 8 (loongarch64_word64 Call36 (from_le_bytes ?dest) x))" for x
    using loongarch64_write_word(2) [of Call36 ?dest x False] by simp
  have "loongarch64_word64 Call36 (from_le_bytes ?dest) (extract_bit_range (2 ^ 37 - 4) 2 38) = w"
    by (simp add: loongarch64_word64_def w_def extract_bit_range_eq mask_numeral)
  then have "loongarch64_write_to_value Call36 (extract_bit_range (2 ^ 37 - 4) 2 38) False ?dest = Some (le_bytes 8 w)"
    by (simp only: wr)
  moreover have "u32_from_slice (le_bytes 8 w) = Some (ucast w)"
    and "u32_from_slice (drop 4 (le_bytes 8 w)) = Some (ucast (drop_bit 32 w))"
    by (simp_all add: u32_from_slice_def halves_le_bytes)
  moreover have "call36_target (ucast w) (ucast (drop_bit 32 w)) = - (2 ^ 37) - 4"
    by (simp add: call36_target_def w_def mask_numeral)
  ultimately show ?thesis
    by (auto simp: from_bit_size_def range_contains_def AllowedRange_new_def)
qed

text \<open>A GOT entry is emitted as an absolute relocation, so it is read back as one.\<close>

lemma loongarch64_dynamic:
  assumes "inj_on elf (set (arm_names loongarch64_dynamic_arms))"
  shows "from_loongarch64_r_type elf (loongarch64_r_type elf k) =
    Some (if k = GotEntry then DynamicRelocationKind.Absolute else k)"
  unfolding from_loongarch64_r_type_def loongarch64_r_type_def
proof (rule match_arms_unique [OF _ assms])
  show "distinct (arm_names loongarch64_dynamic_arms)"
    by (simp add: arm_names_def loongarch64_dynamic_arms_def)
  show "([loongarch64_r_name k], if k = GotEntry then DynamicRelocationKind.Absolute else k) \<in> set loongarch64_dynamic_arms"
    by (cases k) (simp_all add: loongarch64_dynamic_arms_def loongarch64_r_name_def)
qed simp

end
