(* ===== verification/X86_64.thy ===== *)
theory X86_64
  imports Insn_Codec Relaxation
begin

text \<open>
  Model of \<open>linker-utils/src/x86_64.rs\<close>: the instruction rewrites of relaxation
  (\<open>RelaxationKind::apply\<close>, which also moves the relocation offset and clears the addend), and
  the relocation table, with the x86-64 rows of \<open>DynamicRelocationKind\<close> from \<open>elf.rs\<close>.
\<close>

section \<open>Relaxations\<close>

datatype RelaxationKind =
    MovIndirectToLea
  | MovIndirectToAbsolute
  | RexMovIndirectToAbsolute nat
  | RexAddIndirectToAbsolute nat
  | RexSubIndirectToAbsolute nat
  | RexCmpIndirectToAbsolute nat
  | CallIndirectToRelative
  | JmpIndirectToRelative
  | NoOp
  | TlsGdToLocalExec
  | TlsGdToLocalExecLarge
  | TlsLdToLocalExec
  | TlsLdToLocalExecNoPlt
  | TlsLdToLocalExec64
  | TlsGdToInitialExec
  | TlsDescToLocalExec nat
  | TlsDescToInitialExec
  | SkipTlsDescCall

text \<open>\<open>offset - n\<close> on \<open>usize\<close>, used as an index: below zero it wraps around and the access panics.\<close>

definition before :: "nat \<Rightarrow> nat \<Rightarrow> nat option" where
  "before offset n = (if n \<le> offset then Some (offset - n) else None)"

definition copy_back :: "bytes \<Rightarrow> nat \<Rightarrow> nat \<Rightarrow> bytes \<Rightarrow> bytes option" where
  "copy_back b offset n src = do { i \<leftarrow> before offset n; copy_at b i src }"

definition get_back :: "bytes \<Rightarrow> nat \<Rightarrow> nat \<Rightarrow> u8 option" where
  "get_back b offset n = do { i \<leftarrow> before offset n; get b i }"

definition set_back :: "bytes \<Rightarrow> nat \<Rightarrow> nat \<Rightarrow> u8 \<Rightarrow> bytes option" where
  "set_back b offset n v = do { i \<leftarrow> before offset n; set_at b i v }"

text \<open>The REX prefix with its register extension moved from \<open>R\<close> to \<open>B\<close>, by prefix length.\<close>

definition move_rex :: "nat \<Rightarrow> u8 \<Rightarrow> u8" where
  "move_rex inst_offset rex =
     (if inst_offset = 3 then (rex AND NOT 4) OR drop_bit 2 (rex AND 4)
      else if inst_offset = 4 then (rex AND NOT 0x44) OR drop_bit 2 (rex AND 0x44)
      else rex)"

definition immediate_form :: "bytes \<Rightarrow> nat \<Rightarrow> u8 \<Rightarrow> u8 \<Rightarrow> bytes option" where
  "immediate_form b offset opcode modrm_bits =
     do {
       b1 \<leftarrow> set_back b offset 2 opcode;
       mod_rm \<leftarrow> get_back b1 offset 1;
       set_back b1 offset 1 ((drop_bit 3 mod_rm AND 0x7) OR modrm_bits)
     }"

definition rex_immediate_form :: "nat \<Rightarrow> bytes \<Rightarrow> nat \<Rightarrow> u8 \<Rightarrow> u8 \<Rightarrow> bytes option" where
  "rex_immediate_form inst_offset b offset opcode modrm_bits =
     do {
       rex \<leftarrow> get_back b offset 3;
       b1 \<leftarrow> set_back b offset 3 (move_rex inst_offset rex);
       immediate_form b1 offset opcode modrm_bits
     }"

definition update_rex2 :: "u8 \<Rightarrow> u8" where
  "update_rex2 l5 =
     (let l5a = (if l5 AND push_bit 7 1 = 0 then (l5 OR push_bit 7 1) AND NOT (push_bit 5 1) else l5)
      in if l5a AND push_bit 4 1 = 0 then l5a OR push_bit 4 1 OR push_bit 3 1 else l5a)"

definition x86_64_apply ::
    "RelaxationKind \<Rightarrow> bytes \<Rightarrow> nat \<Rightarrow> i64 \<Rightarrow> (bytes \<times> nat \<times> i64) option" where
  "x86_64_apply k b offset addend =
     (case k of
        MovIndirectToLea \<Rightarrow> do {
          b' \<leftarrow> set_back b offset 2 0x8d;
          Some (b', offset, addend) }
      | MovIndirectToAbsolute \<Rightarrow> do {
          b' \<leftarrow> immediate_form b offset 0xc7 0xc0;
          Some (b', offset, 0) }
      | RexMovIndirectToAbsolute inst_offset \<Rightarrow> do {
          b' \<leftarrow> rex_immediate_form inst_offset b offset 0xc7 0xc0;
          Some (b', offset, 0) }
      | RexAddIndirectToAbsolute inst_offset \<Rightarrow> do {
          b' \<leftarrow> (if inst_offset = 3 \<or> inst_offset = 4 then rex_immediate_form inst_offset b offset 0x81 0xc0
                else if inst_offset = 6 then do {
                  l5 \<leftarrow> get_back b offset 5;
                  b1 \<leftarrow> set_back b offset 5 (update_rex2 l5);
                  immediate_form b1 offset 0x81 0xc0 }
                else immediate_form b offset 0x81 0xc0);
          Some (b', offset, 0) }
      | RexSubIndirectToAbsolute inst_offset \<Rightarrow> do {
          b' \<leftarrow> rex_immediate_form inst_offset b offset 0x81 0xe8;
          Some (b', offset, 0) }
      | RexCmpIndirectToAbsolute inst_offset \<Rightarrow> do {
          b' \<leftarrow> rex_immediate_form inst_offset b offset 0x81 0xf8;
          Some (b', offset, 0) }
      | CallIndirectToRelative \<Rightarrow> do {
          b' \<leftarrow> copy_back b offset 2 [0x67, 0xe8];
          Some (b', offset, addend) }
      | JmpIndirectToRelative \<Rightarrow> do {
          b' \<leftarrow> copy_back b offset 2 [0xe9, 0, 0, 0, 0, 0x90];
          Some (b', offset - 1, addend) }
      | TlsGdToLocalExec \<Rightarrow> do {
          b' \<leftarrow> copy_back b offset 4 [0x64, 0x48, 0x8b, 0x04, 0x25, 0, 0, 0, 0, 0x48, 0x8d, 0x80];
          Some (b', offset + 8, 0) }
      | TlsGdToLocalExecLarge \<Rightarrow> do {
          b' \<leftarrow> copy_back b offset 3 [0x64, 0x48, 0x8b, 0x04, 0x25, 0, 0, 0, 0,
                 0x48, 0x8d, 0x80, 0, 0, 0, 0, 0x66, 0x0f, 0x1f, 0x44, 0, 0];
          Some (b', offset + 9, 0) }
      | TlsGdToInitialExec \<Rightarrow> do {
          b' \<leftarrow> copy_back b offset 4 [0x64, 0x48, 0x8b, 0x04, 0x25, 0, 0, 0, 0, 0x48, 0x03, 0x05];
          Some (b', offset + 8, addend) }
      | TlsLdToLocalExec \<Rightarrow> do {
          b' \<leftarrow> copy_back b offset 3 [0x66, 0x66, 0x66, 0x64, 0x48, 0x8b, 0x04, 0x25, 0, 0, 0, 0];
          Some (b', offset + 5, addend) }
      | TlsLdToLocalExecNoPlt \<Rightarrow> do {
          b' \<leftarrow> copy_back b offset 3 [0x66, 0x66, 0x66, 0x66, 0x64, 0x48, 0x8b, 0x04, 0x25, 0, 0, 0, 0];
          Some (b', offset + 5, addend) }
      | TlsLdToLocalExec64 \<Rightarrow> do {
          b' \<leftarrow> copy_back b offset 3 [0x66, 0x66, 0x66, 0x66, 0x2e, 0x0f, 0x1f, 0x84, 0, 0, 0, 0, 0,
                 0x64, 0x48, 0x8b, 0x04, 0x25, 0, 0, 0, 0];
          Some (b', offset + 15, addend) }
      | TlsDescToLocalExec inst_offset \<Rightarrow> do {
          rex \<leftarrow> get_back b offset 3;
          modrm \<leftarrow> get_back b offset 1;
          let rex_r = drop_bit 2 rex AND 1;
          let reg = drop_bit 3 modrm AND 0x7;
          if inst_offset = 3 \<or> inst_offset = 4 then do {
            let rex' = (if inst_offset = 3 then (if rex_r = 0 then 0x48 else 0x49)
                        else (if rex_r = 0 then 0x18 else 0x19));
            b' \<leftarrow> copy_back b offset 3 [rex', 0xc7, 0xc0 OR reg, 0, 0, 0, 0];
            Some (b', offset, 0) }
          else Some (b, offset, addend) }
      | TlsDescToInitialExec \<Rightarrow> do {
          rex \<leftarrow> get_back b offset 3;
          modrm \<leftarrow> get_back b offset 1;
          let rex_r = drop_bit 2 rex AND 1;
          let reg = drop_bit 3 modrm AND 0x7;
          let rex' = (if rex_r = 0 then 0x48 else 0x4c);
          b' \<leftarrow> copy_back b offset 3 [rex', 0x8b, 0x05 OR push_bit 3 reg, 0, 0, 0, 0];
          Some (b', offset, addend) }
      | SkipTlsDescCall \<Rightarrow> do {
          b' \<leftarrow> copy_at b offset [0x66, 0x90];
          Some (b', offset, addend) }
      | NoOp \<Rightarrow> Some (b, offset, addend))"

definition x86_64_next_modifier :: "RelaxationKind \<Rightarrow> RelocationModifier" where
  "x86_64_next_modifier k =
     (case k of
        TlsGdToInitialExec \<Rightarrow> SkipNextRelocation
      | TlsGdToLocalExec \<Rightarrow> SkipNextRelocation
      | TlsGdToLocalExecLarge \<Rightarrow> SkipNextRelocation
      | TlsLdToLocalExec \<Rightarrow> SkipNextRelocation
      | TlsLdToLocalExecNoPlt \<Rightarrow> SkipNextRelocation
      | TlsLdToLocalExec64 \<Rightarrow> SkipNextRelocation
      | _ \<Rightarrow> Normal)"

section \<open>Relocation table\<close>

type_synonym RelocSizeAndRange = "RelocationSize \<times> AllowedRange option"

definition RELOC_8_BYTE_UNSIGNED :: RelocSizeAndRange where
  "RELOC_8_BYTE_UNSIGNED = (ByteSize 8, from_byte_size 8 Unsigned)"
definition RELOC_8_BYTE_SIGNED :: RelocSizeAndRange where
  "RELOC_8_BYTE_SIGNED = (ByteSize 8, from_byte_size 8 Signed)"
definition RELOC_4_BYTE_UNSIGNED :: RelocSizeAndRange where
  "RELOC_4_BYTE_UNSIGNED = (ByteSize 4, from_byte_size 4 Unsigned)"
definition RELOC_4_BYTE_SIGNED :: RelocSizeAndRange where
  "RELOC_4_BYTE_SIGNED = (ByteSize 4, from_byte_size 4 Signed)"
definition RELOC_2_BYTE_SIGNED :: RelocSizeAndRange where
  "RELOC_2_BYTE_SIGNED = (ByteSize 2, from_byte_size 2 Signed)"
definition RELOC_1_BYTE_SIGNED :: RelocSizeAndRange where
  "RELOC_1_BYTE_SIGNED = (ByteSize 1, from_byte_size 1 Signed)"
definition RELOC_NONE :: RelocSizeAndRange where
  "RELOC_NONE = (ByteSize 0, Some no_check)"

definition x86_64_arms :: "(RelocationKind \<times> RelocSizeAndRange) arms" where
  "x86_64_arms = [
    ([''R_X86_64_64''],
      (RelocationKind.Absolute, RELOC_8_BYTE_UNSIGNED)),
    ([''R_X86_64_PC32''],
      (RelocationKind.Relative, RELOC_4_BYTE_SIGNED)),
    ([''R_X86_64_PC64''],
      (RelocationKind.Relative, RELOC_8_BYTE_SIGNED)),
    ([''R_X86_64_GOT32''],
      (RelocationKind.GotRelGotBase, RELOC_4_BYTE_UNSIGNED)),
    ([''R_X86_64_GOT64''],
      (RelocationKind.GotRelGotBase, RELOC_8_BYTE_UNSIGNED)),
    ([''R_X86_64_GOTOFF64''],
      (RelocationKind.SymRelGotBase, RELOC_8_BYTE_SIGNED)),
    ([''R_X86_64_PLT32''],
      (RelocationKind.PltRelative, RELOC_4_BYTE_SIGNED)),
    ([''R_X86_64_PLTOFF64''],
      (RelocationKind.PltRelGotBase, RELOC_8_BYTE_SIGNED)),
    ([''R_X86_64_GOTPCREL''],
      (RelocationKind.GotRelative, RELOC_4_BYTE_SIGNED)),
    ([''R_X86_64_GOTPC64''],
      (RelocationKind.Relative, RELOC_8_BYTE_SIGNED)),
    ([''R_X86_64_GOTPC32''],
      (RelocationKind.Relative, RELOC_4_BYTE_SIGNED)),
    ([''R_X86_64_32''],
      (RelocationKind.Absolute, RELOC_4_BYTE_UNSIGNED)),
    ([''R_X86_64_32S''],
      (RelocationKind.Absolute, RELOC_4_BYTE_SIGNED)),
    ([''R_X86_64_16''],
      (RelocationKind.Absolute, RELOC_2_BYTE_SIGNED)),
    ([''R_X86_64_PC16''],
      (RelocationKind.Relative, RELOC_2_BYTE_SIGNED)),
    ([''R_X86_64_8''],
      (RelocationKind.Absolute, RELOC_1_BYTE_SIGNED)),
    ([''R_X86_64_PC8''],
      (RelocationKind.Relative, RELOC_1_BYTE_SIGNED)),
    ([''R_X86_64_TLSGD''],
      (RelocationKind.TlsGd, RELOC_4_BYTE_SIGNED)),
    ([''R_X86_64_TLSLD''],
      (RelocationKind.TlsLd, RELOC_4_BYTE_SIGNED)),
    ([''R_X86_64_DTPOFF32''],
      (RelocationKind.DtpOff, RELOC_4_BYTE_SIGNED)),
    ([''R_X86_64_DTPOFF64''],
      (RelocationKind.DtpOff, RELOC_8_BYTE_SIGNED)),
    ([''R_X86_64_GOTTPOFF'', ''R_X86_64_CODE_4_GOTTPOFF'', ''R_X86_64_CODE_5_GOTTPOFF'', ''R_X86_64_CODE_6_GOTTPOFF''],
      (RelocationKind.GotTpOff, RELOC_4_BYTE_SIGNED)),
    ([''R_X86_64_GOTPCRELX'', ''R_X86_64_REX_GOTPCRELX'', ''R_X86_64_CODE_4_GOTPCRELX'', ''R_X86_64_CODE_5_GOTPCRELX'', ''R_X86_64_CODE_6_GOTPCRELX''],
      (RelocationKind.GotRelative, RELOC_4_BYTE_SIGNED)),
    ([''R_X86_64_TPOFF32''],
      (RelocationKind.TpOff, RELOC_4_BYTE_SIGNED)),
    ([''R_X86_64_GOTPC32_TLSDESC'', ''R_X86_64_CODE_4_GOTPC32_TLSDESC'', ''R_X86_64_CODE_5_GOTPC32_TLSDESC'', ''R_X86_64_CODE_6_GOTPC32_TLSDESC''],
      (RelocationKind.TlsDesc, RELOC_4_BYTE_SIGNED)),
    ([''R_X86_64_TLSDESC_CALL''],
      (RelocationKind.TlsDescCall, RELOC_NONE)),
    ([''R_X86_64_NONE''],
      (RelocationKind.None_kind, RELOC_NONE))]"

definition relocation_from_raw :: "(string \<Rightarrow> u32) \<Rightarrow> u32 \<Rightarrow> RelocationKindInfo option" where
  "relocation_from_raw elf r_type =
     do {
       (kind, sz, rng) \<leftarrow> match_arms elf x86_64_arms r_type;
       r \<leftarrow> rng;
       Some \<lparr>rel_kind = kind, rel_size = sz, rel_mask = None, rel_range = r,
             rel_alignment = 1, rel_bias = 0\<rparr>
     }"

section \<open>Dynamic relocations\<close>

definition x86_64_dynamic_arms :: "DynamicRelocationKind arms" where
  "x86_64_dynamic_arms =
       [([''R_X86_64_COPY''], DynamicRelocationKind.Copy),
        ([''R_X86_64_IRELATIVE''], DynamicRelocationKind.Irelative),
        ([''R_X86_64_DTPMOD64''], DynamicRelocationKind.DtpMod),
        ([''R_X86_64_DTPOFF64''], DynamicRelocationKind.DtpOff),
        ([''R_X86_64_TPOFF64''], DynamicRelocationKind.TpOff),
        ([''R_X86_64_RELATIVE''], DynamicRelocationKind.Relative),
        ([''R_X86_64_GLOB_DAT''], DynamicRelocationKind.GotEntry),
        ([''R_X86_64_64''], DynamicRelocationKind.Absolute),
        ([''R_X86_64_TLSDESC''], DynamicRelocationKind.TlsDesc),
        ([''R_X86_64_JUMP_SLOT''], DynamicRelocationKind.JumpSlot)]"

definition from_x86_64_r_type :: "(string \<Rightarrow> u32) \<Rightarrow> u32 \<Rightarrow> DynamicRelocationKind option" where
  "from_x86_64_r_type elf r_type = match_arms elf x86_64_dynamic_arms r_type"

definition x86_64_r_name :: "DynamicRelocationKind \<Rightarrow> string" where
  "x86_64_r_name k =
     (case k of
        DynamicRelocationKind.Copy \<Rightarrow> ''R_X86_64_COPY''
      | DynamicRelocationKind.Irelative \<Rightarrow> ''R_X86_64_IRELATIVE''
      | DynamicRelocationKind.DtpMod \<Rightarrow> ''R_X86_64_DTPMOD64''
      | DynamicRelocationKind.DtpOff \<Rightarrow> ''R_X86_64_DTPOFF64''
      | DynamicRelocationKind.TpOff \<Rightarrow> ''R_X86_64_TPOFF64''
      | DynamicRelocationKind.Relative \<Rightarrow> ''R_X86_64_RELATIVE''
      | DynamicRelocationKind.Absolute \<Rightarrow> ''R_X86_64_64''
      | DynamicRelocationKind.GotEntry \<Rightarrow> ''R_X86_64_GLOB_DAT''
      | DynamicRelocationKind.TlsDesc \<Rightarrow> ''R_X86_64_TLSDESC''
      | DynamicRelocationKind.JumpSlot \<Rightarrow> ''R_X86_64_JUMP_SLOT'')"

definition x86_64_r_type :: "(string \<Rightarrow> u32) \<Rightarrow> DynamicRelocationKind \<Rightarrow> u32" where
  "x86_64_r_type elf k = elf (x86_64_r_name k)"

section \<open>Properties\<close>

text \<open>
  The register number of the \<open>reg\<close> and of the \<open>rm\<close> operand of an instruction with a REX
  prefix, and whether the addressing mode is a register.
\<close>

definition reg_operand :: "u8 \<Rightarrow> u8 \<Rightarrow> u8" where
  "reg_operand rex modrm = push_bit 3 (take_bit 1 (drop_bit 2 rex)) OR take_bit 3 (drop_bit 3 modrm)"

definition rm_operand :: "u8 \<Rightarrow> u8 \<Rightarrow> u8" where
  "rm_operand rex modrm = push_bit 3 (take_bit 1 rex) OR take_bit 3 modrm"

definition register_direct :: "u8 \<Rightarrow> bool" where
  "register_direct modrm \<longleftrightarrow> drop_bit 6 modrm = 3"

lemma rm_operand_moved:
  assumes "\<not> bit rex 0" and "modrm_bits \<in> {0xc0, 0xe8, 0xf8}"
  shows "rm_operand (move_rex 3 rex) ((drop_bit 3 modrm AND 0x7) OR modrm_bits) = reg_operand rex modrm"
    and "register_direct ((drop_bit 3 modrm AND 0x7) OR modrm_bits)"
proof -
  have c: "(4 :: u8) = push_bit 2 (mask 1)" by (simp add: mask_numeral)
  have "take_bit 1 (move_rex 3 rex) = take_bit 1 (drop_bit 2 rex)"
    unfolding move_rex_def c using assms(1)
    by (intro bit_word_eqI) (auto simp: bit_simps bit_0)
  moreover have "take_bit 3 ((drop_bit 3 modrm AND 0x7) OR modrm_bits) = take_bit 3 (drop_bit 3 modrm)"
    using assms(2) by (auto simp: AND_low_mask)
  ultimately show "rm_operand (move_rex 3 rex) ((drop_bit 3 modrm AND 0x7) OR modrm_bits) = reg_operand rex modrm"
    by (simp add: rm_operand_def reg_operand_def)
  have "drop_bit 6 (take_bit 3 x) = 0" for x :: u8
    by (rule bit_word_eqI) (auto simp: bit_simps)
  then show "register_direct ((drop_bit 3 modrm AND 0x7) OR modrm_bits)"
    using assms(2) by (auto simp: AND_low_mask register_direct_def)
qed

lemma rex_immediate_form_keeps_register:
  assumes f: "rex_immediate_form 3 b offset opcode modrm_bits = Some b'"
    and mb: "modrm_bits \<in> {0xc0, 0xe8, 0xf8}" and "\<not> bit (b ! (offset - 3)) 0"
  shows "rm_operand (b' ! (offset - 3)) (b' ! (offset - 1)) = reg_operand (b ! (offset - 3)) (b ! (offset - 1))"
    and "register_direct (b' ! (offset - 1))"
proof -
  have len: "3 \<le> offset" "offset - 1 < length b"
    using f by (auto simp: rex_immediate_form_def immediate_form_def set_back_def get_back_def before_def
        get_def set_at_def bind_eq_Some_conv split: if_splits)
  then have "offset - 3 < length b" "offset - 2 < length b" "offset - 3 \<noteq> offset - 1"
    "offset - 2 \<noteq> offset - 1" "offset - 3 \<noteq> offset - 2" by linarith+
  with len f have "b' ! (offset - 3) = move_rex 3 (b ! (offset - 3))"
    and "b' ! (offset - 1) = (drop_bit 3 (b ! (offset - 1)) AND 0x7) OR modrm_bits"
    by (auto simp: rex_immediate_form_def immediate_form_def set_back_def get_back_def before_def
        get_def set_at_def bind_eq_Some_conv split: if_splits)
  then show "rm_operand (b' ! (offset - 3)) (b' ! (offset - 1)) = reg_operand (b ! (offset - 3)) (b ! (offset - 1))"
    and "register_direct (b' ! (offset - 1))"
    using rm_operand_moved [OF assms(3) mb] by simp_all
qed

text \<open>
  Rewriting a GOT load into an immediate form keeps the register: for \<open>mov\<close>, \<open>add\<close>, \<open>sub\<close>
  and \<open>cmp\<close> with a REX prefix whose unused \<open>B\<close> bit is clear, the register that was the \<open>reg\<close>
  operand of the memory form is the direct \<open>rm\<close> operand of the immediate form.
\<close>

theorem x86_64_rex_keeps_register:
  assumes "k \<in> {RexMovIndirectToAbsolute 3, RexAddIndirectToAbsolute 3, RexSubIndirectToAbsolute 3, RexCmpIndirectToAbsolute 3}"
    and "x86_64_apply k b offset addend = Some (b', offset', addend')" and "\<not> bit (b ! (offset - 3)) 0"
  shows "rm_operand (b' ! (offset - 3)) (b' ! (offset - 1)) = reg_operand (b ! (offset - 3)) (b ! (offset - 1)) \<and>
    register_direct (b' ! (offset - 1)) \<and> addend' = 0 \<and> offset' = offset"
  using assms rex_immediate_form_keeps_register [of b offset "0xc7" "0xc0" b']
    rex_immediate_form_keeps_register [of b offset "0x81" "0xc0" b']
    rex_immediate_form_keeps_register [of b offset "0x81" "0xe8" b']
    rex_immediate_form_keeps_register [of b offset "0x81" "0xf8" b']
  by (elim insertE emptyE) (auto simp: x86_64_apply_def bind_eq_Some_conv)

theorem x86_64_rex_keeps_register_witness:
  "rm_operand 0x49 0xc1 = reg_operand 0x4c 0x0d"
proof -
  have "x86_64_apply (RexMovIndirectToAbsolute 3) [0x4c, 0x8b, 0x0d, 0, 0, 0, 0] 3 5 =
      Some ([0x49, 0xc7, 0xc1, 0, 0, 0, 0], 3, 0)"
    by (simp add: x86_64_apply_def rex_immediate_form_def immediate_form_def set_back_def get_back_def
        before_def get_def set_at_def move_rex_def)
  from x86_64_rex_keeps_register [OF _ this] show ?thesis by simp
qed

lemma x86_64_dynamic:
  assumes "inj_on elf (set (arm_names x86_64_dynamic_arms))"
  shows "from_x86_64_r_type elf (x86_64_r_type elf k) = Some k"
  unfolding from_x86_64_r_type_def x86_64_r_type_def
proof (rule match_arms_unique [OF _ assms])
  show "distinct (arm_names x86_64_dynamic_arms)"
    by (simp add: arm_names_def x86_64_dynamic_arms_def)
  show "([x86_64_r_name k], k) \<in> set x86_64_dynamic_arms"
    by (cases k) (simp_all add: x86_64_dynamic_arms_def x86_64_r_name_def)
qed simp

text \<open>Every arm of the table is a whole number of bytes with the range of that many bytes.\<close>

definition x86_64_arm_ok :: "RelocationKind \<times> RelocSizeAndRange \<Rightarrow> bool" where
  "x86_64_arm_ok = (\<lambda>(kind, sz, rng).
     case sz of
       ByteSize n \<Rightarrow> n \<in> {0, 1, 2, 4, 8} \<and>
         rng \<in> {Some no_check, from_byte_size n Signed, from_byte_size n Unsigned} \<and>
         (rng = Some no_check \<longrightarrow> n = 0 \<or> n = 8)
     | BitMasking _ \<Rightarrow> False)"

lemma x86_64_arms_ok: "list_all (\<lambda>(names, t). x86_64_arm_ok t) x86_64_arms"
  by (simp add: x86_64_arms_def x86_64_arm_ok_def RELOC_8_BYTE_UNSIGNED_def RELOC_8_BYTE_SIGNED_def
      RELOC_4_BYTE_UNSIGNED_def RELOC_4_BYTE_SIGNED_def RELOC_2_BYTE_SIGNED_def RELOC_1_BYTE_SIGNED_def
      RELOC_NONE_def from_byte_size_def from_bit_size_def no_check_def AllowedRange_new_def)

lemma x86_64_no_uleb:
  "list_all (\<lambda>(names, kind, sz, rng). case kind of PairSubtractionULEB128 _ \<Rightarrow> False | _ \<Rightarrow> True) x86_64_arms"
  by (simp add: x86_64_arms_def RELOC_8_BYTE_UNSIGNED_def RELOC_8_BYTE_SIGNED_def
      RELOC_4_BYTE_UNSIGNED_def RELOC_4_BYTE_SIGNED_def RELOC_2_BYTE_SIGNED_def RELOC_1_BYTE_SIGNED_def
      RELOC_NONE_def)

end
