(* ===== verification/Write_Reloc.thy ===== *)
theory Write_Reloc
  imports AArch64 RiscV64 LoongArch64 X86_64
begin

text \<open>
  Model of the relocation writer: the dispatch over the architectures' encoders
  (\<open>RelocationInstruction\<close> in \<open>linker-utils/src/elf.rs\<close>) and the step that applies one
  relocation to the output (\<open>get_page_mask\<close> and \<open>write_relocation_to_buffer\<close> in
  \<open>libwild/src/elf.rs\<close>). The encoders are used through the interface \<open>insn_writer\<close>.
\<close>

section \<open>Dispatch over the architectures\<close>

definition insn_write_to_value :: "RelocationInstruction \<Rightarrow> u64 \<Rightarrow> bool \<Rightarrow> bytes \<Rightarrow> bytes option" where
  "insn_write_to_value i v negative dest =
     (case i of
        AArch64 insn \<Rightarrow> aarch64_write_to_value insn v negative dest
      | RiscV insn \<Rightarrow> riscv_write_to_value insn v negative dest
      | LoongArch64 insn \<Rightarrow> loongarch64_write_to_value insn v negative dest)"

definition insn_read_value :: "RelocationInstruction \<Rightarrow> bytes \<Rightarrow> (u64 \<times> bool) option" where
  "insn_read_value i bs =
     (case i of
        AArch64 insn \<Rightarrow> aarch64_read_value insn bs
      | RiscV insn \<Rightarrow> riscv_read_value insn bs
      | LoongArch64 insn \<Rightarrow> loongarch64_read_value insn bs)"

definition insn_bit_mask :: "RelocationInstruction \<Rightarrow> BitRange \<Rightarrow> bytes option" where
  "insn_bit_mask i rng =
     do {
       let all_ones = shl64 1 (end_bit rng - start rng) - 1;
       d \<leftarrow> insn_write_to_value i all_ones False [0, 0, 0, 0];
       Some (map (\<lambda>b. NOT b) d)
     }"

definition write_windows_size :: "RelocationInstruction \<Rightarrow> nat" where
  "write_windows_size i = (case i of AArch64 _ \<Rightarrow> 4 | RiscV _ \<Rightarrow> 4 | LoongArch64 _ \<Rightarrow> 4)"

section \<open>Page masks\<close>

record PageMaskValue =
  symbol_plus_addend :: u64
  got_entry :: u64
  place :: u64
  got :: u64

definition PageMaskValue_default :: PageMaskValue where
  "PageMaskValue_default = \<lparr>symbol_plus_addend = - 1, got_entry = - 1, place = - 1, got = - 1\<rparr>"

definition get_page_mask :: "PageMask option \<Rightarrow> PageMaskValue" where
  "get_page_mask msk =
     (case msk of
        None \<Rightarrow> PageMaskValue_default
      | Some (SymbolPlusAddendAndPosition m) \<Rightarrow>
          PageMaskValue_default\<lparr>symbol_plus_addend := NOT m, place := NOT m\<rparr>
      | Some (GotEntryAndPosition m) \<Rightarrow> PageMaskValue_default\<lparr>got_entry := NOT m, place := NOT m\<rparr>
      | Some (GotBase m) \<Rightarrow> PageMaskValue_default\<lparr>got := NOT m\<rparr>
      | Some (Position m) \<Rightarrow> PageMaskValue_default\<lparr>place := NOT m\<rparr>)"

section \<open>Writing one relocation\<close>

text \<open>
  The \<open>leb128\<close> crate is a parameter: \<open>uleb v\<close> is the encoding that \<open>leb128::write::unsigned\<close>
  appends. The outer \<^const>\<open>None\<close> is a panic.
\<close>

definition write_relocation_to_buffer ::
    "(u64 \<Rightarrow> bytes) \<Rightarrow> RelocationKindInfo \<Rightarrow> u64 \<Rightarrow> bytes \<Rightarrow> (reloc_error + bytes) option" where
  "write_relocation_to_buffer uleb rel_info v output =
     (case verify rel_info v of
        Inl e \<Rightarrow> Some (Inl e)
      | Inr _ \<Rightarrow>
          (case rel_kind rel_info of
             PairSubtractionULEB128 _ \<Rightarrow>
               (let n = length (uleb v)
                in if 10 < n then None
                   else if length output < n then Some (Inl (CannotWriteUleb n))
                   else map_option Inr (copy_at output 0 (uleb v)))
           | _ \<Rightarrow>
               (case rel_size rel_info of
                  ByteSize byte_size \<Rightarrow>
                    if length output < byte_size then Some (Inl OutsideOfSection)
                    else do {
                      src \<leftarrow> get_range (le_bytes 8 v) 0 byte_size;
                      map_option Inr (copy_at output 0 src) }
                | BitMasking bm \<Rightarrow>
                    map_option Inr
                      (insn_write_to_value (instruction bm)
                        (extract_bit_range v (start (bit_range bm)) (end_bit (bit_range bm)))
                        (sint v < 0) output))))"

section \<open>The dispatch is an encoder\<close>

definition insn_window :: "RelocationInstruction \<Rightarrow> nat" where
  "insn_window i =
     (case i of AArch64 _ \<Rightarrow> 4 | RiscV insn \<Rightarrow> riscv_window insn | LoongArch64 insn \<Rightarrow> loongarch64_window insn)"

definition insn_width :: "RelocationInstruction \<Rightarrow> nat" where
  "insn_width i =
     (case i of AArch64 insn \<Rightarrow> aarch64_width insn | RiscV _ \<Rightarrow> 64 | LoongArch64 insn \<Rightarrow> loongarch64_width insn)"

definition insn_field :: "RelocationInstruction \<Rightarrow> u64" where
  "insn_field i =
     (case i of AArch64 insn \<Rightarrow> ucast (aarch64_field insn) | RiscV insn \<Rightarrow> riscv_field insn
      | LoongArch64 insn \<Rightarrow> loongarch64_field insn)"

lemmas insn_defs = insn_write_to_value_def insn_window_def insn_width_def insn_field_def

interpretation insn: insn_writer insn_write_to_value insn_window insn_width insn_field
proof
  show "insn_window i \<le> 8" for i
    using riscv.window_le loongarch64.window_le by (simp add: insn_defs split: RelocationInstruction.split)
  show "insn_write_to_value i v neg dest = None \<longleftrightarrow> length dest < insn_window i" for i v neg dest
    using aarch64.write_None_iff riscv.write_None_iff loongarch64.write_None_iff
    by (simp add: insn_defs split: RelocationInstruction.split)
  show "preserves_outside (insn_window i) (insn_field i) dest d"
    if "insn_write_to_value i v neg dest = Some d" and "take_bit (insn_width i) v = v" for i v neg dest d
    using that aarch64.write_preserves riscv.write_preserves loongarch64.write_preserves
    by (simp add: insn_defs split: RelocationInstruction.splits)
qed

section \<open>The tables are within the encoders' bounds\<close>

definition reloc_ok :: "RelocationKindInfo \<Rightarrow> bool" where
  "reloc_ok info \<longleftrightarrow> size_fits insn_width (rel_size info)"

lemma size_fits_mono:
  assumes "size_fits f sz" and "\<And>i. f i \<noteq> 0 \<Longrightarrow> f i \<le> g i"
  shows "size_fits g sz"
proof (cases sz)
  case (BitMasking bm)
  then have "f (instruction bm) \<noteq> 0" using assms(1) by (auto simp: size_fits_def)
  then show ?thesis
    using assms(1) assms(2) [of "instruction bm"] BitMasking by (simp add: size_fits_def)
qed (use assms(1) in \<open>simp add: size_fits_def\<close>)

text \<open>The relocation types of one of the four tables.\<close>

datatype arch = Arch_AArch64 | Arch_RiscV64 | Arch_LoongArch64 | Arch_X86_64

definition arch_relocation_from_raw :: "arch \<Rightarrow> (string \<Rightarrow> u32) \<Rightarrow> u32 \<Rightarrow> RelocationKindInfo option" where
  "arch_relocation_from_raw a elf r =
     (case a of
        Arch_AArch64 \<Rightarrow> aarch64_relocation_type_from_raw elf r
      | Arch_RiscV64 \<Rightarrow> riscv_relocation_type_from_raw elf r
      | Arch_LoongArch64 \<Rightarrow> loongarch64_relocation_type_from_raw elf r
      | Arch_X86_64 \<Rightarrow> relocation_from_raw elf r)"

lemma arch_relocation_ok:
  assumes "arch_relocation_from_raw a elf r = Some info"
    and "a = Arch_AArch64 \<Longrightarrow> r \<notin> elf ` set aarch64_oversized"
  shows "reloc_ok info"
proof (cases a)
  case Arch_AArch64
  then have "aarch64_size_fits (rel_size info)"
    using assms aarch64_relocation_type_from_raw_cases(1) by (simp add: arch_relocation_from_raw_def)
  then show ?thesis
    unfolding reloc_ok_def aarch64_size_fits_def
    by (rule size_fits_mono) (auto simp: insn_width_def split: RelocationInstruction.split)
next
  case Arch_RiscV64
  then have "riscv_size_fits (rel_size info)"
    using assms riscv_relocation_type_from_raw_ok by (auto simp: arch_relocation_from_raw_def riscv_arm_ok_def)
  then show ?thesis
    unfolding reloc_ok_def riscv_size_fits_def
    by (rule size_fits_mono) (auto simp: insn_width_def split: RelocationInstruction.split)
next
  case Arch_LoongArch64
  then have "loongarch64_size_fits (rel_size info)"
    using assms loongarch64_relocation_type_from_raw_ok
    by (auto simp: arch_relocation_from_raw_def loongarch64_arm_ok_def)
  then show ?thesis
    unfolding reloc_ok_def loongarch64_size_fits_def
    by (rule size_fits_mono) (auto simp: insn_width_def split: RelocationInstruction.split)
next
  case Arch_X86_64
  then obtain kind rng where arm: "match_arms elf x86_64_arms r = Some (kind, rel_size info, rng)"
    using assms(1) by (auto simp: arch_relocation_from_raw_def relocation_from_raw_def bind_eq_Some_conv)
  have "x86_64_arm_ok (kind, rel_size info, rng)"
    using match_arms_list_all [OF arm x86_64_arms_ok] by auto
  then show ?thesis
    by (auto simp: reloc_ok_def x86_64_arm_ok_def size_fits_def split: RelocationSize.splits)
qed

section \<open>Properties\<close>

text \<open>The bytes a relocation occupies, and the bits of them it may change.\<close>

definition is_uleb_pair :: "RelocationKindInfo \<Rightarrow> bool" where
  "is_uleb_pair info = (case rel_kind info of PairSubtractionULEB128 _ \<Rightarrow> True | _ \<Rightarrow> False)"

definition reloc_window :: "(u64 \<Rightarrow> bytes) \<Rightarrow> RelocationKindInfo \<Rightarrow> u64 \<Rightarrow> nat" where
  "reloc_window uleb info v =
     (if is_uleb_pair info then length (uleb v)
      else case rel_size info of ByteSize n \<Rightarrow> n | BitMasking bm \<Rightarrow> insn_window (instruction bm))"

definition reloc_field :: "RelocationKindInfo \<Rightarrow> u64" where
  "reloc_field info =
     (if is_uleb_pair info then - 1
      else case rel_size info of ByteSize _ \<Rightarrow> - 1 | BitMasking bm \<Rightarrow> insn_field (instruction bm))"

lemma write_relocation_verified:
  "verify info v = Inr () \<Longrightarrow> write_relocation_to_buffer uleb info v output =
     (if is_uleb_pair info then
        (let n = length (uleb v)
         in if 10 < n then None
            else if length output < n then Some (Inl (CannotWriteUleb n))
            else map_option Inr (copy_at output 0 (uleb v)))
      else case rel_size info of
        ByteSize byte_size \<Rightarrow>
          if length output < byte_size then Some (Inl OutsideOfSection)
          else do {
            src \<leftarrow> get_range (le_bytes 8 v) 0 byte_size;
            map_option Inr (copy_at output 0 src) }
      | BitMasking bm \<Rightarrow>
          map_option Inr
            (insn_write_to_value (instruction bm)
              (extract_bit_range v (start (bit_range bm)) (end_bit (bit_range bm)))
              (sint v < 0) output))"
  by (simp add: write_relocation_to_buffer_def is_uleb_pair_def split: RelocationKind.split)

lemma copy_at_0_preserves: "copy_at xs 0 src = Some ys \<Longrightarrow> preserves_outside (length src) (- 1) xs ys"
  by (auto simp: copy_at_def preserves_outside_def split: if_splits)

text \<open>
  (C16) Applying a relocation is total and local: for every relocation type of the four tables
  (the two oversized AArch64 arms excepted), every value and every buffer that holds the bytes
  of the relocation, \<open>write_relocation_to_buffer\<close> does not panic; it reports exactly the error
  of \<open>verify\<close>, and when \<open>verify\<close> accepts the value it changes nothing but the bytes of the datum or
  the bits of the instruction that its encoder may write (\<open>insn_field\<close>): the immediate, and for three encoders
  more than it, namely the opcode bits by which \<open>Movnz\<close> chooses between \<open>movn\<close> and \<open>movz\<close>, the bit above the first
  immediate of \<open>Call36\<close>, into which the rounding can carry, and 16 bits for \<open>Shift10\<close>, which serves immediates of 12 and 16
  bits. Registers and all other opcode bits are kept. The \<open>leb128\<close> encoding of a 64-bit value takes at most ten bytes.
\<close>

theorem write_relocation_total:
  assumes "arch_relocation_from_raw a elf r = Some info"
    and "a = Arch_AArch64 \<longrightarrow> r \<notin> elf ` set aarch64_oversized"
    and "length (uleb v) \<le> 10" and "reloc_window uleb info v \<le> length output"
  shows "\<exists>res. write_relocation_to_buffer uleb info v output = Some res \<and>
    (case res of
       Inl e \<Rightarrow> verify info v = Inl e
     | Inr out \<Rightarrow> verify info v = Inr () \<and>
         preserves_outside (reloc_window uleb info v) (reloc_field info) output out)"
proof (cases "verify info v")
  case (Inl e)
  then show ?thesis by (simp add: write_relocation_to_buffer_def)
next
  case (Inr u)
  then have ok: "verify info v = Inr ()" by simp
  have fits: "size_fits insn_width (rel_size info)"
    using arch_relocation_ok [OF assms(1)] assms(2) by (auto simp: reloc_ok_def)
  have "\<exists>out. write_relocation_to_buffer uleb info v output = Some (Inr out) \<and>
      preserves_outside (reloc_window uleb info v) (reloc_field info) output out"
  proof (cases "is_uleb_pair info")
    case True
    then show ?thesis
      using assms(3,4) copy_at_0_preserves [of "output" "uleb v"]
      by (simp add: write_relocation_verified [OF ok] reloc_window_def reloc_field_def copy_at_def)
  next
    case False
    show ?thesis
    proof (cases "rel_size info")
      case (ByteSize n)
      then show ?thesis
        using False fits assms(4) copy_at_0_preserves [of "output" "take n (le_bytes 8 v)"]
        by (simp add: write_relocation_verified [OF ok] reloc_window_def reloc_field_def copy_at_def
            get_range_def size_fits_def min_def)
    next
      case (BitMasking bm)
      then show ?thesis
        using False fits assms(4)
          insn.write_extracted [of "start (bit_range bm)" "end_bit (bit_range bm)" "instruction bm" "output" v "sint v < 0"]
        by (auto simp: write_relocation_verified [OF ok] reloc_window_def reloc_field_def size_fits_def)
    qed
  qed
  with ok show ?thesis by auto
qed

theorem write_relocation_total_witness:
  "\<exists>res. write_relocation_to_buffer (\<lambda>_. [0]) \<lparr>rel_kind = RelocationKind.Relative, rel_size = ByteSize 4,
      rel_mask = None, rel_range = AllowedRange_new (- (2 ^ 31)) (2 ^ 31), rel_alignment = 1, rel_bias = 0\<rparr>
      (- 4) [0, 0, 0, 0] = Some res \<and> (\<exists>out. res = Inr out)"
proof -
  let ?elf = "\<lambda>n. if n = ''R_X86_64_PC32'' then 2 else 0 :: u32"
  let ?info = "\<lparr>rel_kind = RelocationKind.Relative, rel_size = ByteSize 4,
      rel_mask = None, rel_range = AllowedRange_new (- (2 ^ 31)) (2 ^ 31), rel_alignment = 1, rel_bias = 0\<rparr>"
  have "arch_relocation_from_raw Arch_X86_64 ?elf 2 = Some ?info"
    by (simp add: arch_relocation_from_raw_def relocation_from_raw_def match_arms_def x86_64_arms_def
        RELOC_4_BYTE_SIGNED_def from_byte_size_def from_bit_size_def)
  then have "\<exists>res. write_relocation_to_buffer (\<lambda>_. [0]) ?info (- 4) [0, 0, 0, 0] = Some res \<and>
    (case res of
       Inl e \<Rightarrow> verify ?info (- 4) = Inl e
     | Inr out \<Rightarrow> verify ?info (- 4) = Inr () \<and>
         preserves_outside (reloc_window (\<lambda>_. [0]) ?info (- 4)) (reloc_field ?info) [0, 0, 0, 0] out)"
    by (rule write_relocation_total) (simp_all add: reloc_window_def is_uleb_pair_def)
  then obtain res where res: "write_relocation_to_buffer (\<lambda>_. [0]) ?info (- 4) [0, 0, 0, 0] = Some res"
    and "case res of Inl e \<Rightarrow> verify ?info (- 4) = Inl e | Inr out \<Rightarrow> verify ?info (- 4) = Inr () \<and>
         preserves_outside (reloc_window (\<lambda>_. [0]) ?info (- 4)) (reloc_field ?info) [0, 0, 0, 0] out"
    by blast
  moreover have "verify ?info (- 4) = Inr ()"
    by (simp add: verify_def is_multiple_of_def range_contains_def AllowedRange_new_def)
  ultimately have "\<exists>out. res = Inr out" by (cases res) auto
  with res show ?thesis by blast
qed

lemma take_le_bytes: "m \<le> k \<Longrightarrow> take m (le_bytes k w) = le_bytes m w"
  by (simp add: le_bytes_def take_map)

lemma write_byte_relocation:
  assumes "verify info v = Inr ()" and "\<not> is_uleb_pair info" and "rel_size info = ByteSize n"
    and "n \<le> 8" and "n \<le> length output"
  shows "write_relocation_to_buffer uleb info v output = Some (Inr (le_bytes n v @ drop n output))"
  using assms
  by (simp add: write_relocation_verified get_range_def copy_at_def take_le_bytes)

text \<open>
  Data relocations of x86-64 store their value: when \<open>verify\<close> accepts a value for a
  relocation type of the table that occupies \<open>n\<close> bytes, the bytes written read back as the value,
  with sign extension for the signed types and zero extension for the unsigned ones.
\<close>

theorem x86_64_relocation_readback:
  assumes "relocation_from_raw elf r = Some info" and "rel_size info = ByteSize n" and "0 < n"
    and "verify info v = Inr ()" and "n \<le> length output"
  shows "\<exists>out. write_relocation_to_buffer uleb info v output = Some (Inr out) \<and> length out = length output \<and>
    (Some (rel_range info) = from_byte_size n Signed \<and> signed_take_bit (8 * n - 1) (from_le_bytes (take n out)) = v \<or>
     Some (rel_range info) = from_byte_size n Unsigned \<and> from_le_bytes (take n out) = v)"
proof -
  obtain kind rng where arm: "match_arms elf x86_64_arms r = Some (kind, rel_size info, Some rng)"
    and info: "rel_range info = rng" "rel_kind info = kind"
    using assms(1) by (auto simp: relocation_from_raw_def bind_eq_Some_conv)
  have ok: "x86_64_arm_ok (kind, rel_size info, Some rng)"
    using match_arms_list_all [OF arm x86_64_arms_ok] by auto
  then have n: "n \<in> {1, 2, 4, 8}" "Some rng \<in> {from_byte_size n Signed, from_byte_size n Unsigned}"
    using assms(2,3) by (auto simp: x86_64_arm_ok_def from_byte_size_def from_bit_size_def)
  have contained: "range_contains rng (sint v)"
    using assms(4) info(1) by (simp add: verify_Inr_iff)
  have "\<not> is_uleb_pair info"
    using match_arms_list_all [OF arm x86_64_no_uleb] info
    by (auto simp: is_uleb_pair_def split: RelocationKind.splits)
  then have w: "write_relocation_to_buffer uleb info v output = Some (Inr (le_bytes n v @ drop n output))"
    using assms n(1) by (intro write_byte_relocation) auto
  have "from_le_bytes (take n (le_bytes n v @ drop n output)) = take_bit (8 * n) v"
    by (simp add: from_le_bytes_le_bytes)
  moreover have "signed_take_bit (8 * n - 1) (take_bit (8 * n) v) = v" if "Some rng = from_byte_size n Signed"
  proof (cases "n = 8")
    case True
    then show ?thesis
      using signed_take_bit_fits [of 63 v] sint_ge [of v] sint_lt [of v] by (simp add: signed_take_bit_take_bit)
  next
    case False
    then have "signed_take_bit (8 * n - 1) v = v"
      using that n(1) contained by (intro contains_signed_fits [of "8 * n" rng]) (auto simp: from_byte_size_def)
    moreover have "\<not> 8 * n \<le> 8 * n - 1" using assms(3) by linarith
    ultimately show ?thesis by (simp add: signed_take_bit_take_bit)
  qed
  moreover have "take_bit (8 * n) v = v" if "Some rng = from_byte_size n Unsigned"
  proof (cases "n = 8")
    case True
    then show ?thesis by (simp add: take_bit_word_eq_self)
  next
    case False
    then show ?thesis
      using that n(1) contained by (intro contains_unsigned_fits [of "8 * n" rng]) (auto simp: from_byte_size_def)
  qed
  ultimately show ?thesis
    using w n(2) info assms(5) by auto
qed

theorem x86_64_relocation_readback_witness:
  "\<exists>out. write_relocation_to_buffer (\<lambda>_. []) \<lparr>rel_kind = RelocationKind.Relative, rel_size = ByteSize 4,
      rel_mask = None, rel_range = AllowedRange_new (- (2 ^ 31)) (2 ^ 31), rel_alignment = 1, rel_bias = 0\<rparr>
      (- 4) [0, 0, 0, 0] = Some (Inr out) \<and> signed_take_bit 31 (from_le_bytes (take 4 out)) = (- 4 :: u64)"
proof -
  let ?elf = "\<lambda>n. if n = ''R_X86_64_PC32'' then 2 else 0 :: u32"
  let ?info = "\<lparr>rel_kind = RelocationKind.Relative, rel_size = ByteSize 4,
      rel_mask = None, rel_range = AllowedRange_new (- (2 ^ 31)) (2 ^ 31), rel_alignment = 1, rel_bias = 0\<rparr>"
  have arm: "relocation_from_raw ?elf 2 = Some ?info"
    by (simp add: relocation_from_raw_def match_arms_def x86_64_arms_def
        RELOC_4_BYTE_SIGNED_def from_byte_size_def from_bit_size_def)
  have v: "verify ?info (- 4) = Inr ()"
    by (simp add: verify_def is_multiple_of_def range_contains_def AllowedRange_new_def)
  have "from_byte_size 4 Unsigned \<noteq> Some (AllowedRange_new (- (2 ^ 31)) (2 ^ 31))"
    by (simp add: from_byte_size_def from_bit_size_def AllowedRange_new_def)
  then show ?thesis
    using x86_64_relocation_readback [OF arm _ _ v, of 4 "[0, 0, 0, 0]" "\<lambda>_. []"] by auto
qed

text \<open>
  (C33) 64-bit absolute relocations are truncated on RISC-V and LoongArch: the tables give \<open>R_RISCV_64\<close> and
  \<open>R_LARCH_64\<close> four bytes and no range check, so every value but the largest signed one is accepted for an
  eight-byte datum, only its low four bytes are stored, and the upper half of the datum stays what it was.
\<close>

theorem abs64_truncated:
  assumes "inj_on riscv_elf (set (arm_names (riscv_arms riscv_elf)))" "inj_on larch_elf (set (arm_names (loongarch64_arms larch_elf)))"
    and "sint v \<noteq> 2 ^ 63 - 1" "8 \<le> length output"
  shows "\<exists>info out. riscv_relocation_type_from_raw riscv_elf (riscv_elf ''R_RISCV_64'') = Some info \<and>
     loongarch64_relocation_type_from_raw larch_elf (larch_elf ''R_LARCH_64'') = Some info \<and> rel_kind info = RelocationKind.Absolute \<and>
     write_relocation_to_buffer uleb info v output = Some (Inr out) \<and>
     from_le_bytes (take 4 out) = take_bit 32 v \<and> drop 4 out = drop 4 output"
proof -
  let ?info = "\<lparr>rel_kind = RelocationKind.Absolute, rel_size = ByteSize 4, rel_mask = None,
    rel_range = no_check, rel_alignment = 1, rel_bias = 0\<rparr>"
  have "riscv_relocation_type_from_raw riscv_elf (riscv_elf ''R_RISCV_64'') = Some ?info"
    by (rule riscv_arm_found [OF assms(1), of "[''R_RISCV_64'']"]) (simp_all add: riscv_arms_defs)
  moreover have "loongarch64_relocation_type_from_raw larch_elf (larch_elf ''R_LARCH_64'') = Some ?info"
    by (rule loongarch64_arm_found [OF assms(2), of "[''R_LARCH_64'']"]) (simp_all add: loongarch64_arms_defs)
  moreover have "verify ?info v = Inr ()"
    using assms(3) sint_ge [of v] sint_lt [of v]
    by (simp add: verify_def is_multiple_of_def range_contains_def no_check_def AllowedRange_new_def)
  then have "write_relocation_to_buffer uleb ?info v output = Some (Inr (le_bytes 4 v @ drop 4 output))"
    using assms(4) by (intro write_byte_relocation) (simp_all add: is_uleb_pair_def)
  ultimately show ?thesis
    by (intro exI [of _ ?info] exI [of _ "le_bytes 4 v @ drop 4 output"]) (simp add: from_le_bytes_le_bytes)
qed

theorem abs64_truncated_witness:
  "\<exists>info out. write_relocation_to_buffer (\<lambda>_. []) info 0x100000005 [0, 0, 0, 0, 0, 0, 0, 0] = Some (Inr out) \<and>
     from_le_bytes (take 4 out) = (5 :: u64) \<and> drop 4 out = [0, 0, 0, 0]"
proof -
  have "take_bit 32 (0x100000005 :: u64) = 5" by simp
  then show ?thesis
    using abs64_truncated [OF riscv_numbered [of "\<lambda>_. 0"] loongarch64_numbered [of "\<lambda>_. 0"],
        of "0x100000005" "[0, 0, 0, 0, 0, 0, 0, 0]" "\<lambda>_. []"]
    by auto
qed
end
