(* ===== verification/Leb128.thy ===== *)
theory Leb128
  imports Prelude
begin

text \<open>
  Model of \<open>wilt/src/leb128.rs\<close>: variable-length integers of the WebAssembly binary format.
  Readers return the value and the number of bytes consumed; writers return the bytes they
  append. The interface \<open>prefix_code\<close> states what the parsers rely on; the three variable-length
  codes and the padded one satisfy it.
\<close>

section \<open>Unsigned\<close>

fun read_u32_loop :: "u32 \<Rightarrow> nat \<Rightarrow> nat \<Rightarrow> bytes \<Rightarrow> (u32 \<times> nat) option" where
  "read_u32_loop result shift i [] = None"
| "read_u32_loop result shift i (byte # data) =
     (let result' = result OR push_bit shift (ucast (byte AND 0x7F));
          shift' = shift + 7
      in if byte < 0x80 then Some (result', i + 1)
         else if 35 \<le> shift' then None
         else read_u32_loop result' shift' (i + 1) data)"

definition read_u32 :: "bytes \<Rightarrow> (u32 \<times> nat) option" where
  "read_u32 data = read_u32_loop 0 0 0 data"

lemma unat_drop_bit_7: "unat (drop_bit 7 v) = unat (v :: 'a::len word) div 128"
proof -
  have "unat (drop_bit 7 v) = drop_bit 7 (unat v)" by (rule unat_drop_bit_eq)
  also have "\<dots> = unat v div 2 ^ 7" by (rule drop_bit_eq_div)
  finally show ?thesis by simp
qed

lemma drop_bit_7_less:
  assumes "v \<noteq> 0"
  shows "unat (drop_bit 7 v) < unat (v :: 'a::len word)"
proof -
  have "0 < unat v" using assms by (simp add: unat_gt_0)
  then have "unat v div 128 < unat v" by simp
  then show ?thesis by (simp only: unat_drop_bit_7)
qed

function write_u32 :: "u32 \<Rightarrow> bytes" where
  "write_u32 v =
     (let byte = ucast (v AND 0x7F);
          v' = drop_bit 7 v
      in if v' \<noteq> 0 then (byte OR 0x80) # write_u32 v' else [byte])"
  by pat_completeness auto
termination
  by (relation "measure unat") (auto intro!: drop_bit_7_less)

declare write_u32.simps [simp del]

function u32_size :: "u32 \<Rightarrow> nat" where
  "u32_size v = (if 128 \<le> v then u32_size (drop_bit 7 v) + 1 else 1)"
  by pat_completeness auto
termination
  by (relation "measure unat") (auto intro!: drop_bit_7_less)

declare u32_size.simps [simp del]

section \<open>Signed\<close>

text \<open>
  The loop that \<open>read_i32\<close> and \<open>read_i64\<close> share: it accumulates in 64 bits and gives up when the
  shift reaches the limit.
\<close>

fun read_signed_loop :: "nat \<Rightarrow> i64 \<Rightarrow> nat \<Rightarrow> nat \<Rightarrow> bytes \<Rightarrow> (i64 \<times> nat) option" where
  "read_signed_loop limit result shift i [] = None"
| "read_signed_loop limit result shift i (byte # data) =
     (let result' = result OR push_bit shift (ucast (byte AND 0x7F));
          shift' = shift + 7
      in if byte < 0x80 then
           Some (if shift' < 64 \<and> byte AND 0x40 \<noteq> 0 then result' OR push_bit shift' (- 1) else result', i + 1)
         else if limit \<le> shift' then None
         else read_signed_loop limit result' shift' (i + 1) data)"

definition read_i32 :: "bytes \<Rightarrow> (i32 \<times> nat) option" where
  "read_i32 data = map_option (\<lambda>(v, n). (ucast v, n)) (read_signed_loop 35 0 0 0 data)"

definition read_i64 :: "bytes \<Rightarrow> (i64 \<times> nat) option" where
  "read_i64 data = read_signed_loop 70 0 0 0 data"

lemma sar_7_less:
  fixes v :: "'a::len word"
  assumes "v \<noteq> 0" and "v \<noteq> - 1"
  shows "nat \<bar>sint (signed_drop_bit 7 v)\<bar> < nat \<bar>sint v\<bar>"
proof -
  have s: "sint (signed_drop_bit 7 v) = sint v div 128"
    by (simp only: sint_signed_drop_bit_eq drop_bit_eq_div) simp
  have "sint v \<noteq> 0" and "sint v \<noteq> - 1"
    using assms by (metis signed_0 signed_word_eqI, metis signed_minus_1 signed_word_eqI)
  then show ?thesis unfolding s by linarith
qed

text \<open>The condition of the signed writers to go on excludes 0 and -1, so the absolute value shrinks.\<close>

lemma signed_continue_less:
  fixes v :: i32 and w :: i64
  shows "\<not> (signed_drop_bit 7 v = 0 \<and> (ucast (v AND 0x7F) :: u8) AND 0x40 = 0 \<or>
      signed_drop_bit 7 v = - 1 \<and> (ucast (v AND 0x7F) :: u8) AND 0x40 \<noteq> 0) \<Longrightarrow>
    nat \<bar>sint (signed_drop_bit 7 v)\<bar> < nat \<bar>sint v\<bar>"
  and "\<not> (signed_drop_bit 7 w = 0 \<and> (ucast (w AND 0x7F) :: u8) AND 0x40 = 0 \<or>
      signed_drop_bit 7 w = - 1 \<and> (ucast (w AND 0x7F) :: u8) AND 0x40 \<noteq> 0) \<Longrightarrow>
    nat \<bar>sint (signed_drop_bit 7 w)\<bar> < nat \<bar>sint w\<bar>"
  by (rule sar_7_less; rule notI; simp)+

function write_i32 :: "i32 \<Rightarrow> bytes" where
  "write_i32 v =
     (let byte = ucast (v AND 0x7F);
          v' = signed_drop_bit 7 v;
          sign_bit = byte AND 0x40
      in if (v' = 0 \<and> sign_bit = 0) \<or> (v' = - 1 \<and> sign_bit \<noteq> 0) then [byte]
         else (byte OR 0x80) # write_i32 v')"
  by pat_completeness auto
termination
  by (relation "measure (\<lambda>v. nat \<bar>sint v\<bar>)", simp, simp only: in_measure, rule signed_continue_less) blast

declare write_i32.simps [simp del]

function write_i64 :: "i64 \<Rightarrow> bytes" where
  "write_i64 v =
     (let byte = ucast (v AND 0x7F);
          v' = signed_drop_bit 7 v;
          sign_bit = byte AND 0x40
      in if (v' = 0 \<and> sign_bit = 0) \<or> (v' = - 1 \<and> sign_bit \<noteq> 0) then [byte]
         else (byte OR 0x80) # write_i64 v')"
  by pat_completeness auto
termination
  by (relation "measure (\<lambda>v. nat \<bar>sint v\<bar>)", simp, simp only: in_measure, rule signed_continue_less) blast

declare write_i64.simps [simp del]

section \<open>Skipping and padding\<close>

fun skip_len_loop :: "nat \<Rightarrow> nat \<Rightarrow> bytes \<Rightarrow> nat option" where
  "skip_len_loop 0 i data = None"
| "skip_len_loop (Suc n) i [] = None"
| "skip_len_loop (Suc n) i (b # data) = (if b < 0x80 then Some (i + 1) else skip_len_loop n (i + 1) data)"

definition skip_len :: "bytes \<Rightarrow> nat option" where
  "skip_len data = skip_len_loop 10 0 data"

fun read_padded_loop :: "nat \<Rightarrow> u32 \<Rightarrow> bytes \<Rightarrow> nat \<Rightarrow> nat \<Rightarrow> u32" where
  "read_padded_loop 0 result data offset i = result"
| "read_padded_loop (Suc n) result data offset i =
     (if length data \<le> offset + i then result
      else let byte = data ! (offset + i);
               result' = result OR push_bit (i * 7) (ucast (byte AND 0x7F))
           in if byte < 0x80 then result' else read_padded_loop n result' data offset (i + 1))"

definition read_padded_u32 :: "bytes \<Rightarrow> nat \<Rightarrow> u32" where
  "read_padded_u32 data offset = read_padded_loop 5 0 data offset 0"

definition write_padded_u32 :: "bytes \<Rightarrow> nat \<Rightarrow> u32 \<Rightarrow> bytes option" where
  "write_padded_u32 buf offset v =
     do {
       b0 \<leftarrow> set_at buf offset (ucast (v AND 0x7F) OR 0x80);
       b1 \<leftarrow> set_at b0 (offset + 1) (ucast (drop_bit 7 v AND 0x7F) OR 0x80);
       b2 \<leftarrow> set_at b1 (offset + 2) (ucast (drop_bit 14 v AND 0x7F) OR 0x80);
       b3 \<leftarrow> set_at b2 (offset + 3) (ucast (drop_bit 21 v AND 0x7F) OR 0x80);
       set_at b3 (offset + 4) (ucast (drop_bit 28 v AND 0x0F))
     }"

section \<open>Prefix codes\<close>

text \<open>
  What a parser needs of a code: decoding what was encoded gives the value and the length of its
  encoding, whatever follows; the empty input does not decode.
\<close>

fun dec_many :: "(bytes \<Rightarrow> ('v \<times> nat) option) \<Rightarrow> nat \<Rightarrow> bytes \<Rightarrow> ('v list \<times> nat) option" where
  "dec_many dec 0 data = Some ([], 0)"
| "dec_many dec (Suc n) data =
     do {
       (v, c) \<leftarrow> dec data;
       rest \<leftarrow> get_from data c;
       (vs, cs) \<leftarrow> dec_many dec n rest;
       Some (v # vs, c + cs)
     }"

locale prefix_code =
  fixes enc :: "'v \<Rightarrow> bytes" and dec :: "bytes \<Rightarrow> ('v \<times> nat) option"
  assumes dec_enc: "dec (enc v @ rest) = Some (v, length (enc v))"
    and dec_empty: "dec [] = None"
begin

lemma enc_nonempty: "enc v \<noteq> []"
  using dec_enc [of v "[]"] dec_empty by auto

lemma enc_prefix_free: "enc v @ r = enc w @ s \<Longrightarrow> v = w \<and> r = s"
  using dec_enc [of v r] dec_enc [of w s] by auto

lemma dec_many_enc:
  "dec_many dec (length vs) (concat (map enc vs) @ rest) = Some (vs, length (concat (map enc vs)))"
  by (induction vs) (simp_all add: dec_enc get_from_def)

end

section \<open>Round trips\<close>

lemma low7: "(w AND 0x7F) = take_bit 7 w" "(w AND 0x0F) = take_bit 4 w" for w :: "'a::len word"
  by (simp_all add: take_bit_eq_mask mask_numeral)

lemma byte_below_128: "(b :: u8) < 0x80 \<longleftrightarrow> \<not> bit b 7"
proof -
  have "b < 0x80 \<longleftrightarrow> take_bit 7 b = b" using take_bit_eq_self_less [of 7 b] by simp
  also have "\<dots> \<longleftrightarrow> \<not> bit b 7"
  proof
    show "take_bit 7 b = b \<Longrightarrow> \<not> bit b 7" by (metis bit_take_bit_iff less_irrefl)
    assume "\<not> bit b 7"
    then have "bit b k \<Longrightarrow> k < 7" for k
      using bit_imp_le_length [of b k] by (cases "k = 7") auto
    then show "take_bit 7 b = b" by (intro bit_word_eqI) (auto simp: bit_simps)
  qed
  finally show ?thesis .
qed

lemma bit_128: "bit (0x80 :: u8) k \<longleftrightarrow> k = 7"
proof -
  have "(0x80 :: u8) = push_bit 7 1" by simp
  then show ?thesis by (simp only: bit_push_bit_iff bit_1_iff) auto
qed

lemma continuation_byte:
  fixes v :: "'a::len word"
  shows "\<not> (ucast (take_bit 7 v) OR 0x80 :: u8) < 0x80"
    and "take_bit 7 (ucast (take_bit 7 v) OR 0x80 :: u8) = ucast (take_bit 7 v)"
    and "(ucast (take_bit 7 v) :: u8) < 0x80"
  by (simp_all add: byte_below_128 bit_simps bit_128)
    (rule bit_word_eqI, auto simp: bit_simps bit_128)

lemma ucast_low7:
  fixes v :: "'a::len word"
  shows "(ucast (take_bit 7 (ucast (take_bit 7 v) :: u8)) :: 'a word) = take_bit 7 v"
    and "(ucast (ucast (take_bit 7 v) :: u8) :: 'a word) = take_bit 7 v"
  by (rule bit_word_eqI, auto simp: bit_simps)+

lemma push_bit_split:
  fixes v :: "'a::len word"
  shows "push_bit n v = push_bit n (take_bit 7 v) OR push_bit (n + 7) (drop_bit 7 v)"
    and "push_bit n v = push_bit n (take_bit 7 v) OR push_bit (n + 7) (signed_drop_bit 7 v)"
proof -
  have k: "n + 7 \<le> k \<Longrightarrow> 7 + (k - (n + 7)) = k - n" "n + 7 \<le> k \<Longrightarrow> k - (n + 7) + 7 = k - n"
    "n \<le> k \<Longrightarrow> \<not> n + 7 \<le> k \<Longrightarrow> k - n < 7" "n + 7 \<le> k \<Longrightarrow> \<not> k - n < 7" for k
    by simp_all
  show "push_bit n v = push_bit n (take_bit 7 v) OR push_bit (n + 7) (drop_bit 7 v)"
    by (rule bit_word_eqI, rename_tac k, case_tac "n + 7 \<le> k") (auto simp: bit_simps k)
  show "push_bit n v = push_bit n (take_bit 7 v) OR push_bit (n + 7) (signed_drop_bit 7 v)"
    by (rule bit_word_eqI, rename_tac k, case_tac "n + 7 \<le> k") (auto simp: bit_simps k)
qed

lemma write_u32_last: "drop_bit 7 v = 0 \<Longrightarrow> write_u32 v = [ucast (take_bit 7 v)]"
  and write_u32_more: "drop_bit 7 v \<noteq> 0 \<Longrightarrow> write_u32 v = (ucast (take_bit 7 v) OR 0x80) # write_u32 (drop_bit 7 v)"
  by (subst write_u32.simps, simp add: Let_def low7)+

lemma read_u32_loop_write:
  assumes "unat v < 2 ^ (32 - 7 * k)" and "k \<le> 4"
  shows "read_u32_loop acc (7 * k) i (write_u32 v @ rest) =
    Some (acc OR push_bit (7 * k) v, i + length (write_u32 v))"
  using assms
proof (induction v arbitrary: acc k i rule: write_u32.induct)
  case (1 v)
  have join: "acc OR push_bit (7 * k) (take_bit 7 v) OR push_bit (7 * k + 7) (drop_bit 7 v) =
      acc OR push_bit (7 * k) v"
    by (simp only: push_bit_split(1) [of "7 * k" v] or.assoc)
  show ?case
  proof (cases "drop_bit 7 v = 0")
    case True
    then show ?thesis using join by (simp add: write_u32_last low7 continuation_byte ucast_low7)
  next
    case False
    then have pos: "0 < unat v div 128" by (metis unat_drop_bit_7 unat_gt_0)
    have k: "k \<le> 3"
    proof (rule ccontr)
      assume "\<not> k \<le> 3"
      then have "k = 4" using "1.prems" by simp
      then show False using "1.prems" pos by simp
    qed
    then have "32 - 7 * k = 7 + (32 - 7 * (k + 1))" by simp
    then have "unat v < 2 ^ 7 * 2 ^ (32 - 7 * (k + 1))" using "1.prems" by (simp only: power_add)
    then have fits: "unat (drop_bit 7 v) < 2 ^ (32 - 7 * (k + 1))"
      by (simp add: unat_drop_bit_7 less_mult_imp_div_less mult.commute)
    show ?thesis
      using "1.IH" [OF refl refl, of "k + 1" "acc OR push_bit (7 * k) (take_bit 7 v)" "i + 1"] False fits k join
      by (simp add: write_u32_more low7 continuation_byte ucast_low7 add.commute or.assoc)
  qed
qed

lemma read_u32_write: "read_u32 (write_u32 v @ rest) = Some (v, length (write_u32 v))"
  using read_u32_loop_write [of v 0 0 0 rest] unsigned_less [of v] by (simp add: read_u32_def)

lemma u32_size_length: "u32_size v = length (write_u32 v)"
proof (induction v rule: u32_size.induct)
  case (1 v)
  have "128 \<le> v \<longleftrightarrow> drop_bit 7 v \<noteq> 0"
    using unat_drop_bit_7 [of v] unat_gt_0 [of "drop_bit 7 v"] by (simp add: word_le_nat_alt) linarith
  then show ?case using 1 by (subst u32_size.simps) (simp add: write_u32_last write_u32_more)
qed

text \<open>
  The signed writers: \<open>signed_take_bit m v = v\<close> says that all bits of \<open>v\<close> from \<open>m\<close> on are its sign.
\<close>

lemma sign_bit_set: "(b :: u8) AND 0x40 = 0 \<longleftrightarrow> \<not> bit b 6"
  using and_exp_eq_0_iff_not_bit [of b 6] by simp

lemma sign_bit_byte:
  fixes v :: "'a::len word"
  assumes "7 \<le> LENGTH('a)"
  shows "bit (ucast (take_bit 7 v) :: u8) 6 \<longleftrightarrow> bit v 6"
  using assms by (auto simp: bit_simps)

lemma write_i64_last:
  "signed_drop_bit 7 v = (if bit v 6 then - 1 else 0) \<Longrightarrow> write_i64 v = [ucast (take_bit 7 v)]"
  by (subst write_i64.simps) (simp add: Let_def low7 sign_bit_set sign_bit_byte del: take_bit_minus_one_eq_mask split: if_splits)

lemma write_i64_more:
  "signed_drop_bit 7 v \<noteq> (if bit v 6 then - 1 else 0) \<Longrightarrow>
    write_i64 v = (ucast (take_bit 7 v) OR 0x80) # write_i64 (signed_drop_bit 7 v)"
  by (subst write_i64.simps) (simp add: Let_def low7 sign_bit_set sign_bit_byte split: if_splits)

lemma sar_7_fits:
  fixes v :: i64
  assumes fits: "signed_take_bit m v = v" and m: "m < 64"
  shows "m \<le> 6 \<Longrightarrow> signed_drop_bit 7 v = (if bit v 6 then - 1 else 0)"
    and "7 \<le> m \<Longrightarrow> signed_take_bit (m - 7) (signed_drop_bit 7 v) = signed_drop_bit 7 v"
proof -
  have top: "bit v k \<longleftrightarrow> bit v m" if "m \<le> k" "k < 64" for k
    using arg_cong [OF fits, of "\<lambda>w. bit w k"] that by (simp add: bit_simps min_def split: if_splits)
  have sar: "bit (signed_drop_bit 7 v) k \<longleftrightarrow> bit v (min 63 (k + 7))" if "k < 64" for k
    using that by (cases "k = 56") (simp_all add: bit_signed_drop_bit_iff min_def add.commute del: One_nat_def)
  show "signed_drop_bit 7 v = (if bit v 6 then - 1 else 0)" if low: "m \<le> 6"
  proof (rule bit_word_eqI)
    fix k assume "k < LENGTH(64)"
    then have "bit (signed_drop_bit 7 v) k \<longleftrightarrow> bit v m"
      using sar [of k] top [of "min 63 (k + 7)"] low by simp
    then show "bit (signed_drop_bit 7 v) k = bit (if bit v 6 then - 1 else 0 :: i64) k"
      using top [of 6] low \<open>k < LENGTH(64)\<close> by simp
  qed
  show "signed_take_bit (m - 7) (signed_drop_bit 7 v) = signed_drop_bit 7 v" if high: "7 \<le> m"
  proof (rule bit_word_eqI)
    fix k assume "k < LENGTH(64)"
    then have k: "k < 64" by simp
    have "bit (signed_drop_bit 7 v) (m - 7) \<longleftrightarrow> bit v m" using sar [of "m - 7"] high m by simp
    moreover have "bit (signed_drop_bit 7 v) k \<longleftrightarrow> bit v m" if "m - 7 \<le> k"
      using sar [OF k] top [of "min 63 (k + 7)"] that high m by simp
    ultimately show "bit (signed_take_bit (m - 7) (signed_drop_bit 7 v)) k = bit (signed_drop_bit 7 v) k"
      using k by (cases "m - 7 \<le> k") (simp_all add: bit_signed_take_bit_iff min_def)
  qed
qed

lemma read_signed_loop_write:
  assumes "signed_take_bit m v = v" and "m + shift < limit" and "m + shift < 64"
  shows "read_signed_loop limit acc shift i (write_i64 v @ rest) =
    Some (acc OR push_bit shift v, i + length (write_i64 v))"
  using assms
proof (induction v arbitrary: acc shift m i rule: write_i64.induct)
  case (1 v)
  have join: "acc OR push_bit shift (take_bit 7 v) OR push_bit (shift + 7) (signed_drop_bit 7 v) =
      acc OR push_bit shift v"
    by (simp only: push_bit_split(2) [of shift v] or.assoc)
  show ?case
  proof (cases "signed_drop_bit 7 v = (if bit v 6 then - 1 else 0)")
    case True
    have "push_bit (shift + 7) (- 1 :: i64) = 0" if "\<not> shift < 57"
      using that by (intro bit_word_eqI) (auto simp: bit_simps)
    then have "(if shift < 57 \<and> bit v 6 then acc OR push_bit shift (take_bit 7 v) OR push_bit (shift + 7) (- 1)
        else acc OR push_bit shift (take_bit 7 v)) = acc OR push_bit shift v"
      using True join by (auto simp: or.assoc simp del: push_bit_minus_one push_bit_minus_one_eq_not_mask)
    then show ?thesis using True
      by (simp add: write_i64_last low7 continuation_byte ucast_low7 sign_bit_set sign_bit_byte or.assoc Let_def
          split: if_splits del: push_bit_minus_one push_bit_minus_one_eq_not_mask)
  next
    case False
    then have "\<not> m \<le> 6" using sar_7_fits(1) [OF "1.prems"(1)] "1.prems"(3) by auto
    then have "7 \<le> m" by simp
    then show ?thesis
      using "1.IH" [OF refl refl refl, of "m - 7" "shift + 7" "acc OR push_bit shift (take_bit 7 v)" "i + 1"] 
        False join sar_7_fits(2) [OF "1.prems"(1)] "1.prems"(2,3)
      by (simp add: write_i64_more low7 continuation_byte ucast_low7 or.assoc sign_bit_set sign_bit_byte split: if_splits)
  qed
qed

lemma read_i64_write: "read_i64 (write_i64 v @ rest) = Some (v, length (write_i64 v))"
proof -
  have "min k 63 = k" if "k < 64" for k :: nat using that by simp
  then have "signed_take_bit 63 v = v" by (intro bit_word_eqI) (simp add: bit_simps)
  from read_signed_loop_write [OF this, of 0 70 0 0 rest] show ?thesis by (simp add: read_i64_def)
qed

lemma sint_scast_i64 [simp]: "sint (scast v :: i64) = sint (v :: i32)"
  by (rule sint_up_scast) (simp add: is_up)

lemma scast_sar_7:
  fixes v :: i32
  shows "signed_drop_bit 7 (scast v :: i64) = scast (signed_drop_bit 7 v)"
    and "(ucast (take_bit 7 (scast v :: i64)) :: u8) = ucast (take_bit 7 v)"
    and "bit (scast v :: i64) 6 = bit v 6"
proof -
  have "sint (signed_drop_bit 7 (scast v :: i64)) = sint (scast (signed_drop_bit 7 v) :: i64)"
    by (simp add: sint_signed_drop_bit_eq)
  then show "signed_drop_bit 7 (scast v :: i64) = scast (signed_drop_bit 7 v)" by (rule signed_word_eqI)
  show "(ucast (take_bit 7 (scast v :: i64)) :: u8) = ucast (take_bit 7 v)"
    by (rule bit_word_eqI) (auto simp: bit_simps)
  show "bit (scast v :: i64) 6 = bit v 6"
    by (simp add: bit_simps)
qed

lemma scast_special: "(scast v :: i64) = 0 \<longleftrightarrow> v = 0" "(scast v :: i64) = - 1 \<longleftrightarrow> v = - 1" for v :: i32
  using sint_scast_i64 [of v] by (metis signed_0 signed_word_eqI, metis signed_minus_1 signed_word_eqI)

lemma write_i32_eq: "write_i32 v = write_i64 (scast v)"
proof (induction v rule: write_i32.induct)
  case (1 v)
  show ?case
    using 1 [OF refl refl refl]
    by (subst write_i32.simps, subst write_i64.simps)
      (simp add: Let_def low7 scast_sar_7 scast_special sign_bit_set sign_bit_byte)
qed

lemma read_i32_write: "read_i32 (write_i32 v @ rest) = Some (v, length (write_i32 v))"
proof -
  have "signed_take_bit 31 (scast v :: i64) = scast v"
    by (rule bit_word_eqI) (auto simp: bit_simps min_def)
  from read_signed_loop_write [OF this, of 0 35 0 0 rest] show ?thesis
    by (simp add: read_i32_def write_i32_eq) (rule bit_word_eqI, auto simp: bit_simps)
qed

text \<open>Skipping agrees with reading; the loop looks at ten bytes at most.\<close>

lemma skip_len_loop_signed:
  assumes "read_signed_loop limit acc shift i data = Some (v, n)" and "shift < limit" and "limit \<le> shift + 7 * k"
  shows "skip_len_loop k i data = Some n"
  using assms
proof (induction k arbitrary: acc shift i data)
  case (Suc k)
  show ?case
  proof (cases data)
    case (Cons byte data')
    then show ?thesis using Suc.prems by (auto simp: Let_def split: if_splits intro: Suc.IH)
  qed (use Suc.prems in simp)
qed simp

lemma skip_len_loop_unsigned:
  assumes "read_u32_loop acc shift i data = Some (v, n)" and "shift < 35" and "35 \<le> shift + 7 * k"
  shows "skip_len_loop k i data = Some n"
  using assms
proof (induction k arbitrary: acc shift i data)
  case (Suc k)
  show ?case
  proof (cases data)
    case (Cons byte data')
    then show ?thesis using Suc.prems by (auto simp: Let_def split: if_splits intro: Suc.IH)
  qed (use Suc.prems in simp)
qed simp

lemma skip_len_reads:
  shows "read_u32 data = Some (v, n) \<Longrightarrow> skip_len data = Some n"
    and "read_i64 data = Some (w, n) \<Longrightarrow> skip_len data = Some n"
    and "read_i32 data = Some (x, n) \<Longrightarrow> skip_len data = Some n"
  by (auto simp: read_u32_def read_i64_def read_i32_def skip_len_def
      intro: skip_len_loop_unsigned skip_len_loop_signed)

text \<open>A reader never claims more bytes than there are, and it consumes one at least.\<close>

lemma skip_len_loop_bound: "skip_len_loop k i data = Some n \<Longrightarrow> i < n \<and> n \<le> i + length data \<and> n \<le> i + k"
  by (induction k i data rule: skip_len_loop.induct) (auto split: if_splits)

lemma skip_len_bound:
  assumes "skip_len data = Some n"
  shows "0 < n" and "n \<le> length data" and "n \<le> 10"
  using skip_len_loop_bound [OF assms [unfolded skip_len_def]] by simp_all

lemmas read_u32_bound = skip_len_bound [OF skip_len_reads(1)]

text \<open>Decoding depends only on the bytes it consumes.\<close>

lemma skip_len_loop_local:
  "skip_len_loop k i d = Some n \<Longrightarrow> take (n - i) d' = take (n - i) d \<Longrightarrow> skip_len_loop k i d' = Some n"
proof (induction k i d arbitrary: d' rule: skip_len_loop.induct)
  case (3 k i b d)
  have "i < n" using skip_len_loop_bound [OF "3.prems"(1)] by simp
  then obtain m where n: "n - i = Suc m" "n - (i + 1) = m" by (metis Suc_diff_Suc Suc_eq_plus1)
  then obtain e where "d' = b # e" and "take m e = take m d" using "3.prems"(2) by (cases d') auto
  then show ?case using 3 n by (auto split: if_splits)
qed simp_all

lemma skip_len_local: "skip_len d = Some n \<Longrightarrow> take n d' = take n d \<Longrightarrow> skip_len d' = Some n"
  using skip_len_loop_local [of 10 0 d n d'] by (simp add: skip_len_def)

lemma read_u32_loop_bound: "read_u32_loop acc s i d = Some (v, n) \<Longrightarrow> i < n"
proof (induction acc s i d rule: read_u32_loop.induct)
  case (2 acc s i b d)
  show ?case using "2.prems" "2.IH" [OF refl refl] by (auto simp: Let_def split: if_splits)
qed simp

lemma read_u32_loop_local:
  "read_u32_loop acc s i d = Some (v, n) \<Longrightarrow> take (n - i) d' = take (n - i) d \<Longrightarrow>
    read_u32_loop acc s i d' = Some (v, n)"
proof (induction acc s i d arbitrary: d' rule: read_u32_loop.induct)
  case (2 acc s i b d)
  have "i < n" using read_u32_loop_bound [OF "2.prems"(1)] .
  then obtain m where n: "n - i = Suc m" "n - (i + 1) = m" by (metis Suc_diff_Suc Suc_eq_plus1)
  then obtain e where "d' = b # e" and "take m e = take m d" using "2.prems"(2) by (cases d') auto
  then show ?case using "2.prems"(1) "2.IH" [OF refl refl, of e] n by (simp add: Let_def split: if_splits)
qed simp_all

lemma read_u32_local: "read_u32 d = Some (v, n) \<Longrightarrow> take n d' = take n d \<Longrightarrow> read_u32 d' = Some (v, n)"
  using read_u32_loop_local [of 0 0 0 d v n d'] by (simp add: read_u32_def)

lemma read_u32_append: "read_u32 d = Some (v, n) \<Longrightarrow> read_u32 (d @ r) = Some (v, n)"
  by (rule read_u32_local) (auto dest: read_u32_bound)

section \<open>The codes as prefix codes\<close>

interpretation u32_code: prefix_code write_u32 read_u32
  by (unfold_locales, simp_all add: read_u32_write, simp add: read_u32_def)

interpretation i32_code: prefix_code write_i32 read_i32
  by (unfold_locales, simp_all add: read_i32_write, simp add: read_i32_def)

interpretation i64_code: prefix_code write_i64 read_i64
  by (unfold_locales, simp_all add: read_i64_write, simp add: read_i64_def)

lemma write_u32_le_5: "length (write_u32 v) \<le> 5"
proof -
  have "skip_len_loop 5 0 (write_u32 v) = Some (length (write_u32 v))"
    using skip_len_loop_unsigned [of 0 0 0 "write_u32 v" v _ 5] read_u32_write [of v "[]"]
    by (simp add: read_u32_def)
  then show ?thesis using skip_len_loop_bound by fastforce
qed

section \<open>Padded encodings\<close>

definition padded_bytes :: "u32 \<Rightarrow> bytes" where
  "padded_bytes v =
     [ucast (take_bit 7 v) OR 0x80, ucast (take_bit 7 (drop_bit 7 v)) OR 0x80,
      ucast (take_bit 7 (drop_bit 14 v)) OR 0x80, ucast (take_bit 7 (drop_bit 21 v)) OR 0x80,
      ucast (take_bit 7 (drop_bit 28 v))]"

lemma write_padded_bytes:
  "write_padded_u32 (pre @ [a, b, c, d, e] @ post) (length pre) v = Some (pre @ padded_bytes v @ post)"
proof -
  have "take_bit 7 (drop_bit 28 v) = take_bit 4 (drop_bit 28 v)"
    by (rule bit_word_eqI) (auto simp: bit_simps dest: bit_imp_le_length)
  then show ?thesis
    by (simp add: write_padded_u32_def set_at_def padded_bytes_def low7 list_update_append)
qed

lemma five_elements: "5 \<le> length xs \<Longrightarrow> \<exists>a b c d e ys. xs = a # b # c # d # e # ys"
  by (auto simp: numeral_eq_Suc Suc_le_length_iff)

lemma padded_join:
  "take_bit 7 v OR push_bit 7 (take_bit 7 (drop_bit 7 v)) OR push_bit 14 (take_bit 7 (drop_bit 14 v)) OR
    push_bit 21 (take_bit 7 (drop_bit 21 v)) OR push_bit 28 (take_bit 7 (drop_bit 28 v)) = (v :: u32)"
proof -
  have "drop_bit 35 v = 0" by (rule bit_word_eqI) (auto simp: bit_simps dest: bit_imp_le_length)
  then show ?thesis
    using push_bit_split(1) [of 0 v] push_bit_split(1) [of 7 "drop_bit 7 v"] push_bit_split(1) [of 14 "drop_bit 14 v"]
      push_bit_split(1) [of 21 "drop_bit 21 v"] push_bit_split(1) [of 28 "drop_bit 28 v"]
    by (simp add: drop_bit_drop_bit or.assoc)
qed

lemma read_padded_bytes: "read_padded_u32 (pre @ padded_bytes v @ post) (length pre) = v"
proof -
  have five: "(5 :: nat) = Suc (Suc (Suc (Suc (Suc 0))))" by simp
  show ?thesis
    unfolding read_padded_u32_def five
    by (simp add: padded_bytes_def nth_append low7 continuation_byte ucast_low7 Let_def
        padded_join [unfolded or.assoc [symmetric]])
qed

lemma read_u32_padded_bytes: "read_u32 (padded_bytes v @ post) = Some (v, 5)"
  by (simp add: read_u32_def padded_bytes_def low7 continuation_byte ucast_low7
      padded_join [unfolded or.assoc [symmetric]])

text \<open>
  A padded write into a buffer with room for five bytes succeeds, changes only those five
  bytes, and what it leaves there is read back as the same value both by the padded reader at that
  offset and by the ordinary reader, which consumes exactly the five bytes.
\<close>

theorem padded_roundtrip:
  assumes "offset + 5 \<le> length buf"
  shows "\<exists>buf'. write_padded_u32 buf offset v = Some buf' \<and> same_outside offset (offset + 5) buf buf' \<and>
    read_padded_u32 buf' offset = v \<and> read_u32 (drop offset buf') = Some (v, 5)"
proof -
  define pre where "pre = take offset buf"
  have "5 \<le> length (drop offset buf)" using assms by simp
  then obtain a b c d e post where "drop offset buf = a # b # c # d # e # post"
    using five_elements by blast
  then have buf: "buf = pre @ [a, b, c, d, e] @ post" and off: "offset = length pre"
    using assms append_take_drop_id [of offset buf] by (simp_all add: pre_def)
  have "same_outside offset (offset + 5) buf (pre @ padded_bytes v @ post)"
    by (simp add: same_outside_def buf off padded_bytes_def)
  then show ?thesis
    using write_padded_bytes [of pre a b c d e post v] read_padded_bytes [of pre v post] read_u32_padded_bytes [of v post]
    by (simp add: buf off)
qed

theorem padded_roundtrip_witness:
  "write_padded_u32 [9, 0, 0, 0, 0, 0, 7] 1 300 = Some [9, 0xAC, 0x82, 0x80, 0x80, 0, 7] \<and>
    read_padded_u32 [9, 0xAC, 0x82, 0x80, 0x80, 0, 7] 1 = 300"
proof -
  have w: "write_padded_u32 [9, 0, 0, 0, 0, 0, 7] 1 300 = Some [9, 0xAC, 0x82, 0x80, 0x80, 0, 7]"
    by code_simp
  then show ?thesis using padded_roundtrip [of 1 "[9, 0, 0, 0, 0, 0, 7]" 300] by simp
qed

text \<open>
  The three variable-length codes are prefix codes: a sequence of values written one after the
  other is read back as the same sequence, consuming exactly the bytes written, whatever follows.
\<close>

theorem leb128_sequences_roundtrip:
  "dec_many read_u32 (length us) (concat (map write_u32 us) @ rest) = Some (us, length (concat (map write_u32 us))) \<and>
   dec_many read_i32 (length is) (concat (map write_i32 is) @ rest) = Some (is, length (concat (map write_i32 is))) \<and>
   dec_many read_i64 (length ls) (concat (map write_i64 ls) @ rest) = Some (ls, length (concat (map write_i64 ls)))"
  by (intro conjI u32_code.dec_many_enc i32_code.dec_many_enc i64_code.dec_many_enc)

end
