(* ===== verification/Opcode.thy ===== *)
theory Opcode
  imports Leb128
begin

text \<open>
  Model of \<open>wilt/src/opcode.rs\<close>, the instruction decoder that every pass of the WebAssembly optimiser
  shares: the length of an instruction with its immediates, and the iterator over a function body.
  The results: the walker makes progress and tiles the body, every decoded instruction is determined by
  its own bytes, and walking a concatenation of byte strings that each decode completely gives their offsets. That
  these are the instructions of WebAssembly is shown in \<open>Wasm_Grammar\<close>.
\<close>

section \<open>Lengths\<close>

definition valtype_len :: "bytes \<Rightarrow> nat \<Rightarrow> nat option" where
  "valtype_len bs off =
     do {
       v \<leftarrow> get bs off;
       if 0x7B \<le> v \<and> v \<le> 0x7F then Some 1
       else if v \<in> {0x6F, 0x70} then Some 1
       else None
     }"

text \<open>\<open>leb128::read_u32(bytes.get(off..)?)?\<close>, and the number of bytes it consumed.\<close>

definition leb_at :: "bytes \<Rightarrow> nat \<Rightarrow> (u32 \<times> nat) option" where
  "leb_at bs off = do { r \<leftarrow> get_from bs off; read_u32 r }"

fun skip_locals_loop :: "nat \<Rightarrow> bytes \<Rightarrow> nat \<Rightarrow> nat option" where
  "skip_locals_loop 0 body off = Some off"
| "skip_locals_loop (Suc n) body off =
     do {
       (_, c) \<leftarrow> leb_at body off;
       t \<leftarrow> valtype_len body (off + c);
       skip_locals_loop n body (off + c + t)
     }"

definition skip_locals :: "bytes \<Rightarrow> nat option" where
  "skip_locals body = do { (count, off) \<leftarrow> read_u32 body; skip_locals_loop (unat count) body off }"

text \<open>A run of \<open>k\<close> LEB128 immediates, and one of value types, starting at an offset of the immediates.\<close>

fun skip_lebs :: "nat \<Rightarrow> bytes \<Rightarrow> nat \<Rightarrow> nat option" where
  "skip_lebs 0 rest c = Some c"
| "skip_lebs (Suc k) rest c = do { (_, n) \<leftarrow> leb_at rest c; skip_lebs k rest (c + n) }"

fun skip_valtypes :: "nat \<Rightarrow> bytes \<Rightarrow> nat \<Rightarrow> nat option" where
  "skip_valtypes 0 rest c = Some c"
| "skip_valtypes (Suc k) rest c = do { n \<leftarrow> valtype_len rest c; skip_valtypes k rest (c + n) }"

text \<open>The immediates after the prefix \<open>0xFC\<close> and its sub-opcode, from the offset behind the sub-opcode.\<close>

definition fc_extra :: "u32 \<Rightarrow> bytes \<Rightarrow> nat option" where
  "fc_extra sub after_sub =
     (if sub \<le> 0x07 then Some 0
      else if sub = 0x08 then do { (_, c1) \<leftarrow> read_u32 after_sub; Some (c1 + 1) }
      else if sub = 0x09 then skip_lebs 1 after_sub 0
      else if sub = 0x0A then skip_lebs 2 after_sub 0
      else if sub = 0x0B then skip_lebs 1 after_sub 0
      else if sub = 0x0C then skip_lebs 2 after_sub 0
      else if sub = 0x0D then skip_lebs 1 after_sub 0
      else if sub = 0x0E then skip_lebs 2 after_sub 0
      else if 0x0F \<le> sub \<and> sub \<le> 0x11 then skip_lebs 1 after_sub 0
      else None)"

definition fb_extra :: "u32 \<Rightarrow> bytes \<Rightarrow> nat option" where
  "fb_extra sub after_sub =
     (if sub \<in> {0x00, 0x01, 0x06, 0x07, 0x0B, 0x0C, 0x0D, 0x0E, 0x10} then skip_lebs 1 after_sub 0
      else if sub \<in> {0x02, 0x03, 0x04, 0x05, 0x08, 0x09, 0x0A, 0x11, 0x12, 0x13} then skip_lebs 2 after_sub 0
      else if sub = 0x0F then Some 0
      else if 0x14 \<le> sub \<and> sub \<le> 0x17 then skip_lebs 1 after_sub 0
      else if sub \<in> {0x18, 0x19} then skip_lebs 3 after_sub 1
      else if 0x1A \<le> sub \<and> sub \<le> 0x1E then Some 0
      else None)"

definition prefixed :: "(u32 \<Rightarrow> bytes \<Rightarrow> nat option) \<Rightarrow> bytes \<Rightarrow> nat option" where
  "prefixed extra_of rest =
     do {
       (sub, c) \<leftarrow> read_u32 rest;
       after_sub \<leftarrow> get_from rest c;
       extra \<leftarrow> extra_of sub after_sub;
       Some (c + extra)
     }"

definition br_table_imm :: "bytes \<Rightarrow> nat option" where
  "br_table_imm rest = do { (n, c) \<leftarrow> read_u32 rest; skip_lebs (unat n + 1) rest c }"

definition select_imm :: "bytes \<Rightarrow> nat option" where
  "select_imm rest = do { (n, c) \<leftarrow> read_u32 rest; skip_valtypes (unat n) rest c }"

definition memarg_imm :: "bytes \<Rightarrow> nat option" where
  "memarg_imm rest =
     do {
       (align, c1) \<leftarrow> read_u32 rest;
       total \<leftarrow> (if align AND 0x40 \<noteq> 0 then skip_lebs 1 rest c1 else Some c1);
       skip_lebs 1 rest total
     }"

definition instr_imm :: "u8 \<Rightarrow> bytes \<Rightarrow> nat option" where
  "instr_imm op rest =
     (if op \<in> {0x00, 0x01, 0x05, 0x0B, 0x0F, 0x1A, 0x1B} \<or> 0x45 \<le> op \<and> op \<le> 0xC4 \<or> op \<in> {0xD1, 0xD3, 0xD4}
      then Some 0
      else if 0x02 \<le> op \<and> op \<le> 0x04 then skip_lebs 1 rest 0
      else if op \<in> {0x0C, 0x0D, 0x10, 0x20, 0x21, 0x22, 0x23, 0x24, 0x25, 0x26, 0xD2, 0xD5, 0xD6}
      then skip_lebs 1 rest 0
      else if op = 0x0E then br_table_imm rest
      else if op = 0x11 then skip_lebs 2 rest 0
      else if op = 0x1C then select_imm rest
      else if 0x28 \<le> op \<and> op \<le> 0x3E then memarg_imm rest
      else if op \<in> {0x3F, 0x40} then Some 1
      else if op \<in> {0x41, 0x42} then skip_len rest
      else if op = 0x43 then Some 4
      else if op = 0x44 then Some 8
      else if op = 0xD0 then skip_lebs 1 rest 0
      else if op = 0xFC then prefixed fc_extra rest
      else if op = 0xFB then prefixed fb_extra rest
      else None)"

definition instr_len :: "bytes \<Rightarrow> nat \<Rightarrow> nat option" where
  "instr_len body pos =
     do {
       op \<leftarrow> get body pos;
       rest \<leftarrow> get_from body (pos + 1);
       imm \<leftarrow> instr_imm op rest;
       Some (1 + imm)
     }"

section \<open>The instruction iterator\<close>

record instr_iter =
  it_body :: bytes
  it_pos :: nat
  it_failed :: bool

definition instr_iter_new :: "bytes \<Rightarrow> nat \<Rightarrow> instr_iter" where
  "instr_iter_new b start = \<lparr>it_body = b, it_pos = start, it_failed = False\<rparr>"

definition instr_next :: "instr_iter \<Rightarrow> (nat \<times> nat) option \<times> instr_iter" where
  "instr_next it =
     (if it_failed it \<or> length (it_body it) \<le> it_pos it then (None, it)
      else case instr_len (it_body it) (it_pos it) of
        Some n \<Rightarrow> (Some (it_pos it, n), it\<lparr>it_pos := it_pos it + n\<rparr>)
      | None \<Rightarrow> (None, it\<lparr>it_failed := True\<rparr>))"

lemma instr_len_pos: "instr_len b p = Some n \<Longrightarrow> 0 < n"
  by (auto simp: instr_len_def split: bind_splits)

lemma instr_next_progress:
  "instr_next it = (Some (p, n), it') \<Longrightarrow>
    p = it_pos it \<and> p < length (it_body it) \<and> 0 < n \<and> it_pos it' = p + n \<and> it_body it' = it_body it \<and> it_failed it' = it_failed it \<and>
    instr_len (it_body it) p = Some n"
  by (auto simp: instr_next_def dest: instr_len_pos split: if_splits option.splits)

text \<open>The \<open>for\<close> loop over the iterator collects its items and keeps the iterator's final state.\<close>

function walk_loop :: "instr_iter \<Rightarrow> (nat \<times> nat) list \<times> instr_iter" where
  "walk_loop it =
     (case instr_next it of
        (None, it') \<Rightarrow> ([], it')
      | (Some item, it') \<Rightarrow> let (items, it'') = walk_loop it' in (item # items, it''))"
  by pat_completeness auto
termination
proof (relation "measure (\<lambda>it. length (it_body it) - it_pos it)")
  fix it o' it' item
  assume "(o', it') = instr_next it" and "o' = Some item"
  then show "(it', it) \<in> measure (\<lambda>it. length (it_body it) - it_pos it)"
    using instr_next_progress [of it "fst item" "snd item" it'] by auto
qed simp

declare walk_loop.simps [simp del]

definition walk :: "bytes \<Rightarrow> nat \<Rightarrow> (nat \<times> nat) list option" where
  "walk b start =
     (let (items, it) = walk_loop (instr_iter_new b start)
      in if it_failed it then None else Some items)"

section \<open>Decoding depends on the decoded bytes only\<close>

lemma leb_at_bound: "leb_at d c = Some (v, n) \<Longrightarrow> 0 < n \<and> c + n \<le> length d"
  using read_u32_bound [of "drop c d" v n] by (auto simp: leb_at_def get_from_def split: bind_splits if_splits)

lemma take_eq_mono: "take n d' = take n d \<Longrightarrow> m \<le> n \<Longrightarrow> take m d' = take m d"
  by (metis min.absorb2 min.commute take_take)

lemma take_eq_drop: "take n d' = take n d \<Longrightarrow> c + m \<le> n \<Longrightarrow> take m (drop c d') = take m (drop c d)"
  by (metis add.commute take_drop take_eq_mono)

lemma take_eq_length: "take n d' = take n d \<Longrightarrow> n \<le> length d \<Longrightarrow> n \<le> length d'"
  by (metis length_take min.absorb_iff1 min.commute)

lemma leb_at_local:
  assumes "leb_at d c = Some (v, m)" and "take n d' = take n d" and "c + m \<le> n"
  shows "leb_at d' c = Some (v, m)"
proof -
  have eq: "take (c + m) d' = take (c + m) d" using assms(2,3) by (rule take_eq_mono)
  then have "c + m \<le> length d'" using leb_at_bound [OF assms(1)] by (simp add: take_eq_length)
  moreover have "read_u32 (drop c d) = Some (v, m)"
    using assms(1) by (auto simp: leb_at_def get_from_def split: if_splits)
  then have "read_u32 (drop c d') = Some (v, m)" by (rule read_u32_local) (rule take_eq_drop [OF eq], simp)
  ultimately show ?thesis by (simp add: leb_at_def get_from_def)
qed

lemma skip_lebs_bound: "skip_lebs k d c = Some n \<Longrightarrow> c \<le> n \<and> (0 < k \<longrightarrow> n \<le> length d)"
proof (induction k arbitrary: c)
  case (Suc k)
  from Suc.prems(1) obtain v m where "leb_at d c = Some (v, m)" and "skip_lebs k d (c + m) = Some n"
    by (auto split: bind_splits)
  then show ?case using Suc.IH [of "c + m"] leb_at_bound [of d c v m] by (cases k) auto
qed simp

lemma skip_lebs_local:
  "skip_lebs k d c = Some n \<Longrightarrow> take n d' = take n d \<Longrightarrow> skip_lebs k d' c = Some n"
proof (induction k arbitrary: c)
  case (Suc k)
  from Suc.prems(1) obtain v m where l: "leb_at d c = Some (v, m)" and r: "skip_lebs k d (c + m) = Some n"
    by (auto split: bind_splits)
  then have "leb_at d' c = Some (v, m)" using leb_at_local [OF l Suc.prems(2)] skip_lebs_bound [OF r] by simp
  then show ?case using Suc.IH [OF r Suc.prems(2)] by simp
qed simp

lemma valtype_len_bound: "valtype_len d c = Some m \<Longrightarrow> m = 1 \<and> c < length d"
  by (auto simp: valtype_len_def get_def split: bind_splits if_splits)

lemma skip_valtypes_bound: "skip_valtypes k d c = Some n \<Longrightarrow> n = c + k \<and> (0 < k \<longrightarrow> n \<le> length d)"
proof (induction k arbitrary: c)
  case (Suc k)
  from Suc.prems obtain m where l: "valtype_len d c = Some m" and r: "skip_valtypes k d (c + m) = Some n"
    by (auto split: bind_splits)
  show ?case using Suc.IH [OF r] valtype_len_bound [OF l] by (cases k) (use r in auto)
qed simp

lemma valtype_len_local:
  assumes "valtype_len d c = Some m" and "take n d' = take n d" and "c < n"
  shows "valtype_len d' c = Some m"
proof -
  have "c < length d" using valtype_len_bound [OF assms(1)] by simp
  moreover have "take (Suc c) d' = take (Suc c) d" using assms(2,3) by (intro take_eq_mono [OF assms(2)]) simp
  ultimately have "c < length d'" and "d' ! c = d ! c"
    by (metis Suc_le_eq take_eq_length, metis lessI nth_take)
  then show ?thesis using assms(1) \<open>c < length d\<close> by (simp add: valtype_len_def get_def)
qed

lemma skip_valtypes_local:
  "skip_valtypes k d c = Some n \<Longrightarrow> take n d' = take n d \<Longrightarrow> skip_valtypes k d' c = Some n"
proof (induction k arbitrary: c)
  case (Suc k)
  from Suc.prems(1) obtain m where l: "valtype_len d c = Some m" and r: "skip_valtypes k d (c + m) = Some n"
    by (auto split: bind_splits)
  then have "c < n" using skip_valtypes_bound [OF r] valtype_len_bound [OF l] by simp
  then have "valtype_len d' c = Some m" using valtype_len_local [OF l Suc.prems(2)] by simp
  then show ?case using Suc.IH [OF r Suc.prems(2)] by simp
qed simp

text \<open>
  A length function is self-delimiting when it makes progress and looks only at the bytes that it
  counts. Sequences over such a code can be cut and reassembled.
\<close>

locale self_delimiting =
  fixes len :: "bytes \<Rightarrow> nat option"
  assumes len_pos: "len d = Some n \<Longrightarrow> 0 < n"
    and len_local: "len d = Some n \<Longrightarrow> n \<le> length d \<Longrightarrow> take n d' = take n d \<Longrightarrow> len d' = Some n"
begin

lemma len_append: "len b = Some (length b) \<Longrightarrow> len (b @ r) = Some (length b)"
  using len_local [of b "length b" "b @ r"] by simp

lemma len_take: "len d = Some n \<Longrightarrow> n \<le> length d \<Longrightarrow> len (take n d) = Some (length (take n d))"
  using len_local [of d n "take n d"] by simp

lemma complete_nonempty: "len b = Some (length b) \<Longrightarrow> b \<noteq> []"
  using len_pos by fastforce

lemma complete_prefix_free:
  assumes "len b = Some (length b)" and "len c = Some (length c)" and "b @ r = c @ s"
  shows "b = c \<and> r = s"
  using len_append [OF assms(1), of r] len_append [OF assms(2), of s] assms(3) by simp

lemma concat_unique:
  "\<forall>b\<in>set bs. len b = Some (length b) \<Longrightarrow> \<forall>c\<in>set cs. len c = Some (length c) \<Longrightarrow>
    concat bs = concat cs \<Longrightarrow> bs = cs"
proof (induction bs arbitrary: cs)
  case Nil
  then show ?case by (cases cs) (auto dest: len_pos)
next
  case (Cons b bs)
  then show ?case
  proof (cases cs)
    case (Cons c cs')
    then show ?thesis using Cons.prems complete_prefix_free [of b c "concat bs" "concat cs'"] Cons.IH [of cs'] by simp
  qed (auto dest: len_pos)
qed

end

text \<open>
  A length function is \<open>stable\<close> when agreeing on the counted bytes is enough for the same length. The
  rules compose along the branches of the decoder.
\<close>

named_theorems stable_intros \<open>stable length functions\<close>

definition stable :: "(bytes \<Rightarrow> nat option) \<Rightarrow> bool" where
  "stable f \<longleftrightarrow> (\<forall>d d' n. f d = Some n \<longrightarrow> take n d' = take n d \<longrightarrow> f d' = Some n)"

lemma stableI: "(\<And>d d' n. f d = Some n \<Longrightarrow> take n d' = take n d \<Longrightarrow> f d' = Some n) \<Longrightarrow> stable f"
  unfolding stable_def by blast

lemma stableD: "stable f \<Longrightarrow> f d = Some n \<Longrightarrow> take n d' = take n d \<Longrightarrow> f d' = Some n"
  unfolding stable_def by blast

lemma stable_const [stable_intros]: "stable (\<lambda>_. r)"
  by (rule stableI)

lemma stable_if [stable_intros]: "stable f \<Longrightarrow> stable g \<Longrightarrow> stable (\<lambda>d. if b then f d else g d)"
  by (cases b) simp_all

lemma stable_skip_lebs [stable_intros]: "stable (\<lambda>d. skip_lebs k d c)"
  by (rule stableI) (rule skip_lebs_local)

lemma stable_skip_len [stable_intros]: "stable skip_len"
  by (rule stableI) (rule skip_len_local)

lemma stable_read_succ [stable_intros]: "stable (\<lambda>d. do { (_, c) \<leftarrow> read_u32 d; Some (c + 1) })"
proof (rule stableI)
  fix d d' :: bytes and n
  assume "do { (_, c) \<leftarrow> read_u32 d; Some (c + 1) } = Some n" and eq: "take n d' = take n d"
  then obtain v c where r: "read_u32 d = Some (v, c)" and n: "n = c + 1"
    by (auto split: bind_splits)
  have "read_u32 d' = Some (v, c)"
    using take_eq_mono [OF eq, of c] by (intro read_u32_local [OF r]) (simp add: n)
  then show "do { (_, c) \<leftarrow> read_u32 d'; Some (c + 1) } = Some n" by (simp add: n)
qed

lemma stable_extra [stable_intros]: "stable (fc_extra sub)" "stable (fb_extra sub)"
  unfolding fc_extra_def [abs_def] fb_extra_def [abs_def] by (intro stable_intros)+

lemma stable_prefixed [stable_intros]:
  assumes "\<And>sub. stable (extra_of sub)"
  shows "stable (prefixed extra_of)"
proof (rule stableI)
  fix d d' n
  assume "prefixed extra_of d = Some n" and eq: "take n d' = take n d"
  then obtain sub c extra where r: "read_u32 d = Some (sub, c)" and e: "extra_of sub (drop c d) = Some extra"
    and n: "n = c + extra"
    by (auto simp: prefixed_def get_from_def split: bind_splits if_splits)
  have c: "take c d' = take c d" using take_eq_mono [OF eq] n by simp
  have "read_u32 d' = Some (sub, c)" by (rule read_u32_local [OF r c])
  moreover have "c \<le> length d'" using take_eq_length [OF c] read_u32_bound [OF r] by simp
  moreover have "extra_of sub (drop c d') = Some extra"
    using take_eq_drop [OF eq] n by (intro stableD [OF assms e]) simp
  ultimately show "prefixed extra_of d' = Some n" by (simp add: prefixed_def get_from_def n)
qed

text \<open>An immediate that starts with one LEB128 value and continues in a way that this value selects.\<close>

lemma stable_counted:
  assumes "\<And>v c n d. k v d c = Some n \<Longrightarrow> c \<le> n" and "\<And>v c. stable (\<lambda>d. k v d c)"
  shows "stable (\<lambda>d. do { (v, c) \<leftarrow> read_u32 d; k v d c })"
proof (rule stableI)
  fix d d' n
  assume "do { (v, c) \<leftarrow> read_u32 d; k v d c } = Some n" and eq: "take n d' = take n d"
  then obtain v c where r: "read_u32 d = Some (v, c)" and k: "k v d c = Some n"
    by (auto split: bind_splits)
  have "read_u32 d' = Some (v, c)" using take_eq_mono [OF eq assms(1) [OF k]] by (rule read_u32_local [OF r])
  then show "do { (v, c) \<leftarrow> read_u32 d'; k v d' c } = Some n" using stableD [OF assms(2) k eq] by simp
qed

lemma stable_br_table [stable_intros]: "stable br_table_imm"
  unfolding br_table_imm_def [abs_def]
  by (rule stable_counted, drule skip_lebs_bound, simp, rule stable_skip_lebs)

lemma stable_select [stable_intros]: "stable select_imm"
  unfolding select_imm_def [abs_def]
  by (rule stable_counted, drule skip_valtypes_bound, simp, rule stableI, rule skip_valtypes_local)

lemma memarg_rest_lebs:
  "do { total \<leftarrow> (if a then skip_lebs 1 rest c1 else Some c1); skip_lebs 1 rest total } =
    skip_lebs (if a then 2 else 1) rest c1"
  by (cases "leb_at rest c1") (auto simp: numeral_2_eq_2)

lemma stable_memarg [stable_intros]: "stable memarg_imm"
  unfolding memarg_imm_def [abs_def] memarg_rest_lebs
  by (rule stable_counted, drule skip_lebs_bound, simp, rule stable_skip_lebs)

lemma stable_instr_imm: "stable (instr_imm op)"
  unfolding instr_imm_def [abs_def] by (intro stable_intros)

lemma instr_len_drop: "p \<le> length b \<Longrightarrow> instr_len b p = instr_len (drop p b) 0"
  by (cases "p < length b") (simp_all add: instr_len_def get_def get_from_def add.commute Suc_le_eq)

lemma instr_len_local:
  assumes "instr_len d 0 = Some n" and "n \<le> length d" and "take n d' = take n d"
  shows "instr_len d' 0 = Some n"
proof -
  obtain op rest imm where d: "d = op # rest" and i: "instr_imm op rest = Some imm" and n: "n = Suc imm"
    using assms(1) by (cases d) (auto simp: instr_len_def get_def get_from_def split: bind_splits)
  obtain rest' where d': "d' = op # rest'" and "take imm rest' = take imm rest"
    using assms(3) by (cases d') (auto simp: d n)
  then have "instr_imm op rest' = Some imm" by (intro stableD [OF stable_instr_imm i])
  then show ?thesis by (simp add: instr_len_def get_def get_from_def d' n)
qed

interpretation instr_code: self_delimiting "\<lambda>d. instr_len d 0"
  by (unfold_locales, erule instr_len_pos, rule instr_len_local)

interpretation leb_code: self_delimiting skip_len
  by (unfold_locales, erule skip_len_bound(1), rule skip_len_local)

section \<open>Walking a body\<close>

fun offsets :: "nat \<Rightarrow> bytes list \<Rightarrow> (nat \<times> nat) list" where
  "offsets s [] = []"
| "offsets s (b # bs) = (s, length b) # offsets (s + length b) bs"

fun tiles :: "nat \<Rightarrow> (nat \<times> nat) list \<Rightarrow> nat \<Rightarrow> bool" where
  "tiles s [] e \<longleftrightarrow> s = e"
| "tiles s ((p, n) # items) e \<longleftrightarrow> p = s \<and> tiles (s + n) items e"

abbreviation complete_instr :: "bytes \<Rightarrow> bool" where
  "complete_instr b \<equiv> instr_len b 0 = Some (length b)"

lemma tiles_offsets: "tiles s (offsets s bs) (s + length (concat bs))"
  by (induction bs arbitrary: s) (simp_all add: add.assoc [symmetric])

lemma tiles_le: "tiles s items e \<Longrightarrow> s \<le> e"
  by (induction s items e rule: tiles.induct) auto

lemma walk_loop_concat:
  "\<forall>b\<in>set bs. complete_instr b \<Longrightarrow>
    walk_loop \<lparr>it_body = pre @ concat bs, it_pos = length pre, it_failed = False\<rparr> =
      (offsets (length pre) bs, \<lparr>it_body = pre @ concat bs, it_pos = length pre + length (concat bs), it_failed = False\<rparr>)"
proof (induction bs arbitrary: pre)
  case Nil
  then show ?case by (subst walk_loop.simps) (simp add: instr_next_def)
next
  case (Cons b bs)
  have "instr_len (pre @ b @ concat bs) (length pre) = Some (length b)"
    using instr_code.len_append [of b "concat bs"] Cons.prems instr_len_drop [of "length pre" "pre @ b @ concat bs"] by simp
  moreover have "b \<noteq> []" using Cons.prems instr_code.complete_nonempty by simp
  ultimately show ?case
    using Cons.IH [of "pre @ b"] Cons.prems
    by (subst walk_loop.simps) (simp add: instr_next_def add.assoc)
qed

lemma walk_loop_tiles:
  assumes "walk_loop it = (items, it')" and "\<not> it_failed it'" and "it_pos it \<le> length (it_body it)"
  shows "tiles (it_pos it) items (it_pos it') \<and> length (it_body it) \<le> it_pos it' \<and>
    (\<forall>(p, n)\<in>set items. p < length (it_body it) \<and> instr_len (it_body it) p = Some n)"
  using assms
proof (induction it arbitrary: items rule: walk_loop.induct)
  case (1 it)
  show ?case
  proof (cases "instr_next it")
    case (Pair o1 it1)
    show ?thesis
    proof (cases o1)
      case None
      then show ?thesis using "1.prems" Pair
        by (subst (asm) walk_loop.simps) (auto simp: instr_next_def split: if_splits option.splits)
    next
      case (Some item)
      obtain p n where item: "item = (p, n)" by (cases item)
      obtain items1 where w: "walk_loop it1 = (items1, it')" and items: "items = (p, n) # items1"
        using "1.prems"(1) Pair Some item by (subst (asm) walk_loop.simps) (auto split: prod.splits)
      note step = instr_next_progress [OF Pair [unfolded Some item]]
      show ?thesis
      proof (cases "it_pos it1 \<le> length (it_body it1)")
        case True
        show ?thesis
          using "1.IH" [OF Pair [symmetric] Some w "1.prems"(2) True] step by (auto simp: items)
      next
        case False
        then have "items1 = []" and "it' = it1"
          using w by (subst (asm) walk_loop.simps, auto simp: instr_next_def)+
        then show ?thesis using step False by (auto simp: items)
      qed
    qed
  qed
qed

lemma tiles_slices:
  "tiles s items (length b) \<Longrightarrow> \<forall>(p, n)\<in>set items. instr_len b p = Some n \<Longrightarrow> s \<le> length b \<Longrightarrow>
    \<exists>bs. (\<forall>c\<in>set bs. complete_instr c) \<and> drop s b = concat bs \<and> items = offsets s bs"
proof (induction s items "length b" rule: tiles.induct)
  case (1 s)
  then show ?case by (intro exI [of _ "[]"]) simp
next
  case (2 s p n items)
  have le: "s + n \<le> length b"
    using "2.prems"(1) tiles_le by auto
  have i: "instr_len b s = Some n" using "2.prems"(1,2) by simp
  obtain bs where bs: "\<forall>c\<in>set bs. complete_instr c" "drop (s + n) b = concat bs" "items = offsets (s + n) bs"
    using "2.hyps" [OF _ _ le] "2.prems"(1,2) by auto
  have "complete_instr (take n (drop s b))"
    using instr_code.len_take [of "drop s b" n] i le instr_len_drop [of s b] by simp
  moreover have "drop s b = take n (drop s b) @ concat bs"
    using bs(2) by (metis add.commute append_take_drop_id drop_drop)
  ultimately show ?case using bs(1,3) "2.prems"(1) le
    by (intro exI [of _ "take n (drop s b) # bs"]) simp
qed

lemma walk_instructions:
  assumes "start \<le> length b"
  shows "walk b start = Some items \<and> tiles start items (length b) \<longleftrightarrow>
    (\<exists>bs. (\<forall>c\<in>set bs. complete_instr c) \<and> drop start b = concat bs \<and> items = offsets start bs)"
proof
  assume w: "walk b start = Some items \<and> tiles start items (length b)"
  then obtain it' where "walk_loop (instr_iter_new b start) = (items, it')" and "\<not> it_failed it'"
    by (auto simp: walk_def split: prod.splits if_splits)
  from walk_loop_tiles [OF this] have "\<forall>(p, n)\<in>set items. instr_len b p = Some n"
    using assms by (auto simp: instr_iter_new_def)
  then show "\<exists>bs. (\<forall>c\<in>set bs. complete_instr c) \<and> drop start b = concat bs \<and> items = offsets start bs"
    using w assms by (intro tiles_slices) auto
next
  assume "\<exists>bs. (\<forall>c\<in>set bs. complete_instr c) \<and> drop start b = concat bs \<and> items = offsets start bs"
  then obtain bs where c: "\<forall>c\<in>set bs. complete_instr c" and d: "drop start b = concat bs" and i: "items = offsets start bs"
    by blast
  have b: "b = take start b @ concat bs" and l: "length (take start b) = start"
    using assms by (simp_all add: d [symmetric])
  have "walk b start = Some items"
    using walk_loop_concat [OF c, of "take start b"] i l b by (simp add: walk_def instr_iter_new_def)
  moreover have "tiles start items (length b)"
    using tiles_offsets [of start bs] i assms arg_cong [OF d, of length] by (simp del: length_concat flip: d)
  ultimately show "walk b start = Some items \<and> tiles start items (length b)" ..
qed

end
