(* ===== verification/Wasm_Module.thy ===== *)
theory Wasm_Module
  imports Opcode
begin

text \<open>
  Model of \<open>wilt/src/module.rs\<close> and \<open>wilt/src/emit.rs\<close>: the section table of a WebAssembly module, the
  views that the passes read (function bodies, exports, start function), and the emitter that splices
  new section payloads into the original bytes. Positions are \<open>usize\<close> values; spans store them as
  32-bit words, as the code does.
\<close>

section \<open>Data\<close>

record span =
  sp_offset :: u32
  sp_len :: u32

text \<open>\<open>Span::slice\<close>: the end is computed in 32 bits; a range outside the buffer panics.\<close>

definition span_slice :: "span \<Rightarrow> bytes \<Rightarrow> bytes option" where
  "span_slice s data = get_range data (unat (sp_offset s)) (unat (sp_offset s + sp_len s))"

record wsection =
  sec_id :: u8
  sec_payload :: span
  sec_full :: span
  sec_custom_name :: "span option"

record function_body =
  fb_full :: span
  fb_body :: span

record wasm_module =
  wm_data :: bytes
  wm_sections :: "wsection list"
  wm_function_bodies :: "function_body list option"

definition SECTION_CUSTOM :: u8 where "SECTION_CUSTOM = 0"
definition SECTION_TYPE :: u8 where "SECTION_TYPE = 1"
definition SECTION_IMPORT :: u8 where "SECTION_IMPORT = 2"
definition SECTION_FUNCTION :: u8 where "SECTION_FUNCTION = 3"
definition SECTION_TABLE :: u8 where "SECTION_TABLE = 4"
definition SECTION_GLOBAL :: u8 where "SECTION_GLOBAL = 6"
definition SECTION_EXPORT :: u8 where "SECTION_EXPORT = 7"
definition SECTION_START :: u8 where "SECTION_START = 8"
definition SECTION_ELEMENT :: u8 where "SECTION_ELEMENT = 9"
definition SECTION_CODE :: u8 where "SECTION_CODE = 10"
definition SECTION_DATA :: u8 where "SECTION_DATA = 11"

section \<open>Parsing the section table\<close>

text \<open>One turn of the loop: the section that starts at \<open>pos\<close>, and the position behind it.\<close>

definition custom_name_at :: "bytes \<Rightarrow> u8 \<Rightarrow> nat \<Rightarrow> nat \<Rightarrow> span option" where
  "custom_name_at data sid pos sz =
     (if sid = SECTION_CUSTOM then
        do {
          pl \<leftarrow> get_range data pos (pos + sz);
          (name_len, name_consumed) \<leftarrow> read_u32 pl;
          Some \<lparr>sp_offset = of_nat (pos + name_consumed), sp_len = name_len\<rparr>
        }
      else None)"

definition parse_section :: "bytes \<Rightarrow> nat \<Rightarrow> string + wsection \<times> nat" where
  "parse_section data start =
     (case read_u32 (drop (start + 1) data) of
        None \<Rightarrow> Inl ''bad section size''
      | Some (sz, consumed) \<Rightarrow>
          (let sid = data ! start; pos = start + 1 + consumed in
           if length data < pos + unat sz then Inl ''section extends past end of file''
           else Inr
             (\<lparr>sec_id = sid,
               sec_payload = \<lparr>sp_offset = of_nat pos, sp_len = sz\<rparr>,
               sec_full = \<lparr>sp_offset = of_nat start, sp_len = of_nat (pos + unat sz - start)\<rparr>,
               sec_custom_name = custom_name_at data sid pos (unat sz)\<rparr>,
              pos + unat sz)))"

lemma parse_section_progress:
  "parse_section data start = Inr (s, pos) \<Longrightarrow> start < pos \<and> pos \<le> length data"
  by (auto simp: parse_section_def Let_def split: option.splits if_splits)

function parse_sections :: "bytes \<Rightarrow> nat \<Rightarrow> string + wsection list" where
  "parse_sections data pos =
     (if pos < length data then
        (case parse_section data pos of
           Inl e \<Rightarrow> Inl e
         | Inr (s, pos') \<Rightarrow>
             (case parse_sections data pos' of
                Inl e \<Rightarrow> Inl e
              | Inr ss \<Rightarrow> Inr (s # ss)))
      else if pos \<noteq> length data then Inl ''trailing bytes after last section''
      else Inr [])"
  by pat_completeness auto
termination
  by (relation "measure (\<lambda>(data, pos). length data - pos)")
    (auto dest: parse_section_progress intro: diff_less_mono2)

declare parse_sections.simps [simp del]

definition wasm_parse :: "bytes \<Rightarrow> string + wasm_module" where
  "wasm_parse data =
     (if length data < 8 then Inl ''too short for WASM header''
      else if take 4 data \<noteq> [0x00, 0x61, 0x73, 0x6D] then Inl ''bad WASM magic''
      else if take 4 (drop 4 data) \<noteq> [1, 0, 0, 0] then Inl ''unsupported WASM version''
      else case parse_sections data 8 of
        Inl e \<Rightarrow> Inl e
      | Inr secs \<Rightarrow> Inr \<lparr>wm_data = data, wm_sections = secs, wm_function_bodies = None\<rparr>)"

definition find_section :: "wasm_module \<Rightarrow> u8 \<Rightarrow> wsection option" where
  "find_section m sid = find (\<lambda>s. sec_id s = sid) (wm_sections m)"

section \<open>Function bodies, exports, start function\<close>

text \<open>
  Outer \<^const>\<open>None\<close> is a panic: slicing the payload at an offset behind its end. The additions to the
  section's offset are 32-bit.
\<close>

fun parse_bodies_loop :: "nat \<Rightarrow> u32 \<Rightarrow> bytes \<Rightarrow> nat \<Rightarrow> function_body list option" where
  "parse_bodies_loop 0 base payload off = Some []"
| "parse_bodies_loop (Suc n) base payload off =
     do {
       r \<leftarrow> get_from payload off;
       case read_u32 r of
         None \<Rightarrow> Some []
       | Some (body_size, size_consumed) \<Rightarrow>
           do {
             bodies \<leftarrow> parse_bodies_loop n base payload (off + size_consumed + unat body_size);
             Some (\<lparr>fb_full = \<lparr>sp_offset = base + of_nat off, sp_len = of_nat (size_consumed + unat body_size)\<rparr>,
                    fb_body = \<lparr>sp_offset = base + of_nat (off + size_consumed), sp_len = body_size\<rparr>\<rparr> # bodies)
           }
     }"

definition parse_function_bodies :: "wasm_module \<Rightarrow> function_body list option" where
  "parse_function_bodies m =
     (case find_section m SECTION_CODE of
        None \<Rightarrow> Some []
      | Some code \<Rightarrow>
          do {
            payload \<leftarrow> span_slice (sec_payload code) (wm_data m);
            case read_u32 payload of
              None \<Rightarrow> Some []
            | Some (count, off) \<Rightarrow> parse_bodies_loop (unat count) (sp_offset (sec_payload code)) payload off
          })"

definition ensure_function_bodies_parsed :: "wasm_module \<Rightarrow> wasm_module option" where
  "ensure_function_bodies_parsed m =
     (case wm_function_bodies m of
        None \<Rightarrow> do { bodies \<leftarrow> parse_function_bodies m; Some (m\<lparr>wm_function_bodies := Some bodies\<rparr>) }
      | Some _ \<Rightarrow> Some m)"

definition function_bodies :: "wasm_module \<Rightarrow> function_body list" where
  "function_bodies m = (case wm_function_bodies m of None \<Rightarrow> [] | Some v \<Rightarrow> v)"

definition num_function_bodies :: "wasm_module \<Rightarrow> nat" where
  "num_function_bodies m = (case wm_function_bodies m of None \<Rightarrow> 0 | Some v \<Rightarrow> length v)"

fun exported_loop :: "nat \<Rightarrow> bytes \<Rightarrow> nat \<Rightarrow> u32 list option" where
  "exported_loop 0 payload off = Some []"
| "exported_loop (Suc n) payload off =
     do {
       r \<leftarrow> get_from payload off;
       case read_u32 r of
         None \<Rightarrow> Some []
       | Some (name_len, c) \<Rightarrow>
           let off1 = off + (c + unat name_len)
           in if length payload \<le> off1 then Some []
              else let kind = payload ! off1;
                       off2 = off1 + 1
                   in do {
                        r' \<leftarrow> get_from payload off2;
                        case read_u32 r' of
                          None \<Rightarrow> Some []
                        | Some (index, c') \<Rightarrow>
                            do {
                              indices \<leftarrow> exported_loop n payload (off2 + c');
                              Some (if kind = 0x00 then index # indices else indices)
                            }
                      }
     }"

definition exported_function_indices :: "wasm_module \<Rightarrow> u32 list option" where
  "exported_function_indices m =
     (case find_section m SECTION_EXPORT of
        None \<Rightarrow> Some []
      | Some export \<Rightarrow>
          do {
            payload \<leftarrow> span_slice (sec_payload export) (wm_data m);
            case read_u32 payload of
              None \<Rightarrow> Some []
            | Some (count, off) \<Rightarrow> exported_loop (unat count) payload off
          })"

definition start_function :: "wasm_module \<Rightarrow> u32 option option" where
  "start_function m =
     (case find_section m SECTION_START of
        None \<Rightarrow> Some None
      | Some start \<Rightarrow>
          do { payload \<leftarrow> span_slice (sec_payload start) (wm_data m); Some (map_option fst (read_u32 payload)) })"

definition function_count :: "wasm_module \<Rightarrow> u32 option" where
  "function_count m =
     (case find_section m SECTION_FUNCTION of
        None \<Rightarrow> Some 0
      | Some func \<Rightarrow>
          do {
            payload \<leftarrow> span_slice (sec_payload func) (wm_data m);
            Some (case read_u32 payload of None \<Rightarrow> 0 | Some (count, _) \<Rightarrow> count)
          })"

section \<open>Emitting\<close>

definition emit_unchanged :: "wasm_module \<Rightarrow> bytes" where
  "emit_unchanged m = wm_data m"

fun emit_sections :: "bytes \<Rightarrow> (nat \<Rightarrow> bytes option) \<Rightarrow> nat \<Rightarrow> wsection list \<Rightarrow> bytes option" where
  "emit_sections data replacements idx [] = Some []"
| "emit_sections data replacements idx (s # ss) =
     do {
       out \<leftarrow> (case replacements idx of
                 Some new_payload \<Rightarrow> Some (sec_id s # write_u32 (of_nat (length new_payload)) @ new_payload)
               | None \<Rightarrow> span_slice (sec_full s) data);
       outs \<leftarrow> emit_sections data replacements (idx + 1) ss;
       Some (out @ outs)
     }"

definition emit_with_replacements :: "wasm_module \<Rightarrow> (nat \<Rightarrow> bytes option) \<Rightarrow> bytes option" where
  "emit_with_replacements m replacements =
     do {
       header \<leftarrow> get_range (wm_data m) 0 8;
       outs \<leftarrow> emit_sections (wm_data m) replacements 0 (wm_sections m);
       Some (header @ outs)
     }"

section \<open>The section table is the decomposition of the file\<close>

text \<open>
  A raw section is an id byte, a LEB128 size and that many bytes. Its entry in the table is a function
  of its position and its bytes.
\<close>

definition section_len :: "bytes \<Rightarrow> nat option" where
  "section_len d = (if d = [] then None else do { (sz, c) \<leftarrow> read_u32 (tl d); Some (1 + c + unat sz) })"

definition size_leb :: "bytes \<Rightarrow> nat" where
  "size_leb r = snd (the (read_u32 (tl r)))"

definition raw_payload :: "bytes \<Rightarrow> bytes" where
  "raw_payload r = drop (1 + size_leb r) r"

definition mk_section :: "nat \<Rightarrow> bytes \<Rightarrow> wsection" where
  "mk_section pos r =
     \<lparr>sec_id = hd r,
      sec_payload = \<lparr>sp_offset = of_nat (pos + 1 + size_leb r), sp_len = of_nat (length (raw_payload r))\<rparr>,
      sec_full = \<lparr>sp_offset = of_nat pos, sp_len = of_nat (length r)\<rparr>,
      sec_custom_name =
        (if hd r = SECTION_CUSTOM then
           map_option (\<lambda>(n, c). \<lparr>sp_offset = of_nat (pos + 1 + size_leb r + c), sp_len = n\<rparr>)
             (read_u32 (raw_payload r))
         else None)\<rparr>"

fun sections_at :: "nat \<Rightarrow> bytes list \<Rightarrow> wsection list" where
  "sections_at pos [] = []"
| "sections_at pos (r # rs) = mk_section pos r # sections_at (pos + length r) rs"

abbreviation complete_section :: "bytes \<Rightarrow> bool" where
  "complete_section r \<equiv> section_len r = Some (length r)"

lemma section_len_local:
  assumes "section_len d = Some n" and "take n d' = take n d"
  shows "section_len d' = Some n"
proof -
  obtain sz c where d: "d \<noteq> []" and r: "read_u32 (tl d) = Some (sz, c)" and n: "n = 1 + c + unat sz"
    using assms(1) by (auto simp: section_len_def split: if_splits bind_splits)
  have c: "take c (tl d') = take c (tl d)"
    using take_eq_drop [OF assms(2), of 1 c] n by (simp add: drop_Suc)
  have "d' \<noteq> []" using assms(2) d n by auto
  then show ?thesis using read_u32_local [OF r c] n by (simp add: section_len_def)
qed

interpretation section_code: self_delimiting section_len
  by (unfold_locales, (auto simp: section_len_def split: if_splits bind_splits)[1], rule section_len_local)

lemma complete_sectionE:
  assumes "complete_section r"
  obtains sz where "r \<noteq> []" and "read_u32 (tl r) = Some (sz, size_leb r)"
    and "length r = 1 + size_leb r + unat sz" and "length (raw_payload r) = unat sz"
proof -
  obtain sz c where r: "r \<noteq> []" "read_u32 (tl r) = Some (sz, c)" "length r = 1 + c + unat sz"
    using assms by (auto simp: section_len_def split: if_splits bind_splits)
  moreover have "size_leb r = c" using r by (simp add: size_leb_def)
  ultimately show thesis using that [of sz] by (simp add: raw_payload_def)
qed

lemma parse_sections_end: "parse_sections data (length data) = Inr []"
  by (subst parse_sections.simps) simp

lemma parse_sections_step:
  assumes c: "complete_section r" and data: "data = pre @ r @ rest"
  shows "parse_sections data (length pre) =
    (case parse_sections data (length pre + length r) of
       Inl e \<Rightarrow> Inl e | Inr secs \<Rightarrow> Inr (mk_section (length pre) r # secs))"
proof -
  obtain sz where r: "r \<noteq> []" and l: "read_u32 (tl r) = Some (sz, size_leb r)"
    and n: "length r = 1 + size_leb r + unat sz" and p: "length (raw_payload r) = unat sz"
    using c by (rule complete_sectionE)
  obtain sid tail where r': "r = sid # tail" using r by (cases r) auto
  have rd: "read_u32 (drop (Suc (length pre)) data) = Some (sz, size_leb r)"
    using read_u32_append [OF l, of rest] by (simp add: data r')
  have rp: "get_range data (length pre + 1 + size_leb r) (length pre + 1 + size_leb r + unat sz) = Some (raw_payload r)"
    using n by (simp add: get_range_def data raw_payload_def r')
  have "custom_name_at data sid (length pre + 1 + size_leb r) (unat sz) = sec_custom_name (mk_section (length pre) r)"
    using rp by (cases "read_u32 (raw_payload r)") (auto simp: custom_name_at_def mk_section_def r')
  then have "parse_section data (length pre) = Inr (mk_section (length pre) r, length pre + length r)"
    using n rd p by (simp add: parse_section_def Let_def data r' mk_section_def nth_append)
  then show ?thesis
    using r by (subst parse_sections.simps) (simp add: data)
qed

lemma parse_sections_concat:
  "\<forall>r\<in>set raws. complete_section r \<Longrightarrow>
    parse_sections (pre @ concat raws) (length pre) = Inr (sections_at (length pre) raws)"
proof (induction raws arbitrary: pre)
  case Nil
  then show ?case using parse_sections_end [of pre] by simp
next
  case (Cons r raws)
  then show ?case
    using parse_sections_step [of r "pre @ r @ concat raws" pre "concat raws"] Cons.IH [of "pre @ r"] by simp
qed

lemma parse_section_complete:
  assumes "parse_section data pos = Inr (s, pos')" and "pos < length data"
  shows "complete_section (take (pos' - pos) (drop pos data))"
proof -
  obtain sz c where r: "read_u32 (drop (pos + 1) data) = Some (sz, c)" and p: "pos' = pos + 1 + c + unat sz"
    using assms(1) by (auto simp: parse_section_def Let_def split: option.splits if_splits)
  have "section_len (drop pos data) = Some (pos' - pos)"
    using r assms(2) p by (simp add: section_len_def drop_Suc tl_drop)
  then show ?thesis
    using parse_section_progress [OF assms(1)] by (intro section_code.len_take) auto
qed

lemma parse_sections_sound:
  "parse_sections data pos = Inr secs \<Longrightarrow> pos \<le> length data \<Longrightarrow>
    \<exists>raws. (\<forall>r\<in>set raws. complete_section r) \<and> drop pos data = concat raws \<and> secs = sections_at pos raws"
proof (induction data pos arbitrary: secs rule: parse_sections.induct)
  case (1 data pos)
  show ?case
  proof (cases "pos < length data")
    case True
    then obtain s pos' ss where ps: "parse_section data pos = Inr (s, pos')" and rest: "parse_sections data pos' = Inr ss"
      and secs: "secs = s # ss"
      using "1.prems"(1) by (subst (asm) parse_sections.simps) (auto split: sum.splits)
    note step = parse_section_progress [OF ps]
    define r where "r = take (pos' - pos) (drop pos data)"
    have r: "complete_section r" unfolding r_def by (rule parse_section_complete [OF ps True])
    have len: "length r = pos' - pos" using step by (auto simp: r_def)
    obtain raws where raws: "\<forall>r\<in>set raws. complete_section r" "drop pos' data = concat raws" "ss = sections_at pos' raws"
      using "1.IH" [OF True ps refl rest] step by auto
    have d: "drop pos data = r @ concat raws"
      using step raws(2) by (metis append_take_drop_id drop_drop le_add_diff_inverse2 less_imp_le r_def)
    have "data = take pos data @ r @ concat raws" using d by (metis append_take_drop_id)
    from parse_sections_step [OF r this] have "secs = mk_section pos r # ss"
      using "1.prems" rest len step by simp
    then show ?thesis using r raws d len step by (intro exI [of _ "r # raws"]) simp
  next
    case False
    then show ?thesis using "1.prems" by (subst (asm) parse_sections.simps) (auto intro: exI [of _ "[]"])
  qed
qed

section \<open>Emitting splices payloads\<close>

text \<open>What a table says of the file: the id and the payload of every section.\<close>

definition section_contents :: "wasm_module \<Rightarrow> (u8 \<times> bytes option) list" where
  "section_contents m = map (\<lambda>s. (sec_id s, span_slice (sec_payload s) (wm_data m))) (wm_sections m)"

definition new_section :: "(nat \<Rightarrow> bytes option) \<Rightarrow> nat \<Rightarrow> bytes \<Rightarrow> bytes" where
  "new_section replacements idx r =
     (case replacements idx of
        Some p \<Rightarrow> hd r # write_u32 (of_nat (length p)) @ p
      | None \<Rightarrow> r)"

fun new_sections :: "(nat \<Rightarrow> bytes option) \<Rightarrow> nat \<Rightarrow> bytes list \<Rightarrow> bytes list" where
  "new_sections replacements idx [] = []"
| "new_sections replacements idx (r # rs) =
     new_section replacements idx r # new_sections replacements (idx + 1) rs"

lemma span_slice_at:
  assumes "data = pre @ mid @ post" and "length data < 2 ^ 32"
  shows "span_slice \<lparr>sp_offset = of_nat (length pre), sp_len = of_nat (length mid)\<rparr> data = Some mid"
proof -
  have "unat (of_nat (length pre) :: u32) = length pre"
    and "unat (of_nat (length pre) + of_nat (length mid) :: u32) = length pre + length mid"
    using assms by (simp_all add: unat_of_nat unat_word_ariths take_bit_nat_eq_self flip: of_nat_add)
  then show ?thesis by (simp add: span_slice_def get_range_def assms(1))
qed

lemma mk_section_slices:
  assumes c: "complete_section r" and data: "data = pre @ r @ rest" and len: "length data < 2 ^ 32"
  shows "span_slice (sec_full (mk_section (length pre) r)) data = Some r"
    and "span_slice (sec_payload (mk_section (length pre) r)) data = Some (raw_payload r)"
proof -
  show "span_slice (sec_full (mk_section (length pre) r)) data = Some r"
    using span_slice_at [OF data len] by (simp add: mk_section_def)
  obtain sz :: u32 where "length r = 1 + size_leb r + unat sz" using complete_sectionE [OF c] by metis
  then have "length (take (1 + size_leb r) r) = 1 + size_leb r" by simp
  moreover have "data = (pre @ take (1 + size_leb r) r) @ raw_payload r @ rest"
    by (simp add: data raw_payload_def)
  ultimately show "span_slice (sec_payload (mk_section (length pre) r)) data = Some (raw_payload r)"
    using span_slice_at [of data "pre @ take (1 + size_leb r) r" "raw_payload r" rest] len
    by (simp add: mk_section_def add.assoc)
qed

lemma contents_concat:
  "\<forall>r\<in>set raws. complete_section r \<Longrightarrow> length (pre @ concat raws) < 2 ^ 32 \<Longrightarrow>
    map (\<lambda>s. (sec_id s, span_slice (sec_payload s) (pre @ concat raws))) (sections_at (length pre) raws) =
      map (\<lambda>r. (hd r, Some (raw_payload r))) raws"
proof (induction raws arbitrary: pre)
  case (Cons r raws)
  have "sec_id (mk_section (length pre) r) = hd r" by (simp add: mk_section_def)
  then show ?case
    using Cons.IH [of "pre @ r"] mk_section_slices(2) [of r "pre @ r @ concat raws" pre "concat raws"] Cons.prems
    by simp
qed simp

lemma emit_sections_concat:
  "\<forall>r\<in>set raws. complete_section r \<Longrightarrow> length (pre @ concat raws) < 2 ^ 32 \<Longrightarrow>
    emit_sections (pre @ concat raws) replacements idx (sections_at (length pre) raws) =
      Some (concat (new_sections replacements idx raws))"
proof (induction raws arbitrary: pre idx)
  case (Cons r raws)
  have "sec_id (mk_section (length pre) r) = hd r" by (simp add: mk_section_def)
  then show ?case
    using Cons.IH [of "pre @ r"] mk_section_slices(1) [of r "pre @ r @ concat raws" pre "concat raws"] Cons.prems
    by (simp add: new_section_def split: option.splits)
qed simp

lemma new_section_complete:
  assumes "complete_section r" and "\<forall>p. replacements idx = Some p \<longrightarrow> length p < 2 ^ 32"
  shows "complete_section (new_section replacements idx r)"
    and "hd (new_section replacements idx r) = hd r"
    and "raw_payload (new_section replacements idx r) = (case replacements idx of None \<Rightarrow> raw_payload r | Some p \<Rightarrow> p)"
proof -
  have "unat (of_nat (length p) :: u32) = length p" if "replacements idx = Some p" for p
    using assms(2) that by (simp add: unat_of_nat take_bit_nat_eq_self)
  then show "complete_section (new_section replacements idx r)"
    and "hd (new_section replacements idx r) = hd r"
    and "raw_payload (new_section replacements idx r) = (case replacements idx of None \<Rightarrow> raw_payload r | Some p \<Rightarrow> p)"
    using assms(1) by (cases "replacements idx";
        simp add: new_section_def section_len_def [of "_ # _"] raw_payload_def size_leb_def read_u32_write)+
qed

lemma new_sections_complete:
  assumes "\<forall>r\<in>set raws. complete_section r" and "\<forall>i p. replacements i = Some p \<longrightarrow> length p < 2 ^ 32"
  shows "\<forall>r\<in>set (new_sections replacements idx raws). complete_section r"
    and "map (\<lambda>r. (hd r, Some (raw_payload r))) (new_sections replacements idx raws) =
      map (\<lambda>(i, sid, p). (sid, case replacements i of None \<Rightarrow> p | Some q \<Rightarrow> Some q))
        (enumerate idx (map (\<lambda>r. (hd r, Some (raw_payload r))) raws))"
proof -
  show "\<forall>r\<in>set (new_sections replacements idx raws). complete_section r"
    using assms by (induction raws arbitrary: idx) (auto simp: new_section_complete(1))
  show "map (\<lambda>r. (hd r, Some (raw_payload r))) (new_sections replacements idx raws) =
      map (\<lambda>(i, sid, p). (sid, case replacements i of None \<Rightarrow> p | Some q \<Rightarrow> Some q))
        (enumerate idx (map (\<lambda>r. (hd r, Some (raw_payload r))) raws))"
    using assms(1)
  proof (induction raws arbitrary: idx)
    case (Cons r raws)
    then show ?case
      using new_section_complete(2,3) [of r replacements idx] assms(2) by (auto split: option.splits)
  qed simp
qed

lemma wasm_parse_iff:
  "wasm_parse data = Inr m \<longleftrightarrow>
    (\<exists>raws. (\<forall>r\<in>set raws. complete_section r) \<and>
      data = [0x00, 0x61, 0x73, 0x6D, 1, 0, 0, 0] @ concat raws \<and>
      m = \<lparr>wm_data = data, wm_sections = sections_at 8 raws, wm_function_bodies = None\<rparr>)"
proof -
  let ?h = "[0x00, 0x61, 0x73, 0x6D, 1, 0, 0, 0] :: bytes"
  have ok: "wasm_parse (?h @ concat raws) =
      Inr \<lparr>wm_data = ?h @ concat raws, wm_sections = sections_at 8 raws, wm_function_bodies = None\<rparr>"
    if "\<forall>r\<in>set raws. complete_section r" for raws
  proof -
    have "length ?h = 8" by simp
    from parse_sections_concat [OF that, of ?h, unfolded this] show ?thesis by (simp add: wasm_parse_def)
  qed
  show ?thesis
  proof
    assume p: "wasm_parse data = Inr m"
    then obtain secs where len: "8 \<le> length data" and m: "take 4 data = [0x00, 0x61, 0x73, 0x6D]" "take 4 (drop 4 data) = [1, 0, 0, 0]"
      and ps: "parse_sections data 8 = Inr secs"
      by (auto simp: wasm_parse_def split: if_splits sum.splits)
    obtain raws where raws: "\<forall>r\<in>set raws. complete_section r" "drop 8 data = concat raws"
      using parse_sections_sound [OF ps len] by blast
    have "take 8 data = ?h" using m take_add [of 4 4 data] by simp
    then have "data = ?h @ concat raws" using raws(2) append_take_drop_id [of 8 data] by simp
    then show "\<exists>raws. (\<forall>r\<in>set raws. complete_section r) \<and> data = ?h @ concat raws \<and>
        m = \<lparr>wm_data = data, wm_sections = sections_at 8 raws, wm_function_bodies = None\<rparr>"
      using raws(1) ok [OF raws(1)] p by (intro exI [of _ raws]) auto
  qed (use ok in blast)
qed

lemma emit_with_replacements_parsed:
  assumes "\<forall>r\<in>set raws. complete_section r" and "length ([0x00, 0x61, 0x73, 0x6D, 1, 0, 0, 0] @ concat raws) < 2 ^ 32"
  shows "emit_with_replacements
      \<lparr>wm_data = [0x00, 0x61, 0x73, 0x6D, 1, 0, 0, 0] @ concat raws, wm_sections = sections_at 8 raws, wm_function_bodies = fb\<rparr> repl =
    Some ([0x00, 0x61, 0x73, 0x6D, 1, 0, 0, 0] @ concat (new_sections repl 0 raws))"
proof -
  have "length ([0x00, 0x61, 0x73, 0x6D, 1, 0, 0, 0] :: bytes) = 8" by simp
  from emit_sections_concat [OF assms, of repl 0, unfolded this] show ?thesis
    by (simp add: emit_with_replacements_def get_range_def)
qed

lemma new_sections_none: "new_sections (\<lambda>_. None) idx raws = raws"
  by (induction raws arbitrary: idx) (simp_all add: new_section_def)

text \<open>
  A module below 4 GiB that parses is emitted byte for byte when no section is replaced, which is
  also what the unchanged emitter returns.
\<close>

theorem emit_no_replacements:
  assumes "wasm_parse data = Inr m" and "length data < 2 ^ 32"
  shows "emit_with_replacements m (\<lambda>_. None) = Some data \<and> emit_unchanged m = data"
proof -
  obtain raws where "\<forall>r\<in>set raws. complete_section r" and d: "data = [0x00, 0x61, 0x73, 0x6D, 1, 0, 0, 0] @ concat raws"
    and m: "m = \<lparr>wm_data = data, wm_sections = sections_at 8 raws, wm_function_bodies = None\<rparr>"
    using assms(1) unfolding wasm_parse_iff by blast
  then have "emit_with_replacements m (\<lambda>_. None) = Some data"
    using emit_with_replacements_parsed [of raws None "\<lambda>_. None"] assms(2) by (simp add: new_sections_none)
  then show ?thesis by (simp add: emit_unchanged_def m)
qed

theorem emit_no_replacements_witness:
  "\<exists>m. wasm_parse [0x00, 0x61, 0x73, 0x6D, 1, 0, 0, 0, 3, 0x82, 0, 1, 0] = Inr m \<and>
    emit_with_replacements m (\<lambda>_. None) = Some [0x00, 0x61, 0x73, 0x6D, 1, 0, 0, 0, 3, 0x82, 0, 1, 0]"
proof -
  let ?d = "[0x00, 0x61, 0x73, 0x6D, 1, 0, 0, 0, 3, 0x82, 0, 1, 0] :: bytes"
  have "case wasm_parse ?d of Inl _ \<Rightarrow> False | Inr _ \<Rightarrow> True" by code_simp
  then obtain m where "wasm_parse ?d = Inr m" by (auto split: sum.splits)
  then show ?thesis using emit_no_replacements [of ?d m] by auto
qed

text \<open>
  (C35) Splicing is correct: for a module below 4 GiB that parses and replacement payloads below 4 GiB,
  the emitter returns a module; if that is below 4 GiB as well, it parses, has the same sections in the
  same order with the same ids, and every section has the replacement payload if there is one and its
  old payload otherwise.
\<close>

theorem emit_reparse:
  assumes "wasm_parse data = Inr m" and "length data < 2 ^ 32"
    and "\<forall>i p. repl i = Some p \<longrightarrow> length p < 2 ^ 32"
  shows "\<exists>out. emit_with_replacements m repl = Some out \<and>
    (length out < 2 ^ 32 \<longrightarrow>
      (\<exists>m'. wasm_parse out = Inr m' \<and>
        section_contents m' =
          map (\<lambda>(i, sid, p). (sid, case repl i of None \<Rightarrow> p | Some q \<Rightarrow> Some q)) (enumerate 0 (section_contents m))))"
proof -
  let ?h = "[0x00, 0x61, 0x73, 0x6D, 1, 0, 0, 0] :: bytes"
  have h8: "length ?h = 8" by simp
  obtain raws where c: "\<forall>r\<in>set raws. complete_section r" and d: "data = ?h @ concat raws"
    and m: "m = \<lparr>wm_data = data, wm_sections = sections_at 8 raws, wm_function_bodies = None\<rparr>"
    using assms(1) unfolding wasm_parse_iff by blast
  define out where "out = ?h @ concat (new_sections repl 0 raws)"
  have e: "emit_with_replacements m repl = Some out"
    using emit_with_replacements_parsed [OF c, of None repl] assms(2) by (simp add: m d out_def)
  note c' = new_sections_complete(1) [OF c assms(3), of 0]
  have "\<exists>m'. wasm_parse out = Inr m' \<and> section_contents m' =
      map (\<lambda>(i, sid, p). (sid, case repl i of None \<Rightarrow> p | Some q \<Rightarrow> Some q)) (enumerate 0 (section_contents m))"
    if len: "length out < 2 ^ 32"
  proof -
    have "wasm_parse out = Inr \<lparr>wm_data = out, wm_sections = sections_at 8 (new_sections repl 0 raws), wm_function_bodies = None\<rparr>"
      unfolding wasm_parse_iff using c' out_def by blast
    then show ?thesis
      using contents_concat [OF c', of ?h, unfolded h8] len
        contents_concat [OF c, of ?h, unfolded h8] assms(2) new_sections_complete(2) [OF c assms(3), of 0]
      by (simp add: section_contents_def m d [symmetric] out_def [symmetric] del: append_Cons)
  qed
  then show ?thesis using e by blast
qed

theorem emit_reparse_witness:
  "\<exists>m out. wasm_parse [0x00, 0x61, 0x73, 0x6D, 1, 0, 0, 0, 3, 0x82, 0, 1, 0] = Inr m \<and>
    emit_with_replacements m [0 \<mapsto> [2, 0, 0]] = Some out"
proof -
  let ?d = "[0x00, 0x61, 0x73, 0x6D, 1, 0, 0, 0, 3, 0x82, 0, 1, 0] :: bytes"
  have "case wasm_parse ?d of Inl _ \<Rightarrow> False | Inr _ \<Rightarrow> True" by code_simp
  then obtain m where "wasm_parse ?d = Inr m" by (auto split: sum.splits)
  moreover have "\<forall>i p. [0 \<mapsto> [2, 0, 0]] i = Some p \<longrightarrow> length p < 2 ^ 32" by (auto split: if_splits)
  ultimately show ?thesis using emit_reparse [of ?d m "[0 \<mapsto> [2, 0, 0]]"] by fastforce
qed

section \<open>Views of a parsed module\<close>

text \<open>
  The code section of a well-formed module: a count and that many bodies, each a size and its bytes. The
  spans of the parsed bodies select exactly those bytes of the payload.
\<close>

fun code_bodies :: "bytes list \<Rightarrow> bytes" where
  "code_bodies [] = []"
| "code_bodies (b # bs) = write_u32 (of_nat (length b)) @ b @ code_bodies bs"

lemma parse_bodies_loop_encoded:
  "\<forall>b\<in>set bs. length b < 2 ^ 32 \<Longrightarrow> length data < 2 ^ 32 \<Longrightarrow>
    data = pre @ pl @ code_bodies bs @ post \<Longrightarrow> base = of_nat (length pre) \<Longrightarrow>
    \<exists>fbs. parse_bodies_loop (length bs) base (pl @ code_bodies bs) (length pl) = Some fbs \<and>
      map (\<lambda>fb. span_slice (fb_body fb) data) fbs = map Some bs"
proof (induction bs arbitrary: pl)
  case (Cons b bs)
  let ?w = "write_u32 (of_nat (length b))"
  have len: "unat (of_nat (length b) :: u32) = length b"
    using Cons.prems(1) by (simp add: unat_of_nat take_bit_nat_eq_self)
  have "\<exists>fbs. parse_bodies_loop (length bs) base ((pl @ ?w @ b) @ code_bodies bs) (length (pl @ ?w @ b)) = Some fbs \<and>
      map (\<lambda>fb. span_slice (fb_body fb) data) fbs = map Some bs"
    using Cons.prems by (intro Cons.IH) auto
  then obtain fbs where fbs: "parse_bodies_loop (length bs) base (pl @ ?w @ b @ code_bodies bs) (length pl + (length ?w + length b)) = Some fbs"
    "map (\<lambda>fb. span_slice (fb_body fb) data) fbs = map Some bs"
    by auto
  have sl: "span_slice \<lparr>sp_offset = of_nat (length pre) + of_nat (length pl + length ?w), sp_len = of_nat (length b)\<rparr> data = Some b"
    using span_slice_at [of data "pre @ pl @ ?w" b "code_bodies bs @ post"] Cons.prems(2,3) by simp
  show ?case
    using fbs sl read_u32_write [of "of_nat (length b)" "b @ code_bodies bs"] Cons.prems(4)
    by (simp add: get_from_def len add.assoc)
qed simp

text \<open>A body size that runs behind the end of the code section makes the parser of the bodies panic.\<close>

theorem parse_function_bodies_panics:
  "(case wasm_parse [0x00, 0x61, 0x73, 0x6D, 1, 0, 0, 0, 10, 3, 2, 5, 0] of
      Inl _ \<Rightarrow> False
    | Inr m \<Rightarrow> parse_function_bodies m = None)"
  by code_simp

text \<open>The parser of the exports checks every offset and never panics on a parsed module.\<close>

lemma exported_loop_total: "off \<le> length payload \<Longrightarrow> exported_loop n payload off \<noteq> None"
proof (induction n arbitrary: off)
  case (Suc n)
  show ?case
  proof (cases "read_u32 (drop off payload)")
    case (Some vc)
    obtain name_len c where vc: "vc = (name_len, c)" by (cases vc)
    define off2 where "off2 = off + (c + unat name_len) + 1"
    show ?thesis
    proof (cases "off2 \<le> length payload \<and> read_u32 (drop off2 payload) \<noteq> None")
      case True
      then obtain index c' where r: "read_u32 (drop off2 payload) = Some (index, c')" by auto
      then have "exported_loop n payload (off2 + c') \<noteq> None"
        using read_u32_bound [OF r] True by (intro Suc.IH) simp
      then show ?thesis using Some vc Suc.prems True r by (auto simp: get_from_def Let_def off2_def)
    next
      case False
      then show ?thesis using Some vc Suc.prems
        by (auto simp: get_from_def Let_def off2_def split: option.splits)
    qed
  qed (use Suc.prems in \<open>simp add: get_from_def\<close>)
qed simp

lemma sections_at_nth:
  assumes "\<forall>r\<in>set raws. complete_section r" and "s \<in> set (sections_at (length pre) raws)"
    and "length (pre @ concat raws) < 2 ^ 32"
  shows "span_slice (sec_payload s) (pre @ concat raws) \<noteq> None"
proof -
  have "(sec_id s, span_slice (sec_payload s) (pre @ concat raws)) \<in>
      set (map (\<lambda>r. (hd r, Some (raw_payload r))) raws)"
    using assms(2) by (subst contents_concat [OF assms(1,3), symmetric]) auto
  then show ?thesis by auto
qed

lemma parsed_payloads:
  assumes "wasm_parse data = Inr m" and "length data < 2 ^ 32" and "s \<in> set (wm_sections m)"
  shows "span_slice (sec_payload s) (wm_data m) \<noteq> None"
proof -
  have h: "length ([0x00, 0x61, 0x73, 0x6D, 1, 0, 0, 0] :: bytes) = 8" by simp
  obtain raws where "\<forall>r\<in>set raws. complete_section r" "data = [0x00, 0x61, 0x73, 0x6D, 1, 0, 0, 0] @ concat raws"
    "m = \<lparr>wm_data = data, wm_sections = sections_at 8 raws, wm_function_bodies = None\<rparr>"
    using assms(1) unfolding wasm_parse_iff by blast
  then show ?thesis using sections_at_nth [of raws s "[0x00, 0x61, 0x73, 0x6D, 1, 0, 0, 0]", unfolded h] assms(2,3) by simp
qed

text \<open>
  On a module below 4 GiB that parses, the export list, the start function and the function count
  are read without a panic, whatever the bytes of their sections are.
\<close>

theorem parsed_views_total:
  assumes "wasm_parse data = Inr m" and "length data < 2 ^ 32"
  shows "exported_function_indices m \<noteq> None \<and> start_function m \<noteq> None \<and> function_count m \<noteq> None"
proof -
  have sl: "\<exists>pl. span_slice (sec_payload s) (wm_data m) = Some pl" if "find_section m sid = Some s" for s sid
    using parsed_payloads [OF assms, of s] that by (auto simp: find_section_def find_Some_iff)
  have "exported_function_indices m \<noteq> None"
  proof (cases "find_section m SECTION_EXPORT")
    case (Some s)
    then obtain pl where "span_slice (sec_payload s) (wm_data m) = Some pl" using sl by blast
    then show ?thesis using Some exported_loop_total [OF read_u32_bound(2), of pl]
      by (auto simp: exported_function_indices_def split: option.splits)
  qed (simp add: exported_function_indices_def)
  moreover have "start_function m \<noteq> None" and "function_count m \<noteq> None"
    by (auto simp: start_function_def function_count_def dest: sl split: option.splits)
  ultimately show ?thesis by blast
qed

theorem parsed_views_total_witness:
  "\<exists>m. wasm_parse [0x00, 0x61, 0x73, 0x6D, 1, 0, 0, 0, 7, 3, 9, 200, 1] = Inr m \<and> exported_function_indices m \<noteq> None"
proof -
  let ?d = "[0x00, 0x61, 0x73, 0x6D, 1, 0, 0, 0, 7, 3, 9, 200, 1] :: bytes"
  have "case wasm_parse ?d of Inl _ \<Rightarrow> False | Inr _ \<Rightarrow> True" by code_simp
  then obtain m where "wasm_parse ?d = Inr m" by (auto split: sum.splits)
  then show ?thesis using parsed_views_total [of ?d m] by auto
qed

end
