(* ===== verification/Scan.thy ===== *)
theory Scan
  imports Wasm_Module
begin

text \<open>
  Model of \<open>wilt/src/scan.rs\<close>: the call graph that a scan for the call opcode finds, and the functions
  reachable from a set of roots. The fixpoint loop is shown to return and to compute the reflexive
  transitive closure of the graph.
\<close>

section \<open>The scan\<close>

definition OP_CALL :: u8 where "OP_CALL = 0x10"

fun scan_locals :: "nat \<Rightarrow> bytes \<Rightarrow> nat \<Rightarrow> nat option" where
  "scan_locals 0 bs p = Some p"
| "scan_locals (Suc n) bs p =
     do {
       r \<leftarrow> get_from bs p;
       scan_locals n bs ((case read_u32 r of Some (_, c) \<Rightarrow> p + c | None \<Rightarrow> p) + 1)
     }"

definition scan_start :: "bytes \<Rightarrow> nat option" where
  "scan_start bs =
     (case read_u32 bs of
        Some (local_count, consumed) \<Rightarrow> scan_locals (unat local_count) bs consumed
      | None \<Rightarrow> Some 0)"

function scan_calls :: "nat \<Rightarrow> bytes \<Rightarrow> nat \<Rightarrow> u32 list \<Rightarrow> u32 list" where
  "scan_calls num_funcs bs p row =
     (if p < length bs then
        case (if bs ! p = OP_CALL then read_u32 (drop (p + 1) bs) else None) of
          Some (target, consumed) \<Rightarrow>
            scan_calls num_funcs bs (p + 1 + consumed)
              (if unat target < num_funcs \<and> target \<notin> set row then row @ [target] else row)
        | None \<Rightarrow> scan_calls num_funcs bs (p + 1) row
      else row)"
  by pat_completeness auto
termination
  by (relation "measure (\<lambda>(n, bs, p, row). length bs - p)") auto

declare scan_calls.simps [simp del]

fun call_rows :: "nat \<Rightarrow> bytes \<Rightarrow> function_body list \<Rightarrow> u32 list list option" where
  "call_rows num_funcs data [] = Some []"
| "call_rows num_funcs data (fb # fbs) =
     do {
       bs \<leftarrow> span_slice (fb_body fb) data;
       p \<leftarrow> scan_start bs;
       rows \<leftarrow> call_rows num_funcs data fbs;
       Some (scan_calls num_funcs bs p [] # rows)
     }"

definition call_graph :: "wasm_module \<Rightarrow> (u32 list list \<times> wasm_module) option" where
  "call_graph m =
     do {
       m' \<leftarrow> ensure_function_bodies_parsed m;
       rows \<leftarrow> call_rows (num_function_bodies m') (wm_data m') (function_bodies m');
       Some (rows, m')
     }"

section \<open>Reachability\<close>

fun mark_roots :: "u32 list \<Rightarrow> bool list \<Rightarrow> bool list" where
  "mark_roots [] reach = reach"
| "mark_roots (r # rs) reach =
     mark_roots rs (if unat r < length reach then reach[unat r := True] else reach)"

fun mark_targets :: "u32 list \<Rightarrow> bool list \<times> bool \<Rightarrow> (bool list \<times> bool) option" where
  "mark_targets [] (reach, changed) = Some (reach, changed)"
| "mark_targets (t # ts) (reach, changed) =
     do {
       b \<leftarrow> get reach (unat t);
       if \<not> b then mark_targets ts (reach[unat t := True], True) else mark_targets ts (reach, changed)
     }"

text \<open>One sweep over the functions \<open>i\<close>, \<open>i + 1\<close>, ... whose rows are left.\<close>

fun sweep :: "nat \<Rightarrow> u32 list list \<Rightarrow> bool list \<times> bool \<Rightarrow> (bool list \<times> bool) option" where
  "sweep i [] st = Some st"
| "sweep i (row # rows) (reach, changed) =
     do {
       b \<leftarrow> get reach i;
       st \<leftarrow> (if \<not> b then Some (reach, changed) else mark_targets row (reach, changed));
       sweep (i + 1) rows st
     }"

abbreviation unreached :: "bool list \<Rightarrow> nat" where
  "unreached reach \<equiv> length (filter Not reach)"

definition grows :: "bool list \<times> bool \<Rightarrow> bool list \<times> bool \<Rightarrow> bool" where
  "grows st st' \<longleftrightarrow>
     length (fst st') = length (fst st) \<and> (\<forall>j<length (fst st). fst st ! j \<longrightarrow> fst st' ! j) \<and>
     (snd st \<longrightarrow> snd st') \<and> unreached (fst st') \<le> unreached (fst st) \<and>
     (snd st' \<and> \<not> snd st \<longrightarrow> unreached (fst st') < unreached (fst st)) \<and>
     (\<not> snd st' \<longrightarrow> fst st' = fst st)"

lemma grows_refl [intro, simp]: "grows st st"
  by (simp add: grows_def)

lemma grows_trans: "grows a b \<Longrightarrow> grows b c \<Longrightarrow> grows a c"
  unfolding grows_def by (cases "snd b") auto

lemma unreached_set:
  assumes "i < length reach" and "\<not> reach ! i"
  shows "unreached (reach[i := True]) < unreached reach"
proof -
  have "reach = take i reach @ False # drop (Suc i) reach"
    using id_take_nth_drop [OF assms(1)] assms(2) by simp
  from arg_cong [OF this, of unreached] show ?thesis using assms(1) by (simp add: upd_conv_take_nth_drop)
qed

lemma mark_targets_grows: "mark_targets ts st = Some st' \<Longrightarrow> grows st st'"
proof (induction ts st rule: mark_targets.induct)
  case (2 t ts reach changed)
  show ?case
  proof (cases "reach ! unat t")
    case False
    then have "unat t < length reach" and "mark_targets ts (reach[unat t := True], True) = Some st'"
      using "2.prems" by (auto simp: get_def split: if_splits)
    moreover have "grows (reach, changed) (reach[unat t := True], True)"
      using False unreached_set [of "unat t" reach] calculation(1)
      by (auto simp: grows_def nth_list_update)
    ultimately show ?thesis using 2 False grows_trans by (metis get_def)
  qed (use 2 in \<open>auto simp: get_def split: if_splits\<close>)
qed simp

lemma sweep_grows: "sweep i rows st = Some st' \<Longrightarrow> grows st st'"
proof (induction i rows st rule: sweep.induct)
  case (2 i row rows reach changed)
  then obtain st1 where "(if \<not> reach ! i then Some (reach, changed) else mark_targets row (reach, changed)) = Some st1"
    and "sweep (i + 1) rows st1 = Some st'" and "i < length reach"
    by (auto simp: get_def split: if_splits bind_splits)
  moreover from this(1) have "grows (reach, changed) st1" by (auto dest: mark_targets_grows split: if_splits)
  ultimately show ?case using 2 grows_trans by (auto simp: get_def)
qed simp

function reach_loop :: "u32 list list \<Rightarrow> bool list \<Rightarrow> bool list option" where
  "reach_loop graph reach =
     (case sweep 0 graph (reach, False) of
        None \<Rightarrow> None
      | Some (reach', changed) \<Rightarrow> if changed then reach_loop graph reach' else Some reach')"
  by pat_completeness auto
termination
proof (relation "measure (\<lambda>(graph, reach). unreached reach)")
  fix graph reach x reach' changed
  assume "sweep 0 graph (reach, False) = Some x" and "(reach', changed) = x" and "changed"
  then have "grows (reach, False) (reach', True)" by (auto dest: sweep_grows)
  then show "((graph, reach'), graph, reach) \<in> measure (\<lambda>(graph, reach). unreached reach)"
    by (simp add: grows_def)
qed simp

declare reach_loop.simps [simp del]

definition reachable_from :: "u32 list list \<Rightarrow> u32 list \<Rightarrow> bool list option" where
  "reachable_from graph roots = reach_loop graph (mark_roots roots (replicate (length graph) False))"

section \<open>Correctness of reachability\<close>

definition edges :: "u32 list list \<Rightarrow> (nat \<times> nat) set" where
  "edges graph = {(i, j). i < length graph \<and> j \<in> unat ` set (graph ! i)}"

definition in_range :: "u32 list list \<Rightarrow> bool" where
  "in_range graph \<longleftrightarrow> (\<forall>row\<in>set graph. \<forall>t\<in>set row. unat t < length graph)"

definition marked :: "bool list \<Rightarrow> nat set" where
  "marked reach = {j. j < length reach \<and> reach ! j}"

lemma marked_update: "i < length reach \<Longrightarrow> marked (reach[i := True]) = insert i (marked reach)"
  by (auto simp: marked_def nth_list_update)

lemma marked_roots:
  "length (mark_roots rs reach) = length reach"
  "marked (mark_roots rs reach) = marked reach \<union> (unat ` set rs \<inter> {..<length reach})"
  by (induction rs arbitrary: reach) (auto simp: marked_update)

lemma mark_targets_marked:
  assumes "\<forall>t\<in>set ts. unat t < length (fst st)"
  shows "\<exists>st'. mark_targets ts st = Some st' \<and> length (fst st') = length (fst st) \<and>
    marked (fst st') = marked (fst st) \<union> unat ` set ts"
  using assms
proof (induction ts arbitrary: st)
  case (Cons t ts)
  obtain reach changed where st: "st = (reach, changed)" by (cases st)
  show ?case
    using Cons.IH [of "(reach[unat t := True], True)"] Cons.IH [of "(reach, changed)"] Cons.prems
    by (cases "reach ! unat t") (auto simp: st get_def marked_update marked_def [of reach])
next
  case Nil
  then show ?case by (cases st) simp
qed

lemma sweep_marked:
  assumes "in_range graph" and "rows = drop i graph" and "i \<le> length graph" and "length (fst st) = length graph"
    and S: "edges graph `` S \<subseteq> S" and "marked (fst st) \<subseteq> S"
  shows "\<exists>st'. sweep i rows st = Some st' \<and> length (fst st') = length graph \<and> marked (fst st') \<subseteq> S"
  using assms
proof (induction rows arbitrary: i st)
  case (Cons row rows)
  obtain reach changed where st: "st = (reach, changed)" by (cases st)
  have i: "i < length graph" using Cons.prems(2) by (metis drop_all list.distinct(1) not_le_imp_less)
  then have row: "row = graph ! i" and rows: "rows = drop (i + 1) graph"
    using Cons.prems(2) by (simp_all add: Cons_nth_drop_Suc [symmetric])
  have "\<exists>st1. (if \<not> reach ! i then Some st else mark_targets row st) = Some st1 \<and>
      length (fst st1) = length graph \<and> marked (fst st1) \<subseteq> S"
  proof (cases "reach ! i")
    case True
    have "\<forall>t\<in>set row. unat t < length (fst st)" using Cons.prems(1,4) i row by (auto simp: in_range_def)
    then obtain st1 where st1: "mark_targets row st = Some st1" "length (fst st1) = length (fst st)"
      "marked (fst st1) = marked (fst st) \<union> unat ` set row"
      using mark_targets_marked [of row st] by blast
    have "i \<in> S" using True Cons.prems(4,6) i by (auto simp: st marked_def)
    then have "unat ` set row \<subseteq> S" using S i row by (auto simp: edges_def Image_def)
    then show ?thesis using st1 True Cons.prems(4,6) by auto
  qed (use Cons.prems in auto)
  then obtain st1 where st1: "(if \<not> reach ! i then Some st else mark_targets row st) = Some st1"
    "length (fst st1) = length graph" "marked (fst st1) \<subseteq> S" by blast
  then have "sweep i (row # rows) st = sweep (i + 1) rows st1"
    using Cons.prems(4) i by (simp add: st get_def split: if_splits)
  moreover have "\<exists>st'. sweep (i + 1) rows st1 = Some st' \<and> length (fst st') = length graph \<and> marked (fst st') \<subseteq> S"
    using st1 Cons.prems(1) rows i S by (intro Cons.IH) auto
  ultimately show ?case by simp
qed simp

lemma sweep_closed:
  "sweep i rows st = Some (reach, False) \<Longrightarrow> k < length rows \<Longrightarrow> reach ! (i + k) \<Longrightarrow> \<not> snd st \<Longrightarrow>
    unat ` set (rows ! k) \<subseteq> marked reach"
proof (induction rows arbitrary: i st k)
  case (Cons row rows)
  have st: "st = (reach, False)" using sweep_grows [OF Cons.prems(1)] Cons.prems(4) by (cases st) (simp add: grows_def)
  then obtain st1 where st1: "(if \<not> reach ! i then Some st else mark_targets row st) = Some st1"
    and sw: "sweep (i + 1) rows st1 = Some (reach, False)" and i: "i < length reach"
    using Cons.prems(1) by (auto simp: get_def split: if_splits bind_splits)
  have eq: "st1 = (reach, False)"
    using sweep_grows [OF sw] st1 by (cases st1) (auto simp: grows_def)
  show ?case
  proof (cases k)
    case 0
    then have "mark_targets row (reach, False) = Some (reach, False)" using st1 eq st Cons.prems(3) by simp
    then have "\<forall>t\<in>set row. unat t \<in> marked reach"
      by (induction row) (auto simp: get_def marked_def split: if_splits dest: mark_targets_grows simp: grows_def)
    then show ?thesis using 0 by auto
  next
    case (Suc k')
    then show ?thesis using Cons.IH [OF sw, of k'] Cons.prems(2,3) eq by simp
  qed
qed simp

lemma sweep_mono: "sweep i rows st = Some st' \<Longrightarrow> marked (fst st) \<subseteq> marked (fst st')"
  using sweep_grows [of i rows st st'] by (auto simp: grows_def marked_def)

lemma reach_loop_least:
  assumes "in_range graph" and "length reach = length graph"
  shows "\<exists>r. reach_loop graph reach = Some r \<and> length r = length graph \<and> marked reach \<subseteq> marked r \<and>
    edges graph `` marked r \<subseteq> marked r \<and>
    (\<forall>S. edges graph `` S \<subseteq> S \<longrightarrow> marked reach \<subseteq> S \<longrightarrow> marked r \<subseteq> S)"
  using assms
proof (induction graph reach rule: reach_loop.induct)
  case (1 graph reach)
  have sw: "\<exists>st'. sweep 0 graph (reach, False) = Some st' \<and> length (fst st') = length graph \<and> marked (fst st') \<subseteq> S"
    if "edges graph `` S \<subseteq> S" "marked reach \<subseteq> S" for S
    using sweep_marked [of graph graph 0 "(reach, False)" S] "1.prems" that by simp
  from sw [of UNIV] obtain reach' changed where st: "sweep 0 graph (reach, False) = Some (reach', changed)"
    and len: "length reach' = length graph" by auto
  have mono: "marked reach \<subseteq> marked reach'" using sweep_mono [OF st] by simp
  have least: "marked reach' \<subseteq> S" if "edges graph `` S \<subseteq> S" "marked reach \<subseteq> S" for S
    using sw [OF that] st by simp
  show ?case
  proof (cases changed)
    case True
    then obtain r where "reach_loop graph reach' = Some r" "length r = length graph" "marked reach' \<subseteq> marked r"
      "edges graph `` marked r \<subseteq> marked r" "\<forall>S. edges graph `` S \<subseteq> S \<longrightarrow> marked reach' \<subseteq> S \<longrightarrow> marked r \<subseteq> S"
      using "1.IH" [OF st refl True "1.prems"(1) len] by blast
    then show ?thesis using st True mono least by (subst reach_loop.simps) (intro exI [of _ r], auto)
  next
    case False
    have "edges graph `` marked reach' \<subseteq> marked reach'"
      using sweep_closed [of 0 graph "(reach, False)" reach'] st False by (auto simp: edges_def marked_def)
    then show ?thesis using st False mono least len by (subst reach_loop.simps) auto
  qed
qed

lemma closure_eqI:
  assumes "R \<subseteq> M" and "E `` M \<subseteq> M" and "\<And>S. E `` S \<subseteq> S \<Longrightarrow> R \<subseteq> S \<Longrightarrow> M \<subseteq> S"
  shows "M = E\<^sup>* `` R"
proof
  show "M \<subseteq> E\<^sup>* `` R" by (rule assms(3)) (auto intro: rtrancl_into_rtrancl)
  show "E\<^sup>* `` R \<subseteq> M"
    using assms(1,2) by (metis Image_closed_trancl Image_mono order_refl)
qed

lemma reachable_from_closure:
  assumes "in_range graph"
  shows "\<exists>r. reachable_from graph roots = Some r \<and> length r = length graph \<and>
    marked r = (edges graph)\<^sup>* `` (unat ` set roots \<inter> {..<length graph})"
proof -
  have m: "marked (mark_roots roots (replicate (length graph) False)) = unat ` set roots \<inter> {..<length graph}"
    by (subst marked_roots) (auto simp: marked_def)
  obtain r where "reachable_from graph roots = Some r" "length r = length graph"
    "unat ` set roots \<inter> {..<length graph} \<subseteq> marked r" "edges graph `` marked r \<subseteq> marked r"
    "\<forall>S. edges graph `` S \<subseteq> S \<longrightarrow> unat ` set roots \<inter> {..<length graph} \<subseteq> S \<longrightarrow> marked r \<subseteq> S"
    using reach_loop_least [OF assms, of "mark_roots roots (replicate (length graph) False)"]
    by (auto simp: reachable_from_def m marked_roots(1))
  then show ?thesis using closure_eqI [of _ "marked r" "edges graph"] by auto
qed

section \<open>The call graph\<close>

lemma scan_calls_range:
  "(\<forall>t\<in>set row. unat t < n) \<and> distinct row \<Longrightarrow>
    (\<forall>t\<in>set (scan_calls n bs p row). unat t < n) \<and> distinct (scan_calls n bs p row)"
proof (induction n bs p row rule: scan_calls.induct)
  case (1 n bs p row)
  let ?call = "if bs ! p = OP_CALL then read_u32 (drop (p + 1) bs) else None"
  consider (stop) "\<not> p < length bs" | (other) "p < length bs" "?call = None"
    | (call) target consumed where "p < length bs" "?call = Some (target, consumed)"
    by (cases ?call) auto
  then show ?case
  proof cases
    case stop
    then have "scan_calls n bs p row = row" by (subst scan_calls.simps) simp
    then show ?thesis using "1.prems" by simp
  next
    case other
    then have "scan_calls n bs p row = scan_calls n bs (p + 1) row" by (subst scan_calls.simps) simp
    then show ?thesis using "1.IH"(1) [OF other "1.prems"] by simp
  next
    case call
    let ?row = "if unat target < n \<and> target \<notin> set row then row @ [target] else row"
    have eq: "scan_calls n bs p row = scan_calls n bs (p + 1 + consumed) ?row"
      using call by (subst scan_calls.simps) simp
    have "(\<forall>t\<in>set ?row. unat t < n) \<and> distinct ?row" using "1.prems" by auto
    from "1.IH"(2) [OF call(1,2) refl this] show ?thesis unfolding eq .
  qed
qed

lemma call_rows_range:
  "call_rows n data fbs = Some rows \<Longrightarrow>
    length rows = length fbs \<and> (\<forall>row\<in>set rows. distinct row \<and> (\<forall>t\<in>set row. unat t < n))"
proof (induction fbs arbitrary: rows)
  case (Cons fb fbs)
  then show ?case using scan_calls_range [of "[]" n] by (auto split: bind_splits)
qed simp

lemma call_graph_shape:
  assumes "call_graph m = Some (graph, m')"
  shows "length graph = num_function_bodies m'" and "in_range graph" and "\<forall>row\<in>set graph. distinct row"
proof -
  have "call_rows (num_function_bodies m') (wm_data m') (function_bodies m') = Some graph"
    using assms by (auto simp: call_graph_def split: bind_splits)
  moreover have "length (function_bodies m') = num_function_bodies m'"
    by (simp add: function_bodies_def num_function_bodies_def split: option.splits)
  ultimately show "length graph = num_function_bodies m'" "in_range graph" "\<forall>row\<in>set graph. distinct row"
    using call_rows_range by (fastforce simp: in_range_def)+
qed

text \<open>
  (C37) Reachability over a scanned call graph: whenever the scan returns a graph, it has one row without
  duplicates per function body and every edge leads to a function body, the reachability loop terminates
  without an out-of-range access on it, and a function is marked if and only if some root inside the
  graph leads to it by edges of the graph.
\<close>

theorem call_graph_reachable:
  assumes "call_graph m = Some (graph, m')"
  shows "length graph = num_function_bodies m' \<and> (\<forall>row\<in>set graph. distinct row) \<and>
    (\<exists>r. reachable_from graph roots = Some r \<and> length r = length graph \<and>
      (\<forall>j<length graph. r ! j \<longleftrightarrow> (\<exists>root\<in>set roots. unat root < length graph \<and> (unat root, j) \<in> (edges graph)\<^sup>*)))"
proof -
  obtain r where "reachable_from graph roots = Some r" and len: "length r = length graph"
    and m: "marked r = (edges graph)\<^sup>* `` (unat ` set roots \<inter> {..<length graph})"
    using reachable_from_closure [OF call_graph_shape(2) [OF assms]] by blast
  moreover have "r ! j \<longleftrightarrow> (\<exists>root\<in>set roots. unat root < length graph \<and> (unat root, j) \<in> (edges graph)\<^sup>*)"
    if "j < length graph" for j
  proof -
    have "r ! j \<longleftrightarrow> j \<in> marked r" using that len by (simp add: marked_def)
    then show ?thesis unfolding m by auto
  qed
  ultimately show ?thesis using call_graph_shape(1,3) [OF assms] by blast
qed

theorem call_graph_reachable_witness:
  "\<exists>graph m' r. call_graph \<lparr>wm_data = [0, 0x10, 1, 0x0B, 0, 0x0B], wm_sections = [], wm_function_bodies =
        Some [\<lparr>fb_full = \<lparr>sp_offset = 0, sp_len = 4\<rparr>, fb_body = \<lparr>sp_offset = 0, sp_len = 4\<rparr>\<rparr>,
              \<lparr>fb_full = \<lparr>sp_offset = 4, sp_len = 2\<rparr>, fb_body = \<lparr>sp_offset = 4, sp_len = 2\<rparr>\<rparr>]\<rparr> = Some (graph, m') \<and>
    reachable_from graph [0] = Some r \<and> length r = 2"
proof -
  let ?m = "\<lparr>wm_data = [0, 0x10, 1, 0x0B, 0, 0x0B], wm_sections = [], wm_function_bodies =
        Some [\<lparr>fb_full = \<lparr>sp_offset = 0, sp_len = 4\<rparr>, fb_body = \<lparr>sp_offset = 0, sp_len = 4\<rparr>\<rparr>,
              \<lparr>fb_full = \<lparr>sp_offset = 4, sp_len = 2\<rparr>, fb_body = \<lparr>sp_offset = 4, sp_len = 2\<rparr>\<rparr>]\<rparr> :: wasm_module"
  have "map_option fst (call_graph ?m) = Some [[1], []]" by code_simp
  then obtain m' where g: "call_graph ?m = Some ([[1], []], m')" by auto
  from call_graph_reachable [OF g, of "[0]"] show ?thesis using g by auto
qed

text \<open>
  The scan looks at every byte, so a byte \<open>0x10\<close> inside an immediate can swallow the opcode of a real
  call behind it: the body \<open>i32.const 16; call 0; end\<close> has a call instruction at offset 2, and the scan
  finds no call.
\<close>

theorem scan_misses_call:
  "walk [0x41, 0x10, 0x10, 0x00, 0x0B] 0 = Some [(0, 2), (2, 2), (4, 1)] \<and>
    scan_calls 1 [0x41, 0x10, 0x10, 0x00, 0x0B] 0 [] = []"
  by code_simp

end
