(* ===== verification/Remap.thy ===== *)
theory Remap
  imports Prelude
begin

text \<open>
  Model of \<open>wilt/src/remap.rs\<close>: tables from input to output function indices, composed along the
  passes of the optimiser. The interface \<open>renumbering\<close> is the category that the pipeline relies on:
  looking up in a composed table is looking up twice, and composition is associative.
\<close>

record func_remap =
  entries :: "u32 option list"

definition remap_identity :: "u32 \<Rightarrow> func_remap" where
  "remap_identity n = \<lparr>entries = map (\<lambda>i. Some (of_nat i)) [0..<unat n]\<rparr>"

definition from_entries :: "u32 option list \<Rightarrow> func_remap" where
  "from_entries es = \<lparr>entries = es\<rparr>"

definition remap_lookup :: "func_remap \<Rightarrow> u32 \<Rightarrow> u32 option" where
  "remap_lookup r input = do { slot \<leftarrow> get (entries r) (unat input); slot }"

definition remap_len :: "func_remap \<Rightarrow> u32" where
  "remap_len r = of_nat (length (entries r))"

definition remap_is_empty :: "func_remap \<Rightarrow> bool" where
  "remap_is_empty r \<longleftrightarrow> entries r = []"

definition compose :: "func_remap \<Rightarrow> func_remap \<Rightarrow> func_remap" where
  "compose self next_map =
     \<lparr>entries =
        map (\<lambda>slot. case slot of
                Some mid \<Rightarrow> do { s \<leftarrow> get (entries next_map) (unat mid); s }
              | None \<Rightarrow> None)
          (entries self)\<rparr>"

text \<open>\<open>m.entry(out).or_default().push(i)\<close> along the table.\<close>

fun by_output_loop :: "nat \<Rightarrow> u32 option list \<Rightarrow> (u32 \<rightharpoonup> u32 list) \<Rightarrow> (u32 \<rightharpoonup> u32 list)" where
  "by_output_loop i [] m = m"
| "by_output_loop i (slot # slots) m =
     by_output_loop (i + 1) slots
       (case slot of
          Some out \<Rightarrow> m(out \<mapsto> (case m out of None \<Rightarrow> [] | Some v \<Rightarrow> v) @ [of_nat i])
        | None \<Rightarrow> m)"

definition by_output :: "func_remap \<Rightarrow> (u32 \<rightharpoonup> u32 list)" where
  "by_output r = by_output_loop 0 (entries r) Map.empty"

section \<open>Local indices\<close>

record local_remap =
  per_function :: "u32 \<rightharpoonup> u32 list"

definition local_remap_new :: local_remap where
  "local_remap_new = \<lparr>per_function = Map.empty\<rparr>"

definition local_remap_insert :: "local_remap \<Rightarrow> u32 \<Rightarrow> u32 list \<Rightarrow> local_remap" where
  "local_remap_insert l func m = l\<lparr>per_function := (per_function l)(func \<mapsto> m)\<rparr>"

definition local_remap_lookup :: "local_remap \<Rightarrow> u32 \<Rightarrow> u32 \<Rightarrow> u32 option" where
  "local_remap_lookup l func input_local = do { v \<leftarrow> per_function l func; get v (unat input_local) }"

section \<open>Renumberings\<close>

text \<open>
  The laws hold for tables whose every entry can be addressed with a 32-bit index (\<open>valid\<close>).
\<close>

locale renumbering =
  fixes look :: "'t \<Rightarrow> 'i \<Rightarrow> 'i option" and comp :: "'t \<Rightarrow> 't \<Rightarrow> 't" and ident :: "'n \<Rightarrow> 't"
    and covers :: "'t \<Rightarrow> 'c" and below :: "'n \<Rightarrow> 'i \<Rightarrow> bool" and valid :: "'t \<Rightarrow> bool"
  assumes look_comp: "look (comp a b) i = do { m \<leftarrow> look a i; look b m }"
    and covers_comp: "covers (comp a b) = covers a"
    and valid_comp: "valid a \<Longrightarrow> valid (comp a b)"
    and look_ident: "look (ident n) i = (if below n i then Some i else None)"
    and ext: "valid a \<Longrightarrow> valid b \<Longrightarrow> covers a = covers b \<Longrightarrow> look a = look b \<Longrightarrow> a = b"
begin

lemma comp_assoc: "valid a \<Longrightarrow> comp (comp a b) c = comp a (comp b c)"
  by (rule ext) (auto simp: covers_comp valid_comp look_comp fun_eq_iff split: bind_split)

lemma comp_ident_right:
  assumes "valid a" and "\<And>i m. look a i = Some m \<Longrightarrow> below n m"
  shows "comp a (ident n) = a"
proof (rule ext)
  have "look (comp a (ident n)) i = look a i" for i
    using assms(2) [of i] by (cases "look a i") (simp_all add: look_comp look_ident)
  then show "look (comp a (ident n)) = look a" by (simp add: fun_eq_iff)
qed (simp_all add: assms(1) covers_comp valid_comp)

text \<open>A whole pipeline of tables acts as the tables one after the other.\<close>

lemma look_fold: "look (foldl comp a ts) i = foldl (\<lambda>r t. do { m \<leftarrow> r; look t m }) (look a i) ts"
  by (induction ts arbitrary: a) (simp_all add: look_comp)

end

definition remap_valid :: "func_remap \<Rightarrow> bool" where
  "remap_valid r \<longleftrightarrow> length (entries r) \<le> 2 ^ 32"

lemma remap_ext:
  assumes "remap_valid a" and "length (entries a) = length (entries b)" and "remap_lookup a = remap_lookup b"
  shows "a = b"
proof -
  have "entries a ! k = entries b ! k" if "k < length (entries a)" for k
  proof -
    have "unat (of_nat k :: u32) = k"
      using that assms(1) by (simp add: remap_valid_def unat_of_nat take_bit_nat_eq_self)
    then show ?thesis using fun_cong [OF assms(3), of "of_nat k"] that assms(2) by (simp add: remap_lookup_def get_def)
  qed
  then have "entries a = entries b" using assms(2) by (simp add: list_eq_iff_nth_eq)
  then show ?thesis by (cases a, cases b) simp
qed

interpretation remap: renumbering remap_lookup compose remap_identity "\<lambda>r. length (entries r)" "\<lambda>n i. i < n" remap_valid
proof unfold_locales
  show "remap_lookup (compose a b) i = do { m \<leftarrow> remap_lookup a i; remap_lookup b m }" for a b i
    by (auto simp: remap_lookup_def compose_def get_def split: option.splits)
  show "remap_lookup (remap_identity n) i = (if i < n then Some i else None)" for n i
    by (simp add: remap_lookup_def remap_identity_def get_def word_less_nat_alt)
qed (simp_all add: compose_def remap_valid_def remap_ext)

section \<open>Grouping by output\<close>

lemma filter_upt_Cons:
  "filter (\<lambda>k. (x # xs) ! k = y) [0..<Suc n] =
    (if x = y then [0] else []) @ map Suc (filter (\<lambda>k. xs ! k = y) [0..<n])"
  by (subst upt_conv_Cons, simp, subst map_Suc_upt [symmetric], simp add: filter_map o_def)

lemma by_output_loop_map:
  "by_output_loop i slots m out =
    (let ks = filter (\<lambda>k. slots ! k = Some out) [0..<length slots]
     in if ks = [] then m out
        else Some ((case m out of None \<Rightarrow> [] | Some v \<Rightarrow> v) @ map (\<lambda>k. of_nat (i + k)) ks))"
proof (induction slots arbitrary: i m)
  case (Cons slot slots)
  show ?case
    by (cases "slot = Some out"; cases slot)
      (simp_all add: Cons.IH filter_upt_Cons Let_def ac_simps del: upt_Suc split: option.splits)
qed simp

text \<open>
  Grouping a table by outputs lists, for every output, exactly the inputs that the table maps to it, in
  increasing order, and has no entry for an output that nothing is mapped to.
\<close>

theorem by_output_preimages:
  assumes "remap_valid r"
  shows "by_output r out =
    (let is = filter (\<lambda>i. remap_lookup r i = Some out) (map of_nat [0..<length (entries r)])
     in if is = [] then None else Some is)"
proof -
  have "remap_lookup r (of_nat k) = entries r ! k" if "k < length (entries r)" for k
  proof -
    have "unat (of_nat k :: u32) = k"
      using that assms by (simp add: remap_valid_def unat_of_nat take_bit_nat_eq_self)
    then show ?thesis using that by (simp add: remap_lookup_def get_def)
  qed
  then have "filter (\<lambda>i. remap_lookup r i = Some out) (map of_nat [0..<length (entries r)]) =
      map of_nat (filter (\<lambda>k. entries r ! k = Some out) [0..<length (entries r)])"
    by (auto simp: filter_map o_def intro!: arg_cong [of _ _ "map of_nat"] filter_cong)
  then show ?thesis
    by (auto simp: by_output_def by_output_loop_map Let_def split: list.splits)
qed

theorem by_output_preimages_witness:
  "by_output (from_entries [Some 0, Some 1, Some 0, None]) 0 = Some [0, 2]"
proof -
  have "remap_valid (from_entries [Some 0, Some 1, Some 0, None])" by (simp add: remap_valid_def from_entries_def)
  from by_output_preimages [OF this, of 0] show ?thesis by (simp add: from_entries_def remap_lookup_def get_def)
qed

text \<open>
  The tables of a pipeline compose: a lookup in the composition of any number of tables is the
  sequence of lookups, a function eliminated by one table stays eliminated, composition is associative,
  and the identity table of the output space is neutral.
\<close>

theorem remap_pipeline:
  assumes "remap_valid a" and "\<forall>i m. remap_lookup a i = Some m \<longrightarrow> m < n"
  shows "remap_lookup (foldl compose a ts) i = foldl (\<lambda>r t. do { m \<leftarrow> r; remap_lookup t m }) (remap_lookup a i) ts \<and>
    compose (compose a b) c = compose a (compose b c) \<and> compose a (remap_identity n) = a"
  using assms by (intro conjI remap.look_fold remap.comp_assoc remap.comp_ident_right) auto

theorem remap_pipeline_witness:
  "compose (from_entries [Some 1, Some 0, None]) (remap_identity 2) = from_entries [Some 1, Some 0, None]"
proof -
  have "remap_valid (from_entries [Some 1, Some 0, None])" by (simp add: remap_valid_def from_entries_def)
  moreover have "\<forall>i m. remap_lookup (from_entries [Some 1, Some 0, None]) i = Some m \<longrightarrow> m < 2"
    by (auto simp: remap_lookup_def from_entries_def get_def nth_Cons' split: if_splits)
  ultimately show ?thesis using remap_pipeline [of "from_entries [Some 1, Some 0, None]" 2] by simp
qed

end
