(* ===== verification/Provenance.thy ===== *)
theory Provenance
  imports Prelude
begin

text \<open>
  Model of \<open>wilt/src/provenance.rs\<close>: the byte-range substitutions that a pass makes in a function body,
  applying them to the input, and composing the lists of two passes.
\<close>

section \<open>Edits\<close>

record edit =
  in_start :: u32
  in_len :: u32
  out_start :: u32
  out_len :: u32

definition edit_delete :: "u32 \<Rightarrow> u32 \<Rightarrow> u32 \<Rightarrow> edit" where
  "edit_delete is il os = \<lparr>in_start = is, in_len = il, out_start = os, out_len = 0\<rparr>"

definition edit_synth :: "u32 \<Rightarrow> u32 \<Rightarrow> u32 \<Rightarrow> edit" where
  "edit_synth is os ol = \<lparr>in_start = is, in_len = 0, out_start = os, out_len = ol\<rparr>"

definition edit_subst :: "u32 \<Rightarrow> u32 \<Rightarrow> u32 \<Rightarrow> u32 \<Rightarrow> edit" where
  "edit_subst is il os ol = \<lparr>in_start = is, in_len = il, out_start = os, out_len = ol\<rparr>"

definition in_end :: "edit \<Rightarrow> u32" where
  "in_end e = in_start e + in_len e"

definition out_end :: "edit \<Rightarrow> u32" where
  "out_end e = out_start e + out_len e"

record body_edits =
  edits :: "edit list"
  src_funcs :: "u32 option list"

definition identity_edits :: body_edits where
  "identity_edits = \<lparr>edits = [], src_funcs = []\<rparr>"

definition from_edits :: "edit list \<Rightarrow> body_edits" where
  "from_edits es = \<lparr>edits = es, src_funcs = replicate (length es) None\<rparr>"

definition from_edits_with_sources :: "edit list \<Rightarrow> u32 option list \<Rightarrow> body_edits" where
  "from_edits_with_sources es srcs = \<lparr>edits = es, src_funcs = srcs\<rparr>"

definition is_identity :: "body_edits \<Rightarrow> bool" where
  "is_identity b \<longleftrightarrow> edits b = []"

definition push_edit :: "body_edits \<Rightarrow> edit \<Rightarrow> u32 option \<Rightarrow> body_edits" where
  "push_edit b e src = \<lparr>edits = edits b @ [e], src_funcs = src_funcs b @ [src]\<rparr>"

section \<open>Applying\<close>

text \<open>
  The check of the first loop: every edit ends inside the input, and the length of the output can be
  computed in 32 bits.
\<close>

definition checked_sub32 :: "u32 \<Rightarrow> u32 \<Rightarrow> u32 option" where
  "checked_sub32 a b = (if b \<le> a then Some (a - b) else None)"

definition checked_add32 :: "u32 \<Rightarrow> u32 \<Rightarrow> u32 option" where
  "checked_add32 a b = (if a \<le> a + b then Some (a + b) else None)"

lemma no_wrap_iff: "a \<le> a + b \<longleftrightarrow> unat a + unat b < 2 ^ 32" for a b :: u32
  using no_olen_add_nat [of a b] by simp

fun apply_out_len :: "edit list \<Rightarrow> nat \<Rightarrow> u32 \<Rightarrow> u32 option" where
  "apply_out_len [] n ol = Some ol"
| "apply_out_len (e # es) n ol =
     (if n < unat (in_end e) then None
      else do { a \<leftarrow> checked_sub32 ol (in_len e); b \<leftarrow> checked_add32 a (out_len e); apply_out_len es n b })"

text \<open>
  The copying loop. The outer \<^const>\<open>None\<close> is a panic of a slice, the inner one the function's \<open>None\<close>.
\<close>

fun apply_loop :: "(nat \<Rightarrow> u32 option \<Rightarrow> u32 \<Rightarrow> bytes option) \<Rightarrow> bytes \<Rightarrow> nat \<Rightarrow> edit list \<Rightarrow> u32 option list \<Rightarrow> u32 \<Rightarrow>
    bytes option option" where
  "apply_loop synth input i [] srcs in_cursor =
     (if length input < unat in_cursor then Some None
      else do { r \<leftarrow> get_from input (unat in_cursor); Some (Some r) })"
| "apply_loop synth input i (e # es) srcs in_cursor =
     (if in_start e < in_cursor then Some None
      else do {
        kept \<leftarrow> get_range input (unat in_cursor) (unat (in_start e));
        src \<leftarrow> (if out_len e > 0 then get srcs i else Some None);
        case (if out_len e > 0
              then do { bs \<leftarrow> synth i src (out_len e); if of_nat (length bs) = out_len e then Some bs else None }
              else Some []) of
          None \<Rightarrow> Some None
        | Some bs \<Rightarrow>
            do {
              r \<leftarrow> apply_loop synth input (i + 1) es srcs (in_end e);
              Some (map_option (\<lambda>rest. kept @ bs @ rest) r)
            }
      })"

definition apply_edits :: "body_edits \<Rightarrow> bytes \<Rightarrow> (nat \<Rightarrow> u32 option \<Rightarrow> u32 \<Rightarrow> bytes option) \<Rightarrow> bytes option option" where
  "apply_edits b input synth =
     (case apply_out_len (edits b) (length input) (of_nat (length input)) of
        None \<Rightarrow> Some None
      | Some _ \<Rightarrow> apply_loop synth input 0 (edits b) (src_funcs b) 0)"

section \<open>Composing\<close>

definition saturating_sub32 :: "u32 \<Rightarrow> u32 \<Rightarrow> u32" where
  "saturating_sub32 a b = (if b \<le> a then a - b else 0)"

definition saturating_add32 :: "u32 \<Rightarrow> u32 \<Rightarrow> u32" where
  "saturating_add32 a b = (if a \<le> a + b then a + b else - 1)"

text \<open>The state of the loop in \<open>mid_to_in\<close>; 64-bit sums of 32-bit lengths do not overflow.\<close>

record mid_state =
  accum_before :: int
  in_lo :: u32
  in_hi :: u32
  had_overlap :: bool
  accum_thru_overlap :: int

fun mid_loop :: "u32 \<Rightarrow> u32 \<Rightarrow> edit list \<Rightarrow> mid_state \<Rightarrow> mid_state" where
  "mid_loop mid_start mid_end [] st = st"
| "mid_loop mid_start mid_end (ae # es) st =
     (if out_end ae \<le> mid_start
      then mid_loop mid_start mid_end es
             (st\<lparr>accum_before := accum_before st + (uint (in_len ae) - uint (out_len ae))\<rparr>)
      else if mid_end \<le> out_start ae then st
      else mid_loop mid_start mid_end es
             (st\<lparr>had_overlap := True,
                 in_lo := min (in_lo st) (in_start ae),
                 in_hi := max (in_hi st) (in_end ae),
                 accum_thru_overlap := accum_thru_overlap st + (uint (in_len ae) - uint (out_len ae))\<rparr>))"

definition mid_to_in :: "u32 \<Rightarrow> u32 \<Rightarrow> body_edits \<Rightarrow> u32 \<times> u32" where
  "mid_to_in mid_start mid_len a =
     (if is_identity a then (mid_start, mid_len)
      else
        (let mid_end = mid_start + mid_len;
             st = mid_loop mid_start mid_end (edits a)
                    \<lparr>accum_before = 0, in_lo = - 1, in_hi = 0, had_overlap = False, accum_thru_overlap = 0\<rparr>
         in if \<not> had_overlap st then (of_int (max (uint mid_start + accum_before st) 0), mid_len)
            else
              (let overlaps = (\<lambda>e. mid_start < out_end e \<and> out_start e < mid_end);
                   first_overlap_out_start =
                     (case find overlaps (edits a) of Some e \<Rightarrow> out_start e | None \<Rightarrow> mid_start);
                   last_overlap_out_end =
                     (case find overlaps (rev (edits a)) of Some e \<Rightarrow> out_end e | None \<Rightarrow> mid_end);
                   lo = (if mid_start < first_overlap_out_start
                         then min (in_lo st) (of_int (max (uint mid_start + accum_before st) 0))
                         else in_lo st);
                   hi = (if last_overlap_out_end < mid_end
                         then max (in_hi st)
                                (of_int (max (uint mid_end + (accum_before st + accum_thru_overlap st)) 0))
                         else in_hi st)
               in (lo, saturating_sub32 hi lo))))"

fun find_src_loop :: "u32 \<Rightarrow> u32 \<Rightarrow> edit list \<Rightarrow> u32 option list \<Rightarrow> u32 option" where
  "find_src_loop mid_start mid_end (ae # es) (src # srcs) =
     (if out_end ae \<le> mid_start then find_src_loop mid_start mid_end es srcs
      else if mid_end \<le> out_start ae then None
      else case src of Some s \<Rightarrow> Some s | None \<Rightarrow> find_src_loop mid_start mid_end es srcs)"
| "find_src_loop mid_start mid_end _ _ = None"

definition find_src_in_a :: "u32 \<Rightarrow> u32 \<Rightarrow> body_edits \<Rightarrow> u32 option" where
  "find_src_in_a mid_start mid_len a = find_src_loop mid_start (mid_start + mid_len) (edits a) (src_funcs a)"

text \<open>
  The loops of \<open>compose\<close>: the edits of \<open>a\<close> that are still to be emitted, with their sources, the
  positions reached in the middle and the output, and what was emitted.
\<close>

fun emit_before :: "u32 \<Rightarrow> (edit \<times> u32 option) list \<Rightarrow> u32 \<Rightarrow> u32 \<Rightarrow>
    (edit \<times> u32 option) list \<times> (edit \<times> u32 option) list \<times> u32 \<times> u32" where
  "emit_before limit [] mid_cursor out_cursor = ([], [], mid_cursor, out_cursor)"
| "emit_before limit ((ae, src) # as) mid_cursor out_cursor =
     (if out_end ae \<le> limit then
        (let new_out = saturating_add32 out_cursor (saturating_sub32 (out_start ae) mid_cursor);
             (emitted, left, mc, oc) = emit_before limit as (out_start ae) new_out
         in ((ae\<lparr>out_start := new_out\<rparr>, src) # emitted, left, mc, oc))
      else ([], (ae, src) # as, mid_cursor, out_cursor))"

fun compose_loop :: "body_edits \<Rightarrow> (edit \<times> u32 option) list \<Rightarrow> (edit \<times> u32 option) list \<Rightarrow> u32 \<Rightarrow> u32 \<Rightarrow>
    (edit \<times> u32 option) list" where
  "compose_loop a as [] mid_cursor out_cursor =
     map (\<lambda>(ae, src). (ae\<lparr>out_start := saturating_add32 (saturating_sub32 (out_start ae) mid_cursor) out_cursor\<rparr>, src)) as"
| "compose_loop a as ((be, bsrc) # bs) mid_cursor out_cursor =
     (let (emitted, left, mc, oc) = emit_before (out_start be) as mid_cursor out_cursor;
          (is, il) = mid_to_in (in_start be) (in_len be) a;
          src = (case bsrc of Some s \<Rightarrow> Some s | None \<Rightarrow> find_src_in_a (in_start be) (in_len be) a);
          oc' = saturating_add32 oc (saturating_sub32 (in_start be) mc)
      in emitted @
         (\<lparr>in_start = is, in_len = il, out_start = oc', out_len = out_len be\<rparr>, src) #
         compose_loop a left bs (in_end be) (saturating_add32 oc' (out_len be)))"

definition compose_edits :: "body_edits \<Rightarrow> body_edits \<Rightarrow> body_edits" where
  "compose_edits a b =
     (if is_identity a then b
      else if is_identity b then a
      else
        (let res = compose_loop a (zip (edits a) (src_funcs a)) (zip (edits b) (src_funcs b)) 0 0
         in \<lparr>edits = map fst res, src_funcs = map snd res\<rparr>))"

section \<open>Edit lists of a splice\<close>

text \<open>
  A pass cuts a body into segments: bytes it keeps, bytes it replaces, and what it puts in their place.
  The edit list of such a splice, with the positions reached in input and output.
\<close>

type_synonym seg = "bytes \<times> bytes \<times> bytes"

fun seg_in :: "seg list \<Rightarrow> bytes" where
  "seg_in [] = []"
| "seg_in ((kept, old, new) # segs) = kept @ old @ seg_in segs"

fun seg_out :: "seg list \<Rightarrow> bytes" where
  "seg_out [] = []"
| "seg_out ((kept, old, new) # segs) = kept @ new @ seg_out segs"

fun seg_edits :: "nat \<Rightarrow> nat \<Rightarrow> seg list \<Rightarrow> edit list" where
  "seg_edits ip op [] = []"
| "seg_edits ip op ((kept, old, new) # segs) =
     \<lparr>in_start = of_nat (ip + length kept), in_len = of_nat (length old),
      out_start = of_nat (op + length kept), out_len = of_nat (length new)\<rparr> #
     seg_edits (ip + length kept + length old) (op + length kept + length new) segs"

abbreviation seg_new :: "seg list \<Rightarrow> nat" where
  "seg_new segs \<equiv> sum_list (map (\<lambda>(kept, old, new). length new) segs)"

lemma length_seg_edits [simp]: "length (seg_edits ip op segs) = length segs"
  by (induction ip op segs rule: seg_edits.induct) simp_all

lemma unat_of_nat_small: "n < 2 ^ 32 \<Longrightarrow> unat (of_nat n :: u32) = n"
  by (simp add: unat_of_nat take_bit_nat_eq_self)

lemma apply_out_len_segs:
  assumes "n + seg_new segs < 2 ^ 32" and "ip + length (seg_in segs) \<le> len0" and "len0 < 2 ^ 32"
    and "length (seg_in segs) \<le> n"
  shows "apply_out_len (seg_edits ip op segs) len0 (of_nat n) \<noteq> None"
  using assms
proof (induction ip op segs arbitrary: n rule: seg_edits.induct)
  case (2 ip op kept old new segs)
  let ?e = "\<lparr>in_start = of_nat (ip + length kept), in_len = of_nat (length old),
      out_start = of_nat (op + length kept), out_len = of_nat (length new)\<rparr> :: edit"
  have old: "unat (of_nat (length old) :: u32) = length old" and new: "unat (of_nat (length new) :: u32) = length new"
    and n: "unat (of_nat n :: u32) = n" "length old \<le> n"
    using "2.prems" by (simp_all add: unat_of_nat_small)
  have "in_end ?e = of_nat (ip + length kept + length old)" by (simp add: in_end_def)
  then have "unat (in_end ?e) \<le> len0" using "2.prems" by (simp add: unat_of_nat_small del: of_nat_add)
  moreover have sub: "checked_sub32 (of_nat n) (of_nat (length old)) = Some (of_nat (n - length old))"
    using n old by (simp add: checked_sub32_def word_le_nat_alt)
  moreover have "checked_add32 (of_nat (n - length old)) (of_nat (length new)) = Some (of_nat (n - length old + length new))"
    using "2.prems"(1) new by (simp add: checked_add32_def no_wrap_iff unat_of_nat_small del: of_nat_diff)
  moreover have "apply_out_len (seg_edits (ip + length kept + length old) (op + length kept + length new) segs) len0
      (of_nat (n - length old + length new)) \<noteq> None"
    using "2.prems" by (intro "2.IH") auto
  ultimately show ?case by simp
qed simp

lemma apply_loop_segs:
  assumes "input = pre @ seg_in segs @ tail" and "length input < 2 ^ 32"
    and "\<forall>(kept, old, new)\<in>set segs. length new < 2 ^ 32"
    and "length srcs = i + length segs"
    and "\<And>k kept old new. k < length segs \<Longrightarrow> segs ! k = (kept, old, new) \<Longrightarrow> new \<noteq> [] \<Longrightarrow>
      synth (i + k) (srcs ! (i + k)) (of_nat (length new)) = Some new"
  shows "apply_loop synth input i (seg_edits (length pre) op segs) srcs (of_nat (length pre)) =
    Some (Some (seg_out segs @ tail))"
  using assms
proof (induction segs arbitrary: pre op i)
  case Nil
  then show ?case by (simp add: unat_of_nat_small get_from_def)
next
  case (Cons seg segs)
  obtain kept old new where seg: "seg = (kept, old, new)" by (cases seg)
  let ?e = "\<lparr>in_start = of_nat (length pre + length kept), in_len = of_nat (length old),
      out_start = of_nat (op + length kept), out_len = of_nat (length new)\<rparr> :: edit"
  have u: "unat (of_nat (length pre) :: u32) = length pre" "unat (of_nat (length pre + length kept) :: u32) = length pre + length kept"
    using Cons.prems(1,2) by (simp_all add: seg unat_of_nat_small del: of_nat_add)
  have new: "unat (of_nat (length new) :: u32) = length new" using Cons.prems(3) by (simp add: seg unat_of_nat_small)
  have pos: "(0 :: u32) < of_nat (length new) \<longleftrightarrow> new \<noteq> []" using new by (auto simp: word_less_nat_alt)
  have kept: "get_range input (length pre) (length pre + length kept) = Some kept"
    by (simp add: get_range_def Cons.prems(1) seg)
  have "in_end ?e = of_nat (length (pre @ kept @ old))" by (simp add: in_end_def)
  moreover have IH: "apply_loop synth input (i + 1) (seg_edits (length (pre @ kept @ old)) (op + length kept + length new) segs) srcs
      (of_nat (length (pre @ kept @ old))) = Some (Some (seg_out segs @ tail))"
  proof (rule Cons.IH)
    fix k kept old new
    assume "k < length segs" "segs ! k = (kept, old, new)" "new \<noteq> []"
    then show "synth (i + 1 + k) (srcs ! (i + 1 + k)) (of_nat (length new)) = Some new"
      using Cons.prems(5) [of "Suc k" kept old new] by simp
  qed (use Cons.prems in \<open>auto simp: seg\<close>)
  moreover have "synth i (srcs ! i) (of_nat (length new)) = Some new" if "new \<noteq> []"
    using Cons.prems(5) [of 0 kept old new] that by (simp add: seg)
  moreover have "\<not> in_start ?e < of_nat (length pre)" using u by (simp add: word_less_nat_alt)
  ultimately show ?case
    using u kept Cons.prems(4) pos by (auto simp: seg get_def add.assoc)
qed

lemma apply_segs:
  assumes "length (seg_in segs @ tail) + seg_new segs < 2 ^ 32"
    and "\<forall>k<length segs. \<forall>kept old new. segs ! k = (kept, old, new) \<longrightarrow> new \<noteq> [] \<longrightarrow>
      synth k None (of_nat (length new)) = Some new"
  shows "apply_edits (from_edits (seg_edits 0 0 segs)) (seg_in segs @ tail) synth = Some (Some (seg_out segs @ tail))"
proof -
  have small: "length new < 2 ^ 32" if "(kept, old, new) \<in> set segs" for kept old new
    using member_le_sum_list [of "length new" "map (\<lambda>(kept, old, new). length new) segs"] that assms(1)
    by (force simp del: length_append)
  have "apply_out_len (seg_edits 0 0 segs) (length (seg_in segs @ tail)) (of_nat (length (seg_in segs @ tail))) \<noteq> None"
    using assms(1) by (intro apply_out_len_segs) auto
  moreover have "apply_loop synth (seg_in segs @ tail) 0 (seg_edits (length ([] :: bytes)) 0 segs) (replicate (length segs) None)
      (of_nat (length ([] :: bytes))) = Some (Some (seg_out segs @ tail))"
    using assms small by (intro apply_loop_segs) (auto simp del: list.size(3))
  ultimately show ?thesis by (auto simp: apply_edits_def from_edits_def)
qed

text \<open>
  Applying the edit list of a splice reproduces the splice: whenever input and inserted bytes
  together stay below 4 GiB and the callback supplies the new bytes of every segment that has some, the
  result is the kept and the new bytes in order, without a panic.
\<close>

theorem apply_splice:
  assumes "length (seg_in segs @ tail) + seg_new segs < 2 ^ 32"
    and "\<forall>k<length segs. \<forall>kept old new. segs ! k = (kept, old, new) \<longrightarrow> new \<noteq> [] \<longrightarrow>
      synth k None (of_nat (length new)) = Some new"
  shows "apply_edits (from_edits (seg_edits 0 0 segs)) (seg_in segs @ tail) synth = Some (Some (seg_out segs @ tail))"
  using assms by (rule apply_segs)

theorem apply_splice_witness:
  "apply_edits (from_edits (seg_edits 0 0 [([1], [2, 3], [9])])) [1, 2, 3, 4] (\<lambda>k src n. Some [9]) = Some (Some [1, 9, 4])"
  using apply_splice [of "[([1], [2, 3], [9])]" "[4]" "\<lambda>k src n. Some [9]"] by simp

text \<open>
  Composition is not faithful when the second list edits a range that contains an edit of the first
  one: with the first list deleting two bytes and the second deleting three bytes around that place, each
  list applies to its input, but the composed list emits the absorbed edit a second time and cannot be
  applied.
\<close>

theorem compose_overlap_broken:
  "\<exists>a b input mid out. apply_edits a input (\<lambda>_ _ _. None) = Some (Some mid) \<and>
    apply_edits b mid (\<lambda>_ _ _. None) = Some (Some out) \<and>
    apply_edits (compose_edits a b) input (\<lambda>_ _ _. None) = Some None"
proof (intro exI conjI)
  let ?a = "push_edit identity_edits (edit_delete 2 2 2) None" and ?b = "push_edit identity_edits (edit_delete 1 3 1) None"
  let ?in = "[1, 2, 3, 4, 5, 6, 7, 8] :: bytes"
  show "apply_edits ?a ?in (\<lambda>_ _ _. None) = Some (Some [1, 2, 5, 6, 7, 8])" by code_simp
  show "apply_edits ?b [1, 2, 5, 6, 7, 8] (\<lambda>_ _ _. None) = Some (Some [1, 7, 8])" by code_simp
  show "apply_edits (compose_edits ?a ?b) ?in (\<lambda>_ _ _. None) = Some None" by code_simp
qed

end
