(* ===== verification/Const_Fold.thy ===== *)
theory Const_Fold
  imports Wasm_Module Provenance
begin

text \<open>
  Model of \<open>wilt/src/passes/const_fold.rs\<close>: the pass that evaluates \<open>i32\<close> operations on constants and
  removes operations with a right identity. Its correctness is stated over the instructions of the body:
  the result is related to the input by rewrite steps whose values are those of the WebAssembly
  specification, it decodes to the rewritten instructions, and its edit list describes it.
\<close>

section \<open>Constants\<close>

fun read_sleb_loop :: "i32 \<Rightarrow> nat \<Rightarrow> nat \<Rightarrow> bytes \<Rightarrow> (i32 \<times> nat) option" where
  "read_sleb_loop result shift i [] = None"
| "read_sleb_loop result shift i (byte # data) =
     (let result' = result OR push_bit shift (ucast (byte AND 0x7F));
          shift' = shift + 7
      in if byte < 0x80 then
           Some (if shift' < 32 \<and> byte AND 0x40 \<noteq> 0 then result' OR push_bit shift' (- 1) else result', i + 1)
         else if 35 \<le> shift' then None
         else read_sleb_loop result' shift' (i + 1) data)"

definition read_sleb128_i32 :: "bytes \<Rightarrow> (i32 \<times> nat) option" where
  "read_sleb128_i32 data = read_sleb_loop 0 0 0 data"

function write_sleb128_i32 :: "i32 \<Rightarrow> bytes" where
  "write_sleb128_i32 v =
     (let byte = ucast (v AND 0x7F);
          v' = signed_drop_bit 7 v;
          fin = (v' = 0 \<and> byte AND 0x40 = 0) \<or> (v' = - 1 \<and> byte AND 0x40 \<noteq> 0)
      in if fin then [byte] else (byte OR 0x80) # write_sleb128_i32 v')"
  by pat_completeness auto
termination
  by (relation "measure (\<lambda>v. nat \<bar>sint v\<bar>)", simp, simp only: in_measure, rule signed_continue_less) blast

declare write_sleb128_i32.simps [simp del]

definition I32_CONST :: u8 where "I32_CONST = 0x41"
definition I32_ADD :: u8 where "I32_ADD = 0x6A"
definition I32_SUB :: u8 where "I32_SUB = 0x6B"
definition I32_MUL :: u8 where "I32_MUL = 0x6C"
definition I32_AND :: u8 where "I32_AND = 0x71"
definition I32_OR :: u8 where "I32_OR = 0x72"
definition I32_XOR :: u8 where "I32_XOR = 0x73"
definition I32_SHL :: u8 where "I32_SHL = 0x74"
definition I32_SHR_U :: u8 where "I32_SHR_U = 0x76"

lemmas i32_opcodes = I32_CONST_def I32_ADD_def I32_SUB_def I32_MUL_def I32_AND_def I32_OR_def I32_XOR_def
  I32_SHL_def I32_SHR_U_def

text \<open>\<open>wrapping_shl\<close> and \<open>wrapping_shr\<close> take the amount modulo the width.\<close>

definition evaluate :: "u8 \<Rightarrow> i32 \<Rightarrow> i32 \<Rightarrow> i32 option" where
  "evaluate opcode a b =
     (if opcode = I32_ADD then Some (a + b)
      else if opcode = I32_SUB then Some (a - b)
      else if opcode = I32_MUL then Some (a * b)
      else if opcode = I32_AND then Some (a AND b)
      else if opcode = I32_OR then Some (a OR b)
      else if opcode = I32_XOR then Some (a XOR b)
      else if opcode = I32_SHL then Some (push_bit (unat b mod 32) a)
      else if opcode = I32_SHR_U then Some (drop_bit (unat b mod 32) a)
      else None)"

definition is_rhs_identity :: "u8 \<Rightarrow> i32 \<Rightarrow> bool" where
  "is_rhs_identity op v \<longleftrightarrow>
     (op, v) \<in> {(I32_ADD, 0), (I32_SUB, 0), (I32_OR, 0), (I32_XOR, 0), (I32_SHL, 0), (I32_SHR_U, 0),
       (0x75, 0), (I32_MUL, 1), (I32_AND, - 1)}"

section \<open>Folding a body\<close>

datatype repl = Const i32 | Empty

text \<open>
  The two patterns at the head of the remaining spans; outer \<^const>\<open>None\<close> is a panic of an index or a
  slice.
\<close>

definition const_at :: "bytes \<Rightarrow> nat \<times> nat \<Rightarrow> i32 option option" where
  "const_at body sp =
     do {
       b \<leftarrow> get body (fst sp);
       if b = I32_CONST then do { imm \<leftarrow> get_range body (fst sp + 1) (snd sp); Some (map_option fst (read_sleb128_i32 imm)) }
       else Some None
     }"

definition fold_triple :: "bytes \<Rightarrow> nat \<times> nat \<Rightarrow> nat \<times> nat \<Rightarrow> nat \<times> nat \<Rightarrow> i32 option option" where
  "fold_triple body a b c =
     do {
       va \<leftarrow> const_at body a;
       vb \<leftarrow> (if va = None then Some None else const_at body b);
       case (va, vb) of
         (Some x, Some y) \<Rightarrow> do { op \<leftarrow> get body (fst c); Some (evaluate op x y) }
       | _ \<Rightarrow> Some None
     }"

definition fold_pair :: "bytes \<Rightarrow> nat \<times> nat \<Rightarrow> nat \<times> nat \<Rightarrow> bool option" where
  "fold_pair body a b =
     do {
       va \<leftarrow> const_at body a;
       case va of
         Some v \<Rightarrow> do { op \<leftarrow> get body (fst b); Some (is_rhs_identity op v) }
       | None \<Rightarrow> Some False
     }"

fun find_repls :: "bytes \<Rightarrow> (nat \<times> nat) list \<Rightarrow> (nat \<times> nat \<times> repl) list option" where
  "find_repls body (a # b # c # sps) =
     do {
       t \<leftarrow> fold_triple body a b c;
       case t of
         Some r \<Rightarrow> do { rs \<leftarrow> find_repls body sps; Some ((fst a, snd c, Const r) # rs) }
       | None \<Rightarrow>
           do {
             p \<leftarrow> fold_pair body a b;
             if p then do { rs \<leftarrow> find_repls body (c # sps); Some ((fst a, snd b, Empty) # rs) }
             else find_repls body (b # c # sps)
           }
     }"
| "find_repls body [a, b] =
     do {
       p \<leftarrow> fold_pair body a b;
       Some (if p then [(fst a, snd b, Empty)] else [])
     }"
| "find_repls body _ = Some []"

fun rebuild :: "bytes \<Rightarrow> (nat \<times> nat \<times> repl) list \<Rightarrow> nat \<Rightarrow> bytes \<Rightarrow> body_edits \<Rightarrow> (bytes \<times> body_edits) option" where
  "rebuild body [] cursor out ed =
     do { rest \<leftarrow> get_from body cursor; Some (out @ rest, ed) }"
| "rebuild body ((from, to, r) # rs) cursor out ed =
     do {
       kept \<leftarrow> get_range body cursor from;
       let out1 = out @ kept;
       let is = of_nat from;
       let il = of_nat (to - from);
       let os = of_nat (length out1);
       case r of
         Const v \<Rightarrow>
           let out2 = out1 @ I32_CONST # write_sleb128_i32 v;
               ol = of_nat (length out2) - os
           in rebuild body rs to out2 (push_edit ed (edit_subst is il os ol) None)
       | Empty \<Rightarrow> rebuild body rs to out1 (push_edit ed (edit_delete is il os) None)
     }"

text \<open>Outer \<^const>\<open>None\<close> is a panic, inner \<^const>\<open>None\<close> the answer that nothing was folded.\<close>

definition fold_body_with_edits :: "bytes \<Rightarrow> (bytes \<times> body_edits) option option" where
  "fold_body_with_edits body =
     (case do { instr_start \<leftarrow> skip_locals body; walk body instr_start } of
        None \<Rightarrow> Some None
      | Some items \<Rightarrow>
          do {
            rs \<leftarrow> find_repls body (map (\<lambda>(p, len). (p, p + len)) items);
            if rs = [] then Some None
            else do { r \<leftarrow> rebuild body rs 0 [] identity_edits; Some (Some r) }
          })"

definition fold_body :: "bytes \<Rightarrow> bytes option option" where
  "fold_body body = map_option (map_option fst) (fold_body_with_edits body)"

section \<open>Constants agree with the shared codec\<close>

lemma ucast_or_push:
  "(ucast (acc OR push_bit s b :: i64) :: i32) = ucast acc OR push_bit s (ucast b)"
  by (rule bit_word_eqI) (auto simp: bit_simps)

lemma read_sleb_loop_eq:
  "ucast acc64 = acc \<Longrightarrow>
    read_sleb_loop acc s i data = map_option (\<lambda>(v, n). (ucast v, n)) (read_signed_loop 35 acc64 s i data)"
proof (induction data arbitrary: acc acc64 s i)
  case (Cons byte data)
  have b: "(ucast (ucast (byte AND 0x7F) :: i64) :: i32) = ucast (byte AND 0x7F)"
    by (rule bit_word_eqI) (auto simp: bit_simps)
  have m: "(ucast (push_bit n (- 1) :: i64) :: i32) = push_bit n (- 1)" for n
    by (rule bit_word_eqI) (auto simp: bit_simps)
  have z: "(push_bit n (- 1) :: i32) = 0" if "\<not> n < 32" for n
    using that by (intro bit_word_eqI) (auto simp: bit_simps)
  have acc: "(ucast (acc64 OR push_bit s (ucast (byte AND 0x7F))) :: i32) = acc OR push_bit s (ucast (byte AND 0x7F))"
    by (simp add: ucast_or_push Cons.prems b)
  have ext: "(ucast (w OR push_bit n (- 1) :: i64) :: i32) = ucast w OR push_bit n (- 1)" for w n
    by (simp only: unsigned_or_eq m)
  show ?case
  proof (cases "byte < 0x80")
    case True
    then show ?thesis using z [of "s + 7"] by (auto simp: Let_def acc ext simp del: push_bit_minus_one_eq_not_mask)
  next
    case False
    then show ?thesis using Cons.IH [OF acc, of "s + 7" "i + 1"] by (auto simp: Let_def)
  qed
qed simp

lemma read_sleb128_eq: "read_sleb128_i32 data = read_i32 data"
  by (simp add: read_sleb128_i32_def read_i32_def read_sleb_loop_eq [of 0])

lemma write_sleb128_eq: "write_sleb128_i32 v = write_i32 v"
proof (induction v rule: write_sleb128_i32.induct)
  case (1 v)
  show ?case using 1 [OF refl refl refl]
    by (subst write_sleb128_i32.simps, subst write_i32.simps) (auto simp: Let_def)
qed

section \<open>The pass over instructions\<close>

definition const_val :: "bytes \<Rightarrow> i32 option" where
  "const_val b = (if hd b = I32_CONST then map_option fst (read_i32 (tl b)) else None)"

definition triple_val :: "bytes \<Rightarrow> bytes \<Rightarrow> bytes \<Rightarrow> i32 option" where
  "triple_val a b c = do { x \<leftarrow> const_val a; y \<leftarrow> const_val b; evaluate (hd c) x y }"

definition pair_drops :: "bytes \<Rightarrow> bytes \<Rightarrow> bool" where
  "pair_drops a b \<longleftrightarrow> (\<exists>v. const_val a = Some v \<and> is_rhs_identity (hd b) v)"

datatype chunk = Keep bytes | Fold "bytes list" repl

fun fold_chunks :: "bytes list \<Rightarrow> chunk list" where
  "fold_chunks (a # b # c # is) =
     (case triple_val a b c of
        Some r \<Rightarrow> Fold [a, b, c] (Const r) # fold_chunks is
      | None \<Rightarrow>
          if pair_drops a b then Fold [a, b] Empty # fold_chunks (c # is)
          else Keep a # fold_chunks (b # c # is))"
| "fold_chunks [a, b] = (if pair_drops a b then [Fold [a, b] Empty] else [Keep a, Keep b])"
| "fold_chunks is = map Keep is"

abbreviation spans :: "nat \<Rightarrow> bytes list \<Rightarrow> (nat \<times> nat) list" where
  "spans s is \<equiv> map (\<lambda>(p, len). (p, p + len)) (offsets s is)"

fun repls_of :: "nat \<Rightarrow> chunk list \<Rightarrow> (nat \<times> nat \<times> repl) list" where
  "repls_of s [] = []"
| "repls_of s (Keep a # cs) = repls_of (s + length a) cs"
| "repls_of s (Fold is r # cs) = (s, s + length (concat is), r) # repls_of (s + length (concat is)) cs"

lemma const_at_instr:
  assumes "body = pre @ b @ post" and "complete_instr b"
  shows "const_at body (length pre, length pre + length b) = Some (const_val b)"
proof -
  obtain op imm where b: "b = op # imm" using instr_code.complete_nonempty [OF assms(2)] by (cases b) auto
  then show ?thesis
    by (simp add: const_at_def const_val_def get_def get_range_def assms(1) nth_append read_sleb128_eq)
qed

lemma hd_at_instr:
  assumes "body = pre @ b @ post" and "complete_instr b"
  shows "get body (length pre) = Some (hd b)"
  using instr_code.complete_nonempty [OF assms(2)] by (cases b) (simp_all add: get_def assms(1) nth_append)

lemma fold_triple_instr:
  assumes body: "body = pre @ a @ b @ c @ post" and "complete_instr a" "complete_instr b" "complete_instr c"
  shows "fold_triple body (length pre, length pre + length a) (length pre + length a, length pre + length a + length b)
    (length pre + length a + length b, e) = Some (triple_val a b c)"
  using const_at_instr [of body pre a "b @ c @ post"] const_at_instr [of body "pre @ a" b "c @ post"]
    hd_at_instr [of body "pre @ a @ b" c post] assms
  by (auto simp: fold_triple_def triple_val_def add.assoc split: option.splits)

lemma fold_pair_instr:
  assumes body: "body = pre @ a @ b @ post" and "complete_instr a" "complete_instr b"
  shows "fold_pair body (length pre, length pre + length a) (length pre + length a, e) = Some (pair_drops a b)"
  using const_at_instr [of body pre a "b @ post"] hd_at_instr [of body "pre @ a" b post] assms
  by (auto simp: fold_pair_def pair_drops_def split: option.splits)

lemma find_repls_instrs:
  "body = pre @ concat is \<Longrightarrow> \<forall>i\<in>set is. complete_instr i \<Longrightarrow>
    find_repls body (spans (length pre) is) = Some (repls_of (length pre) (fold_chunks is))"
proof (induction "is" arbitrary: pre rule: fold_chunks.induct)
  case (1 a b c "is")
  have t: "fold_triple body (length pre, length pre + length a) (length pre + length a, length pre + length a + length b)
    (length pre + length a + length b, length pre + length a + length b + length c) = Some (triple_val a b c)"
    using "1.prems" by (intro fold_triple_instr) auto
  have p: "fold_pair body (length pre, length pre + length a) (length pre + length a, length pre + length a + length b) = Some (pair_drops a b)"
    using "1.prems" by (intro fold_pair_instr) auto
  show ?case
  proof (cases "triple_val a b c")
    case (Some r)
    then show ?thesis using t "1.IH"(3) [OF Some, of "pre @ a @ b @ c"] "1.prems" by (simp add: add.assoc)
  next
    case None
    show ?thesis
    proof (cases "pair_drops a b")
      case True
      then show ?thesis using t p None "1.IH"(1) [OF None True, of "pre @ a @ b"] "1.prems" by (simp add: add.assoc)
    next
      case False
      then show ?thesis using t p None "1.IH"(2) [OF None False, of "pre @ a"] "1.prems" by (simp add: add.assoc)
    qed
  qed
next
  case (2 a b)
  then show ?case using fold_pair_instr [of body pre a b "[]"] by simp
qed simp_all

text \<open>The new bytes of a replacement, the segments of the splice, and the bytes behind the last one.\<close>

definition repl_bytes :: "repl \<Rightarrow> bytes" where
  "repl_bytes r = (case r of Const v \<Rightarrow> I32_CONST # write_i32 v | Empty \<Rightarrow> [])"

fun segs_of :: "bytes \<Rightarrow> chunk list \<Rightarrow> seg list" where
  "segs_of k [] = []"
| "segs_of k (Keep a # cs) = segs_of (k @ a) cs"
| "segs_of k (Fold is r # cs) = (k, concat is, repl_bytes r) # segs_of [] cs"

fun tail_of :: "bytes \<Rightarrow> chunk list \<Rightarrow> bytes" where
  "tail_of k [] = k"
| "tail_of k (Keep a # cs) = tail_of (k @ a) cs"
| "tail_of k (Fold is r # cs) = tail_of [] cs"

fun chunks_in :: "chunk list \<Rightarrow> bytes list" where
  "chunks_in [] = []"
| "chunks_in (Keep a # cs) = a # chunks_in cs"
| "chunks_in (Fold is r # cs) = is @ chunks_in cs"

fun chunks_out :: "chunk list \<Rightarrow> bytes list" where
  "chunks_out [] = []"
| "chunks_out (Keep a # cs) = a # chunks_out cs"
| "chunks_out (Fold is r # cs) = (case r of Const v \<Rightarrow> [repl_bytes r] | Empty \<Rightarrow> []) @ chunks_out cs"

lemma segs_of_in: "seg_in (segs_of k cs) @ tail_of k cs = k @ concat (chunks_in cs)"
  by (induction k cs rule: segs_of.induct) simp_all

lemma segs_of_out: "seg_out (segs_of k cs) @ tail_of k cs = k @ concat (chunks_out cs)"
  by (induction k cs rule: segs_of.induct) (simp_all add: repl_bytes_def split: repl.splits)

lemma fold_chunks_in: "chunks_in (fold_chunks is) = is"
proof (induction "is" rule: fold_chunks.induct)
  case (1 a b c "is")
  then show ?case by (simp split: option.splits)
qed simp_all

lemma rebuild_segs:
  "body = pre @ k @ concat (chunks_in cs) \<Longrightarrow>
    rebuild body (repls_of (length (pre @ k)) cs) (length pre) out ed =
      Some (out @ seg_out (segs_of k cs) @ tail_of k cs,
        \<lparr>edits = edits ed @ seg_edits (length pre) (length out) (segs_of k cs),
         src_funcs = src_funcs ed @ replicate (length (segs_of k cs)) None\<rparr>)"
proof (induction k cs arbitrary: pre out ed rule: segs_of.induct)
  case (1 k)
  then show ?case by (simp add: get_from_def)
next
  case (2 k a cs)
  then show ?case using "2.IH" [of pre out ed] by (simp add: add.assoc)
next
  case (3 k "is" r cs)
  have "get_range body (length pre) (length (pre @ k)) = Some k"
    using "3.prems" by (simp add: get_range_def)
  moreover have "(of_nat (length (out @ k @ repl_bytes r)) - of_nat (length (out @ k)) :: u32) = of_nat (length (repl_bytes r))"
    by simp
  moreover have "length (pre @ k) + length (concat is) = length (pre @ k @ concat is)" by simp
  ultimately show ?case
    using "3.IH" [of "pre @ k @ concat is"] "3.prems"
    by (cases r) (simp_all add: repl_bytes_def write_sleb128_eq push_edit_def edit_subst_def edit_delete_def Let_def add.assoc replicate_append_same)
qed

section \<open>Reference semantics\<close>

text \<open>
  The \<open>i32\<close> operations of the WebAssembly specification, on the unsigned and signed readings of the
  operands; shift amounts are taken modulo 32.
\<close>

definition wasm_binop :: "u8 \<Rightarrow> i32 \<Rightarrow> i32 \<Rightarrow> i32 option" where
  "wasm_binop op x y =
     (let k = nat (uint y mod 32) in
      if op = 0x6A then Some (of_int (uint x + uint y))
      else if op = 0x6B then Some (of_int (uint x - uint y))
      else if op = 0x6C then Some (of_int (uint x * uint y))
      else if op = 0x71 then Some (x AND y)
      else if op = 0x72 then Some (x OR y)
      else if op = 0x73 then Some (x XOR y)
      else if op = 0x74 then Some (of_int (uint x * 2 ^ k))
      else if op = 0x75 then Some (of_int (sint x div 2 ^ k))
      else if op = 0x76 then Some (of_int (uint x div 2 ^ k))
      else None)"

definition is_const :: "bytes \<Rightarrow> i32 \<Rightarrow> bool" where
  "is_const b v \<longleftrightarrow> b \<noteq> [] \<and> hd b = 0x41 \<and> read_i32 (tl b) = Some (v, length (tl b))"

text \<open>The rewrites that the pass may make in a sequence of instructions.\<close>

inductive fold_rewrite :: "bytes list \<Rightarrow> bytes list \<Rightarrow> bool" where
  fr_nil: "fold_rewrite [] []"
| fr_keep: "fold_rewrite is is' \<Longrightarrow> fold_rewrite (a # is) (a # is')"
| fr_const: "is_const a x \<Longrightarrow> is_const b y \<Longrightarrow> wasm_binop op x y = Some r \<Longrightarrow> is_const d r \<Longrightarrow>
    fold_rewrite is is' \<Longrightarrow> fold_rewrite (a # b # [op] # is) (d # is')"
| fr_drop: "is_const a v \<Longrightarrow> (\<And>x. wasm_binop op x v = Some x) \<Longrightarrow>
    fold_rewrite is is' \<Longrightarrow> fold_rewrite (a # [op] # is) is'"

text \<open>
  Execution of straight-line code: constants and binary operations act on the operand stack, every
  other instruction has an arbitrary meaning \<open>f\<close> on state and stack.
\<close>

datatype 'v val = I32 i32 | Other 'v

definition step :: "(bytes \<Rightarrow> 's \<times> 'v val list \<Rightarrow> ('s \<times> 'v val list) option) \<Rightarrow> bytes \<Rightarrow> 's \<times> 'v val list \<Rightarrow> ('s \<times> 'v val list) option" where
  "step f b \<sigma> =
     (case const_val b of
        Some v \<Rightarrow> Some (fst \<sigma>, I32 v # snd \<sigma>)
      | None \<Rightarrow>
          if length b = 1 \<and> wasm_binop (hd b) 0 0 \<noteq> None then
            (case snd \<sigma> of
               I32 y # I32 x # st \<Rightarrow> map_option (\<lambda>r. (fst \<sigma>, I32 r # st)) (wasm_binop (hd b) x y)
             | _ \<Rightarrow> None)
          else f b \<sigma>)"

fun exec :: "(bytes \<Rightarrow> 's \<times> 'v val list \<Rightarrow> ('s \<times> 'v val list) option) \<Rightarrow> bytes list \<Rightarrow> 's \<times> 'v val list \<Rightarrow> ('s \<times> 'v val list) option" where
  "exec f [] \<sigma> = Some \<sigma>"
| "exec f (b # bs) \<sigma> = do { \<sigma>' \<leftarrow> step f b \<sigma>; exec f bs \<sigma>' }"

lemma evaluate_wasm: "evaluate op x y = Some r \<Longrightarrow> wasm_binop op x y = Some r"
proof -
  have k: "unat y mod 32 = nat (uint y mod 32)" by (simp add: nat_mod_distrib)
  have "uint (drop_bit n x) = drop_bit n (uint x)" for n
    by (rule bit_eqI) (simp add: bit_simps)
  then have "uint (drop_bit n x) = uint x div 2 ^ n" for n
    by (simp only: drop_bit_eq_div [where 'a = int])
  then have "drop_bit n x = of_int (uint x div 2 ^ n)" for n by (metis word_of_int_uint)
  moreover have "push_bit n x = of_int (uint x * 2 ^ n)" for n by (simp add: push_bit_eq_mult)
  ultimately have "push_bit (unat y mod 32) x = of_int (uint x * 2 ^ nat (uint y mod 32))"
    and "drop_bit (unat y mod 32) x = of_int (uint x div 2 ^ nat (uint y mod 32))"
    by (simp_all only: k)
  then show "evaluate op x y = Some r \<Longrightarrow> wasm_binop op x y = Some r"
    by (auto simp: evaluate_def wasm_binop_def i32_opcodes Let_def split: if_splits)
qed

lemma identity_wasm: "is_rhs_identity op v \<Longrightarrow> wasm_binop op x v = Some x"
  by (auto simp: is_rhs_identity_def wasm_binop_def i32_opcodes Let_def)

lemma const_val_is_const:
  assumes "complete_instr b" and "const_val b = Some v"
  shows "is_const b v"
proof -
  obtain op imm where b: "b = op # imm" using instr_code.complete_nonempty [OF assms(1)] by (cases b) auto
  have op: "op = 0x41" using assms(2) by (simp add: const_val_def b i32_opcodes split: if_splits)
  obtain n where r: "read_i32 imm = Some (v, n)" using assms(2) by (auto simp: const_val_def b split: if_splits)
  have "instr_imm 0x41 imm = skip_len imm" by (simp add: instr_imm_def)
  then have "skip_len imm = Some (length imm)"
    using assms(1) by (auto simp: instr_len_def get_def get_from_def b op split: bind_splits)
  then show ?thesis using skip_len_reads(3) [OF r] r by (simp add: is_const_def b op)
qed

lemma binop_single:
  assumes "complete_instr c" and "wasm_binop (hd c) x y \<noteq> None"
  shows "c = [hd c]"
proof -
  obtain op imm where c: "c = op # imm" using instr_code.complete_nonempty [OF assms(1)] by (cases c) auto
  have "0x45 \<le> op \<and> op \<le> 0xC4"
    using assms(2) by (simp add: c wasm_binop_def Let_def split: if_splits)
  then have "instr_imm op imm = Some 0" by (simp add: instr_imm_def)
  then show ?thesis using assms(1) by (simp add: instr_len_def get_def get_from_def c)
qed

lemma new_const:
  "is_const (repl_bytes (Const v)) v" "complete_instr (repl_bytes (Const v))" "const_val (repl_bytes (Const v)) = Some v"
proof -
  have r: "read_i32 (write_i32 v) = Some (v, length (write_i32 v))" using read_i32_write [of v "[]"] by simp
  then show "is_const (repl_bytes (Const v)) v" "const_val (repl_bytes (Const v)) = Some v"
    by (simp_all add: is_const_def const_val_def repl_bytes_def i32_opcodes)
  have "instr_imm 0x41 (write_i32 v) = skip_len (write_i32 v)" by (simp add: instr_imm_def)
  then show "complete_instr (repl_bytes (Const v))"
    using skip_len_reads(3) [OF r] by (simp add: repl_bytes_def i32_opcodes instr_len_def get_def get_from_def)
qed

section \<open>Correctness\<close>

lemma triple_const:
  assumes "triple_val a b c = Some r" "complete_instr a" "complete_instr b" "complete_instr c"
  obtains x y where "is_const a x" "is_const b y" "const_val a = Some x" "const_val b = Some y"
    "wasm_binop (hd c) x y = Some r" "c = [hd c]"
proof -
  obtain x y where xy: "const_val a = Some x" "const_val b = Some y" "evaluate (hd c) x y = Some r"
    using assms(1) by (auto simp: triple_val_def split: bind_splits)
  then have "wasm_binop (hd c) x y = Some r" using evaluate_wasm by blast
  then show thesis using that [of x y] xy assms(2-4) const_val_is_const binop_single [of c x y] by auto
qed

lemma pair_const:
  assumes "pair_drops a b" "complete_instr a" "complete_instr b"
  obtains v where "is_const a v" "const_val a = Some v" "\<And>x. wasm_binop (hd b) x v = Some x" "b = [hd b]"
proof -
  obtain v where v: "const_val a = Some v" "is_rhs_identity (hd b) v" using assms(1) by (auto simp: pair_drops_def)
  then show thesis
    using that [of v] assms(2,3) const_val_is_const identity_wasm [OF v(2)] binop_single [of b 0 v] by auto
qed

lemma fold_chunks_rewrite:
  "\<forall>i\<in>set is. complete_instr i \<Longrightarrow> fold_rewrite is (chunks_out (fold_chunks is))"
proof (induction "is" rule: fold_chunks.induct)
  case (1 a b c "is")
  note c = "1.prems"
  show ?case
  proof (cases "triple_val a b c")
    case (Some r)
    obtain x y where "is_const a x" "is_const b y" "wasm_binop (hd c) x y = Some r" "c = [hd c]"
      using triple_const [OF Some] c by (metis list.set_intros)
    then have "fold_rewrite (a # b # [hd c] # is) (repl_bytes (Const r) # chunks_out (fold_chunks is))"
      using "1.IH"(3) [OF Some] c new_const(1) by (intro fr_const) auto
    then show ?thesis using Some \<open>c = [hd c]\<close> by simp
  next
    case None
    show ?thesis
    proof (cases "pair_drops a b")
      case True
      obtain v where "is_const a v" "\<And>x. wasm_binop (hd b) x v = Some x" "b = [hd b]"
        using pair_const [OF True] c by (metis list.set_intros)
      then have "fold_rewrite (a # [hd b] # c # is) (chunks_out (fold_chunks (c # is)))"
        using "1.IH"(1) [OF None True] c by (intro fr_drop) auto
      then show ?thesis using None True \<open>b = [hd b]\<close> by simp
    next
      case False
      then show ?thesis using None "1.IH"(2) [OF None False] c by (simp add: fr_keep)
    qed
  qed
next
  case (2 a b)
  show ?case
  proof (cases "pair_drops a b")
    case True
    obtain v where "is_const a v" "\<And>x. wasm_binop (hd b) x v = Some x" "b = [hd b]"
      using pair_const [OF True] 2 by (metis list.set_intros)
    then show ?thesis using True fr_drop [of a v "hd b" "[]" "[]"] fr_nil by simp
  qed (simp add: fr_keep fr_nil)
qed (auto intro: fr_nil fr_keep)

lemma const_val_of: "is_const a v \<Longrightarrow> const_val a = Some v"
  by (simp add: is_const_def const_val_def i32_opcodes)

lemma not_const_binop: "wasm_binop op x y = Some r \<Longrightarrow> const_val [op] = None \<and> wasm_binop op 0 0 \<noteq> None"
  by (auto simp: wasm_binop_def const_val_def i32_opcodes Let_def split: if_splits)

text \<open>Every rewrite keeps the effect of code that runs, whatever the other instructions mean.\<close>

lemma fold_rewrite_exec:
  "fold_rewrite is is' \<Longrightarrow> exec f is \<sigma> = Some \<sigma>' \<Longrightarrow> exec f is' \<sigma> = Some \<sigma>'"
proof (induction arbitrary: \<sigma> rule: fold_rewrite.induct)
  case (fr_keep "is" is' a)
  then show ?case by (auto split: bind_splits)
next
  case (fr_const a x b y op r d "is" is')
  then show ?case using not_const_binop [OF fr_const.hyps(3)] by (simp add: step_def const_val_of)
next
  case (fr_drop a v op "is" is')
  from not_const_binop [OF fr_drop.hyps(2)] fr_drop.prems obtain x st where "snd \<sigma> = I32 x # st"
    and "exec f is (fst \<sigma>, I32 x # st) = Some \<sigma>'"
    using fr_drop.hyps(1,2) by (auto simp: step_def const_val_of split: list.splits val.splits)
  then show ?case using fr_drop.IH [of \<sigma>] by (cases \<sigma>) simp
qed simp

lemma chunks_out_complete:
  "\<forall>i\<in>set is. complete_instr i \<Longrightarrow> \<forall>i\<in>set (chunks_out (fold_chunks is)). complete_instr i"
proof (induction "is" rule: fold_chunks.induct)
  case (1 a b c "is")
  then show ?case using new_const(2) by (auto split: option.splits)
qed auto

lemma write_i32_le_5: "length (write_i32 v) \<le> 5"
proof -
  have "read_i32 (write_i32 v) = Some (v, length (write_i32 v))" using read_i32_write [of v "[]"] by simp
  then obtain w where "read_signed_loop 35 0 0 0 (write_i32 v) = Some (w, length (write_i32 v))"
    by (auto simp: read_i32_def)
  then have "skip_len_loop 5 0 (write_i32 v) = Some (length (write_i32 v))"
    by (rule skip_len_loop_signed) simp_all
  then show ?thesis using skip_len_loop_bound by fastforce
qed

lemma chunks_out_length:
  "\<forall>i\<in>set is. complete_instr i \<Longrightarrow> length (concat (chunks_out (fold_chunks is))) \<le> 2 * length (concat is)"
proof (induction "is" rule: fold_chunks.induct)
  case (1 a b c "is")
  have "a \<noteq> []" "b \<noteq> []" "c \<noteq> []" using "1.prems" instr_code.complete_nonempty by auto
  then have "3 \<le> length a + length b + length c" by (cases a; cases b; cases c) auto
  then have six: "6 \<le> 2 * (length a + length b + length c)" by simp
  have "length (repl_bytes (Const r)) \<le> 6" for r using write_i32_le_5 [of r] by (simp add: repl_bytes_def)
  then have r: "length (repl_bytes (Const r)) \<le> 2 * (length a + length b + length c)" for r
    using six order_trans by blast
  show ?case
  proof (cases "triple_val a b c")
    case (Some v)
    then show ?thesis using "1.IH"(3) [OF Some] r [of v] "1.prems" by simp
  next
    case None
    then show ?thesis using "1.IH"(1,2) [OF None] "1.prems" by (cases "pair_drops a b") simp_all
  qed
qed auto

lemma seg_new_le: "seg_new (segs_of k cs) \<le> length (concat (chunks_out cs))"
  by (induction k cs rule: segs_of.induct) (auto simp: repl_bytes_def split: repl.splits)

text \<open>
  (C38) Constant folding is correct on every well-formed body, that is, a locals vector followed by
  complete instructions \<open>is\<close>. The pass does not panic. If it answers that nothing was folded, no pattern
  occurs. Otherwise the new body has the same locals followed by complete instructions that arise from
  \<open>is\<close> by rewrites whose values are those of the WebAssembly specification, they have the same effect on
  every state for every meaning of the other instructions, and applying the recorded edits to the old
  body, with the new constants supplied, gives the new body.
\<close>

theorem fold_body_correct:
  assumes "skip_locals body = Some s" and "s \<le> length body" and "drop s body = concat is"
    and "\<forall>i\<in>set is. complete_instr i" and "length body < 2 ^ 30"
  shows "fold_body_with_edits body = Some None \<and> chunks_out (fold_chunks is) = is \<or>
    (\<exists>out ed is' synth. fold_body_with_edits body = Some (Some (out, ed)) \<and>
      out = take s body @ concat is' \<and> (\<forall>i\<in>set is'. complete_instr i) \<and> fold_rewrite is is' \<and>
      (\<forall>f \<sigma> \<sigma>'. exec f is \<sigma> = Some \<sigma>' \<longrightarrow> exec f is' \<sigma> = (Some \<sigma>' :: ('s \<times> 'v val list) option)) \<and>
      apply_edits ed body synth = Some (Some out))"
proof -
  define pre where "pre = take s body"
  have body: "body = pre @ concat is" and len: "length pre = s"
    using assms(2,3) append_take_drop_id [of s body] by (simp_all add: pre_def)
  define cs where "cs = Keep pre # fold_chunks is"
  have "walk body s = Some (offsets s is)"
    using walk_instructions [OF assms(2), of "offsets s is"] assms(3,4) by blast
  moreover have "find_repls body (spans s is) = Some (repls_of s (fold_chunks is))"
    using find_repls_instrs [OF body assms(4)] len by simp
  ultimately have fb: "fold_body_with_edits body =
      (if repls_of s (fold_chunks is) = [] then Some None
       else do { r \<leftarrow> rebuild body (repls_of s (fold_chunks is)) 0 [] identity_edits; Some (Some r) })"
    using assms(1) by (simp add: fold_body_with_edits_def)
  show ?thesis
  proof (cases "repls_of s (fold_chunks is) = []")
    case True
    have "repls_of t cs = [] \<Longrightarrow> chunks_out cs = chunks_in cs" for t cs
      by (induction t cs rule: repls_of.induct) simp_all
    then show ?thesis using True fb by (metis fold_chunks_in)
  next
    case False
    define segs where "segs = segs_of pre (fold_chunks is)"
    define tail where "tail = tail_of pre (fold_chunks is)"
    have b: "body = seg_in segs @ tail" and o: "seg_out segs @ tail = pre @ concat (chunks_out (fold_chunks is))"
      by (simp_all add: segs_def tail_def segs_of_in segs_of_out body fold_chunks_in)
    have "rebuild body (repls_of s (fold_chunks is)) 0 [] identity_edits =
        Some (seg_out segs @ tail, from_edits (seg_edits 0 0 segs))"
      using rebuild_segs [of body "[]" pre "fold_chunks is" "[]" identity_edits] body len
      by (simp add: fold_chunks_in segs_def tail_def identity_edits_def from_edits_def)
    then have res: "fold_body_with_edits body = Some (Some (seg_out segs @ tail, from_edits (seg_edits 0 0 segs)))"
      using fb False by simp
    have "seg_new segs \<le> 2 * length body"
      using seg_new_le [of pre "fold_chunks is"] chunks_out_length [OF assms(4)] body by (simp add: segs_def)
    then have "length (seg_in segs @ tail) + seg_new segs < 2 ^ 32"
      using assms(5) by (simp flip: b)
    then have "apply_edits (from_edits (seg_edits 0 0 segs)) body (\<lambda>k src n. Some (snd (snd (segs ! k)))) =
        Some (Some (seg_out segs @ tail))"
      unfolding b by (rule apply_segs) simp
    moreover have "\<forall>f \<sigma> \<sigma>'. exec f is \<sigma> = Some \<sigma>' \<longrightarrow>
        exec f (chunks_out (fold_chunks is)) \<sigma> = (Some \<sigma>' :: ('s \<times> 'v val list) option)"
      using fold_rewrite_exec [OF fold_chunks_rewrite [OF assms(4)]] by blast
    ultimately show ?thesis
      using res o fold_chunks_rewrite [OF assms(4)] chunks_out_complete [OF assms(4)]
      unfolding pre_def by (intro disjI2 exI conjI) (assumption | simp)+
  qed
qed

theorem fold_body_correct_witness:
  "\<exists>out ed is'. fold_body_with_edits [0, 0x41, 6, 0x41, 7, 0x6C, 0x0B] = Some (Some (out, ed)) \<and>
    fold_rewrite [[0x41, 6], [0x41, 7], [0x6C], [0x0B]] is'"
proof -
  let ?is = "[[0x41, 6], [0x41, 7], [0x6C], [0x0B]] :: bytes list"
  have c: "\<forall>i\<in>set ?is. complete_instr i" by (simp, code_simp)
  have o: "chunks_out (fold_chunks ?is) = [[0x41, 42], [0x0B]]" by code_simp
  have "skip_locals [0, 0x41, 6, 0x41, 7, 0x6C, 0x0B] = Some 1" by code_simp
  then have "fold_body_with_edits [0, 0x41, 6, 0x41, 7, 0x6C, 0x0B] = Some None \<and> chunks_out (fold_chunks ?is) = ?is \<or>
    (\<exists>out ed is' synth. fold_body_with_edits [0, 0x41, 6, 0x41, 7, 0x6C, 0x0B] = Some (Some (out, ed)) \<and>
      out = take 1 [0, 0x41, 6, 0x41, 7, 0x6C, 0x0B] @ concat is' \<and> (\<forall>i\<in>set is'. complete_instr i) \<and> fold_rewrite ?is is' \<and>
      (\<forall>f \<sigma> \<sigma>'. exec f ?is \<sigma> = Some \<sigma>' \<longrightarrow> exec f is' \<sigma> = (Some \<sigma>' :: (unit \<times> unit val list) option)) \<and>
      apply_edits ed [0, 0x41, 6, 0x41, 7, 0x6C, 0x0B] synth = Some (Some out))"
    using c by (intro fold_body_correct) simp_all
  then show ?thesis using o by auto
qed

section \<open>The pass over a module\<close>

fun fold_bodies :: "nat \<Rightarrow> bytes \<Rightarrow> nat \<Rightarrow> bytes option list option" where
  "fold_bodies 0 payload off = Some []"
| "fold_bodies (Suc n) payload off =
     do {
       r \<leftarrow> get_from payload off;
       case read_u32 r of
         None \<Rightarrow> Some []
       | Some (body_size, c) \<Rightarrow>
           do {
             b \<leftarrow> get_range payload (off + c) (off + c + unat body_size);
             nb \<leftarrow> fold_body b;
             rest \<leftarrow> fold_bodies n payload (off + c + unat body_size);
             Some (nb # rest)
           }
     }"

fun rebuild_code :: "bytes option list \<Rightarrow> bytes \<Rightarrow> nat \<Rightarrow> bytes \<Rightarrow> bytes option" where
  "rebuild_code [] payload off out = Some out"
| "rebuild_code (repl # repls) payload off out =
     do {
       r \<leftarrow> get_from payload off;
       case read_u32 r of
         None \<Rightarrow> Some out
       | Some (body_size, c) \<Rightarrow>
           do {
             original \<leftarrow> get_range payload (off + c) (off + c + unat body_size);
             rebuild_code repls payload (off + c + unat body_size)
               (case repl of
                  Some nb \<Rightarrow> out @ write_u32 (of_nat (length nb)) @ nb
                | None \<Rightarrow> out @ write_u32 body_size @ original)
           }
     }"

fun position_of :: "u8 \<Rightarrow> wsection list \<Rightarrow> nat \<Rightarrow> (nat \<times> wsection) option" where
  "position_of sid [] i = None"
| "position_of sid (s # ss) i = (if sec_id s = sid then Some (i, s) else position_of sid ss (i + 1))"

definition const_fold_apply :: "wasm_module \<Rightarrow> bytes option" where
  "const_fold_apply m =
     (case position_of SECTION_CODE (wm_sections m) 0 of
        None \<Rightarrow> Some (wm_data m)
      | Some (idx, code_sec) \<Rightarrow>
          do {
            payload \<leftarrow> span_slice (sec_payload code_sec) (wm_data m);
            case read_u32 payload of
              None \<Rightarrow> Some (wm_data m)
            | Some (func_count, off) \<Rightarrow>
                do {
                  repls \<leftarrow> fold_bodies (unat func_count) payload off;
                  if list_all (\<lambda>r. r = None) repls then Some (wm_data m)
                  else do {
                    new_payload \<leftarrow> rebuild_code repls payload (u32_size func_count) (write_u32 func_count);
                    emit_with_replacements m [idx \<mapsto> new_payload]
                  }
                }
          })"

text \<open>
  The rebuilding loop starts behind the minimal encoding of the count, the first loop behind the encoding
  that is there. With a padded count, a body that is not folded is replaced by bytes of another place:
  here the first body \<open>00 0B\<close> of two becomes empty.
\<close>

theorem const_fold_padded_count:
  "(case wasm_parse ([0x00, 0x61, 0x73, 0x6D, 1, 0, 0, 0] @ [10, 13, 0x82, 0, 2, 0, 0x0B, 7, 0, 0x41, 6, 0x41, 7, 0x6C, 0x0B]) of
      Inl _ \<Rightarrow> False
    | Inr m \<Rightarrow>
        const_fold_apply m =
          Some ([0x00, 0x61, 0x73, 0x6D, 1, 0, 0, 0] @ [10, 7, 2, 0, 4, 0, 0x41, 42, 0x0B]))"
  by code_simp

end
