(* ===== verification/Suffix_Share.thy ===== *)
theory Suffix_Share
  imports Prelude "HOL-Library.List_Lexorder" "HOL-Library.Sublist"
begin

text \<open>
  Model of \<open>libwild/src/suffix_share.rs\<close>: string tables in which a string that is a suffix of another
  one points into it. Strings are byte lists; the orders of the standard library's sets and of the sort
  by reversed bytes are lexicographic. The results: every name is found, terminated, at its offset;
  the size prediction agrees with the packer; and looking at the immediate successor only is enough,
  so that exactly the strings that are no proper suffix of another one are emitted.
\<close>

section \<open>The packer\<close>

record packed =
  pk_bytes :: bytes
  pk_offsets :: "bytes \<rightharpoonup> u32"

definition with_leading_nul :: packed where
  "with_leading_nul = \<lparr>pk_bytes = [0], pk_offsets = [[] \<mapsto> 0]\<rparr>"

definition ends_with :: "bytes \<Rightarrow> bytes \<Rightarrow> bool" where
  "ends_with t s \<longleftrightarrow> length s \<le> length t \<and> drop (length t - length s) t = s"

text \<open>
  The distinct non-empty strings in the order of the set they are collected in, then sorted (stably) by
  their reversed bytes.
\<close>

definition unique_sorted :: "bytes list \<Rightarrow> bytes list" where
  "unique_sorted names = sort_key rev (filter (\<lambda>s. s \<noteq> []) (sort (remdups names)))"

definition ownership_of :: "bytes list \<Rightarrow> nat option list" where
  "ownership_of uniq =
     map (\<lambda>i. if i < length uniq - 1 \<and> ends_with (uniq ! (i + 1)) (uniq ! i) then Some (i + 1) else None)
       [0..<length uniq]"

fun emit_owners :: "bytes list \<Rightarrow> nat option list \<Rightarrow> bytes \<Rightarrow> bytes \<times> u32 list" where
  "emit_owners (s # ss) (own # owns) bs =
     (if own = None
      then let (bs', offs) = emit_owners ss owns (bs @ s @ [0]) in (bs', of_nat (length bs) # offs)
      else let (bs', offs) = emit_owners ss owns bs in (bs', - 1 # offs))"
| "emit_owners _ _ bs = (bs, [])"

text \<open>Following the ownership chain to the emitted owner; the loop has no bound of its own.\<close>

partial_function (option) find_owner :: "nat option list \<Rightarrow> nat \<Rightarrow> nat option" where
  "find_owner ownership owner =
     (if owner < length ownership then
        case ownership ! owner of
          Some nxt \<Rightarrow> find_owner ownership nxt
        | None \<Rightarrow> Some owner
      else None)"

declare find_owner.simps [code]

definition my_offset :: "bytes list \<Rightarrow> nat option list \<Rightarrow> u32 list \<Rightarrow> nat \<Rightarrow> u32 option" where
  "my_offset uniq ownership emitted i =
     do {
       owner \<leftarrow> find_owner ownership i;
       owner_offset \<leftarrow> get emitted owner;
       o_str \<leftarrow> get uniq owner;
       s_str \<leftarrow> get uniq i;
       Some (owner_offset + (of_nat (length o_str) - of_nat (length s_str)))
     }"

fun fill_offsets :: "bytes list \<Rightarrow> nat option list \<Rightarrow> u32 list \<Rightarrow> nat list \<Rightarrow> (bytes \<rightharpoonup> u32) \<Rightarrow> (bytes \<rightharpoonup> u32) option" where
  "fill_offsets uniq ownership emitted [] m = Some m"
| "fill_offsets uniq ownership emitted (i # is) m =
     do {
       off \<leftarrow> my_offset uniq ownership emitted i;
       s \<leftarrow> get uniq i;
       fill_offsets uniq ownership emitted is (m(s \<mapsto> off))
     }"

definition pack :: "bytes list \<Rightarrow> packed option" where
  "pack names =
     (let uniq = unique_sorted names;
          ownership = ownership_of uniq;
          (bs, emitted) = emit_owners uniq ownership [0]
      in do {
           offs \<leftarrow> fill_offsets uniq ownership emitted [0..<length uniq] [[] \<mapsto> 0];
           Some \<lparr>pk_bytes = bs, pk_offsets = offs\<rparr>
         })"

definition packed_size :: "bytes list \<Rightarrow> nat" where
  "packed_size names =
     (let uniq = unique_sorted names
      in 1 + sum_list (map (\<lambda>i. if i + 1 < length uniq \<and> ends_with (uniq ! (i + 1)) (uniq ! i) then 0
                                else length (uniq ! i) + 1) [0..<length uniq]))"

definition naive_size :: "bytes list \<Rightarrow> nat" where
  "naive_size names = 1 + sum_list (map (\<lambda>s. length s + 1) (sort (remdups (filter (\<lambda>s. s \<noteq> []) names))))"

section \<open>The sorted strings\<close>

lemma ends_with_suffix: "ends_with t s \<longleftrightarrow> suffix s t"
proof
  show "ends_with t s \<Longrightarrow> suffix s t" by (metis ends_with_def suffix_drop)
  show "suffix s t \<Longrightarrow> ends_with t s" by (auto simp: ends_with_def suffix_def)
qed

lemma unique_sorted_set [simp]: "set (unique_sorted names) = set names - {[]}"
  by (auto simp: unique_sorted_def)

lemma unique_sorted_distinct [simp]: "distinct (unique_sorted names)"
  by (simp add: unique_sorted_def)

lemma unique_sorted_sorted: "sorted (map rev (unique_sorted names))"
  by (simp add: unique_sorted_def)

lemma prefix_between:
  fixes p q r :: "'a::linorder list"
  shows "prefix p q \<Longrightarrow> p \<le> r \<Longrightarrow> r \<le> q \<Longrightarrow> prefix p r"
proof (induction p arbitrary: q r)
  case (Cons a p)
  then obtain q' where q: "q = a # q'" and "prefix p q'" by (cases q) auto
  moreover obtain b r' where "r = b # r'" using Cons.prems(2) by (cases r) auto
  ultimately show ?case using Cons by auto
qed simp

lemma prefix_le: "prefix p q \<Longrightarrow> p \<le> (q :: 'a::linorder list)"
proof (induction p arbitrary: q)
  case (Cons a p)
  then show ?case by (cases q) auto
qed simp

text \<open>
  If a string of the list is a proper suffix of any other string of the list, it is a suffix of its
  immediate successor.
\<close>

lemma successor_enough:
  assumes i: "i < length uniq" and sorted: "sorted (map rev uniq)" and d: "distinct uniq"
    and t: "t \<in> set uniq" "t \<noteq> uniq ! i" "suffix (uniq ! i) t"
  shows "i + 1 < length uniq \<and> suffix (uniq ! i) (uniq ! (i + 1))"
proof -
  obtain j where j: "j < length uniq" "t = uniq ! j" using t(1) by (auto simp: in_set_conv_nth)
  have nth: "rev (uniq ! a) \<le> rev (uniq ! b)" if "a \<le> b" "b < length uniq" for a b
    using sorted_nth_mono [OF sorted, of a b] that by simp
  have p: "prefix (rev (uniq ! i)) (rev t)" using t(3) by (simp add: suffix_to_prefix)
  have "i < j"
  proof (rule ccontr)
    assume "\<not> i < j"
    then have "rev t \<le> rev (uniq ! i)" using nth [of j i] i j by simp
    then have "rev t = rev (uniq ! i)" using prefix_le [OF p] by simp
    then show False using t(2) by simp
  qed
  have "rev (uniq ! i) \<le> rev (uniq ! (i + 1))" and "rev (uniq ! (i + 1)) \<le> rev t"
    using nth [of i "i + 1"] nth [of "i + 1" j] j \<open>i < j\<close> by simp_all
  with p have "prefix (rev (uniq ! i)) (rev (uniq ! (i + 1)))" by (rule prefix_between)
  then show ?thesis using \<open>i < j\<close> j(1) by (simp add: suffix_to_prefix)
qed

section \<open>Emission\<close>

definition held_at :: "bytes \<Rightarrow> nat \<Rightarrow> bytes \<Rightarrow> bool" where
  "held_at bs p s \<longleftrightarrow> p + length s + 1 \<le> length bs \<and> take (length s + 1) (drop p bs) = s @ [0]"

lemma held_at_append: "held_at bs p s \<Longrightarrow> held_at (bs @ cs) p s"
  by (auto simp: held_at_def)

lemma held_at_suffix:
  assumes "held_at bs p t" and "suffix s t"
  shows "held_at bs (p + (length t - length s)) s"
proof -
  obtain pre where t: "t = pre @ s" using assms(2) by (auto simp: suffix_def)
  define rest where "rest = drop (p + length t + 1) bs"
  have "drop p bs = (t @ [0]) @ rest"
    using assms(1) append_take_drop_id [of "length t + 1" "drop p bs"] by (simp add: held_at_def rest_def add.commute add.left_commute)
  then have "drop (length pre) (drop p bs) = s @ [0] @ rest" by (simp add: t)
  then have "drop (p + length pre) bs = s @ [0] @ rest" by (simp add: add.commute)
  then show ?thesis using assms(1) by (auto simp: held_at_def t)
qed

lemma emit_owners_appends: "\<exists>cs. fst (emit_owners ss owns bs) = bs @ cs"
  by (induction ss owns bs rule: emit_owners.induct) (auto simp: Let_def split: prod.splits)

lemma emit_owners_held:
  assumes "length owns = length ss" and "k < length ss" and "owns ! k = None"
  shows "\<exists>p. get (snd (emit_owners ss owns bs)) k = Some (of_nat p) \<and> held_at (fst (emit_owners ss owns bs)) p (ss ! k)"
  using assms
proof (induction ss owns bs arbitrary: k rule: emit_owners.induct)
  case (1 s ss own owns bs)
  let ?next = "if own = None then bs @ s @ [0] else bs"
  obtain bs' offs where e: "emit_owners ss owns ?next = (bs', offs)" by fastforce
  show ?case
  proof (cases k)
    case 0
    then have own: "own = None" using "1.prems" by simp
    obtain cs where cs: "bs' = ?next @ cs" using emit_owners_appends [of ss owns ?next] e by auto
    have "held_at bs' (length bs) s"
      unfolding cs by (rule held_at_append) (simp add: own held_at_def)
    then show ?thesis using 0 e own by (auto simp: get_def)
  next
    case (Suc k')
    then have "\<exists>p. get offs k' = Some (of_nat p) \<and> held_at bs' p (ss ! k')"
      using "1.IH" "1.prems" e by (cases "own = None") fastforce+
    then show ?thesis using Suc e by (auto simp: get_def split: if_splits)
  qed
qed simp_all

lemma emit_owners_length:
  "length owns = length ss \<Longrightarrow>
    length (fst (emit_owners ss owns bs)) = length bs + sum_list (map2 (\<lambda>s own. if own = None then length s + 1 else 0) ss owns)"
  by (induction ss owns bs rule: emit_owners.induct) (auto simp: Let_def split: prod.splits)

section \<open>Offsets\<close>

lemma ownership_length [simp]: "length (ownership_of uniq) = length uniq"
  by (simp add: ownership_of_def)

lemma ownership_nth:
  "i < length uniq \<Longrightarrow>
    ownership_of uniq ! i = (if i + 1 < length uniq \<and> suffix (uniq ! i) (uniq ! (i + 1)) then Some (i + 1) else None)"
  by (auto simp: ownership_of_def ends_with_suffix)

text \<open>The loop along the chain returns: every step goes to a later entry.\<close>

lemma find_owner_returns:
  assumes "i < length uniq"
  shows "\<exists>k. find_owner (ownership_of uniq) i = Some k \<and> k < length uniq \<and> ownership_of uniq ! k = None \<and>
    suffix (uniq ! i) (uniq ! k)"
  using assms
proof (induction "length uniq - i" arbitrary: i rule: less_induct)
  case less
  show ?case
  proof (cases "ownership_of uniq ! i")
    case None
    then show ?thesis using less.prems by (subst find_owner.simps) auto
  next
    case (Some j)
    then have j: "j = i + 1" "i + 1 < length uniq" "suffix (uniq ! i) (uniq ! (i + 1))"
      using ownership_nth [OF less.prems] by (auto split: if_splits)
    then obtain k where "find_owner (ownership_of uniq) (i + 1) = Some k" "k < length uniq"
      "ownership_of uniq ! k = None" "suffix (uniq ! (i + 1)) (uniq ! k)"
      using less.hyps [of "i + 1"] by force
    then show ?thesis using Some j less.prems
      by (subst find_owner.simps) (auto intro: suffix_order.trans)
  qed
qed

lemma my_offset_held:
  assumes "i < length uniq" and "emit_owners uniq (ownership_of uniq) [0] = (bs, emitted)"
  shows "\<exists>p. my_offset uniq (ownership_of uniq) emitted i = Some (of_nat p) \<and> held_at bs p (uniq ! i)"
proof -
  obtain k where k: "find_owner (ownership_of uniq) i = Some k" "k < length uniq" "ownership_of uniq ! k = None"
    and s: "suffix (uniq ! i) (uniq ! k)"
    using find_owner_returns [OF assms(1)] by blast
  obtain p where p: "get emitted k = Some (of_nat p)" "held_at bs p (uniq ! k)"
    using emit_owners_held [of "ownership_of uniq" uniq k "[0]"] k assms(2) by auto
  have "length (uniq ! i) \<le> length (uniq ! k)" using s by (rule suffix_length_le)
  then have "of_nat p + (of_nat (length (uniq ! k)) - of_nat (length (uniq ! i)) :: u32) =
      of_nat (p + (length (uniq ! k) - length (uniq ! i)))" by simp
  then show ?thesis
    using k p(1) held_at_suffix [OF p(2) s] assms(1)
    by (intro exI [of _ "p + (length (uniq ! k) - length (uniq ! i))"]) (simp add: my_offset_def get_def)
qed

lemma fill_offsets_spec:
  assumes "\<forall>i\<in>set is. i < length uniq \<and> my_offset uniq own em i \<noteq> None" and "distinct uniq" and "distinct is"
  shows "\<exists>m'. fill_offsets uniq own em is m = Some m' \<and>
    (\<forall>i\<in>set is. m' (uniq ! i) = my_offset uniq own em i) \<and> (\<forall>s. s \<notin> (!) uniq ` set is \<longrightarrow> m' s = m s)"
  using assms
proof (induction "is" arbitrary: m)
  case (Cons i "is")
  obtain off where off: "my_offset uniq own em i = Some off" using Cons.prems(1) by auto
  obtain m' where m': "fill_offsets uniq own em is (m(uniq ! i \<mapsto> off)) = Some m'"
    "\<forall>i\<in>set is. m' (uniq ! i) = my_offset uniq own em i"
    "\<forall>s. s \<notin> (!) uniq ` set is \<longrightarrow> m' s = (m(uniq ! i \<mapsto> off)) s"
    using Cons.IH [of "m(uniq ! i \<mapsto> off)"] Cons.prems by (auto simp del: fun_upd_apply)
  have "uniq ! i \<notin> (!) uniq ` set is"
    using Cons.prems by (auto simp: nth_eq_iff_index_eq)
  then have "m' (uniq ! i) = Some off" using m'(3) by simp
  then show ?case using m' off Cons.prems by (auto simp: get_def)
qed simp

lemma pack_returns:
  obtains bs em offs where "pack names = Some \<lparr>pk_bytes = bs, pk_offsets = offs\<rparr>"
    and "emit_owners (unique_sorted names) (ownership_of (unique_sorted names)) [0] = (bs, em)"
    and "\<And>i. i < length (unique_sorted names) \<Longrightarrow>
      \<exists>p. offs (unique_sorted names ! i) = Some (of_nat p) \<and> held_at bs p (unique_sorted names ! i)"
    and "\<And>s. s \<notin> set names - {[]} \<Longrightarrow> offs s = [[] \<mapsto> 0] s"
proof -
  let ?u = "unique_sorted names"
  obtain bs em where e: "emit_owners ?u (ownership_of ?u) [0] = (bs, em)" by fastforce
  have held: "\<exists>p. my_offset ?u (ownership_of ?u) em i = Some (of_nat p) \<and> held_at bs p (?u ! i)" if "i < length ?u" for i
    using my_offset_held [OF that e] .
  then have "\<forall>i\<in>set [0..<length ?u]. i < length ?u \<and> my_offset ?u (ownership_of ?u) em i \<noteq> None" by fastforce
  from fill_offsets_spec [OF this, of "[[] \<mapsto> 0]"] obtain offs where
    f: "fill_offsets ?u (ownership_of ?u) em [0..<length ?u] [[] \<mapsto> 0] = Some offs"
    and o: "\<forall>i\<in>set [0..<length ?u]. offs (?u ! i) = my_offset ?u (ownership_of ?u) em i"
    and r: "\<forall>s. s \<notin> (!) ?u ` set [0..<length ?u] \<longrightarrow> offs s = [[] \<mapsto> 0] s"
    by auto
  have "(!) ?u ` set [0..<length ?u] = set names - {[]}"
    by (metis list.set_map map_nth unique_sorted_set)
  then show thesis using that [of bs offs em] e f o r held by (simp add: pack_def)
qed

section \<open>Properties of the table\<close>

text \<open>
  (C39) Packing returns a table, and if that is below 4 GiB, every name (and the empty string) has an
  offset in it at which the bytes of the name stand, followed by a NUL inside the table; nothing else
  has an offset.
\<close>

theorem pack_sound:
  "\<exists>p. pack names = Some p \<and>
    (length (pk_bytes p) < 2 ^ 32 \<longrightarrow>
      dom (pk_offsets p) = insert [] (set names) \<and>
      (\<forall>name\<in>insert [] (set names). \<exists>off. pk_offsets p name = Some off \<and>
        unat off + length name < length (pk_bytes p) \<and>
        take (length name) (drop (unat off) (pk_bytes p)) = name \<and> pk_bytes p ! (unat off + length name) = 0))"
proof -
  obtain bs em offs where p: "pack names = Some \<lparr>pk_bytes = bs, pk_offsets = offs\<rparr>"
    and e: "emit_owners (unique_sorted names) (ownership_of (unique_sorted names)) [0] = (bs, em)"
    and held: "\<And>i. i < length (unique_sorted names) \<Longrightarrow>
      \<exists>p. offs (unique_sorted names ! i) = Some (of_nat p) \<and> held_at bs p (unique_sorted names ! i)"
    and others: "\<And>s. s \<notin> set names - {[]} \<Longrightarrow> offs s = [[] \<mapsto> 0] s"
    by (rule pack_returns [of names]) (blast intro: that)
  obtain cs where bs: "bs = 0 # cs" using emit_owners_appends [of "unique_sorted names" _ "[0]"] e by (metis append_Cons append_Nil fst_conv)
  have found: "\<exists>q. offs name = Some (of_nat q) \<and> held_at bs q name" if name: "name \<in> insert [] (set names)" for name
  proof (cases "name = []")
    case True
    then show ?thesis using others [of "[]"] by (intro exI [of _ 0]) (simp add: held_at_def bs)
  next
    case False
    then have "name \<in> set (unique_sorted names)" using name by simp
    then show ?thesis using held by (metis in_set_conv_nth)
  qed
  have "\<exists>off. offs name = Some off \<and> unat off + length name < length bs \<and>
      take (length name) (drop (unat off) bs) = name \<and> bs ! (unat off + length name) = 0"
    if name: "name \<in> insert [] (set names)" and len: "length bs < 2 ^ 32" for name
  proof -
    obtain q where q: "offs name = Some (of_nat q)" "held_at bs q name" using found [OF name] by blast
    have "unat (of_nat q :: u32) = q" using q(2) len by (simp add: held_at_def unat_of_nat take_bit_nat_eq_self)
    moreover have "take (length name) (drop q bs) = name \<and> bs ! (q + length name) = 0"
      using q(2) by (auto simp: held_at_def take_Suc_conv_app_nth)
    ultimately show ?thesis using q by (auto simp: held_at_def)
  qed
  moreover have "dom offs = insert [] (set names)"
    using found others by (fastforce simp: dom_def split: if_splits)
  ultimately show ?thesis
    by (intro exI [of _ "\<lparr>pk_bytes = bs, pk_offsets = offs\<rparr>"] conjI p) (simp only: packed.select_convs, blast)
qed

theorem pack_sound_witness:
  "\<exists>p off. pack [[98, 97], [97], [99, 97]] = Some p \<and> pk_offsets p [97] = Some off \<and> pk_bytes p ! (unat off + 1) = 0"
proof -
  have "map_option (\<lambda>p. length (pk_bytes p)) (pack [[98, 97], [97], [99, 97]]) = Some 7" by code_simp
  then show ?thesis using pack_sound [of "[[98, 97], [97], [99, 97]]"] by auto
qed

definition absorbed :: "bytes set \<Rightarrow> bytes \<Rightarrow> bool" where
  "absorbed S s \<longleftrightarrow> (\<exists>t\<in>S. t \<noteq> s \<and> suffix s t)"

lemma absorbed_nth:
  assumes "i < length (unique_sorted names)"
  shows "absorbed (set names) (unique_sorted names ! i) \<longleftrightarrow>
    i + 1 < length (unique_sorted names) \<and> ends_with (unique_sorted names ! (i + 1)) (unique_sorted names ! i)"
proof
  let ?u = "unique_sorted names"
  assume "absorbed (set names) (?u ! i)"
  then obtain t where t: "t \<in> set names" "t \<noteq> ?u ! i" "suffix (?u ! i) t" by (auto simp: absorbed_def)
  moreover have "?u ! i \<noteq> []" using nth_mem [OF assms] by simp
  then have "t \<in> set ?u" using t by auto
  ultimately show "i + 1 < length ?u \<and> ends_with (?u ! (i + 1)) (?u ! i)"
    using successor_enough [OF assms unique_sorted_sorted unique_sorted_distinct] by (simp add: ends_with_suffix)
next
  let ?u = "unique_sorted names"
  assume a: "i + 1 < length ?u \<and> ends_with (?u ! (i + 1)) (?u ! i)"
  then have "?u ! (i + 1) \<in> set ?u" by (intro nth_mem) simp
  moreover have "?u ! (i + 1) \<noteq> ?u ! i" using a assms by (simp add: nth_eq_iff_index_eq)
  ultimately show "absorbed (set names) (?u ! i)" using a by (auto simp: absorbed_def ends_with_suffix)
qed

lemma packed_size_sum:
  "packed_size names = 1 + (\<Sum>s\<in>{s \<in> set names - {[]}. \<not> absorbed (set names) s}. length s + 1)"
proof -
  let ?u = "unique_sorted names"
  let ?f = "\<lambda>s. if absorbed (set names) s then 0 else length s + 1"
  have "packed_size names = 1 + sum_list (map (\<lambda>i. ?f (?u ! i)) [0..<length ?u])"
    unfolding packed_size_def Let_def
    by (intro arg_cong2 [of _ _ _ _ "(+)"] arg_cong [of _ _ sum_list] map_cong refl) (simp add: absorbed_nth)
  also have "map (\<lambda>i. ?f (?u ! i)) [0..<length ?u] = map ?f ?u"
    by (rule nth_equalityI) simp_all
  also have "sum_list (map ?f ?u) = sum ?f (set names - {[]})"
    by (simp add: sum_list_distinct_conv_sum_set)
  also have "sum ?f (set names - {[]}) = (\<Sum>s\<in>{s \<in> set names - {[]}. \<not> absorbed (set names) s}. length s + 1)"
    by (rule sum.mono_neutral_cong_right) auto
  finally show ?thesis .
qed

lemma pack_length:
  assumes "pack names = Some p"
  shows "length (pk_bytes p) = packed_size names"
proof -
  let ?u = "unique_sorted names"
  obtain bs em where e: "emit_owners ?u (ownership_of ?u) [0] = (bs, em)" by fastforce
  then have "pk_bytes p = bs" using assms by (auto simp: pack_def Let_def split: bind_splits)
  then have "length (pk_bytes p) = 1 + sum_list (map2 (\<lambda>s own. if own = None then length s + 1 else 0) ?u (ownership_of ?u))"
    using emit_owners_length [of "ownership_of ?u" ?u "[0]"] e by simp
  also have "map2 (\<lambda>s own. if own = None then length s + 1 else 0) ?u (ownership_of ?u) =
      map (\<lambda>i. if i + 1 < length ?u \<and> ends_with (?u ! (i + 1)) (?u ! i) then 0 else length (?u ! i) + 1) [0..<length ?u]"
    by (rule nth_equalityI) (auto simp: ownership_nth ends_with_suffix)
  finally show ?thesis by (simp add: packed_size_def Let_def)
qed

text \<open>
  The predicted size is the size of the packed table, it is at most the size without sharing, and
  sharing is complete: the table holds exactly one terminated copy of every non-empty name that is not a
  proper suffix of another name, behind the leading NUL.
\<close>

theorem packed_size_exact:
  assumes "pack names = Some p"
  shows "length (pk_bytes p) = packed_size names \<and> packed_size names \<le> naive_size names \<and>
    packed_size names =
      1 + (\<Sum>s\<in>{s \<in> set names. s \<noteq> [] \<and> \<not> (\<exists>t\<in>set names. t \<noteq> s \<and> suffix s t)}. length s + 1)"
proof -
  have "naive_size names = 1 + (\<Sum>s\<in>set names - {[]}. length s + 1)"
    unfolding naive_size_def by (subst sum_list_distinct_conv_sum_set) (auto intro!: sum.cong)
  moreover have "(\<Sum>s\<in>{s \<in> set names - {[]}. \<not> absorbed (set names) s}. length s + 1) \<le> (\<Sum>s\<in>set names - {[]}. length s + 1)"
    by (rule sum_mono2) auto
  moreover have "{s \<in> set names - {[]}. \<not> absorbed (set names) s} =
      {s \<in> set names. s \<noteq> [] \<and> \<not> (\<exists>t\<in>set names. t \<noteq> s \<and> suffix s t)}"
    by (auto simp: absorbed_def)
  ultimately show ?thesis using pack_length [OF assms] packed_size_sum [of names] by simp
qed

theorem packed_size_exact_witness:
  "\<exists>p. pack [[98, 97], [97], [99, 97]] = Some p \<and> length (pk_bytes p) = packed_size [[98, 97], [97], [99, 97]]"
proof -
  have "pack [[98, 97], [97], [99, 97]] \<noteq> None" by code_simp
  then show ?thesis using packed_size_exact by blast
qed

end
