(* ===== verification/Alignment.thy ===== *)
theory Alignment
  imports Prelude
begin

text \<open>
  Model of \<open>libwild/src/alignment.rs\<close>: power-of-two alignments stored by exponent, and the
  rounding operations the layout phase uses to place sections and segments. The laws state
  rounding up and down as the least and greatest multiple, and \<open>align_modulo\<close> as the least
  aligned-up address that is congruent to the file offset.
\<close>

section \<open>Data\<close>

datatype Alignment = Alignment (exponent: u8)

definition MAX_ALIGNMENT_EXPONENT :: u8 where
  "MAX_ALIGNMENT_EXPONENT = 16"

definition NUM_ALIGNMENTS :: nat where
  "NUM_ALIGNMENTS = unat MAX_ALIGNMENT_EXPONENT + 1"

definition MIN_alignment :: Alignment where
  "MIN_alignment = Alignment 0"

definition MAX_alignment :: Alignment where
  "MAX_alignment = Alignment MAX_ALIGNMENT_EXPONENT"

text \<open>The derived \<open>Ord\<close> compares exponents.\<close>

instantiation Alignment :: linorder
begin

definition less_eq_Alignment :: "Alignment \<Rightarrow> Alignment \<Rightarrow> bool" where
  "less_eq_Alignment a b \<longleftrightarrow> exponent a \<le> exponent b"

definition less_Alignment :: "Alignment \<Rightarrow> Alignment \<Rightarrow> bool" where
  "less_Alignment a b \<longleftrightarrow> exponent a < exponent b"

instance
  by intro_classes
    (auto simp: less_eq_Alignment_def less_Alignment_def less_le_not_le Alignment.expand)

end

datatype alignment_error = InvalidAlignment u64 | UnsupportedAlignment u64

section \<open>Operations\<close>

text \<open>\<open>u64::is_power_of_two\<close>, \<open>u64::trailing_zeros\<close> and \<open>next_multiple_of\<close> of the standard library.\<close>

definition is_power_of_two :: "u64 \<Rightarrow> bool" where
  "is_power_of_two raw = list_ex (\<lambda>e. raw = push_bit e 1) [0..<64]"

definition trailing_zeros :: "u64 \<Rightarrow> nat" where
  "trailing_zeros raw = length (takeWhile (\<lambda>i. \<not> bit raw i) [0..<64])"

definition next_multiple_of :: "u64 \<Rightarrow> u64 \<Rightarrow> u64" where
  "next_multiple_of v m = (let r = v mod m in if r = 0 then v else v + (m - r))"

definition new_alignment :: "u64 \<Rightarrow> alignment_error + Alignment" where
  "new_alignment raw =
     (if \<not> is_power_of_two raw then Inl (InvalidAlignment raw)
      else let e = trailing_zeros raw in
        if e > unat (exponent MAX_alignment) then Inl (UnsupportedAlignment raw)
        else Inr (Alignment (of_nat e)))"

definition alignment_value :: "Alignment \<Rightarrow> u64" where
  "alignment_value a = push_bit (unat (exponent a) mod 64) 1"

definition alignment_mask :: "Alignment \<Rightarrow> u64" where
  "alignment_mask a = alignment_value a - 1"

definition align_up :: "Alignment \<Rightarrow> u64 \<Rightarrow> u64" where
  "align_up a v = next_multiple_of v (alignment_value a)"

definition align_down :: "Alignment \<Rightarrow> u64 \<Rightarrow> u64" where
  "align_down a v = v AND NOT (alignment_mask a)"

definition align_modulo :: "Alignment \<Rightarrow> u64 \<Rightarrow> u64 \<Rightarrow> u64" where
  "align_modulo a ref_offset offset0 =
     (let mask = alignment_mask a;
          offset = align_up a offset0
      in if offset AND mask = ref_offset AND mask then offset
         else let adjustment0 = (ref_offset AND mask) + alignment_value a - (offset AND mask);
                  adjustment = (if adjustment0 > alignment_value a
                                then adjustment0 - alignment_value a else adjustment0)
              in offset + adjustment)"

section \<open>Well-formedness and arithmetic view\<close>

text \<open>Every alignment the constructor makes has an exponent of at most 16.\<close>

definition wf_alignment :: "Alignment \<Rightarrow> bool" where
  "wf_alignment a \<longleftrightarrow> exponent a \<le> MAX_ALIGNMENT_EXPONENT"

abbreviation align_nat :: "Alignment \<Rightarrow> nat" where
  "align_nat a \<equiv> 2 ^ unat (exponent a)"

lemma wf_alignment_exponent: "wf_alignment a \<Longrightarrow> unat (exponent a) \<le> 16"
  by (simp add: wf_alignment_def MAX_ALIGNMENT_EXPONENT_def word_le_nat_alt)

lemma align_nat_bound: "wf_alignment a \<Longrightarrow> align_nat a \<le> 65536"
  using power_increasing [of "unat (exponent a)" 16 "2::nat"]
  by (simp add: wf_alignment_exponent)

lemma alignment_value_power:
  "wf_alignment a \<Longrightarrow> alignment_value a = 2 ^ unat (exponent a)"
  using wf_alignment_exponent [of a] by (simp add: alignment_value_def push_bit_eq_mult)

lemma unat_alignment_value: "wf_alignment a \<Longrightarrow> unat (alignment_value a) = align_nat a"
  using wf_alignment_exponent [of a]
  by (simp add: alignment_value_power unat_power2)

lemma alignment_mask_eq: "wf_alignment a \<Longrightarrow> alignment_mask a = mask (unat (exponent a))"
  by (simp add: alignment_mask_def alignment_value_power mask_eq_decr_exp)

lemma AND_alignment_mask:
  "wf_alignment a \<Longrightarrow> v AND alignment_mask a = take_bit (unat (exponent a)) v"
  by (simp add: alignment_mask_eq take_bit_eq_mask)

lemma unat_AND_alignment_mask:
  "wf_alignment a \<Longrightarrow> unat (v AND alignment_mask a) = unat v mod align_nat a"
  by (simp only: AND_alignment_mask unat_take_bit)

text \<open>Rounding up on natural numbers: the reference the word operations are compared with.\<close>

definition round_up :: "nat \<Rightarrow> nat \<Rightarrow> nat" where
  "round_up m v = (if v mod m = 0 then v else v + (m - v mod m))"

lemma round_up_dvd:
  assumes "0 < m"
  shows "m dvd round_up m v"
proof (cases "v mod m = 0")
  case True
  then show ?thesis by (auto simp: round_up_def)
next
  case False
  define q r where "q = v div m" and "r = v mod m"
  have v: "v = m * q + r" and "r < m"
    using assms by (simp_all add: q_def r_def)
  then have "v + (m - r) = m * Suc q"
    by simp
  then show ?thesis
    using False by (simp add: round_up_def flip: r_def)
qed

lemma round_up_ge: "v \<le> round_up m v"
  by (simp add: round_up_def)

lemma round_up_less: "0 < m \<Longrightarrow> round_up m v < v + m"
  by (simp add: round_up_def)

lemma round_up_least:
  assumes "0 < m" and "v \<le> w" and "m dvd w"
  shows "round_up m v \<le> w"
proof (rule ccontr)
  assume "\<not> round_up m v \<le> w"
  then have "w < round_up m v" and "round_up m v < w + m"
    using round_up_less [OF assms(1), of v] assms(2) by linarith+
  moreover obtain j k where "w = m * j" and "round_up m v = m * k"
    using assms(3) round_up_dvd [OF assms(1), of v] by (auto elim!: dvdE)
  ultimately have "j < k" and "k < Suc j"
    using assms(1) by (metis nat_mult_less_cancel1, metis mult_Suc_right add.commute nat_mult_less_cancel1)
  then show False by simp
qed

lemma unat_align_up:
  assumes "wf_alignment a" and "unat v + align_nat a \<le> 2 ^ 64"
  shows "unat (align_up a v) = round_up (align_nat a) (unat v)"
proof -
  let ?m = "align_nat a"
  have m: "unat (alignment_value a) = ?m"
    using assms(1) by (rule unat_alignment_value)
  have r: "unat (v mod alignment_value a) = unat v mod ?m"
    by (simp add: unat_mod m)
  show ?thesis
  proof (cases "unat v mod ?m = 0")
    case True
    then have "v mod alignment_value a = 0"
      using r by (simp add: unat_eq_zero)
    then show ?thesis
      using True by (simp add: align_up_def next_multiple_of_def round_up_def)
  next
    case False
    then have nz: "v mod alignment_value a \<noteq> 0"
      using r by (metis unat_0)
    have le: "v mod alignment_value a \<le> alignment_value a"
      by (simp add: word_le_nat_alt m r mod_le_divisor)
    have "unat (alignment_value a - v mod alignment_value a) = ?m - unat v mod ?m"
      using le by (simp add: unat_sub m r)
    then have "unat (v + (alignment_value a - v mod alignment_value a)) =
        unat v + (?m - unat v mod ?m)"
      using assms(2) False by (subst unat_add_no_overflow) auto
    then show ?thesis
      using nz False by (simp add: align_up_def next_multiple_of_def round_up_def)
  qed
qed

lemma unat_align_down:
  assumes "wf_alignment a"
  shows "unat (align_down a v) = unat v - unat v mod align_nat a"
proof -
  let ?n = "unat (exponent a)"
  have "align_down a v = push_bit ?n (drop_bit ?n v)"
    unfolding align_down_def alignment_mask_eq [OF assms]
    by (rule bit_word_eqI) (auto simp: bit_simps)
  then have "align_down a v = v - (v AND alignment_mask a)"
    using bits_ident [of ?n v] AND_alignment_mask [OF assms, of v]
    by (simp add: eq_diff_eq)
  moreover have "v AND alignment_mask a \<le> v"
    by (simp add: word_and_le2)
  ultimately show ?thesis
    using assms by (simp add: unat_sub unat_AND_alignment_mask)
qed

lemma align_up_AND_mask:
  assumes "wf_alignment a" and "unat v + align_nat a \<le> 2 ^ 64"
  shows "align_up a v AND alignment_mask a = 0"
proof -
  have "unat (align_up a v AND alignment_mask a) = 0"
    using assms round_up_dvd [of "align_nat a" "unat v"]
    by (simp add: unat_AND_alignment_mask unat_align_up)
  then show ?thesis by (simp add: unat_eq_zero)
qed

text \<open>
  The two branches of \<open>align_modulo\<close> both add the reference offset's remainder: the rounded
  offset has remainder 0, so the adjustment always exceeds the alignment by that remainder.
\<close>

lemma align_modulo_eq:
  assumes "wf_alignment a" and "unat offset + align_nat a \<le> 2 ^ 64"
  shows "align_modulo a ref offset = align_up a offset + (ref AND alignment_mask a)"
proof (cases "ref AND alignment_mask a = 0")
  case True
  then show ?thesis
    using align_up_AND_mask [OF assms] by (simp add: align_modulo_def Let_def)
next
  case False
  let ?r = "ref AND alignment_mask a"
  have lt: "unat ?r < align_nat a"
    using assms(1) by (simp add: unat_AND_alignment_mask)
  have "unat (?r + alignment_value a) = unat ?r + align_nat a"
    using lt assms(1) align_nat_bound [OF assms(1)]
    by (subst unat_add_no_overflow) (auto simp: unat_alignment_value)
  moreover have "0 < unat ?r"
    using False by (metis neq0_conv unat_eq_zero)
  ultimately have "?r + alignment_value a > alignment_value a"
    using assms(1) by (simp add: word_less_nat_alt unat_alignment_value)
  then show ?thesis
    using False align_up_AND_mask [OF assms] by (simp add: align_modulo_def Let_def)
qed

lemma unat_align_modulo:
  assumes "wf_alignment a" and "unat offset + 2 * align_nat a \<le> 2 ^ 64"
  shows "unat (align_modulo a ref offset) =
    round_up (align_nat a) (unat offset) + unat ref mod align_nat a"
proof -
  have b: "unat offset + align_nat a \<le> 2 ^ 64"
    using assms(2) by linarith
  have "round_up (align_nat a) (unat offset) < unat offset + align_nat a"
    and "unat ref mod align_nat a < align_nat a"
    by (simp_all add: round_up_less)
  then have "round_up (align_nat a) (unat offset) + unat ref mod align_nat a < 2 ^ 64"
    using assms(2) by linarith
  then show ?thesis
    using assms(1) b
    by (simp add: align_modulo_eq unat_add_no_overflow unat_align_up unat_AND_alignment_mask)
qed

section \<open>Properties\<close>

text \<open>
  \<open>align_up\<close> returns the least multiple of the alignment that is not below its argument,
  and \<open>align_down\<close> the greatest one that is not above it, as long as rounding up stays within
  64 bits.
\<close>

theorem align_up_down_correct:
  assumes "wf_alignment a" and "unat v + align_nat a \<le> 2 ^ 64"
  shows "align_nat a dvd unat (align_up a v) \<and> v \<le> align_up a v \<and>
    (\<forall>w. align_nat a dvd unat w \<and> v \<le> w \<longrightarrow> align_up a v \<le> w) \<and>
    align_nat a dvd unat (align_down a v) \<and> align_down a v \<le> v \<and>
    (\<forall>w. align_nat a dvd unat w \<and> w \<le> v \<longrightarrow> w \<le> align_down a v)"
proof (intro conjI allI impI)
  have up: "unat (align_up a v) = round_up (align_nat a) (unat v)"
    using assms by (rule unat_align_up)
  have down: "unat (align_down a v) = align_nat a * (unat v div align_nat a)"
    using assms(1) by (simp add: unat_align_down minus_mod_eq_mult_div)
  show "align_nat a dvd unat (align_up a v)"
    by (simp add: up round_up_dvd)
  show "v \<le> align_up a v"
    by (simp add: word_le_nat_alt up round_up_ge)
  show "align_up a v \<le> w" if "align_nat a dvd unat w \<and> v \<le> w" for w
    using that by (simp add: word_le_nat_alt up round_up_least)
  show "align_nat a dvd unat (align_down a v)"
    by (simp add: down)
  show "align_down a v \<le> v"
    by (simp add: word_le_nat_alt down)
  show "w \<le> align_down a v" if "align_nat a dvd unat w \<and> w \<le> v" for w
  proof -
    have "unat w = align_nat a * (unat w div align_nat a)"
      using that by simp
    also have "\<dots> \<le> align_nat a * (unat v div align_nat a)"
      using that by (intro mult_le_mono2 div_le_mono) (simp add: word_le_nat_alt)
    finally show ?thesis
      by (simp only: word_le_nat_alt down)
  qed
qed

theorem align_up_down_correct_witness:
  "wf_alignment (Alignment 4) \<and> align_up (Alignment 4) 31 = 32 \<and> align_down (Alignment 4) 31 = 16 \<and>
   align_nat (Alignment 4) dvd unat (align_up (Alignment 4) 31)"
proof -
  have wf: "wf_alignment (Alignment 4)" and b: "unat (31 :: u64) + align_nat (Alignment 4) \<le> 2 ^ 64"
    by (simp_all add: wf_alignment_def MAX_ALIGNMENT_EXPONENT_def)
  show ?thesis
    using wf align_up_down_correct [OF wf b]
    by (simp add: align_up_def align_down_def next_multiple_of_def alignment_mask_def alignment_value_def)
qed

text \<open>
  \<open>align_modulo\<close> returns the least address that is at or above the rounded-up offset and
  congruent to the reference offset modulo the alignment.
\<close>

theorem align_modulo_correct:
  assumes "wf_alignment a" and "unat offset + 2 * align_nat a \<le> 2 ^ 64"
  shows "align_up a offset \<le> align_modulo a ref offset \<and>
    unat (align_modulo a ref offset) mod align_nat a = unat ref mod align_nat a \<and>
    (\<forall>w. align_up a offset \<le> w \<and> unat w mod align_nat a = unat ref mod align_nat a \<longrightarrow>
      align_modulo a ref offset \<le> w)"
proof (intro conjI allI impI)
  let ?m = "align_nat a"
  have b: "unat offset + ?m \<le> 2 ^ 64"
    using assms(2) by linarith
  have up: "unat (align_up a offset) = round_up ?m (unat offset)"
    using assms(1) b by (rule unat_align_up)
  obtain k where k: "round_up ?m (unat offset) = ?m * k"
    using round_up_dvd [of ?m "unat offset"] by (auto elim!: dvdE)
  have am: "unat (align_modulo a ref offset) = ?m * k + unat ref mod ?m"
    using unat_align_modulo [OF assms] by (simp add: k)
  show "align_up a offset \<le> align_modulo a ref offset"
    by (simp add: word_le_nat_alt up am k)
  show "unat (align_modulo a ref offset) mod ?m = unat ref mod ?m"
    by (simp add: am)
  show "align_modulo a ref offset \<le> w"
    if "align_up a offset \<le> w \<and> unat w mod ?m = unat ref mod ?m" for w
  proof -
    have "?m * k \<le> unat w"
      using that by (simp add: word_le_nat_alt up k)
    then have "?m * k \<le> ?m * (unat w div ?m)"
      by (metis div_le_mono mult_le_mono2 nonzero_mult_div_cancel_left power_eq_0_iff zero_neq_numeral)
    then have "?m * k + unat w mod ?m \<le> unat w"
      by (metis add_le_mono1 mult_div_mod_eq)
    then show ?thesis
      using that by (simp only: word_le_nat_alt am)
  qed
qed

theorem align_modulo_correct_witness:
  "align_modulo (Alignment 12) 0x123456 0x987222 = 0x988456 \<and>
   align_up (Alignment 12) 0x987222 \<le> align_modulo (Alignment 12) 0x123456 0x987222"
proof -
  have wf: "wf_alignment (Alignment 12)"
    and b: "unat (0x987222 :: u64) + 2 * align_nat (Alignment 12) \<le> 2 ^ 64"
    by (simp_all add: wf_alignment_def MAX_ALIGNMENT_EXPONENT_def)
  show ?thesis
    using align_modulo_correct [OF wf b, where ref = "0x123456"]
    by (simp add: align_modulo_def align_up_def next_multiple_of_def alignment_mask_def
        alignment_value_def Let_def)
qed

lemma trailing_zeros_power2:
  assumes "e < 64"
  shows "trailing_zeros (2 ^ e) = e"
proof -
  have "takeWhile (\<lambda>i. \<not> bit (2 ^ e :: u64) i) [0..<64] = take e [0..<64]"
    using assms by (intro takeWhile_eq_take_P_nth) (auto simp: bit_simps)
  then show ?thesis
    using assms by (simp add: trailing_zeros_def)
qed

text \<open>
  \<open>Alignment::new\<close> accepts exactly the values of the supported alignments: it returns
  an alignment iff that alignment is well formed and its value is the given number; every other
  number is rejected.
\<close>

theorem new_alignment_iff:
  "new_alignment raw = Inr a \<longleftrightarrow> wf_alignment a \<and> alignment_value a = raw"
proof
  assume "new_alignment raw = Inr a"
  then obtain e where e: "e < 64" "raw = push_bit e 1" "e \<le> 16" "a = Alignment (of_nat e)"
    by (auto simp: new_alignment_def is_power_of_two_def list_ex_iff MAX_alignment_def
        MAX_ALIGNMENT_EXPONENT_def Let_def trailing_zeros_power2 split: if_splits)
  then have "unat (of_nat e :: u8) = e"
    by (simp add: unat_of_nat)
  then show "wf_alignment a \<and> alignment_value a = raw"
    using e by (simp add: wf_alignment_def MAX_ALIGNMENT_EXPONENT_def word_le_nat_alt
        alignment_value_def)
next
  assume "wf_alignment a \<and> alignment_value a = raw"
  then have e: "unat (exponent a) \<le> 16" and raw: "raw = push_bit (unat (exponent a)) 1"
    using wf_alignment_exponent [of a] by (auto simp: alignment_value_def)
  then have "is_power_of_two raw"
    by (auto simp: is_power_of_two_def list_ex_iff intro!: bexI [where x = "unat (exponent a)"])
  then show "new_alignment raw = Inr a"
    using e by (simp add: new_alignment_def raw trailing_zeros_power2 MAX_alignment_def
        MAX_ALIGNMENT_EXPONENT_def Let_def)
qed

end
