(* ===== verification/Output_Section.thy ===== *)
theory Output_Section
  imports Alignment
begin

text \<open>
  Model of the tables the layout phase works on: \<open>libwild/src/part_id.rs\<close>,
  \<open>output_section_id.rs\<close>, \<open>output_section_map.rs\<close> and \<open>output_section_part_map.rs\<close>. An output section is split into parts by alignment;
  parts and sections are numbered so that each can be computed from the other. Maps from parts
  and from sections are lists; an index out of range is a panic, \<^const>\<open>None\<close>.

  The code is generic in the platform. What it uses of the platform's traits is the record
  \<open>Platform\<close>, over the types of section attributes and of segment definitions.

  The theorems: the numbering is a bijection that keeps section and alignment; the tables of
  output sections keep their invariant, and requests for sections by name or by priority share a
  section exactly if they agree.
\<close>

section \<open>Part and section numbers\<close>

type_synonym PartId = u32
type_synonym OutputSectionId = u32

definition NUM_SINGLE_PART_SECTIONS :: u32 where
  "NUM_SINGLE_PART_SECTIONS = 38"

definition NUM_BUILT_IN_REGULAR_SECTIONS :: nat where
  "NUM_BUILT_IN_REGULAR_SECTIONS = 16"

definition NUM_BUILT_IN_SECTIONS :: nat where
  "NUM_BUILT_IN_SECTIONS = unat NUM_SINGLE_PART_SECTIONS + NUM_BUILT_IN_REGULAR_SECTIONS"

definition output_section_id :: "PartId \<Rightarrow> OutputSectionId" where
  "output_section_id p =
     (if p < NUM_SINGLE_PART_SECTIONS then p
      else (p - NUM_SINGLE_PART_SECTIONS) div of_nat NUM_ALIGNMENTS + NUM_SINGLE_PART_SECTIONS)"

definition part_id_from_usize :: "nat \<Rightarrow> PartId option" where
  "part_id_from_usize raw = (if raw < 2 ^ 32 then Some (of_nat raw) else None)"

definition part_id_offset :: "PartId \<Rightarrow> nat \<Rightarrow> PartId" where
  "part_id_offset p n = p + of_nat n"

definition regular :: "u32 \<Rightarrow> OutputSectionId" where
  "regular n = NUM_SINGLE_PART_SECTIONS + n"

definition is_regular :: "OutputSectionId \<Rightarrow> bool" where
  "is_regular s \<longleftrightarrow> s \<ge> NUM_SINGLE_PART_SECTIONS"

definition is_custom :: "OutputSectionId \<Rightarrow> bool" where
  "is_custom s \<longleftrightarrow> unat s \<ge> NUM_BUILT_IN_SECTIONS"

definition num_parts_of_section :: "OutputSectionId \<Rightarrow> nat" where
  "num_parts_of_section s = (if s < NUM_SINGLE_PART_SECTIONS then 1 else NUM_ALIGNMENTS)"

definition base_part_id :: "OutputSectionId \<Rightarrow> PartId" where
  "base_part_id s =
     (if s < NUM_SINGLE_PART_SECTIONS then s
      else NUM_SINGLE_PART_SECTIONS + (s - NUM_SINGLE_PART_SECTIONS) * of_nat NUM_ALIGNMENTS)"

definition part_id_range :: "OutputSectionId \<Rightarrow> PartId \<times> PartId" where
  "part_id_range s = (let base = base_part_id s in (base, part_id_offset base (num_parts_of_section s)))"

text \<open>The part of a regular section with an alignment; other sections are a panic.\<close>

definition part_id_with_alignment :: "OutputSectionId \<Rightarrow> Alignment \<Rightarrow> PartId option" where
  "part_id_with_alignment s a =
     (if s < NUM_SINGLE_PART_SECTIONS then None
      else Some (NUM_SINGLE_PART_SECTIONS + (s - NUM_SINGLE_PART_SECTIONS) * of_nat NUM_ALIGNMENTS
        + of_nat NUM_ALIGNMENTS - 1 - ucast (exponent a)))"

section \<open>Output sections\<close>

datatype SectionKind = Primary bytes | Secondary OutputSectionId

datatype SecondaryOrder = InitFini u16

record 'a SectionOutputInfo =
  si_kind :: SectionKind
  si_section_attributes :: 'a
  si_min_alignment :: Alignment
  si_location :: "u64 option"
  si_secondary_order :: "SecondaryOrder option"

record 'a OutputSections =
  os_base_address :: u64
  os_section_infos :: "'a SectionOutputInfo list"
  os_output_section_indexes :: "u32 option list"
  os_custom_by_name :: "bytes \<Rightarrow> OutputSectionId option"
  os_init_fini_by_priority :: "OutputSectionId \<times> u16 \<Rightarrow> OutputSectionId option"

text \<open>What the generic code uses of \<open>P::SectionAttributes\<close> (type \<open>'a\<close>) and of
  \<open>P::ProgramSegmentDef\<close> (type \<open>'d\<close>); \<open>flags_is_alloc\<close> is \<open>is_alloc\<close> of the attributes' flags.\<close>

record ('a, 'd) Platform =
  attr_is_alloc :: "'a \<Rightarrow> bool"
  flags_is_alloc :: "'a \<Rightarrow> bool"
  attr_is_executable :: "'a \<Rightarrow> bool"
  attr_is_tls :: "'a \<Rightarrow> bool"
  attr_is_writable :: "'a \<Rightarrow> bool"
  attr_is_no_bits :: "'a \<Rightarrow> bool"
  seg_is_writable :: "'d \<Rightarrow> bool"
  seg_is_executable :: "'d \<Rightarrow> bool"
  seg_is_loadable :: "'d \<Rightarrow> bool"
  seg_is_stack :: "'d \<Rightarrow> bool"
  seg_is_tls :: "'d \<Rightarrow> bool"
  seg_order_key :: "'d \<Rightarrow> nat"
  seg_should_include_section :: "'d \<Rightarrow> 'a SectionOutputInfo \<Rightarrow> OutputSectionId \<Rightarrow> bool"
  seg_should_cut_rw_segment_when_ending :: "'d \<Rightarrow> bool"
  program_segment_defs :: "'d list"
  unconditional_segment_defs :: "'d list"
  attr_default :: 'a

definition section_map_get :: "'t list \<Rightarrow> OutputSectionId \<Rightarrow> 't option" where
  "section_map_get m s = get m (unat s)"

definition section_map_add_new :: "'t list \<Rightarrow> 't \<Rightarrow> OutputSectionId \<times> 't list" where
  "section_map_add_new m v = (of_nat (length m), m @ [v])"

definition output_info :: "'a OutputSections \<Rightarrow> OutputSectionId \<Rightarrow> 'a SectionOutputInfo option" where
  "output_info os s = section_map_get (os_section_infos os) s"

definition section_min_alignment :: "'a OutputSections \<Rightarrow> OutputSectionId \<Rightarrow> Alignment option" where
  "section_min_alignment os s = map_option si_min_alignment (output_info os s)"

definition merge_target :: "'a OutputSections \<Rightarrow> OutputSectionId \<Rightarrow> OutputSectionId option option" where
  "merge_target os s =
     do {
       info \<leftarrow> output_info os s;
       Some (case si_kind info of Primary _ \<Rightarrow> None | Secondary primary_id \<Rightarrow> Some primary_id)
     }"

definition primary_output_section :: "'a OutputSections \<Rightarrow> OutputSectionId \<Rightarrow> OutputSectionId option" where
  "primary_output_section os s =
     do {
       target \<leftarrow> merge_target os s;
       Some (case target of None \<Rightarrow> s | Some primary_id \<Rightarrow> primary_id)
     }"

definition section_name :: "'a OutputSections \<Rightarrow> OutputSectionId \<Rightarrow> bytes option option" where
  "section_name os s =
     do {
       info \<leftarrow> output_info os s;
       Some (case si_kind info of Primary n \<Rightarrow> Some n | Secondary _ \<Rightarrow> None)
     }"

definition has_data_in_file :: "('a, 'd) Platform \<Rightarrow> 'a OutputSections \<Rightarrow> OutputSectionId \<Rightarrow> bool option" where
  "has_data_in_file P os s =
     do {
       info \<leftarrow> output_info os s;
       let attributes = si_section_attributes info;
       Some (\<not> attr_is_no_bits P attributes \<or> attr_is_tls P attributes)
     }"

definition section_is_alloc :: "('a, 'd) Platform \<Rightarrow> 'a OutputSections \<Rightarrow> OutputSectionId \<Rightarrow> bool option" where
  "section_is_alloc P os s =
     map_option (\<lambda>info. flags_is_alloc P (si_section_attributes info)) (output_info os s)"

definition output_index_of_section :: "'a OutputSections \<Rightarrow> OutputSectionId \<Rightarrow> u32 option" where
  "output_index_of_section os s =
     (case get (os_output_section_indexes os) (unat s) of None \<Rightarrow> None | Some i \<Rightarrow> i)"

definition will_emit_section :: "'a OutputSections \<Rightarrow> OutputSectionId \<Rightarrow> bool" where
  "will_emit_section os s \<longleftrightarrow> output_index_of_section os s \<noteq> None"

definition os_num_parts :: "'a OutputSections \<Rightarrow> nat" where
  "os_num_parts os = unat NUM_SINGLE_PART_SECTIONS
     + (length (os_section_infos os) - unat NUM_SINGLE_PART_SECTIONS) * NUM_ALIGNMENTS"

definition part_alignment :: "'a OutputSections \<Rightarrow> PartId \<Rightarrow> Alignment option" where
  "part_alignment os p =
     (if p \<ge> NUM_SINGLE_PART_SECTIONS
      then Some (Alignment (of_nat NUM_ALIGNMENTS - 1
        - ucast ((p - NUM_SINGLE_PART_SECTIONS) mod of_nat NUM_ALIGNMENTS)))
      else section_min_alignment os (output_section_id p))"

text \<open>Creation of sections.\<close>

definition with_base_address :: "'a SectionOutputInfo list \<Rightarrow> u64 \<Rightarrow> 'a OutputSections" where
  "with_base_address built_in base =
     \<lparr>os_base_address = base, os_section_infos = built_in, os_output_section_indexes = [],
      os_custom_by_name = (\<lambda>_. None), os_init_fini_by_priority = (\<lambda>_. None)\<rparr>"

definition add_named_section ::
    "('a, 'd) Platform \<Rightarrow> 'a OutputSections \<Rightarrow> bytes \<Rightarrow> Alignment \<Rightarrow> u64 option \<Rightarrow> OutputSectionId \<times> 'a OutputSections" where
  "add_named_section P os nm min_al location =
     (case os_custom_by_name os nm of
        Some s \<Rightarrow> (s, os)
      | None \<Rightarrow>
          (let (s, infos) = section_map_add_new (os_section_infos os)
                 \<lparr>si_kind = Primary nm, si_section_attributes = attr_default P, si_min_alignment = min_al,
                  si_location = location, si_secondary_order = None\<rparr>
           in (s, os\<lparr>os_section_infos := infos, os_custom_by_name := (os_custom_by_name os)(nm \<mapsto> s)\<rparr>)))"

definition add_secondary_section ::
    "'a OutputSections \<Rightarrow> OutputSectionId \<Rightarrow> Alignment \<Rightarrow> SecondaryOrder option \<Rightarrow>
      (OutputSectionId \<times> 'a OutputSections) option" where
  "add_secondary_section os primary_id min_al order =
     do {
       primary \<leftarrow> output_info os primary_id;
       let (s, infos) = section_map_add_new (os_section_infos os)
             \<lparr>si_kind = Secondary primary_id, si_section_attributes = si_section_attributes primary,
              si_min_alignment = min_al, si_location = None, si_secondary_order = order\<rparr>;
       Some (s, os\<lparr>os_section_infos := infos\<rparr>)
     }"

definition bump_min_alignment :: "'a OutputSections \<Rightarrow> OutputSectionId \<Rightarrow> Alignment \<Rightarrow> 'a OutputSections option" where
  "bump_min_alignment os s a =
     do {
       info \<leftarrow> output_info os s;
       Some (os\<lparr>os_section_infos := (os_section_infos os)
         [unat s := info\<lparr>si_min_alignment := max (si_min_alignment info) a\<rparr>]\<rparr>)
     }"

definition get_or_create_init_fini_secondary ::
    "'a OutputSections \<Rightarrow> OutputSectionId \<Rightarrow> u16 \<Rightarrow> Alignment \<Rightarrow> (OutputSectionId \<times> 'a OutputSections) option" where
  "get_or_create_init_fini_secondary os primary priority min_al =
     (case os_init_fini_by_priority os (primary, priority) of
        Some s \<Rightarrow> map_option (Pair s) (bump_min_alignment os s min_al)
      | None \<Rightarrow>
          do {
            (s, os1) \<leftarrow> add_secondary_section os primary min_al (Some (InitFini priority));
            Some (s, os1\<lparr>os_init_fini_by_priority := (os_init_fini_by_priority os1)((primary, priority) \<mapsto> s)\<rparr>)
          })"

definition section_id_by_name :: "'a OutputSections \<Rightarrow> bytes \<Rightarrow> OutputSectionId option" where
  "section_id_by_name os nm =
     (case os_custom_by_name os nm of
        Some s \<Rightarrow> Some s
      | None \<Rightarrow> map_option of_nat
          (find (\<lambda>i. si_kind (os_section_infos os ! i) = Primary nm) [0..<length (os_section_infos os)]))"

section \<open>Maps from parts\<close>

definition part_map_range :: "'t list \<Rightarrow> PartId \<times> PartId \<Rightarrow> 't list option" where
  "part_map_range m r = get_range m (unat (fst r)) (unat (snd r))"

definition part_map_increment :: "u64 list \<Rightarrow> PartId \<Rightarrow> u64 \<Rightarrow> u64 list option" where
  "part_map_increment m p n = do { v \<leftarrow> get m (unat p); set_at m (unat p) (v + n) }"

definition part_map_decrement :: "u64 list \<Rightarrow> PartId \<Rightarrow> u64 \<Rightarrow> u64 list option" where
  "part_map_decrement m p n = do { v \<leftarrow> get m (unat p); set_at m (unat p) (v - n) }"

text \<open>The index of the first element with a property (\<open>Iterator::position\<close>).\<close>

definition position :: "('t \<Rightarrow> bool) \<Rightarrow> 't list \<Rightarrow> nat option" where
  "position Q xs = find (\<lambda>i. Q (xs ! i)) [0..<length xs]"

definition max_alignment :: "'a OutputSections \<Rightarrow> u64 list \<Rightarrow> PartId \<times> PartId \<Rightarrow> Alignment option" where
  "max_alignment os parts r =
     do {
       slice \<leftarrow> part_map_range parts r;
       a \<leftarrow> (case position (\<lambda>p. p \<noteq> 0) slice of
               None \<Rightarrow> Some MIN_alignment
             | Some i \<Rightarrow> part_alignment os (part_id_offset (fst r) i));
       m \<leftarrow> section_min_alignment os (output_section_id (fst r));
       Some (max a m)
     }"

definition resize_parts :: "'t \<Rightarrow> 't list \<Rightarrow> nat \<Rightarrow> 't list" where
  "resize_parts d m n = take n m @ replicate (n - length m) d"

definition merge_part_maps :: "u64 list \<Rightarrow> u64 list \<Rightarrow> u64 list" where
  "merge_part_maps l r =
     (let l1 = if length l < length r then resize_parts 0 l (length r) else l
      in map2 (+) l1 r @ drop (length r) l1)"

text \<open>\<open>merge_parts\<close> splits the list into the parts of the sections, one after the other.\<close>

fun merge_parts_from :: "(OutputSectionId \<Rightarrow> 't list \<Rightarrow> 'u) \<Rightarrow> nat list \<Rightarrow> 't list \<Rightarrow> 'u list option" where
  "merge_parts_from cb [] parts = Some []"
| "merge_parts_from cb (i # ids) parts =
     (let n = num_parts_of_section (of_nat i)
      in if n > length parts then None
         else map_option (Cons (cb (of_nat i) (take n parts))) (merge_parts_from cb ids (drop n parts)))"

definition merge_parts :: "(OutputSectionId \<Rightarrow> 't list \<Rightarrow> 'u) \<Rightarrow> 't list \<Rightarrow> 'u list option" where
  "merge_parts cb parts =
     do {
       last \<leftarrow> part_id_from_usize (length parts);
       merge_parts_from cb [0..<unat (output_section_id last)] parts
     }"

text \<open>\<open>take_mut\<close> splits the first bytes off every buffer; a buffer that is too short is a panic.\<close>

definition take_mut :: "bytes list \<Rightarrow> nat list \<Rightarrow> (bytes list \<times> bytes list) option" where
  "take_mut buffers sizes =
     (if list_all (\<lambda>(b, n). n \<le> length b) (zip buffers sizes)
      then Some (map2 (\<lambda>b n. take n b) buffers sizes,
                 map2 (\<lambda>b n. drop n b) buffers sizes @ drop (length sizes) buffers)
      else None)"

section \<open>Numbering\<close>

text \<open>The numbers of parts and sections as natural numbers.\<close>

definition base_nat :: "nat \<Rightarrow> nat" where
  "base_nat s = (if s < 38 then s else 38 + (s - 38) * 17)"

definition section_nat :: "nat \<Rightarrow> nat" where
  "section_nat p = (if p < 38 then p else (p - 38) div 17 + 38)"

lemma NUM_ALIGNMENTS_eq [simp]: "NUM_ALIGNMENTS = 17"
  by (simp add: NUM_ALIGNMENTS_def MAX_ALIGNMENT_EXPONENT_def)

lemma unat_17 [simp]: "unat (17 :: u32) = 17" and unat_38 [simp]: "unat (38 :: u32) = 38"
  by simp_all

lemma base_nat_Suc: "base_nat (Suc s) = base_nat s + (if s < 38 then 1 else 17)"
  by (auto simp: base_nat_def Suc_diff_le)

lemma base_nat_mono: "s \<le> t \<Longrightarrow> base_nat s \<le> base_nat t"
  by (auto simp: base_nat_def)

lemma base_nat_bounds: "s \<le> base_nat s" "base_nat s \<le> 17 * s"
  by (auto simp: base_nat_def)

lemma section_nat_iff: "section_nat p = s \<longleftrightarrow> base_nat s \<le> p \<and> p < base_nat (Suc s)"
proof (cases "p < 38 \<or> s < 38")
  case True
  then show ?thesis by (auto simp: section_nat_def base_nat_def split: if_splits)
next
  case False
  then have "section_nat p = s \<longleftrightarrow> (p - 38) div 17 = s - 38"
    by (auto simp: section_nat_def)
  also have "\<dots> \<longleftrightarrow> (s - 38) * 17 \<le> p - 38 \<and> p - 38 < (s - 38) * 17 + 17"
    by linarith
  finally show ?thesis using False by (auto simp: base_nat_def)
qed

lemma unat_output_section_id: "unat (output_section_id p) = section_nat (unat p)"
proof (cases "p < 38")
  case True
  then show ?thesis
    by (simp add: output_section_id_def NUM_SINGLE_PART_SECTIONS_def section_nat_def word_less_nat_alt)
next
  case False
  then have ge: "38 \<le> unat p" by (simp add: word_less_nat_alt)
  then have "unat ((p - 38) div 17) = (unat p - 38) div 17"
    by (simp add: unat_div unat_sub word_le_nat_alt)
  moreover have "unat p < 2 ^ LENGTH(32)" by (rule unsigned_less)
  then have "(unat p - 38) div 17 + 38 < 2 ^ 32" by simp
  ultimately have "unat ((p - 38) div 17 + 38) = (unat p - 38) div 17 + 38"
    by (subst unat_add_no_overflow) simp_all
  then show ?thesis
    using False ge by (simp add: output_section_id_def NUM_SINGLE_PART_SECTIONS_def section_nat_def)
qed

lemma unat_base_part_id:
  assumes "base_nat (unat s) < 2 ^ 32"
  shows "unat (base_part_id s) = base_nat (unat s)"
proof (cases "s < 38")
  case True
  then show ?thesis
    by (simp add: base_part_id_def NUM_SINGLE_PART_SECTIONS_def base_nat_def word_less_nat_alt)
next
  case False
  then have ge: "38 \<le> unat s" by (simp add: word_less_nat_alt)
  then have d: "unat (s - 38) = unat s - 38"
    by (simp add: unat_sub word_le_nat_alt)
  have b: "38 + (unat s - 38) * 17 < 2 ^ 32" using assms ge by (simp add: base_nat_def)
  then have "unat ((s - 38) * 17) = (unat s - 38) * 17"
    by (subst unat_mult_lem [THEN iffD1]) (simp_all add: d)
  then have "unat (38 + (s - 38) * 17) = 38 + (unat s - 38) * 17"
    using b by (subst unat_add_no_overflow) simp_all
  then show ?thesis
    using False ge by (simp add: base_part_id_def NUM_SINGLE_PART_SECTIONS_def base_nat_def)
qed

lemma unat_part_id_range:
  assumes "base_nat (Suc (unat s)) < 2 ^ 32"
  shows "unat (fst (part_id_range s)) = base_nat (unat s)"
    and "unat (snd (part_id_range s)) = base_nat (Suc (unat s))"
proof -
  have "base_nat (unat s) < 2 ^ 32" using assms base_nat_mono [of "unat s" "Suc (unat s)"] by simp
  then have b: "unat (base_part_id s) = base_nat (unat s)" by (rule unat_base_part_id)
  then show "unat (fst (part_id_range s)) = base_nat (unat s)" by (simp add: part_id_range_def Let_def)
  have "unat (of_nat (num_parts_of_section s) :: u32) = num_parts_of_section s"
    by (simp add: num_parts_of_section_def unat_of_nat)
  moreover have "base_nat (Suc (unat s)) = base_nat (unat s) + num_parts_of_section s"
    by (simp add: base_nat_Suc num_parts_of_section_def NUM_SINGLE_PART_SECTIONS_def word_less_nat_alt)
  ultimately show "unat (snd (part_id_range s)) = base_nat (Suc (unat s))"
    using assms b by (simp add: part_id_range_def Let_def part_id_offset_def unat_add_no_overflow)
qed


lemma exponent_le_iff: "wf_alignment a \<longleftrightarrow> unat (exponent a) \<le> 16"
  by (simp add: wf_alignment_def MAX_ALIGNMENT_EXPONENT_def word_le_nat_alt)

lemma unat_part_exponent:
  fixes p :: u32
  shows "unat (16 - ucast ((p - 38) mod 17) :: u8) = 16 - unat ((p - 38) mod 17)"
    and "unat ((p - 38) mod 17) \<le> 16"
proof -
  show b: "unat ((p - 38) mod 17) \<le> 16" by (simp add: unat_mod)
  then have "unat (ucast ((p - 38) mod 17) :: u8) = unat ((p - 38) mod 17)"
    by (simp add: unsigned_ucast_eq take_bit_nat_eq_self)
  then show "unat (16 - ucast ((p - 38) mod 17) :: u8) = 16 - unat ((p - 38) mod 17)"
    using b by (simp add: unat_sub word_le_nat_alt)
qed

lemma part_alignment_regular:
  assumes "38 \<le> unat p"
  shows "\<exists>b. part_alignment os p = Some b \<and> wf_alignment b \<and> unat (exponent b) = 16 - (unat p - 38) mod 17"
proof -
  have "part_alignment os p = Some (Alignment (16 - ucast ((p - 38) mod 17)))"
    using assms by (simp add: part_alignment_def NUM_SINGLE_PART_SECTIONS_def word_le_nat_alt)
  moreover have "unat ((p - 38) mod 17) = (unat p - 38) mod 17"
    using assms by (simp add: unat_mod unat_sub word_le_nat_alt)
  ultimately show ?thesis
    using unat_part_exponent(1) [of p] by (simp add: exponent_le_iff)
qed

lemma part_id_with_alignment_regular:
  assumes "38 \<le> unat s" and "base_nat (Suc (unat s)) < 2 ^ 32" and "wf_alignment a"
  shows "\<exists>p. part_id_with_alignment s a = Some p \<and> unat p = base_nat (unat s) + (16 - unat (exponent a))"
proof -
  have b: "base_nat (unat s) + 17 < 2 ^ 32" using assms(1,2) by (simp add: base_nat_Suc)
  have "part_id_with_alignment s a = Some (base_part_id s + (16 - ucast (exponent a)))"
    using assms(1)
    by (simp add: part_id_with_alignment_def base_part_id_def NUM_SINGLE_PART_SECTIONS_def word_less_nat_alt)
  moreover have "unat (ucast (exponent a) :: u32) = unat (exponent a)"
    using unsigned_less [of "exponent a", where ?'a = nat] by (simp add: unsigned_ucast_eq take_bit_nat_eq_self)
  then have "unat (16 - ucast (exponent a) :: u32) = 16 - unat (exponent a)"
    using assms(3) by (simp add: exponent_le_iff unat_sub word_le_nat_alt)
  then have "unat (base_part_id s + (16 - ucast (exponent a))) = base_nat (unat s) + (16 - unat (exponent a))"
    using b by (subst unat_add_no_overflow) (simp_all add: unat_base_part_id)
  ultimately show ?thesis by blast
qed

lemma part_in_section:
  assumes "output_section_id p = s" and "38 \<le> unat s"
  shows "38 \<le> unat p" and "unat p = base_nat (unat s) + (unat p - 38) mod 17"
proof -
  have "section_nat (unat p) = unat s" using assms(1) by (metis unat_output_section_id)
  then have "38 \<le> unat p \<and> unat s - 38 = (unat p - 38) div 17"
    using assms(2) by (auto simp: section_nat_def split: if_splits)
  then show "38 \<le> unat p" and "unat p = base_nat (unat s) + (unat p - 38) mod 17"
    using assms(2) div_mult_mod_eq [of "unat p - 38" 17] by (simp_all add: base_nat_def)
qed

lemma output_section_id_range:
  assumes "base_nat (Suc (unat s)) < 2 ^ 32"
  shows "output_section_id p = s \<longleftrightarrow> fst (part_id_range s) \<le> p \<and> p < snd (part_id_range s)"
  using section_nat_iff [of "unat p" "unat s"] unat_output_section_id [of p]
  by (simp add: word_le_nat_alt word_less_nat_alt unat_part_id_range [OF assms] word_unat_eq_iff)

text \<open>
  (C28) Part numbers and pairs of a regular section and an alignment determine each other: the part
  of a section for an alignment is numbered back to the section and has that alignment, and every
  part of the section is its part for the alignment of the part. The parts of the section are
  those of its range.
\<close>

theorem part_numbering:
  assumes "38 \<le> unat s" and "base_nat (Suc (unat s)) < 2 ^ 32" and "wf_alignment a"
  shows "(\<exists>p. part_id_with_alignment s a = Some p \<and> output_section_id p = s \<and> part_alignment os p = Some a) \<and>
    (\<forall>p. output_section_id p = s \<longleftrightarrow> fst (part_id_range s) \<le> p \<and> p < snd (part_id_range s)) \<and>
    (\<forall>p. output_section_id p = s \<longrightarrow>
      (\<exists>b. part_alignment os p = Some b \<and> wf_alignment b \<and> part_id_with_alignment s b = Some p))"
proof (intro conjI allI impI)
  show "output_section_id p = s \<longleftrightarrow> fst (part_id_range s) \<le> p \<and> p < snd (part_id_range s)" for p
    using assms(2) by (rule output_section_id_range)
  obtain p where p: "part_id_with_alignment s a = Some p" "unat p = base_nat (unat s) + (16 - unat (exponent a))"
    using part_id_with_alignment_regular [OF assms] by blast
  have ge: "38 \<le> unat p" using p(2) assms(1) by (simp add: base_nat_def)
  have "section_nat (unat p) = unat s"
    using assms(1) p(2) by (subst section_nat_iff) (simp add: base_nat_Suc)
  moreover have "(unat p - 38) mod 17 = 16 - unat (exponent a)"
    using p(2) assms(1) by (simp add: base_nat_def)
  ultimately have "output_section_id p = s" and "part_alignment os p = Some a"
    using part_alignment_regular [OF ge, of os] assms(3)
    by (auto simp: word_unat_eq_iff unat_output_section_id exponent_le_iff intro!: Alignment.expand)
  with p(1) show "\<exists>p. part_id_with_alignment s a = Some p \<and> output_section_id p = s \<and> part_alignment os p = Some a"
    by blast
  fix q assume "output_section_id q = s"
  note q = part_in_section [OF this assms(1)]
  obtain b where b: "part_alignment os q = Some b" "wf_alignment b" "unat (exponent b) = 16 - (unat q - 38) mod 17"
    using part_alignment_regular [OF q(1), of os] by blast
  moreover have "part_id_with_alignment s b = Some q"
  proof -
    have "(unat q - 38) mod 17 \<le> 16" by simp
    then have "base_nat (unat s) + (16 - unat (exponent b)) = unat q" using q(2) b(3) by linarith
    then show ?thesis
      using part_id_with_alignment_regular [OF assms(1,2) b(2)] by (auto simp: word_unat_eq_iff)
  qed
  ultimately show "\<exists>b. part_alignment os q = Some b \<and> wf_alignment b \<and> part_id_with_alignment s b = Some q"
    by blast
qed

theorem part_numbering_witness:
  "\<forall>os :: unit OutputSections. \<exists>p. part_id_with_alignment (regular 4) (Alignment 3) = Some p \<and> output_section_id p = regular 4
     \<and> part_alignment os p = Some (Alignment 3)"
proof
  fix os :: "unit OutputSections"
  have "38 \<le> unat (regular 4)" and "base_nat (Suc (unat (regular 4))) < 2 ^ 32" and "wf_alignment (Alignment 3)"
    by (simp_all add: regular_def NUM_SINGLE_PART_SECTIONS_def base_nat_def exponent_le_iff)
  from part_numbering [OF this, of os]
  show "\<exists>p. part_id_with_alignment (regular 4) (Alignment 3) = Some p \<and> output_section_id p = regular 4
     \<and> part_alignment os p = Some (Alignment 3)" by blast
qed

section \<open>The tables of output sections\<close>

text \<open>
  The invariant of the tables: the names lead to primary sections of that name, the priorities to
  secondary sections of that primary section and priority, and secondary sections refer to
  sections that exist.
\<close>

definition wf_sections :: "'a OutputSections \<Rightarrow> bool" where
  "wf_sections os \<longleftrightarrow>
     length (os_section_infos os) < 2 ^ 32 \<and>
     (\<forall>nm s. os_custom_by_name os nm = Some s \<longrightarrow>
        (\<exists>info. output_info os s = Some info \<and> si_kind info = Primary nm)) \<and>
     (\<forall>p pr s. os_init_fini_by_priority os (p, pr) = Some s \<longrightarrow>
        (\<exists>info. output_info os s = Some info \<and> si_kind info = Secondary p \<and>
           si_secondary_order info = Some (InitFini pr))) \<and>
     (\<forall>s info p. output_info os s = Some info \<and> si_kind info = Secondary p \<longrightarrow> output_info os p \<noteq> None)"

text \<open>The operations that change the tables, as steps; the number of sections stays below the
  range of the identifiers.\<close>

inductive sections_step :: "('a, 'd) Platform \<Rightarrow> 'a OutputSections \<Rightarrow> 'a OutputSections \<Rightarrow> bool" for P where
  named: "sections_step P os os'"
    if "add_named_section P os nm a loc = (s, os')" and "Suc (length (os_section_infos os)) < 2 ^ 32"
| secondary: "sections_step P os os'"
    if "add_secondary_section os p a None = Some (s, os')" and "Suc (length (os_section_infos os)) < 2 ^ 32"
| init_fini: "sections_step P os os'"
    if "get_or_create_init_fini_secondary os p pr a = Some (s, os')"
    and "Suc (length (os_section_infos os)) < 2 ^ 32"

text \<open>What a later table keeps of an earlier one: the sections with their kind, and the two maps.\<close>

definition sections_extend :: "'a OutputSections \<Rightarrow> 'a OutputSections \<Rightarrow> bool" where
  "sections_extend os os' \<longleftrightarrow>
     (\<forall>s info. output_info os s = Some info \<longrightarrow>
        (\<exists>info'. output_info os' s = Some info' \<and> si_kind info' = si_kind info \<and>
           si_secondary_order info' = si_secondary_order info \<and> si_min_alignment info \<le> si_min_alignment info')) \<and>
     os_custom_by_name os \<subseteq>\<^sub>m os_custom_by_name os' \<and>
     os_init_fini_by_priority os \<subseteq>\<^sub>m os_init_fini_by_priority os'"

lemma sections_extend_refl [simp]: "sections_extend os os"
  by (simp add: sections_extend_def)

lemma sections_extend_trans:
  assumes "sections_extend a b" and "sections_extend b c"
  shows "sections_extend a c"
  unfolding sections_extend_def
proof (intro conjI allI impI)
  fix s info assume "output_info a s = Some info"
  then obtain i where i: "output_info b s = Some i" "si_kind i = si_kind info"
      "si_secondary_order i = si_secondary_order info" "si_min_alignment info \<le> si_min_alignment i"
    using assms(1) unfolding sections_extend_def by blast
  then obtain j where "output_info c s = Some j" "si_kind j = si_kind i"
      "si_secondary_order j = si_secondary_order i" "si_min_alignment i \<le> si_min_alignment j"
    using assms(2) unfolding sections_extend_def by blast
  with i show "\<exists>info'. output_info c s = Some info' \<and> si_kind info' = si_kind info \<and>
      si_secondary_order info' = si_secondary_order info \<and> si_min_alignment info \<le> si_min_alignment info'"
    by (intro exI [of _ j]) auto
qed (use assms in \<open>auto simp: sections_extend_def intro: map_le_trans\<close>)

text \<open>Both kinds of creation push a section and enter it into at most one of the maps.\<close>

lemma sections_push:
  fixes os :: "'a OutputSections"
  defines "new \<equiv> of_nat (length (os_section_infos os))"
  assumes "wf_sections os" and "Suc (length (os_section_infos os)) < 2 ^ 32"
    and infos': "os_section_infos os' = os_section_infos os @ [x]"
    and names: "os_custom_by_name os \<subseteq>\<^sub>m os_custom_by_name os'"
      "\<And>nm s. os_custom_by_name os' nm = Some s \<Longrightarrow>
         os_custom_by_name os nm = Some s \<or> s = new \<and> si_kind x = Primary nm"
    and prios: "os_init_fini_by_priority os \<subseteq>\<^sub>m os_init_fini_by_priority os'"
      "\<And>p pr s. os_init_fini_by_priority os' (p, pr) = Some s \<Longrightarrow> os_init_fini_by_priority os (p, pr) = Some s \<or>
         s = new \<and> si_kind x = Secondary p \<and> si_secondary_order x = Some (InitFini pr)"
    and target: "\<And>p. si_kind x = Secondary p \<Longrightarrow> output_info os p \<noteq> None"
  shows "wf_sections os' \<and> sections_extend os os'"
proof -
  have u: "unat new = length (os_section_infos os)" using assms(3) by (simp add: new_def unat_of_nat)
  have old: "output_info os' s = Some info" if "output_info os s = Some info" for s info
    using that by (auto simp: output_info_def infos' section_map_get_def get_def nth_append split: if_splits)
  have new: "output_info os' new = Some x"
    using u by (simp add: output_info_def infos' section_map_get_def get_def)
  have inv: "output_info os s = Some info \<or> info = x" if "output_info os' s = Some info" for s info
    using that
    by (auto simp: output_info_def infos' section_map_get_def get_def nth_append less_Suc_eq split: if_splits)
  note wf = assms(2) [unfolded wf_sections_def]
  have "length (os_section_infos os') < 2 ^ 32" using assms(3) by (simp add: infos')
  moreover have "\<exists>info. output_info os' s = Some info \<and> si_kind info = Primary nm"
    if "os_custom_by_name os' nm = Some s" for nm s
    using names(2) [OF that] wf old new by blast
  moreover have "\<exists>info. output_info os' s = Some info \<and> si_kind info = Secondary p \<and>
      si_secondary_order info = Some (InitFini pr)" if "os_init_fini_by_priority os' (p, pr) = Some s" for p pr s
    using prios(2) [OF that] wf old new by blast
  moreover have "output_info os' p \<noteq> None" if "output_info os' s = Some info" "si_kind info = Secondary p" for s info p
    using inv [OF that(1)] that(2) wf old target by fastforce
  ultimately have "wf_sections os'" unfolding wf_sections_def by blast
  moreover have "sections_extend os os'"
    using old names(1) prios(1) by (auto simp: sections_extend_def)
  ultimately show ?thesis ..
qed

lemma push_name_fresh: "m k = None \<Longrightarrow> m \<subseteq>\<^sub>m m(k \<mapsto> v)"
  by (auto simp: map_le_def)

lemma add_named_section_wf:
  assumes "wf_sections os" and "add_named_section P os nm a loc = (s, os')" and "Suc (length (os_section_infos os)) < 2 ^ 32"
  shows "wf_sections os' \<and> sections_extend os os'" and "os_custom_by_name os' nm = Some s"
proof -
  show "wf_sections os' \<and> sections_extend os os'"
  proof (cases "os_custom_by_name os nm")
    case None
    with assms(2) show ?thesis
      by (intro sections_push [OF assms(1,3)])
        (auto simp: add_named_section_def section_map_add_new_def Let_def push_name_fresh split: if_splits)
  next
    case (Some t)
    then show ?thesis using assms by (auto simp: add_named_section_def)
  qed
  show "os_custom_by_name os' nm = Some s"
    using assms(2) by (auto simp: add_named_section_def Let_def split: option.splits prod.splits)
qed

lemma add_secondary_section_wf:
  assumes "wf_sections os" and "add_secondary_section os p a ord = Some (s, os')" and "Suc (length (os_section_infos os)) < 2 ^ 32"
  shows "wf_sections os' \<and> sections_extend os os'"
proof -
  obtain primary where pr: "output_info os p = Some primary"
    using assms(2) by (auto simp: add_secondary_section_def split: bind_splits)
  let ?x = "\<lparr>si_kind = Secondary p, si_section_attributes = si_section_attributes primary,
    si_min_alignment = a, si_location = None, si_secondary_order = ord\<rparr>"
  show ?thesis
    using assms(2) pr
    by (intro sections_push [OF assms(1,3), where x = ?x])
      (auto simp: add_secondary_section_def section_map_add_new_def)
qed

lemma bump_min_alignment_wf:
  assumes "wf_sections os" and "bump_min_alignment os s a = Some os'"
  shows "wf_sections os' \<and> sections_extend os os'"
proof -
  obtain info where i: "output_info os s = Some info"
    and os': "os' = os\<lparr>os_section_infos := (os_section_infos os)
         [unat s := info\<lparr>si_min_alignment := max (si_min_alignment info) a\<rparr>]\<rparr>"
    using assms(2) by (auto simp: bump_min_alignment_def split: bind_splits)
  have get: "output_info os' t = (if t = s then Some (info\<lparr>si_min_alignment := max (si_min_alignment info) a\<rparr>)
      else output_info os t)" for t
    using i by (auto simp: os' output_info_def section_map_get_def get_def nth_list_update word_unat_eq_iff split: if_splits)
  have "length (os_section_infos os') = length (os_section_infos os)" by (simp add: os')
  moreover have "os_custom_by_name os' = os_custom_by_name os"
    and "os_init_fini_by_priority os' = os_init_fini_by_priority os" by (simp_all add: os')
  ultimately show ?thesis
    using assms(1) i unfolding wf_sections_def sections_extend_def get
    by (auto split: if_splits) (metis option.inject)+
qed

lemma get_or_create_wf:
  assumes "wf_sections os" and "get_or_create_init_fini_secondary os p pr a = Some (s, os')"
    and "Suc (length (os_section_infos os)) < 2 ^ 32"
  shows "wf_sections os' \<and> sections_extend os os'"
proof (cases "os_init_fini_by_priority os (p, pr)")
  case None
  then obtain primary where primary: "output_info os p = Some primary"
    using assms(2) by (auto simp: get_or_create_init_fini_secondary_def add_secondary_section_def split: bind_splits)
  let ?x = "\<lparr>si_kind = Secondary p, si_section_attributes = si_section_attributes primary,
    si_min_alignment = a, si_location = None, si_secondary_order = Some (InitFini pr)\<rparr>"
  have "s = of_nat (length (os_section_infos os)) \<and> os' = os\<lparr>os_section_infos := os_section_infos os @ [?x],
      os_init_fini_by_priority := (os_init_fini_by_priority os)((p, pr) \<mapsto> s)\<rparr>"
    using assms(2) None primary
    by (auto simp: get_or_create_init_fini_secondary_def add_secondary_section_def section_map_add_new_def)
  then show ?thesis
    using None primary by (intro sections_push [OF assms(1,3), where x = ?x]) (auto simp: push_name_fresh split: if_splits)
next
  case (Some t)
  then show ?thesis
    using assms(2) bump_min_alignment_wf [OF assms(1)] by (auto simp: get_or_create_init_fini_secondary_def)
qed

lemma sections_step_wf: "sections_step P os os' \<Longrightarrow> wf_sections os \<Longrightarrow> wf_sections os' \<and> sections_extend os os'"
  by (induction rule: sections_step.induct)
    (rule add_named_section_wf(1) add_secondary_section_wf get_or_create_wf; assumption)+

lemma sections_steps_wf:
  "(sections_step P)\<^sup>*\<^sup>* os os' \<Longrightarrow> wf_sections os \<Longrightarrow> wf_sections os' \<and> sections_extend os os'"
  by (induction rule: rtranclp_induct) (auto dest: sections_step_wf intro: sections_extend_trans)

lemma wf_with_base_address:
  assumes "length infos < 2 ^ 32"
    and "\<And>i p. i < length infos \<Longrightarrow> si_kind (infos ! i) = Secondary p \<Longrightarrow> unat p < length infos"
  shows "wf_sections (with_base_address infos base)"
  using assms
  by (auto simp: wf_sections_def with_base_address_def output_info_def section_map_get_def get_def split: if_splits)

lemma reachable_sections:
  assumes "length infos < 2 ^ 32"
    and "\<forall>i p. i < length infos \<and> si_kind (infos ! i) = Secondary p \<longrightarrow> unat p < length infos"
    and "(sections_step P)\<^sup>*\<^sup>* (with_base_address infos base) os"
  shows "wf_sections os"
  using sections_steps_wf [OF assms(3)] wf_with_base_address [OF assms(1)] assms(2) by blast

text \<open>
  Output sections asked for by name are shared: in every table that the operations make from the
  built-in sections, asking for a name, doing whatever other operations, and asking for a name again gives the same
  section if and only if the names are equal. The section has that name, the lookup finds it, and its alignment
  does not decrease.
\<close>

theorem named_sections_shared:
  assumes built_in: "length infos < 2 ^ 32" "\<forall>i p. i < length infos \<and> si_kind (infos ! i) = Secondary p \<longrightarrow> unat p < length infos"
    and run: "(sections_step P)\<^sup>*\<^sup>* (with_base_address infos base) os"
    and first: "add_named_section P os nm a loc = (s, os1)" "Suc (length (os_section_infos os)) < 2 ^ 32"
    and between: "(sections_step P)\<^sup>*\<^sup>* os1 os2"
    and second: "add_named_section P os2 nm' a' loc' = (s', os3)" "Suc (length (os_section_infos os2)) < 2 ^ 32"
  shows "(s' = s \<longleftrightarrow> nm' = nm) \<and> section_name os3 s = Some (Some nm) \<and> section_id_by_name os3 nm = Some s \<and>
    (\<exists>b c. section_min_alignment os1 s = Some b \<and> section_min_alignment os3 s = Some c \<and> b \<le> c)"
proof -
  have wf1: "wf_sections os1" and nm1: "os_custom_by_name os1 nm = Some s"
    using add_named_section_wf [OF reachable_sections [OF built_in run] first] by blast+
  then have wf2: "wf_sections os2" and ext2: "sections_extend os1 os2"
    using sections_steps_wf [OF between] by blast+
  then have wf3: "wf_sections os3" and ext3: "sections_extend os1 os3" and nm3: "os_custom_by_name os3 nm' = Some s'"
    using add_named_section_wf [OF wf2 second] sections_extend_trans [OF ext2, of os3] by blast+
  have nm: "os_custom_by_name os3 nm = Some s"
    using ext3 nm1 unfolding sections_extend_def map_le_def by (metis domI)
  obtain info where info: "output_info os1 s = Some info" "si_kind info = Primary nm"
    using wf1 nm1 unfolding wf_sections_def by blast
  then obtain info' where info': "output_info os3 s = Some info'" "si_kind info' = Primary nm"
      "si_min_alignment info \<le> si_min_alignment info'"
    using ext3 unfolding sections_extend_def by metis
  have "s' = s \<longleftrightarrow> nm' = nm"
    using wf3 nm nm3 info' unfolding wf_sections_def by (metis SectionKind.inject(1) option.inject)
  then show ?thesis
    using info info' nm by (simp add: section_name_def section_id_by_name_def section_min_alignment_def)
qed

lemma get_or_create_entered:
  assumes "wf_sections os" "get_or_create_init_fini_secondary os p pr a = Some (s, os')" "Suc (length (os_section_infos os)) < 2 ^ 32"
  shows "os_init_fini_by_priority os' (p, pr) = Some s \<and> (\<exists>b. section_min_alignment os' s = Some b \<and> a \<le> b)"
proof (cases "os_init_fini_by_priority os (p, pr)")
  case None
  then show ?thesis
    using assms(2,3)
    by (auto simp: get_or_create_init_fini_secondary_def add_secondary_section_def section_map_add_new_def section_min_alignment_def
        output_info_def section_map_get_def get_def unat_of_nat split: bind_splits)
next
  case (Some t)
  then obtain info where "output_info os s = Some info" and "t = s" and
    os': "os' = os\<lparr>os_section_infos := (os_section_infos os)[unat s := info\<lparr>si_min_alignment := max (si_min_alignment info) a\<rparr>]\<rparr>"
    using assms(2) by (auto simp: get_or_create_init_fini_secondary_def bump_min_alignment_def split: bind_splits)
  then show ?thesis
    using Some by (auto simp: section_min_alignment_def output_info_def section_map_get_def get_def split: if_splits)
qed

text \<open>
  (C27) The secondary sections of initialisers are shared by priority: asking for the section of a
  priority of \<open>.init_array\<close> or \<open>.fini_array\<close>, doing whatever other operations, and asking again gives the same section if and only if the
  primary section and the priority are the same. It belongs to that primary section, is ordered by that priority, and its
  alignment is at least what each of the requests asked for.
\<close>

theorem init_fini_sections_shared:
  assumes built_in: "length infos < 2 ^ 32" "\<forall>i p. i < length infos \<and> si_kind (infos ! i) = Secondary p \<longrightarrow> unat p < length infos"
    and run: "(sections_step P)\<^sup>*\<^sup>* (with_base_address infos base) os"
    and first: "get_or_create_init_fini_secondary os p pr a = Some (s, os1)" "Suc (length (os_section_infos os)) < 2 ^ 32"
    and between: "(sections_step P)\<^sup>*\<^sup>* os1 os2"
    and second: "get_or_create_init_fini_secondary os2 p' pr' a' = Some (s', os3)" "Suc (length (os_section_infos os2)) < 2 ^ 32"
  shows "(s' = s \<longleftrightarrow> p' = p \<and> pr' = pr) \<and>
    (\<exists>info. output_info os3 s = Some info \<and> si_kind info = Secondary p \<and> si_secondary_order info = Some (InitFini pr) \<and>
       a \<le> si_min_alignment info \<and> (s' = s \<longrightarrow> a' \<le> si_min_alignment info))"
proof -
  have wf: "wf_sections os" by (rule reachable_sections [OF built_in run])
  then have wf1: "wf_sections os1" and e1: "os_init_fini_by_priority os1 (p, pr) = Some s"
    and al: "\<exists>b. section_min_alignment os1 s = Some b \<and> a \<le> b"
    using get_or_create_wf [OF wf first] get_or_create_entered [OF wf first] by blast+
  then have wf2: "wf_sections os2" and ext2: "sections_extend os1 os2"
    using sections_steps_wf [OF between] by blast+
  then have wf3: "wf_sections os3" and ext3: "sections_extend os1 os3" and e': "os_init_fini_by_priority os3 (p', pr') = Some s'"
    and al': "\<exists>b. section_min_alignment os3 s' = Some b \<and> a' \<le> b"
    using get_or_create_wf [OF wf2 second] get_or_create_entered [OF wf2 second] sections_extend_trans [OF ext2, of os3] by blast+
  have e3: "os_init_fini_by_priority os3 (p, pr) = Some s"
    using ext3 e1 unfolding sections_extend_def map_le_def by (metis domI)
  then obtain info where info: "output_info os3 s = Some info" "si_kind info = Secondary p" "si_secondary_order info = Some (InitFini pr)"
    using wf3 unfolding wf_sections_def by blast
  have "a \<le> si_min_alignment info"
    using al ext3 info(1) unfolding sections_extend_def section_min_alignment_def by (fastforce split: option.splits)
  moreover have "s' = s \<longrightarrow> a' \<le> si_min_alignment info"
    using al' info(1) by (auto simp: section_min_alignment_def)
  moreover have "s' = s \<longleftrightarrow> p' = p \<and> pr' = pr"
    using wf3 e3 e' info unfolding wf_sections_def
    by (metis SecondaryOrder.inject SectionKind.inject(2) option.inject)
  ultimately show ?thesis using info by blast
qed

section \<open>Examples\<close>

text \<open>A table with \<open>.init_array\<close> as its one built-in section.\<close>

definition init_array_info :: "unit SectionOutputInfo" where
  "init_array_info = \<lparr>si_kind = Primary [105], si_section_attributes = (), si_min_alignment = Alignment 3, si_location = None,
     si_secondary_order = None\<rparr>"

theorem named_sections_shared_witness:
  "\<forall>P :: (unit, unit) Platform.
     let r1 = add_named_section P (with_base_address [init_array_info] 0) [97] (Alignment 2) None;
         r2 = add_named_section P (snd r1) [98] (Alignment 2) None
     in fst r2 \<noteq> fst r1 \<and> section_id_by_name (snd r2) [97] = Some (fst r1)"
proof
  fix P :: "(unit, unit) Platform"
  let ?r1 = "add_named_section P (with_base_address [init_array_info] 0) [97] (Alignment 2) None"
  let ?r2 = "add_named_section P (snd ?r1) [98] (Alignment 2) None"
  have "length (os_section_infos (snd ?r1)) = 2"
    by (simp add: with_base_address_def add_named_section_def section_map_add_new_def)
  then show "let r1 = ?r1; r2 = add_named_section P (snd r1) [98] (Alignment 2) None
     in fst r2 \<noteq> fst r1 \<and> section_id_by_name (snd r2) [97] = Some (fst r1)"
    using named_sections_shared [of "[init_array_info]" P 0 "with_base_address [init_array_info] 0" "[97]" "Alignment 2" None "fst ?r1" "snd ?r1"
        "snd ?r1" "[98]" "Alignment 2" None "fst ?r2" "snd ?r2"]
    by (simp add: Let_def init_array_info_def) (simp add: with_base_address_def)
qed

theorem init_fini_sections_shared_witness:
  "\<exists>os1 os3 info. get_or_create_init_fini_secondary (with_base_address [init_array_info] 0) 0 100 (Alignment 3) = Some (1, os1) \<and>
     get_or_create_init_fini_secondary os1 0 100 (Alignment 4) = Some (1, os3) \<and> output_info os3 1 = Some info \<and> Alignment 4 \<le> si_min_alignment info"
proof -
  let ?os = "with_base_address [init_array_info] 0"
  obtain os1 where 1: "get_or_create_init_fini_secondary ?os 0 100 (Alignment 3) = Some (1, os1)"
      "length (os_section_infos os1) = 2" "os_init_fini_by_priority os1 (0, 100) = Some 1"
    by (simp add: with_base_address_def get_or_create_init_fini_secondary_def add_secondary_section_def output_info_def section_map_get_def
        get_def section_map_add_new_def)
  then obtain os3 where 3: "get_or_create_init_fini_secondary os1 0 100 (Alignment 4) = Some (1, os3)"
    by (auto simp: get_or_create_init_fini_secondary_def bump_min_alignment_def output_info_def section_map_get_def get_def)
  show ?thesis
    using init_fini_sections_shared [of "[init_array_info]" undefined 0 ?os 0 100 "Alignment 3" 1 os1 os1 0 100 "Alignment 4" 1 os3] 1 3
    by (auto simp: init_array_info_def) (auto simp: with_base_address_def)
qed

end
