(* ===== verification/Output_Order.thy ===== *)
theory Output_Order
  imports Output_Section
begin

text \<open>
  Model of the output order: the builder \<open>OutputOrderBuilder\<close> of
  \<open>libwild/src/output_section_id.rs\<close> with \<open>program_segments.rs\<close> and \<open>output_kind.rs\<close>. The builder
  emits the sections in the order in which they are added, and starts and ends program segments
  between them. Segment identifiers are 8 bits wide; the 257th segment is a panic.

  The theorems: the order is well bracketed, and every primary section lies in exactly the
  segments whose definition asks for it.
\<close>

section \<open>Output kinds and program segments\<close>

text \<open>\<open>OutputKind::Relocatable\<close> is \<open>PartialObject\<close> here, since \<open>Relocatable\<close> names the relocation model.\<close>

datatype RelocationModel = NonRelocatable | Relocatable

datatype OutputKind =
    StaticExecutable RelocationModel
  | DynamicExecutable RelocationModel
  | SharedObject
  | PartialObject

text \<open>\<open>OutputKind::new\<close>, with what it asks of the arguments and of the inputs.\<close>

definition new_output_kind :: "RelocationModel \<Rightarrow> bool \<Rightarrow> bool \<Rightarrow> bool \<Rightarrow> bool \<Rightarrow> OutputKind" where
  "new_output_kind model should_output_executable should_output_partial_object has_dynamic_linker has_dynamic =
     (if \<not> should_output_executable
      then (if should_output_partial_object then PartialObject else SharedObject)
      else if has_dynamic_linker \<and> model = Relocatable then DynamicExecutable model
      else if has_dynamic then DynamicExecutable model
      else StaticExecutable model)"

definition is_executable :: "OutputKind \<Rightarrow> bool" where
  "is_executable k \<longleftrightarrow> \<not> (case k of SharedObject \<Rightarrow> True | PartialObject \<Rightarrow> True | _ \<Rightarrow> False)"

definition is_shared_object :: "OutputKind \<Rightarrow> bool" where
  "is_shared_object k \<longleftrightarrow> k = SharedObject"

definition is_dynamic_executable :: "OutputKind \<Rightarrow> bool" where
  "is_dynamic_executable k = (case k of DynamicExecutable _ \<Rightarrow> True | _ \<Rightarrow> False)"

definition is_static_executable :: "OutputKind \<Rightarrow> bool" where
  "is_static_executable k = (case k of StaticExecutable _ \<Rightarrow> True | _ \<Rightarrow> False)"

definition is_partial_object :: "OutputKind \<Rightarrow> bool" where
  "is_partial_object k \<longleftrightarrow> k = PartialObject"

definition is_relocatable :: "OutputKind \<Rightarrow> bool" where
  "is_relocatable k = (case k of
     StaticExecutable m \<Rightarrow> m = Relocatable
   | DynamicExecutable m \<Rightarrow> m = Relocatable
   | SharedObject \<Rightarrow> True
   | PartialObject \<Rightarrow> True)"

definition needs_dynsym :: "OutputKind \<Rightarrow> bool" where
  "needs_dynsym k = (case k of
     DynamicExecutable _ \<Rightarrow> True
   | SharedObject \<Rightarrow> True
   | StaticExecutable m \<Rightarrow> m = Relocatable
   | _ \<Rightarrow> False)"

definition needs_dynamic :: "OutputKind \<Rightarrow> bool" where
  "needs_dynamic k \<longleftrightarrow> \<not> (case k of StaticExecutable m \<Rightarrow> m = NonRelocatable | PartialObject \<Rightarrow> True | _ \<Rightarrow> False)"

definition should_output_symbol_versions :: "OutputKind \<Rightarrow> bool" where
  "should_output_symbol_versions k = (case k of DynamicExecutable _ \<Rightarrow> True | SharedObject \<Rightarrow> True | _ \<Rightarrow> False)"

type_synonym ProgramSegmentId = u8

definition new_segment_id :: "nat \<Rightarrow> ProgramSegmentId option" where
  "new_segment_id n = (if n < 256 then Some (of_nat n) else None)"

definition add_segment :: "'d list \<Rightarrow> 'd \<Rightarrow> (ProgramSegmentId \<times> 'd list) option" where
  "add_segment segs d = do { i \<leftarrow> new_segment_id (length segs); Some (i, segs @ [d]) }"

definition segment_def :: "'d list \<Rightarrow> ProgramSegmentId \<Rightarrow> 'd option" where
  "segment_def segs i = get segs (unat i)"

definition segments_order_key :: "('a, 'd) Platform \<Rightarrow> 'd list \<Rightarrow> ProgramSegmentId \<Rightarrow> u64 \<Rightarrow> (nat \<times> u64) option" where
  "segments_order_key P segs i mem_start = map_option (\<lambda>d. (seg_order_key P d, mem_start)) (segment_def segs i)"

section \<open>The builder\<close>

datatype OrderEvent =
    SegmentStart ProgramSegmentId
  | SegmentEnd ProgramSegmentId
  | Section OutputSectionId
  | SetLocation u64

record 'd OutputOrderBuilder =
  ob_events :: "OrderEvent list"
  ob_program_segments :: "'d list"
  ob_active_segment_kinds :: "ProgramSegmentId option list"

definition new_builder :: "('a, 'd) Platform \<Rightarrow> 'd OutputOrderBuilder" where
  "new_builder P = \<lparr>ob_events = [], ob_program_segments = [],
     ob_active_segment_kinds = replicate (length (program_segment_defs P)) None\<rparr>"

definition should_include_in_segment ::
    "('a, 'd) Platform \<Rightarrow> 'a OutputSections \<Rightarrow> OutputSectionId \<Rightarrow> 'd \<Rightarrow> bool option" where
  "should_include_in_segment P os s d =
     map_option (\<lambda>info. seg_should_include_section P d info s) (output_info os s)"

definition should_end_current_rw_segment ::
    "('a, 'd) Platform \<Rightarrow> 'a SectionOutputInfo \<Rightarrow> OutputSectionId \<Rightarrow> ProgramSegmentId option list \<Rightarrow> bool" where
  "should_end_current_rw_segment P info s active =
     list_ex (\<lambda>(i, d). i \<noteq> None \<and> seg_should_cut_rw_segment_when_ending P d \<and> \<not> seg_should_include_section P d info s)
       (zip active (program_segment_defs P))"

definition end_rw_load_segment :: "('a, 'd) Platform \<Rightarrow> 'd OutputOrderBuilder \<Rightarrow> 'd OutputOrderBuilder option" where
  "end_rw_load_segment P b =
     (case position (\<lambda>d. seg_is_loadable P d \<and> seg_is_writable P d \<and> \<not> seg_is_executable P d) (program_segment_defs P) of
        None \<Rightarrow> Some b
      | Some n \<Rightarrow>
          do {
            active \<leftarrow> get (ob_active_segment_kinds b) n;
            Some (case active of
                None \<Rightarrow> b
              | Some i \<Rightarrow> b\<lparr>ob_events := ob_events b @ [SegmentEnd i],
                            ob_active_segment_kinds := (ob_active_segment_kinds b)[n := None]\<rparr>)
          })"

text \<open>
  The loop over the segment definitions and the active segments. It returns the active segments,
  the program segments, and which segments stop and start.
\<close>

fun toggle_segments ::
    "('d \<Rightarrow> bool) \<Rightarrow> 'd list \<Rightarrow> ProgramSegmentId option list \<Rightarrow> 'd list \<Rightarrow>
      (ProgramSegmentId option list \<times> 'd list \<times> ProgramSegmentId list \<times> ProgramSegmentId list) option" where
  "toggle_segments incl (d # ds) (a # as) segs =
     (case (a, incl d) of
        (Some i, False) \<Rightarrow>
          do { (as', segs', stop, start) \<leftarrow> toggle_segments incl ds as segs;
               Some (None # as', segs', i # stop, start) }
      | (None, True) \<Rightarrow>
          do { (i, segs1) \<leftarrow> add_segment segs d;
               (as', segs', stop, start) \<leftarrow> toggle_segments incl ds as segs1;
               Some (Some i # as', segs', stop, i # start) }
      | _ \<Rightarrow>
          do { (as', segs', stop, start) \<leftarrow> toggle_segments incl ds as segs;
               Some (a # as', segs', stop, start) })"
| "toggle_segments incl _ as segs = Some (as, segs, [], [])"

definition flatten :: "'t option list \<Rightarrow> 't list" where
  "flatten xs = concat (map (\<lambda>x. case x of None \<Rightarrow> [] | Some y \<Rightarrow> [y]) xs)"

definition start_stop_segments_for_section ::
    "('a, 'd) Platform \<Rightarrow> OutputKind \<Rightarrow> 'a OutputSections \<Rightarrow> OutputSectionId \<Rightarrow> 'd OutputOrderBuilder \<Rightarrow>
      ('d OutputOrderBuilder \<times> ProgramSegmentId list \<times> ProgramSegmentId list) option" where
  "start_stop_segments_for_section P kind os s b =
     (if is_partial_object kind then Some (b, [], [])
      else do {
        target \<leftarrow> merge_target os s;
        if target \<noteq> None then Some (b, [], [])
        else do {
          info \<leftarrow> output_info os s;
          let (active, stop0) =
            (if si_location info \<noteq> None
             then (map (\<lambda>_. None) (ob_active_segment_kinds b), flatten (ob_active_segment_kinds b))
             else (ob_active_segment_kinds b, []));
          (active', segs, stop, start) \<leftarrow>
            toggle_segments (\<lambda>d. seg_should_include_section P d info s) (program_segment_defs P) active (ob_program_segments b);
          Some (b\<lparr>ob_active_segment_kinds := active', ob_program_segments := segs\<rparr>, stop0 @ stop, start)
        }
      })"

definition secondary_priority :: "'a OutputSections \<Rightarrow> OutputSectionId \<Rightarrow> u16 option" where
  "secondary_priority os s =
     map_option (\<lambda>info. case si_secondary_order info of Some (InitFini priority) \<Rightarrow> priority | None \<Rightarrow> - 1)
       (output_info os s)"

definition order_secondaries :: "'a OutputSections \<Rightarrow> OutputSectionId list \<Rightarrow> OutputSectionId list option" where
  "order_secondaries os ss =
     (if list_all (\<lambda>s. secondary_priority os s \<noteq> None) ss
      then Some (sort_key (\<lambda>s. the (secondary_priority os s)) ss) else None)"

definition set_location_events :: "('a, 'd) Platform \<Rightarrow> 'a SectionOutputInfo \<Rightarrow> OrderEvent list" where
  "set_location_events P info =
     (case si_location info of
        Some location \<Rightarrow> if attr_is_alloc P (si_section_attributes info) then [SetLocation location] else []
      | None \<Rightarrow> [])"

definition add_section ::
    "('a, 'd) Platform \<Rightarrow> OutputKind \<Rightarrow> 'a OutputSections \<Rightarrow> OutputSectionId list list \<Rightarrow> OutputSectionId \<Rightarrow>
      'd OutputOrderBuilder \<Rightarrow> 'd OutputOrderBuilder option" where
  "add_section P kind os secondary s b =
     do {
       info \<leftarrow> output_info os s;
       b1 \<leftarrow> (if should_end_current_rw_segment P info s (ob_active_segment_kinds b)
              then end_rw_load_segment P b else Some b);
       (b2, stop, start) \<leftarrow> start_stop_segments_for_section P kind os s b1;
       secondaries \<leftarrow> section_map_get secondary s;
       keyed \<leftarrow> order_secondaries os secondaries;
       Some (b2\<lparr>ob_events := ob_events b2 @ map SegmentEnd stop @ set_location_events P info @ map SegmentStart start
         @ [Section s] @ map Section keyed\<rparr>)
     }"

fun add_sections ::
    "('a, 'd) Platform \<Rightarrow> OutputKind \<Rightarrow> 'a OutputSections \<Rightarrow> OutputSectionId list list \<Rightarrow> OutputSectionId list \<Rightarrow>
      'd OutputOrderBuilder \<Rightarrow> 'd OutputOrderBuilder option" where
  "add_sections P kind os secondary [] b = Some b"
| "add_sections P kind os secondary (s # ss) b =
     do { b1 \<leftarrow> add_section P kind os secondary s b; add_sections P kind os secondary ss b1 }"

fun add_unconditional_segments :: "'d list \<Rightarrow> OrderEvent list \<Rightarrow> 'd list \<Rightarrow> (OrderEvent list \<times> 'd list) option" where
  "add_unconditional_segments [] events segs = Some (events, segs)"
| "add_unconditional_segments (d # ds) events segs =
     do { (i, segs1) \<leftarrow> add_segment segs d;
          add_unconditional_segments ds (events @ [SegmentStart i, SegmentEnd i]) segs1 }"

definition build :: "('a, 'd) Platform \<Rightarrow> OutputKind \<Rightarrow> 'd OutputOrderBuilder \<Rightarrow> (OrderEvent list \<times> 'd list) option" where
  "build P kind b =
     (let events = ob_events b @ map SegmentEnd (flatten (ob_active_segment_kinds b))
      in if is_partial_object kind then Some (events, ob_program_segments b)
         else add_unconditional_segments (unconditional_segment_defs P) events (ob_program_segments b))"

section \<open>Custom sections\<close>

record CustomSectionIds =
  cs_ro :: "OutputSectionId list"
  cs_exec :: "OutputSectionId list"
  cs_data :: "OutputSectionId list"
  cs_bss :: "OutputSectionId list"
  cs_nonalloc :: "OutputSectionId list"
  cs_tdata :: "OutputSectionId list"
  cs_tbss :: "OutputSectionId list"

text \<open>The classification of a custom section in \<open>OutputSections::output_order\<close>.\<close>

definition classify_custom :: "('a, 'd) Platform \<Rightarrow> 'a \<Rightarrow> OutputSectionId \<Rightarrow> CustomSectionIds \<Rightarrow> CustomSectionIds" where
  "classify_custom P attrs s c =
     (if attr_is_executable P attrs then c\<lparr>cs_exec := cs_exec c @ [s]\<rparr>
      else if attr_is_tls P attrs then
        (if attr_is_no_bits P attrs then c\<lparr>cs_tbss := cs_tbss c @ [s]\<rparr> else c\<lparr>cs_tdata := cs_tdata c @ [s]\<rparr>)
      else if \<not> attr_is_writable P attrs then
        (if attr_is_alloc P attrs then c\<lparr>cs_ro := cs_ro c @ [s]\<rparr> else c\<lparr>cs_nonalloc := cs_nonalloc c @ [s]\<rparr>)
      else if attr_is_no_bits P attrs then c\<lparr>cs_bss := cs_bss c @ [s]\<rparr>
      else c\<lparr>cs_data := cs_data c @ [s]\<rparr>)"

fun collect_sections ::
    "('a, 'd) Platform \<Rightarrow> (nat \<times> 'a SectionOutputInfo) list \<Rightarrow> CustomSectionIds \<times> OutputSectionId list list \<Rightarrow>
      (CustomSectionIds \<times> OutputSectionId list list) option" where
  "collect_sections P [] acc = Some acc"
| "collect_sections P ((i, info) # rest) (custom, secondary) =
     (case si_kind info of
        Secondary primary \<Rightarrow>
          do { l \<leftarrow> section_map_get secondary primary;
               collect_sections P rest (custom, secondary[unat primary := l @ [of_nat i]]) }
      | Primary _ \<Rightarrow>
          if i < NUM_BUILT_IN_SECTIONS then collect_sections P rest (custom, secondary)
          else collect_sections P rest (classify_custom P (si_section_attributes info) (of_nat i) custom, secondary))"

definition output_order ::
    "('a, 'd) Platform \<Rightarrow> (CustomSectionIds \<Rightarrow> OutputSectionId list list \<Rightarrow> 'o option) \<Rightarrow> 'a OutputSections \<Rightarrow> 'o option" where
  "output_order P build_output_order_and_program_segments os =
     (let infos = os_section_infos os in
      do {
        (custom, secondary) \<leftarrow> collect_sections P (zip [0..<length infos] infos)
          (\<lparr>cs_ro = [], cs_exec = [], cs_data = [], cs_bss = [], cs_nonalloc = [], cs_tdata = [], cs_tbss = []\<rparr>,
           replicate (length infos) []);
        build_output_order_and_program_segments custom secondary
      })"

section \<open>Well-bracketed orders\<close>

text \<open>
  The specification of an order: segments start in the order of their numbers, each one once, and
  only open segments end. The function returns the number of segments started and the segments
  still open, or \<^const>\<open>None\<close> if an event is out of place.
\<close>

fun replay :: "OrderEvent list \<Rightarrow> nat \<times> ProgramSegmentId set \<Rightarrow> (nat \<times> ProgramSegmentId set) option" where
  "replay [] st = Some st"
| "replay (SegmentStart i # es) (n, opened) = (if unat i = n then replay es (Suc n, insert i opened) else None)"
| "replay (SegmentEnd i # es) (n, opened) = (if i \<in> opened then replay es (n, opened - {i}) else None)"
| "replay (Section s # es) st = replay es st"
| "replay (SetLocation a # es) st = replay es st"

lemma replay_append: "replay (es @ fs) st = do { st1 \<leftarrow> replay es st; replay fs st1 }"
  by (induction es st rule: replay.induct) auto

lemma replay_ends:
  "distinct stop \<Longrightarrow> set stop \<subseteq> opened \<Longrightarrow> replay (map SegmentEnd stop) (n, opened) = Some (n, opened - set stop)"
proof (induction stop arbitrary: opened)
  case (Cons i stop)
  then have "replay (map SegmentEnd stop) (n, opened - {i}) = Some (n, opened - {i} - set stop)"
    by (intro Cons.IH) auto
  moreover have "opened - {i} - set stop = opened - set (i # stop)" by auto
  ultimately show ?case using Cons.prems by simp
qed simp

lemma replay_starts:
  "m \<le> 256 \<Longrightarrow> n \<le> m \<Longrightarrow>
    replay (map SegmentStart (map of_nat [n..<m])) (n, opened) = Some (m, opened \<union> set (map of_nat [n..<m]))"
proof (induction "m - n" arbitrary: n opened)
  case (Suc k)
  then have "n < m" by simp
  moreover from this Suc.prems have "unat (of_nat n :: u8) = n" by (simp add: unat_of_nat)
  ultimately show ?case
    using Suc.hyps(1) [of "Suc n" "insert (of_nat n) opened"] Suc.hyps(2) Suc.prems
    by (simp add: upt_conv_Cons)
qed simp

lemma replay_sections [simp]: "replay (map Section ss) st = Some st"
  by (induction ss) auto

lemma flatten_simps [simp]:
  "flatten [] = []" "flatten (None # xs) = flatten xs" "flatten (Some x # xs) = x # flatten xs"
  by (simp_all add: flatten_def)

lemma flatten_append [simp]: "flatten (xs @ ys) = flatten xs @ flatten ys"
  by (simp add: flatten_def)

lemma set_flatten: "x \<in> set (flatten xs) \<longleftrightarrow> Some x \<in> set xs"
  by (induction xs) (auto simp: flatten_def split: option.splits)

lemma flatten_None [simp]: "flatten (map (\<lambda>_. None) xs) = []"
  by (induction xs) auto

text \<open>The active segments are numbered within the program segments and belong to their definitions.\<close>

definition active_ok :: "'d list \<Rightarrow> ProgramSegmentId option list \<Rightarrow> 'd list \<Rightarrow> bool" where
  "active_ok defs active segs \<longleftrightarrow> distinct (flatten active) \<and>
     list_all2 (\<lambda>d a. \<forall>i. a = Some i \<longrightarrow> segment_def segs i = Some d) defs active"

lemma segment_def_append: "segment_def segs i = Some d \<Longrightarrow> segment_def (segs @ ks) i = Some d"
  by (auto simp: segment_def_def get_def nth_append split: if_splits)

lemma add_segment_Some:
  assumes "add_segment segs d = Some (i, segs')"
  shows "segs' = segs @ [d]" and "unat i = length segs" and "length segs < 256"
    and "segment_def segs' i = Some d" and "segment_def segs i = None" and "i = of_nat (length segs)"
  using assms
  by (auto simp: add_segment_def new_segment_id_def unat_of_nat segment_def_def get_def split: if_splits bind_splits)

text \<open>
  One pass over the definitions. The segments that stop were active; those that start are
  numbered consecutively behind the existing ones; afterwards exactly the definitions that ask for
  the section are active.
\<close>

definition toggled ::
    "('d \<Rightarrow> bool) \<Rightarrow> 'd list \<Rightarrow> ProgramSegmentId option list \<Rightarrow> 'd list \<Rightarrow>
      ProgramSegmentId option list \<Rightarrow> 'd list \<Rightarrow> ProgramSegmentId list \<Rightarrow> ProgramSegmentId list \<Rightarrow> bool" where
  "toggled incl ds as segs as' segs' stop start \<longleftrightarrow>
     active_ok ds as' segs' \<and> (\<exists>ks. segs' = segs @ ks) \<and> (length segs \<le> 256 \<longrightarrow> length segs' \<le> 256) \<and>
     start = map of_nat [length segs..<length segs'] \<and> distinct stop \<and> set stop \<subseteq> set (flatten as) \<and>
     set (flatten as') = set (flatten as) - set stop \<union> set start \<and>
     list_all2 (\<lambda>d a. a \<noteq> None \<longleftrightarrow> incl d) ds as'"

lemma active_ok_Cons:
  "active_ok (d # ds) (None # as) segs \<longleftrightarrow> active_ok ds as segs"
  "active_ok (d # ds) (Some i # as) segs \<longleftrightarrow>
     active_ok ds as segs \<and> i \<notin> set (flatten as) \<and> segment_def segs i = Some d"
  by (auto simp: active_ok_def)

lemma active_ok_append: "active_ok ds as segs \<Longrightarrow> active_ok ds as (segs @ ks)"
  by (auto simp: active_ok_def intro: list_all2_mono segment_def_append)

lemma active_ok_bound:
  assumes "active_ok ds as segs" and "i \<in> set (flatten as)"
  shows "unat i < length segs"
proof -
  have "Some i \<in> set as" using assms(2) by (simp add: set_flatten)
  then obtain k where "k < length as" "as ! k = Some i" by (auto simp: in_set_conv_nth)
  then have "segment_def segs i = Some (ds ! k)"
    using assms(1) by (auto simp: active_ok_def list_all2_conv_all_nth)
  then show ?thesis by (auto simp: segment_def_def get_def split: if_splits)
qed

lemma new_ids_bound:
  assumes "i \<in> set (map of_nat [n..<m] :: u8 list)" and "m \<le> 256"
  shows "n \<le> unat i"
  using assms by (auto simp: unat_of_nat)

lemma toggle_segments_Some:
  "toggle_segments incl ds as segs = Some (as', segs', stop, start) \<Longrightarrow> active_ok ds as segs \<Longrightarrow> length segs \<le> 256 \<Longrightarrow>
    toggled incl ds as segs as' segs' stop start"
proof (induction ds arbitrary: as segs as' segs' stop start)
  case Nil
  then show ?case by (auto simp: toggled_def active_ok_def)
next
  case (Cons d ds)
  from Cons.prems(2) obtain a at where as: "as = a # at" by (cases as) (auto simp: active_ok_def)
  show ?case
  proof (cases "a = None \<and> incl d")
    case True
    with Cons.prems(1) obtain i segs1 at' start' where
      seg: "add_segment segs d = Some (i, segs1)"
      and tog: "toggle_segments incl ds at segs1 = Some (at', segs', stop, start')"
      and r: "as' = Some i # at'" "start = i # start'"
      by (auto simp: as split: bind_splits)
    note i = add_segment_Some [OF seg]
    have ok: "active_ok ds at segs" using Cons.prems(2) True by (simp add: as active_ok_Cons)
    have T: "toggled incl ds at segs1 at' segs' stop start'"
      by (rule Cons.IH [OF tog]) (use ok i in \<open>auto intro: active_ok_append\<close>)
    have st: "start' = map of_nat [length segs1..<length segs']" "length segs' \<le> 256" "length segs < length segs'"
      using T i(1,3) by (auto simp: toggled_def)
    have i_new: "i \<notin> set (flatten at')"
    proof
      assume "i \<in> set (flatten at')"
      then have "i \<in> set (flatten at) \<or> i \<in> set start'" using T by (auto simp: toggled_def)
      moreover have "i \<notin> set (flatten at)" using active_ok_bound [OF ok, of i] i(2) by auto
      ultimately show False using st new_ids_bound [of i "length segs1" "length segs'"] i(1,2) by simp
    qed
    have i_def: "segment_def segs' i = Some d"
      using T i(4) by (auto simp: toggled_def intro: segment_def_append)
    have start: "i # start' = map of_nat [length segs..<length segs']"
      using st i(1,6) by (simp add: upt_conv_Cons)
    have "active_ok ds at' segs'" "\<exists>ks. segs' = segs1 @ ks" "distinct stop" "set stop \<subseteq> set (flatten at)"
      "set (flatten at') = set (flatten at) - set stop \<union> set start'" "list_all2 (\<lambda>d a. a \<noteq> None \<longleftrightarrow> incl d) ds at'"
      using T by (simp_all add: toggled_def)
    moreover have "i \<notin> set stop"
      using active_ok_bound [OF ok, of i] i(2) T by (auto simp: toggled_def)
    ultimately have "active_ok (d # ds) (Some i # at') segs'" and "\<exists>ks. segs' = segs @ ks"
      and "set (flatten (Some i # at')) = set (flatten (a # at)) - set stop \<union> set (i # start')"
      and "set stop \<subseteq> set (flatten (a # at))" and "list_all2 (\<lambda>d a. a \<noteq> None \<longleftrightarrow> incl d) (d # ds) (Some i # at')"
      and "distinct stop"
      using True i(1) i_new i_def by (auto simp: active_ok_Cons)
    then show ?thesis
      using st(2) start unfolding toggled_def as r by (intro conjI) simp_all
  next
    case False
    obtain at' stop' where
      tog: "toggle_segments incl ds at segs = Some (at', segs', stop', start)"
      and r: "as' = (if incl d then a else None) # at'" "stop = (if incl d then [] else flatten [a]) @ stop'"
      using Cons.prems(1) False by (cases a) (auto simp: as split: bind_splits bool.splits)
    have ok: "active_ok ds at segs" using Cons.prems(2) by (cases a) (simp_all add: as active_ok_Cons)
    have T: "toggled incl ds at segs at' segs' stop' start"
      by (rule Cons.IH [OF tog ok Cons.prems(3)])
    have "i \<notin> set (flatten at') \<and> i \<notin> set stop' \<and> i \<notin> set start \<and> segment_def segs' i = Some d" if "a = Some i" for i
    proof -
      have i: "i \<notin> set (flatten at)" "segment_def segs i = Some d"
        using Cons.prems(2) that by (simp_all add: as active_ok_Cons)
      then have "unat i < length segs" by (auto simp: segment_def_def get_def split: if_splits)
      then have "i \<notin> set start" using new_ids_bound [of i "length segs" "length segs'"] T Cons.prems(3)
        by (auto simp: toggled_def)
      then show ?thesis using i T by (auto simp: toggled_def intro: segment_def_append)
    qed
    then show ?thesis
      using T False by (cases a) (auto simp: toggled_def as r active_ok_Cons)
  qed
qed


section \<open>The builder's invariant\<close>

text \<open>The open segments at a section are those whose definition asks for its primary section.\<close>

definition segments_of_section :: "('a, 'd) Platform \<Rightarrow> 'a OutputSections \<Rightarrow> 'd list \<Rightarrow> ProgramSegmentId set \<Rightarrow> OutputSectionId \<Rightarrow> bool" where
  "segments_of_section P os segs opened s \<longleftrightarrow>
     (\<forall>i\<in>opened. \<exists>d\<in>set (program_segment_defs P).
        segment_def segs i = Some d \<and> should_include_in_segment P os s d = Some True) \<and>
     (\<forall>d\<in>set (program_segment_defs P). should_include_in_segment P os s d = Some True \<longrightarrow>
        (\<exists>i\<in>opened. segment_def segs i = Some d))"

text \<open>Every section of an order is covered, where the replay of the events before it leaves off.\<close>

definition order_covers :: "('a, 'd) Platform \<Rightarrow> 'a OutputSections \<Rightarrow> 'd list \<Rightarrow> OrderEvent list \<Rightarrow> bool" where
  "order_covers P os segs events \<longleftrightarrow>
     (\<forall>pre t post. events = pre @ Section t # post \<longrightarrow>
        (\<exists>n opened s. replay pre (0, {}) = Some (n, opened) \<and> primary_output_section os t = Some s \<and>
           segments_of_section P os segs opened s))"

definition builder_inv :: "('a, 'd) Platform \<Rightarrow> 'd OutputOrderBuilder \<Rightarrow> bool" where
  "builder_inv P b \<longleftrightarrow>
     replay (ob_events b) (0, {}) = Some (length (ob_program_segments b), set (flatten (ob_active_segment_kinds b))) \<and>
     active_ok (program_segment_defs P) (ob_active_segment_kinds b) (ob_program_segments b) \<and>
     length (ob_program_segments b) \<le> 256"

lemma segments_of_section_append: "segments_of_section P os segs opened s \<Longrightarrow> segments_of_section P os (segs @ ks) opened s"
  unfolding segments_of_section_def by (meson segment_def_append)

lemma order_covers_append_segs: "order_covers P os segs events \<Longrightarrow> order_covers P os (segs @ ks) events"
  unfolding order_covers_def by (blast intro: segments_of_section_append)

lemma order_covers_append:
  "order_covers P os segs (es @ fs) \<longleftrightarrow> order_covers P os segs es \<and>
     (\<forall>pre t post. fs = pre @ Section t # post \<longrightarrow>
        (\<exists>n opened s. replay (es @ pre) (0, {}) = Some (n, opened) \<and> primary_output_section os t = Some s \<and>
           segments_of_section P os segs opened s))"
  (is "?L \<longleftrightarrow> ?R")
proof
  assume L: ?L
  show ?R
  proof (intro conjI allI impI)
    show "order_covers P os segs es"
      using L unfolding order_covers_def by (metis append.assoc append_Cons)
    fix pre t post assume "fs = pre @ Section t # post"
    then show "\<exists>n opened s. replay (es @ pre) (0, {}) = Some (n, opened) \<and> primary_output_section os t = Some s \<and>
           segments_of_section P os segs opened s"
      using L unfolding order_covers_def by (metis append.assoc)
  qed
next
  assume R: ?R
  show ?L
    unfolding order_covers_def
  proof (intro allI impI)
    fix pre t post assume eq: "es @ fs = pre @ Section t # post"
    then consider us where "es = pre @ Section t # us" | us where "pre = es @ us" "fs = us @ Section t # post"
      by (auto simp: append_eq_append_conv2 Cons_eq_append_conv append_eq_Cons_conv)
    then show "\<exists>n opened s. replay pre (0, {}) = Some (n, opened) \<and> primary_output_section os t = Some s \<and>
           segments_of_section P os segs opened s"
      using R unfolding order_covers_def by cases blast+
  qed
qed

lemma order_covers_no_sections:
  "order_covers P os segs es \<Longrightarrow> \<forall>t. Section t \<notin> set fs \<Longrightarrow> order_covers P os segs (es @ fs)"
  by (auto simp: order_covers_append)

lemma new_builder_inv: "builder_inv P (new_builder P)"
proof -
  have "flatten (replicate n None) = []" for n :: nat by (induction n) auto
  then show ?thesis
    by (auto simp: builder_inv_def new_builder_def active_ok_def list_all2_conv_all_nth)
qed

lemma end_rw_load_segment_cases:
  assumes "end_rw_load_segment P b = Some b'"
  obtains "b' = b"
  | n i where "n < length (ob_active_segment_kinds b)" "ob_active_segment_kinds b ! n = Some i"
    "b' = b\<lparr>ob_events := ob_events b @ [SegmentEnd i], ob_active_segment_kinds := (ob_active_segment_kinds b)[n := None]\<rparr>"
proof (cases "position (\<lambda>d. seg_is_loadable P d \<and> seg_is_writable P d \<and> \<not> seg_is_executable P d) (program_segment_defs P)")
  case None
  with assms have "b' = b" by (simp add: end_rw_load_segment_def)
  then show thesis by (rule that)
next
  case (Some n)
  with assms have n: "n < length (ob_active_segment_kinds b)"
    by (simp add: end_rw_load_segment_def get_def split: if_splits)
  with assms Some show thesis
    by (cases "ob_active_segment_kinds b ! n") (simp_all add: end_rw_load_segment_def get_def that)
qed

lemma end_rw_load_segment_inv:
  assumes "end_rw_load_segment P b = Some b'" and "builder_inv P b"
  shows "builder_inv P b' \<and> ob_program_segments b' = ob_program_segments b \<and>
    (\<exists>es. ob_events b' = ob_events b @ es \<and> (\<forall>t. Section t \<notin> set es))"
  using assms(1)
proof (cases rule: end_rw_load_segment_cases)
  case (2 n i)
  note n = 2(1,2) and b' = 2(3)
  let ?as = "ob_active_segment_kinds b"
  have split: "flatten ?as = flatten (take n ?as) @ i # flatten (drop (Suc n) ?as)"
    using arg_cong [OF id_take_nth_drop [OF n(1)], of flatten] n(2) by simp
  have split': "flatten (?as[n := None]) = flatten (take n ?as) @ flatten (drop (Suc n) ?as)"
    using n(1) by (simp add: upd_conv_take_nth_drop)
  have dist: "distinct (flatten ?as)" using assms(2) by (simp add: builder_inv_def active_ok_def)
  have set': "set (flatten (?as[n := None])) = set (flatten ?as) - {i}" and mem: "i \<in> set (flatten ?as)"
    using dist unfolding split split' by auto
  have "replay (ob_events b') (0, {}) = Some (length (ob_program_segments b), set (flatten (?as[n := None])))"
    using assms(2) mem by (simp add: builder_inv_def b' replay_append set')
  moreover have "distinct (flatten (?as[n := None]))" using dist unfolding split split' by simp
  then have "active_ok (program_segment_defs P) (?as[n := None]) (ob_program_segments b)"
    using assms(2) by (auto simp: builder_inv_def active_ok_def list_all2_conv_all_nth)
      (metis nth_list_update_eq nth_list_update_neq option.distinct(1))
  ultimately show ?thesis using assms(2) by (simp add: builder_inv_def b')
qed (use assms in auto)

lemma start_stop_segments_inv:
  assumes "start_stop_segments_for_section P kind os s b = Some (b2, stop, start)" and "builder_inv P b"
    and "\<not> is_partial_object kind" and "merge_target os s = Some None" and "output_info os s = Some info"
  shows "ob_events b2 = ob_events b \<and>
    toggled (\<lambda>d. seg_should_include_section P d info s) (program_segment_defs P) (ob_active_segment_kinds b)
      (ob_program_segments b) (ob_active_segment_kinds b2) (ob_program_segments b2) stop start"
proof -
  let ?incl = "\<lambda>d. seg_should_include_section P d info s" and ?defs = "program_segment_defs P"
  let ?as = "ob_active_segment_kinds b" and ?segs = "ob_program_segments b"
  have ok: "active_ok ?defs ?as ?segs" and len: "length ?segs \<le> 256"
    using assms(2) by (simp_all add: builder_inv_def)
  show ?thesis
  proof (cases "si_location info")
    case None
    with assms obtain as' segs where "toggle_segments ?incl ?defs ?as ?segs = Some (as', segs, stop, start)"
      and b2: "b2 = b\<lparr>ob_active_segment_kinds := as', ob_program_segments := segs\<rparr>"
      by (auto simp: start_stop_segments_for_section_def split: bind_splits)
    from toggle_segments_Some [OF this(1) ok len] show ?thesis by (simp add: b2)
  next
    case (Some l)
    let ?none = "map (\<lambda>_. None) ?as :: ProgramSegmentId option list"
    from Some assms obtain as' segs stop' where tog: "toggle_segments ?incl ?defs ?none ?segs = Some (as', segs, stop', start)"
      and b2: "b2 = b\<lparr>ob_active_segment_kinds := as', ob_program_segments := segs\<rparr>" and stop: "stop = flatten ?as @ stop'"
      by (auto simp: start_stop_segments_for_section_def split: bind_splits)
    have "active_ok ?defs ?none ?segs"
      using ok by (auto simp: active_ok_def list_all2_conv_all_nth)
    from toggle_segments_Some [OF tog this len]
    have T: "toggled ?incl ?defs ?none ?segs as' segs stop' start" .
    then have "stop' = []" by (simp add: toggled_def)
    with T ok show ?thesis by (simp add: b2 stop toggled_def active_ok_def)
  qed
qed

lemma toggled_covers:
  assumes "toggled (\<lambda>d. seg_should_include_section P d info s) (program_segment_defs P) as segs as' segs' stop start"
    and "output_info os s = Some info"
  shows "segments_of_section P os segs' (set (flatten as')) s"
proof -
  let ?defs = "program_segment_defs P"
  have ok: "list_all2 (\<lambda>d a. \<forall>i. a = Some i \<longrightarrow> segment_def segs' i = Some d) ?defs as'"
    and incl: "list_all2 (\<lambda>d a. a \<noteq> None \<longleftrightarrow> seg_should_include_section P d info s) ?defs as'"
    using assms(1) by (simp_all add: toggled_def active_ok_def)
  have inc: "should_include_in_segment P os s d = Some (seg_should_include_section P d info s)" for d
    by (simp add: should_include_in_segment_def assms(2))
  show ?thesis
    unfolding segments_of_section_def inc set_flatten [symmetric]
  proof (intro conjI ballI impI)
    fix i assume "i \<in> set (flatten as')"
    then have "Some i \<in> set as'" by (simp add: set_flatten)
    then obtain k where k: "k < length as'" "as' ! k = Some i" by (auto simp: in_set_conv_nth)
    with ok incl show "\<exists>d\<in>set ?defs. segment_def segs' i = Some d \<and> Some (seg_should_include_section P d info s) = Some True"
      by (intro bexI [of _ "?defs ! k"]) (auto simp: list_all2_conv_all_nth)
  next
    fix d assume "d \<in> set ?defs" "Some (seg_should_include_section P d info s) = Some True"
    then obtain k where k: "k < length ?defs" "?defs ! k = d" "as' ! k \<noteq> None"
      using incl by (auto simp: list_all2_conv_all_nth in_set_conv_nth)
    then obtain i where "as' ! k = Some i" by blast
    with k ok show "\<exists>i\<in>set (flatten as'). segment_def segs' i = Some d"
      by (intro bexI [of _ i]) (auto simp: list_all2_conv_all_nth set_flatten simp flip: in_set_conv_nth intro: nth_mem dest: nth_mem [of k as'])
  qed
qed

text \<open>The events of one section: what stops, the location, what starts, the section and its secondaries.\<close>

lemma replay_section_events:
  assumes "toggled incl ds as segs as' segs' stop start" and "length segs \<le> 256" and "\<forall>e\<in>set loc. \<exists>a. e = SetLocation a"
  shows "replay (map SegmentEnd stop @ loc @ map SegmentStart start) (length segs, set (flatten as)) =
    Some (length segs', set (flatten as'))"
proof -
  have T: "distinct stop" "set stop \<subseteq> set (flatten as)" "length segs' \<le> 256" "length segs \<le> length segs'"
    "start = map of_nat [length segs..<length segs']" "set (flatten as') = set (flatten as) - set stop \<union> set start"
    using assms(1,2) by (auto simp: toggled_def)
  have loc: "replay loc st = Some st" for st
    using assms(3) by (induction loc) auto
  show ?thesis
    using replay_ends [OF T(1,2)] replay_starts [OF T(3,4)] T(5,6) by (simp add: replay_append loc)
qed

definition secondaries_ok :: "'a OutputSections \<Rightarrow> OutputSectionId list list \<Rightarrow> bool" where
  "secondaries_ok os secondary \<longleftrightarrow>
     (\<forall>s ts. section_map_get secondary s = Some ts \<longrightarrow> (\<forall>t\<in>set ts. primary_output_section os t = Some s))"

lemma add_section_inv:
  assumes "add_section P kind os secondary s b = Some b'" and "builder_inv P b"
    and "order_covers P os (ob_program_segments b) (ob_events b)"
    and "\<not> is_partial_object kind" and "merge_target os s = Some None" and "secondaries_ok os secondary"
  shows "builder_inv P b' \<and> order_covers P os (ob_program_segments b') (ob_events b')"
proof -
  let ?loc = "set_location_events P"
  obtain info b1 b2 stop start secondaries keyed where
    info: "output_info os s = Some info"
    and if_b1: "(if should_end_current_rw_segment P info s (ob_active_segment_kinds b)
      then end_rw_load_segment P b else Some b) = Some b1"
    and b2: "start_stop_segments_for_section P kind os s b1 = Some (b2, stop, start)"
    and sec: "section_map_get secondary s = Some secondaries" "order_secondaries os secondaries = Some keyed"
    and b': "b' = b2\<lparr>ob_events := ob_events b2 @ map SegmentEnd stop @ ?loc info @ map SegmentStart start
        @ [Section s] @ map Section keyed\<rparr>"
    using assms(1) unfolding add_section_def by (auto simp del: not_None_eq split: bind_splits)
  have b1: "b1 = b \<or> end_rw_load_segment P b = Some b1" using if_b1 by (auto split: if_splits)
  have loc: "\<forall>e\<in>set (?loc info). \<exists>a. e = SetLocation a"
    by (auto simp: set_location_events_def split: option.splits)
  have inv1: "builder_inv P b1" and segs1: "ob_program_segments b1 = ob_program_segments b"
    and cov1: "order_covers P os (ob_program_segments b1) (ob_events b1)"
    using b1 assms(2,3) end_rw_load_segment_inv [of P b b1] order_covers_no_sections
    by (blast, blast, metis)
  from start_stop_segments_inv [OF b2 inv1 assms(4,5) info]
  have ev: "ob_events b2 = ob_events b1"
    and T: "toggled (\<lambda>d. seg_should_include_section P d info s) (program_segment_defs P) (ob_active_segment_kinds b1)
      (ob_program_segments b1) (ob_active_segment_kinds b2) (ob_program_segments b2) stop start" by blast+
  let ?pre = "map SegmentEnd stop @ ?loc info @ map SegmentStart start"
  let ?st = "(length (ob_program_segments b2), set (flatten (ob_active_segment_kinds b2)))"
  have pre: "replay (ob_events b1 @ ?pre) (0, {}) = Some ?st"
    using inv1 replay_section_events [OF T _ loc] by (simp add: builder_inv_def replay_append)
  obtain ks where ks: "ob_program_segments b2 = ob_program_segments b1 @ ks" using T by (auto simp: toggled_def)
  have prim: "primary_output_section os t = Some s" if "t \<in> set (s # keyed)" for t
  proof (cases "t = s")
    case True
    then show ?thesis using assms(5) by (simp add: primary_output_section_def)
  next
    case False
    then have "t \<in> set secondaries" using that sec(2) by (auto simp: order_secondaries_def split: if_splits)
    then show ?thesis using assms(6) sec(1) by (auto simp: secondaries_ok_def)
  qed
  have "order_covers P os (ob_program_segments b2) ((ob_events b1 @ ?pre) @ map Section (s # keyed))"
  proof (subst order_covers_append, intro conjI allI impI)
    show "order_covers P os (ob_program_segments b2) (ob_events b1 @ ?pre)"
      using loc by (intro order_covers_no_sections) (auto simp: ks cov1 intro: order_covers_append_segs)
    fix pre t post assume eq: "map Section (s # keyed) = pre @ Section t # post"
    then obtain us vs where "s # keyed = us @ vs" "map Section us = pre" "map Section vs = Section t # post"
      by (metis map_eq_append_conv)
    then have "t \<in> set (s # keyed)" and "pre = map Section us" by auto
    then show "\<exists>n opened s'. replay ((ob_events b1 @ ?pre) @ pre) (0, {}) = Some (n, opened) \<and>
        primary_output_section os t = Some s' \<and> segments_of_section P os (ob_program_segments b2) opened s'"
      using prim toggled_covers [OF T info] pre replay_append [of "ob_events b1 @ ?pre" pre "(0, {})"] by simp
  qed
  moreover have "builder_inv P b'"
    using T pre inv1 replay_append [of "ob_events b1 @ ?pre" "map Section (s # keyed)" "(0, {})"]
    by (simp add: builder_inv_def b' ev toggled_def)
  ultimately show ?thesis by (simp add: b' ev)
qed

lemma add_sections_inv:
  assumes "add_sections P kind os secondary ss b = Some b'" and "builder_inv P b"
    and "order_covers P os (ob_program_segments b) (ob_events b)"
    and "\<not> is_partial_object kind" and "\<forall>s\<in>set ss. merge_target os s = Some None" and "secondaries_ok os secondary"
  shows "builder_inv P b' \<and> order_covers P os (ob_program_segments b') (ob_events b')"
  using assms
proof (induction ss arbitrary: b)
  case (Cons s ss)
  from Cons.prems(1) obtain b1 where b1: "add_section P kind os secondary s b = Some b1"
    and rest: "add_sections P kind os secondary ss b1 = Some b'" by (auto split: bind_splits)
  have "builder_inv P b1 \<and> order_covers P os (ob_program_segments b1) (ob_events b1)"
    using Cons.prems by (intro add_section_inv [OF b1]) auto
  then show ?case using Cons.prems by (intro Cons.IH [OF rest]) auto
qed simp

lemma add_unconditional_segments_inv:
  assumes "add_unconditional_segments ds events segs = Some (events', segs')"
    and "replay events (0, {}) = Some (length segs, {})" and "order_covers P os segs events"
  shows "replay events' (0, {}) = Some (length segs', {}) \<and> order_covers P os segs' events' \<and> (\<exists>ks. segs' = segs @ ks)"
  using assms
proof (induction ds arbitrary: events segs)
  case (Cons d ds)
  from Cons.prems(1) obtain i segs1 where seg: "add_segment segs d = Some (i, segs1)"
    and rest: "add_unconditional_segments ds (events @ [SegmentStart i, SegmentEnd i]) segs1 = Some (events', segs')"
    by (auto split: bind_splits)
  note i = add_segment_Some [OF seg]
  have "replay (events @ [SegmentStart i, SegmentEnd i]) (0, {}) = Some (length segs1, {})"
    using Cons.prems(2) i(1,2) by (simp add: replay_append)
  moreover have "order_covers P os segs1 (events @ [SegmentStart i, SegmentEnd i])"
    using Cons.prems(3) i(1) by (intro order_covers_no_sections) (auto intro: order_covers_append_segs)
  ultimately have IH: "replay events' (0, {}) = Some (length segs', {}) \<and> order_covers P os segs' events' \<and> (\<exists>ks. segs' = segs1 @ ks)"
    by (rule Cons.IH [OF rest])
  then show ?case using i(1) by auto
qed auto

lemma build_inv:
  assumes "build P kind b = Some (events, segs)" and "builder_inv P b"
    and "order_covers P os (ob_program_segments b) (ob_events b)"
  shows "replay events (0, {}) = Some (length segs, {}) \<and> order_covers P os segs events"
proof -
  let ?ev = "ob_events b @ map SegmentEnd (flatten (ob_active_segment_kinds b))"
  have "distinct (flatten (ob_active_segment_kinds b))" using assms(2) by (simp add: builder_inv_def active_ok_def)
  then have "replay ?ev (0, {}) = Some (length (ob_program_segments b), {})"
    using assms(2) replay_ends [of "flatten (ob_active_segment_kinds b)" _ "length (ob_program_segments b)", OF _ subset_refl]
    by (simp add: builder_inv_def replay_append)
  moreover have "order_covers P os (ob_program_segments b) ?ev"
    using assms(3) by (intro order_covers_no_sections) auto
  ultimately show ?thesis
    using assms(1) add_unconditional_segments_inv [of "unconditional_segment_defs P" ?ev "ob_program_segments b" events segs P os]
    by (auto simp: build_def Let_def split: if_splits)
qed

text \<open>The lists of secondary sections are collected from the sections themselves.\<close>

lemma collect_sections_ok:
  assumes "collect_sections P es (custom, secondary) = Some (custom', secondary')"
    and "\<forall>(i, info) \<in> set es. i < 2 ^ 32 \<and> output_info os (of_nat i) = Some info" and "secondaries_ok os secondary"
  shows "secondaries_ok os secondary'"
  using assms
proof (induction P es "(custom, secondary)" arbitrary: custom secondary rule: collect_sections.induct)
  case (2 P i info rest custom secondary)
  show ?case
  proof (cases "si_kind info")
    case (Primary n)
    then show ?thesis using 2 by (auto split: if_splits)
  next
    case (Secondary p)
    then obtain l where l: "section_map_get secondary p = Some l"
      and rest: "collect_sections P rest (custom, secondary[unat p := l @ [of_nat i]]) = Some (custom', secondary')"
      using "2.prems"(1) by (auto split: bind_splits)
    have "primary_output_section os (of_nat i) = Some p"
      using "2.prems"(2) Secondary by (simp add: primary_output_section_def merge_target_def)
    then have "secondaries_ok os (secondary[unat p := l @ [of_nat i]])"
      using "2.prems"(3) l
      by (auto simp: secondaries_ok_def section_map_get_def get_def nth_list_update word_unat_eq_iff split: if_splits)
    then show ?thesis using "2.hyps"(3) [OF Secondary l rest] "2.prems"(2) by auto
  qed
qed simp

text \<open>
  (C14) The order of the output is well bracketed: for every list of primary sections that is added
  to a new builder, with the secondary sections collected from the table, the order that is built
  starts the program segments one after the other in the order of their numbers, ends each of them
  exactly once while it is open, and leaves none open; and at every section the open segments are
  exactly those whose definition asks for its primary section.
\<close>

theorem output_order_bracketed:
  assumes "length (os_section_infos os) < 2 ^ 32" and "\<not> is_partial_object kind"
    and "collect_sections P (zip [0..<length (os_section_infos os)] (os_section_infos os))
      (custom0, replicate (length (os_section_infos os)) []) = Some (custom, secondary)"
    and "\<forall>s\<in>set ss. merge_target os s = Some None"
    and "add_sections P kind os secondary ss (new_builder P) = Some b" and "build P kind b = Some (events, segs)"
  shows "replay events (0, {}) = Some (length segs, {}) \<and> order_covers P os segs events"
proof -
  have "secondaries_ok os (replicate (length (os_section_infos os)) [])"
    by (auto simp: secondaries_ok_def section_map_get_def get_def)
  moreover have "\<forall>(i, info) \<in> set (zip [0..<length (os_section_infos os)] (os_section_infos os)).
      i < 2 ^ 32 \<and> output_info os (of_nat i) = Some info"
    using assms(1) by (auto simp: set_zip output_info_def section_map_get_def get_def unat_of_nat)
  ultimately have sec: "secondaries_ok os secondary"
    using collect_sections_ok [OF assms(3)] by blast
  have "order_covers P os (ob_program_segments (new_builder P)) (ob_events (new_builder P))"
    by (simp add: order_covers_def new_builder_def)
  from add_sections_inv [OF assms(5) new_builder_inv this assms(2,4) sec]
  show ?thesis using build_inv [OF assms(6)] by blast
qed

theorem output_order_bracketed_witness:
  "\<exists>(P :: (unit, unit) Platform) os b.
     add_sections P SharedObject os [[]] [0] (new_builder P) = Some b \<and>
     build P SharedObject b = Some ([SegmentStart 0, Section 0, SegmentEnd 0], [()]) \<and>
     replay [SegmentStart 0, Section 0, SegmentEnd 0] (0, {}) = Some (1, {})"
proof -
  define P :: "(unit, unit) Platform" where
    "P = \<lparr>attr_is_alloc = (\<lambda>_. True), flags_is_alloc = (\<lambda>_. True), attr_is_executable = (\<lambda>_. False),
      attr_is_tls = (\<lambda>_. False), attr_is_writable = (\<lambda>_. False), attr_is_no_bits = (\<lambda>_. False),
      seg_is_writable = (\<lambda>_. False), seg_is_executable = (\<lambda>_. False), seg_is_loadable = (\<lambda>_. True),
      seg_is_stack = (\<lambda>_. False), seg_is_tls = (\<lambda>_. False), seg_order_key = (\<lambda>_. 0),
      seg_should_include_section = (\<lambda>_ _ _. True), seg_should_cut_rw_segment_when_ending = (\<lambda>_. False),
      program_segment_defs = [()], unconditional_segment_defs = [], attr_default = ()\<rparr>"
  define info :: "unit SectionOutputInfo" where
    "info = \<lparr>si_kind = Primary [], si_section_attributes = (), si_min_alignment = Alignment 0,
      si_location = None, si_secondary_order = None\<rparr>"
  define os where "os = with_base_address [info] 0"
  have out: "output_info os 0 = Some info" and len: "os_section_infos os = [info]"
    by (simp_all add: os_def output_info_def section_map_get_def get_def with_base_address_def)
  have col: "collect_sections P (zip [0..<length (os_section_infos os)] (os_section_infos os))
      (c, replicate (length (os_section_infos os)) []) = Some (c, [[]])" for c
    by (simp add: len info_def NUM_BUILT_IN_SECTIONS_def NUM_SINGLE_PART_SECTIONS_def)
  have mt: "merge_target os 0 = Some None" by (simp add: merge_target_def out info_def)
  define b where "b = \<lparr>ob_events = [SegmentStart 0, Section 0], ob_program_segments = [()],
    ob_active_segment_kinds = [Some 0]\<rparr>"
  have add: "add_sections P SharedObject os [[]] [0] (new_builder P) = Some b"
    by (simp add: b_def add_section_def out new_builder_def P_def should_end_current_rw_segment_def mt info_def
      start_stop_segments_for_section_def is_partial_object_def add_segment_def new_segment_id_def
      section_map_get_def get_def order_secondaries_def set_location_events_def)
  have bu: "build P SharedObject b = Some ([SegmentStart 0, Section 0, SegmentEnd 0], [()])"
    by (simp add: build_def is_partial_object_def b_def P_def)
  have "replay [SegmentStart 0, Section 0, SegmentEnd 0] (0, {}) = Some (length [()], {})"
    using output_order_bracketed [OF _ _ col _ add bu] by (simp add: len is_partial_object_def mt)
  with add bu show ?thesis by (intro exI [of _ P] exI [of _ os] exI [of _ b]) simp
qed

end
