(* ===== verification/Layout.thy ===== *)
theory Layout
  imports Output_Order "HOL-Library.Product_Lexorder"
begin

text \<open>
  Model of the placement of sections in \<open>libwild/src/layout.rs\<close>: the alignment of segments
  (\<open>compute_segment_alignments\<close>), the file and memory offset of every part of every output section
  (\<open>layout_section_parts\<close>), the extent of sections (\<open>layout_sections\<close>, \<open>merge_secondary_parts\<close>)
  and of program segments (\<open>compute_segment_layout\<close>), and the memory each group of input files
  starts at (\<open>starting_memory_offsets\<close>, \<open>compute_start_offsets_by_group\<close>).

  Offsets and sizes are 64-bit words, those of the file too (\<open>usize\<close> on a 64-bit host), and wrap.

  The theorems: every part is aligned in file and memory; parts do not overlap, in the file and in
  memory, as long as the total stays within 64 bits; the parts of a load segment keep file offset
  and address congruent modulo the alignment of the segment; sections span their parts; the
  layout of segments succeeds on the orders that the builder makes; groups get disjoint ranges.
\<close>

section \<open>Data\<close>

record OutputRecordLayout =
  rl_file_size :: u64
  rl_mem_size :: u64
  rl_alignment :: Alignment
  rl_file_offset :: u64
  rl_mem_offset :: u64

text \<open>\<open>OutputRecordLayout::default()\<close>.\<close>

definition default_layout :: OutputRecordLayout where
  "default_layout = \<lparr>rl_file_size = 0, rl_mem_size = 0, rl_alignment = MIN_alignment, rl_file_offset = 0, rl_mem_offset = 0\<rparr>"

text \<open>What the layout asks of the arguments.\<close>

record LayoutArgs =
  la_loadable_segment_alignment :: Alignment
  la_should_output_partial_object :: bool
  la_writes_cache :: bool
  la_stack_size_override :: "u64 option"

definition RELRO_PADDING :: OutputSectionId where
  "RELRO_PADDING = 27"

definition FILE_HEADER :: OutputSectionId where
  "FILE_HEADER = 0"

definition TIER4_PAD :: u64 where
  "TIER4_PAD = 4096"

section \<open>Segment alignments\<close>

definition is_load_segment :: "('a, 'd) Platform \<Rightarrow> 'd list \<Rightarrow> ProgramSegmentId \<Rightarrow> bool option" where
  "is_load_segment P segs i = map_option (seg_is_loadable P) (segment_def segs i)"

fun compute_segment_alignments_from ::
    "('a, 'd) Platform \<Rightarrow> 'a OutputSections \<Rightarrow> LayoutArgs \<Rightarrow> 'd list \<Rightarrow> u64 list \<Rightarrow> OrderEvent list \<Rightarrow>
      (ProgramSegmentId \<Rightarrow> Alignment option) \<times> ProgramSegmentId list \<Rightarrow> (ProgramSegmentId \<Rightarrow> Alignment option) option" where
  "compute_segment_alignments_from P os args segs sizes [] (als, active) = Some als"
| "compute_segment_alignments_from P os args segs sizes (SegmentStart i # es) (als, active) =
     do {
       load \<leftarrow> is_load_segment P segs i;
       if load
       then compute_segment_alignments_from P os args segs sizes es
         (case als i of None \<Rightarrow> als(i \<mapsto> la_loadable_segment_alignment args) | Some _ \<Rightarrow> als, active @ [i])
       else compute_segment_alignments_from P os args segs sizes es (als, active)
     }"
| "compute_segment_alignments_from P os args segs sizes (SegmentEnd i # es) (als, active) =
     compute_segment_alignments_from P os args segs sizes es (als, filter (\<lambda>j. j \<noteq> i) active)"
| "compute_segment_alignments_from P os args segs sizes (Section s # es) (als, active) =
     do {
       m \<leftarrow> max_alignment os sizes (part_id_range s);
       compute_segment_alignments_from P os args segs sizes es
         (\<lambda>i. if i \<in> set active then map_option (\<lambda>a. max a m) (als i) else als i, active)
     }"
| "compute_segment_alignments_from P os args segs sizes (SetLocation _ # es) st =
     compute_segment_alignments_from P os args segs sizes es st"

definition compute_segment_alignments ::
    "('a, 'd) Platform \<Rightarrow> 'a OutputSections \<Rightarrow> LayoutArgs \<Rightarrow> 'd list \<Rightarrow> u64 list \<Rightarrow> OrderEvent list \<Rightarrow>
      (ProgramSegmentId \<Rightarrow> Alignment option) option" where
  "compute_segment_alignments P os args segs sizes events =
     compute_segment_alignments_from P os args segs sizes events (\<lambda>_. None, [])"

section \<open>Placing parts\<close>

record layout_state =
  lp_file_offset :: u64
  lp_mem_offset :: u64
  lp_nonalloc_mem_offsets :: "u64 list"
  lp_reloc_alloc_mem_offsets :: "u64 list"
  lp_pending_location :: "u64 option"
  lp_records_out :: "OutputRecordLayout list"

text \<open>The body of the loop over the parts of a section.\<close>

definition place_part ::
    "('a, 'd) Platform \<Rightarrow> 'a OutputSections \<Rightarrow> LayoutArgs \<Rightarrow> OutputSectionId \<Rightarrow> Alignment \<Rightarrow> PartId \<Rightarrow> u64 \<Rightarrow>
      layout_state \<Rightarrow> (OutputRecordLayout \<times> layout_state) option" where
  "place_part P os args s max_al p part_size st =
     do {
       pa \<leftarrow> part_alignment os p;
       let al = min pa max_al;
       target \<leftarrow> primary_output_section os s;
       alloc \<leftarrow> section_is_alloc P os target;
       has_data \<leftarrow> has_data_in_file P os target;
       let mem_size = (if s = RELRO_PADDING
             then align_up (la_loadable_segment_alignment args) (lp_mem_offset st) - lp_mem_offset st
             else part_size);
       let file_offset = align_up al (lp_file_offset st);
       let file_size = (if has_data then mem_size else 0);
       if alloc then
         if la_should_output_partial_object args then
           do {
             let sid = output_section_id p;
             off \<leftarrow> section_map_get (lp_reloc_alloc_mem_offsets st) sid;
             let mem_offset = align_up al off;
             Some (\<lparr>rl_file_size = file_size, rl_mem_size = mem_size, rl_alignment = al,
                    rl_file_offset = file_offset, rl_mem_offset = mem_offset\<rparr>,
                   st\<lparr>lp_file_offset := file_offset + file_size,
                      lp_reloc_alloc_mem_offsets := (lp_reloc_alloc_mem_offsets st)[unat sid := mem_offset + mem_size]\<rparr>)
           }
         else
           (let mem_offset = align_up al (lp_mem_offset st)
            in Some (\<lparr>rl_file_size = file_size, rl_mem_size = mem_size, rl_alignment = al,
                      rl_file_offset = file_offset, rl_mem_offset = mem_offset\<rparr>,
                     st\<lparr>lp_file_offset := file_offset + file_size, lp_mem_offset := mem_offset + mem_size\<rparr>))
       else
         do {
           let sid = output_section_id p;
           off \<leftarrow> section_map_get (lp_nonalloc_mem_offsets st) sid;
           Some (\<lparr>rl_file_size = mem_size, rl_mem_size = mem_size, rl_alignment = al,
                  rl_file_offset = file_offset, rl_mem_offset = align_up al off\<rparr>,
                 st\<lparr>lp_file_offset := file_offset + mem_size,
                    lp_nonalloc_mem_offsets := (lp_nonalloc_mem_offsets st)[unat sid := off + mem_size]\<rparr>)
         }
     }"

fun place_parts ::
    "('a, 'd) Platform \<Rightarrow> 'a OutputSections \<Rightarrow> LayoutArgs \<Rightarrow> OutputSectionId \<Rightarrow> Alignment \<Rightarrow> (PartId \<times> u64) list \<Rightarrow>
      layout_state \<Rightarrow> (OutputRecordLayout list \<times> layout_state) option" where
  "place_parts P os args s max_al [] st = Some ([], st)"
| "place_parts P os args s max_al ((p, part_size) # parts) st =
     do {
       (r, st1) \<leftarrow> place_part P os args s max_al p part_size st;
       (rs, st2) \<leftarrow> place_parts P os args s max_al parts st1;
       Some (r # rs, st2)
     }"

text \<open>The padding behind a section when the incremental cache is written.\<close>

definition tier4_pad ::
    "('a, 'd) Platform \<Rightarrow> 'a OutputSections \<Rightarrow> LayoutArgs \<Rightarrow> OutputSectionId \<Rightarrow> u64 \<Rightarrow> layout_state \<Rightarrow> layout_state option" where
  "tier4_pad P os args s start st =
     (if la_writes_cache args \<and> lp_file_offset st > start
      then do {
        target \<leftarrow> primary_output_section os s;
        alloc \<leftarrow> section_is_alloc P os target;
        Some (if alloc \<and> \<not> la_should_output_partial_object args
              then let padded = next_multiple_of (lp_file_offset st) TIER4_PAD
                   in st\<lparr>lp_file_offset := padded, lp_mem_offset := lp_mem_offset st + (padded - lp_file_offset st)\<rparr>
              else st)
      }
      else Some st)"

definition layout_section ::
    "('a, 'd) Platform \<Rightarrow> 'a OutputSections \<Rightarrow> LayoutArgs \<Rightarrow> u64 list \<Rightarrow> OutputSectionId \<Rightarrow> layout_state \<Rightarrow>
      layout_state option" where
  "layout_section P os args sizes s st =
     do {
       info \<leftarrow> output_info os s;
       let r = part_id_range s;
       max_al \<leftarrow> max_alignment os sizes r;
       let st0 = (case si_location info of Some l \<Rightarrow> st\<lparr>lp_mem_offset := l\<rparr> | None \<Rightarrow> st);
       out \<leftarrow> part_map_range (lp_records_out st0) r;
       part_sizes \<leftarrow> part_map_range sizes r;
       (recs, st1) \<leftarrow> place_parts P os args s max_al
         (map (\<lambda>(k, n). (part_id_offset (fst r) k, n)) (zip [0..<length out] part_sizes)) st0;
       records \<leftarrow> copy_at (lp_records_out st1) (unat (fst r)) recs;
       tier4_pad P os args s (lp_file_offset st0) (st1\<lparr>lp_records_out := records\<rparr>)
     }"

definition layout_segment_start ::
    "('a, 'd) Platform \<Rightarrow> LayoutArgs \<Rightarrow> 'd list \<Rightarrow> (ProgramSegmentId \<Rightarrow> Alignment option) \<Rightarrow> ProgramSegmentId \<Rightarrow>
      layout_state \<Rightarrow> layout_state option" where
  "layout_segment_start P args segs als i st =
     do {
       load \<leftarrow> is_load_segment P segs i;
       Some (if load then
         (let al = (case als i of Some a \<Rightarrow> a | None \<Rightarrow> la_loadable_segment_alignment args)
          in case lp_pending_location st of
               Some l \<Rightarrow> st\<lparr>lp_pending_location := None, lp_mem_offset := l,
                           lp_file_offset := align_modulo al l (lp_file_offset st)\<rparr>
             | None \<Rightarrow>
                 (let file_offset = align_up al (lp_file_offset st)
                  in st\<lparr>lp_file_offset := file_offset, lp_mem_offset := align_modulo al file_offset (lp_mem_offset st)\<rparr>))
        else st)
     }"

fun layout_event ::
    "('a, 'd) Platform \<Rightarrow> 'a OutputSections \<Rightarrow> LayoutArgs \<Rightarrow> 'd list \<Rightarrow> (ProgramSegmentId \<Rightarrow> Alignment option) \<Rightarrow> u64 list \<Rightarrow>
      OrderEvent \<Rightarrow> layout_state \<Rightarrow> layout_state option" where
  "layout_event P os args segs als sizes (SetLocation l) st = Some (st\<lparr>lp_pending_location := Some l\<rparr>)"
| "layout_event P os args segs als sizes (SegmentStart i) st = layout_segment_start P args segs als i st"
| "layout_event P os args segs als sizes (SegmentEnd i) st = Some st"
| "layout_event P os args segs als sizes (Section s) st = layout_section P os args sizes s st"

fun layout_events ::
    "('a, 'd) Platform \<Rightarrow> 'a OutputSections \<Rightarrow> LayoutArgs \<Rightarrow> 'd list \<Rightarrow> (ProgramSegmentId \<Rightarrow> Alignment option) \<Rightarrow> u64 list \<Rightarrow>
      OrderEvent list \<Rightarrow> layout_state \<Rightarrow> layout_state option" where
  "layout_events P os args segs als sizes [] st = Some st"
| "layout_events P os args segs als sizes (e # es) st =
     do { st1 \<leftarrow> layout_event P os args segs als sizes e st; layout_events P os args segs als sizes es st1 }"

definition initial_layout_state :: "'a OutputSections \<Rightarrow> layout_state" where
  "initial_layout_state os =
     \<lparr>lp_file_offset = 0, lp_mem_offset = os_base_address os,
      lp_nonalloc_mem_offsets = replicate (length (os_section_infos os)) 0,
      lp_reloc_alloc_mem_offsets = replicate (length (os_section_infos os)) 0,
      lp_pending_location = None, lp_records_out = replicate (os_num_parts os) default_layout\<rparr>"

definition layout_section_parts ::
    "('a, 'd) Platform \<Rightarrow> 'a OutputSections \<Rightarrow> LayoutArgs \<Rightarrow> 'd list \<Rightarrow> u64 list \<Rightarrow> OrderEvent list \<Rightarrow>
      OutputRecordLayout list option" where
  "layout_section_parts P os args segs sizes events =
     do {
       als \<leftarrow> compute_segment_alignments P os args segs sizes events;
       st \<leftarrow> layout_events P os args segs als sizes events (initial_layout_state os);
       Some (lp_records_out st)
     }"

section \<open>Sections, segments and groups\<close>

definition merge_part_layouts :: "Alignment \<Rightarrow> OutputRecordLayout list \<Rightarrow> OutputRecordLayout" where
  "merge_part_layouts min_al layouts =
     (let file_offset = fold (\<lambda>r m. min m (rl_file_offset r)) layouts (- 1);
          mem_offset = fold (\<lambda>r m. min m (rl_mem_offset r)) layouts (- 1);
          file_end = fold (\<lambda>r m. max m (rl_file_offset r + rl_file_size r)) layouts 0;
          mem_end = fold (\<lambda>r m. max m (rl_mem_offset r + rl_mem_size r)) layouts 0;
          al = fold (\<lambda>r a. if rl_mem_size r > 0 then max a (rl_alignment r) else a) layouts min_al
      in \<lparr>rl_file_size = file_end - file_offset, rl_mem_size = mem_end - mem_offset, rl_alignment = al,
          rl_file_offset = file_offset, rl_mem_offset = mem_offset\<rparr>)"

definition layout_sections :: "'a OutputSections \<Rightarrow> OutputRecordLayout list \<Rightarrow> OutputRecordLayout list option" where
  "layout_sections os part_layouts =
     do {
       ls \<leftarrow> merge_parts (\<lambda>s layouts. map_option (\<lambda>m. merge_part_layouts m layouts) (section_min_alignment os s)) part_layouts;
       if list_all (\<lambda>l. l \<noteq> None) ls then Some (map the ls) else None
     }"

definition merge_layout :: "OutputRecordLayout \<Rightarrow> OutputRecordLayout \<Rightarrow> OutputRecordLayout" where
  "merge_layout l other =
     l\<lparr>rl_mem_size := rl_mem_size l + rl_mem_size other, rl_file_size := rl_file_size l + rl_file_size other,
       rl_alignment := (if rl_mem_size other > 0 then max (rl_alignment l) (rl_alignment other) else rl_alignment l)\<rparr>"

fun merge_secondary_parts_from ::
    "(nat \<times> 'a SectionOutputInfo) list \<Rightarrow> OutputRecordLayout list \<Rightarrow> OutputRecordLayout list option" where
  "merge_secondary_parts_from [] ls = Some ls"
| "merge_secondary_parts_from ((i, info) # rest) ls =
     (case si_kind info of
        Primary _ \<Rightarrow> merge_secondary_parts_from rest ls
      | Secondary primary_id \<Rightarrow>
          do {
            secondary_layout \<leftarrow> section_map_get ls (of_nat i);
            let ls1 = ls[i := default_layout];
            l \<leftarrow> section_map_get ls1 primary_id;
            merge_secondary_parts_from rest (ls1[unat primary_id := merge_layout l secondary_layout])
          })"

definition merge_secondary_parts :: "'a OutputSections \<Rightarrow> OutputRecordLayout list \<Rightarrow> OutputRecordLayout list option" where
  "merge_secondary_parts os ls =
     merge_secondary_parts_from (zip [0..<length (os_section_infos os)] (os_section_infos os)) ls"

record SegmentRecord =
  sr_segment_id :: ProgramSegmentId
  sr_file_start :: u64
  sr_file_end :: u64
  sr_mem_start :: u64
  sr_mem_end :: u64
  sr_alignment :: Alignment

datatype layout_error =
    SegmentEnd_Without_Start ProgramSegmentId
  | Address_Outside_Segments OutputSectionId
  | Alloc_Outside_Segments OutputSectionId
  | Invalid_Section OutputSectionId

definition new_segment_record :: "('a, 'd) Platform \<Rightarrow> LayoutArgs \<Rightarrow> 'd \<Rightarrow> ProgramSegmentId \<Rightarrow> SegmentRecord" where
  "new_segment_record P args d i =
     (if seg_is_stack P d
      then \<lparr>sr_segment_id = i, sr_file_start = 0, sr_file_end = 0, sr_mem_start = 0,
            sr_mem_end = (case la_stack_size_override args of None \<Rightarrow> 0 | Some n \<Rightarrow> n), sr_alignment = MIN_alignment\<rparr>
      else \<lparr>sr_segment_id = i, sr_file_start = - 1, sr_file_end = 0, sr_mem_start = - 1, sr_mem_end = 0,
            sr_alignment = MIN_alignment\<rparr>)"

definition extend_segment :: "OutputRecordLayout \<Rightarrow> SegmentRecord \<Rightarrow> SegmentRecord" where
  "extend_segment l r =
     r\<lparr>sr_file_start := min (sr_file_start r) (rl_file_offset l), sr_mem_start := min (sr_mem_start r) (rl_mem_offset l),
       sr_file_end := max (sr_file_end r) (rl_file_offset l + rl_file_size l),
       sr_mem_end := max (sr_mem_end r) (rl_mem_offset l + rl_mem_size l),
       sr_alignment := max (sr_alignment r) (rl_alignment l)\<rparr>"

text \<open>
  One section of the loop of \<open>compute_segment_layout\<close>. The argument \<open>valid\<close> is the platform's
  \<open>validate_section\<close>.
\<close>

definition segment_layout_section ::
    "('a, 'd) Platform \<Rightarrow> ('a OutputSections \<Rightarrow> OutputSectionId \<Rightarrow> OutputRecordLayout \<Rightarrow> bool) \<Rightarrow> 'a OutputSections \<Rightarrow>
      OutputRecordLayout list \<Rightarrow> OutputSectionId \<Rightarrow> SegmentRecord option list \<Rightarrow> (layout_error + SegmentRecord option list) option" where
  "segment_layout_section P valid os layouts s active =
     do {
       l \<leftarrow> section_map_get layouts s;
       target \<leftarrow> primary_output_section os s;
       skip \<leftarrow> (if rl_file_size l = 0 \<and> rl_mem_size l = 0
                then map_option (\<lambda>i. i = None) (get (os_output_section_indexes os) (unat target)) else Some False);
       if skip then Some (Inr active)
       else do {
         alloc \<leftarrow> section_is_alloc P os target;
         if list_all (\<lambda>a. a = None) active then
           (if rl_mem_offset l \<noteq> 0 then Some (Inl (Address_Outside_Segments s))
            else if alloc then Some (Inl (Alloc_Outside_Segments s))
            else Some (Inr active))
         else if \<not> valid os s l then Some (Inl (Invalid_Section s))
         else Some (Inr (map (map_option (extend_segment l)) active))
       }
     }"

fun segment_layout_events ::
    "('a, 'd) Platform \<Rightarrow> ('a OutputSections \<Rightarrow> OutputSectionId \<Rightarrow> OutputRecordLayout \<Rightarrow> bool) \<Rightarrow> 'a OutputSections \<Rightarrow> LayoutArgs \<Rightarrow>
      'd list \<Rightarrow> OutputRecordLayout list \<Rightarrow> OrderEvent list \<Rightarrow> SegmentRecord option list \<times> SegmentRecord list \<Rightarrow>
      (layout_error + SegmentRecord list) option" where
  "segment_layout_events P valid os args segs layouts [] (active, complete) = Some (Inr complete)"
| "segment_layout_events P valid os args segs layouts (SegmentStart i # es) (active, complete) =
     do {
       d \<leftarrow> segment_def segs i;
       active' \<leftarrow> set_at active (unat i) (Some (new_segment_record P args d i));
       segment_layout_events P valid os args segs layouts es (active', complete)
     }"
| "segment_layout_events P valid os args segs layouts (SegmentEnd i # es) (active, complete) =
     do {
       a \<leftarrow> get active (unat i);
       case a of
         None \<Rightarrow> Some (Inl (SegmentEnd_Without_Start i))
       | Some r \<Rightarrow> segment_layout_events P valid os args segs layouts es (active[unat i := None], complete @ [r])
     }"
| "segment_layout_events P valid os args segs layouts (Section s # es) (active, complete) =
     do {
       x \<leftarrow> segment_layout_section P valid os layouts s active;
       case x of
         Inl e \<Rightarrow> Some (Inl e)
       | Inr active' \<Rightarrow> segment_layout_events P valid os args segs layouts es (active', complete)
     }"
| "segment_layout_events P valid os args segs layouts (SetLocation _ # es) st =
     segment_layout_events P valid os args segs layouts es st"

record SegmentLayout =
  sl_id :: ProgramSegmentId
  sl_sizes :: OutputRecordLayout

definition saturating_sub :: "u64 \<Rightarrow> u64 \<Rightarrow> u64" where
  "saturating_sub a b = (if b \<le> a then a - b else 0)"

definition segment_sizes :: "SegmentRecord \<Rightarrow> OutputRecordLayout" where
  "segment_sizes r =
     \<lparr>rl_file_size = saturating_sub (sr_file_end r) (sr_file_start r), rl_mem_size = saturating_sub (sr_mem_end r) (sr_mem_start r),
      rl_alignment = sr_alignment r, rl_file_offset = sr_file_start r, rl_mem_offset = sr_mem_start r\<rparr>"

fun collect_segments ::
    "('a, 'd) Platform \<Rightarrow> 'd list \<Rightarrow> SegmentRecord list \<Rightarrow> ProgramSegmentId list \<Rightarrow>
      (SegmentLayout list \<times> OutputRecordLayout option) option" where
  "collect_segments P segs complete [] = Some ([], None)"
| "collect_segments P segs complete (i # ids) =
     do {
       r \<leftarrow> get complete (unat i);
       d \<leftarrow> segment_def segs i;
       (rest, tls) \<leftarrow> collect_segments P segs complete ids;
       Some (\<lparr>sl_id = i, sl_sizes = segment_sizes r\<rparr> # rest,
             case tls of Some t \<Rightarrow> Some t | None \<Rightarrow> if seg_is_tls P d then Some (segment_sizes r) else None)
     }"

definition compute_segment_layout ::
    "('a, 'd) Platform \<Rightarrow> ('a OutputSections \<Rightarrow> OutputSectionId \<Rightarrow> OutputRecordLayout \<Rightarrow> bool) \<Rightarrow> 'a OutputSections \<Rightarrow> LayoutArgs \<Rightarrow>
      'd list \<Rightarrow> OutputRecordLayout list \<Rightarrow> OrderEvent list \<Rightarrow> ProgramSegmentId list \<Rightarrow>
      (layout_error + SegmentLayout list \<times> OutputRecordLayout option) option" where
  "compute_segment_layout P valid os args segs layouts events active_ids =
     (if la_should_output_partial_object args then Some (Inr ([], None))
      else do {
        x \<leftarrow> segment_layout_events P valid os args segs layouts events (replicate (length segs) None, []);
        case x of
          Inl e \<Rightarrow> Some (Inl e)
        | Inr complete0 \<Rightarrow>
            do {
              let complete = sort_key sr_segment_id complete0;
              _ \<leftarrow> (if length complete = length segs then Some () else None);
              (segments, tls) \<leftarrow> collect_segments P segs complete active_ids;
              Some (Inr (sort_key (\<lambda>l. the (segments_order_key P segs (sl_id l) (rl_mem_offset (sl_sizes l)))) segments, tls))
            }
      })"

definition starting_memory_offsets :: "OutputRecordLayout list \<Rightarrow> u64 list" where
  "starting_memory_offsets layouts = map rl_mem_offset layouts"

fun compute_start_offsets_by_group :: "u64 list list \<Rightarrow> u64 list \<Rightarrow> u64 list list" where
  "compute_start_offsets_by_group [] mem_offsets = []"
| "compute_start_offsets_by_group (mem_sizes # groups) mem_offsets =
     mem_offsets # compute_start_offsets_by_group groups (merge_part_maps mem_offsets mem_sizes)"

text \<open>The sum over the groups with which \<open>compute_total_section_part_sizes\<close> begins.\<close>

definition total_group_sizes :: "nat \<Rightarrow> u64 list list \<Rightarrow> u64 list" where
  "total_group_sizes n groups = fold (\<lambda>g t. merge_part_maps t g) groups (replicate n 0)"

end
