(* ===== verification/Expression_Eval.thy ===== *)
theory Expression_Eval
  imports Layout
begin

text \<open>
  Model of \<open>libwild/src/expression_eval.rs\<close>: the expressions of linker scripts (\<open>linker_script.rs\<close>) and
  the check of \<open>ASSERT\<close> commands after layout. \<open>ORIGIN\<close> and \<open>LENGTH\<close> evaluate the expression of a memory
  region, which may refer to regions again, so the evaluator is a partial function; it is shown to return
  when the references between regions are well-founded, and not to return on a region that refers to
  itself.
\<close>

section \<open>Expressions\<close>

datatype Expression =
    Number u64
  | Symbol bytes
  | LocationCounter
  | Add Expression Expression
  | Subtract Expression Expression
  | Multiply Expression Expression
  | Divide Expression Expression
  | LessThan Expression Expression
  | GreaterThan Expression Expression
  | LessEqual Expression Expression
  | GreaterEqual Expression Expression
  | Equal Expression Expression
  | NotEqual Expression Expression
  | Sizeof bytes
  | Alignof bytes
  | Origin bytes
  | Length bytes
  | Addr bytes
  | Loadaddr bytes
  | Align Expression
  | Min Expression Expression
  | Max Expression Expression
  | BitwiseAnd Expression Expression
  | BitwiseOr Expression Expression
  | BitwiseXor Expression Expression
  | LeftShift Expression Expression
  | RightShift Expression Expression
  | LogicalAnd Expression Expression
  | LogicalOr Expression Expression
  | LogicalNot Expression
  | BitwiseNot Expression
  | Negate Expression

record MemoryRegion =
  mr_name :: bytes
  mr_origin :: Expression
  mr_length :: Expression

text \<open>What the evaluation reads of the link: the output sections and, for each of them, its layout.\<close>

record 'a output_env =
  ee_output_sections :: "'a OutputSections"
  ee_section_layouts :: "OutputSectionId \<Rightarrow> OutputRecordLayout"

section \<open>Evaluation\<close>

datatype eval_error =
    Division_By_Zero
  | Align_Zero
  | Origin_Not_Found bytes
  | Length_Not_Found bytes
  | Addr_Not_Found bytes

text \<open>
  A result with the symbols it warned about; \<^const>\<open>None\<close> is an evaluation that does not return.
  \<open>ebind\<close> is the \<open>?\<close> operator.
\<close>

type_synonym 'a evaluation = "((eval_error + 'a) \<times> bytes list) option"

definition eret :: "'a \<Rightarrow> 'a evaluation" where
  "eret a = Some (Inr a, [])"

definition efail :: "eval_error \<Rightarrow> 'a evaluation" where
  "efail e = Some (Inl e, [])"

definition ebind :: "'a evaluation \<Rightarrow> ('a \<Rightarrow> 'b evaluation) \<Rightarrow> 'b evaluation" where
  "ebind m k =
     Option.bind m (\<lambda>rw. case fst rw of
       Inl e \<Rightarrow> Some (Inl e, snd rw)
     | Inr a \<Rightarrow> Option.bind (k a) (\<lambda>rw'. Some (fst rw', snd rw @ snd rw')))"

lemma ebind_mono [partial_function_mono]:
  assumes m: "mono_option m" and k: "\<And>a. mono_option (\<lambda>f. k a f)"
  shows "mono_option (\<lambda>f. ebind (m f) (\<lambda>a. k a f))"
proof -
  have "mono_option (\<lambda>f. case fst rw of Inl e \<Rightarrow> Some (Inl e, snd rw)
      | Inr a \<Rightarrow> Option.bind (k a f) (\<lambda>rw'. Some (fst rw', snd rw @ snd rw')))" for rw :: "(eval_error + 'c) \<times> bytes list"
    by (cases "fst rw") (auto intro!: partial_function_mono k)
  then show ?thesis unfolding ebind_def by (intro bind_mono m)
qed

definition section_size :: "'a output_env \<Rightarrow> bytes \<Rightarrow> u64" where
  "section_size env name =
     (case section_id_by_name (ee_output_sections env) name of None \<Rightarrow> 0 | Some i \<Rightarrow> rl_mem_size (ee_section_layouts env i))"

definition section_align :: "'a output_env \<Rightarrow> bytes \<Rightarrow> u64" where
  "section_align env name =
     (case section_id_by_name (ee_output_sections env) name of None \<Rightarrow> 0 | Some i \<Rightarrow> alignment_value (rl_alignment (ee_section_layouts env i)))"

definition section_address :: "'a output_env \<Rightarrow> bytes \<Rightarrow> u64 evaluation" where
  "section_address env name =
     (case section_id_by_name (ee_output_sections env) name of
        None \<Rightarrow> efail (Addr_Not_Found name)
      | Some i \<Rightarrow> eret (rl_mem_offset (ee_section_layouts env i)))"

definition of_bool64 :: "bool \<Rightarrow> u64" where
  "of_bool64 b = (if b then 1 else 0)"

definition find_region :: "MemoryRegion list \<Rightarrow> bytes \<Rightarrow> MemoryRegion option" where
  "find_region regions name = find (\<lambda>r. mr_name r = name) regions"

definition ebinary :: "u64 evaluation \<Rightarrow> u64 evaluation \<Rightarrow> (u64 \<Rightarrow> u64 \<Rightarrow> u64) \<Rightarrow> u64 evaluation" where
  "ebinary l r f = ebind l (\<lambda>a. ebind r (\<lambda>b. eret (f a b)))"

lemma ebinary_mono [partial_function_mono]:
  "mono_option l \<Longrightarrow> mono_option r \<Longrightarrow> mono_option (\<lambda>f. ebinary (l f) (r f) g)"
  unfolding ebinary_def by (intro partial_function_mono)

text \<open>
  The arms of the evaluator by their shape: those without a sub-expression, those that evaluate one or
  two sub-expressions from left to right and combine the values, and the rest.
\<close>

fun leaf_arm :: "'a output_env \<Rightarrow> Expression \<Rightarrow> u64 evaluation option" where
  "leaf_arm env (Number n) = Some (eret n)"
| "leaf_arm env LocationCounter = Some (eret 0)"
| "leaf_arm env (Symbol name) = Some (Some (Inr 1, [name]))"
| "leaf_arm env (Sizeof name) = Some (eret (section_size env name))"
| "leaf_arm env (Alignof name) = Some (eret (section_align env name))"
| "leaf_arm env (Addr name) = Some (section_address env name)"
| "leaf_arm env (Loadaddr name) = Some (section_address env name)"
| "leaf_arm env _ = None"

fun unary_arm :: "Expression \<Rightarrow> (Expression \<times> (u64 \<Rightarrow> u64)) option" where
  "unary_arm (LogicalNot e) = Some (e, \<lambda>a. of_bool64 (a = 0))"
| "unary_arm (BitwiseNot e) = Some (e, \<lambda>a. NOT a)"
| "unary_arm (Negate e) = Some (e, \<lambda>a. - a)"
| "unary_arm _ = None"

fun binary_arm :: "Expression \<Rightarrow> (Expression \<times> Expression \<times> (u64 \<Rightarrow> u64 \<Rightarrow> u64)) option" where
  "binary_arm (Add l r) = Some (l, r, \<lambda>a b. a + b)"
| "binary_arm (Subtract l r) = Some (l, r, \<lambda>a b. a - b)"
| "binary_arm (Multiply l r) = Some (l, r, \<lambda>a b. a * b)"
| "binary_arm (LessThan l r) = Some (l, r, \<lambda>a b. of_bool64 (a < b))"
| "binary_arm (GreaterThan l r) = Some (l, r, \<lambda>a b. of_bool64 (a > b))"
| "binary_arm (LessEqual l r) = Some (l, r, \<lambda>a b. of_bool64 (a \<le> b))"
| "binary_arm (GreaterEqual l r) = Some (l, r, \<lambda>a b. of_bool64 (a \<ge> b))"
| "binary_arm (Equal l r) = Some (l, r, \<lambda>a b. of_bool64 (a = b))"
| "binary_arm (NotEqual l r) = Some (l, r, \<lambda>a b. of_bool64 (a \<noteq> b))"
| "binary_arm (Min l r) = Some (l, r, \<lambda>a b. min a b)"
| "binary_arm (Max l r) = Some (l, r, \<lambda>a b. max a b)"
| "binary_arm (BitwiseAnd l r) = Some (l, r, \<lambda>a b. a AND b)"
| "binary_arm (BitwiseOr l r) = Some (l, r, \<lambda>a b. a OR b)"
| "binary_arm (BitwiseXor l r) = Some (l, r, \<lambda>a b. a XOR b)"
| "binary_arm (LeftShift l r) = Some (l, r, \<lambda>a b. push_bit (unat b mod 64) a)"
| "binary_arm (RightShift l r) = Some (l, r, \<lambda>a b. drop_bit (unat b mod 64) a)"
| "binary_arm _ = None"

partial_function (option) evaluate_expression :: "'a output_env \<Rightarrow> MemoryRegion list \<Rightarrow> Expression \<Rightarrow> u64 evaluation" where
  "evaluate_expression env regions expr =
     (case leaf_arm env expr of
        Some v \<Rightarrow> v
      | None \<Rightarrow>
          (case unary_arm expr of
             Some (e, f) \<Rightarrow> ebind (evaluate_expression env regions e) (\<lambda>a. eret (f a))
           | None \<Rightarrow>
               (case binary_arm expr of
                  Some (l, r, f) \<Rightarrow> ebinary (evaluate_expression env regions l) (evaluate_expression env regions r) f
                | None \<Rightarrow>
                    (case expr of
                       Divide l r \<Rightarrow>
                         ebind (evaluate_expression env regions r) (\<lambda>divisor.
                           if divisor = 0 then efail Division_By_Zero
                           else ebind (evaluate_expression env regions l) (\<lambda>a. eret (a div divisor)))
                     | Align e \<Rightarrow>
                         ebind (evaluate_expression env regions e) (\<lambda>a.
                           if a = 0 then efail Align_Zero else eret ((0 + (a - 1)) AND NOT (a - 1)))
                     | LogicalAnd l r \<Rightarrow>
                         ebind (evaluate_expression env regions l) (\<lambda>a.
                           if a \<noteq> 0 then ebind (evaluate_expression env regions r) (\<lambda>b. eret (of_bool64 (b \<noteq> 0)))
                           else eret 0)
                     | LogicalOr l r \<Rightarrow>
                         ebind (evaluate_expression env regions l) (\<lambda>a.
                           if a \<noteq> 0 then eret 1
                           else ebind (evaluate_expression env regions r) (\<lambda>b. eret (of_bool64 (b \<noteq> 0))))
                     | Origin name \<Rightarrow>
                         (case find_region regions name of
                            None \<Rightarrow> efail (Origin_Not_Found name)
                          | Some region \<Rightarrow> evaluate_expression env regions (mr_origin region))
                     | Length name \<Rightarrow>
                         (case find_region regions name of
                            None \<Rightarrow> efail (Length_Not_Found name)
                          | Some region \<Rightarrow> evaluate_expression env regions (mr_length region))
                     | _ \<Rightarrow> None))))"

declare evaluate_expression.simps [code]

section \<open>Assertions\<close>

record AssertCommand =
  as_expression :: Expression
  as_message :: bytes
  as_remainder :: bytes

text \<open>A linker script after parsing, and what the check reports: the input, the line, and what went wrong.\<close>

record linker_script_file =
  ls_input :: bytes
  ls_file_bytes :: bytes
  ls_assertions :: "AssertCommand list"
  ls_memory_regions :: "MemoryRegion list"

datatype assert_failure = Eval_Failed bytes u32 eval_error | Assert_False bytes u32 bytes

definition line_number :: "bytes \<Rightarrow> bytes \<Rightarrow> u32" where
  "line_number file_bytes remainder =
     of_nat (length (filter (\<lambda>b. b = 0x0A) (take (length file_bytes - length remainder) file_bytes))) + 1"

fun check_assertions :: "'a output_env \<Rightarrow> linker_script_file \<Rightarrow> AssertCommand list \<Rightarrow> (assert_failure + unit) option" where
  "check_assertions env script [] = Some (Inr ())"
| "check_assertions env script (a # as) =
     do {
       (r, ws) \<leftarrow> evaluate_expression env (ls_memory_regions script) (as_expression a);
       let line = line_number (ls_file_bytes script) (as_remainder a);
       case r of
         Inl e \<Rightarrow> Some (Inl (Eval_Failed (ls_input script) line e))
       | Inr v \<Rightarrow>
           if v = 0 then Some (Inl (Assert_False (ls_input script) line (as_message a)))
           else check_assertions env script as
     }"

fun evaluate_assertions :: "'a output_env \<Rightarrow> linker_script_file list \<Rightarrow> (assert_failure + unit) option" where
  "evaluate_assertions env [] = Some (Inr ())"
| "evaluate_assertions env (s # ss) =
     do {
       r \<leftarrow> check_assertions env s (ls_assertions s);
       case r of Inl e \<Rightarrow> Some (Inl e) | Inr _ \<Rightarrow> evaluate_assertions env ss
     }"

section \<open>When evaluation returns\<close>

primrec region_refs :: "Expression \<Rightarrow> bytes set" where
  "region_refs (Number n) = {}"
| "region_refs (Symbol name) = {}"
| "region_refs LocationCounter = {}"
| "region_refs (Sizeof name) = {}"
| "region_refs (Alignof name) = {}"
| "region_refs (Addr name) = {}"
| "region_refs (Loadaddr name) = {}"
| "region_refs (Origin name) = {name}"
| "region_refs (Length name) = {name}"
| "region_refs (Align e) = region_refs e"
| "region_refs (LogicalNot e) = region_refs e"
| "region_refs (BitwiseNot e) = region_refs e"
| "region_refs (Negate e) = region_refs e"
| "region_refs (Add l r) = region_refs l \<union> region_refs r"
| "region_refs (Subtract l r) = region_refs l \<union> region_refs r"
| "region_refs (Multiply l r) = region_refs l \<union> region_refs r"
| "region_refs (Divide l r) = region_refs l \<union> region_refs r"
| "region_refs (LessThan l r) = region_refs l \<union> region_refs r"
| "region_refs (GreaterThan l r) = region_refs l \<union> region_refs r"
| "region_refs (LessEqual l r) = region_refs l \<union> region_refs r"
| "region_refs (GreaterEqual l r) = region_refs l \<union> region_refs r"
| "region_refs (Equal l r) = region_refs l \<union> region_refs r"
| "region_refs (NotEqual l r) = region_refs l \<union> region_refs r"
| "region_refs (Min l r) = region_refs l \<union> region_refs r"
| "region_refs (Max l r) = region_refs l \<union> region_refs r"
| "region_refs (BitwiseAnd l r) = region_refs l \<union> region_refs r"
| "region_refs (BitwiseOr l r) = region_refs l \<union> region_refs r"
| "region_refs (BitwiseXor l r) = region_refs l \<union> region_refs r"
| "region_refs (LeftShift l r) = region_refs l \<union> region_refs r"
| "region_refs (RightShift l r) = region_refs l \<union> region_refs r"
| "region_refs (LogicalAnd l r) = region_refs l \<union> region_refs r"
| "region_refs (LogicalOr l r) = region_refs l \<union> region_refs r"

definition ranked :: "(bytes \<Rightarrow> nat) \<Rightarrow> MemoryRegion list \<Rightarrow> bool" where
  "ranked rank regions \<longleftrightarrow>
     (\<forall>r\<in>set regions. \<forall>n\<in>region_refs (mr_origin r) \<union> region_refs (mr_length r). rank n < rank (mr_name r))"

definition returns :: "'a option \<Rightarrow> bool" where
  "returns m \<longleftrightarrow> m \<noteq> None"

lemma ret_returns [simp]: "returns (eret a)" "returns (efail e)" "returns (Some r)"
  by (simp_all add: returns_def eret_def efail_def)

lemma ebind_returns [intro!]:
  assumes "returns m" and "\<And>a. returns (k a)"
  shows "returns (ebind m k)"
proof -
  obtain r ws where m: "m = Some (r, ws)" using assms(1) by (auto simp: returns_def)
  show ?thesis
  proof (cases r)
    case (Inr a)
    then show ?thesis using assms(2) [of a] m by (auto simp: ebind_def returns_def)
  qed (simp add: ebind_def m)
qed

lemma ebinary_returns [intro!]: "returns l \<Longrightarrow> returns r \<Longrightarrow> returns (ebinary l r f)"
  unfolding ebinary_def by (intro ebind_returns) simp_all

lemma leaf_arm_returns: "leaf_arm env e = Some v \<Longrightarrow> returns v"
  by (cases e) (auto simp: section_address_def split: option.splits)

lemma arm_refs:
  "unary_arm e = Some (e1, f) \<Longrightarrow> region_refs e = region_refs e1 \<and> size e1 < size e"
  "binary_arm e = Some (l, r, g) \<Longrightarrow> region_refs e = region_refs l \<union> region_refs r \<and> size l < size e \<and> size r < size e"
  by (cases e; auto)+

text \<open>One unfolding returns if the sub-expressions and the regions that are named return.\<close>

lemma evaluate_step_returns:
  assumes sub: "\<And>e1. size e1 < size e \<Longrightarrow> region_refs e1 \<subseteq> region_refs e \<Longrightarrow> returns (evaluate_expression env regions e1)"
    and reg: "\<And>name r. find_region regions name = Some r \<Longrightarrow> name \<in> region_refs e \<Longrightarrow>
      returns (evaluate_expression env regions (mr_origin r)) \<and> returns (evaluate_expression env regions (mr_length r))"
  shows "returns (evaluate_expression env regions e)"
proof -
  let ?ev = "evaluate_expression env regions"
  consider (leaf) v where "leaf_arm env e = Some v"
    | (unary) e1 f where "leaf_arm env e = None" "unary_arm e = Some (e1, f)"
    | (binary) l r f where "leaf_arm env e = None" "unary_arm e = None" "binary_arm e = Some (l, r, f)"
    | (rest) "leaf_arm env e = None" "unary_arm e = None" "binary_arm e = None"
    by (metis not_None_eq prod_cases3 surj_pair)
  then show ?thesis
  proof cases
    case leaf
    then show ?thesis by (subst evaluate_expression.simps) (simp add: leaf_arm_returns)
  next
    case unary
    then have "?ev e = ebind (?ev e1) (\<lambda>a. eret (f a))"
      by (subst evaluate_expression.simps) simp
    then show ?thesis using sub arm_refs(1) [OF unary(2)] by auto
  next
    case binary
    then have "?ev e = ebinary (?ev l) (?ev r) f"
      by (subst evaluate_expression.simps) simp
    then show ?thesis using sub arm_refs(2) [OF binary(3)] by auto
  next
    case rest
    have two: "returns (?ev l)" "returns (?ev r)" if "e = Divide l r \<or> e = LogicalAnd l r \<or> e = LogicalOr l r" for l r
      using that sub by auto
    have one: "returns (?ev a)" if "e = Align a" for a using that sub by auto
    show ?thesis
      using rest two one reg
      by (cases e; subst evaluate_expression.simps)
        (auto split: option.split)
  qed
qed

lemma evaluate_returns:
  assumes "ranked rank regions" and "\<forall>n\<in>region_refs e. rank n < N"
  shows "returns (evaluate_expression env regions e)"
  using assms(2)
proof (induction N arbitrary: e rule: less_induct)
  case (less N)
  have region: "returns (evaluate_expression env regions (mr_origin r)) \<and> returns (evaluate_expression env regions (mr_length r))"
    if "find_region regions name = Some r" "rank name < N" for name r
  proof -
    have "r \<in> set regions" and "mr_name r = name"
      using that(1) by (auto simp: find_region_def find_Some_iff)
    then show ?thesis using assms(1) by (intro conjI less.IH [OF that(2)]) (auto simp: ranked_def)
  qed
  from less.prems show ?case
  proof (induction "size e" arbitrary: e rule: less_induct)
    case (less e)
    show ?case
    proof (rule evaluate_step_returns)
      fix e1 :: Expression
      assume "size e1 < size e" "region_refs e1 \<subseteq> region_refs e"
      then show "returns (evaluate_expression env regions e1)" using less.hyps less.prems by blast
    qed (use region less.prems in blast)
  qed
qed

text \<open>
  (C40) Evaluating an expression of a linker script returns a value or an error whenever the memory
  regions can be ranked such that the origin and the length of every region refer to regions of smaller
  rank only.
\<close>

theorem evaluation_returns:
  assumes "ranked rank regions"
  shows "\<exists>r ws. evaluate_expression env regions e = Some (r, ws)"
proof -
  have "finite (region_refs e)" by (induction e) simp_all
  then obtain N where "\<forall>n\<in>region_refs e. rank n < N"
    using finite_nat_set_iff_bounded [of "rank ` region_refs e"] by auto
  from evaluate_returns [OF assms this] show ?thesis by (auto simp: returns_def)
qed

theorem evaluation_returns_witness:
  "\<forall>env. \<exists>r ws. evaluate_expression env [\<lparr>mr_name = [65], mr_origin = Number 4096, mr_length = Number 64\<rparr>,
     \<lparr>mr_name = [66], mr_origin = Add (Origin [65]) (Length [65]), mr_length = Number 64\<rparr>] (Origin [66]) = Some (r, ws)"
  by (rule allI, rule evaluation_returns [of "\<lambda>n. if n = [66] then 1 else 0"]) (simp add: ranked_def)

text \<open>A region whose origin is its own origin makes the evaluation recurse for ever.\<close>

lemma self_origin_diverges:
  assumes "find_region regions name = Some r" and "mr_origin r = Origin name"
  shows "evaluate_expression env regions (Origin name) = None"
proof -
  have no: "\<not> (regs = regions \<and> x = Origin name)" if "evaluate_expression en regs x = Some y" for en regs x y
    by (rule evaluate_expression.raw_induct [OF _ that], rule notI, elim conjE, hypsubst, simp add: assms, blast)
  show ?thesis
  proof (rule ccontr)
    assume "evaluate_expression env regions (Origin name) \<noteq> None"
    then obtain y where "evaluate_expression env regions (Origin name) = Some y" by blast
    from no [OF this] show False by simp
  qed
qed

end
