(* ===== verification/Layout_Place.thy ===== *)
theory Layout_Place
  imports Layout
begin

text \<open>
  What \<open>layout_section_parts\<close> guarantees. Placing is bump allocation: the interface
  \<open>bump_allocator\<close> is interpreted four times, for the parts of a section and for the events of an
  order, in the file and in memory. The theorems: parts do not overlap, every part is aligned, and
  the parts of a load segment keep file offset and address congruent.
\<close>

section \<open>Bump allocation\<close>

text \<open>
  The contract of placing things one after the other. A step places some ranges behind the cursor,
  in order, and moves the cursor behind them by at most its cost, as long as the cursor stays below
  the limit. Runs of steps then place all their ranges in order.
\<close>

fun run_steps :: "('x \<Rightarrow> 's \<Rightarrow> ('r list \<times> 's) option) \<Rightarrow> 'x list \<Rightarrow> 's \<Rightarrow> ('r list \<times> 's) option" where
  "run_steps step [] st = Some ([], st)"
| "run_steps step (x # xs) st =
     do { (rs, st1) \<leftarrow> step x st; (rs', st2) \<leftarrow> run_steps step xs st1; Some (rs @ rs', st2) }"

definition in_order :: "('r \<Rightarrow> nat) \<Rightarrow> ('r \<Rightarrow> nat) \<Rightarrow> nat \<Rightarrow> nat \<Rightarrow> 'r list \<Rightarrow> bool" where
  "in_order start stop lo hi rs \<longleftrightarrow>
     sorted_wrt (\<lambda>a b. stop a \<le> start b) rs \<and> (\<forall>r\<in>set rs. lo \<le> start r \<and> start r \<le> stop r \<and> stop r \<le> hi) \<and> lo \<le> hi"

lemma in_order_append:
  "in_order start stop a b rs \<Longrightarrow> in_order start stop b c rs' \<Longrightarrow> in_order start stop a c (rs @ rs')"
  by (fastforce simp: in_order_def sorted_wrt_append)

lemma in_order_mono: "in_order start stop a b rs \<Longrightarrow> a' \<le> a \<Longrightarrow> b \<le> b' \<Longrightarrow> in_order start stop a' b' rs"
  by (fastforce simp: in_order_def)

lemma in_order_Nil [simp]: "in_order start stop a b [] \<longleftrightarrow> a \<le> b"
  by (simp add: in_order_def)

locale bump_allocator =
  fixes step :: "'x \<Rightarrow> 's \<Rightarrow> ('r list \<times> 's) option"
    and ok :: "'x \<Rightarrow> bool" and inv :: "'s \<Rightarrow> bool"
    and cursor :: "'s \<Rightarrow> nat" and start stop :: "'r \<Rightarrow> nat" and cost :: "'x \<Rightarrow> nat" and limit :: nat
  assumes step_in_order: "step x st = Some (rs, st') \<Longrightarrow> ok x \<Longrightarrow> inv st \<Longrightarrow> cursor st + cost x < limit \<Longrightarrow>
    inv st' \<and> in_order start stop (cursor st) (cursor st') rs \<and> cursor st' \<le> cursor st + cost x"
begin

lemma run_in_order:
  assumes "run_steps step xs st = Some (rs, st')" and "\<forall>x\<in>set xs. ok x" and "inv st"
    and "cursor st + sum_list (map cost xs) < limit"
  shows "inv st' \<and> in_order start stop (cursor st) (cursor st') rs \<and> cursor st' \<le> cursor st + sum_list (map cost xs)"
  using assms
proof (induction xs arbitrary: st rs)
  case (Cons x xs)
  from Cons.prems(1) obtain rs1 st1 rs2 where s: "step x st = Some (rs1, st1)"
    and r: "run_steps step xs st1 = Some (rs2, st')" and rs: "rs = rs1 @ rs2" by (auto split: bind_splits)
  have 1: "inv st1 \<and> in_order start stop (cursor st) (cursor st1) rs1 \<and> cursor st1 \<le> cursor st + cost x"
    using Cons.prems(2-4) by (intro step_in_order [OF s]) auto
  moreover have "inv st' \<and> in_order start stop (cursor st1) (cursor st') rs2 \<and>
      cursor st' \<le> cursor st1 + sum_list (map cost xs)"
    using Cons.prems(2-4) 1 by (intro Cons.IH [OF r]) auto
  ultimately show ?case by (auto simp: rs intro: in_order_append)
qed simp

end

section \<open>Arithmetic of the placement\<close>

lemma align_up_slack:
  assumes "wf_alignment a"
  shows "unat (align_up a v - v) < align_nat a"
proof -
  have m: "unat (alignment_value a) = align_nat a" using assms by (rule unat_alignment_value)
  have r: "unat (v mod alignment_value a) = unat v mod align_nat a" by (simp add: unat_mod m)
  show ?thesis
  proof (cases "v mod alignment_value a = 0")
    case True
    then show ?thesis by (simp add: align_up_def next_multiple_of_def)
  next
    case False
    then have pos: "0 < unat v mod align_nat a" using r by (metis gr0I unat_eq_zero)
    have "unat (alignment_value a - v mod alignment_value a) = align_nat a - unat v mod align_nat a"
      by (simp add: unat_sub word_le_nat_alt m r)
    then show ?thesis using pos False by (simp add: align_up_def next_multiple_of_def Let_def)
  qed
qed

lemma align_up_dvd:
  assumes "wf_alignment a"
  shows "align_nat a dvd unat (align_up a v)"
proof -
  let ?m = "align_nat a"
  have m: "unat (alignment_value a) = ?m" using assms by (rule unat_alignment_value)
  have dvd: "?m dvd 2 ^ 64" using wf_alignment_exponent [OF assms] by (intro le_imp_power_dvd) simp
  have r: "unat (v mod alignment_value a) = unat v mod ?m" by (simp add: unat_mod m)
  show ?thesis
  proof (cases "v mod alignment_value a = 0")
    case True
    then show ?thesis using r by (simp add: align_up_def next_multiple_of_def mod_eq_0_iff_dvd)
  next
    case False
    have "unat (alignment_value a - v mod alignment_value a) = ?m - unat v mod ?m"
      by (simp add: unat_sub word_le_nat_alt m r)
    then have u: "unat (align_up a v) = (unat v + (?m - unat v mod ?m)) mod 2 ^ 64"
      using False by (simp add: align_up_def next_multiple_of_def Let_def unat_word_ariths)
    have "unat v + (?m - unat v mod ?m) = unat v div ?m * ?m + ?m"
      using div_mult_mod_eq [of "unat v" ?m] mod_less_divisor [of ?m "unat v"] by simp
    then have "?m dvd unat v + (?m - unat v mod ?m)" by simp
    then show ?thesis using dvd unfolding u by (simp add: dvd_mod)
  qed
qed

lemma align_up_le:
  assumes "wf_alignment a" and "unat v + 65536 < 2 ^ 64"
  shows "unat v \<le> unat (align_up a v)" and "unat (align_up a v) < unat v + 65536"
proof -
  have m: "align_nat a \<le> 65536" using assms(1) by (rule align_nat_bound)
  have "unat (align_up a v) = round_up (align_nat a) (unat v)"
    using assms m by (intro unat_align_up) auto
  then show "unat v \<le> unat (align_up a v)" and "unat (align_up a v) < unat v + 65536"
    using round_up_ge [of "unat v" "align_nat a"] round_up_less [of "align_nat a" "unat v"] m by auto
qed

lemma align_modulo_le:
  assumes "wf_alignment a" and "unat v + 131072 < 2 ^ 64"
  shows "unat v \<le> unat (align_modulo a r v)" and "unat (align_modulo a r v) < unat v + 131072"
    and "unat (align_modulo a r v) mod align_nat a = unat r mod align_nat a"
proof -
  have m: "align_nat a \<le> 65536" using assms(1) by (rule align_nat_bound)
  have u: "unat (align_modulo a r v) = round_up (align_nat a) (unat v) + unat r mod align_nat a"
    using assms m by (intro unat_align_modulo) auto
  have "unat r mod align_nat a < align_nat a" and "round_up (align_nat a) (unat v) < unat v + align_nat a"
    by (simp_all add: round_up_less)
  then show "unat v \<le> unat (align_modulo a r v)" and "unat (align_modulo a r v) < unat v + 131072"
    using round_up_ge [of "unat v" "align_nat a"] m unfolding u by linarith+
  have "align_nat a dvd round_up (align_nat a) (unat v)" by (simp add: round_up_dvd)
  then show "unat (align_modulo a r v) mod align_nat a = unat r mod align_nat a"
    by (auto simp: u elim!: dvdE)
qed

lemma tier4_le:
  fixes v :: u64
  assumes "unat v + 4096 < 2 ^ 64"
  shows "unat v \<le> unat (next_multiple_of v TIER4_PAD)" and "unat (next_multiple_of v TIER4_PAD) < unat v + 4096"
proof -
  have "TIER4_PAD = alignment_value (Alignment 12)" and wf: "wf_alignment (Alignment 12)"
    by (simp_all add: TIER4_PAD_def alignment_value_def exponent_le_iff)
  then have n: "next_multiple_of v TIER4_PAD = align_up (Alignment 12) v" by (simp add: align_up_def)
  have "unat (align_up (Alignment 12) v) = round_up 4096 (unat v)"
    using unat_align_up [OF wf, of v] assms by simp
  then show "unat v \<le> unat (next_multiple_of v TIER4_PAD)" and "unat (next_multiple_of v TIER4_PAD) < unat v + 4096"
    using round_up_ge [of "unat v" 4096] round_up_less [of 4096 "unat v"] by (auto simp: n)
qed

section \<open>Placing the parts of a section\<close>

definition wf_layout :: "'a OutputSections \<Rightarrow> LayoutArgs \<Rightarrow> bool" where
  "wf_layout os args \<longleftrightarrow>
     base_nat (length (os_section_infos os)) < 2 ^ 32 \<and>
     (\<forall>info\<in>set (os_section_infos os). wf_alignment (si_min_alignment info)) \<and>
     wf_alignment (la_loadable_segment_alignment args)"

definition part_mem_size :: "LayoutArgs \<Rightarrow> OutputSectionId \<Rightarrow> u64 \<Rightarrow> u64 \<Rightarrow> u64" where
  "part_mem_size args s part_size mem_offset =
     (if s = RELRO_PADDING then align_up (la_loadable_segment_alignment args) mem_offset - mem_offset else part_size)"

text \<open>What a part's record says, and how the cursors move.\<close>

lemma place_part_Some:
  assumes "place_part P os args s max_al p n st = Some (r, st')"
  obtains pa target alloc where "part_alignment os p = Some pa" and "rl_alignment r = min pa max_al"
    and "primary_output_section os s = Some target" and "section_is_alloc P os target = Some alloc"
    and "rl_mem_size r = part_mem_size args s n (lp_mem_offset st)"
    and "rl_file_offset r = align_up (rl_alignment r) (lp_file_offset st)"
    and "rl_file_size r = rl_mem_size r \<or> rl_file_size r = 0"
    and "has_data_in_file P os target = Some True \<Longrightarrow> rl_file_size r = rl_mem_size r"
    and "lp_file_offset st' = rl_file_offset r + rl_file_size r"
    and "alloc \<and> \<not> la_should_output_partial_object args \<Longrightarrow> rl_mem_offset r = align_up (rl_alignment r) (lp_mem_offset st) \<and>
      lp_mem_offset st' = rl_mem_offset r + rl_mem_size r"
    and "\<not> (alloc \<and> \<not> la_should_output_partial_object args) \<Longrightarrow> lp_mem_offset st' = lp_mem_offset st"
    and "\<exists>off. rl_mem_offset r = align_up (rl_alignment r) off"
    and "lp_pending_location st' = lp_pending_location st" and "lp_records_out st' = lp_records_out st"
proof -
  from assms obtain pa target alloc has where
    g: "part_alignment os p = Some pa" "primary_output_section os s = Some target"
      "section_is_alloc P os target = Some alloc" "has_data_in_file P os target = Some has"
    by (auto simp: place_part_def Let_def split: bind_splits)
  show thesis
  proof (cases "alloc \<and> \<not> la_should_output_partial_object args")
    case True
    with assms g show thesis
      by (intro that [OF g(1) _ g(2,3)]) (auto simp: place_part_def Let_def part_mem_size_def)
  next
    case False
    with assms g show thesis
      by (intro that [OF g(1) _ g(2,3)])
        (auto simp: place_part_def Let_def part_mem_size_def split: bind_splits if_splits)
  qed
qed

lemma part_mem_size_le:
  assumes "wf_layout os args"
  shows "unat (part_mem_size args s n m) \<le> unat n + 65535"
proof -
  have wf: "wf_alignment (la_loadable_segment_alignment args)" using assms by (simp add: wf_layout_def)
  then have "unat (align_up (la_loadable_segment_alignment args) m - m) < 65536"
    using align_up_slack [OF wf, of m] align_nat_bound [OF wf] by simp
  then show ?thesis by (auto simp: part_mem_size_def)
qed

lemma part_alignment_wf:
  assumes "wf_layout os args" and "part_alignment os p = Some a"
  shows "wf_alignment a"
proof (cases "38 \<le> unat p")
  case True
  then show ?thesis using part_alignment_regular [OF True, of os] assms(2) by auto
next
  case False
  then have "section_min_alignment os (output_section_id p) = Some a"
    using assms(2) by (simp add: part_alignment_def NUM_SINGLE_PART_SECTIONS_def word_le_nat_alt)
  then show ?thesis
    using assms(1)
    by (auto simp: wf_layout_def section_min_alignment_def output_info_def section_map_get_def get_def split: if_splits)
qed

lemma wf_min: "wf_alignment a \<Longrightarrow> wf_alignment (min a b)"
  by (auto simp: wf_alignment_def min_def less_eq_Alignment_def)

lemma place_part_wf:
  assumes "place_part P os args s max_al p n st = Some (r, st')" and "wf_layout os args"
  shows "wf_alignment (rl_alignment r)"
  using assms(1) by (cases rule: place_part_Some) (metis part_alignment_wf [OF assms(2)] wf_min)

definition file_start :: "OutputRecordLayout \<Rightarrow> nat" where "file_start r = unat (rl_file_offset r)"
definition file_stop :: "OutputRecordLayout \<Rightarrow> nat" where "file_stop r = unat (rl_file_offset r) + unat (rl_file_size r)"
definition mem_start :: "OutputRecordLayout \<Rightarrow> nat" where "mem_start r = unat (rl_mem_offset r)"
definition mem_stop :: "OutputRecordLayout \<Rightarrow> nat" where "mem_stop r = unat (rl_mem_offset r) + unat (rl_mem_size r)"

lemmas extent_defs = file_start_def file_stop_def mem_start_def mem_stop_def

definition part_cost :: "PartId \<times> u64 \<Rightarrow> nat" where
  "part_cost x = unat (snd x) + 131072"

text \<open>The two views of placing a part: the file, where every part takes its place, and memory, for
  sections that are allocated.\<close>

definition file_step ::
    "('a, 'd) Platform \<Rightarrow> 'a OutputSections \<Rightarrow> LayoutArgs \<Rightarrow> OutputSectionId \<Rightarrow> Alignment \<Rightarrow> PartId \<times> u64 \<Rightarrow> layout_state \<Rightarrow>
      (OutputRecordLayout list \<times> layout_state) option" where
  "file_step P os args s max_al x st = map_option (\<lambda>(r, st'). ([r], st')) (place_part P os args s max_al (fst x) (snd x) st)"

lemma run_file_step: "run_steps (file_step P os args s max_al) xs st = place_parts P os args s max_al xs st"
  by (induction xs arbitrary: st) (auto simp: file_step_def split: bind_splits)

definition mem_alloc :: "('a, 'd) Platform \<Rightarrow> 'a OutputSections \<Rightarrow> OutputSectionId \<Rightarrow> bool" where
  "mem_alloc P os s \<longleftrightarrow> (\<exists>t. primary_output_section os s = Some t \<and> section_is_alloc P os t = Some True)"

interpretation file_parts: bump_allocator "file_step P os args s max_al" "\<lambda>_. wf_layout os args" "\<lambda>_. True"
    "\<lambda>st. unat (lp_file_offset st)" file_start file_stop part_cost "2 ^ 64"
  for P :: "('a, 'd) Platform" and os args s max_al
proof
  fix x st rs st'
  assume st: "file_step P os args s max_al x st = Some (rs, st')" and wf: "wf_layout os args"
    and b: "unat (lp_file_offset st) + part_cost x < 2 ^ 64"
  from st obtain r where r: "place_part P os args s max_al (fst x) (snd x) st = Some (r, st')" and rs: "rs = [r]"
    by (auto simp: file_step_def)
  have al: "wf_alignment (rl_alignment r)" using r wf by (rule place_part_wf)
  have up: "unat (lp_file_offset st) \<le> unat (rl_file_offset r)" "unat (rl_file_offset r) < unat (lp_file_offset st) + 65536"
    using r align_up_le [OF al, of "lp_file_offset st"] b
    by (cases rule: place_part_Some, simp add: part_cost_def)+
  have size: "unat (rl_file_size r) \<le> unat (snd x) + 65535"
    using r part_mem_size_le [OF wf, of s "snd x" "lp_mem_offset st"] by (cases rule: place_part_Some) auto
  have "unat (lp_file_offset st') = file_stop r"
    using r up size b by (cases rule: place_part_Some) (simp add: file_stop_def part_cost_def unat_add_no_overflow)
  then show "True \<and> in_order file_start file_stop (unat (lp_file_offset st)) (unat (lp_file_offset st')) rs \<and>
      unat (lp_file_offset st') \<le> unat (lp_file_offset st) + part_cost x"
    using up size by (simp add: in_order_def rs file_start_def file_stop_def part_cost_def)
qed

interpretation mem_parts: bump_allocator "file_step P os args s max_al"
    "\<lambda>_. wf_layout os args \<and> mem_alloc P os s \<and> \<not> la_should_output_partial_object args" "\<lambda>_. True"
    "\<lambda>st. unat (lp_mem_offset st)" mem_start mem_stop part_cost "2 ^ 64"
  for P :: "('a, 'd) Platform" and os args s max_al
proof
  fix x st rs st'
  assume st: "file_step P os args s max_al x st = Some (rs, st')"
    and ok: "wf_layout os args \<and> mem_alloc P os s \<and> \<not> la_should_output_partial_object args"
    and b: "unat (lp_mem_offset st) + part_cost x < 2 ^ 64"
  from st obtain r where r: "place_part P os args s max_al (fst x) (snd x) st = Some (r, st')" and rs: "rs = [r]"
    by (auto simp: file_step_def)
  have al: "wf_alignment (rl_alignment r)" using r ok by (blast intro: place_part_wf)
  have m: "rl_mem_offset r = align_up (rl_alignment r) (lp_mem_offset st)" "lp_mem_offset st' = rl_mem_offset r + rl_mem_size r"
    using r ok by (cases rule: place_part_Some, auto simp: mem_alloc_def)+
  have up: "unat (lp_mem_offset st) \<le> unat (rl_mem_offset r)" "unat (rl_mem_offset r) < unat (lp_mem_offset st) + 65536"
    using align_up_le [OF al, of "lp_mem_offset st"] b by (simp_all add: m part_cost_def)
  have size: "unat (rl_mem_size r) \<le> unat (snd x) + 65535"
    using r part_mem_size_le [of os args s "snd x" "lp_mem_offset st"] ok by (cases rule: place_part_Some) auto
  have "unat (lp_mem_offset st') = mem_stop r"
    using up size b unfolding m(2) by (simp add: mem_stop_def part_cost_def unat_add_no_overflow)
  then show "True \<and> in_order mem_start mem_stop (unat (lp_mem_offset st)) (unat (lp_mem_offset st')) rs \<and>
      unat (lp_mem_offset st') \<le> unat (lp_mem_offset st) + part_cost x"
    using up size by (simp add: in_order_def rs mem_start_def mem_stop_def part_cost_def)
qed

section \<open>Placing sections\<close>

abbreviation section_slice :: "OutputSectionId \<Rightarrow> 't list \<Rightarrow> 't list" where
  "section_slice s xs \<equiv> take (base_nat (Suc (unat s)) - base_nat (unat s)) (drop (base_nat (unat s)) xs)"

fun event_records :: "OrderEvent \<Rightarrow> layout_state \<Rightarrow> OutputRecordLayout list" where
  "event_records (Section s) st = section_slice s (lp_records_out st)"
| "event_records _ st = []"

fun event_cost :: "u64 list \<Rightarrow> OrderEvent \<Rightarrow> nat" where
  "event_cost sizes (Section s) = sum_list (map (\<lambda>n. unat n + 131072) (section_slice s sizes)) + 4096"
| "event_cost sizes (SegmentStart i) = 131072"
| "event_cost sizes _ = 0"

lemma section_range:
  assumes "wf_layout os args" and "output_info os s \<noteq> None"
  shows "base_nat (Suc (unat s)) < 2 ^ 32" "base_nat (unat s) \<le> base_nat (Suc (unat s))"
proof -
  have "unat s < length (os_section_infos os)"
    using assms(2) by (auto simp: output_info_def section_map_get_def get_def split: if_splits)
  then have "base_nat (Suc (unat s)) \<le> base_nat (length (os_section_infos os))" by (intro base_nat_mono) simp
  then show "base_nat (Suc (unat s)) < 2 ^ 32" using assms(1) by (simp add: wf_layout_def)
  show "base_nat (unat s) \<le> base_nat (Suc (unat s))" by (intro base_nat_mono) simp
qed

lemma part_map_range_section:
  assumes "base_nat (Suc (unat s)) < 2 ^ 32"
  shows "part_map_range m (part_id_range s) =
    (if base_nat (Suc (unat s)) \<le> length m then Some (section_slice s m) else None)"
  using base_nat_mono [of "unat s" "Suc (unat s)"]
  by (simp add: part_map_range_def get_range_def unat_part_id_range [OF assms])

lemma place_parts_frame:
  assumes "place_parts P os args s max_al xs st = Some (recs, st')"
  shows "length recs = length xs" and "lp_records_out st' = lp_records_out st" and "lp_pending_location st' = lp_pending_location st"
  using assms
  by (induction xs arbitrary: st recs)
    (auto split: bind_splits elim!: place_part_Some)

text \<open>The parts of a section with their sizes, in order.\<close>

definition section_parts :: "OutputSectionId \<Rightarrow> u64 list \<Rightarrow> (PartId \<times> u64) list" where
  "section_parts s sizes = map (\<lambda>(k, n). (part_id_offset (fst (part_id_range s)) k, n))
     (zip [0..<base_nat (Suc (unat s)) - base_nat (unat s)] (section_slice s sizes))"

lemma layout_section_Some:
  assumes "layout_section P os args sizes s st = Some st'" and "wf_layout os args"
  obtains info max_al st0 recs st1 records where "output_info os s = Some info"
    and "max_alignment os sizes (part_id_range s) = Some max_al"
    and "st0 = (case si_location info of Some l \<Rightarrow> st\<lparr>lp_mem_offset := l\<rparr> | None \<Rightarrow> st)"
    and "base_nat (Suc (unat s)) \<le> length (lp_records_out st)" and "base_nat (Suc (unat s)) \<le> length sizes"
    and "place_parts P os args s max_al (section_parts s sizes) st0 = Some (recs, st1)"
    and "length recs = base_nat (Suc (unat s)) - base_nat (unat s)"
    and "records = take (base_nat (unat s)) (lp_records_out st) @ recs @ drop (base_nat (Suc (unat s))) (lp_records_out st)"
    and "tier4_pad P os args s (lp_file_offset st0) (st1\<lparr>lp_records_out := records\<rparr>) = Some st'"
proof -
  from assms(1) obtain info where info: "output_info os s = Some info" by (auto simp: layout_section_def split: bind_splits)
  have range: "base_nat (Suc (unat s)) < 2 ^ 32" "base_nat (unat s) \<le> base_nat (Suc (unat s))"
    using section_range [OF assms(2), of s] info by simp_all
  define st0 where "st0 = (case si_location info of Some l \<Rightarrow> st\<lparr>lp_mem_offset := l\<rparr> | None \<Rightarrow> st)"
  have out0: "lp_records_out st0 = lp_records_out st" by (simp add: st0_def split: option.splits)
  note rg = part_map_range_section [OF range(1)]
  from assms(1) info obtain max_al recs st1 records where
    m: "max_alignment os sizes (part_id_range s) = Some max_al"
    and len: "base_nat (Suc (unat s)) \<le> length (lp_records_out st)" "base_nat (Suc (unat s)) \<le> length sizes"
    and pl: "place_parts P os args s max_al (section_parts s sizes) st0 = Some (recs, st1)"
    and cp: "copy_at (lp_records_out st1) (unat (fst (part_id_range s))) recs = Some records"
    and pad: "tier4_pad P os args s (lp_file_offset st0) (st1\<lparr>lp_records_out := records\<rparr>) = Some st'"
    by (auto simp: layout_section_def Let_def rg out0 section_parts_def simp flip: st0_def
      split: bind_splits if_splits)
  note frame = place_parts_frame [OF pl]
  have n: "length recs = base_nat (Suc (unat s)) - base_nat (unat s)"
    using frame(1) len by (simp add: section_parts_def)
  have "records = take (base_nat (unat s)) (lp_records_out st) @ recs @ drop (base_nat (Suc (unat s))) (lp_records_out st)"
    using cp n range(2) by (auto simp: copy_at_def unat_part_id_range [OF range(1)] frame(2) out0 split: if_splits)
  with that [OF info m st0_def len pl n _ pad] show thesis by blast
qed

lemma tier4_pad_Some:
  assumes "tier4_pad P os args s start st = Some st'"
  shows "lp_records_out st' = lp_records_out st" and "lp_pending_location st' = lp_pending_location st"
    and "lp_mem_offset st' - lp_mem_offset st = lp_file_offset st' - lp_file_offset st"
    and "\<not> mem_alloc P os s \<or> la_should_output_partial_object args \<Longrightarrow> st' = st"
    and "unat (lp_file_offset st) + 4096 < 2 ^ 64 \<Longrightarrow>
      unat (lp_file_offset st) \<le> unat (lp_file_offset st') \<and> unat (lp_file_offset st') < unat (lp_file_offset st) + 4096"
proof -
  let ?padded = "next_multiple_of (lp_file_offset st) TIER4_PAD"
  consider "st' = st"
    | "st' = st\<lparr>lp_file_offset := ?padded, lp_mem_offset := lp_mem_offset st + (?padded - lp_file_offset st)\<rparr>"
      "mem_alloc P os s" "\<not> la_should_output_partial_object args"
    using assms by (auto simp: tier4_pad_def Let_def mem_alloc_def split: if_splits bind_splits)
  note cs = this
  show "lp_records_out st' = lp_records_out st" and "lp_pending_location st' = lp_pending_location st"
    and "lp_mem_offset st' - lp_mem_offset st = lp_file_offset st' - lp_file_offset st"
    and "\<not> mem_alloc P os s \<or> la_should_output_partial_object args \<Longrightarrow> st' = st"
    by (cases rule: cs; simp)+
  show "unat (lp_file_offset st) \<le> unat (lp_file_offset st') \<and> unat (lp_file_offset st') < unat (lp_file_offset st) + 4096"
    if "unat (lp_file_offset st) + 4096 < 2 ^ 64"
    using tier4_le [OF that] by (cases rule: cs) simp_all
qed

lemma tier4_pad_mem:
  assumes "tier4_pad P os args s start st = Some st'" and "unat (lp_mem_offset st) + 4096 < 2 ^ 64"
  shows "unat (lp_mem_offset st) \<le> unat (lp_mem_offset st') \<and> unat (lp_mem_offset st') < unat (lp_mem_offset st) + 4096"
proof -
  have "unat (lp_file_offset st' - lp_file_offset st) < 4096"
  proof (cases "lp_file_offset st' = lp_file_offset st")
    case False
    then have "lp_file_offset st' = align_up (Alignment 12) (lp_file_offset st)"
      using assms(1)
      by (auto simp: tier4_pad_def Let_def align_up_def TIER4_PAD_def alignment_value_def split: if_splits bind_splits)
    then show ?thesis using align_up_slack [of "Alignment 12" "lp_file_offset st"] by (simp add: exponent_le_iff)
  qed simp
  moreover have "lp_mem_offset st' = lp_mem_offset st + (lp_file_offset st' - lp_file_offset st)"
    using tier4_pad_Some(3) [OF assms(1)] by (simp add: diff_eq_eq)
  ultimately show ?thesis using assms(2) by (simp add: unat_add_no_overflow)
qed

definition als_wf :: "(ProgramSegmentId \<Rightarrow> Alignment option) \<Rightarrow> bool" where
  "als_wf als \<longleftrightarrow> (\<forall>i a. als i = Some a \<longrightarrow> wf_alignment a)"

definition segment_alignment :: "LayoutArgs \<Rightarrow> (ProgramSegmentId \<Rightarrow> Alignment option) \<Rightarrow> ProgramSegmentId \<Rightarrow> Alignment" where
  "segment_alignment args als i = (case als i of Some a \<Rightarrow> a | None \<Rightarrow> la_loadable_segment_alignment args)"

lemma segment_alignment_wf: "als_wf als \<Longrightarrow> wf_layout os args \<Longrightarrow> wf_alignment (segment_alignment args als i)"
  by (auto simp: segment_alignment_def als_wf_def wf_layout_def split: option.splits)

definition event_step ::
    "('a, 'd) Platform \<Rightarrow> 'a OutputSections \<Rightarrow> LayoutArgs \<Rightarrow> 'd list \<Rightarrow> (ProgramSegmentId \<Rightarrow> Alignment option) \<Rightarrow> u64 list \<Rightarrow>
      OrderEvent \<Rightarrow> layout_state \<Rightarrow> (OutputRecordLayout list \<times> layout_state) option" where
  "event_step P os args segs als sizes e st =
     map_option (\<lambda>st'. (event_records e st', st')) (layout_event P os args segs als sizes e st)"

lemma section_parts_cost:
  assumes "base_nat (Suc (unat s)) \<le> length sizes"
  shows "sum_list (map part_cost (section_parts s sizes)) + 4096 = event_cost sizes (Section s)"
proof -
  have "map part_cost (section_parts s sizes) = map (\<lambda>n. unat n + 131072) (section_slice s sizes)"
    using assms by (intro nth_equalityI) (auto simp: section_parts_def part_cost_def)
  then show ?thesis by simp
qed

lemma event_records_section:
  assumes "lp_records_out st = take (base_nat (unat s)) xs @ recs @ drop (base_nat (Suc (unat s))) xs"
    and "length recs = base_nat (Suc (unat s)) - base_nat (unat s)" and "base_nat (Suc (unat s)) \<le> length xs"
  shows "event_records (Section s) st = recs"
  using assms base_nat_mono [of "unat s" "Suc (unat s)"] by simp

interpretation file_events: bump_allocator "event_step P os args segs als sizes" "\<lambda>_. wf_layout os args \<and> als_wf als" "\<lambda>_. True"
    "\<lambda>st. unat (lp_file_offset st)" file_start file_stop "event_cost sizes" "2 ^ 64"
  for P :: "('a, 'd) Platform" and os args segs als sizes
proof
  fix e st rs st'
  assume st: "event_step P os args segs als sizes e st = Some (rs, st')" and ok: "wf_layout os args \<and> als_wf als"
    and b: "unat (lp_file_offset st) + event_cost sizes e < 2 ^ 64"
  show "True \<and> in_order file_start file_stop (unat (lp_file_offset st)) (unat (lp_file_offset st')) rs \<and>
      unat (lp_file_offset st') \<le> unat (lp_file_offset st) + event_cost sizes e"
  proof (cases e)
    case (SegmentStart i)
    let ?a = "segment_alignment args als i"
    have al: "wf_alignment ?a" using ok by (blast intro: segment_alignment_wf)
    have "unat (lp_file_offset st) + 131072 < 2 ^ 64" using b SegmentStart by simp
    moreover have "lp_file_offset st' = lp_file_offset st \<or> lp_file_offset st' = align_up ?a (lp_file_offset st) \<or>
        (\<exists>l. lp_file_offset st' = align_modulo ?a l (lp_file_offset st))" and "rs = []"
      using st SegmentStart
      by (auto simp: event_step_def layout_segment_start_def segment_alignment_def Let_def split: bind_splits if_splits option.splits)
    ultimately show ?thesis
      using align_up_le [OF al, of "lp_file_offset st"] align_modulo_le [OF al, of "lp_file_offset st"]
      by (auto simp: SegmentStart intro: less_imp_le)
  next
    case (Section s)
    from st Section have l: "layout_section P os args sizes s st = Some st'" and rs: "rs = event_records (Section s) st'"
      by (auto simp: event_step_def)
    from ok have wf: "wf_layout os args" ..
    from l wf show ?thesis
    proof (cases rule: layout_section_Some)
      case (1 info max_al st0 recs st1 records)
      have off: "lp_file_offset st0 = lp_file_offset st" by (simp add: 1(3) split: option.splits)
      have c: "sum_list (map part_cost (section_parts s sizes)) + 4096 = event_cost sizes e"
        using section_parts_cost [OF 1(5)] Section by simp
      have run: "in_order file_start file_stop (unat (lp_file_offset st)) (unat (lp_file_offset st1)) recs \<and>
          unat (lp_file_offset st1) \<le> unat (lp_file_offset st) + sum_list (map part_cost (section_parts s sizes))"
        using file_parts.run_in_order [of P os args s max_al "section_parts s sizes" st0 recs st1] 1(6) ok b c
        by (simp add: run_file_step off)
      have "unat (lp_file_offset st1) + 4096 < 2 ^ 64" using run b c by linarith
      with tier4_pad_Some(5) [OF 1(9)]
      have pad: "unat (lp_file_offset st1) \<le> unat (lp_file_offset st')" "unat (lp_file_offset st') < unat (lp_file_offset st1) + 4096"
        by simp_all
      have "rs = recs"
        using tier4_pad_Some(1) [OF 1(9)] 1(4,7,8) unfolding rs by (intro event_records_section) simp_all
      with run pad c show ?thesis by (auto intro: in_order_mono)
    qed
  qed (use st in \<open>auto simp: event_step_def\<close>)
qed


text \<open>In memory, the sections without an address of their own, those that are not allocated left out.\<close>

definition mem_event_step ::
    "('a, 'd) Platform \<Rightarrow> 'a OutputSections \<Rightarrow> LayoutArgs \<Rightarrow> 'd list \<Rightarrow> (ProgramSegmentId \<Rightarrow> Alignment option) \<Rightarrow> u64 list \<Rightarrow>
      OrderEvent \<Rightarrow> layout_state \<Rightarrow> (OutputRecordLayout list \<times> layout_state) option" where
  "mem_event_step P os args segs als sizes e st =
     map_option (\<lambda>st'. (case e of Section s \<Rightarrow> if mem_alloc P os s then event_records e st' else [] | _ \<Rightarrow> [], st'))
       (layout_event P os args segs als sizes e st)"

fun no_location :: "'a OutputSections \<Rightarrow> OrderEvent \<Rightarrow> bool" where
  "no_location os (SetLocation _) \<longleftrightarrow> False"
| "no_location os (Section s) \<longleftrightarrow> map_option si_location (output_info os s) = Some None"
| "no_location os _ \<longleftrightarrow> True"

lemma place_parts_mem:
  assumes "place_parts P os args s max_al xs st = Some (recs, st')" and "\<not> mem_alloc P os s"
  shows "lp_mem_offset st' = lp_mem_offset st"
  using assms
  by (induction xs arbitrary: st recs) (auto simp: mem_alloc_def split: bind_splits elim!: place_part_Some)

interpretation mem_events: bump_allocator "mem_event_step P os args segs als sizes"
    "\<lambda>e. wf_layout os args \<and> als_wf als \<and> \<not> la_should_output_partial_object args \<and> no_location os e"
    "\<lambda>st. lp_pending_location st = None" "\<lambda>st. unat (lp_mem_offset st)" mem_start mem_stop "event_cost sizes" "2 ^ 64"
  for P :: "('a, 'd) Platform" and os args segs als sizes
proof
  fix e st rs st'
  assume st: "mem_event_step P os args segs als sizes e st = Some (rs, st')"
    and ok: "wf_layout os args \<and> als_wf als \<and> \<not> la_should_output_partial_object args \<and> no_location os e"
    and pend: "lp_pending_location st = None" and b: "unat (lp_mem_offset st) + event_cost sizes e < 2 ^ 64"
  have wf: "wf_layout os args" using ok by blast
  show "lp_pending_location st' = None \<and> in_order mem_start mem_stop (unat (lp_mem_offset st)) (unat (lp_mem_offset st')) rs \<and>
      unat (lp_mem_offset st') \<le> unat (lp_mem_offset st) + event_cost sizes e"
  proof (cases e)
    case (SegmentStart i)
    let ?a = "segment_alignment args als i"
    have al: "wf_alignment ?a" using ok by (blast intro: segment_alignment_wf)
    have "unat (lp_mem_offset st) + 131072 < 2 ^ 64" using b SegmentStart by simp
    moreover have "lp_mem_offset st' = lp_mem_offset st \<or> (\<exists>l. lp_mem_offset st' = align_modulo ?a l (lp_mem_offset st))"
      and "rs = []" and "lp_pending_location st' = None"
      using st SegmentStart pend
      by (auto simp: mem_event_step_def layout_segment_start_def segment_alignment_def Let_def split: bind_splits if_splits option.splits)
    ultimately show ?thesis
      using align_modulo_le [OF al, of "lp_mem_offset st"] by (auto simp: SegmentStart intro: less_imp_le)
  next
    case (Section s)
    from st Section have l: "layout_section P os args sizes s st = Some st'"
      and rs: "rs = (if mem_alloc P os s then event_records (Section s) st' else [])"
      by (auto simp: mem_event_step_def)
    from l wf show ?thesis
    proof (cases rule: layout_section_Some)
      case (1 info max_al st0 recs st1 records)
      have st0: "st0 = st" using ok 1(1,3) Section by simp
      have pend': "lp_pending_location st' = None"
        using tier4_pad_Some(2) [OF 1(9)] place_parts_frame(3) [OF 1(6)] pend by (simp add: st0)
      have c: "sum_list (map part_cost (section_parts s sizes)) + 4096 = event_cost sizes e"
        using section_parts_cost [OF 1(5)] Section by simp
      show ?thesis
      proof (cases "mem_alloc P os s")
        case False
        then have "lp_mem_offset st' = lp_mem_offset st"
          using tier4_pad_Some(4) [OF 1(9)] place_parts_mem [OF 1(6)] by (simp add: st0)
        then show ?thesis using pend' False by (simp add: rs)
      next
        case True
        have run: "in_order mem_start mem_stop (unat (lp_mem_offset st)) (unat (lp_mem_offset st1)) recs \<and>
            unat (lp_mem_offset st1) \<le> unat (lp_mem_offset st) + sum_list (map part_cost (section_parts s sizes))"
          using mem_parts.run_in_order [of P os args s max_al "section_parts s sizes" st recs st1] 1(6) ok b c True
          by (simp add: run_file_step st0)
        have "unat (lp_mem_offset st1) + 4096 < 2 ^ 64" using run b c by linarith
        then have pad: "unat (lp_mem_offset st1) \<le> unat (lp_mem_offset st') \<and> unat (lp_mem_offset st') < unat (lp_mem_offset st1) + 4096"
          using tier4_pad_mem [OF 1(9)] by simp
        have "rs = recs"
          using tier4_pad_Some(1) [OF 1(9)] 1(4,7,8) True by (simp only: rs if_True, intro event_records_section) simp_all
        with run pad c pend' show ?thesis by (auto intro: in_order_mono)
      qed
    qed
  qed (use st ok pend in \<open>auto simp: mem_event_step_def\<close>)
qed

section \<open>The records at the end\<close>

fun section_ids :: "OrderEvent list \<Rightarrow> OutputSectionId list" where
  "section_ids [] = []"
| "section_ids (Section s # es) = s # section_ids es"
| "section_ids (_ # es) = section_ids es"

definition order_parts :: "OrderEvent list \<Rightarrow> nat list" where
  "order_parts events = concat (map (\<lambda>s. [base_nat (unat s)..<base_nat (Suc (unat s))]) (section_ids events))"

lemma section_slice_other:
  assumes "s \<noteq> t" and "length recs = base_nat (Suc (unat t)) - base_nat (unat t)" and "base_nat (Suc (unat t)) \<le> length xs"
  shows "section_slice s (take (base_nat (unat t)) xs @ recs @ drop (base_nat (Suc (unat t))) xs) = section_slice s xs"
proof (rule nth_equalityI)
  let ?ys = "take (base_nat (unat t)) xs @ recs @ drop (base_nat (Suc (unat t))) xs"
  have le: "base_nat (unat t) \<le> base_nat (Suc (unat t))" "base_nat (unat s) \<le> base_nat (Suc (unat s))"
    by (simp_all add: base_nat_mono)
  have len: "length ?ys = length xs" using assms(2,3) le by simp
  then show "length (section_slice s ?ys) = length (section_slice s xs)" by (simp only: length_take length_drop)
  fix i assume "i < length (section_slice s ?ys)"
  then have i: "base_nat (unat s) + i < length xs" "base_nat (unat s) + i < base_nat (Suc (unat s))"
    by (auto simp only: length_take length_drop len min_less_iff_conj less_diff_conv add.commute)
  have "base_nat (Suc (unat s)) \<le> base_nat (unat t) \<or> base_nat (Suc (unat t)) \<le> base_nat (unat s)"
    using assms(1) by (metis Suc_leI base_nat_mono linorder_neqE_nat word_unat_eq_iff)
  then have "?ys ! (base_nat (unat s) + i) = xs ! (base_nat (unat s) + i)"
    using i le assms(2,3) by (auto simp: nth_append)
  moreover have "section_slice s zs ! i = zs ! (base_nat (unat s) + i)" if "length zs = length xs" for zs :: "'a list"
    using i that by simp
  ultimately show "section_slice s ?ys ! i = section_slice s xs ! i"
    using len by (metis (no_types, lifting))
qed

lemma layout_event_frame:
  assumes "layout_event P os args segs als sizes e st = Some st'" and "wf_layout os args"
  shows "length (lp_records_out st') = length (lp_records_out st)"
    and "e \<noteq> Section s \<Longrightarrow> section_slice s (lp_records_out st') = section_slice s (lp_records_out st)"
proof -
  have "length (lp_records_out st') = length (lp_records_out st) \<and>
      (e \<noteq> Section s \<longrightarrow> section_slice s (lp_records_out st') = section_slice s (lp_records_out st))"
  proof (cases e)
    case (Section t)
    with assms(1) have "layout_section P os args sizes t st = Some st'" by simp
    from this assms(2) show ?thesis
    proof (cases rule: layout_section_Some)
      case (1 info max_al st0 recs st1 records)
      then have "lp_records_out st' = take (base_nat (unat t)) (lp_records_out st) @ recs @ drop (base_nat (Suc (unat t))) (lp_records_out st)"
        using tier4_pad_Some(1) [OF 1(9)] by simp
      then show ?thesis
        using 1(4,7) Section base_nat_mono [of "unat t" "Suc (unat t)"] section_slice_other [of s t recs "lp_records_out st"]
        by auto
    qed
  next
    case (SegmentStart i)
    with assms(1) have "lp_records_out st' = lp_records_out st"
      by (auto simp: layout_segment_start_def Let_def split: bind_splits option.splits if_splits)
    then show ?thesis by simp
  qed (use assms in auto)
  then show "length (lp_records_out st') = length (lp_records_out st)"
    and "e \<noteq> Section s \<Longrightarrow> section_slice s (lp_records_out st') = section_slice s (lp_records_out st)" by blast+
qed

lemma layout_events_frame:
  assumes "layout_events P os args segs als sizes es st = Some st'" and "wf_layout os args"
  shows "length (lp_records_out st') = length (lp_records_out st)"
    and "s \<notin> set (section_ids es) \<Longrightarrow> section_slice s (lp_records_out st') = section_slice s (lp_records_out st)"
proof -
  have "length (lp_records_out st') = length (lp_records_out st) \<and>
      (s \<notin> set (section_ids es) \<longrightarrow> section_slice s (lp_records_out st') = section_slice s (lp_records_out st))"
    using assms(1)
  proof (induction es arbitrary: st)
    case (Cons e es)
    then obtain st1 where st1: "layout_event P os args segs als sizes e st = Some st1"
      and rest: "layout_events P os args segs als sizes es st1 = Some st'" by (auto split: bind_splits)
    have "s \<notin> set (section_ids (e # es)) \<Longrightarrow> e \<noteq> Section s \<and> s \<notin> set (section_ids es)" by (cases e) auto
    then show ?case using Cons.IH [OF rest] layout_event_frame(1) [OF st1 assms(2)] layout_event_frame(2) [OF st1 assms(2), of s] by auto
  qed simp
  then show "length (lp_records_out st') = length (lp_records_out st)"
    and "s \<notin> set (section_ids es) \<Longrightarrow> section_slice s (lp_records_out st') = section_slice s (lp_records_out st)" by blast+
qed

text \<open>With every section once in the order, the records at the end are those of each step.\<close>

lemma run_event_step:
  assumes "layout_events P os args segs als sizes es st = Some st'" and "wf_layout os args" and "distinct (section_ids es)"
  shows "run_steps (event_step P os args segs als sizes) es st = Some (concat (map (\<lambda>e. event_records e st') es), st')"
    and "run_steps (mem_event_step P os args segs als sizes) es st =
      Some (concat (map (\<lambda>s. if mem_alloc P os s then section_slice s (lp_records_out st') else []) (section_ids es)), st')"
proof -
  have "run_steps (event_step P os args segs als sizes) es st = Some (concat (map (\<lambda>e. event_records e st') es), st') \<and>
      run_steps (mem_event_step P os args segs als sizes) es st =
      Some (concat (map (\<lambda>s. if mem_alloc P os s then section_slice s (lp_records_out st') else []) (section_ids es)), st')"
    using assms(1,3)
  proof (induction es arbitrary: st)
    case (Cons e es)
    then obtain st1 where st1: "layout_event P os args segs als sizes e st = Some st1"
      and rest: "layout_events P os args segs als sizes es st1 = Some st'" by (auto split: bind_splits)
    have IH: "run_steps (event_step P os args segs als sizes) es st1 = Some (concat (map (\<lambda>e. event_records e st') es), st') \<and>
      run_steps (mem_event_step P os args segs als sizes) es st1 =
      Some (concat (map (\<lambda>s. if mem_alloc P os s then section_slice s (lp_records_out st') else []) (section_ids es)), st')"
      using Cons.prems(2) by (intro Cons.IH [OF rest]) (cases e; simp)
    have same: "event_records e st1 = event_records e st'"
    proof (cases e)
      case (Section s)
      then show ?thesis using Cons.prems(2) layout_events_frame(2) [OF rest assms(2), of s] by simp
    qed simp_all
    have "event_step P os args segs als sizes e st = Some (event_records e st', st1)"
      using st1 same by (simp add: event_step_def)
    moreover have "mem_event_step P os args segs als sizes e st =
        Some (case e of Section s \<Rightarrow> if mem_alloc P os s then event_records e st' else [] | _ \<Rightarrow> [], st1)"
      using st1 same by (cases e) (simp_all add: mem_event_step_def)
    ultimately show ?case using IH by (cases e) simp_all
  qed simp
  then show "run_steps (event_step P os args segs als sizes) es st = Some (concat (map (\<lambda>e. event_records e st') es), st')"
    and "run_steps (mem_event_step P os args segs als sizes) es st =
      Some (concat (map (\<lambda>s. if mem_alloc P os s then section_slice s (lp_records_out st') else []) (section_ids es)), st')"
    by blast+
qed

lemma section_min_alignment_wf:
  "section_min_alignment os s = Some a \<Longrightarrow> wf_layout os args \<Longrightarrow> wf_alignment a"
  by (auto simp: section_min_alignment_def output_info_def section_map_get_def get_def wf_layout_def split: if_splits)

lemma max_alignment_wf:
  assumes "max_alignment os sizes r = Some m" and "wf_layout os args"
  shows "wf_alignment m"
proof -
  obtain a b where m: "m = max a b" and "section_min_alignment os (output_section_id (fst r)) = Some b"
    and "a = MIN_alignment \<or> (\<exists>p. part_alignment os p = Some a)"
    using assms(1) by (auto simp: max_alignment_def split: bind_splits option.splits)
  then have "wf_alignment a" "wf_alignment b"
    using part_alignment_wf [OF assms(2)] section_min_alignment_wf [OF _ assms(2)]
    by (auto simp: MIN_alignment_def exponent_le_iff)
  then show ?thesis by (simp add: m max_def)
qed

lemma compute_segment_alignments_from_wf:
  assumes "compute_segment_alignments_from P os args segs sizes es (als, active) = Some als'"
    and "wf_layout os args" and "als_wf als"
  shows "als_wf als'"
  using assms(1,3)
proof (induction es arbitrary: als active)
  case (Cons e es)
  have l: "wf_alignment (la_loadable_segment_alignment args)" using assms(2) by (simp add: wf_layout_def)
  show ?case
  proof (cases e)
    case (SegmentStart i)
    with Cons.prems obtain als1 active1 where "compute_segment_alignments_from P os args segs sizes es (als1, active1) = Some als'"
      and "als1 = als \<or> als1 = als(i \<mapsto> la_loadable_segment_alignment args)"
      by (auto split: bind_splits if_splits option.splits)
    moreover from this(2) have "als_wf als1" using Cons.prems(2) l by (auto simp: als_wf_def split: if_splits)
    ultimately show ?thesis by (blast intro: Cons.IH)
  next
    case (Section s)
    with Cons.prems obtain m where m: "max_alignment os sizes (part_id_range s) = Some m"
      and rest: "compute_segment_alignments_from P os args segs sizes es
         (\<lambda>i. if i \<in> set active then map_option (\<lambda>a. max a m) (als i) else als i, active) = Some als'"
      by (auto split: bind_splits)
    have "als_wf (\<lambda>i. if i \<in> set active then map_option (\<lambda>a. max a m) (als i) else als i)"
      using Cons.prems(2) max_alignment_wf [OF m assms(2)] by (auto simp: als_wf_def max_def)
    then show ?thesis by (rule Cons.IH [OF rest])
  qed (use Cons in auto)
qed simp

lemma layout_section_parts_Some:
  assumes "layout_section_parts P os args segs sizes events = Some recs" and "wf_layout os args"
  obtains als st where "compute_segment_alignments P os args segs sizes events = Some als" "als_wf als"
    and "layout_events P os args segs als sizes events (initial_layout_state os) = Some st" and "lp_records_out st = recs"
proof -
  from assms(1) obtain als st where a: "compute_segment_alignments P os args segs sizes events = Some als"
    and s: "layout_events P os args segs als sizes events (initial_layout_state os) = Some st" and r: "lp_records_out st = recs"
    by (auto simp: layout_section_parts_def split: bind_splits)
  have "als_wf als"
    using a unfolding compute_segment_alignments_def
    by (rule compute_segment_alignments_from_wf [OF _ assms(2)]) (simp add: als_wf_def)
  with that a s r show thesis by blast
qed

lemma placed_sections:
  assumes "layout_events P os args segs als sizes es st = Some st'" and "wf_layout os args" and "s \<in> set (section_ids es)"
  shows "base_nat (Suc (unat s)) \<le> length (lp_records_out st)"
  using assms(1,3)
proof (induction es arbitrary: st)
  case (Cons e es)
  then obtain st1 where st1: "layout_event P os args segs als sizes e st = Some st1"
    and rest: "layout_events P os args segs als sizes es st1 = Some st'" by (auto split: bind_splits)
  show ?case
  proof (cases "e = Section s")
    case True
    with st1 have "layout_section P os args sizes s st = Some st1" by simp
    from this assms(2) show ?thesis by (cases rule: layout_section_Some)
  next
    case False
    then have "s \<in> set (section_ids es)" using Cons.prems(2) by (cases e) auto
    then show ?thesis using Cons.IH [OF rest] layout_event_frame(1) [OF st1 assms(2)] by simp
  qed
qed simp

lemma section_slice_map:
  "base_nat (Suc (unat s)) \<le> length xs \<Longrightarrow> section_slice s xs = map ((!) xs) [base_nat (unat s)..<base_nat (Suc (unat s))]"
  using base_nat_mono [of "unat s" "Suc (unat s)"] by (intro nth_equalityI) auto

definition alloc_parts :: "('a, 'd) Platform \<Rightarrow> 'a OutputSections \<Rightarrow> OrderEvent list \<Rightarrow> nat list" where
  "alloc_parts P os events =
     concat (map (\<lambda>s. [base_nat (unat s)..<base_nat (Suc (unat s))]) (filter (mem_alloc P os) (section_ids events)))"

lemma sections_as_parts:
  assumes "\<forall>s\<in>set ss. base_nat (Suc (unat s)) \<le> length xs"
  shows "concat (map (\<lambda>s. section_slice s xs) ss) =
    map ((!) xs) (concat (map (\<lambda>s. [base_nat (unat s)..<base_nat (Suc (unat s))]) ss))"
  using assms by (induction ss) (simp_all add: section_slice_map del: upt_Suc)

text \<open>
  (C11) Parts do not overlap. If the base address and everything that is placed, padding included,
  fit into 64 bits, and no section occurs twice in the order, then the parts follow one another in
  the file in the order of the sections; and unless an address is set by hand or the output is
  relocatable, so do the parts of the allocated sections in memory.
\<close>

theorem parts_do_not_overlap:
  assumes "layout_section_parts P os args segs sizes events = Some recs" and "wf_layout os args"
    and "distinct (section_ids events)"
    and "unat (os_base_address os) + sum_list (map (event_cost sizes) events) < 2 ^ 64"
  shows "sorted_wrt (\<lambda>p q. file_stop (recs ! p) \<le> file_start (recs ! q)) (order_parts events) \<and>
    (\<not> la_should_output_partial_object args \<and> (\<forall>e\<in>set events. no_location os e) \<longrightarrow>
      sorted_wrt (\<lambda>p q. mem_stop (recs ! p) \<le> mem_start (recs ! q)) (alloc_parts P os events))"
proof (intro conjI impI)
  obtain als st where als: "als_wf als"
    and ev: "layout_events P os args segs als sizes events (initial_layout_state os) = Some st" and recs: "lp_records_out st = recs"
    using assms(1,2) by (rule layout_section_parts_Some)
  have len: "\<forall>s\<in>set (section_ids events). base_nat (Suc (unat s)) \<le> length recs"
    using placed_sections [OF ev assms(2)] layout_events_frame(1) [OF ev assms(2)] recs by simp
  have recs': "concat (map (\<lambda>e. event_records e st) es) = concat (map (\<lambda>s. section_slice s recs) (section_ids es))" for es
    by (induction es rule: section_ids.induct) (simp_all add: recs)
  have "sum_list (map (event_cost sizes) events) < 2 ^ 64" using assms(4) by linarith
  then have "in_order file_start file_stop 0 (unat (lp_file_offset st)) (concat (map (\<lambda>e. event_records e st) events))"
    using file_events.run_in_order [OF run_event_step(1) [OF ev assms(2,3)]] assms(2) als
    by (simp add: initial_layout_state_def)
  then show "sorted_wrt (\<lambda>p q. file_stop (recs ! p) \<le> file_start (recs ! q)) (order_parts events)"
    unfolding in_order_def recs' sections_as_parts [OF len] by (simp add: sorted_wrt_map order_parts_def)
  assume c: "\<not> la_should_output_partial_object args \<and> (\<forall>e\<in>set events. no_location os e)"
  have filt: "concat (map (\<lambda>s. if mem_alloc P os s then section_slice s recs else []) ss) =
      concat (map (\<lambda>s. section_slice s recs) (filter (mem_alloc P os) ss))" for ss
    by (induction ss) auto
  have "in_order mem_start mem_stop (unat (os_base_address os)) (unat (lp_mem_offset st))
      (concat (map (\<lambda>s. if mem_alloc P os s then section_slice s recs else []) (section_ids events)))"
    using mem_events.run_in_order [OF run_event_step(2) [OF ev assms(2,3)], unfolded recs] assms(2,4) als c
    by (simp add: initial_layout_state_def)
  then show "sorted_wrt (\<lambda>p q. mem_stop (recs ! p) \<le> mem_start (recs ! q)) (alloc_parts P os events)"
    unfolding in_order_def filt using sections_as_parts [of "filter (mem_alloc P os) (section_ids events)" recs] len
    by (simp add: sorted_wrt_map alloc_parts_def)
qed


section \<open>Alignment of the parts\<close>

text \<open>The alignment of a part with content is not cut: the parts of a section are in descending order
  of alignment, and the first part with content has the largest one.\<close>

lemma position_Some:
  assumes "position Q xs = Some k"
  shows "k < length xs" and "Q (xs ! k)" and "\<forall>j<k. \<not> Q (xs ! j)"
  using assms by (auto simp: position_def find_Some_iff)

lemma position_exists: "j < length xs \<Longrightarrow> Q (xs ! j) \<Longrightarrow> \<exists>k. position Q xs = Some k \<and> k \<le> j"
  using find_None_iff [of "\<lambda>i. Q (xs ! i)" "[0..<length xs]"]
  by (cases "position Q xs") (auto simp: position_def dest: position_Some(3) [unfolded position_def]
      intro: leI)

lemma unat_part_id_offset:
  assumes "base_nat (Suc (unat s)) < 2 ^ 32" and "k < base_nat (Suc (unat s)) - base_nat (unat s)"
  shows "unat (part_id_offset (fst (part_id_range s)) k) = base_nat (unat s) + k"
    and "output_section_id (part_id_offset (fst (part_id_range s)) k) = s"
proof -
  have "unat (of_nat k :: u32) = k" using assms by (simp add: unat_of_nat)
  then show u: "unat (part_id_offset (fst (part_id_range s)) k) = base_nat (unat s) + k"
    using assms unat_part_id_range(1) [OF assms(1)] by (simp add: part_id_offset_def unat_add_no_overflow)
  show "output_section_id (part_id_offset (fst (part_id_range s)) k) = s"
    using assms u section_nat_iff [of "base_nat (unat s) + k" "unat s"]
    by (simp add: word_unat_eq_iff unat_output_section_id)
qed

lemma section_min_le_max_alignment:
  assumes "max_alignment os sizes (part_id_range s) = Some m" and "base_nat (Suc (unat s)) < 2 ^ 32"
    and "section_min_alignment os s = Some a"
  shows "a \<le> m"
proof -
  have "0 < base_nat (Suc (unat s)) - base_nat (unat s)" by (simp add: base_nat_Suc)
  then have "output_section_id (fst (part_id_range s)) = s"
    using unat_part_id_offset(2) [OF assms(2), of 0] by (simp add: part_id_offset_def)
  then show ?thesis using assms(1,3) by (auto simp: max_alignment_def split: bind_splits)
qed

lemma part_alignment_le_max:
  assumes "max_alignment os sizes (part_id_range s) = Some m" and rng: "base_nat (Suc (unat s)) < 2 ^ 32"
    and j: "j < base_nat (Suc (unat s)) - base_nat (unat s)" and "sizes ! (base_nat (unat s) + j) \<noteq> 0"
    and pa: "part_alignment os (part_id_offset (fst (part_id_range s)) j) = Some a"
  shows "a \<le> m"
proof (cases "unat s < 38")
  case True
  then have "j = 0" using j by (simp add: base_nat_Suc)
  moreover have "base_nat (unat s) < 38" using True by (simp add: base_nat_def)
  ultimately have "section_min_alignment os s = Some a"
    using pa unat_part_id_offset [OF rng j]
    by (simp add: part_alignment_def NUM_SINGLE_PART_SECTIONS_def word_le_nat_alt)
  then show ?thesis by (rule section_min_le_max_alignment [OF assms(1) rng])
next
  case False
  from assms(1) have len: "base_nat (Suc (unat s)) \<le> length sizes"
    by (auto simp: max_alignment_def part_map_range_section [OF rng] split: bind_splits if_splits)
  have "section_slice s sizes ! j \<noteq> 0" and "j < length (section_slice s sizes)" using assms(3,4) len by simp_all
  then obtain k where k: "position (\<lambda>p. p \<noteq> 0) (section_slice s sizes) = Some k" "k \<le> j"
    using position_exists [of j "section_slice s sizes" "\<lambda>p. p \<noteq> 0"] by blast
  then have k': "k < base_nat (Suc (unat s)) - base_nat (unat s)" using j by simp
  have idx: "(base_nat (unat s) + i - 38) mod 17 = i" if "i < base_nat (Suc (unat s)) - base_nat (unat s)" for i
  proof -
    have "base_nat (unat s) + i - 38 = i + (unat s - 38) * 17" using False by (simp add: base_nat_def)
    moreover have "i < 17" using that False by (simp add: base_nat_Suc)
    ultimately show ?thesis by simp
  qed
  have reg: "38 \<le> unat (part_id_offset (fst (part_id_range s)) i)" if "i < base_nat (Suc (unat s)) - base_nat (unat s)" for i
    using unat_part_id_offset(1) [OF rng that] False by (simp add: base_nat_def)
  obtain b where b: "part_alignment os (part_id_offset (fst (part_id_range s)) k) = Some b" "unat (exponent b) = 16 - k"
    using part_alignment_regular [OF reg [OF k'], of os] unat_part_id_offset(1) [OF rng k'] idx [OF k'] by auto
  have "unat (exponent a) = 16 - j"
    using part_alignment_regular [OF reg [OF j], of os] unat_part_id_offset(1) [OF rng j] idx [OF j] pa by auto
  then have "a \<le> b" using b(2) k(2) by (simp add: less_eq_Alignment_def word_le_nat_alt)
  moreover have "b \<le> m"
    using assms(1) b(1) k(1) by (auto simp: max_alignment_def part_map_range_section [OF rng] split: bind_splits if_splits)
  ultimately show ?thesis by (rule order_trans)
qed

definition aligned_record :: "OutputRecordLayout \<Rightarrow> bool" where
  "aligned_record r \<longleftrightarrow> align_nat (rl_alignment r) dvd unat (rl_file_offset r) \<and> align_nat (rl_alignment r) dvd unat (rl_mem_offset r)"

lemma place_parts_aligned:
  assumes "place_parts P os args s max_al xs st = Some (recs, st')" and "wf_layout os args"
  shows "list_all2 (\<lambda>x r. aligned_record r \<and> (\<exists>pa. part_alignment os (fst x) = Some pa \<and> rl_alignment r = min pa max_al)) xs recs"
  using assms(1)
proof (induction xs arbitrary: st recs)
  case (Cons x xs)
  from Cons.prems obtain r st1 rs where r: "place_part P os args s max_al (fst x) (snd x) st = Some (r, st1)"
    and rest: "place_parts P os args s max_al xs st1 = Some (rs, st')" and recs: "recs = r # rs"
    by (cases x) (auto split: bind_splits)
  have "aligned_record r"
    using r align_up_dvd [OF place_part_wf [OF r assms(2)]]
    by (cases rule: place_part_Some) (auto simp: aligned_record_def)
  moreover have "\<exists>pa. part_alignment os (fst x) = Some pa \<and> rl_alignment r = min pa max_al"
    using r by (cases rule: place_part_Some) blast
  ultimately show ?case using Cons.IH [OF rest] by (simp add: recs)
qed simp

definition section_aligned :: "'a OutputSections \<Rightarrow> u64 list \<Rightarrow> OutputRecordLayout list \<Rightarrow> OutputSectionId \<Rightarrow> bool" where
  "section_aligned os sizes recs s \<longleftrightarrow>
     (\<forall>p. base_nat (unat s) \<le> p \<and> p < base_nat (Suc (unat s)) \<and> sizes ! p \<noteq> 0 \<longrightarrow>
        part_alignment os (of_nat p) = Some (rl_alignment (recs ! p)))"

lemma layout_section_aligned:
  assumes "layout_section P os args sizes s st = Some st'" and "wf_layout os args"
  shows "\<exists>recs. lp_records_out st' = take (base_nat (unat s)) (lp_records_out st) @ recs @ drop (base_nat (Suc (unat s))) (lp_records_out st)
    \<and> list_all aligned_record recs \<and> section_aligned os sizes (lp_records_out st') s"
  using assms
proof (cases rule: layout_section_Some)
  case (1 info max_al st0 recs st1 records)
  have rng: "base_nat (Suc (unat s)) < 2 ^ 32" using section_range [OF assms(2)] 1(1) by simp
  note al = place_parts_aligned [OF 1(6) assms(2)]
  have out: "lp_records_out st' = take (base_nat (unat s)) (lp_records_out st) @ recs @ drop (base_nat (Suc (unat s))) (lp_records_out st)"
    using tier4_pad_Some(1) [OF 1(9)] 1(8) by simp
  have "section_aligned os sizes (lp_records_out st') s"
    unfolding section_aligned_def
  proof (intro allI impI)
    fix p assume p: "base_nat (unat s) \<le> p \<and> p < base_nat (Suc (unat s)) \<and> sizes ! p \<noteq> 0"
    define j where "j = p - base_nat (unat s)"
    have j: "j < base_nat (Suc (unat s)) - base_nat (unat s)" and pj: "p = base_nat (unat s) + j" using p by (auto simp: j_def)
    have "lp_records_out st' ! p = recs ! j" using 1(4,7) j by (simp add: out pj nth_append)
    moreover have fst: "fst (section_parts s sizes ! j) = part_id_offset (fst (part_id_range s)) j"
      using j 1(5) by (simp add: section_parts_def)
    then obtain pa where pa: "part_alignment os (part_id_offset (fst (part_id_range s)) j) = Some pa" "rl_alignment (recs ! j) = min pa max_al"
      using list_all2_nthD2 [OF al, of j] j 1(7) by auto
    moreover have "pa \<le> max_al"
      using part_alignment_le_max [OF 1(2) rng j _ pa(1)] p by (simp add: pj)
    moreover have "unat (of_nat p :: u32) = p" using rng p by (simp add: unat_of_nat)
    then have "part_id_offset (fst (part_id_range s)) j = of_nat p"
      using unat_part_id_offset(1) [OF rng j] pj by (metis word_unat_eq_iff)
    ultimately show "part_alignment os (of_nat p) = Some (rl_alignment (lp_records_out st' ! p))" by (simp add: min_def)
  qed
  moreover have "list_all aligned_record recs"
    using al by (auto simp: list_all_length list_all2_conv_all_nth)
  ultimately show ?thesis using out by blast
qed

lemma section_aligned_slice:
  assumes "section_slice s recs' = section_slice s recs" and "length recs' = length recs" and "base_nat (Suc (unat s)) \<le> length recs"
    and "section_aligned os sizes recs s"
  shows "section_aligned os sizes recs' s"
proof -
  have "recs' ! p = recs ! p" if "base_nat (unat s) \<le> p" "p < base_nat (Suc (unat s))" for p
  proof -
    have "section_slice s zs ! (p - base_nat (unat s)) = zs ! p" if "length zs = length recs" for zs :: "OutputRecordLayout list"
      using assms(3) that \<open>base_nat (unat s) \<le> p\<close> \<open>p < base_nat (Suc (unat s))\<close> by simp
    then show ?thesis using assms(1,2) by metis
  qed
  then show ?thesis using assms(4) by (simp add: section_aligned_def)
qed

lemma layout_events_aligned:
  assumes "layout_events P os args segs als sizes es st = Some st'" and "wf_layout os args"
    and "list_all aligned_record (lp_records_out st)"
  shows "list_all aligned_record (lp_records_out st') \<and> (\<forall>s\<in>set (section_ids es). section_aligned os sizes (lp_records_out st') s)"
  using assms(1,3)
proof (induction es arbitrary: st)
  case (Cons e es)
  then obtain st1 where st1: "layout_event P os args segs als sizes e st = Some st1"
    and rest: "layout_events P os args segs als sizes es st1 = Some st'" by (auto split: bind_splits)
  show ?case
  proof (cases e)
    case (Section s)
    with st1 have l: "layout_section P os args sizes s st = Some st1" by simp
    from layout_section_aligned [OF l assms(2)] obtain recs where
      r: "lp_records_out st1 = take (base_nat (unat s)) (lp_records_out st) @ recs @ drop (base_nat (Suc (unat s))) (lp_records_out st)"
        "list_all aligned_record recs" "section_aligned os sizes (lp_records_out st1) s" by blast
    have "list_all aligned_record (lp_records_out st1)"
      using r Cons.prems(2) by (auto simp: list_all_iff dest: in_set_takeD in_set_dropD)
    then have IH: "list_all aligned_record (lp_records_out st') \<and> (\<forall>s\<in>set (section_ids es). section_aligned os sizes (lp_records_out st') s)"
      by (rule Cons.IH [OF rest])
    have len: "base_nat (Suc (unat s)) \<le> length (lp_records_out st1)"
      using placed_sections [OF Cons.prems(1) assms(2), of s] layout_event_frame(1) [OF st1 assms(2)] Section by simp
    have "section_aligned os sizes (lp_records_out st') s"
    proof (cases "s \<in> set (section_ids es)")
      case False
      show ?thesis
        by (rule section_aligned_slice [OF layout_events_frame(2) [OF rest assms(2) False] layout_events_frame(1) [OF rest assms(2)] len r(3)])
    qed (use IH in blast)
    then show ?thesis using IH Section by simp
  next
    case (SegmentStart i)
    with st1 have "lp_records_out st1 = lp_records_out st"
      by (auto simp: layout_segment_start_def Let_def split: bind_splits option.splits if_splits)
    then show ?thesis using Cons.IH [OF rest] Cons.prems(2) SegmentStart by simp
  qed (use Cons.IH [OF rest] Cons.prems(2) st1 in auto)
qed simp

text \<open>
  (C25) Every part is placed at an offset of the file and at an address that are multiples of its
  alignment, whatever wraps around; and a part with content has the full alignment of its number,
  even though the alignment of a section is limited to that of its contents.
\<close>

theorem parts_aligned:
  assumes "layout_section_parts P os args segs sizes events = Some recs" and "wf_layout os args"
  shows "(\<forall>r\<in>set recs. align_nat (rl_alignment r) dvd unat (rl_file_offset r) \<and>
      align_nat (rl_alignment r) dvd unat (rl_mem_offset r)) \<and>
    (\<forall>p\<in>set (order_parts events). sizes ! p \<noteq> 0 \<longrightarrow> part_alignment os (of_nat p) = Some (rl_alignment (recs ! p)))"
proof -
  obtain als st where
    ev: "layout_events P os args segs als sizes events (initial_layout_state os) = Some st" and recs: "lp_records_out st = recs"
    using assms by (rule layout_section_parts_Some)
  have "list_all aligned_record (lp_records_out (initial_layout_state os))"
    by (simp add: initial_layout_state_def list_all_iff aligned_record_def default_layout_def MIN_alignment_def)
  from layout_events_aligned [OF ev assms(2) this]
  show ?thesis by (auto simp: recs list_all_iff aligned_record_def section_aligned_def order_parts_def)
qed

section \<open>Congruence of file offsets and addresses\<close>

definition congruent :: "Alignment \<Rightarrow> u64 \<Rightarrow> u64 \<Rightarrow> bool" where
  "congruent a x y \<longleftrightarrow> take_bit (unat (exponent a)) x = take_bit (unat (exponent a)) y"

lemma congruent_add:
  assumes "congruent a x y"
  shows "congruent a (x + d) (y + d)"
  using assms unfolding congruent_def by (metis take_bit_add_word)

lemma congruent_unat: "congruent a x y \<longleftrightarrow> unat x mod align_nat a = unat y mod align_nat a"
  unfolding congruent_def by (metis unat_take_bit unsigned_word_eqI)

lemma align_up_add:
  assumes "wf_alignment a"
  shows "align_up a x = x + (if take_bit (unat (exponent a)) x = 0 then 0 else alignment_value a - take_bit (unat (exponent a)) x)"
proof -
  have "unat (x mod alignment_value a) = unat (take_bit (unat (exponent a)) x)"
    by (simp add: unat_mod unat_alignment_value [OF assms] unat_take_bit)
  then have "x mod alignment_value a = take_bit (unat (exponent a)) x" by (rule unsigned_word_eqI)
  then show ?thesis by (simp add: align_up_def next_multiple_of_def Let_def)
qed

text \<open>Rounding two congruent offsets up to a smaller alignment adds the same to both.\<close>

lemma congruent_align_up:
  assumes "congruent a x y" and "b \<le> a" and "wf_alignment b"
  shows "congruent a (align_up b x) (align_up b y)"
proof -
  have "take_bit (unat (exponent b)) x = take_bit (unat (exponent b)) y"
  proof -
    have "unat (exponent b) \<le> unat (exponent a)" using assms(2) by (simp add: less_eq_Alignment_def word_le_nat_alt)
    then have "take_bit (unat (exponent b)) z = take_bit (unat (exponent b)) (take_bit (unat (exponent a)) z)" for z :: u64
      by (simp add: min_absorb1)
    then show ?thesis using assms(1) unfolding congruent_def by metis
  qed
  then show ?thesis using assms(1,3) by (simp add: align_up_add congruent_add)
qed

lemma align_modulo_congruent:
  assumes "wf_alignment a"
  shows "congruent a (align_modulo a r v) r"
proof -
  have "unat (align_up a v AND alignment_mask a) = 0"
    using align_up_dvd [OF assms, of v] by (simp add: unat_AND_alignment_mask [OF assms])
  then have zero: "align_up a v AND alignment_mask a = 0" by (simp add: unat_eq_zero)
  have lt: "unat (r AND alignment_mask a) < align_nat a" using assms by (simp add: unat_AND_alignment_mask)
  have "unat ((r AND alignment_mask a) + alignment_value a) = unat (r AND alignment_mask a) + align_nat a"
    using lt assms align_nat_bound [OF assms] by (subst unat_add_no_overflow) (auto simp: unat_alignment_value)
  then have gt: "(r AND alignment_mask a) + alignment_value a > alignment_value a \<longleftrightarrow> r AND alignment_mask a \<noteq> 0"
    using assms by (simp add: word_less_nat_alt unat_alignment_value) (metis neq0_conv unat_eq_zero)
  have eq: "align_modulo a r v = align_up a v + (r AND alignment_mask a)"
    using zero gt by (auto simp: align_modulo_def Let_def)
  have "congruent a (align_up a v) 0"
    using zero unfolding congruent_def AND_alignment_mask [OF assms] by simp
  from congruent_add [OF this, of "r AND alignment_mask a"]
  show ?thesis by (simp add: eq congruent_def AND_alignment_mask [OF assms])
qed

lemma place_parts_congruent:
  assumes "place_parts P os args s max_al xs st = Some (recs, st')" and "wf_layout os args"
    and "mem_alloc P os s" and "\<not> la_should_output_partial_object args"
    and "primary_output_section os s = Some t" and "has_data_in_file P os t = Some True" and "max_al \<le> a"
    and "congruent a (lp_file_offset st) (lp_mem_offset st)"
  shows "congruent a (lp_file_offset st') (lp_mem_offset st') \<and> (\<forall>r\<in>set recs. congruent a (rl_file_offset r) (rl_mem_offset r))"
  using assms(1,8)
proof (induction xs arbitrary: st recs)
  case (Cons x xs)
  from Cons.prems(1) obtain r st1 rs where r: "place_part P os args s max_al (fst x) (snd x) st = Some (r, st1)"
    and rest: "place_parts P os args s max_al xs st1 = Some (rs, st')" and recs: "recs = r # rs"
    by (cases x) (auto split: bind_splits)
  have "congruent a (rl_file_offset r) (rl_mem_offset r) \<and> congruent a (lp_file_offset st1) (lp_mem_offset st1)"
    using r
  proof (cases rule: place_part_Some)
    case (1 pa target alloc)
    have alloc: "alloc \<and> \<not> la_should_output_partial_object args" and t: "target = t"
      using assms(3,4,5) 1(3,4) by (auto simp: mem_alloc_def)
    have le: "rl_alignment r \<le> a" using 1(2) assms(7) by (auto simp: min_def)
    have "congruent a (rl_file_offset r) (rl_mem_offset r)"
      using congruent_align_up [OF Cons.prems(2) le place_part_wf [OF r assms(2)]] 1(6) 1(10) [OF alloc] by simp
    moreover have "rl_file_size r = rl_mem_size r" using 1(8) assms(6) t by simp
    ultimately show ?thesis using 1(9) 1(10) [OF alloc] by (simp add: congruent_add)
  qed
  then show ?case using Cons.IH [OF rest] by (simp add: recs)
qed simp

text \<open>
  The events inside a load segment that keep the congruence: sections with contents in the file
  and without an address of their own, and the starts and ends of other segments that are not
  loaded.
\<close>

fun in_load_segment :: "('a, 'd) Platform \<Rightarrow> 'a OutputSections \<Rightarrow> 'd list \<Rightarrow> ProgramSegmentId \<Rightarrow> OrderEvent \<Rightarrow> bool" where
  "in_load_segment P os segs i (SegmentStart j) \<longleftrightarrow> is_load_segment P segs j = Some False"
| "in_load_segment P os segs i (SegmentEnd j) \<longleftrightarrow> j \<noteq> i"
| "in_load_segment P os segs i (SetLocation _) \<longleftrightarrow> False"
| "in_load_segment P os segs i (Section s) \<longleftrightarrow> mem_alloc P os s \<and> no_location os (Section s) \<and>
     (\<exists>t. primary_output_section os s = Some t \<and> has_data_in_file P os t = Some True)"

text \<open>The alignment of a segment only grows, and is at least that of each of its sections.\<close>

lemma segment_alignments_grow:
  assumes "compute_segment_alignments_from P os args segs sizes es (als, active) = Some als'" and "als i = Some a"
  shows "\<exists>b. als' i = Some b \<and> a \<le> b"
  using assms
proof (induction es arbitrary: als active a)
  case (Cons e es)
  show ?case
  proof (cases e)
    case (SegmentStart j)
    with Cons.prems obtain als1 active1 where "compute_segment_alignments_from P os args segs sizes es (als1, active1) = Some als'"
      and "als1 = als \<or> als j = None \<and> als1 = als(j \<mapsto> la_loadable_segment_alignment args)"
      by (auto split: bind_splits if_splits option.splits)
    moreover from this(2) have "als1 i = Some a" using Cons.prems(2) by auto
    ultimately show ?thesis by (blast intro: Cons.IH)
  next
    case (Section s)
    with Cons.prems obtain m where rest: "compute_segment_alignments_from P os args segs sizes es
         (\<lambda>i. if i \<in> set active then map_option (\<lambda>a. max a m) (als i) else als i, active) = Some als'"
      by (auto split: bind_splits)
    obtain c where "(\<lambda>i. if i \<in> set active then map_option (\<lambda>a. max a m) (als i) else als i) i = Some c" "a \<le> c"
      using Cons.prems(2) by (cases "i \<in> set active") auto
    then show ?thesis using Cons.IH [OF rest] by (blast intro: order_trans)
  qed (use Cons in auto)
qed auto

lemma segment_alignments_from_append:
  assumes "compute_segment_alignments_from P os args segs sizes (es @ fs) st = Some als'"
  shows "\<exists>st1. compute_segment_alignments_from P os args segs sizes fs st1 = Some als'"
  using assms
proof (induction es arbitrary: st)
  case (Cons e es)
  obtain als active where st: "st = (als, active)" by (cases st)
  have "\<exists>st1. compute_segment_alignments_from P os args segs sizes (es @ fs) st1 = Some als'"
    using Cons.prems unfolding st by (cases e) (auto split: bind_splits if_splits)
  then show ?case using Cons.IH by blast
qed auto

lemma segment_alignments_cover:
  assumes "compute_segment_alignments_from P os args segs sizes (mid @ post) (als, active) = Some als'"
    and "i \<in> set active" and "als i \<noteq> None" and "\<forall>e\<in>set mid. in_load_segment P os segs i e" and "s \<in> set (section_ids mid)"
    and "max_alignment os sizes (part_id_range s) = Some m" and "als' i = Some b"
  shows "m \<le> b"
  using assms(1-5)
proof (induction mid arbitrary: als active)
  case (Cons e mid)
  show ?case
  proof (cases e)
    case (Section t)
    with Cons.prems(1) obtain n where n: "max_alignment os sizes (part_id_range t) = Some n"
      and rest: "compute_segment_alignments_from P os args segs sizes (mid @ post)
         (\<lambda>i. if i \<in> set active then map_option (\<lambda>a. max a n) (als i) else als i, active) = Some als'"
      by (auto split: bind_splits)
    obtain a where a: "als i = Some a" using Cons.prems(3) by blast
    show ?thesis
    proof (cases "s = t")
      case True
      with segment_alignments_grow [OF rest, of i "max a n"] a Cons.prems(2) n assms(6,7)
      show ?thesis by auto
    next
      case False
      then show ?thesis using Cons.IH [OF rest] Cons.prems(2-5) a Section by auto
    qed
  next
    case (SegmentStart j)
    with Cons.prems(1,4) have "compute_segment_alignments_from P os args segs sizes (mid @ post) (als, active) = Some als'"
      by (auto split: bind_splits)
    then show ?thesis using Cons.IH Cons.prems(2-5) SegmentStart by auto
  next
    case (SegmentEnd j)
    with Cons.prems(4) have "i \<in> set (filter (\<lambda>k. k \<noteq> j) active)" using Cons.prems(2) by auto
    then show ?thesis using Cons.IH [of als "filter (\<lambda>k. k \<noteq> j) active"] Cons.prems SegmentEnd by auto
  qed (use Cons.prems(4) in auto)
qed simp

lemma load_segment_active:
  assumes "compute_segment_alignments P os args segs sizes (pre @ SegmentStart i # mid @ post) = Some als'"
    and "is_load_segment P segs i = Some True"
  obtains als active where "compute_segment_alignments_from P os args segs sizes (mid @ post) (als, active) = Some als'"
    and "i \<in> set active" and "als i \<noteq> None"
proof -
  obtain als active where "compute_segment_alignments_from P os args segs sizes (SegmentStart i # mid @ post) (als, active) = Some als'"
    using segment_alignments_from_append [OF assms(1) [unfolded compute_segment_alignments_def]] by auto
  with assms(2) show thesis by (auto split: option.splits intro!: that)
qed

lemma layout_events_append:
  "layout_events P os args segs als sizes (es @ fs) st =
    do { st1 \<leftarrow> layout_events P os args segs als sizes es st; layout_events P os args segs als sizes fs st1 }"
  by (induction es arbitrary: st) (auto split: bind_splits)

lemma layout_load_start:
  assumes "layout_segment_start P args segs als i st = Some st'" and "is_load_segment P segs i = Some True"
    and "wf_alignment (segment_alignment args als i)"
  shows "congruent (segment_alignment args als i) (lp_file_offset st') (lp_mem_offset st')"
proof (cases "lp_pending_location st")
  case None
  with assms align_modulo_congruent [OF assms(3)] show ?thesis
    by (auto simp: layout_segment_start_def segment_alignment_def Let_def congruent_def)
next
  case (Some l)
  with assms align_modulo_congruent [OF assms(3)] show ?thesis
    by (auto simp: layout_segment_start_def segment_alignment_def Let_def)
qed

lemma layout_section_congruent:
  assumes "layout_section P os args sizes s st = Some st'" and "wf_layout os args" and "in_load_segment P os segs i (Section s)"
    and "\<not> la_should_output_partial_object args" and "max_alignment os sizes (part_id_range s) = Some m" and "m \<le> a"
    and "congruent a (lp_file_offset st) (lp_mem_offset st)"
  shows "congruent a (lp_file_offset st') (lp_mem_offset st') \<and>
    (\<forall>r\<in>set (event_records (Section s) st'). congruent a (rl_file_offset r) (rl_mem_offset r))"
  using assms(1,2)
proof (cases rule: layout_section_Some)
  case (1 info max_al st0 recs st1 records)
  have st0: "st0 = st" and m: "max_al = m" using assms(3,5) 1(1,2,3) by auto
  obtain t where t: "primary_output_section os s = Some t" "has_data_in_file P os t = Some True" "mem_alloc P os s"
    using assms(3) by auto
  have "congruent a (lp_file_offset st1) (lp_mem_offset st1) \<and> (\<forall>r\<in>set recs. congruent a (rl_file_offset r) (rl_mem_offset r))"
    using place_parts_congruent [OF 1(6) assms(2) t(3) assms(4) t(1,2)] assms(6,7) by (simp add: st0 m)
  moreover have "event_records (Section s) st' = recs"
    using tier4_pad_Some(1) [OF 1(9)] 1(4,7,8) by (intro event_records_section) simp_all
  moreover define d where "d = lp_file_offset st' - lp_file_offset st1"
  have "lp_mem_offset st' = lp_mem_offset st1 + d" and "lp_file_offset st' = lp_file_offset st1 + d"
    using tier4_pad_Some(3) [OF 1(9)] by (simp_all add: d_def diff_eq_eq)
  ultimately show ?thesis by (simp add: congruent_add)
qed

lemma layout_events_congruent:
  assumes "layout_events P os args segs als sizes mid st = Some st'" and "wf_layout os args"
    and "\<forall>e\<in>set mid. in_load_segment P os segs i e" and "\<not> la_should_output_partial_object args"
    and "\<And>s m. s \<in> set (section_ids mid) \<Longrightarrow> max_alignment os sizes (part_id_range s) = Some m \<Longrightarrow> m \<le> a"
    and "congruent a (lp_file_offset st) (lp_mem_offset st)" and "distinct (section_ids mid)"
  shows "\<forall>s\<in>set (section_ids mid). \<forall>r\<in>set (section_slice s (lp_records_out st')). congruent a (rl_file_offset r) (rl_mem_offset r)"
  using assms(1,3,5-7)
proof (induction mid arbitrary: st)
  case (Cons e mid)
  from Cons.prems(1) obtain st1 where st1: "layout_event P os args segs als sizes e st = Some st1"
    and rest: "layout_events P os args segs als sizes mid st1 = Some st'" by (auto split: bind_splits)
  have in_e: "in_load_segment P os segs i e" using Cons.prems(2) by simp
  have sub: "set (section_ids mid) \<subseteq> set (section_ids (e # mid))" "distinct (section_ids mid)"
    using Cons.prems(5) by (cases e; auto)+
  show ?case
  proof (cases e)
    case (Section s)
    have l: "layout_section P os args sizes s st = Some st1" using st1 Section by simp
    obtain m where m: "max_alignment os sizes (part_id_range s) = Some m"
      using l by (auto simp: layout_section_def Let_def split: bind_splits)
    have "m \<le> a" using Cons.prems(3) [of s m] m Section by simp
    from layout_section_congruent [OF l assms(2) in_e [unfolded Section] assms(4) m this Cons.prems(4)]
    have c: "congruent a (lp_file_offset st1) (lp_mem_offset st1)"
      "\<forall>r\<in>set (section_slice s (lp_records_out st1)). congruent a (rl_file_offset r) (rl_mem_offset r)" by simp_all
    have "section_slice s (lp_records_out st') = section_slice s (lp_records_out st1)"
      using layout_events_frame(2) [OF rest assms(2), of s] Cons.prems(5) Section by simp
    then show ?thesis using Cons.IH [OF rest _ _ c(1) sub(2)] Cons.prems(2,3) sub(1) c(2) Section by auto
  next
    case (SegmentStart j)
    then have "st1 = st" using st1 in_e by (simp add: layout_segment_start_def)
    then show ?thesis using Cons.IH [OF rest _ _ _ sub(2)] Cons.prems(2-4) SegmentStart by auto
  next
    case (SegmentEnd j)
    then have "st1 = st" using st1 by simp
    then show ?thesis using Cons.IH [OF rest _ _ _ sub(2)] Cons.prems(2-4) SegmentEnd by auto
  qed (use in_e in simp)
qed simp

lemma section_ids_append [simp]: "section_ids (es @ fs) = section_ids es @ section_ids fs"
  by (induction es rule: section_ids.induct) simp_all

text \<open>
  (C12) Inside a load segment, the file offset and the address of every part of the sections from its start on
  are congruent modulo the alignment of the segment, which the loader needs to map the segment, as long as the
  sections have their contents in the file and no address of their own (\<open>in_load_segment\<close>; so not for \<open>.bss\<close> and not behind a
  section that was given an address). This holds whether or not the address of the segment was set by hand, and whatever
  wraps around.
\<close>

theorem load_segment_congruent:
  assumes "layout_section_parts P os args segs sizes (pre @ SegmentStart i # mid @ post) = Some recs"
    and "wf_layout os args" and "\<not> la_should_output_partial_object args" and "is_load_segment P segs i = Some True"
    and "distinct (section_ids (pre @ SegmentStart i # mid @ post))" and "\<forall>e\<in>set mid. in_load_segment P os segs i e"
  shows "\<exists>als a. compute_segment_alignments P os args segs sizes (pre @ SegmentStart i # mid @ post) = Some als \<and> als i = Some a \<and>
    (\<forall>p\<in>set (order_parts mid). unat (rl_file_offset (recs ! p)) mod align_nat a = unat (rl_mem_offset (recs ! p)) mod align_nat a)"
proof -
  let ?ev = "pre @ SegmentStart i # mid @ post"
  obtain als st where als: "compute_segment_alignments P os args segs sizes ?ev = Some als" "als_wf als"
    and ev: "layout_events P os args segs als sizes ?ev (initial_layout_state os) = Some st" and recs: "lp_records_out st = recs"
    using assms(1,2) by (rule layout_section_parts_Some)
  obtain als0 active where cov: "compute_segment_alignments_from P os args segs sizes (mid @ post) (als0, active) = Some als"
    and act: "i \<in> set active" "als0 i \<noteq> None" using als(1) assms(4) by (rule load_segment_active)
  obtain a where a: "als i = Some a" using segment_alignments_grow [OF cov] act(2) by blast
  then have sa: "segment_alignment args als i = a" and wfa: "wf_alignment a"
    using als(2) by (auto simp: segment_alignment_def als_wf_def)
  obtain st0 st1 st2 where st1: "layout_segment_start P args segs als i st0 = Some st1"
    and mid: "layout_events P os args segs als sizes mid st1 = Some st2" and post: "layout_events P os args segs als sizes post st2 = Some st"
    using ev by (auto simp: layout_events_append split: bind_splits)
  have "congruent a (lp_file_offset st1) (lp_mem_offset st1)" using layout_load_start [OF st1 assms(4)] sa wfa by simp
  then have c: "\<forall>s\<in>set (section_ids mid). \<forall>r\<in>set (section_slice s (lp_records_out st2)). congruent a (rl_file_offset r) (rl_mem_offset r)"
    using segment_alignments_cover [OF cov act assms(6) _ _ a] assms(5)
    by (intro layout_events_congruent [OF mid assms(2,6,3)]) auto
  have "congruent a (rl_file_offset (recs ! p)) (rl_mem_offset (recs ! p))" if p: "p \<in> set (order_parts mid)" for p
  proof -
    obtain s where s: "s \<in> set (section_ids mid)" "base_nat (unat s) \<le> p" "p < base_nat (Suc (unat s))"
      using p by (auto simp: order_parts_def)
    then have "section_slice s recs = section_slice s (lp_records_out st2)"
      using layout_events_frame(2) [OF post assms(2), of s] assms(5) recs by auto
    moreover have "base_nat (Suc (unat s)) \<le> length recs"
      using placed_sections [OF ev assms(2), of s] layout_events_frame(1) [OF ev assms(2)] recs s(1) by simp
    then have "recs ! p \<in> set (section_slice s recs)" using s(2,3) by (auto simp: section_slice_map)
    ultimately show ?thesis using c s(1) by auto
  qed
  with als(1) a show ?thesis by (auto simp: congruent_unat)
qed

section \<open>An example\<close>

text \<open>One load segment with the file header of 100 bytes, at address 4096 with 4 KiB pages.\<close>

definition sample_platform :: "(unit, unit) Platform" where
  "sample_platform = \<lparr>attr_is_alloc = (\<lambda>_. True), flags_is_alloc = (\<lambda>_. True), attr_is_executable = (\<lambda>_. False),
     attr_is_tls = (\<lambda>_. False), attr_is_writable = (\<lambda>_. False), attr_is_no_bits = (\<lambda>_. False),
     seg_is_writable = (\<lambda>_. False), seg_is_executable = (\<lambda>_. False), seg_is_loadable = (\<lambda>_. True),
     seg_is_stack = (\<lambda>_. False), seg_is_tls = (\<lambda>_. False), seg_order_key = (\<lambda>_. 0),
     seg_should_include_section = (\<lambda>_ _ _. True), seg_should_cut_rw_segment_when_ending = (\<lambda>_. False),
     program_segment_defs = [()], unconditional_segment_defs = [], attr_default = ()\<rparr>"

definition sample_sections :: "unit OutputSections" where
  "sample_sections = with_base_address [\<lparr>si_kind = Primary [], si_section_attributes = (), si_min_alignment = Alignment 3,
     si_location = None, si_secondary_order = None\<rparr>] 4096"

definition sample_args :: LayoutArgs where
  "sample_args = \<lparr>la_loadable_segment_alignment = Alignment 12, la_should_output_partial_object = False,
     la_writes_cache = False, la_stack_size_override = None\<rparr>"

lemma sample_layout:
  "\<exists>recs. layout_section_parts sample_platform sample_sections sample_args [()] [100] [SegmentStart 0, Section 0, SegmentEnd 0] = Some recs"
  "wf_layout sample_sections sample_args" "is_load_segment sample_platform [()] 0 = Some True"
  "mem_alloc sample_platform sample_sections 0" "no_location sample_sections (Section 0)"
  "primary_output_section sample_sections 0 = Some 0" "has_data_in_file sample_platform sample_sections 0 = Some True"
proof -
  have info: "output_info sample_sections 0 = Some \<lparr>si_kind = Primary [], si_section_attributes = (),
      si_min_alignment = Alignment 3, si_location = None, si_secondary_order = None\<rparr>"
    by (simp add: output_info_def section_map_get_def get_def sample_sections_def with_base_address_def)
  show prim: "primary_output_section sample_sections 0 = Some 0"
    by (simp add: primary_output_section_def merge_target_def info)
  show data: "has_data_in_file sample_platform sample_sections 0 = Some True"
    by (simp add: has_data_in_file_def info sample_platform_def)
  have alloc: "section_is_alloc sample_platform sample_sections 0 = Some True"
    by (simp add: section_is_alloc_def info sample_platform_def)
  show load: "is_load_segment sample_platform [()] 0 = Some True"
    by (simp add: is_load_segment_def segment_def_def get_def sample_platform_def)
  show "mem_alloc sample_platform sample_sections 0" by (simp add: mem_alloc_def prim alloc)
  show "no_location sample_sections (Section 0)" by (simp add: info)
  show "wf_layout sample_sections sample_args"
    by (simp add: wf_layout_def sample_sections_def with_base_address_def sample_args_def exponent_le_iff base_nat_def)
  have base: "base_nat 0 = 0" "base_nat (Suc 0) = 1" by (simp_all add: base_nat_def)
  have range: "fst (part_id_range 0) = 0" "part_map_range m (part_id_range 0) = (if m = [] then None else Some [hd m])" for m :: "'t list"
    using part_map_range_section [of 0 m]
    by (cases m; simp add: base part_id_range_def base_part_id_def NUM_SINGLE_PART_SECTIONS_def)+
  have pa: "part_alignment sample_sections 0 = Some (Alignment 3)" and sec: "output_section_id 0 = 0"
    and mn: "section_min_alignment sample_sections 0 = Some (Alignment 3)"
    by (simp_all add: part_alignment_def NUM_SINGLE_PART_SECTIONS_def output_section_id_def section_min_alignment_def info)
  have mx: "max_alignment sample_sections [100] (part_id_range 0) = Some (Alignment 3)"
    by (simp add: max_alignment_def range position_def part_id_offset_def pa sec mn)
  show "\<exists>recs. layout_section_parts sample_platform sample_sections sample_args [()] [100] [SegmentStart 0, Section 0, SegmentEnd 0] = Some recs"
    by (simp add: layout_section_parts_def compute_segment_alignments_def load mx layout_segment_start_def
      initial_layout_state_def layout_section_def Let_def info range place_part_def part_id_offset_def pa prim alloc data
      copy_at_def tier4_pad_def sample_args_def os_num_parts_def NUM_SINGLE_PART_SECTIONS_def)
qed

theorem parts_do_not_overlap_witness:
  "\<exists>recs. layout_section_parts sample_platform sample_sections sample_args [()] [100] [SegmentStart 0, Section 0, SegmentEnd 0] = Some recs \<and>
     sorted_wrt (\<lambda>p q. mem_stop (recs ! p) \<le> mem_start (recs ! q))
       (alloc_parts sample_platform sample_sections [SegmentStart 0, Section 0, SegmentEnd 0])"
proof -
  obtain recs where r: "layout_section_parts sample_platform sample_sections sample_args [()] [100] [SegmentStart 0, Section 0, SegmentEnd 0] = Some recs"
    using sample_layout(1) by blast
  have "unat (os_base_address sample_sections) + sum_list (map (event_cost [100]) [SegmentStart 0, Section 0, SegmentEnd 0]) < 2 ^ 64"
    by (simp add: sample_sections_def with_base_address_def base_nat_def)
  moreover have "\<not> la_should_output_partial_object sample_args" by (simp add: sample_args_def)
  ultimately show ?thesis
    using parts_do_not_overlap [OF r sample_layout(2)] r sample_layout(5) by (intro exI [of _ recs]) simp
qed

theorem parts_aligned_witness:
  "\<exists>recs. layout_section_parts sample_platform sample_sections sample_args [()] [100] [SegmentStart 0, Section 0, SegmentEnd 0] = Some recs \<and>
     part_alignment sample_sections 0 = Some (rl_alignment (recs ! 0))"
proof -
  obtain recs where r: "layout_section_parts sample_platform sample_sections sample_args [()] [100] [SegmentStart 0, Section 0, SegmentEnd 0] = Some recs"
    using sample_layout(1) by blast
  then show ?thesis
    using parts_aligned [OF r sample_layout(2)] by (intro exI [of _ recs]) (simp add: order_parts_def base_nat_def)
qed

theorem load_segment_congruent_witness:
  "\<exists>recs a. layout_section_parts sample_platform sample_sections sample_args [()] [100] [SegmentStart 0, Section 0, SegmentEnd 0] = Some recs \<and>
     unat (rl_file_offset (recs ! 0)) mod align_nat a = unat (rl_mem_offset (recs ! 0)) mod align_nat a"
proof -
  obtain recs where r: "layout_section_parts sample_platform sample_sections sample_args [()] [100] ([] @ SegmentStart 0 # [Section 0] @ [SegmentEnd 0]) = Some recs"
    using sample_layout(1) by auto
  have "\<not> la_should_output_partial_object sample_args" by (simp add: sample_args_def)
  from load_segment_congruent [OF r sample_layout(2) this sample_layout(3)] sample_layout(4-7) r show ?thesis
    by (auto simp: order_parts_def base_nat_def)
qed

end
