(* ===== verification/Layout_Segments.thy ===== *)
theory Layout_Segments
  imports Layout "HOL-Library.Multiset"
begin

text \<open>
  What \<open>compute_segment_layout\<close>, \<open>layout_sections\<close> and \<open>compute_start_offsets_by_group\<close> guarantee.
  On a well-bracketed order the layout of the segments never fails for want of a started segment and
  never panics, and every segment covers the sections inside it; a section spans its parts; the
  groups of input files get consecutive ranges of every part.
\<close>

section \<open>Segments of a well-bracketed order\<close>

text \<open>The records that are open and those that are complete, against the replay of the order.\<close>

definition segments_inv ::
    "'d list \<Rightarrow> SegmentRecord option list \<times> SegmentRecord list \<Rightarrow> nat \<times> ProgramSegmentId set \<Rightarrow> bool" where
  "segments_inv segs st rp \<longleftrightarrow> (case (st, rp) of ((active, complete), (n, opened)) \<Rightarrow>
     length active = length segs \<and> length segs \<le> 256 \<and> n \<le> length segs \<and>
     (\<forall>i. unat i < length segs \<longrightarrow> (active ! unat i \<noteq> None \<longleftrightarrow> i \<in> opened)) \<and>
     (\<forall>i r. unat i < length segs \<and> active ! unat i = Some r \<longrightarrow> sr_segment_id r = i) \<and>
     opened \<subseteq> {i. unat i < n} \<and> distinct (map sr_segment_id complete) \<and>
     set (map sr_segment_id complete) = {i. unat i < n} - opened)"

lemma replay_n_mono: "replay es (n, opened) = Some (m, opened') \<Longrightarrow> n \<le> m"
proof (induction es arbitrary: n opened)
  case (Cons e es)
  then show ?case by (cases e) (auto split: if_splits dest: Suc_leD)
qed simp

text \<open>A record only grows while it is open.\<close>

definition record_le :: "SegmentRecord \<Rightarrow> SegmentRecord \<Rightarrow> bool" where
  "record_le r r' \<longleftrightarrow> sr_segment_id r' = sr_segment_id r \<and> sr_file_start r' \<le> sr_file_start r \<and> sr_file_end r \<le> sr_file_end r' \<and>
     sr_mem_start r' \<le> sr_mem_start r \<and> sr_mem_end r \<le> sr_mem_end r' \<and> sr_alignment r \<le> sr_alignment r'"

lemma record_le_refl [simp]: "record_le r r" by (simp add: record_le_def)
lemma record_le_trans: "record_le a b \<Longrightarrow> record_le b c \<Longrightarrow> record_le a c" by (auto simp: record_le_def)
lemma record_le_extend: "record_le r (extend_segment l r)" by (simp add: record_le_def extend_segment_def)

definition covers_layout :: "SegmentRecord \<Rightarrow> OutputRecordLayout \<Rightarrow> bool" where
  "covers_layout r l \<longleftrightarrow> sr_file_start r \<le> rl_file_offset l \<and> rl_file_offset l + rl_file_size l \<le> sr_file_end r \<and>
     sr_mem_start r \<le> rl_mem_offset l \<and> rl_mem_offset l + rl_mem_size l \<le> sr_mem_end r \<and> rl_alignment l \<le> sr_alignment r"

lemma covers_extend: "covers_layout (extend_segment l r) l" by (simp add: covers_layout_def extend_segment_def)
lemma covers_layout_mono: "covers_layout r l \<Longrightarrow> record_le r r' \<Longrightarrow> covers_layout r' l"
  by (auto simp: covers_layout_def record_le_def)

text \<open>A section either leaves the open records, is an error, or extends all of them.\<close>

lemma segment_layout_section_cases:
  assumes "segment_layout_section P valid os layouts s active = Some x"
  obtains e where "x = Inl e" "\<forall>i. e \<noteq> SegmentEnd_Without_Start i"
  | "x = Inr active" | l where "section_map_get layouts s = Some l" "x = Inr (map (map_option (extend_segment l)) active)"
  using assms
  by (auto simp: segment_layout_section_def Let_def split: bind_splits if_splits)

definition section_known :: "('a, 'd) Platform \<Rightarrow> 'a OutputSections \<Rightarrow> OutputRecordLayout list \<Rightarrow> OutputSectionId \<Rightarrow> bool" where
  "section_known P os layouts s \<longleftrightarrow> unat s < length layouts \<and>
     (\<exists>t. primary_output_section os s = Some t \<and> section_is_alloc P os t \<noteq> None \<and> unat t < length (os_output_section_indexes os))"

lemma segment_layout_section_total:
  assumes "section_known P os layouts s"
  shows "\<exists>x. segment_layout_section P valid os layouts s active = Some x"
  using assms by (auto simp: section_known_def segment_layout_section_def section_map_get_def get_def)

lemma segments_inv_extend:
  "segments_inv segs (active, complete) rp \<Longrightarrow> segments_inv segs (map (map_option (extend_segment l)) active, complete) rp"
  by (auto simp: segments_inv_def extend_segment_def split: prod.splits)

lemma segments_inv_start:
  assumes "segments_inv segs (active, complete) (n, opened)" and "unat i = n" and "n < length segs" and "sr_segment_id r = i"
  shows "segments_inv segs (active[unat i := Some r], complete) (Suc n, insert i opened)"
proof -
  let ?a = "active[unat i := Some r]"
  have I: "length active = length segs" "length segs \<le> 256" "opened \<subseteq> {i. unat i < n}" "distinct (map sr_segment_id complete)"
    "set (map sr_segment_id complete) = {i. unat i < n} - opened"
    and act: "\<And>j. unat j < length segs \<Longrightarrow> active ! unat j \<noteq> None \<longleftrightarrow> j \<in> opened"
    and ids: "\<And>j r. unat j < length segs \<Longrightarrow> active ! unat j = Some r \<Longrightarrow> sr_segment_id r = j"
    using assms(1) by (simp_all add: segments_inv_def)
  have less: "unat j < Suc n \<longleftrightarrow> unat j < n \<or> j = i" for j
    using assms(2) by (auto simp: less_Suc_eq intro: unsigned_word_eqI)
  have nth: "?a ! unat j = (if j = i then Some r else active ! unat j)" if "unat j < length segs" for j
    using that I(1) by (auto simp: word_unat_eq_iff)
  have "{j. unat j < n} - opened = {j. unat j < Suc n} - insert i opened"
    using assms(2) unfolding less by auto
  moreover have "?a ! unat j \<noteq> None \<longleftrightarrow> j \<in> insert i opened" if "unat j < length segs" for j
    using nth [OF that] act [OF that] by auto
  moreover have "sr_segment_id r' = j" if "unat j < length segs" "?a ! unat j = Some r'" for j r'
    using that nth [OF that(1)] ids [OF that(1)] assms(4) by (auto split: if_splits)
  moreover have "insert i opened \<subseteq> {j. unat j < Suc n}" using I(3) unfolding less by auto
  ultimately show ?thesis using I assms(3) by (simp add: segments_inv_def)
qed

lemma segments_inv_end:
  assumes "segments_inv segs (active, complete) (n, opened)" and "i \<in> opened" and "active ! unat i = Some r"
  shows "segments_inv segs (active[unat i := None], complete @ [r]) (n, opened - {i})" and "unat i < length segs"
proof -
  let ?a = "active[unat i := None]"
  have I: "length active = length segs" "length segs \<le> 256" "n \<le> length segs" "opened \<subseteq> {i. unat i < n}"
    "distinct (map sr_segment_id complete)" "set (map sr_segment_id complete) = {i. unat i < n} - opened"
    and act: "\<And>j. unat j < length segs \<Longrightarrow> active ! unat j \<noteq> None \<longleftrightarrow> j \<in> opened"
    and ids: "\<And>j r. unat j < length segs \<Longrightarrow> active ! unat j = Some r \<Longrightarrow> sr_segment_id r = j"
    using assms(1) by (simp_all add: segments_inv_def)
  show len: "unat i < length segs" using assms(2) I(3,4) by auto
  have r: "sr_segment_id r = i" using ids [OF len assms(3)] .
  have nth: "?a ! unat j = (if j = i then None else active ! unat j)" if "unat j < length segs" for j
    using that I(1) by (auto simp: word_unat_eq_iff)
  have "?a ! unat j \<noteq> None \<longleftrightarrow> j \<in> opened - {i}" if "unat j < length segs" for j
    using nth [OF that] act [OF that] by auto
  moreover have "sr_segment_id r' = j" if "unat j < length segs" "?a ! unat j = Some r'" for j r'
    using that nth [OF that(1)] ids [OF that(1)] by (auto split: if_splits)
  moreover have "distinct (map sr_segment_id (complete @ [r]))" using I(5,6) assms(2) r by auto
  moreover have "set (map sr_segment_id (complete @ [r])) = {i. unat i < n} - (opened - {i})"
    using I(4,6) assms(2) r by auto
  moreover have "opened - {i} \<subseteq> {i. unat i < n}" using I(4) by blast
  ultimately show "segments_inv segs (?a, complete @ [r]) (n, opened - {i})"
    using I(1-3) by (simp add: segments_inv_def)
qed

definition segments_result ::
    "'d list \<Rightarrow> SegmentRecord option list \<Rightarrow> SegmentRecord list \<Rightarrow> (layout_error + SegmentRecord list) option \<Rightarrow> bool" where
  "segments_result segs active complete x \<longleftrightarrow>
     (\<exists>e. x = Some (Inl e) \<and> (\<forall>i. e \<noteq> SegmentEnd_Without_Start i)) \<or>
     (\<exists>complete'. x = Some (Inr complete') \<and> distinct (map sr_segment_id complete') \<and>
        set (map sr_segment_id complete') = {i. unat i < length segs} \<and> set complete \<subseteq> set complete' \<and>
        (\<forall>(i :: ProgramSegmentId) r. unat i < length segs \<and> active ! unat i = Some r \<longrightarrow>
           (\<exists>r'\<in>set complete'. record_le r r')))"

lemma segments_resultI:
  assumes "segments_result segs active' complete' x" and "set complete \<subseteq> set complete'"
    and "\<And>(i :: ProgramSegmentId) r. unat i < length segs \<Longrightarrow> active ! unat i = Some r \<Longrightarrow>
      r \<in> set complete' \<or> (\<exists>r'. active' ! unat i = Some r' \<and> record_le r r')"
  shows "segments_result segs active complete x"
proof -
  have keep: "\<exists>r'\<in>set c. record_le r r'"
    if c: "set complete' \<subseteq> set c" "\<And>(i :: ProgramSegmentId) r. unat i < length segs \<Longrightarrow> active' ! unat i = Some r \<Longrightarrow> \<exists>r'\<in>set c. record_le r r'"
      and i: "unat i < length segs" "active ! unat i = Some r" for c r and i :: ProgramSegmentId
  proof -
    from assms(3) [OF i] consider "r \<in> set complete'" | r1 where "active' ! unat i = Some r1" "record_le r r1" by blast
    then show ?thesis
    proof cases
      case 1
      then show ?thesis using c(1) by (intro bexI [of _ r]) auto
    next
      case (2 r1)
      then obtain r' where "r' \<in> set c" "record_le r1 r'" using c(2) i(1) by blast
      then show ?thesis using 2(2) record_le_trans by blast
    qed
  qed
  from assms(1) consider e where "x = Some (Inl e)" "\<forall>i. e \<noteq> SegmentEnd_Without_Start i"
    | c where "x = Some (Inr c)" "distinct (map sr_segment_id c)" "set (map sr_segment_id c) = {i. unat i < length segs}"
      "set complete' \<subseteq> set c" "\<And>(i :: ProgramSegmentId) r. unat i < length segs \<Longrightarrow> active' ! unat i = Some r \<Longrightarrow> \<exists>r'\<in>set c. record_le r r'"
    unfolding segments_result_def by blast
  then show ?thesis
  proof cases
    case (2 c)
    then have "\<forall>(i :: ProgramSegmentId) r. unat i < length segs \<and> active ! unat i = Some r \<longrightarrow> (\<exists>r'\<in>set c. record_le r r')"
      using keep [of c] by blast
    then show ?thesis using 2(1-4) assms(2) unfolding segments_result_def by blast
  qed (simp add: segments_result_def)
qed

lemma segment_layout_events_result:
  assumes "segments_inv segs (active, complete) (n, opened)" and "replay es (n, opened) = Some (length segs, {})"
    and "\<forall>s. Section s \<in> set es \<longrightarrow> section_known P os layouts s"
  shows "segments_result segs active complete (segment_layout_events P valid os args segs layouts es (active, complete))"
  using assms
proof (induction es arbitrary: active complete n opened)
  case Nil
  then show ?case by (auto simp: segments_result_def segments_inv_def)
next
  case (Cons e es)
  show ?case
  proof (cases e)
    case (SegmentStart i)
    let ?r = "\<lambda>d. new_segment_record P args d i"
    have i: "unat i = n" and rest: "replay es (Suc n, insert i opened) = Some (length segs, {})"
      using Cons.prems(2) SegmentStart by (auto split: if_splits)
    have n: "n < length segs" using replay_n_mono [OF rest] by simp
    have len: "length active = length segs" using Cons.prems(1) by (simp add: segments_inv_def)
    obtain d where d: "segment_def segs i = Some d" using i n by (simp add: segment_def_def get_def)
    have inv: "segments_inv segs (active[unat i := Some (?r d)], complete) (Suc n, insert i opened)"
      by (rule segments_inv_start [OF Cons.prems(1) i n]) (simp add: new_segment_record_def)
    have none: "active ! unat i = None" using Cons.prems(1) i n by (auto simp: segments_inv_def)
    have "segments_result segs (active[unat i := Some (?r d)]) complete
        (segment_layout_events P valid os args segs layouts es (active[unat i := Some (?r d)], complete))"
      using Cons.prems(3) by (intro Cons.IH [OF inv rest]) simp
    then have "segments_result segs active complete
        (segment_layout_events P valid os args segs layouts es (active[unat i := Some (?r d)], complete))"
    proof (rule segments_resultI)
      fix j :: ProgramSegmentId and r assume "active ! unat j = Some r"
      then have "unat j \<noteq> unat i" using none by auto
      then show "r \<in> set complete \<or> (\<exists>r'. active[unat i := Some (?r d)] ! unat j = Some r' \<and> record_le r r')"
        using \<open>active ! unat j = Some r\<close> by simp
    qed simp
    then show ?thesis using d len i n by (simp add: SegmentStart set_at_def)
  next
    case (SegmentEnd i)
    have i: "i \<in> opened" and rest: "replay es (n, opened - {i}) = Some (length segs, {})"
      using Cons.prems(2) SegmentEnd by (auto split: if_splits)
    have "opened \<subseteq> {i. unat i < n}" and "n \<le> length segs"
      and act: "\<forall>i. unat i < length segs \<longrightarrow> (active ! unat i \<noteq> None \<longleftrightarrow> i \<in> opened)"
      using Cons.prems(1) by (simp_all add: segments_inv_def)
    then have "unat i < length segs" using i by auto
    then obtain r where r: "active ! unat i = Some r" using act i by blast
    note inv = segments_inv_end [OF Cons.prems(1) i r]
    have len: "length active = length segs" using Cons.prems(1) by (simp add: segments_inv_def)
    have "segments_result segs (active[unat i := None]) (complete @ [r])
        (segment_layout_events P valid os args segs layouts es (active[unat i := None], complete @ [r]))"
      using Cons.prems(3) by (intro Cons.IH [OF inv(1) rest]) simp
    then have "segments_result segs active complete
        (segment_layout_events P valid os args segs layouts es (active[unat i := None], complete @ [r]))"
    proof (rule segments_resultI)
      fix j :: ProgramSegmentId and r' assume "active ! unat j = Some r'"
      then show "r' \<in> set (complete @ [r]) \<or> (\<exists>r2. active[unat i := None] ! unat j = Some r2 \<and> record_le r' r2)"
        using r by (cases "unat j = unat i") auto
    qed auto
    then show ?thesis using r len inv(2) by (simp add: SegmentEnd get_def)
  next
    case (Section s)
    obtain x where x: "segment_layout_section P valid os layouts s active = Some x"
      using segment_layout_section_total Cons.prems(3) Section by (metis list.set_intros(1))
    have rest: "replay es (n, opened) = Some (length segs, {})" and known: "\<forall>s. Section s \<in> set es \<longrightarrow> section_known P os layouts s"
      using Cons.prems(2,3) Section by simp_all
    from x show ?thesis
    proof (cases rule: segment_layout_section_cases)
      case (1 e)
      then show ?thesis using x by (simp add: Section segments_result_def)
    next
      case 2
      then show ?thesis using x Cons.IH [OF Cons.prems(1) rest known] by (simp add: Section)
    next
      case (3 l)
      let ?a = "map (map_option (extend_segment l)) active"
      have len: "length active = length segs" using Cons.prems(1) by (simp add: segments_inv_def)
      have "segments_result segs ?a complete (segment_layout_events P valid os args segs layouts es (?a, complete))"
        by (rule Cons.IH [OF segments_inv_extend [OF Cons.prems(1)] rest known])
      then have "segments_result segs active complete (segment_layout_events P valid os args segs layouts es (?a, complete))"
        by (rule segments_resultI) (use len in \<open>auto simp: record_le_extend\<close>)
      then show ?thesis using x 3(2) by (simp add: Section)
    qed
  next
    case (SetLocation a)
    then show ?thesis using Cons.IH [OF Cons.prems(1)] Cons.prems(2,3) by simp
  qed
qed

section \<open>The layout of the segments\<close>

lemma segments_inv_initial: "length segs \<le> 256 \<Longrightarrow> segments_inv segs (replicate (length segs) None, []) (0, {})"
  by (auto simp: segments_inv_def)

text \<open>Sorted by their numbers, the complete records are at the index of their number.\<close>

lemma sorted_by_id:
  assumes "distinct (map sr_segment_id c)" and "set (map sr_segment_id c) = {i. unat i < n}" and "n \<le> 256"
  shows "length (sort_key sr_segment_id c) = n" and "\<And>i. unat i < n \<Longrightarrow> sr_segment_id (sort_key sr_segment_id c ! unat i) = i"
proof -
  let ?ids = "map sr_segment_id (sort_key sr_segment_id c)" and ?all = "map of_nat [0..<n] :: ProgramSegmentId list"
  have u: "unat (of_nat k :: ProgramSegmentId) = k" if "k < n" for k using that assms(3) by (simp add: unat_of_nat)
  have "set ?all = {i. unat i < n}"
  proof (intro set_eqI iffI)
    fix i assume "i \<in> {i :: ProgramSegmentId. unat i < n}"
    then show "i \<in> set ?all" by (auto intro!: image_eqI [of _ _ "unat i"])
  qed (auto simp: u)
  moreover have "distinct ?all" using u by (auto simp: distinct_map inj_on_def) (metis u)
  moreover have "sorted ?all" using u by (auto simp: sorted_iff_nth_mono word_le_nat_alt)
  moreover have "distinct ?ids" using assms(1) by (simp add: distinct_map)
  moreover have "sorted ?ids" by simp
  moreover have "set ?ids = {i. unat i < n}" using assms(2) by simp
  ultimately have eq: "?ids = ?all" by (metis sorted_distinct_set_unique)
  then show len: "length (sort_key sr_segment_id c) = n" by (metis length_map diff_zero length_upt)
  fix i :: ProgramSegmentId assume i: "unat i < n"
  then have "?ids ! unat i = ?all ! unat i" using eq by simp
  then show "sr_segment_id (sort_key sr_segment_id c ! unat i) = i" using i len by simp
qed

lemma collect_segments_total:
  assumes "\<forall>i\<in>set ids. unat i < length segs" and "length complete = length segs"
  shows "\<exists>ls tls. collect_segments P segs complete ids = Some (ls, tls) \<and>
    ls = map (\<lambda>i. \<lparr>sl_id = i, sl_sizes = segment_sizes (complete ! unat i)\<rparr>) ids"
  using assms(1)
proof (induction ids)
  case (Cons i ids)
  then show ?case using assms(2) by (auto simp: get_def segment_def_def)
qed simp

text \<open>The section is left out: it is empty and not part of the output.\<close>

definition skipped :: "'a OutputSections \<Rightarrow> OutputRecordLayout list \<Rightarrow> OutputSectionId \<Rightarrow> bool" where
  "skipped os layouts s \<longleftrightarrow> (\<exists>l t. section_map_get layouts s = Some l \<and> primary_output_section os s = Some t \<and>
     rl_file_size l = 0 \<and> rl_mem_size l = 0 \<and> get (os_output_section_indexes os) (unat t) = Some None)"

lemma segment_layout_section_extends:
  assumes "segment_layout_section P valid os layouts s active = Some (Inr active')" and "\<not> skipped os layouts s"
    and "active ! k \<noteq> None" and "k < length active"
  shows "\<exists>l. section_map_get layouts s = Some l \<and> active' = map (map_option (extend_segment l)) active"
proof -
  have "\<not> list_all (\<lambda>a. a = None) active" using assms(3,4) by (auto simp: list_all_length)
  with assms(1,2) show ?thesis
    by (auto simp: segment_layout_section_def Let_def skipped_def split: bind_splits if_splits)
qed

lemma segment_layout_events_step:
  assumes "segment_layout_events P valid os args segs layouts (e # es) (active, complete) = Some (Inr c)"
    and "segments_inv segs (active, complete) (n, opened)" and "replay (e # es) (n, opened) = Some (length segs, {})"
  obtains active1 complete1 n1 opened1 where "segments_inv segs (active1, complete1) (n1, opened1)"
    and "replay [e] (n, opened) = Some (n1, opened1)"
    and "segment_layout_events P valid os args segs layouts es (active1, complete1) = Some (Inr c)"
proof (cases e)
  case (SegmentStart i)
  have i: "unat i = n" and rest: "replay es (Suc n, insert i opened) = Some (length segs, {})"
    using assms(3) SegmentStart by (auto split: if_splits)
  have n: "n < length segs" using replay_n_mono [OF rest] by simp
  from assms(1) SegmentStart obtain d where
    ev: "segment_layout_events P valid os args segs layouts es (active[unat i := Some (new_segment_record P args d i)], complete) = Some (Inr c)"
    by (auto simp: set_at_def split: bind_splits if_splits)
  have "segments_inv segs (active[unat i := Some (new_segment_record P args d i)], complete) (Suc n, insert i opened)"
    by (rule segments_inv_start [OF assms(2) i n]) (simp add: new_segment_record_def)
  then show thesis using ev i SegmentStart by (intro that) auto
next
  case (SegmentEnd i)
  have i: "i \<in> opened" using assms(3) SegmentEnd by (auto split: if_splits)
  from assms(1) SegmentEnd obtain r where r: "active ! unat i = Some r"
    and ev: "segment_layout_events P valid os args segs layouts es (active[unat i := None], complete @ [r]) = Some (Inr c)"
    by (auto simp: get_def split: bind_splits if_splits option.splits)
  show thesis using ev i SegmentEnd segments_inv_end(1) [OF assms(2) i r] by (intro that) auto
next
  case (Section s)
  from assms(1) Section obtain active1 where x: "segment_layout_section P valid os layouts s active = Some (Inr active1)"
    and ev: "segment_layout_events P valid os args segs layouts es (active1, complete) = Some (Inr c)"
    by (auto split: bind_splits sum.splits)
  from x have "segments_inv segs (active1, complete) (n, opened)"
    by (cases rule: segment_layout_section_cases) (use assms(2) in \<open>auto intro: segments_inv_extend\<close>)
  then show thesis using ev Section by (intro that) auto
next
  case (SetLocation a)
  then show thesis using assms by (intro that) auto
qed

lemma segments_cover:
  assumes "segment_layout_events P valid os args segs layouts (pre @ Section s # post) (active, complete) = Some (Inr c)"
    and "segments_inv segs (active, complete) (n, opened)" and "replay (pre @ Section s # post) (n, opened) = Some (length segs, {})"
    and "\<forall>t. Section t \<in> set (pre @ Section s # post) \<longrightarrow> section_known P os layouts t" and "\<not> skipped os layouts s"
    and "replay pre (n, opened) = Some (n', opened')" and "i \<in> opened'"
  shows "\<exists>l r. section_map_get layouts s = Some l \<and> r \<in> set c \<and> sr_segment_id r = i \<and> covers_layout r l"
  using assms(1-4,6)
proof (induction pre arbitrary: active complete n opened)
  case Nil
  have op: "i \<in> opened" using Nil.prems(5) assms(7) by simp
  have "opened \<subseteq> {i. unat i < n}" and "n \<le> length segs" and len: "length active = length segs"
    and act: "\<forall>i. unat i < length segs \<longrightarrow> (active ! unat i \<noteq> None \<longleftrightarrow> i \<in> opened)"
    and ids: "\<forall>i r. unat i < length segs \<and> active ! unat i = Some r \<longrightarrow> sr_segment_id r = i"
    using Nil.prems(2) by (simp_all add: segments_inv_def)
  then have i: "unat i < length segs" using op by auto
  then obtain r0 where r0: "active ! unat i = Some r0" "sr_segment_id r0 = i" using act op ids by blast
  from Nil.prems(1) obtain active1 where x: "segment_layout_section P valid os layouts s active = Some (Inr active1)"
    and ev: "segment_layout_events P valid os args segs layouts post (active1, complete) = Some (Inr c)"
    by (auto split: bind_splits sum.splits)
  obtain l where l: "section_map_get layouts s = Some l" "active1 = map (map_option (extend_segment l)) active"
    using segment_layout_section_extends [OF x assms(5), of "unat i"] r0 i len by auto
  have "segments_result segs active1 complete (Some (Inr c))"
    using segment_layout_events_result [OF segments_inv_extend [OF Nil.prems(2), of l], of post P os layouts valid args]
      Nil.prems(3,4) ev l(2) by simp
  moreover have "active1 ! unat i = Some (extend_segment l r0)" using r0 i len by (simp add: l(2))
  ultimately obtain r' where r': "r' \<in> set c" "record_le (extend_segment l r0) r'"
    using i unfolding segments_result_def by blast
  then have "sr_segment_id r' = i" "covers_layout r' l"
    using r0(2) covers_layout_mono [OF covers_extend] by (auto simp: record_le_def extend_segment_def)
  then show ?case using l(1) r'(1) by blast
next
  case (Cons e pre)
  from Cons.prems(1-3) have p: "segment_layout_events P valid os args segs layouts (e # (pre @ Section s # post)) (active, complete) = Some (Inr c)"
    and rp: "replay (e # (pre @ Section s # post)) (n, opened) = Some (length segs, {})" by simp_all
  obtain active1 complete1 n1 opened1 where inv: "segments_inv segs (active1, complete1) (n1, opened1)"
    and e: "replay [e] (n, opened) = Some (n1, opened1)"
    and ev: "segment_layout_events P valid os args segs layouts (pre @ Section s # post) (active1, complete1) = Some (Inr c)"
    using segment_layout_events_step [OF p Cons.prems(2) rp] by blast
  have "replay (pre @ Section s # post) (n1, opened1) = Some (length segs, {})" and "replay pre (n1, opened1) = Some (n', opened')"
    using rp Cons.prems(5) e replay_append [of "[e]" "pre @ Section s # post" "(n, opened)"] replay_append [of "[e]" pre "(n, opened)"]
    by simp_all
  then show ?case using Cons.IH [OF ev inv] Cons.prems(4) by simp
qed

text \<open>
  (C13) On a well-bracketed order, the layout of the segments does not panic and does not complain of a
  segment that ends without a start. If it succeeds, it lists the requested segments, and each
  of them covers the file range, the addresses and the alignment of every section inside it that is
  part of the output.
\<close>

theorem segments_cover_sections:
  assumes "replay events (0, {}) = Some (length segs, {})" and "length segs \<le> 256" and "\<not> la_should_output_partial_object args"
    and "\<forall>s. Section s \<in> set events \<longrightarrow> section_known P os layouts s" and "\<forall>i\<in>set ids. unat i < length segs"
  shows "\<exists>x. compute_segment_layout P valid os args segs layouts events ids = Some x \<and>
    (\<forall>i. x \<noteq> Inl (SegmentEnd_Without_Start i)) \<and>
    (\<forall>ls tls. x = Inr (ls, tls) \<longrightarrow> mset (map sl_id ls) = mset ids \<and>
      (\<forall>l\<in>set ls. \<forall>pre s post n opened. events = pre @ Section s # post \<and> replay pre (0, {}) = Some (n, opened) \<and>
         sl_id l \<in> opened \<and> \<not> skipped os layouts s \<longrightarrow>
         (\<exists>r sec. section_map_get layouts s = Some sec \<and> covers_layout r sec \<and> sl_sizes l = segment_sizes r)))"
proof -
  let ?ev = "segment_layout_events P valid os args segs layouts events (replicate (length segs) None, [])"
  note inv = segments_inv_initial [OF assms(2)]
  have "segments_result segs (replicate (length segs) None) [] ?ev"
    by (rule segment_layout_events_result [OF inv assms(1,4)])
  then consider e where "?ev = Some (Inl e)" "\<forall>i. e \<noteq> SegmentEnd_Without_Start i"
    | c where "?ev = Some (Inr c)" "distinct (map sr_segment_id c)" "set (map sr_segment_id c) = {i. unat i < length segs}"
    unfolding segments_result_def by blast
  then show ?thesis
  proof cases
    case (1 e)
    then show ?thesis using assms(3) by (simp add: compute_segment_layout_def)
  next
    case (2 c)
    let ?c = "sort_key sr_segment_id c"
    note srt = sorted_by_id [OF 2(2,3) assms(2)]
    obtain ls tls where col: "collect_segments P segs ?c ids = Some (ls, tls)"
      and ls: "ls = map (\<lambda>i. \<lparr>sl_id = i, sl_sizes = segment_sizes (?c ! unat i)\<rparr>) ids"
      using collect_segments_total [OF assms(5) srt(1)] by blast
    let ?ls = "sort_key (\<lambda>l. the (segments_order_key P segs (sl_id l) (rl_mem_offset (sl_sizes l)))) ls"
    have x: "compute_segment_layout P valid os args segs layouts events ids = Some (Inr (?ls, tls))"
      using assms(3) 2(1) srt(1) col by (simp add: compute_segment_layout_def)
    have "mset (map sl_id ?ls) = mset (map sl_id ls)" by (simp only: mset_map mset_sort)
    then have "mset (map sl_id ?ls) = mset ids" by (simp add: ls comp_def del: mset_map)
    moreover have "\<exists>r sec. section_map_get layouts s = Some sec \<and> covers_layout r sec \<and> sl_sizes l = segment_sizes r"
      if l: "l \<in> set ?ls" and ev: "events = pre @ Section s # post" and rp: "replay pre (0, {}) = Some (n, opened)"
        and op: "sl_id l \<in> opened" and nsk: "\<not> skipped os layouts s" for l pre s post n opened
    proof -
      obtain i where i: "i \<in> set ids" "l = \<lparr>sl_id = i, sl_sizes = segment_sizes (?c ! unat i)\<rparr>" using l by (auto simp: ls)
      obtain sec r where r: "section_map_get layouts s = Some sec" "r \<in> set c" "sr_segment_id r = i" "covers_layout r sec"
        using segments_cover [OF 2(1) [unfolded ev] inv assms(1) [unfolded ev] assms(4) [unfolded ev] nsk rp, of i] op i(2) by auto
      have ui: "unat i < length segs" using assms(5) i(1) by blast
      then have "?c ! unat i \<in> set c" "sr_segment_id (?c ! unat i) = i"
        using srt nth_mem [of "unat i" ?c] by simp_all
      then have "?c ! unat i = r" using 2(2) r(2,3) by (auto simp: distinct_map dest: inj_onD)
      then show ?thesis using r(1,4) i(2) by auto
    qed
    ultimately show ?thesis using x by auto
  qed
qed

theorem segments_cover_sections_witness:
  "\<forall>(P :: (unit, unit) Platform) valid.
     \<exists>x. compute_segment_layout P valid (with_base_address [] 0)
        \<lparr>la_loadable_segment_alignment = Alignment 12, la_should_output_partial_object = False, la_writes_cache = False,
         la_stack_size_override = None\<rparr> [()] [] [SegmentStart 0, SegmentEnd 0] [0] = Some x \<and>
       (\<forall>i. x \<noteq> Inl (SegmentEnd_Without_Start i))"
proof (intro allI)
  fix P :: "(unit, unit) Platform" and valid
  let ?args = "\<lparr>la_loadable_segment_alignment = Alignment 12, la_should_output_partial_object = False, la_writes_cache = False,
         la_stack_size_override = None\<rparr>"
  show "\<exists>x. compute_segment_layout P valid (with_base_address [] 0) ?args [()] [] [SegmentStart 0, SegmentEnd 0] [0] = Some x \<and>
       (\<forall>i. x \<noteq> Inl (SegmentEnd_Without_Start i))"
    using segments_cover_sections [of "[SegmentStart 0, SegmentEnd 0]" "[()]" ?args P "with_base_address [] 0" "[]" "[0]" valid] by auto
qed

section \<open>Sections span their parts\<close>

lemma fold_min: "fold (\<lambda>r m. min m (f r)) rs (a :: 'b::linorder) \<le> a \<and> (\<forall>r\<in>set rs. fold (\<lambda>r m. min m (f r)) rs a \<le> f r)"
proof (induction rs arbitrary: a)
  case (Cons r rs)
  from Cons [of "min a (f r)"] show ?case by (auto intro: order_trans)
qed simp

lemma fold_max: "(a :: 'b::linorder) \<le> fold (\<lambda>r m. max m (f r)) rs a \<and> (\<forall>r\<in>set rs. f r \<le> fold (\<lambda>r m. max m (f r)) rs a)"
proof (induction rs arbitrary: a)
  case (Cons r rs)
  from Cons [of "max a (f r)"] show ?case by (auto intro: order_trans)
qed simp

lemma fold_min_attained: "fold (\<lambda>r m. min m (f r)) rs (a :: 'b::linorder) = a \<or> (\<exists>r\<in>set rs. fold (\<lambda>r m. min m (f r)) rs a = f r)"
proof (induction rs arbitrary: a)
  case (Cons r rs)
  from Cons [of "min a (f r)"] show ?case by (auto simp: min_def split: if_splits)
qed simp

lemma fold_max_attained: "fold (\<lambda>r m. max m (f r)) rs (a :: 'b::linorder) = a \<or> (\<exists>r\<in>set rs. fold (\<lambda>r m. max m (f r)) rs a = f r)"
proof (induction rs arbitrary: a)
  case (Cons r rs)
  from Cons [of "max a (f r)"] show ?case by (auto simp: max_def split: if_splits)
qed simp

text \<open>The extent of a section is the smallest one that contains all its parts.\<close>

lemma merge_part_layouts_span:
  fixes layouts :: "OutputRecordLayout list" and a :: Alignment
  defines "l \<equiv> merge_part_layouts a layouts"
  assumes "layouts \<noteq> []"
  shows "(\<forall>r\<in>set layouts. rl_file_offset l \<le> rl_file_offset r \<and> rl_file_offset r + rl_file_size r \<le> rl_file_offset l + rl_file_size l \<and>
      rl_mem_offset l \<le> rl_mem_offset r \<and> rl_mem_offset r + rl_mem_size r \<le> rl_mem_offset l + rl_mem_size l) \<and>
    (\<exists>r\<in>set layouts. rl_file_offset l = rl_file_offset r) \<and> (\<exists>r\<in>set layouts. rl_mem_offset l = rl_mem_offset r) \<and>
    (\<exists>r\<in>set layouts. rl_file_offset l + rl_file_size l = rl_file_offset r + rl_file_size r) \<and>
    (\<exists>r\<in>set layouts. rl_mem_offset l + rl_mem_size l = rl_mem_offset r + rl_mem_size r)"
proof -
  obtain r0 where r0: "r0 \<in> set layouts" using assms(2) by (cases layouts) auto
  have min: "\<exists>r\<in>set layouts. fold (\<lambda>r m. min m (f r)) layouts (- 1) = f r" for f :: "OutputRecordLayout \<Rightarrow> u64"
    using fold_min_attained [of f layouts "- 1"] fold_min [of f layouts "- 1"] r0 word_order.extremum_uniqueI by metis
  have max: "\<exists>r\<in>set layouts. fold (\<lambda>r m. max m (f r)) layouts 0 = f r" for f :: "OutputRecordLayout \<Rightarrow> u64"
    using fold_max_attained [of f layouts 0] fold_max [of 0 f layouts] r0 by (metis word_le_0_iff)
  show ?thesis
    using fold_min [of rl_file_offset layouts "- 1"] fold_min [of rl_mem_offset layouts "- 1"]
      fold_max [of 0 "\<lambda>r. rl_file_offset r + rl_file_size r" layouts] fold_max [of 0 "\<lambda>r. rl_mem_offset r + rl_mem_size r" layouts]
      min [of rl_file_offset] min [of rl_mem_offset]
      max [of "\<lambda>r. rl_file_offset r + rl_file_size r"] max [of "\<lambda>r. rl_mem_offset r + rl_mem_size r"]
    by (simp add: l_def merge_part_layouts_def Let_def)
qed

lemma num_parts_base: "i < 2 ^ 32 \<Longrightarrow> num_parts_of_section (of_nat i) = base_nat (Suc i) - base_nat i"
  by (simp add: num_parts_of_section_def NUM_SINGLE_PART_SECTIONS_def word_less_nat_alt unat_of_nat base_nat_Suc)

abbreviation parts_of :: "nat \<Rightarrow> 't list \<Rightarrow> 't list" where
  "parts_of i parts \<equiv> take (base_nat (Suc i) - base_nat i) (drop (base_nat i) parts)"

lemma merge_parts_from_eq:
  assumes "base_nat n \<le> length parts" and "n \<le> 2 ^ 32" and "i \<le> n"
  shows "merge_parts_from cb [i..<n] (drop (base_nat i) parts) = Some (map (\<lambda>j. cb (of_nat j) (parts_of j parts)) [i..<n])"
  using assms(3)
proof (induction "n - i" arbitrary: i)
  case (Suc d)
  then have i: "i < n" by simp
  have le: "base_nat i \<le> base_nat (Suc i)" "base_nat (Suc i) \<le> base_nat n" using i by (simp_all add: base_nat_mono)
  have "drop (base_nat (Suc i) - base_nat i) (drop (base_nat i) parts) = drop (base_nat (Suc i)) parts" using le(1) by simp
  moreover have "merge_parts_from cb [Suc i..<n] (drop (base_nat (Suc i)) parts) =
      Some (map (\<lambda>j. cb (of_nat j) (parts_of j parts)) [Suc i..<n])"
    using Suc.hyps(2) i by (intro Suc.hyps(1)) simp_all
  ultimately show ?case using i le assms(1,2) by (simp add: upt_conv_Cons num_parts_base Let_def)
qed simp

lemma merge_parts_eq:
  assumes "length parts = base_nat n" and "base_nat n < 2 ^ 32"
  shows "merge_parts cb parts = Some (map (\<lambda>j. cb (of_nat j) (parts_of j parts)) [0..<n])"
proof -
  have "section_nat (base_nat n) = n" by (subst section_nat_iff) (simp add: base_nat_Suc)
  then have "unat (output_section_id (of_nat (length parts))) = n"
    using assms by (simp add: unat_output_section_id unat_of_nat)
  moreover have "n \<le> 2 ^ 32" using base_nat_bounds(1) [of n] assms(2) by simp
  moreover have "base_nat 0 = 0" by (simp add: base_nat_def)
  ultimately show ?thesis
    using merge_parts_from_eq [of n parts 0 cb] assms by (simp add: merge_parts_def part_id_from_usize_def)
qed

text \<open>
  The extents of the sections: every section starts in the file and in memory at the lowest start
  of its parts and ends at the highest end, so that it contains them; and computing them does not
  panic.
\<close>

theorem layout_sections_span:
  assumes "length part_layouts = base_nat (length (os_section_infos os))" and "base_nat (length (os_section_infos os)) < 2 ^ 32"
  shows "\<exists>secs. layout_sections os part_layouts = Some secs \<and> length secs = length (os_section_infos os) \<and>
    (\<forall>i<length secs. (\<forall>p. base_nat i \<le> p \<and> p < base_nat (Suc i) \<longrightarrow>
        rl_file_offset (secs ! i) \<le> rl_file_offset (part_layouts ! p) \<and>
        rl_file_offset (part_layouts ! p) + rl_file_size (part_layouts ! p) \<le> rl_file_offset (secs ! i) + rl_file_size (secs ! i) \<and>
        rl_mem_offset (secs ! i) \<le> rl_mem_offset (part_layouts ! p) \<and>
        rl_mem_offset (part_layouts ! p) + rl_mem_size (part_layouts ! p) \<le> rl_mem_offset (secs ! i) + rl_mem_size (secs ! i)) \<and>
      (\<exists>p. base_nat i \<le> p \<and> p < base_nat (Suc i) \<and> rl_mem_offset (secs ! i) = rl_mem_offset (part_layouts ! p)) \<and>
      (\<exists>p. base_nat i \<le> p \<and> p < base_nat (Suc i) \<and>
        rl_mem_offset (secs ! i) + rl_mem_size (secs ! i) = rl_mem_offset (part_layouts ! p) + rl_mem_size (part_layouts ! p)))"
proof -
  let ?n = "length (os_section_infos os)"
  let ?sec = "\<lambda>i. merge_part_layouts (si_min_alignment (os_section_infos os ! i)) (parts_of i part_layouts)"
  have n: "?n < 2 ^ 32" using base_nat_bounds(1) [of ?n] assms(2) by simp
  have min: "section_min_alignment os (of_nat i) = Some (si_min_alignment (os_section_infos os ! i))" if "i < ?n" for i
    using that n by (simp add: section_min_alignment_def output_info_def section_map_get_def get_def unat_of_nat)
  have secs: "layout_sections os part_layouts = Some (map ?sec [0..<?n])"
    unfolding layout_sections_def merge_parts_eq [OF assms(1,2)] by (simp add: list_all_iff min comp_def)
  have slice: "set (parts_of i part_layouts) = {part_layouts ! p |p. base_nat i \<le> p \<and> p < base_nat (Suc i)}" if "i < ?n" for i
  proof -
    have "base_nat (Suc i) \<le> length part_layouts" using that assms(1) by (simp add: base_nat_mono)
    then have "parts_of i part_layouts = map ((!) part_layouts) [base_nat i..<base_nat (Suc i)]"
      using base_nat_mono [of i "Suc i"] by (intro nth_equalityI) auto
    then show ?thesis by auto
  qed
  have span: "(\<forall>r\<in>set (parts_of i part_layouts). rl_file_offset (?sec i) \<le> rl_file_offset r \<and>
        rl_file_offset r + rl_file_size r \<le> rl_file_offset (?sec i) + rl_file_size (?sec i) \<and>
        rl_mem_offset (?sec i) \<le> rl_mem_offset r \<and> rl_mem_offset r + rl_mem_size r \<le> rl_mem_offset (?sec i) + rl_mem_size (?sec i)) \<and>
      (\<exists>r\<in>set (parts_of i part_layouts). rl_mem_offset (?sec i) = rl_mem_offset r) \<and>
      (\<exists>r\<in>set (parts_of i part_layouts). rl_mem_offset (?sec i) + rl_mem_size (?sec i) = rl_mem_offset r + rl_mem_size r)"
    if "i < ?n" for i
  proof -
    have "base_nat i < base_nat (Suc i)" by (simp add: base_nat_Suc)
    then have "parts_of i part_layouts \<noteq> []" using slice [OF that] by force
    then show ?thesis using merge_part_layouts_span [of "parts_of i part_layouts"] by blast
  qed
  show ?thesis
  proof (intro exI conjI, rule secs)
    show "length (map ?sec [0..<?n]) = ?n" by simp
  qed (use span in \<open>auto simp: slice\<close>)
qed

theorem layout_sections_span_witness:
  "\<exists>secs. layout_sections (with_base_address [\<lparr>si_kind = Primary [], si_section_attributes = (), si_min_alignment = Alignment 3,
     si_location = None, si_secondary_order = None\<rparr>] 0) [default_layout\<lparr>rl_mem_offset := 64, rl_mem_size := 8\<rparr>] = Some secs \<and>
   rl_mem_offset (secs ! 0) = 64"
  using layout_sections_span [of "[default_layout\<lparr>rl_mem_offset := 64, rl_mem_size := 8\<rparr>]" "with_base_address
    [\<lparr>si_kind = Primary [], si_section_attributes = (), si_min_alignment = Alignment 3, si_location = None, si_secondary_order = None\<rparr>] 0"]
  by (auto simp: base_nat_def with_base_address_def less_Suc_eq)

section \<open>Groups\<close>

lemma merge_part_maps_nth:
  assumes "length r \<le> length l"
  shows "length (merge_part_maps l r) = length l"
    and "k < length l \<Longrightarrow> merge_part_maps l r ! k = l ! k + (if k < length r then r ! k else 0)"
  using assms by (auto simp: merge_part_maps_def nth_append)

definition group_size :: "u64 list list \<Rightarrow> nat \<Rightarrow> nat \<Rightarrow> nat" where
  "group_size groups g k = (if k < length (groups ! g) then unat (groups ! g ! k) else 0)"

lemma group_size_Suc [simp]: "group_size (s # groups) (Suc h) k = group_size groups h k"
  by (simp add: group_size_def)

lemma group_size_sum:
  "(\<Sum>h<Suc n. group_size (s # groups) h k) = group_size (s # groups) 0 k + (\<Sum>h<n. group_size groups h k)"
  by (subst sum.lessThan_Suc_shift) simp

lemma start_offsets_nth:
  assumes "\<forall>g\<in>set groups. length g \<le> length offsets" and "k < length offsets" and "g < length groups"
    and "unat (offsets ! k) + (\<Sum>h<length groups. group_size groups h k) < 2 ^ 64"
  shows "unat (compute_start_offsets_by_group groups offsets ! g ! k) = unat (offsets ! k) + (\<Sum>h<g. group_size groups h k)"
  using assms
proof (induction groups arbitrary: offsets g)
  case (Cons s groups)
  show ?case
  proof (cases g)
    case (Suc g')
    let ?m = "merge_part_maps offsets s"
    have s: "length s \<le> length offsets" using Cons.prems(1) by simp
    note m = merge_part_maps_nth [OF s]
    have tot: "unat (offsets ! k) + (group_size (s # groups) 0 k + (\<Sum>h<length groups. group_size groups h k)) < 2 ^ 64"
      using Cons.prems(4) group_size_sum [of s groups k "length groups"] by simp
    have mk: "unat (?m ! k) = unat (offsets ! k) + group_size (s # groups) 0 k"
      using tot Cons.prems(2) m(2) [of k] by (auto simp: group_size_def unat_add_no_overflow)
    have "unat (compute_start_offsets_by_group groups ?m ! g' ! k) = unat (?m ! k) + (\<Sum>h<g'. group_size groups h k)"
      using Cons.prems(1-3) Suc m(1) mk tot by (intro Cons.IH) simp_all
    then show ?thesis using mk Suc group_size_sum [of s groups k g'] by simp
  qed simp
qed simp

lemma total_group_sizes_nth:
  assumes "\<forall>g\<in>set groups. length g \<le> length t" and "k < length t"
    and "unat (t ! k) + (\<Sum>h<length groups. group_size groups h k) < 2 ^ 64"
  shows "unat (fold (\<lambda>g t. merge_part_maps t g) groups t ! k) = unat (t ! k) + (\<Sum>h<length groups. group_size groups h k)"
  using assms
proof (induction groups arbitrary: t)
  case (Cons s groups)
  have s: "length s \<le> length t" using Cons.prems(1) by simp
  note m = merge_part_maps_nth [OF s]
  have tot: "unat (t ! k) + (group_size (s # groups) 0 k + (\<Sum>h<length groups. group_size groups h k)) < 2 ^ 64"
    using Cons.prems(3) group_size_sum [of s groups k "length groups"] by simp
  have mk: "unat (merge_part_maps t s ! k) = unat (t ! k) + group_size (s # groups) 0 k"
    using tot Cons.prems(2) m(2) [of k] by (auto simp: group_size_def unat_add_no_overflow)
  have "unat (fold (\<lambda>g t. merge_part_maps t g) groups (merge_part_maps t s) ! k) =
      unat (merge_part_maps t s ! k) + (\<Sum>h<length groups. group_size groups h k)"
    using Cons.prems(1,2) m(1) mk tot by (intro Cons.IH) simp_all
  then show ?case using mk group_size_sum [of s groups k "length groups"] by simp
qed simp

text \<open>
  (C26) The groups of input files divide every part among them without a gap and without an overlap: a
  group starts where the part starts plus the sizes of the groups before it, so the range of the
  last group ends at the start of the part plus the size that the sum over the groups gives for it.
\<close>

theorem group_ranges_partition:
  assumes "\<forall>g\<in>set groups. length g \<le> length layouts" and "k < length layouts"
    and "unat (rl_mem_offset (layouts ! k)) + (\<Sum>h<length groups. group_size groups h k) < 2 ^ 64"
  shows "(\<forall>g<length groups. unat (compute_start_offsets_by_group groups (starting_memory_offsets layouts) ! g ! k) =
      unat (rl_mem_offset (layouts ! k)) + (\<Sum>h<g. group_size groups h k)) \<and>
    unat (total_group_sizes (length layouts) groups ! k) = (\<Sum>h<length groups. group_size groups h k)"
proof (intro conjI allI impI)
  fix g assume "g < length groups"
  then show "unat (compute_start_offsets_by_group groups (starting_memory_offsets layouts) ! g ! k) =
      unat (rl_mem_offset (layouts ! k)) + (\<Sum>h<g. group_size groups h k)"
    using start_offsets_nth [of groups "starting_memory_offsets layouts" k g] assms by (simp add: starting_memory_offsets_def)
next
  show "unat (total_group_sizes (length layouts) groups ! k) = (\<Sum>h<length groups. group_size groups h k)"
    using total_group_sizes_nth [of groups "replicate (length layouts) 0" k] assms by (simp add: total_group_sizes_def)
qed

theorem group_ranges_partition_witness:
  "unat (compute_start_offsets_by_group [[5], [7]] (starting_memory_offsets [default_layout\<lparr>rl_mem_offset := 64\<rparr>]) ! 1 ! 0) = 69"
proof -
  let ?l = "[default_layout\<lparr>rl_mem_offset := 64\<rparr>]"
  have "(\<Sum>h<length [[5], [7::u64]]. group_size [[5], [7]] h 0) = 12" and "(\<Sum>h<1. group_size [[5], [7]] h 0) = 5"
    by (simp_all add: group_size_def lessThan_Suc)
  then show ?thesis using group_ranges_partition [of "[[5], [7]]" ?l 0] by auto
qed

end
