(* ===== verification/Value_Flags.thy ===== *)
theory Value_Flags
  imports Elf_Reloc
begin

text \<open>
  Model of \<open>libwild/src/value_flags.rs\<close>: the flags of a symbol or section. Part of them describe
  the value, the others what references need of it. While the inputs are scanned, many threads
  add flags to the same symbol without locks; from the flags that were there before, a thread
  decides whether it has to load the symbol.

  The theorem: whatever the interleaving, no flag gets lost, and exactly one caller of \<open>fetch_or\<close> finds
  that a group of flags was empty before its call.
\<close>

section \<open>Flags\<close>

type_synonym ValueFlags = u16

definition VF_ABSOLUTE :: ValueFlags where "VF_ABSOLUTE = push_bit 0 1"
definition VF_DYNAMIC :: ValueFlags where "VF_DYNAMIC = push_bit 1 1"
definition VF_IFUNC :: ValueFlags where "VF_IFUNC = push_bit 2 1"
definition VF_NON_INTERPOSABLE :: ValueFlags where "VF_NON_INTERPOSABLE = push_bit 3 1"
definition VF_DOWNGRADE_TO_LOCAL :: ValueFlags where "VF_DOWNGRADE_TO_LOCAL = push_bit 4 1"
definition VF_FUNCTION :: ValueFlags where "VF_FUNCTION = push_bit 5 1"
definition VF_DIRECT :: ValueFlags where "VF_DIRECT = push_bit 6 1"
definition VF_GOT :: ValueFlags where "VF_GOT = push_bit 7 1"
definition VF_PLT :: ValueFlags where "VF_PLT = push_bit 8 1"
definition VF_GOT_TLS_MODULE :: ValueFlags where "VF_GOT_TLS_MODULE = push_bit 9 1"
definition VF_GOT_TLS_OFFSET :: ValueFlags where "VF_GOT_TLS_OFFSET = push_bit 10 1"
definition VF_GOT_TLS_DESCRIPTOR :: ValueFlags where "VF_GOT_TLS_DESCRIPTOR = push_bit 11 1"
definition VF_EXPORT_DYNAMIC :: ValueFlags where "VF_EXPORT_DYNAMIC = push_bit 12 1"
definition VF_COPY_RELOCATION :: ValueFlags where "VF_COPY_RELOCATION = push_bit 13 1"
definition VF_IFUNC_GOT_FOR_ADDRESS :: ValueFlags where "VF_IFUNC_GOT_FOR_ADDRESS = push_bit 14 1"
definition VF_OBJC_STUB :: ValueFlags where "VF_OBJC_STUB = push_bit 15 1"

text \<open>\<open>contains\<close> of the \<open>bitflags\<close> crate: all bits of the second argument are set.\<close>

definition contains :: "ValueFlags \<Rightarrow> ValueFlags \<Rightarrow> bool" where
  "contains f g \<longleftrightarrow> f AND g = g"

definition merge_flags :: "ValueFlags \<Rightarrow> ValueFlags \<Rightarrow> ValueFlags" where
  "merge_flags f g = (if contains g VF_NON_INTERPOSABLE then f OR VF_NON_INTERPOSABLE else f)"

definition resolution_flags :: "ValueFlags \<Rightarrow> ValueFlags" where
  "resolution_flags f = f AND (VF_DIRECT OR VF_GOT OR VF_PLT OR VF_GOT_TLS_MODULE OR VF_GOT_TLS_OFFSET
     OR VF_GOT_TLS_DESCRIPTOR OR VF_EXPORT_DYNAMIC OR VF_COPY_RELOCATION OR VF_IFUNC_GOT_FOR_ADDRESS)"

definition has_resolution :: "ValueFlags \<Rightarrow> bool" where
  "has_resolution f \<longleftrightarrow> resolution_flags f \<noteq> 0"

definition is_dynamic :: "ValueFlags \<Rightarrow> bool" where
  "is_dynamic f \<longleftrightarrow> contains f VF_DYNAMIC"

definition is_ifunc :: "ValueFlags \<Rightarrow> bool" where
  "is_ifunc f \<longleftrightarrow> contains f VF_IFUNC"

definition is_address :: "ValueFlags \<Rightarrow> bool" where
  "is_address f \<longleftrightarrow> \<not> contains f VF_IFUNC \<and> \<not> contains f VF_DYNAMIC \<and> \<not> contains f VF_ABSOLUTE"

definition is_absolute :: "ValueFlags \<Rightarrow> bool" where
  "is_absolute f \<longleftrightarrow> contains f VF_ABSOLUTE"

definition is_function :: "ValueFlags \<Rightarrow> bool" where
  "is_function f \<longleftrightarrow> contains f VF_FUNCTION"

definition is_downgraded_to_local :: "ValueFlags \<Rightarrow> bool" where
  "is_downgraded_to_local f \<longleftrightarrow> contains f VF_DOWNGRADE_TO_LOCAL"

definition is_symtab_local :: "ValueFlags \<Rightarrow> bool \<Rightarrow> bool" where
  "is_symtab_local f sym_is_local \<longleftrightarrow> sym_is_local \<or> is_downgraded_to_local f"

definition is_interposable :: "ValueFlags \<Rightarrow> bool" where
  "is_interposable f \<longleftrightarrow> \<not> contains f VF_NON_INTERPOSABLE"

definition needs_direct :: "ValueFlags \<Rightarrow> bool" where
  "needs_direct f \<longleftrightarrow> contains f VF_DIRECT"

definition needs_copy_relocation :: "ValueFlags \<Rightarrow> bool" where
  "needs_copy_relocation f \<longleftrightarrow> contains f VF_COPY_RELOCATION"

definition needs_export_dynamic :: "ValueFlags \<Rightarrow> bool" where
  "needs_export_dynamic f \<longleftrightarrow> contains f VF_EXPORT_DYNAMIC"

definition needs_got :: "ValueFlags \<Rightarrow> bool" where
  "needs_got f \<longleftrightarrow> contains f VF_GOT"

definition needs_plt :: "ValueFlags \<Rightarrow> bool" where
  "needs_plt f \<longleftrightarrow> contains f VF_PLT"

definition needs_got_tls_offset :: "ValueFlags \<Rightarrow> bool" where
  "needs_got_tls_offset f \<longleftrightarrow> contains f VF_GOT_TLS_OFFSET"

definition needs_got_tls_module :: "ValueFlags \<Rightarrow> bool" where
  "needs_got_tls_module f \<longleftrightarrow> contains f VF_GOT_TLS_MODULE"

definition needs_got_tls_descriptor :: "ValueFlags \<Rightarrow> bool" where
  "needs_got_tls_descriptor f \<longleftrightarrow> contains f VF_GOT_TLS_DESCRIPTOR"

definition needs_ifunc_got_for_address :: "ValueFlags \<Rightarrow> bool" where
  "needs_ifunc_got_for_address f \<longleftrightarrow> contains f VF_IFUNC_GOT_FOR_ADDRESS"

definition flags_is_tls :: "ValueFlags \<Rightarrow> bool" where
  "flags_is_tls f \<longleftrightarrow> contains f VF_GOT_TLS_OFFSET \<or> contains f VF_GOT_TLS_MODULE \<or> contains f VF_GOT_TLS_DESCRIPTOR"

text \<open>What a relocation needs of its symbol: \<open>layout::resolution_flags\<close>.\<close>

fun relocation_resolution_flags :: "RelocationKind \<Rightarrow> ValueFlags" where
  "relocation_resolution_flags PltRelative = VF_PLT OR VF_GOT"
| "relocation_resolution_flags PltRelGotBase = VF_PLT OR VF_GOT"
| "relocation_resolution_flags Got = VF_GOT"
| "relocation_resolution_flags GotRelGotBase = VF_GOT"
| "relocation_resolution_flags GotRelative = VF_GOT"
| "relocation_resolution_flags GotRelativeLoongArch64 = VF_GOT"
| "relocation_resolution_flags GotTpOff = VF_GOT_TLS_OFFSET"
| "relocation_resolution_flags GotTpOffLoongArch64 = VF_GOT_TLS_OFFSET"
| "relocation_resolution_flags GotTpOffGot = VF_GOT_TLS_OFFSET"
| "relocation_resolution_flags GotTpOffGotBase = VF_GOT_TLS_OFFSET"
| "relocation_resolution_flags TlsGd = VF_GOT_TLS_MODULE"
| "relocation_resolution_flags TlsGdGot = VF_GOT_TLS_MODULE"
| "relocation_resolution_flags TlsGdGotBase = VF_GOT_TLS_MODULE"
| "relocation_resolution_flags RelocationKind.TlsDesc = VF_GOT_TLS_DESCRIPTOR"
| "relocation_resolution_flags TlsDescLoongArch64 = VF_GOT_TLS_DESCRIPTOR"
| "relocation_resolution_flags TlsDescGot = VF_GOT_TLS_DESCRIPTOR"
| "relocation_resolution_flags TlsDescGotBase = VF_GOT_TLS_DESCRIPTOR"
| "relocation_resolution_flags TlsDescCall = VF_GOT_TLS_DESCRIPTOR"
| "relocation_resolution_flags TlsLd = 0"
| "relocation_resolution_flags TlsLdGot = 0"
| "relocation_resolution_flags TlsLdGotBase = 0"
| "relocation_resolution_flags None_kind = 0"
| "relocation_resolution_flags AbsoluteLowPart = 0"
| "relocation_resolution_flags Alignment_kind = 0"
| "relocation_resolution_flags _ = VF_DIRECT"

section \<open>Atomic updates\<close>

text \<open>
  The value of an atomic variable is the last one of its modification order, a list with the
  newest value first. A load with relaxed ordering may return any value of that order; an atomic
  read-modify-write acts on the newest. \<open>fetch_or\<close> first loads and returns if all its flags are
  set; otherwise it performs the read-modify-write.
\<close>

datatype fetch_or_call =
    Requested ValueFlags
  | Missed ValueFlags
  | Returned ValueFlags ValueFlags

inductive fetch_or_step ::
    "ValueFlags list \<times> fetch_or_call list \<Rightarrow> ValueFlags list \<times> fetch_or_call list \<Rightarrow> bool" where
  load_hit: "i < length calls \<Longrightarrow> calls ! i = Requested f \<Longrightarrow> current_bits \<in> set order \<Longrightarrow> current_bits AND f = f \<Longrightarrow>
    fetch_or_step (order, calls) (order, calls[i := Returned f current_bits])"
| load_miss: "i < length calls \<Longrightarrow> calls ! i = Requested f \<Longrightarrow> current_bits \<in> set order \<Longrightarrow> current_bits AND f \<noteq> f \<Longrightarrow>
    fetch_or_step (order, calls) (order, calls[i := Missed f])"
| update: "i < length calls \<Longrightarrow> calls ! i = Missed f \<Longrightarrow>
    fetch_or_step (previous_bits # order, calls)
      ((previous_bits OR f) # previous_bits # order, calls[i := Returned f previous_bits])"

text \<open>The same as a function, for a variable that no other thread uses.\<close>

definition fetch_or :: "ValueFlags \<Rightarrow> ValueFlags \<Rightarrow> ValueFlags \<times> ValueFlags" where
  "fetch_or bits f = (if bits AND f = f then (bits, bits) else (bits, bits OR f))"

definition flags_remove :: "ValueFlags \<Rightarrow> ValueFlags \<Rightarrow> ValueFlags" where
  "flags_remove bits f = bits AND NOT f"

definition set_flag :: "ValueFlags list \<Rightarrow> nat \<Rightarrow> ValueFlags \<Rightarrow> ValueFlags list option" where
  "set_flag flags symbol_id extra = do { f \<leftarrow> get flags symbol_id; set_at flags symbol_id (f OR extra) }"

section \<open>Flags as bits\<close>

named_theorems flag_simps \<open>flags as bits\<close>

lemmas flag_consts = VF_ABSOLUTE_def VF_DYNAMIC_def VF_IFUNC_def VF_NON_INTERPOSABLE_def VF_DOWNGRADE_TO_LOCAL_def
  VF_FUNCTION_def VF_DIRECT_def VF_GOT_def VF_PLT_def VF_GOT_TLS_MODULE_def VF_GOT_TLS_OFFSET_def
  VF_GOT_TLS_DESCRIPTOR_def VF_EXPORT_DYNAMIC_def VF_COPY_RELOCATION_def VF_IFUNC_GOT_FOR_ADDRESS_def VF_OBJC_STUB_def

lemmas flag_tests = is_dynamic_def is_ifunc_def is_address_def is_absolute_def is_function_def
  is_downgraded_to_local_def is_interposable_def needs_direct_def needs_copy_relocation_def
  needs_export_dynamic_def needs_got_def needs_plt_def needs_got_tls_offset_def needs_got_tls_module_def
  needs_got_tls_descriptor_def needs_ifunc_got_for_address_def flags_is_tls_def

lemma contains_bit: "n < 16 \<Longrightarrow> contains f (push_bit n 1) \<longleftrightarrow> bit f n"
proof -
  assume n: "n < 16"
  have "f AND push_bit n 1 = push_bit n 1 \<longleftrightarrow> bit f n"
    using n by (auto simp: bit_simps intro!: bit_word_eqI dest: arg_cong [of _ _ "\<lambda>w. bit w n"])
  then show ?thesis by (simp add: contains_def)
qed

section \<open>Interleavings\<close>

text \<open>The flags a call asks for, and the specification of its outcome with respect to a group of flags.\<close>

fun call_flags :: "fetch_or_call \<Rightarrow> ValueFlags" where
  "call_flags (Requested f) = f"
| "call_flags (Missed f) = f"
| "call_flags (Returned f _) = f"

fun returned :: "fetch_or_call \<Rightarrow> bool" where
  "returned (Returned _ _) = True"
| "returned _ = False"

fun first_of_group :: "ValueFlags \<Rightarrow> fetch_or_call \<Rightarrow> bool" where
  "first_of_group M (Returned f previous) = (f AND M \<noteq> 0 \<and> previous AND M = 0)"
| "first_of_group M (Requested f) = False"
| "first_of_group M (Missed f) = False"

definition or_all :: "ValueFlags \<Rightarrow> ValueFlags list \<Rightarrow> ValueFlags" where
  "or_all m fs = fold (OR) fs m"

text \<open>One word has all bits of another.\<close>

definition subflags :: "ValueFlags \<Rightarrow> ValueFlags \<Rightarrow> bool" where
  "subflags f g \<longleftrightarrow> f AND g = f"

lemma subflags_iff: "subflags f g \<longleftrightarrow> (\<forall>n. bit f n \<longrightarrow> bit g n)"
  unfolding subflags_def by (auto simp: bit_and_iff intro!: bit_word_eqI dest: arg_cong [of _ _ "\<lambda>w. bit w _"])

lemma subflags_refl [simp]: "subflags f f" and subflags_or1: "subflags f (f OR g)" and subflags_or2: "subflags g (f OR g)"
  by (auto simp: subflags_iff bit_or_iff)

lemma subflags_trans: "subflags f g \<Longrightarrow> subflags g h \<Longrightarrow> subflags f h"
  by (simp add: subflags_iff)

lemma subflags_or: "subflags f h \<Longrightarrow> subflags g h \<Longrightarrow> subflags (f OR g) h"
  by (auto simp: subflags_iff bit_or_iff)

lemma subflags_antisym: "subflags f g \<Longrightarrow> subflags g f \<Longrightarrow> f = g"
  by (auto simp: subflags_iff intro: bit_word_eqI)

lemma subflags_group: "subflags f g \<Longrightarrow> f AND M \<noteq> 0 \<Longrightarrow> g AND M \<noteq> 0"
proof -
  assume sub: "subflags f g" and "f AND M \<noteq> 0"
  then obtain n where "bit f n" "bit M n" by (auto simp: bit_eq_iff bit_and_iff)
  then have "bit (g AND M) n" using sub by (simp add: subflags_iff bit_and_iff)
  then show ?thesis by auto
qed

lemma or_group: "(f OR g) AND M = 0 \<longleftrightarrow> f AND M = 0 \<and> g AND M = 0"
  by (auto simp: bit_eq_iff bit_and_iff bit_or_iff)

lemma subflags_or_all: "subflags m (or_all m fs)" "f \<in> set fs \<Longrightarrow> subflags f (or_all m fs)"
proof -
  have "subflags m (or_all m fs) \<and> (\<forall>f\<in>set fs. subflags f (or_all m fs))" for m
    unfolding or_all_def
    by (induction fs arbitrary: m) (auto intro: subflags_trans [OF subflags_or1] subflags_trans [OF subflags_or2])
  then show "subflags m (or_all m fs)" "f \<in> set fs \<Longrightarrow> subflags f (or_all m fs)" by auto
qed

lemma or_all_least: "subflags m h \<Longrightarrow> \<forall>f\<in>set fs. subflags f h \<Longrightarrow> subflags (or_all m fs) h"
  unfolding or_all_def by (induction fs arbitrary: m) (auto intro: subflags_or)

text \<open>
  The invariant: the modification order only grows, it holds the initial flags and requested
  flags only, calls that returned find their flags in it, and the group of flags is set exactly
  if one call was the first of the group.
\<close>

definition fetch_or_inv :: "ValueFlags \<Rightarrow> ValueFlags list \<Rightarrow> ValueFlags \<Rightarrow> ValueFlags list \<times> fetch_or_call list \<Rightarrow> bool" where
  "fetch_or_inv m requests M s \<longleftrightarrow> (case s of (order, calls) \<Rightarrow>
     order \<noteq> [] \<and> map call_flags calls = requests \<and>
     (\<forall>v\<in>set order. subflags v (hd order)) \<and> subflags m (hd order) \<and> subflags (hd order) (or_all m requests) \<and>
     (\<forall>c\<in>set calls. returned c \<longrightarrow> subflags (call_flags c) (hd order)) \<and>
     length (filter (first_of_group M) calls) = (if hd order AND M = 0 then 0 else 1))"

lemma call_flags_update:
  "i < length calls \<Longrightarrow> call_flags c = call_flags (calls ! i) \<Longrightarrow> map call_flags (calls[i := c]) = map call_flags calls"
  by (simp add: map_update list_update_same_conv)

lemma filter_update:
  assumes "i < length xs" "\<not> Q (xs ! i)"
  shows "length (filter Q (xs[i := x])) = length (filter Q xs) + (if Q x then 1 else 0)"
proof -
  have xs: "xs = take i xs @ xs ! i # drop (Suc i) xs" using assms(1) by (rule id_take_nth_drop)
  have "xs[i := x] = take i xs @ x # drop (Suc i) xs" using assms(1) by (rule upd_conv_take_nth_drop)
  moreover have "length (filter Q xs) = length (filter Q (take i xs)) + length (filter Q (drop (Suc i) xs))"
    using assms(2) by (subst xs) simp
  ultimately show ?thesis by simp
qed

lemma fetch_or_inv_initial:
  assumes "m AND M = 0"
  shows "fetch_or_inv m requests M ([m], map Requested requests)"
proof -
  have "map call_flags (map Requested requests) = requests" by (simp add: comp_def)
  moreover have "filter (first_of_group M) (map Requested requests) = []" by (simp add: filter_empty_conv)
  ultimately show ?thesis
    using assms by (auto simp: fetch_or_inv_def subflags_or_all)
qed

lemma fetch_or_inv_step:
  assumes "fetch_or_step s s'" "fetch_or_inv m requests M s"
  shows "fetch_or_inv m requests M s'"
  using assms
proof (induction rule: fetch_or_step.induct)
  case (load_hit i calls f v order)
  have sub: "subflags f v" using load_hit(4) by (simp add: subflags_def and.commute)
  then have sub': "subflags f (hd order)" using load_hit(3,5) subflags_trans by (auto simp: fetch_or_inv_def)
  have "\<not> first_of_group M (Returned f v)" using subflags_group [OF sub] by auto
  then have count: "length (filter (first_of_group M) (calls[i := Returned f v])) = length (filter (first_of_group M) calls)"
    using load_hit(1,2) by (simp add: filter_update)
  have "\<forall>c\<in>set (calls[i := Returned f v]). returned c \<longrightarrow> subflags (call_flags c) (hd order)"
    using load_hit(5) sub' set_update_subset_insert [of calls i "Returned f v"] by (auto simp: fetch_or_inv_def)
  then show ?case
    using load_hit(1,2,5) count by (simp add: fetch_or_inv_def call_flags_update)
next
  case (load_miss i calls f v order)
  have "length (filter (first_of_group M) (calls[i := Missed f])) = length (filter (first_of_group M) calls)"
    using load_miss(1,2) by (simp add: filter_update)
  moreover have "\<forall>c\<in>set (calls[i := Missed f]). returned c \<longrightarrow> subflags (call_flags c) (hd order)"
    using load_miss(5) set_update_subset_insert [of calls i "Missed f"] by (auto simp: fetch_or_inv_def)
  ultimately show ?case
    using load_miss(1,2,5) by (simp add: fetch_or_inv_def call_flags_update)
next
  case (update i calls f p order)
  let ?calls = "calls[i := Returned f p]"
  have requests: "map call_flags calls = requests" using update(3) by (simp add: fetch_or_inv_def)
  have f: "f \<in> set requests"
    using requests update(1,2) nth_mem [of i calls] by (metis call_flags.simps(2) image_eqI list.set_map)
  have count: "length (filter (first_of_group M) ?calls) = (if (p OR f) AND M = 0 then 0 else 1)"
    using update by (auto simp: filter_update fetch_or_inv_def or_group)
  have sub: "subflags v (p OR f)" if "subflags v p" for v using that subflags_trans subflags_or1 by blast
  have "\<forall>c\<in>set ?calls. returned c \<longrightarrow> subflags (call_flags c) (p OR f)"
    using update(3) sub subflags_or2 set_update_subset_insert [of calls i "Returned f p"] by (auto simp: fetch_or_inv_def)
  moreover have "subflags (p OR f) (or_all m requests)"
    using update(3) f by (auto simp: fetch_or_inv_def intro: subflags_or subflags_or_all)
  ultimately show ?case
    using update(1,2,3) count sub by (auto simp: fetch_or_inv_def call_flags_update subflags_or1)
qed

lemma fetch_or_inv_run:
  "fetch_or_step\<^sup>*\<^sup>* s s' \<Longrightarrow> fetch_or_inv m requests M s \<Longrightarrow> fetch_or_inv m requests M s'"
  by (induction rule: rtranclp_induct) (auto intro: fetch_or_inv_step)

text \<open>
  (C10) However the calls of \<open>fetch_or\<close> on a symbol interleave, with stale loads included: once all
  calls have returned, the flags are the initial ones together with all that were requested, and
  for every group of flags that was empty at the beginning and of which some call requested a flag,
  exactly one call that requested a flag of the group returned flags without any of the group.
  With the group of resolution flags this says that exactly one thread sends the request to load a
  symbol.
\<close>

theorem fetch_or_exactly_once:
  assumes run: "fetch_or_step\<^sup>*\<^sup>* ([m], map Requested requests) (order, calls)"
    and all_returned: "\<forall>c\<in>set calls. returned c"
    and group: "m AND M = 0" "f \<in> set requests" "f AND M \<noteq> 0"
  shows "hd order = or_all m requests \<and> map call_flags calls = requests \<and>
    (\<exists>!i. i < length calls \<and> first_of_group M (calls ! i))"
proof -
  have inv: "fetch_or_inv m requests M (order, calls)"
    by (rule fetch_or_inv_run [OF run fetch_or_inv_initial [OF group(1)]])
  have requests: "map call_flags calls = requests" using inv by (simp add: fetch_or_inv_def)
  have all: "\<forall>f\<in>set requests. subflags f (hd order)"
    using inv all_returned unfolding requests [symmetric] by (auto simp: fetch_or_inv_def)
  have "subflags (or_all m requests) (hd order)"
    using inv all by (intro or_all_least) (auto simp: fetch_or_inv_def)
  then have eq: "hd order = or_all m requests"
    using inv by (auto simp: fetch_or_inv_def intro: subflags_antisym)
  have "hd order AND M \<noteq> 0" using all group(2,3) subflags_group by blast
  then have "length (filter (first_of_group M) calls) = 1" using inv by (simp add: fetch_or_inv_def)
  then have "card {i. i < length calls \<and> first_of_group M (calls ! i)} = 1"
    by (simp add: length_filter_conv_card)
  then have "\<exists>!i. i < length calls \<and> first_of_group M (calls ! i)"
    by (metis (no_types, lifting) card_1_singletonE mem_Collect_eq singleton_iff)
  then show ?thesis using eq requests by blast
qed

text \<open>Two threads request the GOT; the second loads the stale initial flags and then updates.\<close>

lemma sample_run:
  "fetch_or_step\<^sup>*\<^sup>* ([0], map Requested [VF_GOT, VF_GOT OR VF_PLT])
     ([VF_GOT OR VF_PLT, VF_GOT, 0], [Returned VF_GOT 0, Returned (VF_GOT OR VF_PLT) VF_GOT])"
proof -
  have "fetch_or_step ([0], [Requested VF_GOT, Requested (VF_GOT OR VF_PLT)])
      ([0], [Missed VF_GOT, Requested (VF_GOT OR VF_PLT)])"
    using fetch_or_step.load_miss [of 0 "[Requested VF_GOT, Requested (VF_GOT OR VF_PLT)]" VF_GOT 0 "[0]"]
    by (simp add: VF_GOT_def)
  moreover have "fetch_or_step ([0], [Missed VF_GOT, Requested (VF_GOT OR VF_PLT)])
      ([VF_GOT, 0], [Returned VF_GOT 0, Requested (VF_GOT OR VF_PLT)])"
    using fetch_or_step.update [of 0 "[Missed VF_GOT, Requested (VF_GOT OR VF_PLT)]" VF_GOT 0 "[]"] by simp
  moreover have "fetch_or_step ([VF_GOT, 0], [Returned VF_GOT 0, Requested (VF_GOT OR VF_PLT)])
      ([VF_GOT, 0], [Returned VF_GOT 0, Missed (VF_GOT OR VF_PLT)])"
    using fetch_or_step.load_miss [of 1 "[Returned VF_GOT 0, Requested (VF_GOT OR VF_PLT)]" "VF_GOT OR VF_PLT" 0 "[VF_GOT, 0]"]
    by (simp add: VF_GOT_def VF_PLT_def)
  moreover have "fetch_or_step ([VF_GOT, 0], [Returned VF_GOT 0, Missed (VF_GOT OR VF_PLT)])
      ([VF_GOT OR VF_PLT, VF_GOT, 0], [Returned VF_GOT 0, Returned (VF_GOT OR VF_PLT) VF_GOT])"
    using fetch_or_step.update [of 1 "[Returned VF_GOT 0, Missed (VF_GOT OR VF_PLT)]" "VF_GOT OR VF_PLT" VF_GOT "[0]"]
    by (simp add: VF_GOT_def VF_PLT_def)
  ultimately show ?thesis by (simp add: converse_rtranclp_into_rtranclp)
qed

theorem fetch_or_exactly_once_witness:
  "\<exists>!i. i < 2 \<and> first_of_group VF_GOT ([Returned VF_GOT 0, Returned (VF_GOT OR VF_PLT) VF_GOT] ! i)"
proof -
  have "VF_GOT AND VF_GOT \<noteq> 0" by (simp add: VF_GOT_def)
  then show ?thesis using fetch_or_exactly_once [OF sample_run, of VF_GOT VF_GOT] by (simp add: numeral_2_eq_2)
qed

end
