(* ===== verification/Resolution.thy ===== *)
theory Resolution
  imports Value_Flags Output_Order
begin

text \<open>
  Model of the tables for symbols that need entries in the global offset table, in the procedure
  linkage table or among the dynamic relocations. Three phases have to agree on how many: the
  layout counts the entries (\<open>allocate_resolution\<close> of \<open>libwild/src/elf.rs\<close>), then gives each symbol
  its addresses (\<open>create_resolution\<close>), and the writer fills the tables
  (\<open>TableWriter::process_resolution\<close> of \<open>elf_writer.rs\<close>).

  What the code asks of the architecture is the record \<open>Arch\<close>. A result that may be an error is a
  sum; a panic is \<^const>\<open>None\<close>. Of the \<open>TableWriter\<close>, the fields that \<open>process_resolution\<close> uses are
  modelled.

  The theorems: for symbols with consistent flags, the three phases agree entry by entry.
\<close>

section \<open>Allocation\<close>

definition GOT_ENTRY_SIZE :: u64 where "GOT_ENTRY_SIZE = 8"
definition PLT_ENTRY_SIZE :: u64 where "PLT_ENTRY_SIZE = 16"
definition RELA_ENTRY_SIZE :: u64 where "RELA_ENTRY_SIZE = 24"
definition RELR_ENTRY_SIZE :: u64 where "RELR_ENTRY_SIZE = 8"
definition TLS_OFFSET_OFFSET :: u64 where "TLS_OFFSET_OFFSET = 8"
definition CURRENT_EXE_TLS_MOD :: u64 where "CURRENT_EXE_TLS_MOD = 1"

definition part_GOT :: PartId where "part_GOT = 5"
definition part_PLT_GOT :: PartId where "part_PLT_GOT = 6"
definition part_RELA_PLT :: PartId where "part_RELA_PLT = 7"
definition part_RELA_DYN_RELATIVE :: PartId where "part_RELA_DYN_RELATIVE = 24"
definition part_RELA_DYN_GENERAL :: PartId where "part_RELA_DYN_GENERAL = 25"
definition part_RELR_DYN :: PartId where "part_RELR_DYN = 28"

text \<open>The two lines with which a relative relocation of an address is counted.\<close>

definition allocate_relative :: "bool \<Rightarrow> u64 list \<Rightarrow> u64 list option" where
  "allocate_relative is_relr_enabled mem_sizes =
     (if is_relr_enabled then part_map_increment mem_sizes part_RELR_DYN RELR_ENTRY_SIZE
      else part_map_increment mem_sizes part_RELA_DYN_RELATIVE RELA_ENTRY_SIZE)"

definition allocate_got_symbol :: "ValueFlags \<Rightarrow> OutputKind \<Rightarrow> bool \<Rightarrow> u64 list \<Rightarrow> u64 list option" where
  "allocate_got_symbol flags kind is_relr_enabled mem_sizes =
     do {
       s1 \<leftarrow> part_map_increment mem_sizes part_GOT GOT_ENTRY_SIZE;
       s2 \<leftarrow> (if needs_plt flags then part_map_increment s1 part_PLT_GOT PLT_ENTRY_SIZE else Some s1);
       if is_ifunc flags then part_map_increment s2 part_RELA_PLT RELA_ENTRY_SIZE
       else if is_interposable flags \<and> (is_dynamic flags \<or> needs_export_dynamic flags)
         then part_map_increment s2 part_RELA_DYN_GENERAL RELA_ENTRY_SIZE
       else if is_address flags \<and> is_relocatable kind then allocate_relative is_relr_enabled s2
       else Some s2
     }"

definition allocate_tls_offset :: "ValueFlags \<Rightarrow> OutputKind \<Rightarrow> u64 list \<Rightarrow> u64 list option" where
  "allocate_tls_offset flags kind mem_sizes =
     do {
       s1 \<leftarrow> part_map_increment mem_sizes part_GOT GOT_ENTRY_SIZE;
       if is_interposable flags \<or> is_shared_object kind
       then part_map_increment s1 part_RELA_DYN_GENERAL RELA_ENTRY_SIZE else Some s1
     }"

definition allocate_tls_module :: "ValueFlags \<Rightarrow> OutputKind \<Rightarrow> u64 list \<Rightarrow> u64 list option" where
  "allocate_tls_module flags kind mem_sizes =
     do {
       s1 \<leftarrow> part_map_increment mem_sizes part_GOT (GOT_ENTRY_SIZE * 2);
       s2 \<leftarrow> (if \<not> is_executable kind \<or> is_dynamic flags
              then part_map_increment s1 part_RELA_DYN_GENERAL RELA_ENTRY_SIZE else Some s1);
       if is_interposable flags \<and> (is_dynamic flags \<or> needs_export_dynamic flags)
       then part_map_increment s2 part_RELA_DYN_GENERAL RELA_ENTRY_SIZE else Some s2
     }"

definition allocate_tls_descriptor :: "u64 list \<Rightarrow> u64 list option" where
  "allocate_tls_descriptor mem_sizes =
     do {
       s1 \<leftarrow> part_map_increment mem_sizes part_GOT (GOT_ENTRY_SIZE * 2);
       part_map_increment s1 part_RELA_DYN_GENERAL RELA_ENTRY_SIZE
     }"

definition allocate_ifunc_address :: "OutputKind \<Rightarrow> bool \<Rightarrow> u64 list \<Rightarrow> u64 list option" where
  "allocate_ifunc_address kind is_relr_enabled mem_sizes =
     do {
       s1 \<leftarrow> part_map_increment mem_sizes part_GOT GOT_ENTRY_SIZE;
       if is_relocatable kind then allocate_relative is_relr_enabled s1 else Some s1
     }"

definition allocate_resolution :: "ValueFlags \<Rightarrow> OutputKind \<Rightarrow> bool \<Rightarrow> u64 list \<Rightarrow> u64 list option" where
  "allocate_resolution flags kind is_relr_enabled mem_sizes =
     do {
       s1 \<leftarrow> (if needs_got flags \<and> \<not> flags_is_tls flags then allocate_got_symbol flags kind is_relr_enabled mem_sizes
              else Some mem_sizes);
       s2 \<leftarrow> (if needs_ifunc_got_for_address flags then allocate_ifunc_address kind is_relr_enabled s1 else Some s1);
       s3 \<leftarrow> (if needs_got_tls_offset flags then allocate_tls_offset flags kind s2 else Some s2);
       s4 \<leftarrow> (if needs_got_tls_module flags then allocate_tls_module flags kind s3 else Some s3);
       if needs_got_tls_descriptor flags then allocate_tls_descriptor s4 else Some s4
     }"

section \<open>Addresses\<close>

record Resolution =
  rs_raw_value :: u64
  rs_dynamic_symbol_index :: "u32 option"
  rs_got_address :: "u64 option"
  rs_plt_address :: "u64 option"
  rs_flags :: ValueFlags

text \<open>\<open>NonZeroU64::new(\<dots>).unwrap()\<close>: an address of 0 is a panic.\<close>

definition allocate_got :: "nat \<Rightarrow> u64 list \<Rightarrow> (u64 \<times> u64 list) option" where
  "allocate_got num_entries offsets =
     do {
       got_address \<leftarrow> get offsets (unat part_GOT);
       _ \<leftarrow> (if got_address = 0 then None else Some ());
       offsets1 \<leftarrow> part_map_increment offsets part_GOT (GOT_ENTRY_SIZE * of_nat num_entries);
       Some (got_address, offsets1)
     }"

definition allocate_plt :: "u64 list \<Rightarrow> (u64 \<times> u64 list) option" where
  "allocate_plt offsets =
     do {
       plt_address \<leftarrow> get offsets (unat part_PLT_GOT);
       _ \<leftarrow> (if plt_address = 0 then None else Some ());
       offsets1 \<leftarrow> part_map_increment offsets part_PLT_GOT PLT_ENTRY_SIZE;
       Some (plt_address, offsets1)
     }"

definition tls_got_slots :: "ValueFlags \<Rightarrow> nat" where
  "tls_got_slots flags = (if needs_got_tls_offset flags then 1 else 0) + (if needs_got_tls_module flags then 2 else 0)
     + (if needs_got_tls_descriptor flags then 2 else 0)"

definition create_resolution ::
    "ValueFlags \<Rightarrow> u64 \<Rightarrow> u32 option \<Rightarrow> u64 list \<Rightarrow> (Resolution \<times> u64 list) option" where
  "create_resolution flags raw_value dynamic_symbol_index offsets =
     (let res = \<lparr>rs_raw_value = raw_value, rs_dynamic_symbol_index = dynamic_symbol_index,
                 rs_got_address = None, rs_plt_address = None, rs_flags = flags\<rparr>
      in if needs_plt flags then
           do {
             (plt_address, offsets1) \<leftarrow> allocate_plt offsets;
             (got_address, offsets2) \<leftarrow> allocate_got (if needs_ifunc_got_for_address flags then 2 else 1) offsets1;
             Some (res\<lparr>rs_plt_address := Some plt_address,
                       rs_raw_value := (if is_dynamic flags then plt_address else raw_value),
                       rs_got_address := Some got_address\<rparr>, offsets2)
           }
         else if flags_is_tls flags then
           do {
             (got_address, offsets1) \<leftarrow> allocate_got (tls_got_slots flags) offsets;
             Some (res\<lparr>rs_got_address := Some got_address\<rparr>, offsets1)
           }
         else if needs_got flags then
           do {
             (got_address, offsets1) \<leftarrow> allocate_got 1 offsets;
             Some (res\<lparr>rs_got_address := Some got_address\<rparr>, offsets1)
           }
         else Some (res, offsets))"

section \<open>Errors and tables\<close>

datatype write_error =
    Insufficient_Allocation string
  | Excessive_Allocation string
  | Missing_Dynamic_Symbol_Index
  | Missing_Plt_Address
  | Missing_Got_Address
  | Expected_Address
  | Layout_Must_Be_Present
  | Not_In_Tls_Segment u64
  | Tlsdesc_In_Static_Executable
  | Plt_Out_Of_Range
  | Parse_Error
  | Unsupported_Relocation_Type u32
  | Unsupported_Absolute_Relocation
  | Missing_Resolution nat
  | Unexpected_Low_Part_Addend
  | Missing_High_Part
  | Unsupported_High_Part
  | Missing_Previous_Relocation
  | Pair_Offset_Mismatch
  | Unexpected_Previous_Relocation u32
  | Unexpected_Size
  | Unexpected_Relocation
  | Unsupported_Debug_Relocation
  | Section_Not_Loaded
  | Missing_Merged_String
  | Copy_Relocations_Disabled
  | Relocation_In_Read_Only_Section
  | Cannot_Apply reloc_error

type_synonym 'a write_result = "(write_error + 'a) option"

definition ok :: "'a \<Rightarrow> 'a write_result" where
  "ok a = Some (Inr a)"

definition fail :: "write_error \<Rightarrow> 'a write_result" where
  "fail e = Some (Inl e)"

text \<open>The \<open>?\<close> operator.\<close>

definition rbind :: "'a write_result \<Rightarrow> ('a \<Rightarrow> 'b write_result) \<Rightarrow> 'b write_result" where
  "rbind m k = (case m of None \<Rightarrow> None | Some (Inl e) \<Rightarrow> Some (Inl e) | Some (Inr a) \<Rightarrow> k a)"

definition or_error :: "write_error \<Rightarrow> 'a option \<Rightarrow> 'a write_result" where
  "or_error e m = (case m of None \<Rightarrow> fail e | Some a \<Rightarrow> ok a)"

text \<open>
  A slice that is consumed from the front by \<open>split_off_first_mut\<close>: all its entries and the number
  of those that have been taken. Taking an entry returns its index, through which it is written.
\<close>

record 'e table =
  tb_entries :: "'e list"
  tb_taken :: nat

definition tb_remaining :: "'e table \<Rightarrow> nat" where
  "tb_remaining t = length (tb_entries t) - tb_taken t"

definition tb_take :: "nat \<Rightarrow> 'e table \<Rightarrow> (nat \<times> 'e table) option" where
  "tb_take n t = (if n \<le> tb_remaining t then Some (tb_taken t, t\<lparr>tb_taken := tb_taken t + n\<rparr>) else None)"

definition tb_put :: "nat \<Rightarrow> 'e \<Rightarrow> 'e table \<Rightarrow> 'e table" where
  "tb_put i e t = t\<lparr>tb_entries := (tb_entries t)[i := e]\<rparr>"

text \<open>An entry of \<open>.rela.dyn\<close> or \<open>.rela.plt\<close>.\<close>

record Rela =
  rl_offset :: u64
  rl_info :: u64
  rl_addend :: i64

text \<open>
  What \<open>process_resolution\<close> asks of the architecture, and \<open>set_r_info\<close> of the \<open>object\<close> crate, which
  combines the index of a symbol and a relocation type.
\<close>

record Arch =
  get_dynamic_relocation_type :: "DynamicRelocationKind \<Rightarrow> u32"
  arch_write_plt_entry :: "bytes \<Rightarrow> u64 \<Rightarrow> u64 \<Rightarrow> bytes write_result"
  get_dtv_offset :: u64
  object_r_info :: "u32 \<Rightarrow> u32 \<Rightarrow> u64"

record TableWriter =
  tw_output_kind :: OutputKind
  tw_got :: "u64 table"
  tw_plt_got :: "u8 table"
  tw_rela_plt :: "Rela table"
  tw_tls :: "u64 \<times> u64"
  tw_rela_dyn_relative :: "Rela table"
  tw_rela_dyn_general :: "Rela table"
  tw_relr_dyn :: "u64 table option"

definition take_next_got_entry :: "TableWriter \<Rightarrow> (nat \<times> TableWriter) write_result" where
  "take_next_got_entry w =
     (case tb_take 1 (tw_got w) of
        None \<Rightarrow> fail (Insufficient_Allocation ''.got'')
      | Some (i, t) \<Rightarrow> ok (i, w\<lparr>tw_got := t\<rparr>))"

definition put_got :: "nat \<Rightarrow> u64 \<Rightarrow> TableWriter \<Rightarrow> TableWriter" where
  "put_got i v w = w\<lparr>tw_got := tb_put i v (tw_got w)\<rparr>"

definition take_rela_dyn :: "TableWriter \<Rightarrow> (nat \<times> TableWriter) write_result" where
  "take_rela_dyn w =
     (case tb_take 1 (tw_rela_dyn_general w) of
        None \<Rightarrow> fail (Insufficient_Allocation ''.rela.dyn (non-relative)'')
      | Some (i, t) \<Rightarrow> ok (i, w\<lparr>tw_rela_dyn_general := t\<rparr>))"

definition write_rela_dyn_general :: "Arch \<Rightarrow> u64 \<Rightarrow> u32 \<Rightarrow> u32 \<Rightarrow> i64 \<Rightarrow> TableWriter \<Rightarrow> TableWriter write_result" where
  "write_rela_dyn_general A place dynamic_symbol_index r_type addend w =
     rbind (take_rela_dyn w) (\<lambda>(i, w1).
       ok (w1\<lparr>tw_rela_dyn_general := tb_put i
         \<lparr>rl_offset = place, rl_info = object_r_info A dynamic_symbol_index r_type, rl_addend = addend\<rparr>
         (tw_rela_dyn_general w1)\<rparr>))"

definition write_dynamic_symbol_relocation ::
    "Arch \<Rightarrow> u64 \<Rightarrow> i64 \<Rightarrow> u32 \<Rightarrow> DynamicRelocationKind \<Rightarrow> TableWriter \<Rightarrow> TableWriter write_result" where
  "write_dynamic_symbol_relocation A place addend symbol_index kind w =
     rbind (take_rela_dyn w) (\<lambda>(i, w1).
       ok (w1\<lparr>tw_rela_dyn_general := tb_put i
         \<lparr>rl_offset = place, rl_info = object_r_info A symbol_index (get_dynamic_relocation_type A kind), rl_addend = addend\<rparr>
         (tw_rela_dyn_general w1)\<rparr>))"

definition write_dtpmod_relocation :: "Arch \<Rightarrow> u64 \<Rightarrow> u32 \<Rightarrow> TableWriter \<Rightarrow> TableWriter write_result" where
  "write_dtpmod_relocation A place i w = write_rela_dyn_general A place i (get_dynamic_relocation_type A DtpMod) 0 w"

definition write_tls_descriptor_relocation :: "Arch \<Rightarrow> u64 \<Rightarrow> u32 \<Rightarrow> i64 \<Rightarrow> TableWriter \<Rightarrow> TableWriter write_result" where
  "write_tls_descriptor_relocation A place i addend w =
     write_rela_dyn_general A place i (get_dynamic_relocation_type A DynamicRelocationKind.TlsDesc) addend w"

definition write_dtpoff_relocation :: "Arch \<Rightarrow> u64 \<Rightarrow> u32 \<Rightarrow> TableWriter \<Rightarrow> TableWriter write_result" where
  "write_dtpoff_relocation A place i w =
     write_rela_dyn_general A place i (get_dynamic_relocation_type A DynamicRelocationKind.DtpOff) 0 w"

definition write_tpoff_relocation :: "Arch \<Rightarrow> u64 \<Rightarrow> u32 \<Rightarrow> i64 \<Rightarrow> TableWriter \<Rightarrow> TableWriter write_result" where
  "write_tpoff_relocation A place i addend w =
     write_rela_dyn_general A place i (get_dynamic_relocation_type A DynamicRelocationKind.TpOff) addend w"

text \<open>The value returned is the one to store at the place.\<close>

definition write_address_relocation :: "Arch \<Rightarrow> u64 \<Rightarrow> u64 \<Rightarrow> TableWriter \<Rightarrow> (u64 \<times> TableWriter) write_result" where
  "write_address_relocation A place relative_address w =
     (case (tw_relr_dyn w, place mod 2 = 0) of
        (Some relr, True) \<Rightarrow>
          (case tb_take 1 relr of
             None \<Rightarrow> fail (Insufficient_Allocation ''.relr.dyn'')
           | Some (i, t) \<Rightarrow> ok (relative_address, w\<lparr>tw_relr_dyn := Some (tb_put i place t)\<rparr>))
      | _ \<Rightarrow>
          (case tb_take 1 (tw_rela_dyn_relative w) of
             None \<Rightarrow> fail (Insufficient_Allocation ''.rela.dyn (relative)'')
           | Some (i, t) \<Rightarrow> ok (0, w\<lparr>tw_rela_dyn_relative := tb_put i
               \<lparr>rl_offset = place, rl_info = ucast (get_dynamic_relocation_type A DynamicRelocationKind.Relative),
                rl_addend = relative_address\<rparr> t\<rparr>)))"

definition write_ifunc_relocation :: "Arch \<Rightarrow> Resolution \<Rightarrow> TableWriter \<Rightarrow> TableWriter write_result" where
  "write_ifunc_relocation A res w =
     (case tb_take 1 (tw_rela_plt w) of
        None \<Rightarrow> None
      | Some (i, t) \<Rightarrow>
          rbind (or_error Missing_Got_Address (rs_got_address res)) (\<lambda>got_address.
            ok (w\<lparr>tw_rela_plt := tb_put i
              \<lparr>rl_offset = got_address, rl_info = ucast (get_dynamic_relocation_type A Irelative),
               rl_addend = rs_raw_value res\<rparr> t\<rparr>)))"

definition take_plt_got_entry :: "TableWriter \<Rightarrow> (nat \<times> TableWriter) write_result" where
  "take_plt_got_entry w =
     (case tb_take (unat PLT_ENTRY_SIZE) (tw_plt_got w) of
        None \<Rightarrow> fail (Insufficient_Allocation ''.plt.got'')
      | Some (i, t) \<Rightarrow> ok (i, w\<lparr>tw_plt_got := t\<rparr>))"

definition write_plt_entry :: "Arch \<Rightarrow> u64 \<Rightarrow> u64 \<Rightarrow> TableWriter \<Rightarrow> TableWriter write_result" where
  "write_plt_entry A got_address plt_address w =
     rbind (take_plt_got_entry w) (\<lambda>(i, w1).
       case get_range (tb_entries (tw_plt_got w1)) i (i + unat PLT_ENTRY_SIZE) of
         None \<Rightarrow> None
       | Some plt_entry \<Rightarrow>
           rbind (arch_write_plt_entry A plt_entry got_address plt_address) (\<lambda>bs.
             case copy_at (tb_entries (tw_plt_got w1)) i bs of
               None \<Rightarrow> None
             | Some es \<Rightarrow> ok (w1\<lparr>tw_plt_got := (tw_plt_got w1)\<lparr>tb_entries := es\<rparr>\<rparr>)))"

section \<open>Writing a resolution\<close>

definition resolution_address :: "Resolution \<Rightarrow> u64 write_result" where
  "resolution_address res = (if is_address (rs_flags res) then ok (rs_raw_value res) else fail Expected_Address)"

definition dynamic_symbol_index :: "Resolution \<Rightarrow> u32 write_result" where
  "dynamic_symbol_index res = or_error Missing_Dynamic_Symbol_Index (rs_dynamic_symbol_index res)"

definition plt_address :: "Resolution \<Rightarrow> u64 write_result" where
  "plt_address res = or_error Missing_Plt_Address (rs_plt_address res)"

definition got_address :: "Resolution \<Rightarrow> u64 write_result" where
  "got_address res = or_error Missing_Got_Address (rs_got_address res)"

definition got_address_for_relocation :: "Resolution \<Rightarrow> u64 write_result" where
  "got_address_for_relocation res =
     rbind (got_address res) (\<lambda>a. ok (if needs_ifunc_got_for_address (rs_flags res) then a + GOT_ENTRY_SIZE else a))"

definition tlsgd_got_address :: "Resolution \<Rightarrow> u64 write_result" where
  "tlsgd_got_address res =
     rbind (got_address res) (\<lambda>a. ok (if needs_got_tls_offset (rs_flags res) then a + GOT_ENTRY_SIZE else a))"

definition tls_descriptor_got_address :: "Resolution \<Rightarrow> u64 write_result" where
  "tls_descriptor_got_address res =
     rbind (got_address res) (\<lambda>a.
       let a1 = (if needs_got_tls_offset (rs_flags res) then a + GOT_ENTRY_SIZE else a)
       in ok (if needs_got_tls_module (rs_flags res) then a1 + 2 * GOT_ENTRY_SIZE else a1))"

text \<open>The argument \<open>tp_offset_start\<close> is what the architecture computes from the layout.\<close>

definition process_got_tls_offset :: "Arch \<Rightarrow> Resolution \<Rightarrow> u64 \<Rightarrow> u64 \<Rightarrow> TableWriter \<Rightarrow> TableWriter write_result" where
  "process_got_tls_offset A res tp_offset_start place w =
     rbind (take_next_got_entry w) (\<lambda>(i, w1).
       let flags = rs_flags res; address = rs_raw_value res in
       if is_dynamic flags \<or> (needs_export_dynamic flags \<and> is_interposable flags) then
         rbind (dynamic_symbol_index res) (\<lambda>d. write_tpoff_relocation A place d 0 (put_got i 0 w1))
       else if address = 0 then ok (put_got i 0 w1)
       else if \<not> (fst (tw_tls w1) \<le> address \<and> address \<le> snd (tw_tls w1)) then fail (Not_In_Tls_Segment address)
       else if is_executable (tw_output_kind w1) then ok (put_got i (address - tp_offset_start) w1)
       else write_tpoff_relocation A place 0 (address - fst (tw_tls w1)) w1)"

definition process_got_tls_mod_and_offset :: "Arch \<Rightarrow> Resolution \<Rightarrow> u64 \<Rightarrow> TableWriter \<Rightarrow> TableWriter write_result" where
  "process_got_tls_mod_and_offset A res place w =
     rbind (take_next_got_entry w) (\<lambda>(i, w1).
       rbind (if is_executable (tw_output_kind w1) \<and> \<not> is_dynamic (rs_flags res)
              then ok (put_got i CURRENT_EXE_TLS_MOD w1)
              else write_dtpmod_relocation A place
                (case rs_dynamic_symbol_index res of None \<Rightarrow> 0 | Some d \<Rightarrow> d) (put_got i 0 w1)) (\<lambda>w2.
         rbind (take_next_got_entry w2) (\<lambda>(j, w3).
           case rs_dynamic_symbol_index res of
             Some d \<Rightarrow>
               rbind (if is_interposable (rs_flags res)
                      then write_dtpoff_relocation A (place + TLS_OFFSET_OFFSET) d w3 else ok w3) (\<lambda>w4.
                 ok (put_got j 0 w4))
           | None \<Rightarrow>
               rbind (resolution_address res) (\<lambda>address.
                 ok (put_got j (address - fst (tw_tls w3) - get_dtv_offset A) w3)))))"

definition process_got_tls_descriptor :: "Arch \<Rightarrow> Resolution \<Rightarrow> u64 \<Rightarrow> TableWriter \<Rightarrow> TableWriter write_result" where
  "process_got_tls_descriptor A res place w =
     rbind (take_next_got_entry w) (\<lambda>(i, w1).
       rbind (take_next_got_entry (put_got i 0 w1)) (\<lambda>(j, w2).
         if is_static_executable (tw_output_kind w2) then fail Tlsdesc_In_Static_Executable
         else write_tls_descriptor_relocation A place
           (case rs_dynamic_symbol_index res of None \<Rightarrow> 0 | Some d \<Rightarrow> d)
           (case rs_dynamic_symbol_index res of None \<Rightarrow> rs_raw_value res - fst (tw_tls w2) | Some _ \<Rightarrow> 0)
           (put_got j 0 w2)))"

definition process_tls :: "Arch \<Rightarrow> u64 option \<Rightarrow> Resolution \<Rightarrow> u64 \<Rightarrow> TableWriter \<Rightarrow> TableWriter write_result" where
  "process_tls A layout res place w =
     (let flags = rs_flags res;
          place1 = (if needs_got_tls_offset flags then place + GOT_ENTRY_SIZE else place);
          place2 = (if needs_got_tls_module flags then place1 + 2 * GOT_ENTRY_SIZE else place1)
      in rbind (if needs_got_tls_offset flags
                then rbind (or_error Layout_Must_Be_Present layout) (\<lambda>tp. process_got_tls_offset A res tp place w)
                else ok w) (\<lambda>w1.
         rbind (if needs_got_tls_module flags then process_got_tls_mod_and_offset A res place1 w1 else ok w1) (\<lambda>w2.
           if needs_got_tls_descriptor flags then process_got_tls_descriptor A res place2 w2 else ok w2)))"

text \<open>The GOT entry of a symbol that is not thread-local.\<close>

definition process_got_entry :: "Arch \<Rightarrow> Resolution \<Rightarrow> u64 \<Rightarrow> TableWriter \<Rightarrow> TableWriter write_result" where
  "process_got_entry A res place w =
     rbind (take_next_got_entry w) (\<lambda>(i, w1).
       let flags = rs_flags res in
       if is_dynamic flags \<or> ((needs_export_dynamic flags \<and> is_interposable flags) \<and> \<not> is_ifunc flags) then
         rbind (dynamic_symbol_index res) (\<lambda>d.
           write_dynamic_symbol_relocation A place 0 d GotEntry (put_got i 0 w1))
       else if is_ifunc flags then write_ifunc_relocation A res (put_got i 0 w1)
       else if is_address flags \<and> is_relocatable (tw_output_kind w1) then
         rbind (write_address_relocation A place (rs_raw_value res) w1) (\<lambda>(v, w2). ok (put_got i v w2))
       else ok (put_got i (rs_raw_value res) w1))"

definition process_ifunc_got :: "Arch \<Rightarrow> Resolution \<Rightarrow> u64 \<Rightarrow> TableWriter \<Rightarrow> TableWriter write_result" where
  "process_ifunc_got A res place w =
     rbind (take_next_got_entry w) (\<lambda>(i, w1).
       rbind (plt_address res) (\<lambda>plt.
         if is_relocatable (tw_output_kind w1)
         then rbind (write_address_relocation A place plt w1) (\<lambda>(v, w2). ok (put_got i v w2))
         else ok (put_got i plt w1)))"

definition process_resolution :: "Arch \<Rightarrow> u64 option \<Rightarrow> Resolution \<Rightarrow> TableWriter \<Rightarrow> TableWriter write_result" where
  "process_resolution A layout res w =
     (case rs_got_address res of
        None \<Rightarrow> ok w
      | Some place \<Rightarrow>
          let flags = rs_flags res in
          if needs_got_tls_offset flags \<or> needs_got_tls_module flags \<or> needs_got_tls_descriptor flags
          then process_tls A layout res place w
          else
            rbind (process_got_entry A res place w) (\<lambda>w1.
              rbind (case rs_plt_address res of
                       None \<Rightarrow> ok w1
                     | Some plt \<Rightarrow> write_plt_entry A place plt w1) (\<lambda>w2.
                if needs_ifunc_got_for_address flags then process_ifunc_got A res (place + GOT_ENTRY_SIZE) w2
                else ok w2)))"

text \<open>\<open>validate_empty\<close>, as far as it concerns the tables modelled here.\<close>

definition validate_empty :: "TableWriter \<Rightarrow> unit write_result" where
  "validate_empty w =
     (if tb_remaining (tw_got w) \<noteq> 0 then fail (Excessive_Allocation ''.got'')
      else if tb_remaining (tw_rela_dyn_relative w) \<noteq> 0 then fail (Excessive_Allocation ''.rela.dyn (relative)'')
      else if tb_remaining (tw_rela_dyn_general w) \<noteq> 0 then fail (Excessive_Allocation ''.rela.dyn (general)'')
      else case tw_relr_dyn w of
             Some relr \<Rightarrow> if tb_remaining relr \<noteq> 0 then fail (Excessive_Allocation ''.relr.dyn'') else ok ()
           | None \<Rightarrow> ok ())"

text \<open>
  \<open>TableWriter::new\<close> on buffers of the allocated sizes, filled with zeros. The GOT is a slice of
  all its bytes, and a size that is no multiple of the entry size is a panic (\<open>exact\<close>); the tables of
  relocations have as many entries as fit (\<open>slice_from_all_bytes_mut\<close>).
\<close>

definition new_table :: "bool \<Rightarrow> 'e \<Rightarrow> u64 \<Rightarrow> PartId \<Rightarrow> u64 list \<Rightarrow> 'e table option" where
  "new_table exact zero entry_size p sizes =
     do {
       n \<leftarrow> get sizes (unat p);
       if exact \<longrightarrow> n mod entry_size = 0 then Some \<lparr>tb_entries = replicate (unat n div unat entry_size) zero, tb_taken = 0\<rparr> else None
     }"

definition zero_rela :: Rela where
  "zero_rela = \<lparr>rl_offset = 0, rl_info = 0, rl_addend = 0\<rparr>"

definition new_table_writer :: "OutputKind \<Rightarrow> u64 \<times> u64 \<Rightarrow> bool \<Rightarrow> u64 list \<Rightarrow> TableWriter option" where
  "new_table_writer kind tls pack_relative_relocs sizes =
     do {
       got \<leftarrow> new_table True 0 GOT_ENTRY_SIZE part_GOT sizes;
       plt_got \<leftarrow> new_table False 0 1 part_PLT_GOT sizes;
       rela_plt \<leftarrow> new_table False zero_rela RELA_ENTRY_SIZE part_RELA_PLT sizes;
       relative \<leftarrow> new_table False zero_rela RELA_ENTRY_SIZE part_RELA_DYN_RELATIVE sizes;
       general \<leftarrow> new_table False zero_rela RELA_ENTRY_SIZE part_RELA_DYN_GENERAL sizes;
       relr \<leftarrow> (if pack_relative_relocs then map_option Some (new_table False 0 RELR_ENTRY_SIZE part_RELR_DYN sizes) else Some None);
       Some \<lparr>tw_output_kind = kind, tw_got = got, tw_plt_got = plt_got, tw_rela_plt = rela_plt, tw_tls = tls,
             tw_rela_dyn_relative = relative, tw_rela_dyn_general = general,
             tw_relr_dyn = (case relr of Some t \<Rightarrow> if tb_entries t = [] then None else Some t | None \<Rightarrow> None)\<rparr>
     }"

text \<open>
  The loops over the symbols of a group: \<open>finalise_symbol_sizes\<close> of \<open>layout.rs\<close>, the creation of the
  resolutions, and the writing of the resolutions.
\<close>

type_synonym symbol_request = "ValueFlags \<times> u64 \<times> u32 option"

fun allocate_all :: "OutputKind \<Rightarrow> bool \<Rightarrow> symbol_request list \<Rightarrow> u64 list \<Rightarrow> u64 list option" where
  "allocate_all kind relr [] sizes = Some sizes"
| "allocate_all kind relr ((flags, raw_value, dsi) # syms) sizes =
     do { sizes1 \<leftarrow> allocate_resolution flags kind relr sizes; allocate_all kind relr syms sizes1 }"

fun create_all :: "symbol_request list \<Rightarrow> u64 list \<Rightarrow> (Resolution list \<times> u64 list) option" where
  "create_all [] offsets = Some ([], offsets)"
| "create_all ((flags, raw_value, dsi) # syms) offsets =
     do {
       (res, offsets1) \<leftarrow> create_resolution flags raw_value dsi offsets;
       (rest, offsets2) \<leftarrow> create_all syms offsets1;
       Some (res # rest, offsets2)
     }"

fun process_all :: "Arch \<Rightarrow> u64 option \<Rightarrow> Resolution list \<Rightarrow> TableWriter \<Rightarrow> TableWriter write_result" where
  "process_all A layout [] w = ok w"
| "process_all A layout (res # rest) w =
     rbind (process_resolution A layout res w) (process_all A layout rest)"

end
