(* ===== verification/Resolution_Alloc.thy ===== *)
theory Resolution_Alloc
  imports Resolution
begin

text \<open>
  The three phases of \<open>Resolution\<close> agree. How many entries a symbol needs is written down once, as a
  function of its flags (\<open>symbol_count\<close>); the allocation adds this to the sizes, the addresses
  advance by it, and the writer takes this many entries of each table.
\<close>

section \<open>Counting entries\<close>

text \<open>The tables, and how many entries (bytes for the PLT) a symbol takes of each.\<close>

datatype tab = TGot | TPlt | TRela_Plt | TGeneral | TRelative | TRelr

fun tab_size :: "tab \<Rightarrow> u64" where
  "tab_size TGot = 8"
| "tab_size TPlt = 1"
| "tab_size TRelr = 8"
| "tab_size _ = 24"

fun tab_part :: "tab \<Rightarrow> nat" where
  "tab_part TGot = 5"
| "tab_part TPlt = 6"
| "tab_part TRela_Plt = 7"
| "tab_part TRelative = 24"
| "tab_part TGeneral = 25"
| "tab_part TRelr = 28"

definition exports :: "ValueFlags \<Rightarrow> bool" where
  "exports flags \<longleftrightarrow> is_interposable flags \<and> (is_dynamic flags \<or> needs_export_dynamic flags)"

definition only_got :: "ValueFlags \<Rightarrow> bool" where
  "only_got flags \<longleftrightarrow> needs_got flags \<and> \<not> flags_is_tls flags"

definition relative_tab :: "bool \<Rightarrow> tab" where
  "relative_tab relr = (if relr then TRelr else TRelative)"

definition one :: "tab \<Rightarrow> tab \<Rightarrow> nat" where
  "one t u = (if u = t then 1 else 0)"

definition only_if :: "bool \<Rightarrow> (tab \<Rightarrow> nat) \<Rightarrow> tab \<Rightarrow> nat" where
  "only_if b c t = (if b then c t else 0)"

definition plus_count :: "(tab \<Rightarrow> nat) \<Rightarrow> (tab \<Rightarrow> nat) \<Rightarrow> tab \<Rightarrow> nat" where
  "plus_count c d t = c t + d t"

definition got_count :: "ValueFlags \<Rightarrow> OutputKind \<Rightarrow> bool \<Rightarrow> tab \<Rightarrow> nat" where
  "got_count flags kind relr = plus_count (one TGot) (plus_count (only_if (needs_plt flags) (\<lambda>t. 16 * one TPlt t))
     (if is_ifunc flags then one TRela_Plt
      else if exports flags then one TGeneral
      else only_if (is_address flags \<and> is_relocatable kind) (one (relative_tab relr))))"

definition ifunc_count :: "OutputKind \<Rightarrow> bool \<Rightarrow> tab \<Rightarrow> nat" where
  "ifunc_count kind relr = plus_count (one TGot) (only_if (is_relocatable kind) (one (relative_tab relr)))"

definition tls_offset_count :: "ValueFlags \<Rightarrow> OutputKind \<Rightarrow> tab \<Rightarrow> nat" where
  "tls_offset_count flags kind = plus_count (one TGot) (only_if (is_interposable flags \<or> is_shared_object kind) (one TGeneral))"

definition tls_module_count :: "ValueFlags \<Rightarrow> OutputKind \<Rightarrow> tab \<Rightarrow> nat" where
  "tls_module_count flags kind = plus_count (\<lambda>t. 2 * one TGot t) (plus_count
     (only_if (\<not> is_executable kind \<or> is_dynamic flags) (one TGeneral)) (only_if (exports flags) (one TGeneral)))"

definition tls_descriptor_count :: "tab \<Rightarrow> nat" where
  "tls_descriptor_count = plus_count (\<lambda>t. 2 * one TGot t) (one TGeneral)"

definition symbol_count :: "ValueFlags \<Rightarrow> OutputKind \<Rightarrow> bool \<Rightarrow> tab \<Rightarrow> nat" where
  "symbol_count flags kind relr =
     plus_count (only_if (only_got flags) (got_count flags kind relr))
     (plus_count (only_if (needs_ifunc_got_for_address flags) (ifunc_count kind relr))
     (plus_count (only_if (needs_got_tls_offset flags) (tls_offset_count flags kind))
     (plus_count (only_if (needs_got_tls_module flags) (tls_module_count flags kind))
       (only_if (needs_got_tls_descriptor flags) tls_descriptor_count))))"

lemmas count_defs = plus_count_def only_if_def one_def

section \<open>The allocation counts entries\<close>

text \<open>Adding amounts to a map of sizes, for each part.\<close>

definition tab_of_part :: "nat \<Rightarrow> tab option" where
  "tab_of_part k = find (\<lambda>t. tab_part t = k) [TGot, TPlt, TRela_Plt, TGeneral, TRelative, TRelr]"

definition amount :: "(tab \<Rightarrow> nat) \<Rightarrow> nat \<Rightarrow> u64" where
  "amount c k = (case tab_of_part k of None \<Rightarrow> 0 | Some t \<Rightarrow> tab_size t * of_nat (c t))"

definition add_amounts :: "(tab \<Rightarrow> nat) \<Rightarrow> u64 list \<Rightarrow> u64 list" where
  "add_amounts c sizes = map (\<lambda>k. sizes ! k + amount c k) [0..<length sizes]"

lemma add_amounts_plus: "add_amounts d (add_amounts c sizes) = add_amounts (plus_count c d) sizes"
  by (auto simp: add_amounts_def amount_def plus_count_def algebra_simps split: option.split intro!: nth_equalityI)

lemma length_add_amounts [simp]: "length (add_amounts c sizes) = length sizes"
  by (simp add: add_amounts_def)

lemma add_amounts_zero [simp]: "add_amounts (only_if False c) sizes = sizes"
  by (auto simp: add_amounts_def amount_def only_if_def split: option.split intro!: nth_equalityI)

lemma add_amounts_none [simp]: "add_amounts (\<lambda>_. 0) sizes = sizes"
  by (auto simp: add_amounts_def amount_def split: option.split intro!: nth_equalityI)

lemma only_if_True [simp]: "only_if True c = c"
  by (auto simp: only_if_def)

lemma tab_of_part_tab [simp]: "tab_of_part (tab_part t) = Some t"
  by (cases t) (simp_all add: tab_of_part_def)

lemma tab_of_part_Some: "tab_of_part k = Some t \<Longrightarrow> k = tab_part t"
  unfolding tab_of_part_def find_Some_iff by auto

lemma increment_amount:
  assumes "unat p = tab_part t" "tab_part t < length sizes" "n = tab_size t * of_nat m"
  shows "part_map_increment sizes p n = Some (add_amounts (\<lambda>u. m * one t u) sizes)"
proof -
  have "sizes[tab_part t := sizes ! tab_part t + n] = add_amounts (\<lambda>u. m * one t u) sizes"
  proof (rule nth_equalityI)
    fix k assume "k < length (sizes[tab_part t := sizes ! tab_part t + n])"
    then have k: "k < length sizes" by simp
    show "sizes[tab_part t := sizes ! tab_part t + n] ! k = add_amounts (\<lambda>u. m * one t u) sizes ! k"
    proof (cases "k = tab_part t")
      case True
      then show ?thesis using k assms(3) by (simp add: add_amounts_def amount_def one_def)
    next
      case False
      then have "amount (\<lambda>u. m * one t u) k = 0"
        using tab_of_part_Some by (force simp: amount_def one_def split: option.split)
      then show ?thesis using k False by (simp add: add_amounts_def)
    qed
  qed simp
  then show ?thesis using assms(1,2) by (simp add: part_map_increment_def get_def set_at_def)
qed


lemma increment_one:
  assumes "unat p = tab_part t" "tab_part t < length sizes" "n = tab_size t"
  shows "part_map_increment sizes p n = Some (add_amounts (one t) sizes)"
  using increment_amount [of p t sizes n 1] assms by simp

lemmas part_consts = part_GOT_def part_PLT_GOT_def part_RELA_PLT_def part_RELA_DYN_RELATIVE_def part_RELA_DYN_GENERAL_def
  part_RELR_DYN_def GOT_ENTRY_SIZE_def PLT_ENTRY_SIZE_def RELA_ENTRY_SIZE_def RELR_ENTRY_SIZE_def

lemma increments:
  assumes "29 \<le> length sizes"
  shows "part_map_increment sizes part_GOT GOT_ENTRY_SIZE = Some (add_amounts (one TGot) sizes)"
    "part_map_increment sizes part_GOT (GOT_ENTRY_SIZE * 2) = Some (add_amounts (\<lambda>t. 2 * one TGot t) sizes)"
    "part_map_increment sizes part_PLT_GOT PLT_ENTRY_SIZE = Some (add_amounts (\<lambda>t. 16 * one TPlt t) sizes)"
    "part_map_increment sizes part_RELA_PLT RELA_ENTRY_SIZE = Some (add_amounts (one TRela_Plt) sizes)"
    "part_map_increment sizes part_RELA_DYN_GENERAL RELA_ENTRY_SIZE = Some (add_amounts (one TGeneral) sizes)"
    "allocate_relative relr sizes = Some (add_amounts (one (relative_tab relr)) sizes)"
  using assms
  by (auto simp: allocate_relative_def relative_tab_def part_consts
      intro!: increment_one increment_amount)

lemma if_add: "(if b then Some (add_amounts c sizes) else Some sizes) = Some (add_amounts (only_if b c) sizes)"
  by simp

lemma allocate_got_symbol_eq:
  "29 \<le> length sizes \<Longrightarrow> allocate_got_symbol flags kind relr sizes = Some (add_amounts (got_count flags kind relr) sizes)"
  unfolding allocate_got_symbol_def exports_def [symmetric] got_count_def add_amounts_plus [symmetric]
  by (cases "is_ifunc flags"; cases "exports flags") (simp_all add: increments if_add cong: if_cong split del: if_split)

lemma allocate_tls_eq:
  assumes "29 \<le> length sizes"
  shows "allocate_tls_offset flags kind sizes = Some (add_amounts (tls_offset_count flags kind) sizes)"
    "allocate_tls_module flags kind sizes = Some (add_amounts (tls_module_count flags kind) sizes)"
    "allocate_tls_descriptor sizes = Some (add_amounts tls_descriptor_count sizes)"
    "allocate_ifunc_address kind relr sizes = Some (add_amounts (ifunc_count kind relr) sizes)"
  unfolding allocate_tls_offset_def allocate_tls_module_def allocate_tls_descriptor_def allocate_ifunc_address_def
    tls_offset_count_def tls_module_count_def tls_descriptor_count_def ifunc_count_def exports_def [symmetric]
    add_amounts_plus [symmetric]
  using assms by (simp_all add: increments if_add cong: if_cong split del: if_split)

lemma allocate_resolution_eq:
  assumes "29 \<le> length sizes"
  shows "allocate_resolution flags kind relr sizes = Some (add_amounts (symbol_count flags kind relr) sizes)"
  unfolding allocate_resolution_def only_got_def [symmetric] symbol_count_def add_amounts_plus [symmetric]
  using assms by (simp add: allocate_got_symbol_eq allocate_tls_eq if_add cong: if_cong split del: if_split)

section \<open>The addresses advance by the entries counted\<close>

text \<open>
  What the layout has to ensure of a symbol. The flags come from the relocations that refer to the
  symbol and from its definition; a dynamic symbol index is there when the symbol is in the dynamic
  symbol table.
\<close>

definition symbol_consistent :: "OutputKind \<Rightarrow> u64 \<times> u64 \<Rightarrow> symbol_request \<Rightarrow> bool" where
  "symbol_consistent kind tls request \<longleftrightarrow> (case request of (flags, raw_value, dsi) \<Rightarrow>
     (needs_plt flags \<longrightarrow> only_got flags) \<and>
     (needs_ifunc_got_for_address flags \<longrightarrow> needs_plt flags) \<and>
     (is_dynamic flags \<longrightarrow> is_interposable flags \<and> \<not> is_ifunc flags) \<and>
     (exports flags \<longrightarrow> dsi \<noteq> None) \<and>
     (dsi \<noteq> None \<and> is_interposable flags \<longrightarrow> exports flags) \<and>
     (needs_got_tls_offset flags \<longrightarrow>
        kind \<noteq> PartialObject \<and> (is_executable kind \<and> is_interposable flags \<longrightarrow> exports flags) \<and>
        (\<not> exports flags \<longrightarrow> fst tls \<le> raw_value \<and> raw_value \<le> snd tls \<and> raw_value \<noteq> 0 \<or> raw_value = 0 \<and> is_executable kind)) \<and>
     (needs_got_tls_module flags \<and> dsi = None \<longrightarrow> is_address flags) \<and>
     (needs_got_tls_descriptor flags \<longrightarrow> \<not> is_static_executable kind))"

text \<open>The entries of the two tables that have addresses.\<close>

definition address_count :: "(tab \<Rightarrow> nat) \<Rightarrow> tab \<Rightarrow> nat" where
  "address_count c t = (if t = TGot \<or> t = TPlt then c t else 0)"

definition got_slots :: "ValueFlags \<Rightarrow> nat" where
  "got_slots flags = (if only_got flags then 1 else 0) + (if needs_ifunc_got_for_address flags then 1 else 0) + tls_got_slots flags"

lemma symbol_count_got: "symbol_count flags kind relr TGot = got_slots flags"
  by (simp add: symbol_count_def got_slots_def got_count_def ifunc_count_def tls_offset_count_def tls_module_count_def
      tls_descriptor_count_def relative_tab_def tls_got_slots_def count_defs)

lemma symbol_count_plt: "symbol_count flags kind relr TPlt = (if only_got flags \<and> needs_plt flags then 16 else 0)"
  by (simp add: symbol_count_def got_count_def ifunc_count_def tls_offset_count_def tls_module_count_def
      tls_descriptor_count_def relative_tab_def count_defs)

lemma allocate_got_eq:
  assumes "29 \<le> length offsets" "offsets ! 5 \<noteq> 0"
  shows "allocate_got n offsets = Some (offsets ! 5, add_amounts (\<lambda>t. n * one TGot t) offsets)"
proof -
  have "part_map_increment offsets part_GOT (GOT_ENTRY_SIZE * of_nat n) = Some (add_amounts (\<lambda>t. n * one TGot t) offsets)"
    using assms by (intro increment_amount) (simp_all add: part_consts)
  then show ?thesis using assms by (simp add: allocate_got_def get_def part_GOT_def)
qed

lemma allocate_plt_eq:
  assumes "29 \<le> length offsets" "offsets ! 6 \<noteq> 0"
  shows "allocate_plt offsets = Some (offsets ! 6, add_amounts (\<lambda>t. 16 * one TPlt t) offsets)"
  unfolding allocate_plt_def increments(3) [OF assms(1)] using assms by (simp add: get_def part_PLT_GOT_def)

lemma add_amounts_cong: "(\<And>t. c t = d t) \<Longrightarrow> add_amounts c sizes = add_amounts d sizes"
  by (metis ext)

lemma add_amounts_got: "29 \<le> length sizes \<Longrightarrow> add_amounts c sizes ! 5 = sizes ! 5 + 8 * of_nat (c TGot)"
  and add_amounts_plt: "29 \<le> length sizes \<Longrightarrow> add_amounts c sizes ! 6 = sizes ! 6 + of_nat (c TPlt)"
  using tab_of_part_tab [of TGot] tab_of_part_tab [of TPlt] by (simp_all add: add_amounts_def amount_def)

lemma create_resolution_eq:
  assumes ok: "symbol_consistent kind tls (flags, raw_value, dsi)"
    and len: "29 \<le> length offsets"
    and got: "got_slots flags \<noteq> 0 \<Longrightarrow> offsets ! 5 \<noteq> 0" and plt: "needs_plt flags \<Longrightarrow> offsets ! 6 \<noteq> 0"
  shows "create_resolution flags raw_value dsi offsets =
    Some (\<lparr>rs_raw_value = (if needs_plt flags \<and> is_dynamic flags then offsets ! 6 else raw_value),
           rs_dynamic_symbol_index = dsi,
           rs_got_address = (if got_slots flags = 0 then None else Some (offsets ! 5)),
           rs_plt_address = (if needs_plt flags then Some (offsets ! 6) else None), rs_flags = flags\<rparr>,
          add_amounts (address_count (symbol_count flags kind relr)) offsets)"
proof (cases "needs_plt flags")
  case True
  then have og: "only_got flags" using ok by (simp add: symbol_consistent_def)
  have slots: "got_slots flags = (if needs_ifunc_got_for_address flags then 2 else 1)"
    using og by (simp add: got_slots_def only_got_def tls_got_slots_def flags_is_tls_def needs_got_tls_offset_def
        needs_got_tls_module_def needs_got_tls_descriptor_def)
  have sum: "add_amounts (\<lambda>t. got_slots flags * one TGot t) (add_amounts (\<lambda>t. 16 * one TPlt t) offsets) =
      add_amounts (address_count (symbol_count flags kind relr)) offsets"
    unfolding add_amounts_plus
    by (rule add_amounts_cong) (simp add: address_count_def plus_count_def one_def symbol_count_got symbol_count_plt og True)
  have o5: "add_amounts (\<lambda>t. 16 * one TPlt t) offsets ! 5 = offsets ! 5"
    using len by (simp add: add_amounts_got one_def)
  show ?thesis
    using True len got plt slots sum o5 by (simp add: create_resolution_def allocate_plt_eq allocate_got_eq Let_def)
next
  case False
  then have no_ifunc: "\<not> needs_ifunc_got_for_address flags" using ok by (auto simp: symbol_consistent_def)
  have sum: "add_amounts (\<lambda>t. got_slots flags * one TGot t) offsets = add_amounts (address_count (symbol_count flags kind relr)) offsets"
    by (rule add_amounts_cong) (simp add: address_count_def one_def symbol_count_got symbol_count_plt False)
  have tls: "got_slots flags = tls_got_slots flags \<and> got_slots flags \<noteq> 0" if "flags_is_tls flags"
    using that no_ifunc by (auto simp: got_slots_def only_got_def tls_got_slots_def flags_is_tls_def needs_got_tls_offset_def
        needs_got_tls_module_def needs_got_tls_descriptor_def)
  have got1: "got_slots flags = (if needs_got flags then 1 else 0)" if "\<not> flags_is_tls flags"
    using that no_ifunc by (auto simp: got_slots_def only_got_def tls_got_slots_def flags_is_tls_def needs_got_tls_offset_def
        needs_got_tls_module_def needs_got_tls_descriptor_def)
  show ?thesis
    using False len got sum tls got1
    by (cases "flags_is_tls flags"; cases "needs_got flags") (simp_all add: create_resolution_def allocate_got_eq Let_def)
qed

section \<open>Operations that take entries\<close>

fun taken :: "TableWriter \<Rightarrow> tab \<Rightarrow> nat" where
  "taken w TGot = tb_taken (tw_got w)"
| "taken w TPlt = tb_taken (tw_plt_got w)"
| "taken w TRela_Plt = tb_taken (tw_rela_plt w)"
| "taken w TGeneral = tb_taken (tw_rela_dyn_general w)"
| "taken w TRelative = tb_taken (tw_rela_dyn_relative w)"
| "taken w TRelr = (case tw_relr_dyn w of None \<Rightarrow> 0 | Some r \<Rightarrow> tb_taken r)"

fun capacity :: "TableWriter \<Rightarrow> tab \<Rightarrow> nat" where
  "capacity w TGot = length (tb_entries (tw_got w))"
| "capacity w TPlt = length (tb_entries (tw_plt_got w))"
| "capacity w TRela_Plt = length (tb_entries (tw_rela_plt w))"
| "capacity w TGeneral = length (tb_entries (tw_rela_dyn_general w))"
| "capacity w TRelative = length (tb_entries (tw_rela_dyn_relative w))"
| "capacity w TRelr = (case tw_relr_dyn w of None \<Rightarrow> 0 | Some r \<Rightarrow> length (tb_entries r))"

type_synonym setting = "OutputKind \<times> (u64 \<times> u64) \<times> bool"

definition setting_of :: "TableWriter \<Rightarrow> setting" where
  "setting_of w = (tw_output_kind w, tw_tls w, tw_relr_dyn w \<noteq> None)"

text \<open>An operation that succeeds when there is room, and then takes exactly the given entries.\<close>

definition advanced :: "(tab \<Rightarrow> nat) \<Rightarrow> TableWriter \<Rightarrow> TableWriter \<Rightarrow> bool" where
  "advanced c w w' \<longleftrightarrow> setting_of w' = setting_of w \<and> (\<forall>t. capacity w' t = capacity w t \<and> taken w' t = taken w t + c t)"

definition room :: "(tab \<Rightarrow> nat) \<Rightarrow> TableWriter \<Rightarrow> bool" where
  "room c w \<longleftrightarrow> (\<forall>t. taken w t + c t \<le> capacity w t)"

definition consumes :: "setting \<Rightarrow> (tab \<Rightarrow> nat) \<Rightarrow> (TableWriter \<Rightarrow> TableWriter write_result) \<Rightarrow> bool" where
  "consumes S c f \<longleftrightarrow> (\<forall>w. setting_of w = S \<longrightarrow> room c w \<longrightarrow> (\<exists>w'. f w = ok w' \<and> advanced c w w'))"

lemma rbind_simps [simp]: "rbind (ok a) k = k a" "rbind (fail e) k = fail e" "rbind None k = None"
  by (simp_all add: rbind_def ok_def fail_def)

lemma ok_eq [simp]: "ok a = ok b \<longleftrightarrow> a = b"
  by (simp add: ok_def)

lemma or_error_simps [simp]: "or_error e (Some a) = ok a" "or_error e None = fail e"
  by (simp_all add: or_error_def)

lemma advanced_plus: "advanced c w w1 \<Longrightarrow> advanced d w1 w2 \<Longrightarrow> advanced (plus_count c d) w w2"
  by (simp add: advanced_def plus_count_def)

lemma advanced_zero [simp]: "advanced (\<lambda>_. 0) w w"
  by (simp add: advanced_def)

lemma room_rest: "room (plus_count c d) w \<Longrightarrow> advanced c w w1 \<Longrightarrow> room d w1"
  by (simp add: room_def advanced_def plus_count_def add.assoc)

lemma room_first: "room (plus_count c d) w \<Longrightarrow> room c w"
  unfolding room_def plus_count_def by (meson add_le_cancel_left le_add1 le_trans)

lemma consumesI: "(\<And>w. setting_of w = S \<Longrightarrow> room c w \<Longrightarrow> \<exists>w'. f w = ok w' \<and> advanced c w w') \<Longrightarrow> consumes S c f"
  by (simp add: consumes_def)

lemma consumesD: "consumes S c f \<Longrightarrow> setting_of w = S \<Longrightarrow> room c w \<Longrightarrow> \<exists>w'. f w = ok w' \<and> advanced c w w'"
  by (simp add: consumes_def)

lemma consumes_setting: "(\<And>w. setting_of w = S \<Longrightarrow> f w = g w) \<Longrightarrow> consumes S c g \<Longrightarrow> consumes S c f"
  by (simp add: consumes_def)

lemma consumes_cong: "consumes S d f \<Longrightarrow> (\<And>t. c t = d t) \<Longrightarrow> consumes S c f"
  by (simp add: consumes_def room_def advanced_def)

lemma consumes_ok [simp]: "consumes S (\<lambda>_. 0) ok"
  by (auto intro!: consumesI)

text \<open>
  An operation that returns a value together with the writer: the operation that follows must
  consume its entries for every value.
\<close>

lemma consumes_then:
  assumes f: "\<And>w. setting_of w = S \<Longrightarrow> room c w \<Longrightarrow> \<exists>v w'. f w = ok (v, w') \<and> advanced c w w'"
    and g: "\<And>v. consumes S d (g v)"
  shows "consumes S (plus_count c d) (\<lambda>w. rbind (f w) (\<lambda>(v, w1). g v w1))"
proof (rule consumesI)
  fix w assume w: "setting_of w = S" "room (plus_count c d) w"
  obtain v w1 where w1: "f w = ok (v, w1)" "advanced c w w1" using f [OF w(1) room_first [OF w(2)]] by blast
  then have "setting_of w1 = S" using w(1) by (simp add: advanced_def)
  then obtain w2 where "g v w1 = ok w2" "advanced d w1 w2" using consumesD [OF g _ room_rest [OF w(2) w1(2)]] by blast
  then show "\<exists>w'. rbind (f w) (\<lambda>(v, w1). g v w1) = ok w' \<and> advanced (plus_count c d) w w'"
    using w1 advanced_plus by auto
qed

lemma consumes_bind:
  assumes "consumes S c f" "consumes S d g"
  shows "consumes S (plus_count c d) (\<lambda>w. rbind (f w) g)"
proof (rule consumesI)
  fix w assume w: "setting_of w = S" "room (plus_count c d) w"
  obtain w1 where w1: "f w = ok w1" "advanced c w w1" using consumesD [OF assms(1) w(1) room_first [OF w(2)]] by blast
  then have "setting_of w1 = S" using w(1) by (simp add: advanced_def)
  then obtain w2 where "g w1 = ok w2" "advanced d w1 w2" using consumesD [OF assms(2) _ room_rest [OF w(2) w1(2)]] by blast
  then show "\<exists>w'. rbind (f w) g = ok w' \<and> advanced (plus_count c d) w w'"
    using w1 advanced_plus by auto
qed

lemma tab_cases: "(\<forall>t. P t) \<longleftrightarrow> P TGot \<and> P TPlt \<and> P TRela_Plt \<and> P TGeneral \<and> P TRelative \<and> P TRelr"
  by (metis tab.exhaust)

lemma tb_take_Some:
  "tb_taken t + n \<le> length (tb_entries t) \<Longrightarrow> tb_take n t = Some (tb_taken t, t\<lparr>tb_taken := tb_taken t + n\<rparr>)"
  by (simp add: tb_take_def tb_remaining_def)

lemmas advanced_simps = tb_take_Some tb_put_def advanced_def setting_of_def tab_cases one_def

lemma take_got:
  assumes "room (one TGot) w"
  shows "\<exists>v w'. take_next_got_entry w = ok (v, w') \<and> advanced (one TGot) w w'"
proof -
  have "tb_taken (tw_got w) + 1 \<le> length (tb_entries (tw_got w))"
    using assms unfolding room_def by (drule_tac spec [of _ TGot]) (simp add: one_def)
  then show ?thesis
    by (simp add: take_next_got_entry_def advanced_simps)
qed

lemma advanced_put_got: "advanced (\<lambda>_. 0) w (put_got i v w)"
  by (simp add: advanced_def put_got_def tb_put_def setting_of_def tab_cases)

lemma consumes_put_got: "consumes S (\<lambda>_. 0) (\<lambda>w. ok (put_got i v w))"
  using advanced_put_got by (auto intro!: consumesI)

lemma consumes_after_put:
  assumes "consumes S c g"
  shows "consumes S c (\<lambda>w. g (put_got i v w))"
  using consumes_cong [OF consumes_bind [OF consumes_put_got assms, of i v], of c] by (simp add: plus_count_def)

lemma consumes_take_got:
  "(\<And>v. consumes S d (g v)) \<Longrightarrow>
    consumes S (plus_count (one TGot) d) (\<lambda>w. rbind (take_next_got_entry w) (\<lambda>(v, w1). g v w1))"
  by (rule consumes_then [OF take_got])

lemma consumes_general: "consumes S (one TGeneral) (write_rela_dyn_general A place d r_type addend)"
proof (rule consumesI)
  fix w assume "room (one TGeneral) w"
  then have "tb_taken (tw_rela_dyn_general w) + 1 \<le> length (tb_entries (tw_rela_dyn_general w))"
    unfolding room_def by (drule_tac spec [of _ TGeneral]) (simp add: one_def)
  then show "\<exists>w'. write_rela_dyn_general A place d r_type addend w = ok w' \<and> advanced (one TGeneral) w w'"
    by (simp add: write_rela_dyn_general_def take_rela_dyn_def advanced_simps)
qed

lemma dynamic_relocation_general:
  "write_dynamic_symbol_relocation A place addend d kind =
     write_rela_dyn_general A place d (get_dynamic_relocation_type A kind) addend"
  by (rule ext) (simp add: write_dynamic_symbol_relocation_def write_rela_dyn_general_def)

lemma consumes_general_variants:
  "consumes S (one TGeneral) (write_dynamic_symbol_relocation A place addend d kind)"
  "consumes S (one TGeneral) (write_dtpmod_relocation A place d)"
  "consumes S (one TGeneral) (write_tls_descriptor_relocation A place d addend)"
  "consumes S (one TGeneral) (write_dtpoff_relocation A place d)"
  "consumes S (one TGeneral) (write_tpoff_relocation A place d addend)"
  by (simp_all add: dynamic_relocation_general consumes_general write_dtpmod_relocation_def [abs_def]
      write_tls_descriptor_relocation_def [abs_def] write_dtpoff_relocation_def [abs_def] write_tpoff_relocation_def [abs_def])

lemma take_relative:
  assumes "setting_of w = S" "snd (snd S) \<longrightarrow> relr" "relr \<longrightarrow> place mod 2 = 0" "room (one (relative_tab relr)) w"
  shows "\<exists>v w'. write_address_relocation A place a w = ok (v, w') \<and> advanced (one (relative_tab relr)) w w'"
proof (cases relr)
  case True
  then obtain r where r: "tw_relr_dyn w = Some r" "tb_taken r + 1 \<le> length (tb_entries r)"
    using assms(4) unfolding room_def
    by (drule_tac spec [of _ TRelr]) (auto simp: one_def relative_tab_def split: option.splits)
  then show ?thesis
    using True assms(3) by (simp add: write_address_relocation_def advanced_simps relative_tab_def)
next
  case False
  then have none: "tw_relr_dyn w = None" using assms(1,2) by (auto simp: setting_of_def)
  have "tb_taken (tw_rela_dyn_relative w) + 1 \<le> length (tb_entries (tw_rela_dyn_relative w))"
    using assms(4) False unfolding room_def by (drule_tac spec [of _ TRelative]) (simp add: one_def relative_tab_def)
  then show ?thesis
    using none False by (simp add: write_address_relocation_def advanced_simps relative_tab_def)
qed

lemma consumes_address:
  assumes "snd (snd S) \<longrightarrow> relr" "relr \<longrightarrow> place mod 2 = 0"
  shows "consumes S (one (relative_tab relr)) (\<lambda>w. rbind (write_address_relocation A place a w) (\<lambda>(v, w2). ok (put_got i v w2)))"
proof -
  have "consumes S (plus_count (one (relative_tab relr)) (\<lambda>_. 0))
      (\<lambda>w. rbind (write_address_relocation A place a w) (\<lambda>(v, w2). ok (put_got i v w2)))"
    by (rule consumes_then [OF take_relative [OF _ assms] consumes_put_got])
  then show ?thesis by (rule consumes_cong) (simp add: plus_count_def)
qed

lemma consumes_ifunc:
  assumes "rs_got_address res \<noteq> None"
  shows "consumes S (one TRela_Plt) (write_ifunc_relocation A res)"
proof (rule consumesI)
  fix w assume "room (one TRela_Plt) w"
  then have "tb_taken (tw_rela_plt w) + 1 \<le> length (tb_entries (tw_rela_plt w))"
    unfolding room_def by (drule_tac spec [of _ TRela_Plt]) (simp add: one_def)
  then show "\<exists>w'. write_ifunc_relocation A res w = ok w' \<and> advanced (one TRela_Plt) w w'"
    using assms by (auto simp: write_ifunc_relocation_def advanced_simps)
qed

lemma consumes_plt:
  assumes arch: "\<And>entry. length entry = 16 \<Longrightarrow> \<exists>bs. arch_write_plt_entry A entry place p = ok bs \<and> length bs = 16"
  shows "consumes S (\<lambda>t. 16 * one TPlt t) (write_plt_entry A place p)"
proof (rule consumesI)
  fix w assume "room (\<lambda>t. 16 * one TPlt t) w"
  then have len: "tb_taken (tw_plt_got w) + 16 \<le> length (tb_entries (tw_plt_got w))"
    unfolding room_def by (drule_tac spec [of _ TPlt]) (simp add: one_def)
  let ?entry = "take 16 (drop (tb_taken (tw_plt_got w)) (tb_entries (tw_plt_got w)))"
  obtain bs where "arch_write_plt_entry A ?entry place p = ok bs" "length bs = 16"
    using arch [of ?entry] len by fastforce
  then show "\<exists>w'. write_plt_entry A place p w = ok w' \<and> advanced (\<lambda>t. 16 * one TPlt t) w w'"
    using len by (simp add: write_plt_entry_def take_plt_got_entry_def PLT_ENTRY_SIZE_def
        get_range_def copy_at_def advanced_simps)
qed

section \<open>The writer takes the entries counted\<close>

lemma consistent_exports:
  assumes "symbol_consistent kind tls (flags, raw_value, dsi)"
  shows "is_dynamic flags \<or> (needs_export_dynamic flags \<and> is_interposable flags) \<longleftrightarrow> exports flags"
  using assms by (auto simp: symbol_consistent_def exports_def)

lemma consumes_zeroI: "consumes S (\<lambda>_. 0) f \<Longrightarrow> consumes S (only_if False c) f"
  by (rule consumes_cong) (simp_all add: only_if_def)

lemma consumes_unless: "\<not> b \<Longrightarrow> consumes S (\<lambda>_. 0) f \<Longrightarrow> consumes S (only_if b c) f"
  by (simp add: consumes_zeroI)

lemma consumes_tls_offset:
  assumes ok: "symbol_consistent kind tls (rs_flags res, rs_raw_value res, rs_dynamic_symbol_index res)"
    and needs: "needs_got_tls_offset (rs_flags res)"
  shows "consumes (kind, tls, b) (tls_offset_count (rs_flags res) kind) (process_got_tls_offset A res tp place)"
  unfolding process_got_tls_offset_def tls_offset_count_def
proof (rule consumes_take_got)
  fix i
  let ?flags = "rs_flags res"
  note ex = consistent_exports [OF ok]
  show "consumes (kind, tls, b) (only_if (is_interposable ?flags \<or> is_shared_object kind) (one TGeneral))
      (\<lambda>w1. let flags = ?flags; address = rs_raw_value res in
       if is_dynamic flags \<or> (needs_export_dynamic flags \<and> is_interposable flags) then
         rbind (dynamic_symbol_index res) (\<lambda>d. write_tpoff_relocation A place d 0 (put_got i 0 w1))
       else if address = 0 then ok (put_got i 0 w1)
       else if \<not> (fst (tw_tls w1) \<le> address \<and> address \<le> snd (tw_tls w1)) then fail (Not_In_Tls_Segment address)
       else if is_executable (tw_output_kind w1) then ok (put_got i (address - tp) w1)
       else write_tpoff_relocation A place 0 (address - fst (tw_tls w1)) w1)" (is "consumes _ _ ?f")
  proof (cases "exports ?flags")
    case True
    then obtain d where d: "rs_dynamic_symbol_index res = Some d" using ok by (auto simp: symbol_consistent_def)
    have f: "?f = (\<lambda>w. write_tpoff_relocation A place d 0 (put_got i 0 w))"
      by (simp only: Let_def ex True if_True dynamic_symbol_index_def d or_error_simps rbind_simps)
    have "is_interposable ?flags" using True by (simp add: exports_def)
    then show ?thesis unfolding f by (simp add: consumes_after_put consumes_general_variants)
  next
    case False
    note tls = ok [unfolded symbol_consistent_def] needs False
    show ?thesis
    proof (cases "is_executable kind")
      case True
      then have "\<not> (is_interposable ?flags \<or> is_shared_object kind)"
        using tls by (auto simp: is_shared_object_def is_executable_def)
      moreover have "consumes (kind, tls, b) (\<lambda>_. 0) ?f"
      proof (rule consumes_setting)
        fix w assume "setting_of w = (kind, tls, b)"
        then show "?f w = ok (put_got i (if rs_raw_value res = 0 then 0 else rs_raw_value res - tp) w)"
          using tls True by (auto simp: Let_def ex setting_of_def)
      qed (rule consumes_put_got)
      ultimately show ?thesis by (simp add: consumes_zeroI)
    next
      case no_exec: False
      then have "is_shared_object kind" using tls by (cases kind) (auto simp: is_shared_object_def is_executable_def)
      moreover have "consumes (kind, tls, b) (one TGeneral) ?f"
      proof (rule consumes_setting)
        fix w assume "setting_of w = (kind, tls, b)"
        then show "?f w = write_tpoff_relocation A place 0 (rs_raw_value res - fst tls) w"
          using tls no_exec by (auto simp: Let_def ex setting_of_def)
      qed (rule consumes_general_variants)
      ultimately show ?thesis by simp
    qed
  qed
qed

lemma consumes_tls_module:
  assumes ok: "symbol_consistent kind tls (rs_flags res, rs_raw_value res, rs_dynamic_symbol_index res)"
    and needs: "needs_got_tls_module (rs_flags res)"
  shows "consumes (kind, tls, b) (tls_module_count (rs_flags res) kind) (process_got_tls_mod_and_offset A res place)"
proof -
  let ?flags = "rs_flags res" and ?S = "(kind, tls, b)"
  let ?mod = "only_if (\<not> is_executable kind \<or> is_dynamic ?flags) (one TGeneral)"
  let ?off = "only_if (exports ?flags) (one TGeneral)"
  have m: "consumes ?S ?mod (\<lambda>w1. if is_executable (tw_output_kind w1) \<and> \<not> is_dynamic ?flags
      then ok (put_got i CURRENT_EXE_TLS_MOD w1)
      else write_dtpmod_relocation A place (case rs_dynamic_symbol_index res of None \<Rightarrow> 0 | Some d \<Rightarrow> d) (put_got i 0 w1))"
    (is "consumes _ _ ?f") for i
  proof (cases "is_executable kind \<and> \<not> is_dynamic ?flags")
    case True
    have "consumes ?S (\<lambda>_. 0) ?f"
      by (rule consumes_setting [OF _ consumes_put_got [of _ i CURRENT_EXE_TLS_MOD]]) (use True in \<open>auto simp: setting_of_def\<close>)
    then have "consumes ?S (only_if False (one TGeneral)) ?f" by (rule consumes_zeroI)
    then show ?thesis using True by simp
  next
    case False
    have "consumes ?S (one TGeneral) ?f"
    proof (rule consumes_setting)
      fix w assume "setting_of w = ?S"
      then show "?f w = write_dtpmod_relocation A place (case rs_dynamic_symbol_index res of None \<Rightarrow> 0 | Some d \<Rightarrow> d) (put_got i 0 w)"
        using False by (auto simp: setting_of_def)
    qed (rule consumes_after_put [OF consumes_general_variants(2)])
    then show ?thesis using False by auto
  qed
  have o: "consumes ?S ?off (\<lambda>w3. case rs_dynamic_symbol_index res of
      Some d \<Rightarrow> rbind (if is_interposable ?flags then write_dtpoff_relocation A (place + TLS_OFFSET_OFFSET) d w3 else ok w3)
        (\<lambda>w4. ok (put_got j 0 w4))
    | None \<Rightarrow> rbind (resolution_address res) (\<lambda>address. ok (put_got j (address - fst (tw_tls w3) - get_dtv_offset A) w3)))"
    (is "consumes _ _ ?g") for j
  proof (cases "rs_dynamic_symbol_index res")
    case None
    then have "\<not> exports ?flags" "is_address ?flags" using ok needs by (auto simp: symbol_consistent_def)
    moreover have "consumes ?S (\<lambda>_. 0) ?g"
      by (rule consumes_setting [OF _ consumes_put_got [of _ j "rs_raw_value res - fst tls - get_dtv_offset A"]])
        (use None \<open>is_address ?flags\<close> in \<open>auto simp: setting_of_def resolution_address_def\<close>)
    ultimately show ?thesis by (simp add: consumes_zeroI)
  next
    case (Some d)
    show ?thesis
    proof (cases "is_interposable ?flags")
      case True
      then have "exports ?flags" using ok Some by (auto simp: symbol_consistent_def)
      moreover have "consumes ?S (plus_count (one TGeneral) (\<lambda>_. 0)) ?g"
        using Some True consumes_bind [OF consumes_general_variants(4) consumes_put_got] by simp
      then have "consumes ?S (one TGeneral) ?g" by (rule consumes_cong) (simp add: plus_count_def)
      ultimately show ?thesis by simp
    next
      case False
      then have "\<not> exports ?flags" by (simp add: exports_def)
      moreover have "consumes ?S (\<lambda>_. 0) ?g" using Some False consumes_put_got by simp
      ultimately show ?thesis by (simp add: consumes_zeroI)
    qed
  qed
  have "consumes ?S (plus_count (one TGot) (plus_count ?mod (plus_count (one TGot) ?off)))
      (process_got_tls_mod_and_offset A res place)"
    unfolding process_got_tls_mod_and_offset_def
    by (intro consumes_take_got consumes_bind m o)
  then show ?thesis
    by (rule consumes_cong) (simp add: tls_module_count_def plus_count_def)
qed

lemma consumes_tls_descriptor:
  assumes "\<not> is_static_executable kind"
  shows "consumes (kind, tls, b) tls_descriptor_count (process_got_tls_descriptor A res place)"
proof -
  have last: "consumes (kind, tls, b) (one TGeneral) (\<lambda>w2.
      if is_static_executable (tw_output_kind w2) then fail Tlsdesc_In_Static_Executable
      else write_tls_descriptor_relocation A place (case rs_dynamic_symbol_index res of None \<Rightarrow> 0 | Some d \<Rightarrow> d)
        (case rs_dynamic_symbol_index res of None \<Rightarrow> rs_raw_value res - fst (tw_tls w2) | Some _ \<Rightarrow> 0) (put_got j 0 w2))"
    (is "consumes _ _ ?f") for j
  proof (rule consumes_setting)
    fix w assume "setting_of w = (kind, tls, b)"
    then show "?f w = write_tls_descriptor_relocation A place (case rs_dynamic_symbol_index res of None \<Rightarrow> 0 | Some d \<Rightarrow> d)
        (case rs_dynamic_symbol_index res of None \<Rightarrow> rs_raw_value res - fst tls | Some _ \<Rightarrow> 0) (put_got j 0 w)"
      using assms by (auto simp: setting_of_def)
  qed (rule consumes_after_put [OF consumes_general_variants(3)])
  have "consumes (kind, tls, b) (plus_count (one TGot) (plus_count (one TGot) (one TGeneral)))
      (process_got_tls_descriptor A res place)"
    unfolding process_got_tls_descriptor_def
    by (rule consumes_take_got [OF consumes_after_put [OF consumes_take_got [OF last]]])
  then show ?thesis
    by (rule consumes_cong) (simp add: tls_descriptor_count_def plus_count_def)
qed

lemma consumes_only_if: "(b \<Longrightarrow> consumes S c f) \<Longrightarrow> (\<not> b \<Longrightarrow> f = ok) \<Longrightarrow> consumes S (only_if b c) f"
  by (cases b) (simp_all add: consumes_zeroI)

lemma consumes_process_tls:
  assumes ok: "symbol_consistent kind tls (rs_flags res, rs_raw_value res, rs_dynamic_symbol_index res)"
  shows "consumes (kind, tls, b)
    (plus_count (only_if (needs_got_tls_offset (rs_flags res)) (tls_offset_count (rs_flags res) kind))
      (plus_count (only_if (needs_got_tls_module (rs_flags res)) (tls_module_count (rs_flags res) kind))
        (only_if (needs_got_tls_descriptor (rs_flags res)) tls_descriptor_count)))
    (process_tls A (Some tp) res place)"
  unfolding process_tls_def Let_def or_error_simps rbind_simps
proof (intro consumes_bind)
  let ?flags = "rs_flags res"
  show "consumes (kind, tls, b) (only_if (needs_got_tls_offset ?flags) (tls_offset_count ?flags kind))
      (\<lambda>w. if needs_got_tls_offset ?flags then process_got_tls_offset A res tp place w else ok w)"
    by (rule consumes_only_if) (use consumes_tls_offset [OF ok] in auto)
  show "consumes (kind, tls, b) (only_if (needs_got_tls_module ?flags) (tls_module_count ?flags kind))
      (\<lambda>w1. if needs_got_tls_module ?flags
        then process_got_tls_mod_and_offset A res (if needs_got_tls_offset ?flags then place + GOT_ENTRY_SIZE else place) w1
        else ok w1)"
    by (rule consumes_only_if) (use consumes_tls_module [OF ok] in auto)
  have static: "needs_got_tls_descriptor ?flags \<Longrightarrow> \<not> is_static_executable kind"
    using ok by (simp add: symbol_consistent_def)
  show "consumes (kind, tls, b) (only_if (needs_got_tls_descriptor ?flags) tls_descriptor_count)
      (\<lambda>w2. if needs_got_tls_descriptor ?flags
        then process_got_tls_descriptor A res (if needs_got_tls_module ?flags
            then (if needs_got_tls_offset ?flags then place + GOT_ENTRY_SIZE else place) + 2 * GOT_ENTRY_SIZE
            else (if needs_got_tls_offset ?flags then place + GOT_ENTRY_SIZE else place)) w2
        else ok w2)"
    by (rule consumes_only_if) (use consumes_tls_descriptor [OF static] in auto)
qed

lemma consumes_got_entry:
  assumes ok: "symbol_consistent kind tls (rs_flags res, rs_raw_value res, rs_dynamic_symbol_index res)"
    and got: "rs_got_address res \<noteq> None" and relr: "b \<longrightarrow> relr" "relr \<longrightarrow> place mod 2 = 0"
  shows "consumes (kind, tls, b)
    (plus_count (one TGot) (if is_ifunc (rs_flags res) then one TRela_Plt else if exports (rs_flags res) then one TGeneral
      else only_if (is_address (rs_flags res) \<and> is_relocatable kind) (one (relative_tab relr))))
    (process_got_entry A res place)"
  unfolding process_got_entry_def
proof (rule consumes_take_got)
  fix i
  let ?flags = "rs_flags res" and ?S = "(kind, tls, b)"
  have cond: "is_dynamic ?flags \<or> ((needs_export_dynamic ?flags \<and> is_interposable ?flags) \<and> \<not> is_ifunc ?flags) \<longleftrightarrow>
      exports ?flags \<and> \<not> is_ifunc ?flags"
    using ok by (auto simp: symbol_consistent_def exports_def)
  let ?f = "\<lambda>w1. if exports ?flags \<and> \<not> is_ifunc ?flags then
         rbind (dynamic_symbol_index res) (\<lambda>d. write_dynamic_symbol_relocation A place 0 d GotEntry (put_got i 0 w1))
       else if is_ifunc ?flags then write_ifunc_relocation A res (put_got i 0 w1)
       else if is_address ?flags \<and> is_relocatable (tw_output_kind w1) then
         rbind (write_address_relocation A place (rs_raw_value res) w1) (\<lambda>(v, w2). ok (put_got i v w2))
       else ok (put_got i (rs_raw_value res) w1)"
  have f: "consumes ?S (if is_ifunc ?flags then one TRela_Plt else if exports ?flags then one TGeneral
      else only_if (is_address ?flags \<and> is_relocatable kind) (one (relative_tab relr))) ?f"
  proof -
    consider "is_ifunc ?flags" | "\<not> is_ifunc ?flags" "exports ?flags" |
        "\<not> is_ifunc ?flags" "\<not> exports ?flags" "is_address ?flags \<and> is_relocatable kind" |
        "\<not> is_ifunc ?flags" "\<not> exports ?flags" "\<not> (is_address ?flags \<and> is_relocatable kind)" by blast
    then show ?thesis
    proof cases
      case 1
      then show ?thesis using consumes_after_put [OF consumes_ifunc [OF got]] by simp
    next
      case 2
      then obtain d where "rs_dynamic_symbol_index res = Some d" using ok by (auto simp: symbol_consistent_def)
      then show ?thesis
        using 2 consumes_after_put [OF consumes_general_variants(1)] by (simp add: dynamic_symbol_index_def)
    next
      case 3
      have "consumes ?S (one (relative_tab relr)) ?f"
        by (rule consumes_setting [OF _ consumes_address [of ?S relr place A "rs_raw_value res" i]])
          (use 3 relr in \<open>auto simp: setting_of_def\<close>)
      then show ?thesis using 3 by simp
    next
      case 4
      have "consumes ?S (\<lambda>_. 0) ?f"
        by (rule consumes_setting [OF _ consumes_put_got [of _ i "rs_raw_value res"]])
          (use 4 in \<open>auto simp: setting_of_def\<close>)
      from consumes_unless [OF 4(3) this] show ?thesis using 4(1,2) by simp
    qed
  qed
  then show "consumes ?S (if is_ifunc ?flags then one TRela_Plt else if exports ?flags then one TGeneral
      else only_if (is_address ?flags \<and> is_relocatable kind) (one (relative_tab relr)))
      (\<lambda>w1. let flags = ?flags in
       if is_dynamic flags \<or> ((needs_export_dynamic flags \<and> is_interposable flags) \<and> \<not> is_ifunc flags) then
         rbind (dynamic_symbol_index res) (\<lambda>d. write_dynamic_symbol_relocation A place 0 d GotEntry (put_got i 0 w1))
       else if is_ifunc flags then write_ifunc_relocation A res (put_got i 0 w1)
       else if is_address flags \<and> is_relocatable (tw_output_kind w1) then
         rbind (write_address_relocation A place (rs_raw_value res) w1) (\<lambda>(v, w2). ok (put_got i v w2))
       else ok (put_got i (rs_raw_value res) w1))"
    by (simp only: Let_def cond)
qed

lemma consumes_ifunc_got:
  assumes "rs_plt_address res = Some p" "b \<longrightarrow> relr" "relr \<longrightarrow> place mod 2 = 0"
  shows "consumes (kind, tls, b) (ifunc_count kind relr) (process_ifunc_got A res place)"
  unfolding process_ifunc_got_def ifunc_count_def
proof (rule consumes_take_got)
  fix i
  let ?f = "\<lambda>w1. rbind (plt_address res) (\<lambda>plt. if is_relocatable (tw_output_kind w1)
      then rbind (write_address_relocation A place plt w1) (\<lambda>(v, w2). ok (put_got i v w2)) else ok (put_got i plt w1))"
  show "consumes (kind, tls, b) (only_if (is_relocatable kind) (one (relative_tab relr))) ?f"
  proof (cases "is_relocatable kind")
    case True
    have "consumes (kind, tls, b) (one (relative_tab relr)) ?f"
      by (rule consumes_setting [OF _ consumes_address [of _ relr place A p i]])
        (use True assms in \<open>auto simp: setting_of_def plt_address_def\<close>)
    then show ?thesis using True by simp
  next
    case False
    have "consumes (kind, tls, b) (\<lambda>_. 0) ?f"
      by (rule consumes_setting [OF _ consumes_put_got [of _ i p]])
        (use False assms in \<open>auto simp: setting_of_def plt_address_def\<close>)
    then show ?thesis using False by (simp add: consumes_zeroI)
  qed
qed

end
