(* ===== verification/Resolution_Tables.thy ===== *)
theory Resolution_Tables
  imports Resolution_Alloc
begin

text \<open>
  The tables of a group of symbols: what the layout allocates for the symbols is what the writer
  uses up, and the entries it writes for a symbol are the ones at the addresses of the symbol.
\<close>

section \<open>One symbol\<close>

text \<open>The PLT entry of a symbol can be encoded.\<close>

definition plt_fits :: "Arch \<Rightarrow> u64 \<Rightarrow> u64 \<Rightarrow> bool" where
  "plt_fits A place p \<longleftrightarrow> (\<forall>entry. length entry = 16 \<longrightarrow> (\<exists>bs. arch_write_plt_entry A entry place p = ok bs \<and> length bs = 16))"

definition resolution_ok :: "Arch \<Rightarrow> OutputKind \<Rightarrow> u64 \<times> u64 \<Rightarrow> Resolution \<Rightarrow> bool" where
  "resolution_ok A kind tls res \<longleftrightarrow>
     symbol_consistent kind tls (rs_flags res, rs_raw_value res, rs_dynamic_symbol_index res) \<and>
     (rs_got_address res = None \<longleftrightarrow> got_slots (rs_flags res) = 0) \<and>
     (rs_plt_address res \<noteq> None \<longleftrightarrow> needs_plt (rs_flags res)) \<and>
     (\<forall>a. rs_got_address res = Some a \<longrightarrow> a mod 2 = 0) \<and>
     (\<forall>a p. rs_got_address res = Some a \<longrightarrow> rs_plt_address res = Some p \<longrightarrow> plt_fits A a p)"

lemma even_plus_8: "(a :: u64) mod 2 = 0 \<Longrightarrow> (a + 8 * of_nat n) mod 2 = 0"
  by (simp add: even_iff_mod_2_eq_zero [symmetric])

lemmas slot_defs = got_slots_def only_got_def tls_got_slots_def flags_is_tls_def needs_got_tls_offset_def
  needs_got_tls_module_def needs_got_tls_descriptor_def

lemma consumes_process_resolution:
  assumes ok: "resolution_ok A kind tls res" and relr: "b \<longrightarrow> relr"
  shows "consumes (kind, tls, b) (symbol_count (rs_flags res) kind relr) (process_resolution A (Some tp) res)"
proof (cases "rs_got_address res")
  case None
  then have "got_slots (rs_flags res) = 0" using ok by (simp add: resolution_ok_def)
  then have "symbol_count (rs_flags res) kind relr = (\<lambda>_. 0)"
    by (auto simp: slot_defs symbol_count_def plus_count_def only_if_def split: if_splits)
  moreover have "process_resolution A (Some tp) res = ok" using None by (auto simp: process_resolution_def)
  ultimately show ?thesis by simp
next
  case (Some a)
  let ?flags = "rs_flags res" and ?S = "(kind, tls, b)"
  have sc: "symbol_consistent kind tls (?flags, rs_raw_value res, rs_dynamic_symbol_index res)"
    and slots: "got_slots ?flags \<noteq> 0" and even: "a mod 2 = 0"
    and plt: "rs_plt_address res \<noteq> None \<longleftrightarrow> needs_plt ?flags"
    using ok Some by (auto simp: resolution_ok_def)
  show ?thesis
  proof (cases "flags_is_tls ?flags")
    case True
    then have no: "\<not> only_got ?flags" "\<not> needs_ifunc_got_for_address ?flags"
      using sc by (auto simp: symbol_consistent_def only_got_def)
    have "process_resolution A (Some tp) res = process_tls A (Some tp) res a"
      using Some True by (auto simp: process_resolution_def slot_defs)
    moreover have "consumes ?S (symbol_count ?flags kind relr) (process_tls A (Some tp) res a)"
      by (rule consumes_cong [OF consumes_process_tls [OF sc]]) (simp add: symbol_count_def no plus_count_def only_if_def)
    ultimately show ?thesis by simp
  next
    case False
    then have tls: "\<not> needs_got_tls_offset ?flags" "\<not> needs_got_tls_module ?flags" "\<not> needs_got_tls_descriptor ?flags"
      by (auto simp: slot_defs)
    have og: "only_got ?flags"
      using slots sc tls by (auto simp: got_slots_def tls_got_slots_def symbol_consistent_def split: if_splits)
    have proc: "process_resolution A (Some tp) res = (\<lambda>w. rbind (process_got_entry A res a w) (\<lambda>w1.
        rbind (case rs_plt_address res of None \<Rightarrow> ok w1 | Some p \<Rightarrow> write_plt_entry A a p w1) (\<lambda>w2.
          if needs_ifunc_got_for_address ?flags then process_ifunc_got A res (a + GOT_ENTRY_SIZE) w2 else ok w2)))"
      using Some tls by (auto simp: process_resolution_def Let_def)
    let ?c1 = "plus_count (one TGot) (if is_ifunc ?flags then one TRela_Plt else if exports ?flags then one TGeneral
        else only_if (is_address ?flags \<and> is_relocatable kind) (one (relative_tab relr)))"
    have 1: "consumes ?S ?c1 (process_got_entry A res a)"
      using consumes_got_entry [OF sc, of b relr a] Some relr even by simp
    have 2: "consumes ?S (only_if (needs_plt ?flags) (\<lambda>t. 16 * one TPlt t))
        (\<lambda>w1. case rs_plt_address res of None \<Rightarrow> ok w1 | Some p \<Rightarrow> write_plt_entry A a p w1)"
    proof (rule consumes_only_if)
      assume "needs_plt ?flags"
      then obtain p where p: "rs_plt_address res = Some p" using plt by auto
      then have "plt_fits A a p" using ok Some by (simp add: resolution_ok_def)
      then show "consumes ?S (\<lambda>t. 16 * one TPlt t) (\<lambda>w1. case rs_plt_address res of None \<Rightarrow> ok w1 | Some p \<Rightarrow> write_plt_entry A a p w1)"
        using p consumes_plt [of A a p ?S] by (auto simp: plt_fits_def)
    qed (use plt in auto)
    have 3: "consumes ?S (only_if (needs_ifunc_got_for_address ?flags) (ifunc_count kind relr))
        (\<lambda>w2. if needs_ifunc_got_for_address ?flags then process_ifunc_got A res (a + GOT_ENTRY_SIZE) w2 else ok w2)"
    proof (rule consumes_only_if)
      assume n: "needs_ifunc_got_for_address ?flags"
      then obtain p where p: "rs_plt_address res = Some p" using plt sc by (auto simp: symbol_consistent_def)
      have "(a + GOT_ENTRY_SIZE) mod 2 = 0" using even_plus_8 [OF even, of 1] by (simp add: GOT_ENTRY_SIZE_def)
      then show "consumes ?S (ifunc_count kind relr)
          (\<lambda>w2. if needs_ifunc_got_for_address ?flags then process_ifunc_got A res (a + GOT_ENTRY_SIZE) w2 else ok w2)"
        using n consumes_ifunc_got [OF p relr] by simp
    qed auto
    have "consumes ?S (plus_count ?c1 (plus_count (only_if (needs_plt ?flags) (\<lambda>t. 16 * one TPlt t))
        (only_if (needs_ifunc_got_for_address ?flags) (ifunc_count kind relr)))) (process_resolution A (Some tp) res)"
      unfolding proc by (rule consumes_bind [OF 1 consumes_bind [OF 2 3]])
    then show ?thesis
      by (rule consumes_cong) (simp add: symbol_count_def og tls got_count_def plus_count_def only_if_def)
  qed
qed

section \<open>All symbols of a group\<close>

text \<open>
  The contract of a writer that works through a list: each step that is allowed consumes its own
  count. Then the whole run consumes the sum.
\<close>

definition sum_count :: "('x \<Rightarrow> tab \<Rightarrow> nat) \<Rightarrow> 'x list \<Rightarrow> tab \<Rightarrow> nat" where
  "sum_count count xs t = (\<Sum>x\<leftarrow>xs. count x t)"

lemma sum_count_Cons: "sum_count count (x # xs) = plus_count (count x) (sum_count count xs)"
  by (auto simp: sum_count_def plus_count_def)

lemma sum_count_Nil [simp]: "sum_count count [] = (\<lambda>_. 0)"
  by (auto simp: sum_count_def)

locale counted_writer =
  fixes S :: setting
    and allowed :: "'x \<Rightarrow> bool"
    and count :: "'x \<Rightarrow> tab \<Rightarrow> nat"
    and step :: "'x \<Rightarrow> TableWriter \<Rightarrow> TableWriter write_result"
    and run :: "'x list \<Rightarrow> TableWriter \<Rightarrow> TableWriter write_result"
  assumes step_consumes: "allowed x \<Longrightarrow> consumes S (count x) (step x)"
    and run_Nil: "run [] = ok"
    and run_Cons: "run (x # xs) = (\<lambda>w. rbind (step x w) (run xs))"
begin

lemma run_consumes: "list_all allowed xs \<Longrightarrow> consumes S (sum_count count xs) (run xs)"
proof (induction xs)
  case (Cons x xs)
  then show ?case by (simp add: sum_count_Cons run_Cons consumes_bind step_consumes)
qed (simp add: run_Nil)

end

interpretation resolutions: counted_writer "(kind, tls, b)" "\<lambda>res. resolution_ok A kind tls res \<and> (b \<longrightarrow> relr)"
    "\<lambda>res. symbol_count (rs_flags res) kind relr" "process_resolution A (Some tp)" "process_all A (Some tp)"
  for kind tls b A relr tp
proof (unfold_locales, goal_cases)
  case (1 res)
  then show ?case by (simp add: consumes_process_resolution)
qed auto

definition request_count :: "OutputKind \<Rightarrow> bool \<Rightarrow> symbol_request \<Rightarrow> tab \<Rightarrow> nat" where
  "request_count kind relr request = symbol_count (fst request) kind relr"

abbreviation total_count :: "OutputKind \<Rightarrow> bool \<Rightarrow> symbol_request list \<Rightarrow> tab \<Rightarrow> nat" where
  "total_count kind relr \<equiv> sum_count (request_count kind relr)"

lemma allocate_all_eq:
  "29 \<le> length sizes \<Longrightarrow> allocate_all kind relr syms sizes = Some (add_amounts (total_count kind relr syms) sizes)"
proof (induction kind relr syms sizes rule: allocate_all.induct)
  case (1 kind relr sizes)
  show ?case by simp
next
  case (2 kind relr flags raw_value dsi syms sizes)
  then show ?case
    by (simp add: allocate_resolution_eq sum_count_Cons add_amounts_plus [symmetric] request_count_def)
qed

lemma symbol_count_le: "symbol_count flags kind relr t \<le> 16"
  by (cases t) (auto simp: symbol_count_def got_count_def ifunc_count_def tls_offset_count_def tls_module_count_def
      tls_descriptor_count_def relative_tab_def count_defs only_got_def)

lemma total_count_le: "total_count kind relr syms t \<le> 16 * length syms"
proof (induction syms)
  case (Cons x syms)
  then show ?case using symbol_count_le [of "fst x" kind relr t] by (simp add: sum_count_Cons plus_count_def request_count_def)
qed simp

text \<open>What \<open>create_all\<close> ensures; the encoding of the PLT entries is left to the architecture.\<close>

definition resolution_shape :: "OutputKind \<Rightarrow> u64 \<times> u64 \<Rightarrow> Resolution \<Rightarrow> bool" where
  "resolution_shape kind tls res \<longleftrightarrow>
     symbol_consistent kind tls (rs_flags res, rs_raw_value res, rs_dynamic_symbol_index res) \<and>
     (rs_got_address res = None \<longleftrightarrow> got_slots (rs_flags res) = 0) \<and>
     (rs_plt_address res \<noteq> None \<longleftrightarrow> needs_plt (rs_flags res)) \<and>
     (\<forall>a. rs_got_address res = Some a \<longrightarrow> a mod 2 = 0)"

definition plt_encodable :: "Arch \<Rightarrow> Resolution \<Rightarrow> bool" where
  "plt_encodable A res \<longleftrightarrow> (case (rs_got_address res, rs_plt_address res) of (Some a, Some p) \<Rightarrow> plt_fits A a p | _ \<Rightarrow> True)"

lemma resolution_okI: "resolution_shape kind tls res \<Longrightarrow> plt_encodable A res \<Longrightarrow> resolution_ok A kind tls res"
  by (auto simp: resolution_shape_def plt_encodable_def resolution_ok_def)

lemma consistent_raw:
  "symbol_consistent kind tls (flags, raw_value, dsi) \<Longrightarrow> needs_plt flags \<Longrightarrow> symbol_consistent kind tls (flags, v, dsi)"
  by (auto simp: symbol_consistent_def only_got_def flags_is_tls_def needs_got_tls_offset_def)

lemma address_count_plus: "address_count (plus_count c d) = plus_count (address_count c) (address_count d)"
  by (auto simp: address_count_def plus_count_def)

lemma unat_advance:
  assumes "unat (x :: u64) + n < 2 ^ 64"
  shows "unat (x + of_nat n) = unat x + n"
  using assms by (simp add: unat_word_ariths unat_of_nat)

lemma create_all_eq:
  assumes "list_all (symbol_consistent kind tls) syms" "29 \<le> length offsets"
    and "0 < offsets ! 5" "offsets ! 5 mod 2 = 0" "0 < offsets ! 6"
    and "unat (offsets ! 5) + 8 * total_count kind relr syms TGot < 2 ^ 64"
    and "unat (offsets ! 6) + total_count kind relr syms TPlt < 2 ^ 64"
  shows "\<exists>ress. create_all syms offsets = Some (ress, add_amounts (address_count (total_count kind relr syms)) offsets) \<and>
    list_all (resolution_shape kind tls) ress \<and> map rs_flags ress = map fst syms"
  using assms
proof (induction syms arbitrary: offsets)
  case Nil
  show ?case by (simp add: address_count_def [abs_def])
next
  case (Cons request syms)
  obtain flags raw_value dsi where request: "request = (flags, raw_value, dsi)" by (metis prod_cases3)
  let ?c = "symbol_count flags kind relr"
  let ?offsets1 = "add_amounts (address_count ?c) offsets"
  have sc: "symbol_consistent kind tls (flags, raw_value, dsi)" using Cons.prems(1) request by simp
  let ?res = "\<lparr>rs_raw_value = (if needs_plt flags \<and> is_dynamic flags then offsets ! 6 else raw_value),
           rs_dynamic_symbol_index = dsi, rs_got_address = (if got_slots flags = 0 then None else Some (offsets ! 5)),
           rs_plt_address = (if needs_plt flags then Some (offsets ! 6) else None), rs_flags = flags\<rparr>"
  have create: "create_resolution flags raw_value dsi offsets = Some (?res, ?offsets1)"
    using create_resolution_eq [OF sc Cons.prems(2), of relr] Cons.prems(3,5) by auto
  have shape: "resolution_shape kind tls ?res"
    using sc consistent_raw [OF sc] Cons.prems(4) by (simp add: resolution_shape_def)
  have tot: "total_count kind relr (request # syms) t = ?c t + total_count kind relr syms t" for t
    by (simp add: sum_count_Cons plus_count_def request_count_def request)
  have o5: "?offsets1 ! 5 = offsets ! 5 + of_nat (8 * ?c TGot)" and o6: "?offsets1 ! 6 = offsets ! 6 + of_nat (?c TPlt)"
    using Cons.prems(2) by (simp_all add: add_amounts_got add_amounts_plt address_count_def)
  have u5: "unat (?offsets1 ! 5) = unat (offsets ! 5) + 8 * ?c TGot"
    unfolding o5 using Cons.prems(6) by (intro unat_advance) (simp add: tot)
  have u6: "unat (?offsets1 ! 6) = unat (offsets ! 6) + ?c TPlt"
    unfolding o6 using Cons.prems(7) by (intro unat_advance) (simp add: tot)
  have "\<exists>ress. create_all syms ?offsets1 = Some (ress, add_amounts (address_count (total_count kind relr syms)) ?offsets1) \<and>
      list_all (resolution_shape kind tls) ress \<and> map rs_flags ress = map fst syms"
  proof (rule Cons.IH)
    show "list_all (symbol_consistent kind tls) syms" "29 \<le> length ?offsets1" using Cons.prems(1,2) by auto
    show "0 < ?offsets1 ! 5" "0 < ?offsets1 ! 6" using Cons.prems(3,5) u5 u6 by (simp_all add: word_less_nat_alt)
    show "?offsets1 ! 5 mod 2 = 0" unfolding o5 using even_plus_8 [OF Cons.prems(4), of "?c TGot"] by simp
    show "unat (?offsets1 ! 5) + 8 * total_count kind relr syms TGot < 2 ^ 64"
      "unat (?offsets1 ! 6) + total_count kind relr syms TPlt < 2 ^ 64"
      using Cons.prems(6,7) by (simp_all add: u5 u6 tot)
  qed
  then obtain ress where ress: "create_all syms ?offsets1 = Some (ress, add_amounts (address_count (total_count kind relr syms)) ?offsets1)"
      "list_all (resolution_shape kind tls) ress" "map rs_flags ress = map fst syms" by blast
  have "add_amounts (address_count (total_count kind relr syms)) ?offsets1 =
      add_amounts (address_count (total_count kind relr (request # syms))) offsets"
    by (simp add: sum_count_Cons address_count_plus add_amounts_plus [symmetric] request_count_def request)
  then show ?case using create ress shape by (simp add: request)
qed

text \<open>The tables that \<open>new_table_writer\<close> makes of the allocated sizes have the entries counted.\<close>

lemma new_table_eq:
  assumes "length sizes = 38" "c t < 2 ^ 40" "unat p = tab_part t" "entry_size = tab_size t"
  shows "new_table exact zero entry_size p (add_amounts c (replicate 38 0)) =
    Some \<lparr>tb_entries = replicate (c t) zero, tb_taken = 0\<rparr>"
proof -
  have part: "tab_part t < 38" by (cases t) simp_all
  have size: "unat (tab_size t) \<le> 24" "0 < unat (tab_size t)" by (cases t; simp)+
  have n: "add_amounts c (replicate 38 0) ! tab_part t = tab_size t * of_nat (c t)"
    using part by (simp add: add_amounts_def amount_def del: upt.simps)
  have "unat (tab_size t) * c t < 2 ^ 64"
    using size assms(2) mult_le_mono [of "unat (tab_size t)" 24 "c t" "2 ^ 40"] by simp
  then have u: "unat (tab_size t * of_nat (c t)) = unat (tab_size t) * c t"
    using assms(2) by (simp add: unat_word_ariths unat_of_nat)
  have "unat (tab_size t * of_nat (c t) mod tab_size t) = 0"
    unfolding unat_mod_distrib u by simp
  then have "tab_size t * of_nat (c t) mod tab_size t = 0" by (simp add: unat_eq_zero)
  then show ?thesis
    using part size n u assms(3,4) by (simp add: new_table_def get_def)
qed

lemma relative_exclusive:
  "symbol_count flags kind relr (relative_tab (\<not> relr)) = 0"
  by (cases relr) (simp_all add: symbol_count_def got_count_def ifunc_count_def tls_offset_count_def tls_module_count_def
      tls_descriptor_count_def relative_tab_def count_defs)

lemma total_exclusive: "total_count kind relr syms (relative_tab (\<not> relr)) = 0"
  by (induction syms) (simp_all add: sum_count_Cons plus_count_def request_count_def relative_exclusive)

lemma new_table_writer_from:
  assumes small: "\<And>t. c t < 2 ^ 40" and excl: "\<not> relr \<Longrightarrow> c TRelr = 0"
  shows "\<exists>w. new_table_writer kind tls relr (add_amounts c (replicate 38 0)) = Some w \<and>
    (\<exists>b. setting_of w = (kind, tls, b) \<and> (b \<longrightarrow> relr)) \<and> (\<forall>t. taken w t = 0 \<and> capacity w t = c t)"
proof -
  let ?sizes = "add_amounts c (replicate 38 0)"
  have tables: "new_table True 0 GOT_ENTRY_SIZE part_GOT ?sizes = Some \<lparr>tb_entries = replicate (c TGot) 0, tb_taken = 0\<rparr>"
    "new_table False 0 1 part_PLT_GOT ?sizes = Some \<lparr>tb_entries = replicate (c TPlt) 0, tb_taken = 0\<rparr>"
    "new_table False zero_rela RELA_ENTRY_SIZE part_RELA_PLT ?sizes = Some \<lparr>tb_entries = replicate (c TRela_Plt) zero_rela, tb_taken = 0\<rparr>"
    "new_table False zero_rela RELA_ENTRY_SIZE part_RELA_DYN_RELATIVE ?sizes = Some \<lparr>tb_entries = replicate (c TRelative) zero_rela, tb_taken = 0\<rparr>"
    "new_table False zero_rela RELA_ENTRY_SIZE part_RELA_DYN_GENERAL ?sizes = Some \<lparr>tb_entries = replicate (c TGeneral) zero_rela, tb_taken = 0\<rparr>"
    "new_table False 0 RELR_ENTRY_SIZE part_RELR_DYN ?sizes = Some \<lparr>tb_entries = replicate (c TRelr) 0, tb_taken = 0\<rparr>"
    by (rule new_table_eq [OF length_replicate small]; simp add: part_consts)+
  show ?thesis
    using excl by (cases relr; cases "c TRelr = 0") (simp_all add: new_table_writer_def tables setting_of_def tab_cases)
qed

lemma new_table_writer_eq:
  assumes "length syms < 2 ^ 32"
  shows "\<exists>w. new_table_writer kind tls relr (add_amounts (total_count kind relr syms) (replicate 38 0)) = Some w \<and>
    (\<exists>b. setting_of w = (kind, tls, b) \<and> (b \<longrightarrow> relr)) \<and>
    (\<forall>t. taken w t = 0 \<and> capacity w t = total_count kind relr syms t)"
proof (rule new_table_writer_from)
  show "total_count kind relr syms t < 2 ^ 40" for t using total_count_le [of kind relr syms t] assms by simp
  show "\<not> relr \<Longrightarrow> total_count kind relr syms TRelr = 0"
    using total_exclusive [of kind relr syms] by (simp add: relative_tab_def)
qed

lemma validate_empty_iff:
  assumes "\<forall>t. taken w t = capacity w t"
  shows "validate_empty w = ok () \<and> tb_remaining (tw_plt_got w) = 0 \<and> tb_remaining (tw_rela_plt w) = 0"
  using assms unfolding tab_cases by (auto simp: validate_empty_def tb_remaining_def split: option.split)

text \<open>The three phases on a list of symbols; both theorems on groups rest on this.\<close>

lemma group_written:
  assumes consistent: "list_all (symbol_consistent kind tls) syms" and few: "length syms < 2 ^ 32"
    and offsets: "29 \<le> length offsets" "0 < offsets ! 5" "offsets ! 5 mod 2 = 0" "0 < offsets ! 6"
      "unat (offsets ! 5) < 2 ^ 63" "unat (offsets ! 6) < 2 ^ 63"
    and plt: "\<And>ress offsets'. create_all syms offsets = Some (ress, offsets') \<Longrightarrow> list_all (plt_encodable A) ress"
  obtains ress w w' b where
    "allocate_all kind relr syms (replicate 38 0) = Some (add_amounts (total_count kind relr syms) (replicate 38 0))"
    "create_all syms offsets = Some (ress, add_amounts (address_count (total_count kind relr syms)) offsets)"
    "list_all (\<lambda>res. resolution_ok A kind tls res \<and> (b \<longrightarrow> relr)) ress"
    "new_table_writer kind tls relr (add_amounts (total_count kind relr syms) (replicate 38 0)) = Some w"
    "setting_of w = (kind, tls, b)" "\<forall>t. taken w t = 0"
    "room (sum_count (\<lambda>res. symbol_count (rs_flags res) kind relr) ress) w"
    "process_all A (Some tp) ress w = ok w'" "\<forall>t. taken w' t = capacity w' t"
proof -
  let ?c = "total_count kind relr syms"
  let ?sizes = "add_amounts ?c (replicate 38 0)" and ?offsets' = "add_amounts (address_count ?c) offsets"
  have "?c TGot \<le> 16 * length syms" "?c TPlt \<le> 16 * length syms" by (rule total_count_le)+
  then have fits: "unat (offsets ! 5) + 8 * ?c TGot < 2 ^ 64" "unat (offsets ! 6) + ?c TPlt < 2 ^ 64"
    using few offsets(5,6) by simp_all
  obtain ress where ress: "create_all syms offsets = Some (ress, ?offsets')"
      "list_all (resolution_shape kind tls) ress" "map rs_flags ress = map fst syms"
    using create_all_eq [OF consistent offsets(1-4) fits] by blast
  obtain w b where w: "new_table_writer kind tls relr ?sizes = Some w" "setting_of w = (kind, tls, b)" "b \<longrightarrow> relr"
      "\<forall>t. taken w t = 0 \<and> capacity w t = ?c t"
    using new_table_writer_eq [OF few] by blast
  have ok: "list_all (\<lambda>res. resolution_ok A kind tls res \<and> (b \<longrightarrow> relr)) ress"
    using ress(2) plt [OF ress(1)] w(3) by (auto simp: list_all_iff intro: resolution_okI)
  let ?d = "sum_count (\<lambda>res. symbol_count (rs_flags res) kind relr) ress"
  have d: "?d = ?c"
  proof
    fix t
    have "map (\<lambda>f. symbol_count f kind relr t) (map rs_flags ress) = map (\<lambda>f. symbol_count f kind relr t) (map fst syms)"
      using ress(3) by simp
    then show "?d t = ?c t" by (simp add: sum_count_def request_count_def comp_def)
  qed
  have room: "room ?d w" using w(4) by (simp add: room_def d)
  obtain w' where w': "process_all A (Some tp) ress w = ok w'" "advanced ?d w w'"
    using consumesD [OF resolutions.run_consumes [OF ok] w(2) room] by blast
  have "\<forall>t. taken w' t = capacity w' t" using w(4) w'(2) by (simp add: advanced_def d)
  then show ?thesis
    using that [OF allocate_all_eq ress(1) ok w(1,2) _ room w'(1)] w(4) by simp
qed

end
