(* ===== verification/Resolution_Slots.thy ===== *)
theory Resolution_Slots
  imports Resolution_Tables
begin

text \<open>
  What ends up in the tables. Code that refers to a symbol through the global offset table uses the
  address that \<open>create_resolution\<close> gave it; the theorem shows that the writer fills the entry at this
  address, with the address of the symbol or together with the dynamic relocation that makes the
  loader fill it, although the two never exchange an index.
\<close>

section \<open>Operations that leave earlier entries alone\<close>

definition relr_entries :: "TableWriter \<Rightarrow> u64 list" where
  "relr_entries w = (case tw_relr_dyn w of None \<Rightarrow> [] | Some r \<Rightarrow> tb_entries r)"

text \<open>The entries below the given indices, and the lengths of the tables, are the same.\<close>

definition same_below :: "(tab \<Rightarrow> nat) \<Rightarrow> TableWriter \<Rightarrow> TableWriter \<Rightarrow> bool" where
  "same_below ks w w' \<longleftrightarrow> setting_of w' = setting_of w \<and> (\<forall>t. ks t \<le> taken w' t \<and> capacity w' t = capacity w t) \<and>
     (\<forall>i<ks TGot. tb_entries (tw_got w') ! i = tb_entries (tw_got w) ! i) \<and>
     take (ks TPlt) (tb_entries (tw_plt_got w')) = take (ks TPlt) (tb_entries (tw_plt_got w)) \<and>
     (\<forall>i<ks TRela_Plt. tb_entries (tw_rela_plt w') ! i = tb_entries (tw_rela_plt w) ! i) \<and>
     (\<forall>i<ks TGeneral. tb_entries (tw_rela_dyn_general w') ! i = tb_entries (tw_rela_dyn_general w) ! i) \<and>
     (\<forall>i<ks TRelative. tb_entries (tw_rela_dyn_relative w') ! i = tb_entries (tw_rela_dyn_relative w) ! i) \<and>
     (\<forall>i<ks TRelr. relr_entries w' ! i = relr_entries w ! i)"

definition keeps :: "(tab \<Rightarrow> nat) \<Rightarrow> (TableWriter \<Rightarrow> TableWriter write_result) \<Rightarrow> bool" where
  "keeps ks f \<longleftrightarrow> (\<forall>w w'. (\<forall>t. ks t \<le> taken w t) \<longrightarrow> f w = ok w' \<longrightarrow> same_below ks w w')"

lemma keepsI: "(\<And>w w'. \<forall>t. ks t \<le> taken w t \<Longrightarrow> f w = ok w' \<Longrightarrow> same_below ks w w') \<Longrightarrow> keeps ks f"
  by (simp add: keeps_def)

lemma keepsD: "keeps ks f \<Longrightarrow> f w = ok w' \<Longrightarrow> \<forall>t. ks t \<le> taken w t \<Longrightarrow> same_below ks w w'"
  by (simp add: keeps_def)

lemma same_below_refl: "\<forall>t. ks t \<le> taken w t \<Longrightarrow> same_below ks w w"
  by (simp add: same_below_def)

lemma same_below_trans: "same_below ks w w1 \<Longrightarrow> same_below ks w1 w2 \<Longrightarrow> same_below ks w w2"
  by (simp add: same_below_def)

lemma rbind_ok: "rbind m k = ok b \<longleftrightarrow> (\<exists>a. m = ok a \<and> k a = ok b)"
  by (auto simp: rbind_def ok_def split: option.split sum.split)

lemma fail_ok [simp]: "fail e \<noteq> ok a" "None \<noteq> ok a"
  by (simp_all add: fail_def ok_def)

named_theorems keeps_intros \<open>operations that leave earlier entries alone\<close>

lemma keeps_ok [keeps_intros]: "keeps ks ok"
  by (auto intro!: keepsI same_below_refl)

lemma keeps_fail [keeps_intros]: "keeps ks (\<lambda>w. fail e)" "keeps ks (\<lambda>w. None)"
  by (auto intro!: keepsI)

lemma keeps_if [keeps_intros]: "keeps ks f \<Longrightarrow> keeps ks g \<Longrightarrow> keeps ks (\<lambda>w. if b w then f w else g w)"
  by (auto simp: keeps_def)

lemma keeps_bind [keeps_intros]: "keeps ks f \<Longrightarrow> keeps ks g \<Longrightarrow> keeps ks (\<lambda>w. rbind (f w) g)"
  by (rule keepsI) (auto simp: rbind_ok same_below_def dest!: keepsD)

text \<open>Results without effect on the writer.\<close>

lemma keeps_result [keeps_intros]: "(\<And>v. keeps ks (g v)) \<Longrightarrow> keeps ks (\<lambda>w. rbind m (\<lambda>v. g v w))"
  by (rule keepsI) (auto simp: rbind_ok dest: keepsD)

lemma keeps_option [keeps_intros]: "keeps ks f \<Longrightarrow> (\<And>v. keeps ks (g v)) \<Longrightarrow>
    keeps ks (\<lambda>w. case m of None \<Rightarrow> f w | Some v \<Rightarrow> g v w)"
  by (cases m) simp_all

lemma keeps_put_got: "ks TGot \<le> i \<Longrightarrow> keeps ks (\<lambda>w. ok (put_got i v w))"
  by (rule keepsI) (auto simp: same_below_def put_got_def tb_put_def setting_of_def relr_entries_def tab_cases)

lemma keeps_after_put [keeps_intros]: "ks TGot \<le> i \<Longrightarrow> keeps ks g \<Longrightarrow> keeps ks (\<lambda>w. g (put_got i v w))"
  using keeps_bind [OF keeps_put_got, of ks i g v] by simp

lemma keeps_take_got [keeps_intros]:
  assumes "\<And>i. ks TGot \<le> i \<Longrightarrow> keeps ks (g i)"
  shows "keeps ks (\<lambda>w. rbind (take_next_got_entry w) (\<lambda>(i, w1). g i w1))"
proof (rule keepsI)
  fix w w' assume w: "\<forall>t. ks t \<le> taken w t" and run: "rbind (take_next_got_entry w) (\<lambda>(i, w1). g i w1) = ok w'"
  then obtain i w1 where 1: "take_next_got_entry w = ok (i, w1)" "g i w1 = ok w'" by (auto simp: rbind_ok)
  have i: "ks TGot \<le> i" and below: "same_below ks w w1"
    using 1(1) w unfolding tab_cases by (auto simp: take_next_got_entry_def tb_take_def same_below_def setting_of_def
        relr_entries_def tab_cases split: if_splits)
  have "\<forall>t. ks t \<le> taken w1 t" using below by (simp add: same_below_def)
  then show "same_below ks w w'" using keepsD [OF assms [OF i] 1(2)] same_below_trans below by blast
qed

lemma keeps_general [keeps_intros]: "keeps ks (write_rela_dyn_general A place d r_type addend)"
  by (rule keepsI) (unfold tab_cases, auto simp: write_rela_dyn_general_def take_rela_dyn_def tb_take_def tb_put_def
      same_below_def setting_of_def relr_entries_def tab_cases split: if_splits)

lemma keeps_general_variants [keeps_intros]:
  "keeps ks (write_dynamic_symbol_relocation A place addend d kind)"
  "keeps ks (write_dtpmod_relocation A place d)"
  "keeps ks (write_tls_descriptor_relocation A place d addend)"
  "keeps ks (write_dtpoff_relocation A place d)"
  "keeps ks (write_tpoff_relocation A place d addend)"
  by (simp_all add: dynamic_relocation_general keeps_general write_dtpmod_relocation_def [abs_def]
      write_tls_descriptor_relocation_def [abs_def] write_dtpoff_relocation_def [abs_def] write_tpoff_relocation_def [abs_def])

lemma keeps_ifunc [keeps_intros]: "keeps ks (write_ifunc_relocation A res)"
  by (rule keepsI) (unfold tab_cases, auto simp: write_ifunc_relocation_def tb_take_def tb_put_def or_error_def rbind_ok
      same_below_def setting_of_def relr_entries_def tab_cases split: if_splits option.splits)

lemma keeps_plt [keeps_intros]: "keeps ks (write_plt_entry A place p)"
  by (rule keepsI) (unfold tab_cases, auto simp: write_plt_entry_def take_plt_got_entry_def tb_take_def rbind_ok copy_at_def
      same_below_def setting_of_def relr_entries_def tab_cases split: if_splits option.splits)

lemma address_below:
  assumes "\<forall>t. ks t \<le> taken w t" "write_address_relocation A place a w = ok (v, w')"
  shows "same_below ks w w'"
  using assms unfolding tab_cases
  by (auto simp: write_address_relocation_def tb_take_def tb_put_def same_below_def setting_of_def relr_entries_def tab_cases
      split: if_splits option.splits bool.splits)

lemma keeps_address [keeps_intros]:
  assumes "\<And>v. keeps ks (g v)"
  shows "keeps ks (\<lambda>w. rbind (write_address_relocation A place a w) (\<lambda>(v, w1). g v w1))"
proof (rule keepsI)
  fix w w' assume w: "\<forall>t. ks t \<le> taken w t" and "rbind (write_address_relocation A place a w) (\<lambda>(v, w1). g v w1) = ok w'"
  then obtain v w1 where 1: "write_address_relocation A place a w = ok (v, w1)" "g v w1 = ok w'" by (auto simp: rbind_ok)
  note below = address_below [OF w 1(1)]
  then have "\<forall>t. ks t \<le> taken w1 t" by (simp add: same_below_def)
  then show "same_below ks w w'" using keepsD [OF assms 1(2)] same_below_trans below by blast
qed

lemma keeps_param: "(\<And>v. keeps ks (f v)) \<Longrightarrow> keeps ks (\<lambda>w. f (p w) w)"
  by (simp add: keeps_def)

lemma keeps_put_param: "ks TGot \<le> i \<Longrightarrow> keeps ks (\<lambda>w. ok (put_got i (v w) w))"
  by (rule keeps_param [OF keeps_put_got])

lemma keeps_tpoff_param: "keeps ks (\<lambda>w. write_tpoff_relocation A place d (v w) w)"
  by (rule keeps_param [where f = "write_tpoff_relocation A place d"]) (rule keeps_general_variants)

lemma keeps_descriptor_param:
  assumes "ks TGot \<le> j"
  shows "keeps ks (\<lambda>w. write_tls_descriptor_relocation A place d (v w) (put_got j 0 w))"
  by (rule keeps_param [where f = "\<lambda>v w. write_tls_descriptor_relocation A place d v (put_got j 0 w)"])
    (use keeps_after_put [of ks j "write_tls_descriptor_relocation A place d _" 0] assms keeps_general_variants(3) in blast)

lemma keeps_got_entry [keeps_intros]: "keeps ks (process_got_entry A res place)"
  unfolding process_got_entry_def Let_def
  by (intro keeps_take_got keeps_if keeps_result keeps_address keeps_put_got
      keeps_after_put [OF _ keeps_general_variants(1)] keeps_after_put [OF _ keeps_ifunc])

lemma keeps_ifunc_got [keeps_intros]: "keeps ks (process_ifunc_got A res place)"
  unfolding process_ifunc_got_def
  by (intro keeps_take_got keeps_if keeps_result keeps_address keeps_put_got)

lemma keeps_tls_offset [keeps_intros]: "keeps ks (process_got_tls_offset A res tp place)"
  unfolding process_got_tls_offset_def Let_def
  by (intro keeps_take_got keeps_if keeps_result keeps_fail keeps_put_got keeps_after_put [OF _ keeps_general_variants(5)]
      keeps_tpoff_param)

lemma keeps_tls_module [keeps_intros]: "keeps ks (process_got_tls_mod_and_offset A res place)"
  unfolding process_got_tls_mod_and_offset_def
  by (intro keeps_take_got keeps_bind keeps_if keeps_option keeps_result keeps_put_param keeps_ok keeps_general_variants(4)
      keeps_after_put [OF _ keeps_general_variants(2)])

lemma keeps_tls_descriptor [keeps_intros]: "keeps ks (process_got_tls_descriptor A res place)"
proof -
  have "keeps ks (\<lambda>w. rbind (take_next_got_entry w) (\<lambda>(j, w2).
         if is_static_executable (tw_output_kind w2) then fail Tlsdesc_In_Static_Executable
         else write_tls_descriptor_relocation A place
           (case rs_dynamic_symbol_index res of None \<Rightarrow> 0 | Some d \<Rightarrow> d)
           (case rs_dynamic_symbol_index res of None \<Rightarrow> rs_raw_value res - fst (tw_tls w2) | Some _ \<Rightarrow> 0)
           (put_got j 0 w2)))" (is "keeps ks ?f")
    by (intro keeps_take_got keeps_if keeps_fail keeps_descriptor_param)
  then have "keeps ks (\<lambda>w. ?f (put_got i 0 w))" if "ks TGot \<le> i" for i
    using that keeps_after_put [of ks i ?f 0] by blast
  then show ?thesis
    unfolding process_got_tls_descriptor_def by (rule keeps_take_got)
qed

lemma keeps_process_resolution [keeps_intros]: "keeps ks (process_resolution A layout res)"
proof (cases "rs_got_address res")
  case None
  then have "process_resolution A layout res = ok" by (auto simp: process_resolution_def)
  then show ?thesis by (simp add: keeps_ok)
next
  case (Some place)
  have tls: "keeps ks (process_tls A layout res place)"
    unfolding process_tls_def Let_def
    by (intro keeps_bind keeps_if keeps_ok keeps_result keeps_tls_offset keeps_tls_module keeps_tls_descriptor)
  have got: "keeps ks (\<lambda>w. rbind (process_got_entry A res place w) (\<lambda>w1.
      rbind (case rs_plt_address res of None \<Rightarrow> ok w1 | Some plt \<Rightarrow> write_plt_entry A place plt w1) (\<lambda>w2.
        if needs_ifunc_got_for_address (rs_flags res) then process_ifunc_got A res (place + GOT_ENTRY_SIZE) w2 else ok w2)))"
    by (intro keeps_bind keeps_if keeps_ok keeps_option keeps_got_entry keeps_plt keeps_ifunc_got)
  show ?thesis
    using keeps_if [OF tls got] Some by (simp add: process_resolution_def [abs_def] Let_def)
qed

lemma keeps_process_all: "keeps ks (process_all A layout ress)"
  by (induction ress) (simp_all add: keeps_ok keeps_bind keeps_process_resolution)

section \<open>Filled slots\<close>

text \<open>
  The entry of a symbol at its address, among the first entries of the tables: it holds the value of
  the symbol, or the tables hold a dynamic relocation for it.
\<close>

definition slot_content :: "(tab \<Rightarrow> nat) \<Rightarrow> Arch \<Rightarrow> Resolution \<Rightarrow> u64 \<Rightarrow> TableWriter \<Rightarrow> u64 \<Rightarrow> bool" where
  "slot_content ks A res place w slot \<longleftrightarrow>
     (let flags = rs_flags res; raw = rs_raw_value res in
      if is_ifunc flags then slot = 0 \<and> (\<exists>i<ks TRela_Plt. tb_entries (tw_rela_plt w) ! i =
        \<lparr>rl_offset = place, rl_info = ucast (get_dynamic_relocation_type A Irelative), rl_addend = raw\<rparr>)
      else if exports flags then slot = 0 \<and> (\<exists>i<ks TGeneral. \<exists>d. rs_dynamic_symbol_index res = Some d \<and>
        tb_entries (tw_rela_dyn_general w) ! i =
          \<lparr>rl_offset = place, rl_info = object_r_info A d (get_dynamic_relocation_type A GotEntry), rl_addend = 0\<rparr>)
      else if is_address flags \<and> is_relocatable (tw_output_kind w) then
        (if tw_relr_dyn w \<noteq> None then slot = raw \<and> (\<exists>i<ks TRelr. relr_entries w ! i = place)
         else slot = 0 \<and> (\<exists>i<ks TRelative. tb_entries (tw_rela_dyn_relative w) ! i =
           \<lparr>rl_offset = place, rl_info = ucast (get_dynamic_relocation_type A DynamicRelocationKind.Relative), rl_addend = raw\<rparr>))
      else slot = raw)"

definition slot_filled :: "(tab \<Rightarrow> nat) \<Rightarrow> Arch \<Rightarrow> u64 \<Rightarrow> Resolution \<Rightarrow> TableWriter \<Rightarrow> bool" where
  "slot_filled ks A base res w \<longleftrightarrow> (case rs_got_address res of None \<Rightarrow> True | Some place \<Rightarrow>
     only_got (rs_flags res) \<longrightarrow>
       (\<exists>k<ks TGot. place = base + 8 * of_nat k \<and> slot_content ks A res place w (tb_entries (tw_got w) ! k)))"

lemma slot_content_mono:
  assumes content: "slot_content ks A res place w slot" and below: "same_below ks w w'" and le: "\<And>t. ks t \<le> ks' t"
  shows "slot_content ks' A res place w' slot"
proof -
  have set: "tw_output_kind w' = tw_output_kind w" "tw_relr_dyn w' \<noteq> None \<longleftrightarrow> tw_relr_dyn w \<noteq> None"
    using below by (auto simp: same_below_def setting_of_def)
  have get: "\<forall>i<ks TRela_Plt. tb_entries (tw_rela_plt w') ! i = tb_entries (tw_rela_plt w) ! i"
    "\<forall>i<ks TGeneral. tb_entries (tw_rela_dyn_general w') ! i = tb_entries (tw_rela_dyn_general w) ! i"
    "\<forall>i<ks TRelative. tb_entries (tw_rela_dyn_relative w') ! i = tb_entries (tw_rela_dyn_relative w) ! i"
    "\<forall>i<ks TRelr. relr_entries w' ! i = relr_entries w ! i"
    using below by (simp_all add: same_below_def)
  have lt: "i < ks t \<Longrightarrow> i < ks' t" for i t using le less_le_trans by blast
  let ?flags = "rs_flags res"
  consider "is_ifunc ?flags" | "\<not> is_ifunc ?flags" "exports ?flags" |
    "\<not> is_ifunc ?flags" "\<not> exports ?flags" "is_address ?flags \<and> is_relocatable (tw_output_kind w)" "tw_relr_dyn w \<noteq> None" |
    "\<not> is_ifunc ?flags" "\<not> exports ?flags" "is_address ?flags \<and> is_relocatable (tw_output_kind w)" "tw_relr_dyn w = None" |
    "\<not> is_ifunc ?flags" "\<not> exports ?flags" "\<not> (is_address ?flags \<and> is_relocatable (tw_output_kind w))" by blast
  then show ?thesis
    using content unfolding slot_content_def Let_def set
    by cases (auto, (metis get lt)+)
qed

lemma slot_filled_mono:
  assumes "slot_filled ks A base res w" "same_below ks w w'" "\<And>t. ks t \<le> ks' t"
  shows "slot_filled ks' A base res w'"
proof -
  have "\<forall>k<ks TGot. tb_entries (tw_got w') ! k = tb_entries (tw_got w) ! k" using assms(2) by (simp add: same_below_def)
  moreover have "k < ks TGot \<Longrightarrow> k < ks' TGot" for k using assms(3) less_le_trans by blast
  ultimately show ?thesis
    using assms(1) slot_content_mono [OF _ assms(2,3)] by (fastforce simp: slot_filled_def split: option.splits)
qed

lemma tb_take_1: "tb_take (Suc 0) t =
    (if tb_taken t < length (tb_entries t) then Some (tb_taken t, t\<lparr>tb_taken := Suc (tb_taken t)\<rparr>) else None)"
  by (auto simp: tb_take_def tb_remaining_def)

lemma take_got_ok: "take_next_got_entry w = ok (i, w') \<longleftrightarrow>
    tb_taken (tw_got w) < length (tb_entries (tw_got w)) \<and> i = tb_taken (tw_got w) \<and>
    w' = w\<lparr>tw_got := (tw_got w)\<lparr>tb_taken := Suc (tb_taken (tw_got w))\<rparr>\<rparr>"
  unfolding take_next_got_entry_def by (auto simp: tb_take_1)

lemma general_ok: "write_rela_dyn_general A place d r_type addend w = ok w' \<Longrightarrow>
    tw_got w' = tw_got w \<and> tb_taken (tw_rela_dyn_general w) < taken w' TGeneral \<and>
    tb_entries (tw_rela_dyn_general w') ! tb_taken (tw_rela_dyn_general w) =
      \<lparr>rl_offset = place, rl_info = object_r_info A d r_type, rl_addend = addend\<rparr>"
  by (auto simp: write_rela_dyn_general_def take_rela_dyn_def rbind_ok tb_take_1 tb_put_def split: if_splits)

lemma ifunc_ok: "write_ifunc_relocation A res w = ok w' \<Longrightarrow> rs_got_address res = Some place \<Longrightarrow>
    tw_got w' = tw_got w \<and> tb_taken (tw_rela_plt w) < taken w' TRela_Plt \<and>
    tb_entries (tw_rela_plt w') ! tb_taken (tw_rela_plt w) =
      \<lparr>rl_offset = place, rl_info = ucast (get_dynamic_relocation_type A Irelative), rl_addend = rs_raw_value res\<rparr>"
  by (auto simp: write_ifunc_relocation_def rbind_ok tb_take_1 tb_put_def split: if_splits)

lemma updated_entry: "k < length xs \<Longrightarrow> \<exists>i<Suc k. xs[k := v] ! i = v"
  by (rule exI [of _ k]) simp

lemma address_ok:
  assumes "write_address_relocation A place a w = ok (v, w')" "place mod 2 = 0"
  shows "tw_got w' = tw_got w \<and> tw_output_kind w' = tw_output_kind w \<and> (tw_relr_dyn w' = None \<longleftrightarrow> tw_relr_dyn w = None) \<and>
    (if tw_relr_dyn w \<noteq> None then v = a \<and> (\<exists>i<taken w' TRelr. relr_entries w' ! i = place)
     else v = 0 \<and> (\<exists>i<taken w' TRelative. tb_entries (tw_rela_dyn_relative w') ! i =
       \<lparr>rl_offset = place, rl_info = ucast (get_dynamic_relocation_type A DynamicRelocationKind.Relative), rl_addend = a\<rparr>))"
  using assms
  by (auto simp: write_address_relocation_def tb_take_1 tb_put_def relr_entries_def updated_entry
      split: option.splits if_splits)

lemma got_entry_filled:
  assumes sc: "symbol_consistent kind tls (rs_flags res, rs_raw_value res, rs_dynamic_symbol_index res)"
    and got: "rs_got_address res = Some place" "place mod 2 = 0" "place = base + 8 * of_nat (taken w TGot)"
    and run: "process_got_entry A res place w = ok w1"
  shows "slot_filled (taken w1) A base res w1"
proof -
  let ?flags = "rs_flags res" and ?k = "tb_taken (tw_got w)"
  let ?w0 = "w\<lparr>tw_got := (tw_got w)\<lparr>tb_taken := Suc ?k\<rparr>\<rparr>"
  have cond: "is_dynamic ?flags \<or> ((needs_export_dynamic ?flags \<and> is_interposable ?flags) \<and> \<not> is_ifunc ?flags) \<longleftrightarrow>
      exports ?flags \<and> \<not> is_ifunc ?flags"
    using sc by (auto simp: symbol_consistent_def exports_def)
  have k: "?k < length (tb_entries (tw_got w))" and f: "(if exports ?flags \<and> \<not> is_ifunc ?flags then
         rbind (dynamic_symbol_index res) (\<lambda>d. write_dynamic_symbol_relocation A place 0 d GotEntry (put_got ?k 0 ?w0))
       else if is_ifunc ?flags then write_ifunc_relocation A res (put_got ?k 0 ?w0)
       else if is_address ?flags \<and> is_relocatable (tw_output_kind ?w0) then
         rbind (write_address_relocation A place (rs_raw_value res) ?w0) (\<lambda>(v, w2). ok (put_got ?k v w2))
       else ok (put_got ?k (rs_raw_value res) ?w0)) = ok w1"
    using run unfolding process_got_entry_def rbind_ok Let_def cond by (auto simp: take_got_ok split del: if_split)
  have "?k < taken w1 TGot \<and> slot_content (taken w1) A res place w1 (tb_entries (tw_got w1) ! ?k)"
  proof -
    consider "is_ifunc ?flags" | "\<not> is_ifunc ?flags" "exports ?flags" |
        "\<not> is_ifunc ?flags" "\<not> exports ?flags" "is_address ?flags \<and> is_relocatable (tw_output_kind w)" |
        "\<not> is_ifunc ?flags" "\<not> exports ?flags" "\<not> (is_address ?flags \<and> is_relocatable (tw_output_kind w))" by blast
    then show ?thesis
    proof cases
      case 1
      then have "write_ifunc_relocation A res (put_got ?k 0 ?w0) = ok w1" using f by simp
      from ifunc_ok [OF this got(1)] show ?thesis
        using 1 k by (auto simp: slot_content_def put_got_def tb_put_def)
    next
      case 2
      then obtain d where d: "rs_dynamic_symbol_index res = Some d" using sc by (auto simp: symbol_consistent_def)
      then have "write_rela_dyn_general A place d (get_dynamic_relocation_type A GotEntry) 0 (put_got ?k 0 ?w0) = ok w1"
        using f 2 by (simp add: dynamic_symbol_index_def dynamic_relocation_general)
      from general_ok [OF this] show ?thesis
        using 2 k d by (auto simp: slot_content_def put_got_def tb_put_def)
    next
      case 3
      then obtain v w2 where w2: "write_address_relocation A place (rs_raw_value res) ?w0 = ok (v, w2)" "w1 = put_got ?k v w2"
        using f by (auto simp: rbind_ok)
      from address_ok [OF w2(1) got(2)] show ?thesis
        using 3 k w2(2) by (auto simp: slot_content_def put_got_def tb_put_def relr_entries_def split: if_splits)
    next
      case 4
      then have "w1 = put_got ?k (rs_raw_value res) ?w0" using f by auto
      then show ?thesis using 4 k by (auto simp: slot_content_def put_got_def tb_put_def)
    qed
  qed
  then show ?thesis using got(1,3) by (auto simp: slot_filled_def)
qed

lemma resolution_filled:
  assumes ok: "resolution_ok A kind tls res"
    and place: "\<And>place. rs_got_address res = Some place \<Longrightarrow> place = base + 8 * of_nat (taken w TGot)"
    and run: "process_resolution A layout res w = ok w'"
  shows "slot_filled (taken w') A base res w'"
proof (cases "rs_got_address res")
  case None
  then show ?thesis by (simp add: slot_filled_def)
next
  case (Some a)
  show ?thesis
  proof (cases "only_got (rs_flags res)")
    case True
    have sc: "symbol_consistent kind tls (rs_flags res, rs_raw_value res, rs_dynamic_symbol_index res)"
      and even: "a mod 2 = 0" using ok Some by (auto simp: resolution_ok_def)
    have tls: "\<not> needs_got_tls_offset (rs_flags res)" "\<not> needs_got_tls_module (rs_flags res)"
        "\<not> needs_got_tls_descriptor (rs_flags res)"
      using True by (auto simp: slot_defs)
    let ?rest = "\<lambda>w1. rbind (case rs_plt_address res of None \<Rightarrow> ok w1 | Some plt \<Rightarrow> write_plt_entry A a plt w1) (\<lambda>w2.
        if needs_ifunc_got_for_address (rs_flags res) then process_ifunc_got A res (a + GOT_ENTRY_SIZE) w2 else ok w2)"
    obtain w1 where w1: "process_got_entry A res a w = ok w1" "?rest w1 = ok w'"
      using run Some tls by (auto simp: process_resolution_def Let_def rbind_ok)
    have "keeps (taken w1) ?rest"
      by (intro keeps_bind keeps_if keeps_ok keeps_option keeps_plt keeps_ifunc_got)
    then have below: "same_below (taken w1) w1 w'" using keepsD w1(2) by blast
    then have "taken w1 t \<le> taken w' t" for t by (simp add: same_below_def)
    then show ?thesis
      using slot_filled_mono [OF got_entry_filled [OF sc Some even place [OF Some] w1(1)] below] by blast
  qed (use Some in \<open>simp add: slot_filled_def\<close>)
qed

section \<open>All slots of a group\<close>

text \<open>
  The contract of a table with an entry per symbol: what was written for a symbol stays when later
  entries are added, and a symbol whose address is that of the next free entry gets this entry. Then
  all symbols of a list get theirs.
\<close>

fun addresses_from :: "(nat \<Rightarrow> Resolution \<Rightarrow> bool) \<Rightarrow> (ValueFlags \<Rightarrow> nat) \<Rightarrow> nat \<Rightarrow> Resolution list \<Rightarrow> bool" where
  "addresses_from located entries k [] \<longleftrightarrow> True"
| "addresses_from located entries k (res # ress) \<longleftrightarrow> located k res \<and> addresses_from located entries (k + entries (rs_flags res)) ress"

locale filled_table =
  fixes t :: tab
    and located :: "nat \<Rightarrow> Resolution \<Rightarrow> bool"
    and allowed :: "Resolution \<Rightarrow> bool"
    and entries :: "ValueFlags \<Rightarrow> nat"
    and filled :: "(tab \<Rightarrow> nat) \<Rightarrow> Resolution \<Rightarrow> TableWriter \<Rightarrow> bool"
    and A :: Arch and kind :: OutputKind and tls :: "u64 \<times> u64" and relr :: bool and tp :: u64
  assumes filled_mono: "filled ks res w \<Longrightarrow> same_below ks w w' \<Longrightarrow> (\<And>t. ks t \<le> ks' t) \<Longrightarrow> filled ks' res w'"
    and filled_step: "resolution_ok A kind tls res \<Longrightarrow> allowed res \<Longrightarrow> located (taken w t) res \<Longrightarrow>
      process_resolution A (Some tp) res w = ok w' \<Longrightarrow> filled (taken w') res w'"
    and size_count: "resolution_ok A kind tls res \<Longrightarrow> symbol_count (rs_flags res) kind relr t = entries (rs_flags res)"
begin

lemma all_filled:
  assumes "list_all (\<lambda>res. resolution_ok A kind tls res \<and> (b \<longrightarrow> relr)) ress" "list_all allowed ress"
    "setting_of w = (kind, tls, b)" "room (sum_count (\<lambda>res. symbol_count (rs_flags res) kind relr) ress) w"
    "addresses_from located entries (taken w t) ress" "process_all A (Some tp) ress w = ok w'"
  shows "list_all (\<lambda>res. filled (taken w') res w') ress"
  using assms
proof (induction ress arbitrary: w)
  case (Cons res rest)
  have ok: "resolution_ok A kind tls res" "b \<longrightarrow> relr" using Cons.prems(1) by auto
  let ?c = "symbol_count (rs_flags res) kind relr" and ?d = "sum_count (\<lambda>res. symbol_count (rs_flags res) kind relr) rest"
  have room: "room (plus_count ?c ?d) w" using Cons.prems(4) by (simp add: sum_count_Cons)
  obtain w1 where w1: "process_resolution A (Some tp) res w = ok w1" "process_all A (Some tp) rest w1 = ok w'"
    using Cons.prems(6) by (auto simp: rbind_ok)
  have adv: "advanced ?c w w1"
    using consumesD [OF consumes_process_resolution [OF ok] Cons.prems(3) room_first [OF room], of tp] w1(1) by auto
  have first: "filled (taken w1) res w1"
    using filled_step [OF ok(1) _ _ w1(1)] Cons.prems(2,5) by simp
  have below: "same_below (taken w1) w1 w'" using keepsD [OF keeps_process_all w1(2)] by blast
  then have "taken w1 t \<le> taken w' t" for t by (simp add: same_below_def)
  then have "filled (taken w') res w'" using filled_mono [OF first below] by blast
  moreover have "list_all (\<lambda>res. filled (taken w') res w') rest"
  proof (rule Cons.IH [OF _ _ _ _ _ w1(2)])
    show "setting_of w1 = (kind, tls, b)" using adv Cons.prems(3) by (simp add: advanced_def)
    show "room ?d w1" by (rule room_rest [OF room adv])
    have "taken w1 t = taken w t + entries (rs_flags res)"
      using adv size_count [OF ok(1)] unfolding advanced_def by metis
    then show "addresses_from located entries (taken w1 t) rest" using Cons.prems(5) by simp
  qed (use Cons.prems(1,2) in auto)
  ultimately show ?case by simp
qed simp

end

text \<open>The addresses of GOT entries and of PLT entries follow each other without gaps.\<close>

definition got_at :: "u64 \<Rightarrow> nat \<Rightarrow> Resolution \<Rightarrow> bool" where
  "got_at base k res \<longleftrightarrow> (case rs_got_address res of None \<Rightarrow> True | Some place \<Rightarrow> place = base + 8 * of_nat k)"

definition plt_at :: "u64 \<Rightarrow> nat \<Rightarrow> Resolution \<Rightarrow> bool" where
  "plt_at base k res \<longleftrightarrow> (case rs_plt_address res of None \<Rightarrow> True | Some place \<Rightarrow> place = base + of_nat k)"

definition plt_bytes :: "ValueFlags \<Rightarrow> nat" where
  "plt_bytes flags = (if needs_plt flags then 16 else 0)"

interpretation got_table: filled_table TGot "got_at base" "\<lambda>_. True" got_slots "\<lambda>ks. slot_filled ks A base" A kind tls relr tp
  for base A kind tls relr tp
proof (unfold_locales, goal_cases)
  case (1 ks res w w' ks')
  then show ?case by (rule slot_filled_mono)
next
  case (2 res w w')
  then show ?case by (intro resolution_filled) (auto simp: got_at_def)
qed (simp add: symbol_count_got)

lemma create_resolution_frame:
  assumes "create_resolution flags raw_value dsi offsets = Some (res, offsets1)"
  shows "rs_flags res = flags \<and> length offsets1 = length offsets"
  using assms by (auto simp: create_resolution_def allocate_plt_def allocate_got_def part_map_increment_def Let_def get_def
      set_at_def split: if_splits Option.bind_splits)

lemma create_all_addresses:
  assumes "list_all (symbol_consistent kind tls) syms" "29 \<le> length offsets" "create_all syms offsets = Some (ress, offsets')"
    "offsets ! 5 = base + 8 * of_nat k" "offsets ! 6 = base' + of_nat k'"
  shows "addresses_from (got_at base) got_slots k ress \<and> addresses_from (plt_at base') plt_bytes k' ress"
  using assms
proof (induction syms arbitrary: offsets ress k k')
  case (Cons request syms)
  obtain flags raw_value dsi where request: "request = (flags, raw_value, dsi)" by (metis prod_cases3)
  obtain res offsets1 rest where 1: "create_resolution flags raw_value dsi offsets = Some (res, offsets1)"
      "create_all syms offsets1 = Some (rest, offsets')" "ress = res # rest"
    using Cons.prems(3) by (auto simp: request split: Option.bind_splits)
  have sc: "symbol_consistent kind tls (flags, raw_value, dsi)" using Cons.prems(1) request by simp
  then have og: "needs_plt flags \<Longrightarrow> only_got flags" by (simp add: symbol_consistent_def)
  have nonzero: "got_slots flags \<noteq> 0 \<Longrightarrow> offsets ! 5 \<noteq> 0" "needs_plt flags \<Longrightarrow> offsets ! 6 \<noteq> 0"
    using 1(1) sc Cons.prems(2) by (auto simp: create_resolution_def allocate_plt_def allocate_got_def get_def part_consts Let_def
        part_map_increment_def set_at_def slot_defs symbol_consistent_def split: if_splits Option.bind_splits)
  note eq = create_resolution_eq [OF sc Cons.prems(2) nonzero, where relr = True]
  have place: "got_at base k res" "plt_at base' k' res"
    using eq 1(1) Cons.prems(4,5) by (auto simp: got_at_def plt_at_def split: if_splits)
  have "offsets1 ! 5 = base + 8 * of_nat (k + got_slots flags)"
    using eq 1(1) Cons.prems(2,4) by (auto simp: add_amounts_got address_count_def symbol_count_got algebra_simps)
  moreover have "offsets1 ! 6 = base' + of_nat (k' + plt_bytes flags)"
    using eq 1(1) Cons.prems(2,5) og
    by (auto simp: add_amounts_plt address_count_def symbol_count_plt plt_bytes_def algebra_simps)
  moreover have "29 \<le> length offsets1" "rs_flags res = flags"
    using create_resolution_frame [OF 1(1)] Cons.prems(2) by simp_all
  ultimately have "addresses_from (got_at base) got_slots (k + got_slots (rs_flags res)) rest \<and>
      addresses_from (plt_at base') plt_bytes (k' + plt_bytes (rs_flags res)) rest"
    using Cons.IH [OF _ _ 1(2), of "k + got_slots flags" "k' + plt_bytes flags"] Cons.prems(1) by simp
  then show ?case using place 1(3) by simp
qed simp

end
