(* ===== verification/Plt_Entry.thy ===== *)
theory Plt_Entry
  imports Resolution_Tables Write_Reloc
begin

text \<open>
  Model of \<open>write_plt_entry\<close> of the four ELF architectures (\<open>libwild/src/elf_x86_64.rs\<close>,
  \<open>elf_aarch64.rs\<close>, \<open>elf_riscv64.rs\<close>, \<open>elf_loongarch64.rs\<close>) and of the other operations through which
  the writer of symbol tables reaches the architecture, as values of the record \<open>Arch\<close>. Arithmetic
  wraps as in a release build; a slice of the wrong length is a panic.

  The theorems read the stub back the way the processor executes it: it jumps through the GOT entry
  it was written for.
\<close>

section \<open>The stubs\<close>

definition X86_64_PLT_ENTRY_TEMPLATE :: bytes where
  "X86_64_PLT_ENTRY_TEMPLATE =
     [0xf3, 0x0f, 0x1e, 0xfa, 0xf2, 0xff, 0x25, 0x0, 0x0, 0x0, 0x0, 0x0f, 0x1f, 0x44, 0x0, 0x0]"

definition AARCH64_PLT_ENTRY_TEMPLATE :: bytes where
  "AARCH64_PLT_ENTRY_TEMPLATE =
     [0x10, 0x00, 0x00, 0x90, 0x11, 0x02, 0x40, 0xf9, 0x20, 0x02, 0x1f, 0xd6, 0x1f, 0x20, 0x03, 0xd5]"

definition RISCV64_PLT_ENTRY_TEMPLATE :: bytes where
  "RISCV64_PLT_ENTRY_TEMPLATE =
     [0x17, 0x0e, 0x0, 0x0, 0x03, 0x3e, 0x0e, 0x0, 0x67, 0x03, 0x0e, 0x0, 0x73, 0x0, 0x10, 0x0]"

definition LOONGARCH64_PLT_ENTRY_TEMPLATE :: bytes where
  "LOONGARCH64_PLT_ENTRY_TEMPLATE =
     [0x0f, 0x0, 0x0, 0x1a, 0xef, 0x1, 0xc0, 0x28, 0xed, 0x1, 0x0, 0x4c, 0x0, 0x0, 0x2a, 0x0]"

definition RISCV_TLS_DTV_OFFSET :: u64 where "RISCV_TLS_DTV_OFFSET = 0x800"

text \<open>\<open>dest.copy_from_slice(src)\<close>: the lengths must agree.\<close>

definition copy_from_slice :: "bytes \<Rightarrow> bytes \<Rightarrow> bytes option" where
  "copy_from_slice dest src = (if length dest = length src then Some src else None)"

text \<open>A mutable borrow of \<open>dest[lo..hi]\<close> that an operation changes.\<close>

definition update_range :: "bytes \<Rightarrow> nat \<Rightarrow> nat \<Rightarrow> (bytes \<Rightarrow> bytes option) \<Rightarrow> bytes option" where
  "update_range dest lo hi f =
     do { window \<leftarrow> get_range dest lo hi; window' \<leftarrow> f window; copy_at dest lo window' }"

definition finish :: "'a option \<Rightarrow> 'a write_result" where
  "finish m = map_option Inr m"

definition x86_64_write_plt_entry :: "bytes \<Rightarrow> u64 \<Rightarrow> u64 \<Rightarrow> bytes write_result" where
  "x86_64_write_plt_entry plt_entry got_addr plt_addr =
     (case copy_from_slice plt_entry X86_64_PLT_ENTRY_TEMPLATE of
        None \<Rightarrow> None
      | Some plt_entry \<Rightarrow>
          let offset = got_addr - (plt_addr + 0xb) in
          if - (2 ^ 31) \<le> sint offset \<and> sint offset < 2 ^ 31
          then finish (update_range plt_entry 7 11 (\<lambda>w. copy_from_slice w (le_bytes 4 (ucast offset :: u32))))
          else fail Plt_Out_Of_Range)"

definition aarch64_write_plt_entry :: "bytes \<Rightarrow> u64 \<Rightarrow> u64 \<Rightarrow> bytes write_result" where
  "aarch64_write_plt_entry plt_entry got_addr plt_addr =
     (case copy_from_slice plt_entry AARCH64_PLT_ENTRY_TEMPLATE of
        None \<Rightarrow> None
      | Some plt_entry \<Rightarrow>
          let plt_page_address = plt_addr AND NOT PAGE_MASK_4KB;
              offset = got_addr - plt_page_address in
          if offset < 2 ^ 32
          then finish (do {
            e \<leftarrow> update_range plt_entry 0 4 (aarch64_write_to_value Adr (offset div SIZE_4KB) False);
            update_range e 4 8 (aarch64_write_to_value LdrRegister ((offset AND PAGE_MASK_4KB) div 8) False) })
          else fail Plt_Out_Of_Range)"

definition riscv64_write_plt_entry :: "bytes \<Rightarrow> u64 \<Rightarrow> u64 \<Rightarrow> bytes write_result" where
  "riscv64_write_plt_entry plt_entry got_addr plt_addr =
     finish (do {
       e \<leftarrow> copy_from_slice plt_entry RISCV64_PLT_ENTRY_TEMPLATE;
       update_range e 0 8 (riscv_write_to_value UiType (got_addr - plt_addr) False) })"

definition loongarch64_write_plt_entry :: "bytes \<Rightarrow> u64 \<Rightarrow> u64 \<Rightarrow> bytes write_result" where
  "loongarch64_write_plt_entry plt_entry got_addr plt_addr =
     finish (do {
       e \<leftarrow> copy_from_slice plt_entry LOONGARCH64_PLT_ENTRY_TEMPLATE;
       let pcala_hi20 = push_bit 5 (drop_bit 12
         (((got_addr + SIZE_2KB) AND NOT PAGE_MASK_4KB) - (plt_addr AND NOT PAGE_MASK_4KB)));
       let pcala_lo12 = push_bit 10 (got_addr AND 0xfff);
       e \<leftarrow> update_range e 0 4 (\<lambda>w. or_from_slice w (le_bytes 4 (ucast pcala_hi20 :: u32)));
       update_range e 4 8 (\<lambda>w. or_from_slice w (le_bytes 4 (ucast pcala_lo12 :: u32))) })"

text \<open>
  The implementations of the trait \<open>Arch\<close>: the numbers of relocation types and \<open>set_r_info\<close> come from
  the \<open>object\<close> crate.
\<close>

definition ElfX86_64 :: "(string \<Rightarrow> u32) \<Rightarrow> (u32 \<Rightarrow> u32 \<Rightarrow> u64) \<Rightarrow> Arch" where
  "ElfX86_64 elf r_info = \<lparr>get_dynamic_relocation_type = x86_64_r_type elf,
     arch_write_plt_entry = x86_64_write_plt_entry, get_dtv_offset = 0, object_r_info = r_info\<rparr>"

definition ElfAArch64 :: "(string \<Rightarrow> u32) \<Rightarrow> (u32 \<Rightarrow> u32 \<Rightarrow> u64) \<Rightarrow> Arch" where
  "ElfAArch64 elf r_info = \<lparr>get_dynamic_relocation_type = aarch64_r_type elf,
     arch_write_plt_entry = aarch64_write_plt_entry, get_dtv_offset = 0, object_r_info = r_info\<rparr>"

definition ElfRiscV64 :: "(string \<Rightarrow> u32) \<Rightarrow> (u32 \<Rightarrow> u32 \<Rightarrow> u64) \<Rightarrow> Arch" where
  "ElfRiscV64 elf r_info = \<lparr>get_dynamic_relocation_type = riscv64_r_type elf,
     arch_write_plt_entry = riscv64_write_plt_entry, get_dtv_offset = RISCV_TLS_DTV_OFFSET, object_r_info = r_info\<rparr>"

definition ElfLoongArch64 :: "(string \<Rightarrow> u32) \<Rightarrow> (u32 \<Rightarrow> u32 \<Rightarrow> u64) \<Rightarrow> Arch" where
  "ElfLoongArch64 elf r_info = \<lparr>get_dynamic_relocation_type = loongarch64_r_type elf,
     arch_write_plt_entry = loongarch64_write_plt_entry, get_dtv_offset = 0, object_r_info = r_info\<rparr>"

definition elf_arch :: "arch \<Rightarrow> (string \<Rightarrow> u32) \<Rightarrow> (u32 \<Rightarrow> u32 \<Rightarrow> u64) \<Rightarrow> Arch" where
  "elf_arch a = (case a of Arch_X86_64 \<Rightarrow> ElfX86_64 | Arch_AArch64 \<Rightarrow> ElfAArch64
     | Arch_RiscV64 \<Rightarrow> ElfRiscV64 | Arch_LoongArch64 \<Rightarrow> ElfLoongArch64)"

section \<open>What a stub does\<close>

text \<open>
  The address of the GOT entry whose content a stub at the given address jumps to, as the processor
  computes it; no address if the bytes are other instructions.
\<close>

definition word_at :: "bytes \<Rightarrow> nat \<Rightarrow> u32" where
  "word_at bs i = from_le_bytes (take 4 (drop i bs))"

definition sext32_64 :: "u32 \<Rightarrow> u64" where
  "sext32_64 w = signed_take_bit 31 (ucast w)"

definition x86_64_stub_slot :: "u64 \<Rightarrow> bytes \<Rightarrow> u64 option" where
  "x86_64_stub_slot pc bs =
     (if take 7 bs = [0xf3, 0x0f, 0x1e, 0xfa, 0xf2, 0xff, 0x25]
      then Some (pc + 11 + sext32_64 (word_at bs 7)) else None)"

definition aarch64_stub_slot :: "u64 \<Rightarrow> bytes \<Rightarrow> u64 option" where
  "aarch64_stub_slot pc bs =
     (let adrp = word_at bs 0; ldr = word_at bs 4; br = word_at bs 8;
          pages = take_bit 2 (drop_bit 29 (ucast adrp)) OR push_bit 2 (signed_take_bit 18 (drop_bit 5 (ucast adrp))) in
      if adrp AND 0x9F00001F = 0x90000010 \<and> ldr AND 0xFFC003FF = 0xF9400211 \<and> br = 0xD61F0220
      then Some ((pc AND NOT 0xfff) + push_bit 12 pages + push_bit 3 (take_bit 12 (drop_bit 10 (ucast ldr))))
      else None)"

definition riscv64_stub_slot :: "u64 \<Rightarrow> bytes \<Rightarrow> u64 option" where
  "riscv64_stub_slot pc bs =
     (let auipc = word_at bs 0; ld = word_at bs 4; jalr = word_at bs 8 in
      if take_bit 12 auipc = 0xE17 \<and> take_bit 20 ld = 0xE3E03 \<and> jalr = 0xE0367
      then Some (pc + sext32_64 (riscv_upper auipc) + signed_take_bit 11 (ucast (drop_bit 20 ld)))
      else None)"

definition loongarch64_stub_slot :: "u64 \<Rightarrow> bytes \<Rightarrow> u64 option" where
  "loongarch64_stub_slot pc bs =
     (let pcalau12i = word_at bs 0; ld_d = word_at bs 4; jirl = word_at bs 8 in
      if pcalau12i AND 0xFE00001F = 0x1A00000F \<and> ld_d AND 0xFFC003FF = 0x28C001EF \<and> jirl = 0x4C0001ED
      then Some ((pc AND NOT 0xfff) + push_bit 12 (signed_take_bit 19 (drop_bit 5 (ucast pcalau12i))) +
        signed_take_bit 11 (drop_bit 10 (ucast ld_d)))
      else None)"

definition stub_slot :: "arch \<Rightarrow> u64 \<Rightarrow> bytes \<Rightarrow> u64 option" where
  "stub_slot a = (case a of Arch_X86_64 \<Rightarrow> x86_64_stub_slot | Arch_AArch64 \<Rightarrow> aarch64_stub_slot
     | Arch_RiscV64 \<Rightarrow> riscv64_stub_slot | Arch_LoongArch64 \<Rightarrow> loongarch64_stub_slot)"

text \<open>The distances that a stub can bridge.\<close>

definition plt_in_range :: "arch \<Rightarrow> u64 \<Rightarrow> u64 \<Rightarrow> bool" where
  "plt_in_range a got_addr plt_addr = (case a of
     Arch_X86_64 \<Rightarrow> - (2 ^ 31) \<le> sint (got_addr - (plt_addr + 11)) \<and> sint (got_addr - (plt_addr + 11)) < 2 ^ 31
   | Arch_AArch64 \<Rightarrow> got_addr - (plt_addr AND NOT 0xfff) < 2 ^ 32 \<and> got_addr mod 8 = 0
   | Arch_RiscV64 \<Rightarrow> - (2 ^ 31) \<le> sint (got_addr - plt_addr + 0x800) \<and> sint (got_addr - plt_addr + 0x800) < 2 ^ 31
   | Arch_LoongArch64 \<Rightarrow> ((got_addr + 0x800) AND NOT 0xfff) - (plt_addr AND NOT 0xfff) < 2 ^ 31)"

section \<open>Reading stubs back\<close>

lemmas plt_defs = copy_from_slice_def update_range_def finish_def slice_simps

lemma x86_64_stub:
  assumes "length entry = 16" "plt_in_range Arch_X86_64 got_addr plt_addr"
  shows "\<exists>bs. x86_64_write_plt_entry entry got_addr plt_addr = ok bs \<and> length bs = 16 \<and> x86_64_stub_slot plt_addr bs = Some got_addr"
proof -
  let ?o = "got_addr - (plt_addr + 11)"
  have r: "- (2 ^ 31) \<le> sint ?o" "sint ?o < 2 ^ 31" using assms(2) by (simp_all add: plt_in_range_def)
  let ?bs = "take 7 X86_64_PLT_ENTRY_TEMPLATE @ le_bytes 4 (ucast ?o :: u32) @ drop 11 X86_64_PLT_ENTRY_TEMPLATE"
  have w: "x86_64_write_plt_entry entry got_addr plt_addr = ok ?bs"
    using assms(1) r by (simp add: x86_64_write_plt_entry_def plt_defs X86_64_PLT_ENTRY_TEMPLATE_def ok_def Let_def)
  have "sext32_64 (ucast ?o) = signed_take_bit 31 ?o"
    unfolding sext32_64_def by (rule bit_word_eqI) (auto simp: bit_simps min_def)
  also have "\<dots> = ?o" using r by (rule signed_take_bit_fits)
  finally have "x86_64_stub_slot plt_addr ?bs = Some got_addr"
    by (simp add: x86_64_stub_slot_def X86_64_PLT_ENTRY_TEMPLATE_def word_at_def)
  then show ?thesis using w by (auto simp: X86_64_PLT_ENTRY_TEMPLATE_def)
qed

lemma two_words:
  "word_at (le_bytes 4 (a :: u32) @ le_bytes 4 (b :: u32) @ c) 0 = a"
  "word_at (le_bytes 4 (a :: u32) @ le_bytes 4 (b :: u32) @ c) 4 = b"
  "word_at (le_bytes 4 (a :: u32) @ le_bytes 4 (b :: u32) @ c) 8 = from_le_bytes (take 4 c)"
  by (simp_all add: word_at_def)

lemma opcode_kept:
  fixes c x f m :: u32
  assumes "x AND NOT f = 0" "NOT f = m" "c AND m = c"
  shows "(c OR x) AND m = c"
  using assms by (simp add: bit.conj_disj_distrib2)

lemma page_mask: "PAGE_MASK_4KB = mask 12"
  by (simp add: PAGE_MASK_4KB_def SIZE_4KB_def mask_numeral)

text \<open>A distance as its pages and the scaled offset in the page.\<close>

lemma page_split:
  fixes x :: u64
  assumes "x mod 8 = 0"
  shows "push_bit 12 (drop_bit 12 x) + push_bit 3 (drop_bit 3 (take_bit 12 x)) = x"
proof -
  have "take_bit 3 x = 0" using assms by (simp add: take_bit_eq_mod)
  then have "take_bit 3 (take_bit 12 x) = 0" by simp
  then have "push_bit 3 (drop_bit 3 (take_bit 12 x)) = take_bit 12 x"
    using bits_ident [of 3 "take_bit 12 x"] by simp
  then show ?thesis using bits_ident [of 12 x] by (simp add: add.commute)
qed

lemma take_bit_wider: "take_bit m x = x \<Longrightarrow> m \<le> n \<Longrightarrow> take_bit n x = (x :: 'a::len word)"
  using take_bit_take_bit [of n m x] by (simp add: min_absorb2)

lemma signed_take_bit_positive: "take_bit m x = x \<Longrightarrow> m \<le> n \<Longrightarrow> signed_take_bit n x = (x :: 'a::len word)"
  using signed_take_bit_eq_if_positive [of x n] take_bit_wider [of m x n] bit_take_bit_iff [of m x n]
  by auto

lemma aarch64_words:
  fixes p i :: u64
  assumes "take_bit 20 p = p" "take_bit 9 i = i"
  defines "a \<equiv> 0x90000010 OR aarch64_bits Adr p False" and "l \<equiv> 0xF9400211 OR aarch64_bits LdrRegister i False"
  shows "a AND 0x9F00001F = 0x90000010" and "l AND 0xFFC003FF = 0xF9400211"
    and "take_bit 2 (drop_bit 29 (ucast a)) OR push_bit 2 (signed_take_bit 18 (drop_bit 5 (ucast a))) = p"
    and "take_bit 12 (drop_bit 10 (ucast l)) = i"
proof -
  have p21: "take_bit 21 p = p" using take_bit_wider [OF assms(1), of 21] by simp
  have i12: "take_bit 12 i = i" using take_bit_wider [OF assms(2), of 12] by simp
  have "aarch64_bits Adr p False AND NOT (aarch64_field Adr) = 0" using aarch64_bits_in_field [of Adr p] p21 by simp
  then show "a AND 0x9F00001F = 0x90000010"
    unfolding a_def by (rule opcode_kept) (simp_all add: mask_numeral)
  have "aarch64_bits LdrRegister i False AND NOT (aarch64_field LdrRegister) = 0"
    using aarch64_bits_in_field [of LdrRegister i] i12 by simp
  then show "l AND 0xFFC003FF = 0xF9400211"
    unfolding l_def by (rule opcode_kept) (simp_all add: mask_numeral)
  have "drop_bit 2 (take_bit 21 p) = take_bit 19 (drop_bit 2 p)" by (simp add: drop_bit_take_bit)
  then have d: "take_bit 19 (drop_bit 2 p) = drop_bit 2 p" using p21 by simp
  then have "take_bit 30 (drop_bit 2 p) = take_bit 19 (drop_bit 2 p)" using take_bit_wider [OF d, of 30] by simp
  then have "a = 0x90000010 OR (push_bit 29 (ucast (take_bit 2 p)) OR push_bit 5 (ucast (take_bit 19 (drop_bit 2 p))))"
    by (simp add: a_def aarch64_bits_def)
  moreover have "signed_take_bit 20 p = p"
    by (rule signed_take_bit_positive [OF assms(1)]) simp
  ultimately show "take_bit 2 (drop_bit 29 (ucast a)) OR push_bit 2 (signed_take_bit 18 (drop_bit 5 (ucast a))) = p"
    using adr_field_readback [of "0x90000010" p] adr_field_join [of p] by (simp add: mask_numeral)
  show "take_bit 12 (drop_bit 10 (ucast l)) = i"
    using take_bit_field_readback [of "0xF9400211" 10 12 i] i12 by (simp add: l_def aarch64_bits_def mask_numeral)
qed

lemma aarch64_stub:
  assumes "length entry = 16" "plt_in_range Arch_AArch64 got_addr plt_addr"
  shows "\<exists>bs. aarch64_write_plt_entry entry got_addr plt_addr = ok bs \<and> length bs = 16 \<and> aarch64_stub_slot plt_addr bs = Some got_addr"
proof -
  let ?o = "got_addr - (plt_addr AND NOT PAGE_MASK_4KB)"
  let ?p = "?o div SIZE_4KB" and ?i = "(?o AND PAGE_MASK_4KB) div 8"
  let ?a = "0x90000010 OR aarch64_bits Adr ?p False" and ?l = "0xF9400211 OR aarch64_bits LdrRegister ?i False"
  have small: "?o < 2 ^ 32" using assms(2) by (simp add: plt_in_range_def PAGE_MASK_4KB_def SIZE_4KB_def)
  let ?bs = "le_bytes 4 ?a @ le_bytes 4 ?l @ drop 8 AARCH64_PLT_ENTRY_TEMPLATE"
  have w: "aarch64_write_plt_entry entry got_addr plt_addr = ok ?bs"
    using assms(1) small by (simp add: aarch64_write_plt_entry_def plt_defs AARCH64_PLT_ENTRY_TEMPLATE_def ok_def Let_def
       aarch64_write_word aarch64_keep_def)
  have p: "?p = drop_bit 12 ?o" by (simp add: SIZE_4KB_def drop_bit_eq_div)
  have i: "?i = drop_bit 3 (take_bit 12 ?o)" by (simp add: page_mask drop_bit_eq_div take_bit_eq_mask)
  have "take_bit 32 ?o = ?o" using small by (simp add: take_bit_eq_self_less)
  moreover have "drop_bit 12 (take_bit 32 ?o) = take_bit 20 (drop_bit 12 ?o)" by (simp add: drop_bit_take_bit)
  ultimately have pw: "take_bit 20 ?p = ?p" by (simp add: p)
  have iw: "take_bit 9 ?i = ?i" unfolding i by (simp add: drop_bit_take_bit)
  have "take_bit 3 got_addr = 0" using assms(2) by (simp add: plt_in_range_def take_bit_eq_mod)
  moreover have "take_bit 3 (plt_addr AND NOT PAGE_MASK_4KB) = 0"
    unfolding page_mask by (rule bit_word_eqI) (auto simp: bit_simps)
  ultimately have "take_bit 3 ?o = 0"
    using take_bit_add_word [of 3 "plt_addr AND NOT PAGE_MASK_4KB" ?o] by simp
  then have "?o mod 8 = 0" by (simp add: take_bit_eq_mod)
  from page_split [OF this] have "push_bit 12 ?p + push_bit 3 ?i = ?o" unfolding p i .
  then have "(plt_addr AND NOT PAGE_MASK_4KB) + push_bit 12 ?p + push_bit 3 ?i = got_addr" by (simp only: add.assoc) simp
  then have "aarch64_stub_slot plt_addr ?bs = Some got_addr"
    using aarch64_words [OF pw iw]
    by (simp add: aarch64_stub_slot_def two_words AARCH64_PLT_ENTRY_TEMPLATE_def page_mask mask_numeral Let_def)
  then show ?thesis using w by (auto simp: AARCH64_PLT_ENTRY_TEMPLATE_def)
qed

lemma riscv64_slot:
  fixes d :: u64
  shows "sext32_64 (riscv_upper (riscv_word32 UType w d)) = push_bit 12 (drop_bit 12 (signed_take_bit 31 (d + 0x800)))"
    and "signed_take_bit 11 (ucast (drop_bit 20 (riscv_word32 IType v d))) = signed_take_bit 11 d"
proof -
  have "(ucast (d + 0x800) :: u32) = ucast d + 0x800" by (simp add: ucast_add_down)
  then have "sext32_64 (riscv_upper (riscv_word32 UType w d)) = sext32_64 (push_bit 12 (drop_bit 12 (ucast (d + 0x800))))"
    by (simp add: riscv_upper_utype)
  also have "\<dots> = push_bit 12 (drop_bit 12 (signed_take_bit 31 (d + 0x800)))"
    unfolding sext32_64_def by (rule bit_word_eqI) (auto simp: bit_simps min_def)
  finally show "sext32_64 (riscv_upper (riscv_word32 UType w d)) = push_bit 12 (drop_bit 12 (signed_take_bit 31 (d + 0x800)))" .
  show "signed_take_bit 11 (ucast (drop_bit 20 (riscv_word32 IType v d))) = signed_take_bit 11 d"
    unfolding signed_take_bit_eq_iff_take_bit_eq by (rule bit_word_eqI) (auto simp: bit_simps riscv_itype_bits)
qed

lemma riscv64_opcodes:
  "take_bit 12 (riscv_word32 UType 0xE17 d) = 0xE17" "take_bit 20 (riscv_word32 IType 0xE3E03 d) = 0xE3E03"
proof -
  have "take_bit 12 (riscv_word32 UType w d) = take_bit 12 w" "take_bit 20 (riscv_word32 IType w d) = take_bit 20 w" for w
    by (rule bit_word_eqI, auto simp: riscv_bit_simps)+
  then show "take_bit 12 (riscv_word32 UType 0xE17 d) = 0xE17" "take_bit 20 (riscv_word32 IType 0xE3E03 d) = 0xE3E03"
    by simp_all
qed

definition riscv64_stub_bytes :: "u64 \<Rightarrow> bytes" where
  "riscv64_stub_bytes d =
     le_bytes 4 (riscv_word32 UType 0xE17 d) @ le_bytes 4 (riscv_word32 IType 0xE3E03 d) @ drop 8 RISCV64_PLT_ENTRY_TEMPLATE"

text \<open>The stub is written whatever the distance is; it jumps through the entry at the distance extended from 32 bits.\<close>

lemma riscv64_written:
  assumes "length entry = 16"
  shows "riscv64_write_plt_entry entry got_addr plt_addr = ok (riscv64_stub_bytes (got_addr - plt_addr))"
    "length (riscv64_stub_bytes d) = 16"
    "riscv64_stub_slot plt_addr (riscv64_stub_bytes d) =
      Some (plt_addr + push_bit 12 (drop_bit 12 (signed_take_bit 31 (d + 0x800))) + signed_take_bit 11 d)"
proof -
  show "riscv64_write_plt_entry entry got_addr plt_addr = ok (riscv64_stub_bytes (got_addr - plt_addr))"
    using assms by (simp add: riscv64_write_plt_entry_def plt_defs RISCV64_PLT_ENTRY_TEMPLATE_def ok_def riscv64_stub_bytes_def
        riscv_write_to_value_def riscv_write_word32 riscv_compressed_def riscv_word32_def get_from_def
        del: riscv_write_one.simps)
  show "length (riscv64_stub_bytes d) = 16" by (simp add: riscv64_stub_bytes_def RISCV64_PLT_ENTRY_TEMPLATE_def)
  show "riscv64_stub_slot plt_addr (riscv64_stub_bytes d) =
      Some (plt_addr + push_bit 12 (drop_bit 12 (signed_take_bit 31 (d + 0x800))) + signed_take_bit 11 d)"
    by (simp add: riscv64_stub_slot_def riscv64_stub_bytes_def two_words RISCV64_PLT_ENTRY_TEMPLATE_def Let_def riscv64_opcodes riscv64_slot)
qed

lemma riscv64_stub:
  assumes "length entry = 16" "plt_in_range Arch_RiscV64 got_addr plt_addr"
  shows "\<exists>bs. riscv64_write_plt_entry entry got_addr plt_addr = ok bs \<and> length bs = 16 \<and> riscv64_stub_slot plt_addr bs = Some got_addr"
proof -
  let ?d = "got_addr - plt_addr"
  have "signed_take_bit 31 (?d + 0x800) = ?d + 0x800"
    using assms(2) by (intro signed_take_bit_fits) (simp_all add: plt_in_range_def)
  then have "plt_addr + push_bit 12 (drop_bit 12 (signed_take_bit 31 (?d + 0x800))) + signed_take_bit 11 ?d = got_addr"
    using hi_lo_split [of 11 ?d] by (simp add: add.assoc)
  then show ?thesis using riscv64_written [OF assms(1)] by simp
qed

lemma riscv64_far:
  assumes "length entry = 16" "\<not> plt_in_range Arch_RiscV64 got_addr plt_addr"
  shows "\<exists>bs. riscv64_write_plt_entry entry got_addr plt_addr = ok bs \<and> length bs = 16 \<and> riscv64_stub_slot plt_addr bs \<noteq> Some got_addr"
proof -
  let ?d = "got_addr - plt_addr"
  let ?e = "?d + 0x800"
  have "signed_take_bit 31 ?e \<noteq> ?e"
    using assms(2) signed_take_bit_fits_iff [of 31 ?e] by (auto simp: plt_in_range_def)
  moreover have "take_bit 12 (signed_take_bit 31 ?e) = take_bit 12 ?e" by (rule bit_word_eqI) (auto simp: bit_simps min_def)
  ultimately have "push_bit 12 (drop_bit 12 (signed_take_bit 31 ?e)) \<noteq> push_bit 12 (drop_bit 12 ?e)"
    by (metis bits_ident)
  moreover have "plt_addr + push_bit 12 (drop_bit 12 ?e) + signed_take_bit 11 ?d = got_addr"
    using hi_lo_split [of 11 ?d] by (simp add: add.assoc)
  ultimately have "plt_addr + push_bit 12 (drop_bit 12 (signed_take_bit 31 ?e)) + signed_take_bit 11 ?d \<noteq> got_addr"
    by (metis add_left_cancel add_right_cancel)
  then show ?thesis using riscv64_written [OF assms(1)] by simp
qed

lemma page_as_shift: "x AND NOT (mask n) = push_bit n (drop_bit n (x :: 'a::len word))"
  by (rule bit_word_eqI) (auto simp: bit_simps)

text \<open>The two words that are patched for \<open>x\<close> pages and the GOT address \<open>g\<close>.\<close>

definition pcala_high :: "u64 \<Rightarrow> u32" where
  "pcala_high x = 0x1A00000F OR ucast (push_bit 5 x)"

definition pcala_low :: "u64 \<Rightarrow> u32" where
  "pcala_low g = 0x28C001EF OR ucast (push_bit 10 (g AND 0xfff))"

lemma pcala_low_fields: "pcala_low g AND 0xFFC003FF = 0x28C001EF" "signed_take_bit 11 (drop_bit 10 (ucast (pcala_low g))) = signed_take_bit 11 g"
proof -
  have m: "g AND 0xfff = take_bit (Suc 11) g" by (simp add: take_bit_eq_mask mask_numeral)
  have l: "ucast (push_bit 10 (g AND 0xfff)) = (push_bit 10 (ucast (take_bit (Suc 11) g)) :: u32)"
    unfolding m by (rule bit_word_eqI) (auto simp: bit_simps)
  have "(ucast (push_bit 10 (g AND 0xfff)) :: u32) AND NOT (push_bit 10 (mask 12)) = 0"
    unfolding l by (rule bit_word_eqI) (auto simp: bit_simps)
  then show "pcala_low g AND 0xFFC003FF = 0x28C001EF"
    unfolding pcala_low_def by (rule opcode_kept) (simp_all add: mask_numeral)
  show "signed_take_bit 11 (drop_bit 10 (ucast (pcala_low g))) = signed_take_bit 11 g"
    unfolding pcala_low_def l using signed_field_readback [of "0x28C001EF" 10 11 g] by (simp add: mask_numeral)
qed

lemma pcala_high_bits: "k < 27 \<Longrightarrow> bit (pcala_high x) (k + 5) \<longleftrightarrow> k \<in> {20, 22, 23} \<or> bit x k"
proof -
  assume k: "k < 27"
  have "bit (0x1A00000F :: u32) (k + 5) \<longleftrightarrow> k \<in> {20, 22, 23}"
    using k by (auto simp: bit_numeral_rec less_Suc_eq numeral_eq_Suc elim!: less_SucE)
  then show ?thesis using k by (auto simp: pcala_high_def bit_simps)
qed

lemma pcala_high_field: "signed_take_bit 19 (drop_bit 5 (ucast (pcala_high x))) = signed_take_bit 19 (x :: u64)"
proof -
  have "take_bit (Suc 19) (drop_bit 5 (ucast (pcala_high x)) :: u64) = take_bit (Suc 19) x"
  proof (rule bit_word_eqI)
    fix k assume "k < LENGTH(64)"
    show "bit (take_bit (Suc 19) (drop_bit 5 (ucast (pcala_high x)) :: u64)) k \<longleftrightarrow> bit (take_bit (Suc 19) x) k"
      using pcala_high_bits [of k x] by (auto simp: bit_simps add.commute)
  qed
  then show ?thesis by (simp only: signed_take_bit_eq_iff_take_bit_eq)
qed

lemma pcala_opcode:
  assumes "take_bit 19 x = x"
  shows "pcala_high x AND 0xFE00001F = 0x1A00000F"
proof -
  have x20: "take_bit 20 x = x" using take_bit_wider [OF assms(1), of 20] by simp
  have h: "ucast (push_bit 5 x) = (push_bit 5 (ucast (take_bit (Suc 19) x)) :: u32)"
    by (subst x20 [symmetric], rule bit_word_eqI) (auto simp: bit_simps)
  have "(ucast (push_bit 5 x) :: u32) AND NOT (push_bit 5 (mask 20)) = 0"
    unfolding h by (rule bit_word_eqI) (auto simp: bit_simps)
  then show ?thesis unfolding pcala_high_def by (rule opcode_kept) (simp_all add: mask_numeral)
qed

text \<open>Pages that the field can hold are those that are read back with the opcode intact.\<close>

lemma pcala_opcode_far:
  assumes "pcala_high x AND 0xFE00001F = 0x1A00000F" "push_bit 12 (signed_take_bit 19 x) = push_bit 12 x" "take_bit 52 x = x"
  shows "take_bit 19 x = (x :: u64)"
proof -
  have "\<not> bit (pcala_high x) 26"
  proof
    assume "bit (pcala_high x) 26"
    then have "bit (pcala_high x AND 0xFE00001F) 26" by (simp add: bit_simps)
    then show False by (simp add: assms(1))
  qed
  then have 21: "\<not> bit x 21" using pcala_high_bits [of 21 x] by simp
  have same: "bit x (min k 19) = bit x k" if "k < 52" for k
    using arg_cong [OF assms(2), of "\<lambda>y. bit y (k + 12)"] that by (simp add: bit_simps min.commute)
  show ?thesis
  proof (rule bit_word_eqI)
    fix k assume "k < LENGTH(64)"
    have "\<not> bit x k" if "19 \<le> k"
    proof (cases "k < 52")
      case True
      then show ?thesis using same [OF True] same [of 21] 21 that by (auto simp: min_def split: if_splits)
    next
      case False
      then show ?thesis using arg_cong [OF assms(3), of "\<lambda>y. bit y k"] by (simp add: bit_simps)
    qed
    then show "bit (take_bit 19 x) k \<longleftrightarrow> bit x k" by (cases "k < 19") (simp_all add: bit_simps)
  qed
qed

definition loongarch64_stub_bytes :: "u64 \<Rightarrow> u64 \<Rightarrow> bytes" where
  "loongarch64_stub_bytes x got_addr = le_bytes 4 (pcala_high x) @ le_bytes 4 (pcala_low got_addr) @ drop 8 LOONGARCH64_PLT_ENTRY_TEMPLATE"

definition plt_pages :: "u64 \<Rightarrow> u64 \<Rightarrow> u64" where
  "plt_pages got_addr plt_addr = drop_bit 12 (push_bit 12 (drop_bit 12 (got_addr + 0x800)) - push_bit 12 (drop_bit 12 plt_addr))"

lemma plt_pages:
  "push_bit 12 (drop_bit 12 plt_addr) + push_bit 12 (plt_pages got_addr plt_addr) + signed_take_bit 11 got_addr = got_addr"
  "take_bit 52 (plt_pages got_addr plt_addr) = plt_pages got_addr plt_addr"
  "plt_in_range Arch_LoongArch64 got_addr plt_addr \<longleftrightarrow> take_bit 19 (plt_pages got_addr plt_addr) = plt_pages got_addr plt_addr"
proof -
  let ?plt = "push_bit 12 (drop_bit 12 plt_addr)" and ?got = "push_bit 12 (drop_bit 12 (got_addr + 0x800))"
  let ?x = "plt_pages got_addr plt_addr"
  have low: "take_bit 12 (push_bit 12 y) = 0" for y :: u64 by (rule bit_word_eqI) (auto simp: bit_simps)
  have "take_bit 12 (?got - ?plt) = 0"
    using take_bit_add_word [of 12 ?plt "?got - ?plt"] by (simp add: low)
  then have x: "push_bit 12 ?x = ?got - ?plt" using bits_ident [of 12 "?got - ?plt"] by (simp add: plt_pages_def)
  then show "?plt + push_bit 12 ?x + signed_take_bit 11 got_addr = got_addr" using hi_lo_split [of 11 got_addr] by simp
  show "take_bit 52 ?x = ?x"
    unfolding plt_pages_def by (rule bit_word_eqI) (auto simp: bit_simps dest: bit_imp_le_length)
  have pages: "y AND NOT 0xfff = push_bit 12 (drop_bit 12 y)" for y :: u64
    using page_as_shift [of y 12] by (simp add: mask_numeral)
  have "plt_in_range Arch_LoongArch64 got_addr plt_addr \<longleftrightarrow> take_bit 31 (push_bit 12 ?x) = push_bit 12 ?x"
    unfolding plt_in_range_def x arch.case pages by (simp add: take_bit_eq_self_less)
  also have "\<dots> \<longleftrightarrow> take_bit 19 ?x = ?x"
  proof
    assume "take_bit 31 (push_bit 12 ?x) = push_bit 12 ?x"
    from arg_cong [OF this, of "drop_bit 12"] have "take_bit 19 (drop_bit 12 (push_bit 12 ?x)) = drop_bit 12 (push_bit 12 ?x)"
      by (simp add: drop_bit_take_bit)
    moreover have "drop_bit 12 (push_bit 12 ?x) = ?x" by (simp only: x) (simp add: plt_pages_def)
    ultimately show "take_bit 19 ?x = ?x" by simp
  next
    assume "take_bit 19 ?x = ?x"
    then show "take_bit 31 (push_bit 12 ?x) = push_bit 12 ?x" by (simp add: take_bit_push_bit)
  qed
  finally show "plt_in_range Arch_LoongArch64 got_addr plt_addr \<longleftrightarrow> take_bit 19 ?x = ?x" .
qed

lemma loongarch64_written:
  assumes "length entry = 16"
  shows "loongarch64_write_plt_entry entry got_addr plt_addr = ok (loongarch64_stub_bytes (plt_pages got_addr plt_addr) got_addr)"
    "length (loongarch64_stub_bytes x got_addr) = 16"
    "loongarch64_stub_slot plt_addr (loongarch64_stub_bytes x got_addr) =
      (if pcala_high x AND 0xFE00001F = 0x1A00000F
       then Some (push_bit 12 (drop_bit 12 plt_addr) + push_bit 12 (signed_take_bit 19 x) + signed_take_bit 11 got_addr) else None)"
proof -
  have pages: "y AND NOT PAGE_MASK_4KB = push_bit 12 (drop_bit 12 y)" for y by (simp only: page_mask page_as_shift)
  show "loongarch64_write_plt_entry entry got_addr plt_addr = ok (loongarch64_stub_bytes (plt_pages got_addr plt_addr) got_addr)"
    using assms(1) by (simp add: loongarch64_write_plt_entry_def plt_defs LOONGARCH64_PLT_ENTRY_TEMPLATE_def ok_def
        pages plt_pages_def SIZE_2KB_def or_from_slice_le_bytes Let_def loongarch64_stub_bytes_def pcala_high_def pcala_low_def)
  show "length (loongarch64_stub_bytes x got_addr) = 16"
    by (simp add: loongarch64_stub_bytes_def LOONGARCH64_PLT_ENTRY_TEMPLATE_def)
  show "loongarch64_stub_slot plt_addr (loongarch64_stub_bytes x got_addr) =
      (if pcala_high x AND 0xFE00001F = 0x1A00000F
       then Some (push_bit 12 (drop_bit 12 plt_addr) + push_bit 12 (signed_take_bit 19 x) + signed_take_bit 11 got_addr) else None)"
    using page_as_shift [of plt_addr 12]
    by (simp add: loongarch64_stub_slot_def loongarch64_stub_bytes_def two_words LOONGARCH64_PLT_ENTRY_TEMPLATE_def mask_numeral Let_def
        pcala_low_fields pcala_high_field)
qed

lemma loongarch64_stub:
  assumes "length entry = 16" "plt_in_range Arch_LoongArch64 got_addr plt_addr"
  shows "\<exists>bs. loongarch64_write_plt_entry entry got_addr plt_addr = ok bs \<and> length bs = 16 \<and>
    loongarch64_stub_slot plt_addr bs = Some got_addr"
proof -
  let ?x = "plt_pages got_addr plt_addr"
  have x: "take_bit 19 ?x = ?x" using assms(2) plt_pages(3) by blast
  then have "signed_take_bit 19 ?x = ?x" by (rule signed_take_bit_positive) simp
  then show ?thesis
    using loongarch64_written [OF assms(1)] pcala_opcode [OF x] plt_pages(1) [of plt_addr got_addr] by simp
qed

lemma loongarch64_far:
  assumes "length entry = 16" "\<not> plt_in_range Arch_LoongArch64 got_addr plt_addr"
  shows "\<exists>bs. loongarch64_write_plt_entry entry got_addr plt_addr = ok bs \<and> length bs = 16 \<and>
    loongarch64_stub_slot plt_addr bs \<noteq> Some got_addr"
proof -
  let ?x = "plt_pages got_addr plt_addr" and ?plt = "push_bit 12 (drop_bit 12 plt_addr)"
  have "push_bit 12 (signed_take_bit 19 ?x) = push_bit 12 ?x"
    if "?plt + push_bit 12 (signed_take_bit 19 ?x) + signed_take_bit 11 got_addr = got_addr"
    using that plt_pages(1) [of plt_addr got_addr] by (metis add_left_cancel add_right_cancel)
  then have "\<not> (pcala_high ?x AND 0xFE00001F = 0x1A00000F \<and>
      ?plt + push_bit 12 (signed_take_bit 19 ?x) + signed_take_bit 11 got_addr = got_addr)"
    using assms(2) plt_pages(2,3) pcala_opcode_far by blast
  then show ?thesis using loongarch64_written [OF assms(1)] by auto
qed

lemma stub_written:
  assumes "length entry = 16" "plt_in_range a got_addr plt_addr"
  shows "\<exists>bs. arch_write_plt_entry (elf_arch a elf r_info) entry got_addr plt_addr = ok bs \<and> length bs = 16 \<and>
    stub_slot a plt_addr bs = Some got_addr"
  using assms x86_64_stub aarch64_stub riscv64_stub loongarch64_stub
  by (cases a) (simp_all add: elf_arch_def stub_slot_def ElfX86_64_def ElfAArch64_def ElfRiscV64_def ElfLoongArch64_def)

section \<open>Properties\<close>

text \<open>
  (C15) Calls through the PLT reach the GOT entry they were made for. On each of the four
  architectures, for a GOT entry in reach, the stub is written without an error or a panic, and the
  instructions that are written, decoded as the processor executes them at the address of the stub,
  jump to the content of exactly that GOT entry: the split of the distance into a page and a signed or
  scaled low part, with the rounding each instruction pair needs, loses nothing, and no opcode or
  register bit is disturbed.
\<close>

theorem plt_stub_reaches_got:
  assumes "length entry = 16" and "plt_in_range a got_addr plt_addr"
  shows "\<exists>bs. arch_write_plt_entry (elf_arch a elf r_info) entry got_addr plt_addr = ok bs \<and> length bs = 16 \<and>
    stub_slot a plt_addr bs = Some got_addr"
  using assms by (rule stub_written)

theorem plt_stub_reaches_got_witness:
  "\<exists>bs. arch_write_plt_entry (elf_arch Arch_LoongArch64 (\<lambda>_. 0) (\<lambda>_ _. 0)) (replicate 16 0) 0x12FF8 0x4010 = ok bs \<and>
    length bs = 16 \<and> stub_slot Arch_LoongArch64 0x4010 bs = Some 0x12FF8"
  by (rule plt_stub_reaches_got) (simp_all add: plt_in_range_def)

text \<open>
  (C31) Out of reach, the architectures differ. For every GOT entry that a stub cannot reach (aligned to eight bytes),
  x86-64 and AArch64 return an error; RISC-V and LoongArch check nothing, write a stub all the same, and that
  stub does not jump through the GOT entry: on RISC-V the distance is cut to 32 bits, on LoongArch it is
  or-ed over the opcode or extended with the wrong sign.
\<close>

theorem plt_far_unchecked:
  assumes "length entry = 16" "\<not> plt_in_range a got_addr plt_addr" "got_addr mod 8 = 0"
  shows "if a = Arch_X86_64 \<or> a = Arch_AArch64
    then arch_write_plt_entry (elf_arch a elf r_info) entry got_addr plt_addr = fail Plt_Out_Of_Range
    else \<exists>bs. arch_write_plt_entry (elf_arch a elf r_info) entry got_addr plt_addr = ok bs \<and> length bs = 16 \<and>
      stub_slot a plt_addr bs \<noteq> Some got_addr"
proof (cases a)
  case Arch_X86_64
  then show ?thesis
    using assms by (auto simp: elf_arch_def ElfX86_64_def plt_in_range_def x86_64_write_plt_entry_def copy_from_slice_def
        X86_64_PLT_ENTRY_TEMPLATE_def Let_def)
next
  case Arch_AArch64
  then show ?thesis
    using assms by (auto simp: elf_arch_def ElfAArch64_def plt_in_range_def aarch64_write_plt_entry_def copy_from_slice_def
        AARCH64_PLT_ENTRY_TEMPLATE_def Let_def PAGE_MASK_4KB_def SIZE_4KB_def)
next
  case Arch_RiscV64
  then show ?thesis using riscv64_far [of entry got_addr plt_addr] assms by (simp add: elf_arch_def ElfRiscV64_def stub_slot_def)
next
  case Arch_LoongArch64
  then show ?thesis using loongarch64_far [of entry got_addr plt_addr] assms by (simp add: elf_arch_def ElfLoongArch64_def stub_slot_def)
qed

theorem plt_far_unchecked_witness:
  "\<exists>bs. arch_write_plt_entry (elf_arch Arch_RiscV64 (\<lambda>_. 0) (\<lambda>_ _. 0)) (replicate 16 0) 0x200001000 0x1000 = ok bs \<and>
    stub_slot Arch_RiscV64 0x1000 bs \<noteq> Some 0x200001000"
  using plt_far_unchecked [of "replicate 16 0" Arch_RiscV64 "0x200001000" "0x1000" "\<lambda>_. 0" "\<lambda>_ _. 0"]
  by (auto simp: plt_in_range_def)

end
