(* ===== verification/Resolution_Plt.thy ===== *)
theory Resolution_Plt
  imports Resolution_Slots Plt_Entry
begin

text \<open>
  The procedure linkage table as a whole, for the four architectures: the stub at the address that
  \<open>create_resolution\<close> gave a symbol jumps through the GOT entry of the same symbol.
\<close>

section \<open>Stubs in the table\<close>

definition stub_filled :: "arch \<Rightarrow> u64 \<Rightarrow> (tab \<Rightarrow> nat) \<Rightarrow> Resolution \<Rightarrow> TableWriter \<Rightarrow> bool" where
  "stub_filled a base ks res w \<longleftrightarrow>
     (case (rs_got_address res, rs_plt_address res) of
        (Some g, Some p) \<Rightarrow> \<exists>k. k + 16 \<le> ks TPlt \<and> p = base + of_nat k \<and>
          stub_slot a p (take 16 (drop k (tb_entries (tw_plt_got w)))) = Some g
      | _ \<Rightarrow> True)"

definition plt_reachable :: "arch \<Rightarrow> Resolution \<Rightarrow> bool" where
  "plt_reachable a res \<longleftrightarrow>
     (case (rs_got_address res, rs_plt_address res) of (Some g, Some p) \<Rightarrow> plt_in_range a g p | _ \<Rightarrow> True)"

lemma reachable_encodable: "plt_reachable a res \<Longrightarrow> plt_encodable (elf_arch a elf r_info) res"
  using stub_written [of _ a] by (fastforce simp: plt_reachable_def plt_encodable_def plt_fits_def split: option.splits)

lemma same_window:
  assumes "take n xs = take n ys" "k + m \<le> n"
  shows "take m (drop k xs) = take m (drop k ys)"
proof -
  have "take (m + k) zs = take (m + k) (take n zs)" for zs :: "'a list" using assms(2) by (simp add: min_absorb1 add.commute)
  then show ?thesis unfolding take_drop using assms(1) by metis
qed

lemma stub_filled_mono:
  assumes "stub_filled a base ks res w" "same_below ks w w'" "\<And>t. ks t \<le> ks' t"
  shows "stub_filled a base ks' res w'"
proof -
  have "take (ks TPlt) (tb_entries (tw_plt_got w')) = take (ks TPlt) (tb_entries (tw_plt_got w))"
    using assms(2) by (simp add: same_below_def)
  then have "take 16 (drop k (tb_entries (tw_plt_got w'))) = take 16 (drop k (tb_entries (tw_plt_got w)))"
    if "k + 16 \<le> ks TPlt" for k
    using that by (rule same_window)
  moreover have "k + 16 \<le> ks TPlt \<Longrightarrow> k + 16 \<le> ks' TPlt" for k using assms(3) [of TPlt] by simp
  ultimately show ?thesis using assms(1) by (fastforce simp: stub_filled_def split: option.splits)
qed

lemma plt_entry_filled:
  assumes "plt_in_range a g p" and "write_plt_entry (elf_arch a elf r_info) g p w = ok w'"
  shows "taken w' TPlt = taken w TPlt + 16 \<and>
    stub_slot a p (take 16 (drop (taken w TPlt) (tb_entries (tw_plt_got w')))) = Some g"
proof -
  let ?k = "tb_taken (tw_plt_got w)" and ?es = "tb_entries (tw_plt_got w)"
  have s16: "unat PLT_ENTRY_SIZE = 16" by (simp add: PLT_ENTRY_SIZE_def)
  define t where "t = (tw_plt_got w)\<lparr>tb_taken := ?k + 16\<rparr>"
  have "16 \<le> tb_remaining (tw_plt_got w)"
    using assms(2) by (auto simp: write_plt_entry_def take_plt_got_entry_def s16 rbind_ok tb_take_def split: if_splits)
  then have t: "tb_take 16 (tw_plt_got w) = Some (?k, t)" "?k + 16 \<le> length ?es" "tb_entries t = ?es" "tb_taken t = ?k + 16"
    by (auto simp: tb_take_def tb_remaining_def t_def)
  obtain bs where bs: "arch_write_plt_entry (elf_arch a elf r_info) (take 16 (drop ?k ?es)) g p = ok bs" "length bs = 16"
      "stub_slot a p bs = Some g"
    using stub_written [OF _ assms(1), of "take 16 (drop ?k ?es)"] t(2) by auto
  have "w' = w\<lparr>tw_plt_got := t\<lparr>tb_entries := take ?k ?es @ bs @ drop (?k + 16) ?es\<rparr>\<rparr>"
    using assms(2) t bs by (simp add: write_plt_entry_def take_plt_got_entry_def s16 slice_simps)
  then show ?thesis using t(2,4) bs(2,3) by simp
qed

lemma got_entry_plt:
  assumes "process_got_entry A res x w = ok w1"
  shows "taken w1 TPlt = taken w TPlt"
  using assms
  by (auto simp: process_got_entry_def Let_def rbind_ok take_got_ok put_got_def tb_put_def write_dynamic_symbol_relocation_def
      write_rela_dyn_general_def take_rela_dyn_def write_ifunc_relocation_def write_address_relocation_def
      split: if_splits option.splits bool.splits)

lemma resolution_stub_filled:
  assumes ok: "resolution_ok (elf_arch a elf r_info) kind tls res" and reach: "plt_reachable a res"
    and located: "plt_at base (taken w TPlt) res"
    and run: "process_resolution (elf_arch a elf r_info) (Some tp) res w = ok w'"
  shows "stub_filled a base (taken w') res w'"
proof (cases "rs_got_address res = None \<or> rs_plt_address res = None")
  case False
  let ?A = "elf_arch a elf r_info"
  from False obtain g p where gp: "rs_got_address res = Some g" "rs_plt_address res = Some p" by auto
  have "needs_plt (rs_flags res)" using ok gp by (simp add: resolution_ok_def)
  then have "only_got (rs_flags res)" using ok by (simp add: resolution_ok_def symbol_consistent_def)
  then have tls: "\<not> needs_got_tls_offset (rs_flags res)" "\<not> needs_got_tls_module (rs_flags res)"
      "\<not> needs_got_tls_descriptor (rs_flags res)"
    by (auto simp: slot_defs)
  let ?last = "\<lambda>w2. if needs_ifunc_got_for_address (rs_flags res) then process_ifunc_got ?A res (g + GOT_ENTRY_SIZE) w2 else ok w2"
  obtain w1 w2 where w: "process_got_entry ?A res g w = ok w1" "write_plt_entry ?A g p w1 = ok w2" "?last w2 = ok w'"
    using run gp tls by (auto simp: process_resolution_def Let_def rbind_ok)
  have "taken w1 TPlt = taken w TPlt" by (rule got_entry_plt [OF w(1)])
  moreover have "plt_in_range a g p" using reach gp by (simp add: plt_reachable_def)
  ultimately have "stub_filled a base (taken w2) res w2"
    using plt_entry_filled [OF _ w(2)] located gp by (auto simp: stub_filled_def plt_at_def)
  moreover have "keeps (taken w2) ?last" by (intro keeps_if keeps_ok keeps_ifunc_got)
  then have below: "same_below (taken w2) w2 w'" using keepsD w(3) by blast
  moreover have "taken w2 t \<le> taken w' t" for t using below by (simp add: same_below_def)
  ultimately show ?thesis by (rule stub_filled_mono)
qed (auto simp: stub_filled_def split: option.splits)

interpretation plt_table: filled_table TPlt "plt_at base" "plt_reachable a" plt_bytes "stub_filled a base"
    "elf_arch a elf r_info" kind tls relr tp
  for base a elf r_info kind tls relr tp
proof (unfold_locales, goal_cases)
  case (1 ks res w w' ks')
  then show ?case by (rule stub_filled_mono)
next
  case (2 res w w')
  then show ?case by (rule resolution_stub_filled)
next
  case (3 res)
  then show ?case by (auto simp: symbol_count_plt plt_bytes_def resolution_ok_def symbol_consistent_def)
qed

section \<open>Properties\<close>

text \<open>
  (C1) A call through the PLT ends at its symbol. For any list of symbols with consistent flags whose PLT
  entries reach the GOT, on each architecture: all tables are laid out and written, and for every symbol
  that has a PLT entry, the sixteen bytes at its PLT address are a stub that jumps through the GOT entry at
  its GOT address, and this entry holds the address of the symbol or has the dynamic relocation for it. The
  addresses the layout gives out, the order in which the writer takes entries, the encoding of the stubs and
  the content of the GOT fit together.
\<close>

theorem plt_calls_reach_symbols:
  assumes consistent: "list_all (symbol_consistent kind tls) syms" and few: "length syms < 2 ^ 32"
    and offsets: "29 \<le> length offsets" "0 < offsets ! 5" "offsets ! 5 mod 2 = 0" "0 < offsets ! 6"
      "unat (offsets ! 5) < 2 ^ 63" "unat (offsets ! 6) < 2 ^ 63"
    and reach: "\<And>ress offsets'. create_all syms offsets = Some (ress, offsets') \<Longrightarrow> list_all (plt_reachable a) ress"
  shows "\<exists>sizes ress offsets' w w'. allocate_all kind relr syms (replicate 38 0) = Some sizes \<and>
    create_all syms offsets = Some (ress, offsets') \<and> new_table_writer kind tls relr sizes = Some w \<and>
    process_all (elf_arch a elf r_info) (Some tp) ress w = ok w' \<and>
    list_all (\<lambda>res. stub_filled a (offsets ! 6) (capacity w') res w' \<and>
      slot_filled (capacity w') (elf_arch a elf r_info) (offsets ! 5) res w') ress"
proof -
  let ?A = "elf_arch a elf r_info"
  have plt: "create_all syms offsets = Some (ress, offsets') \<Longrightarrow> list_all (plt_encodable ?A) ress" for ress offsets'
    using reach reachable_encodable by (fastforce simp: list_all_iff)
  obtain ress w w' b where g:
    "allocate_all kind relr syms (replicate 38 0) = Some (add_amounts (total_count kind relr syms) (replicate 38 0))"
    "create_all syms offsets = Some (ress, add_amounts (address_count (total_count kind relr syms)) offsets)"
    "list_all (\<lambda>res. resolution_ok ?A kind tls res \<and> (b \<longrightarrow> relr)) ress"
    "new_table_writer kind tls relr (add_amounts (total_count kind relr syms) (replicate 38 0)) = Some w"
    "setting_of w = (kind, tls, b)" "\<forall>t. taken w t = 0"
    "room (sum_count (\<lambda>res. symbol_count (rs_flags res) kind relr) ress) w"
    "process_all ?A (Some tp) ress w = ok w'" "\<forall>t. taken w' t = capacity w' t"
    by (rule group_written [OF consistent few offsets plt])
  have zero: "taken w TGot = 0" "taken w TPlt = 0" using g(6) by blast+
  then have at: "addresses_from (got_at (offsets ! 5)) got_slots (taken w TGot) ress"
      "addresses_from (plt_at (offsets ! 6)) plt_bytes (taken w TPlt) ress"
    using create_all_addresses [OF consistent offsets(1) g(2), of "offsets ! 5" 0 "offsets ! 6" 0] by simp_all
  have "list_all (\<lambda>res. slot_filled (taken w') ?A (offsets ! 5) res w') ress"
    using got_table.all_filled [OF g(3) _ g(5,7) at(1) g(8)] by (simp add: list_all_iff)
  moreover have "list_all (\<lambda>res. stub_filled a (offsets ! 6) (taken w') res w') ress"
    using plt_table.all_filled [OF g(3) reach [OF g(2)] g(5,7) at(2) g(8)] by simp
  moreover have "taken w' = capacity w'" using g(9) by auto
  ultimately show ?thesis using g(1,2,4,8) by (auto simp: list_all_iff)
qed

text \<open>A local function, an imported function, an ifunc whose address is taken and a thread-local variable.\<close>

definition example_symbols :: "symbol_request list" where
  "example_symbols =
     [(VF_FUNCTION OR VF_NON_INTERPOSABLE OR VF_GOT OR VF_PLT, 0x401000, None),
      (VF_FUNCTION OR VF_DYNAMIC OR VF_GOT OR VF_PLT, 0, Some 1),
      (VF_IFUNC OR VF_NON_INTERPOSABLE OR VF_GOT OR VF_PLT OR VF_IFUNC_GOT_FOR_ADDRESS, 0x401100, None),
      (VF_NON_INTERPOSABLE OR VF_GOT_TLS_OFFSET, 0x403010, None)]"

definition example_offsets :: "u64 list" where
  "example_offsets = replicate 5 0 @ [0x404000, 0x402000] @ replicate 31 0"

lemma example_sizes:
  "example_offsets ! 5 = 0x404000" "example_offsets ! 6 = 0x402000" "length example_offsets = 38" "length example_symbols = 4"
  by code_simp+

lemma example_consistent:
  "list_all (symbol_consistent (DynamicExecutable Relocatable) (0x403000, 0x403100)) example_symbols"
  by code_simp

lemma example_reachable:
  "create_all example_symbols example_offsets = Some (ress, offsets') \<Longrightarrow> list_all (plt_reachable a) ress"
proof -
  have "case create_all example_symbols example_offsets of None \<Rightarrow> False | Some (ress, _) \<Rightarrow>
      list_all (plt_reachable Arch_X86_64) ress \<and> list_all (plt_reachable Arch_AArch64) ress \<and>
      list_all (plt_reachable Arch_RiscV64) ress \<and> list_all (plt_reachable Arch_LoongArch64) ress"
    by code_simp
  then show "create_all example_symbols example_offsets = Some (ress, offsets') \<Longrightarrow> list_all (plt_reachable a) ress"
    by (cases a) simp_all
qed

theorem plt_calls_reach_symbols_witness:
  "\<exists>sizes ress offsets' w w'. allocate_all (DynamicExecutable Relocatable) False example_symbols (replicate 38 0) = Some sizes \<and>
    create_all example_symbols example_offsets = Some (ress, offsets') \<and>
    new_table_writer (DynamicExecutable Relocatable) (0x403000, 0x403100) False sizes = Some w \<and>
    process_all (elf_arch Arch_AArch64 (\<lambda>_. 0) (\<lambda>_ _. 0)) (Some 0x403100) ress w = ok w' \<and>
    list_all (\<lambda>res. stub_filled Arch_AArch64 0x402000 (capacity w') res w' \<and>
      slot_filled (capacity w') (elf_arch Arch_AArch64 (\<lambda>_. 0) (\<lambda>_ _. 0)) 0x404000 res w') ress"
  using plt_calls_reach_symbols [OF example_consistent, of example_offsets Arch_AArch64 False "\<lambda>_. 0" "\<lambda>_ _. 0" "0x403100"]
    example_sizes example_reachable by simp

text \<open>
  (C2) The layout and the writer agree on the entries of the tables. For any list of symbols with
  consistent flags: the sizes are allocated, addresses are assigned, tables of the allocated sizes
  are made, and writing all symbols succeeds and uses up all of the GOT, the PLT and the four
  kinds of dynamic relocations, with nothing left over and without an entry missing. The addresses
  given out end where the allocated space ends.
\<close>

theorem tables_used_up:
  assumes consistent: "list_all (symbol_consistent kind tls) syms" and few: "length syms < 2 ^ 32"
    and offsets: "29 \<le> length offsets" "0 < offsets ! 5" "offsets ! 5 mod 2 = 0" "0 < offsets ! 6"
      "unat (offsets ! 5) < 2 ^ 63" "unat (offsets ! 6) < 2 ^ 63"
    and plt: "\<And>ress offsets'. create_all syms offsets = Some (ress, offsets') \<Longrightarrow> list_all (plt_encodable A) ress"
  shows "\<exists>sizes ress offsets' w w'. allocate_all kind relr syms (replicate 38 0) = Some sizes \<and>
    create_all syms offsets = Some (ress, offsets') \<and> new_table_writer kind tls relr sizes = Some w \<and>
    process_all A (Some tp) ress w = ok w' \<and> validate_empty w' = ok () \<and>
    tb_remaining (tw_plt_got w') = 0 \<and> tb_remaining (tw_rela_plt w') = 0 \<and>
    offsets' ! 5 = offsets ! 5 + sizes ! 5 \<and> offsets' ! 6 = offsets ! 6 + sizes ! 6"
proof -
  obtain ress w w' b where g:
    "allocate_all kind relr syms (replicate 38 0) = Some (add_amounts (total_count kind relr syms) (replicate 38 0))"
    "create_all syms offsets = Some (ress, add_amounts (address_count (total_count kind relr syms)) offsets)"
    "new_table_writer kind tls relr (add_amounts (total_count kind relr syms) (replicate 38 0)) = Some w"
    "process_all A (Some tp) ress w = ok w'" "\<forall>t. taken w' t = capacity w' t"
    by (rule group_written [OF consistent few offsets plt])
  show ?thesis
    using g(1-4) validate_empty_iff [OF g(5)] offsets(1)
    by (simp add: add_amounts_got add_amounts_plt address_count_def del: replicate.simps)
qed

theorem tables_used_up_witness:
  "\<exists>sizes ress offsets' w w'. allocate_all (DynamicExecutable Relocatable) True example_symbols (replicate 38 0) = Some sizes \<and>
    create_all example_symbols example_offsets = Some (ress, offsets') \<and>
    new_table_writer (DynamicExecutable Relocatable) (0x403000, 0x403100) True sizes = Some w \<and>
    process_all (ElfX86_64 (\<lambda>_. 0) (\<lambda>_ _. 0)) (Some 0x403100) ress w = ok w' \<and> validate_empty w' = ok () \<and>
    tb_remaining (tw_plt_got w') = 0 \<and> tb_remaining (tw_rela_plt w') = 0 \<and>
    offsets' ! 5 = 0x404000 + sizes ! 5 \<and> offsets' ! 6 = 0x402000 + sizes ! 6"
proof -
  have "list_all (plt_encodable (elf_arch Arch_X86_64 (\<lambda>_. 0) (\<lambda>_ _. 0))) ress"
    if "create_all example_symbols example_offsets = Some (ress, offsets')" for ress offsets'
    using example_reachable [OF that] reachable_encodable by (fastforce simp: list_all_iff)
  then have "list_all (plt_encodable (ElfX86_64 (\<lambda>_. 0) (\<lambda>_ _. 0))) ress"
    if "create_all example_symbols example_offsets = Some (ress, offsets')" for ress offsets'
    using that by (simp add: elf_arch_def)
  then show ?thesis
    using example_sizes tables_used_up [OF example_consistent, of example_offsets "ElfX86_64 (\<lambda>_. 0) (\<lambda>_ _. 0)" True "0x403100"] by simp
qed

end
