(* ===== verification/Apply_Reloc.thy ===== *)
theory Apply_Reloc
  imports Resolution Write_Reloc Relaxation
begin

text \<open>
  Model of the application of relocations in \<open>libwild/src/elf_writer.rs\<close>: \<open>apply_relocation\<close> with what
  it calls, the loop over the relocations of a section, and the variant for debug sections.

  The functions are generic over the architecture; what they ask of it beyond \<open>Arch\<close> is the record
  \<open>RelocArch\<close>. What they look up in the layout is the record \<open>ElfLayout\<close>: the symbols and sections of the
  object that is written, the resolutions of all symbols, and a few addresses. The symbol table of the
  object file (\<open>object\<close> crate) and the merged strings are functions in it. Section flags are reduced to the
  questions that are asked.
\<close>

section \<open>Context\<close>

record Relocation =
  rel_offset :: u64
  rel_raw_type :: u32
  rel_symbol :: "nat option"
  rel_addend :: i64

record SectionFlags =
  sf_is_alloc :: bool
  sf_is_executable :: bool

record ApplySection =
  as_section_address :: u64
  as_is_writable :: bool
  as_section_flags :: SectionFlags

text \<open>A relaxation, as the trait \<open>Relaxation\<close> of \<open>platform.rs\<close> shows it.\<close>

record RelaxationOps =
  rx_apply :: "bytes \<Rightarrow> u64 \<Rightarrow> i64 \<Rightarrow> (bytes \<times> u64 \<times> i64) option"
  rx_rel_info :: RelocationKindInfo
  rx_next_modifier :: RelocationModifier
  rx_is_mandatory :: bool

text \<open>For \<open>new_relaxation\<close> the outer \<^const>\<open>None\<close> is a panic.\<close>

record RelocArch =
  ra_arch :: Arch
  ra_relocation_from_raw :: "u32 \<Rightarrow> RelocationKindInfo option"
  ra_new_relaxation :: "u32 \<Rightarrow> bytes \<Rightarrow> u64 \<Rightarrow> ValueFlags \<Rightarrow> OutputKind \<Rightarrow> SectionFlags \<Rightarrow> bool \<Rightarrow>
    SectionDeltas option \<Rightarrow> RelaxationOps option option"
  ra_high_part_relocations :: "u32 list"
  ra_fill_nop_padding :: "bytes \<Rightarrow> nat \<Rightarrow> nat \<Rightarrow> bytes option"
  ra_uleb :: "u64 \<Rightarrow> bytes"

text \<open>\<open>SectionSlot\<close> of \<open>resolution.rs\<close>, without what the slots hold.\<close>

datatype SectionSlot =
    Discard
  | Unloaded
  | MustLoad
  | Loaded
  | FrameData
  | MergeStrings
  | UnloadedDebugInfo
  | LoadedDebugInfo
  | NoteGnuProperty
  | RiscvVAttributes

record ElfLayout =
  el_output_kind :: OutputKind
  el_relax :: bool
  el_definition :: "nat \<Rightarrow> nat"
  el_resolutions :: "Resolution option list"
  el_flags_for_symbol :: "nat \<Rightarrow> ValueFlags"
  el_symbol_id_start :: nat
  el_symbol :: "nat \<Rightarrow> (nat option \<times> u64) write_result"
  el_sections :: "SectionSlot list"
  el_section_resolutions :: "u64 list"
  el_section_relax_deltas :: "nat \<Rightarrow> SectionDeltas option"
  el_merged_string_output_address :: "nat \<Rightarrow> i64 \<Rightarrow> u64 option write_result"
  el_got_base :: u64
  el_tls_start_address :: u64
  el_tls_end_address :: u64
  el_tp_offset_start :: u64
  el_tlsld_got_entry :: "u64 option"

section \<open>Resolutions\<close>

text \<open>\<open>SectionResolution::address\<close>.\<close>

definition section_resolution_address :: "u64 \<Rightarrow> u64 option" where
  "section_resolution_address a = (if a = - 1 then None else Some a)"

definition merged_symbol_resolution :: "ElfLayout \<Rightarrow> nat \<Rightarrow> Resolution option option" where
  "merged_symbol_resolution L symbol_id =
     map_option (map_option (\<lambda>res. res\<lparr>rs_flags := merge_flags (rs_flags res) (el_flags_for_symbol L symbol_id)\<rparr>))
       (get (el_resolutions L) (el_definition L symbol_id))"

definition section_resolution :: "ElfLayout \<Rightarrow> nat option \<Rightarrow> u64 \<Rightarrow> Resolution option option" where
  "section_resolution L section_index symbol_value =
     (case section_index of
        None \<Rightarrow> Some None
      | Some s \<Rightarrow> map_option (\<lambda>a. map_option (\<lambda>section_address.
            \<lparr>rs_raw_value = section_address + opt_input_to_output (el_section_relax_deltas L s) symbol_value,
             rs_dynamic_symbol_index = None, rs_got_address = None, rs_plt_address = None, rs_flags = 0\<rparr>)
          (section_resolution_address a)) (get (el_section_resolutions L) s))"

definition find_resolution :: "ElfLayout \<Rightarrow> nat \<Rightarrow> nat option \<Rightarrow> u64 \<Rightarrow> Resolution option option" where
  "find_resolution L local_symbol_id section_index symbol_value =
     (case merged_symbol_resolution L local_symbol_id of
        None \<Rightarrow> None
      | Some (Some res) \<Rightarrow> Some (Some res)
      | Some None \<Rightarrow> section_resolution L section_index symbol_value)"

definition get_resolution :: "ElfLayout \<Rightarrow> Relocation \<Rightarrow> (Resolution \<times> nat \<times> nat) write_result" where
  "get_resolution L rel =
     rbind (or_error Unsupported_Absolute_Relocation (rel_symbol rel)) (\<lambda>symbol_index.
       let local_symbol_id = el_symbol_id_start L + symbol_index in
       rbind (el_symbol L symbol_index) (\<lambda>(section_index, symbol_value).
         case find_resolution L local_symbol_id section_index symbol_value of
           None \<Rightarrow> None
         | Some res \<Rightarrow> rbind (or_error (Missing_Resolution local_symbol_id) res) (\<lambda>res.
             ok (res, symbol_index, local_symbol_id))))"

definition value_with_addend :: "ElfLayout \<Rightarrow> Resolution \<Rightarrow> i64 \<Rightarrow> nat \<Rightarrow> u64 write_result" where
  "value_with_addend L res addend symbol_index =
     (if is_ifunc (rs_flags res) then rbind (plt_address res) (\<lambda>p. ok (p + addend))
      else if rs_raw_value res = 0 then
        rbind (el_merged_string_output_address L symbol_index addend) (\<lambda>r.
          case r of Some a \<Rightarrow> ok a | None \<Rightarrow> ok (rs_raw_value res + addend))
      else ok (rs_raw_value res + addend))"

section \<open>The value of a relocation\<close>

definition write_ifunc_relocation_for_data :: "Arch \<Rightarrow> u64 \<Rightarrow> i64 \<Rightarrow> TableWriter \<Rightarrow> TableWriter write_result" where
  "write_ifunc_relocation_for_data A p resolver_address =
     write_rela_dyn_general A p 0 (get_dynamic_relocation_type A Irelative) resolver_address"

definition write_absolute_relocation ::
    "Arch \<Rightarrow> ElfLayout \<Rightarrow> ApplySection \<Rightarrow> Resolution \<Rightarrow> nat \<Rightarrow> u64 \<Rightarrow> i64 \<Rightarrow> TableWriter \<Rightarrow> (u64 \<times> TableWriter) write_result" where
  "write_absolute_relocation A L sec res symbol_index p addend w =
     (let flags = rs_flags res; v = value_with_addend L res addend symbol_index in
      if \<not> sf_is_alloc (as_section_flags sec) then rbind v (\<lambda>v. ok (v, w))
      else if is_dynamic flags \<and> is_absolute flags \<and> \<not> as_is_writable sec then ok (0, w)
      else if is_interposable flags \<and> as_is_writable sec then
        rbind (dynamic_symbol_index res) (\<lambda>d.
          rbind (write_dynamic_symbol_relocation A p addend d DynamicRelocationKind.Absolute w) (\<lambda>w. ok (0, w)))
      else if is_ifunc flags \<and> as_is_writable sec \<and> is_relocatable (tw_output_kind w) then
        rbind (write_ifunc_relocation_for_data A p (rs_raw_value res + addend) w) (\<lambda>w. ok (0, w))
      else if is_relocatable (tw_output_kind w) \<and> \<not> is_absolute flags then
        rbind v (\<lambda>address. write_address_relocation A p address w)
      else rbind v (\<lambda>v. ok (v, w)))"

text \<open>
  The relocations of the section seen so far that low parts and pairs refer to, and the search for a
  high part among the relocations that follow.
\<close>

record RelocationCache =
  rc_high_part_symbols :: "u64 \<rightharpoonup> Relocation"
  rc_previous :: "Relocation option"

fun find_high_part :: "RelocArch \<Rightarrow> SectionDeltas option \<Rightarrow> u64 \<Rightarrow> Relocation option list \<Rightarrow> Relocation option" where
  "find_high_part A relax_deltas hi_offset [] = None"
| "find_high_part A relax_deltas hi_offset (r # rest) =
     (case r of
        Some r \<Rightarrow>
          if rel_raw_type r \<in> set (ra_high_part_relocations A) \<and> opt_input_to_output relax_deltas (rel_offset r) = hi_offset
          then Some r else find_high_part A relax_deltas hi_offset rest
      | None \<Rightarrow> find_high_part A relax_deltas hi_offset rest)"

definition low_part_value ::
    "RelocArch \<Rightarrow> ElfLayout \<Rightarrow> ApplySection \<Rightarrow> Resolution \<Rightarrow> nat \<Rightarrow> i64 \<Rightarrow> u64 \<Rightarrow> RelocationCache \<Rightarrow> Relocation option list \<Rightarrow>
      SectionDeltas option \<Rightarrow> u64 write_result" where
  "low_part_value A L sec res symbol_index addend bias cache rest relax_deltas =
     (if addend \<noteq> 0 then fail Unexpected_Low_Part_Addend
      else rbind (value_with_addend L res addend symbol_index) (\<lambda>v.
        let hi_offset = v - as_section_address sec in
        rbind (or_error Missing_High_Part
            (case rc_high_part_symbols cache hi_offset of
               Some r \<Rightarrow> Some r | None \<Rightarrow> find_high_part A relax_deltas hi_offset rest)) (\<lambda>hi_rel.
          rbind (or_error (Unsupported_Relocation_Type (rel_raw_type hi_rel)) (ra_relocation_from_raw A (rel_raw_type hi_rel))) (\<lambda>hi_info.
            let hi_addend = rel_addend hi_rel in
            rbind (get_resolution L hi_rel) (\<lambda>(hi_res, hi_symbol, _).
              let p = as_section_address sec + hi_offset in
              case rel_kind hi_info of
                RelocationKind.Relative \<Rightarrow> rbind (value_with_addend L hi_res hi_addend hi_symbol) (\<lambda>v. ok (v + bias - p))
              | GotRelative \<Rightarrow> rbind (got_address_for_relocation hi_res) (\<lambda>v. ok (v + hi_addend + bias - p))
              | TlsGd \<Rightarrow> rbind (tlsgd_got_address hi_res) (\<lambda>v. ok (v + hi_addend + bias - p))
              | TlsLd \<Rightarrow> map_option (\<lambda>v. Inr (v + hi_addend + bias - p)) (el_tlsld_got_entry L)
              | GotTpOff \<Rightarrow> rbind (got_address hi_res) (\<lambda>v. ok (v + hi_addend + bias - p))
              | _ \<Rightarrow> fail Unsupported_High_Part)))))"

definition get_pair_subtraction_relocation_value ::
    "ElfLayout \<Rightarrow> Relocation \<Rightarrow> Resolution \<Rightarrow> nat \<Rightarrow> i64 \<Rightarrow> Relocation \<Rightarrow> u32 \<Rightarrow> u64 write_result" where
  "get_pair_subtraction_relocation_value L rel res symbol_index addend set_rel expected_r_type =
     (if rel_offset set_rel \<noteq> rel_offset rel then fail Pair_Offset_Mismatch
      else if rel_raw_type set_rel \<noteq> expected_r_type then fail (Unexpected_Previous_Relocation (rel_raw_type set_rel))
      else rbind (get_resolution L set_rel) (\<lambda>(set_res, set_symbol, _).
        rbind (value_with_addend L set_res (rel_addend set_rel) set_symbol) (\<lambda>set_v.
          rbind (value_with_addend L res addend symbol_index) (\<lambda>sub_v. ok (set_v - sub_v)))))"

text \<open>The kinds that do not touch the tables.\<close>

definition table_free_value ::
    "ElfLayout \<Rightarrow> RelocationKindInfo \<Rightarrow> Resolution \<Rightarrow> nat \<Rightarrow> u64 \<Rightarrow> i64 \<Rightarrow> u64 write_result" where
  "table_free_value L info res symbol_index p addend =
     (let m = get_page_mask (rel_mask info); bias = rel_bias info; v = value_with_addend L res addend symbol_index;
          tlsld = (case el_tlsld_got_entry L of None \<Rightarrow> None | Some a \<Rightarrow> ok a) in
      case rel_kind info of
        AbsoluteSet \<Rightarrow> v
      | AbsoluteSetWord6 \<Rightarrow> v
      | AbsoluteAddition \<Rightarrow> v
      | AbsoluteAdditionWord6 \<Rightarrow> v
      | AbsoluteSubtraction \<Rightarrow> v
      | AbsoluteSubtractionWord6 \<Rightarrow> v
      | AbsoluteLowPart \<Rightarrow> rbind v (\<lambda>v. ok (v AND symbol_plus_addend m))
      | RelocationKind.Relative \<Rightarrow> rbind v (\<lambda>v. ok (((v + bias) AND symbol_plus_addend m) - (p AND place m)))
      | RelativeLoongArchHigh \<Rightarrow> rbind v (\<lambda>v. ok (highest_relocation_with_bias v p))
      | GotRelative \<Rightarrow> rbind (got_address_for_relocation res) (\<lambda>v. ok (((v + bias + addend) AND got_entry m) - (p AND place m)))
      | GotRelativeLoongArch64 \<Rightarrow> rbind (got_address_for_relocation res) (\<lambda>v. ok (highest_relocation_with_bias (v + addend) p))
      | GotRelGotBase \<Rightarrow> rbind (got_address_for_relocation res) (\<lambda>v.
          ok (((v + addend + bias) AND got_entry m) - (el_got_base L AND got m)))
      | Got \<Rightarrow> rbind (if needs_got_tls_module (rs_flags res) then tlsgd_got_address res else got_address_for_relocation res) (\<lambda>v.
          ok ((v + bias) AND got_entry m))
      | SymRelGotBase \<Rightarrow> rbind v (\<lambda>v. ok (((v + bias) AND symbol_plus_addend m) - (el_got_base L AND got m)))
      | PltRelGotBase \<Rightarrow> rbind (plt_address res) (\<lambda>v. ok (v + bias - (el_got_base L AND got m)))
      | PltRelative \<Rightarrow> rbind (plt_address res) (\<lambda>v. ok (v + addend + bias - (p AND place m)))
      | TlsGd \<Rightarrow> rbind (tlsgd_got_address res) (\<lambda>v. ok (((v + addend + bias) AND got_entry m) - (p AND place m)))
      | TlsGdGot \<Rightarrow> rbind (tlsgd_got_address res) (\<lambda>v. ok ((v + addend + bias) AND got_entry m))
      | TlsGdGotBase \<Rightarrow> rbind (tlsgd_got_address res) (\<lambda>v. ok (((v + addend + bias) AND got_entry m) - (el_got_base L AND got m)))
      | TlsLd \<Rightarrow> rbind tlsld (\<lambda>v. ok (((v + addend + bias) AND got_entry m) - (p AND place m)))
      | TlsLdGot \<Rightarrow> rbind tlsld (\<lambda>v. ok ((v + addend + bias) AND got_entry m))
      | TlsLdGotBase \<Rightarrow> rbind tlsld (\<lambda>v. ok (((v + addend + bias) AND got_entry m) - (el_got_base L AND got m)))
      | RelocationKind.DtpOff \<Rightarrow>
          if el_output_kind L = SharedObject then ok (rs_raw_value res + addend + bias - el_tls_start_address L)
          else ok (rs_raw_value res + addend + bias - el_tls_end_address L)
      | GotTpOff \<Rightarrow> rbind (got_address res) (\<lambda>v. ok (((v + addend + bias) AND got_entry m) - (p AND place m)))
      | GotTpOffLoongArch64 \<Rightarrow> rbind (got_address res) (\<lambda>v. ok (highest_relocation_with_bias (v + addend) p))
      | GotTpOffGot \<Rightarrow> rbind (got_address res) (\<lambda>v. ok ((v + addend + bias) AND got_entry m))
      | GotTpOffGotBase \<Rightarrow> rbind (got_address res) (\<lambda>v. ok (((v + addend + bias) AND got_entry m) - (el_got_base L AND got m)))
      | RelocationKind.TpOff \<Rightarrow> ok (rs_raw_value res + addend + bias - el_tp_offset_start L)
      | RelocationKind.TlsDesc \<Rightarrow> rbind (tls_descriptor_got_address res) (\<lambda>v.
          ok (((v + addend + bias) AND got_entry m) - (p AND place m)))
      | TlsDescLoongArch64 \<Rightarrow> rbind (tls_descriptor_got_address res) (\<lambda>v. ok (highest_relocation_with_bias (v + addend) p))
      | TlsDescGot \<Rightarrow> rbind (tls_descriptor_got_address res) (\<lambda>v. ok ((v + addend + bias) AND got_entry m))
      | TlsDescGotBase \<Rightarrow> rbind (tls_descriptor_got_address res) (\<lambda>v.
          ok (((v + addend + bias) AND got_entry m) - (el_got_base L AND got m)))
      | TlsDescCall \<Rightarrow> ok 0
      | None_kind \<Rightarrow> ok 0
      | _ \<Rightarrow> None)"

definition relocation_value ::
    "RelocArch \<Rightarrow> ElfLayout \<Rightarrow> ApplySection \<Rightarrow> RelocationKindInfo \<Rightarrow> Relocation \<Rightarrow> Resolution \<Rightarrow> nat \<Rightarrow> u64 \<Rightarrow> i64 \<Rightarrow>
      RelocationCache \<Rightarrow> Relocation option list \<Rightarrow> SectionDeltas option \<Rightarrow> TableWriter \<Rightarrow> (u64 \<times> TableWriter) write_result" where
  "relocation_value A L sec info rel res symbol_index p addend cache rest relax_deltas w =
     (case rel_kind info of
        RelocationKind.Absolute \<Rightarrow> write_absolute_relocation (ra_arch A) L sec res symbol_index p addend w
      | RelativeRiscVLow12 \<Rightarrow>
          rbind (low_part_value A L sec res symbol_index addend (rel_bias info) cache rest relax_deltas) (\<lambda>v. ok (v, w))
      | PairSubtractionULEB128 expected_r_type \<Rightarrow>
          rbind (or_error Missing_Previous_Relocation (rc_previous cache)) (\<lambda>set_rel.
            rbind (get_pair_subtraction_relocation_value L rel res symbol_index addend set_rel expected_r_type) (\<lambda>v. ok (v, w)))
      | _ \<Rightarrow> rbind (table_free_value L info res symbol_index p addend) (\<lambda>v. ok (v, w)))"

section \<open>Applying\<close>

definition LOW6_MASK :: u64 where "LOW6_MASK = 0x3f"

definition adjust_relocation_based_on_value :: "u64 \<Rightarrow> RelocationKindInfo \<Rightarrow> bytes \<Rightarrow> nat \<Rightarrow> u64 write_result" where
  "adjust_relocation_based_on_value v info out offset =
     (case rel_size info of
        ByteSize n \<Rightarrow>
          if 8 < n then None
          else (case get_range out offset (offset + n) of
            None \<Rightarrow> None
          | Some bs \<Rightarrow>
              let current = from_le_bytes bs :: u64 in
              (case rel_kind info of
                 AbsoluteSetWord6 \<Rightarrow> ok ((v AND LOW6_MASK) OR (current AND NOT LOW6_MASK))
               | AbsoluteAddition \<Rightarrow> ok (current + v)
               | AbsoluteAdditionWord6 \<Rightarrow>
                   ok ((((current AND LOW6_MASK) + (v AND LOW6_MASK)) AND LOW6_MASK) OR (current AND NOT LOW6_MASK))
               | AbsoluteSubtraction \<Rightarrow> ok (current - v)
               | AbsoluteSubtractionWord6 \<Rightarrow>
                   ok ((((current AND LOW6_MASK) - (v AND LOW6_MASK)) AND LOW6_MASK) OR (current AND NOT LOW6_MASK))
               | _ \<Rightarrow> fail Unexpected_Relocation))
      | BitMasking _ \<Rightarrow> fail Unexpected_Size)"

text \<open>\<open>write_relocation_to_buffer(rel_info, value, &mut out[offset..])\<close>.\<close>

definition write_at :: "RelocArch \<Rightarrow> RelocationKindInfo \<Rightarrow> u64 \<Rightarrow> bytes \<Rightarrow> nat \<Rightarrow> bytes write_result" where
  "write_at A info v out offset =
     (if length out < offset then None
      else case write_relocation_to_buffer (ra_uleb A) info v (drop offset out) of
        None \<Rightarrow> None
      | Some (Inl e) \<Rightarrow> fail (Cannot_Apply e)
      | Some (Inr bs) \<Rightarrow> ok (take offset out @ bs))"

definition adjusted_kind :: "RelocationKind \<Rightarrow> bool" where
  "adjusted_kind k \<longleftrightarrow>
     k \<in> {AbsoluteAddition, AbsoluteAdditionWord6, AbsoluteSubtraction, AbsoluteSetWord6, AbsoluteSubtractionWord6}"

definition finish_relocation ::
    "RelocArch \<Rightarrow> ElfLayout \<Rightarrow> ApplySection \<Rightarrow> RelocationKindInfo \<Rightarrow> Relocation \<Rightarrow> Resolution \<Rightarrow> nat \<Rightarrow> u64 \<Rightarrow> i64 \<Rightarrow>
      RelocationCache \<Rightarrow> Relocation option list \<Rightarrow> SectionDeltas option \<Rightarrow> bytes \<Rightarrow> TableWriter \<Rightarrow> (bytes \<times> TableWriter) write_result" where
  "finish_relocation A L sec info rel res symbol_index offset addend cache rest relax_deltas out w =
     rbind (relocation_value A L sec info rel res symbol_index (as_section_address sec + offset) addend cache rest relax_deltas w) (\<lambda>(v, w).
       rbind (if adjusted_kind (rel_kind info) then adjust_relocation_based_on_value v info out (unat offset) else ok v) (\<lambda>v.
         rbind (write_at A info v out (unat offset)) (\<lambda>out. ok (out, w))))"

definition chosen_relaxation ::
    "RelocArch \<Rightarrow> ElfLayout \<Rightarrow> ApplySection \<Rightarrow> Relocation \<Rightarrow> Resolution \<Rightarrow> nat \<Rightarrow> u64 \<Rightarrow> SectionDeltas option \<Rightarrow> bytes \<Rightarrow>
      RelaxationOps option option" where
  "chosen_relaxation A L sec rel res local_symbol_id offset relax_deltas out =
     (case ra_new_relaxation A (rel_raw_type rel) out offset (el_flags_for_symbol L local_symbol_id) (el_output_kind L)
         (as_section_flags sec) (rs_raw_value res \<noteq> 0) relax_deltas of
        None \<Rightarrow> None
      | Some None \<Rightarrow> Some None
      | Some (Some x) \<Rightarrow> Some (if el_relax L \<or> rx_is_mandatory x then Some x else None))"

definition apply_relocation ::
    "RelocArch \<Rightarrow> ElfLayout \<Rightarrow> ApplySection \<Rightarrow> u64 \<Rightarrow> Relocation \<Rightarrow> RelocationCache \<Rightarrow> Relocation option list \<Rightarrow>
      SectionDeltas option \<Rightarrow> bytes \<Rightarrow> TableWriter \<Rightarrow> (RelocationModifier \<times> bytes \<times> TableWriter) write_result" where
  "apply_relocation A L sec offset rel cache rest relax_deltas out w =
     rbind (or_error (Unsupported_Relocation_Type (rel_raw_type rel)) (ra_relocation_from_raw A (rel_raw_type rel))) (\<lambda>info.
       if rel_kind info = None_kind then ok (Normal, out, w)
       else if rel_kind info = Alignment_kind then
         (let addend = rel_addend rel;
              removed = (case relax_deltas of None \<Rightarrow> 0 | Some d \<Rightarrow> scast (delta_at d (rel_offset rel)));
              padding = unat addend - unat (removed :: u64) in
          case ra_fill_nop_padding A out (unat offset) padding of
            None \<Rightarrow> None
          | Some out \<Rightarrow> ok (Normal, out, w))
       else rbind (get_resolution L rel) (\<lambda>(res, symbol_index, local_symbol_id).
         case chosen_relaxation A L sec rel res local_symbol_id offset relax_deltas out of
           None \<Rightarrow> None
         | Some (Some x) \<Rightarrow>
             (case rx_apply x out offset (rel_addend rel) of
                None \<Rightarrow> None
              | Some (out, offset, addend) \<Rightarrow>
                  rbind (finish_relocation A L sec (rx_rel_info x) rel res symbol_index offset addend cache rest relax_deltas out w)
                    (\<lambda>(out, w). ok (rx_next_modifier x, out, w)))
         | Some None \<Rightarrow>
             rbind (finish_relocation A L sec info rel res symbol_index offset (rel_addend rel) cache rest relax_deltas out w)
               (\<lambda>(out, w). ok (Normal, out, w))))"

text \<open>
  The loop of \<open>apply_relocations\<close>, with the cursor if there are relaxation deltas. It notes each high part
  under its offset in the output, and the previous relocation.
\<close>

definition note_high_part :: "RelocArch \<Rightarrow> SectionDeltas option \<Rightarrow> Relocation \<Rightarrow> RelocationCache \<Rightarrow> RelocationCache" where
  "note_high_part A relax_deltas rel cache =
     (if rel_raw_type rel \<in> set (ra_high_part_relocations A)
      then cache\<lparr>rc_high_part_symbols := (rc_high_part_symbols cache)(opt_input_to_output relax_deltas (rel_offset rel) \<mapsto> rel)\<rparr>
      else cache)"

fun apply_relocations_loop ::
    "RelocArch \<Rightarrow> ElfLayout \<Rightarrow> ApplySection \<Rightarrow> SectionDeltas option \<Rightarrow> Relocation option list \<Rightarrow> RelocationModifier \<Rightarrow>
      RelocationCache \<Rightarrow> RelaxCursor option \<Rightarrow> bytes \<Rightarrow> TableWriter \<Rightarrow> (bytes \<times> TableWriter) write_result" where
  "apply_relocations_loop A L sec relax_deltas [] modifier cache cur out w = ok (out, w)"
| "apply_relocations_loop A L sec relax_deltas (None # rels) modifier cache cur out w = fail Parse_Error"
| "apply_relocations_loop A L sec relax_deltas (Some rel # rels) modifier cache cur out w =
     (let cache = note_high_part A relax_deltas rel cache in
      if modifier = SkipNextRelocation
      then apply_relocations_loop A L sec relax_deltas rels Normal (cache\<lparr>rc_previous := Some rel\<rparr>) cur out w
      else (let (offset, cur) =
              (case cur of None \<Rightarrow> (rel_offset rel, None) | Some c \<Rightarrow> (case translate c (rel_offset rel) of (v, c) \<Rightarrow> (v, Some c))) in
        rbind (apply_relocation A L sec offset rel cache rels relax_deltas out w) (\<lambda>(modifier, out, w).
          apply_relocations_loop A L sec relax_deltas rels modifier (cache\<lparr>rc_previous := Some rel\<rparr>) cur out w)))"

definition empty_cache :: RelocationCache where
  "empty_cache = \<lparr>rc_high_part_symbols = Map.empty, rc_previous = None\<rparr>"

definition apply_relocations ::
    "RelocArch \<Rightarrow> ElfLayout \<Rightarrow> nat \<Rightarrow> bool \<Rightarrow> SectionFlags \<Rightarrow> Relocation option list \<Rightarrow> bytes \<Rightarrow> TableWriter \<Rightarrow>
      (bytes \<times> TableWriter) write_result" where
  "apply_relocations A L section_index is_writable section_flags rels out w =
     (case get (el_section_resolutions L) section_index of
        None \<Rightarrow> None
      | Some a \<Rightarrow> rbind (or_error Section_Not_Loaded (section_resolution_address a)) (\<lambda>section_address.
          let deltas = el_section_relax_deltas L section_index in
          apply_relocations_loop A L
            \<lparr>as_section_address = section_address, as_is_writable = is_writable, as_section_flags = section_flags\<rparr>
            deltas rels Normal empty_cache (map_option cursor deltas) out w))"

section \<open>Debug sections\<close>

definition debug_relocation_value ::
    "RelocArch \<Rightarrow> ElfLayout \<Rightarrow> u64 \<Rightarrow> Relocation \<Rightarrow> RelocationKindInfo \<Rightarrow> Resolution \<Rightarrow> nat \<Rightarrow> RelocationCache \<Rightarrow> bytes \<Rightarrow>
      u64 write_result" where
  "debug_relocation_value A L offset rel info res symbol_index cache out =
     (let addend = rel_addend rel; kind = rel_kind info in
      case kind of
        PairSubtractionULEB128 expected_r_type \<Rightarrow>
          rbind (or_error Missing_Previous_Relocation (rc_previous cache)) (\<lambda>set_rel.
            get_pair_subtraction_relocation_value L rel res symbol_index addend set_rel expected_r_type)
      | RelocationKind.DtpOff \<Rightarrow> ok (rs_raw_value res - el_tls_end_address L + addend)
      | _ \<Rightarrow>
          if kind \<in> {RelocationKind.Absolute, AbsoluteSet, AbsoluteSetWord6, AbsoluteAddition, AbsoluteAdditionWord6,
            AbsoluteSubtraction, AbsoluteSubtractionWord6}
          then rbind (value_with_addend L res addend symbol_index) (\<lambda>v.
            if kind \<in> {AbsoluteAddition, AbsoluteSubtraction, AbsoluteSetWord6, AbsoluteSubtractionWord6}
            then adjust_relocation_based_on_value v info out (unat offset) else ok v)
          else if kind = RelocationKind.Relative \<and> rel_size info = ByteSize 0 then ok 0
          else fail Unsupported_Debug_Relocation)"

definition apply_debug_relocation ::
    "RelocArch \<Rightarrow> ElfLayout \<Rightarrow> u64 \<Rightarrow> Relocation \<Rightarrow> u64 \<Rightarrow> RelocationCache \<Rightarrow> bytes \<Rightarrow> bytes write_result" where
  "apply_debug_relocation A L offset rel tombstone cache out =
     rbind (or_error Unsupported_Absolute_Relocation (rel_symbol rel)) (\<lambda>symbol_index.
       rbind (el_symbol L symbol_index) (\<lambda>(section_index, symbol_value).
         rbind (or_error (Unsupported_Relocation_Type (rel_raw_type rel)) (ra_relocation_from_raw A (rel_raw_type rel))) (\<lambda>info.
           case find_resolution L (el_symbol_id_start L + symbol_index) section_index symbol_value of
             None \<Rightarrow> None
           | Some resolution \<Rightarrow>
               rbind (case resolution of
                   Some res \<Rightarrow> debug_relocation_value A L offset rel info res symbol_index cache out
                 | None \<Rightarrow> (case section_index of
                     None \<Rightarrow> ok tombstone
                   | Some s \<Rightarrow> (case get (el_sections L) s of
                       None \<Rightarrow> None
                     | Some slot \<Rightarrow>
                         if slot = MergeStrings then
                           rbind (el_merged_string_output_address L symbol_index (rel_addend rel)) (or_error Missing_Merged_String)
                         else if slot = Discard \<or> slot = Unloaded then ok tombstone
                         else fail Unsupported_Debug_Relocation)))
                 (\<lambda>v. write_at A info v out (unat offset)))))"

definition tombstone_value :: "bool \<Rightarrow> u64" where
  "tombstone_value is_loc_or_ranges = (if is_loc_or_ranges then 1 else 0)"

fun apply_debug_relocations_loop ::
    "RelocArch \<Rightarrow> ElfLayout \<Rightarrow> u64 \<Rightarrow> Relocation option list \<Rightarrow> RelocationCache \<Rightarrow> bytes \<Rightarrow> bytes write_result" where
  "apply_debug_relocations_loop A L tombstone [] cache out = ok out"
| "apply_debug_relocations_loop A L tombstone (None # rels) cache out = fail Parse_Error"
| "apply_debug_relocations_loop A L tombstone (Some rel # rels) cache out =
     rbind (apply_debug_relocation A L (rel_offset rel) rel tombstone cache out) (\<lambda>out.
       apply_debug_relocations_loop A L tombstone rels (cache\<lparr>rc_previous := Some rel\<rparr>) out)"

end
