(* ===== verification/Process_Reloc.thy ===== *)
theory Process_Reloc
  imports Resolution_Alloc Resolution_Slots Apply_Reloc
begin

text \<open>
  Model of \<open>process_relocation\<close> and \<open>load_section_relocations\<close> of \<open>libwild/src/elf.rs\<close>: the scan over the
  relocations of a section that is loaded. It decides, relocation by relocation, what the symbol needs
  (a GOT entry, a PLT entry, a copy relocation) and counts the dynamic relocations that applying the
  relocation will write. The flags of the symbols are shared between threads; here they are updated
  in one sequence, and \<open>Value_Flags\<close> shows what happens when updates interleave. What the scan asks of the
  rest of the layout is the record \<open>ScanContext\<close>; the report of undefined symbols is a function in it.

  The theorems: the flags stay consistent, and what the scan requested is what applying the relocation uses.
\<close>

section \<open>The scan\<close>

record ScanContext =
  sc_output_kind :: OutputKind
  sc_should_relax :: bool
  sc_is_relr_enabled :: bool
  sc_copy_relocations_enabled :: bool
  sc_symbol_id_start :: nat
  sc_definition :: "nat \<Rightarrow> nat"
  sc_check_for_undefined :: "nat \<Rightarrow> ValueFlags \<Rightarrow> nat \<Rightarrow> unit write_result"

record ScanState =
  ss_mem_sizes :: "u64 list"
  ss_has_static_tls :: bool
  ss_uses_tlsld :: bool
  ss_flags :: "ValueFlags list"
  ss_symbol_requests :: "nat list"
  ss_copy_requests :: "nat list"

definition needs_tlsld :: "RelocationKind \<Rightarrow> bool" where
  "needs_tlsld k \<longleftrightarrow> k \<in> {TlsLd, TlsLdGot, TlsLdGotBase}"

definition does_relocation_require_static_tls :: "RelocationKind \<Rightarrow> bool" where
  "does_relocation_require_static_tls k \<longleftrightarrow> relocation_resolution_flags k = VF_GOT_TLS_OFFSET"

text \<open>\<open>common.allocate(part_id, size)\<close>: a panic if there is no such part.\<close>

definition allocate_part :: "PartId \<Rightarrow> u64 \<Rightarrow> ValueFlags \<Rightarrow> u64 list \<Rightarrow> (ValueFlags \<times> u64 list) write_result" where
  "allocate_part part n flags_to_add mem_sizes =
     map_option (\<lambda>sizes. Inr (flags_to_add, sizes)) (part_map_increment mem_sizes part n)"

text \<open>The cases that depend on the kind, the symbol and the section.\<close>

definition relocation_needs ::
    "ScanContext \<Rightarrow> RelocationKind \<Rightarrow> ValueFlags \<Rightarrow> bool \<Rightarrow> bool \<Rightarrow> bool \<Rightarrow> u64 \<Rightarrow> u64 list \<Rightarrow> (ValueFlags \<times> u64 list) write_result" where
  "relocation_needs C kind flags is_alloc section_is_writable is_debug_section offset mem_sizes =
     (let flags_to_add = relocation_resolution_flags kind in
      if \<not> is_alloc then ok (flags_to_add, mem_sizes)
      else if is_tls kind then ok (flags_to_add, mem_sizes)
      else if needs_direct flags_to_add \<and> is_interposable flags then
        (if section_is_writable then allocate_part part_RELA_DYN_GENERAL RELA_ENTRY_SIZE flags_to_add mem_sizes
         else if is_function flags then ok (flags_remove flags_to_add VF_DIRECT OR (VF_PLT OR VF_GOT), mem_sizes)
         else if \<not> is_absolute flags then
           (if sc_copy_relocations_enabled C then ok (flags_to_add OR VF_COPY_RELOCATION, mem_sizes)
            else fail Copy_Relocations_Disabled)
         else ok (flags_to_add, mem_sizes))
      else if is_ifunc flags \<and> kind = RelocationKind.Absolute \<and> section_is_writable \<and> is_relocatable (sc_output_kind C) then
        allocate_part part_RELA_DYN_GENERAL RELA_ENTRY_SIZE flags_to_add mem_sizes
      else if is_relocatable (sc_output_kind C) \<and> kind = RelocationKind.Absolute \<and> is_address flags then
        (if section_is_writable then
           (if sc_is_relr_enabled C \<and> offset mod 2 = 0
            then allocate_part part_RELR_DYN RELR_ENTRY_SIZE flags_to_add mem_sizes
            else allocate_part part_RELA_DYN_RELATIVE RELA_ENTRY_SIZE flags_to_add mem_sizes)
         else if \<not> is_debug_section then fail Relocation_In_Read_Only_Section
         else ok (flags_to_add, mem_sizes))
      else ok (flags_to_add, mem_sizes))"

text \<open>The additions for ifuncs.\<close>

definition add_ifunc_flags :: "OutputKind \<Rightarrow> ValueFlags \<Rightarrow> ValueFlags \<Rightarrow> ValueFlags" where
  "add_ifunc_flags kind flags flags_to_add =
     (let relocation_needs_got = needs_got flags_to_add;
          f1 = (if is_ifunc flags \<and> \<not> is_static_executable kind then flags_to_add OR (VF_GOT OR VF_PLT) else flags_to_add) in
      if is_ifunc flags \<and> relocation_needs_got \<and> \<not> is_relocatable kind then f1 OR VF_IFUNC_GOT_FOR_ADDRESS else f1)"

text \<open>The update of the symbol, and the requests that follow from it.\<close>

definition add_flags :: "OutputKind \<Rightarrow> ValueFlags \<Rightarrow> nat \<Rightarrow> ValueFlags \<Rightarrow> ScanState \<Rightarrow> ScanState option" where
  "add_flags kind flags symbol_id flags_to_add st =
     (case get (ss_flags st) symbol_id of
        None \<Rightarrow> None
      | Some bits \<Rightarrow>
          let (previous_flags, bits1) = fetch_or bits flags_to_add;
              first = \<not> has_resolution previous_flags;
              bits2 = (if first \<and> is_ifunc flags \<and> is_static_executable kind then snd (fetch_or bits1 (VF_GOT OR VF_PLT)) else bits1) in
          Some (st\<lparr>ss_flags := (ss_flags st)[symbol_id := bits2],
            ss_symbol_requests := (if first then ss_symbol_requests st @ [symbol_id] else ss_symbol_requests st),
            ss_copy_requests := (if needs_copy_relocation flags_to_add \<and> \<not> needs_copy_relocation previous_flags
              then ss_copy_requests st @ [symbol_id] else ss_copy_requests st)\<rparr>))"

text \<open>The relocation as it is after relaxation, and what to do with the next one.\<close>

definition scan_rel_info ::
    "RelocArch \<Rightarrow> ScanContext \<Rightarrow> Relocation \<Rightarrow> bytes \<Rightarrow> SectionFlags \<Rightarrow> ValueFlags \<Rightarrow> (RelocationKindInfo \<times> RelocationModifier) write_result" where
  "scan_rel_info A C rel section_data section_flags flags =
     (case ra_new_relaxation A (rel_raw_type rel) section_data (rel_offset rel) flags (sc_output_kind C) section_flags True None of
        None \<Rightarrow> None
      | Some (Some x) \<Rightarrow>
          if sc_should_relax C \<or> rx_is_mandatory x then ok (rx_rel_info x, rx_next_modifier x)
          else rbind (or_error (Unsupported_Relocation_Type (rel_raw_type rel)) (ra_relocation_from_raw A (rel_raw_type rel)))
            (\<lambda>info. ok (info, Normal))
      | Some None \<Rightarrow> rbind (or_error (Unsupported_Relocation_Type (rel_raw_type rel)) (ra_relocation_from_raw A (rel_raw_type rel)))
          (\<lambda>info. ok (info, Normal)))"

definition symbol_flags :: "ScanContext \<Rightarrow> nat \<Rightarrow> ScanState \<Rightarrow> ValueFlags option" where
  "symbol_flags C local_symbol_id st =
     (case (get (ss_flags st) (sc_definition C local_symbol_id), get (ss_flags st) local_symbol_id) of
        (Some f, Some g) \<Rightarrow> Some (merge_flags f g)
      | _ \<Rightarrow> None)"

definition note_tls :: "bool \<Rightarrow> RelocationKind \<Rightarrow> ScanState \<Rightarrow> ScanState" where
  "note_tls is_alloc kind st =
     (if is_alloc \<and> is_tls kind
      then st\<lparr>ss_has_static_tls := (ss_has_static_tls st \<or> does_relocation_require_static_tls kind),
              ss_uses_tlsld := (ss_uses_tlsld st \<or> needs_tlsld kind)\<rparr>
      else st)"

definition process_relocation ::
    "RelocArch \<Rightarrow> ScanContext \<Rightarrow> Relocation \<Rightarrow> bytes \<Rightarrow> SectionFlags \<Rightarrow> bool \<Rightarrow> bool \<Rightarrow> ScanState \<Rightarrow>
      (RelocationModifier \<times> ScanState) write_result" where
  "process_relocation A C rel section_data section_flags section_is_writable is_debug_section st =
     (case rel_symbol rel of
        None \<Rightarrow> ok (Normal, st)
      | Some local_sym_index \<Rightarrow>
          let local_symbol_id = sc_symbol_id_start C + local_sym_index;
              symbol_id = sc_definition C local_symbol_id in
          case symbol_flags C local_symbol_id st of
            None \<Rightarrow> None
          | Some flags \<Rightarrow>
              rbind (scan_rel_info A C rel section_data section_flags flags) (\<lambda>(info, next_modifier).
                rbind (relocation_needs C (rel_kind info) flags (sf_is_alloc section_flags) section_is_writable is_debug_section
                    (rel_offset rel) (ss_mem_sizes st)) (\<lambda>(flags_to_add, mem_sizes).
                  case add_flags (sc_output_kind C) flags symbol_id (add_ifunc_flags (sc_output_kind C) flags flags_to_add)
                      (note_tls (sf_is_alloc section_flags) (rel_kind info) (st\<lparr>ss_mem_sizes := mem_sizes\<rparr>)) of
                    None \<Rightarrow> None
                  | Some st' \<Rightarrow> rbind (sc_check_for_undefined C local_sym_index flags symbol_id) (\<lambda>_. ok (next_modifier, st')))))"

fun load_section_relocations ::
    "RelocArch \<Rightarrow> ScanContext \<Rightarrow> bytes \<Rightarrow> SectionFlags \<Rightarrow> bool \<Rightarrow> Relocation list \<Rightarrow> RelocationModifier \<Rightarrow> ScanState \<Rightarrow>
      ScanState write_result" where
  "load_section_relocations A C section_data section_flags section_is_writable [] modifier st = ok st"
| "load_section_relocations A C section_data section_flags section_is_writable (rel # rels) modifier st =
     (if modifier = SkipNextRelocation
      then load_section_relocations A C section_data section_flags section_is_writable rels Normal st
      else rbind (process_relocation A C rel section_data section_flags section_is_writable False st) (\<lambda>(modifier, st).
        load_section_relocations A C section_data section_flags section_is_writable rels modifier st))"

section \<open>Consistent flags\<close>

text \<open>
  A PLT entry comes with a GOT entry; the separate GOT entry of an ifunc comes with a PLT entry; and
  an ifunc that is used at all has a PLT entry.
\<close>

definition flags_ok :: "ValueFlags \<Rightarrow> bool" where
  "flags_ok f \<longleftrightarrow> (needs_plt f \<longrightarrow> needs_got f) \<and> (needs_ifunc_got_for_address f \<longrightarrow> needs_plt f) \<and>
     (is_ifunc f \<and> has_resolution f \<longrightarrow> needs_plt f)"

named_theorems query_bits \<open>the queries of flags as bits\<close>

lemma query_as_bit [query_bits]:
  "is_absolute f \<longleftrightarrow> bit f 0" "is_dynamic f \<longleftrightarrow> bit f 1" "is_ifunc f \<longleftrightarrow> bit f 2" "is_interposable f \<longleftrightarrow> \<not> bit f 3"
  "is_function f \<longleftrightarrow> bit f 5" "needs_direct f \<longleftrightarrow> bit f 6" "needs_got f \<longleftrightarrow> bit f 7" "needs_plt f \<longleftrightarrow> bit f 8"
  "needs_got_tls_module f \<longleftrightarrow> bit f 9" "needs_got_tls_offset f \<longleftrightarrow> bit f 10" "needs_got_tls_descriptor f \<longleftrightarrow> bit f 11"
  "needs_export_dynamic f \<longleftrightarrow> bit f 12" "needs_copy_relocation f \<longleftrightarrow> bit f 13" "needs_ifunc_got_for_address f \<longleftrightarrow> bit f 14"
  "is_address f \<longleftrightarrow> \<not> bit f 2 \<and> \<not> bit f 1 \<and> \<not> bit f 0"
  using contains_bit [of 0 f] contains_bit [of 1 f]
  by (simp_all add: flag_tests flag_consts contains_bit del: push_bit_of_1)

lemma bit_flag: "k < 16 \<Longrightarrow> bit (push_bit k 1 :: u16) n \<longleftrightarrow> n = k"
  by (auto simp: bit_exp_iff)

lemma flag_bits [query_bits]:
  "bit VF_DIRECT n \<longleftrightarrow> n = 6" "bit VF_GOT n \<longleftrightarrow> n = 7" "bit VF_PLT n \<longleftrightarrow> n = 8" "bit VF_GOT_TLS_MODULE n \<longleftrightarrow> n = 9"
  "bit VF_GOT_TLS_OFFSET n \<longleftrightarrow> n = 10" "bit VF_GOT_TLS_DESCRIPTOR n \<longleftrightarrow> n = 11" "bit VF_EXPORT_DYNAMIC n \<longleftrightarrow> n = 12"
  "bit VF_COPY_RELOCATION n \<longleftrightarrow> n = 13" "bit VF_IFUNC_GOT_FOR_ADDRESS n \<longleftrightarrow> n = 14" "bit VF_NON_INTERPOSABLE n \<longleftrightarrow> n = 3"
  unfolding flag_consts by (rule bit_flag, simp)+

lemmas or_bits = bit_or_iff bit_and_iff bit_not_iff_eq

lemma has_resolution_bits [query_bits]:
  "has_resolution f \<longleftrightarrow> bit f 6 \<or> bit f 7 \<or> bit f 8 \<or> bit f 9 \<or> bit f 10 \<or> bit f 11 \<or> bit f 12 \<or> bit f 13 \<or> bit f 14"
  unfolding has_resolution_def resolution_flags_def bit_eq_iff [where b = 0]
  by (auto simp: or_bits query_bits) force+

lemma flags_is_tls_bits [query_bits]: "flags_is_tls f \<longleftrightarrow> bit f 10 \<or> bit f 9 \<or> bit f 11"
  by (simp add: flags_is_tls_def flag_consts contains_bit del: push_bit_of_1)

lemma fetch_or_eq [simp]: "fetch_or b f = (b, b OR f)"
proof -
  have "b OR f = b" if "b AND f = f"
    using that by (auto simp: bit_eq_iff or_bits)
  then show ?thesis by (simp add: fetch_or_def)
qed

text \<open>What the scan adds for one relocation: no flags that describe the symbol, and a PLT entry only with a GOT entry.\<close>

lemma resolution_flags_shape:
  "relocation_resolution_flags k \<in> {VF_PLT OR VF_GOT, VF_GOT, VF_GOT_TLS_OFFSET, VF_GOT_TLS_MODULE, VF_GOT_TLS_DESCRIPTOR, 0, VF_DIRECT}"
  by (cases k) simp_all

definition addable :: "ValueFlags \<Rightarrow> bool" where
  "addable f \<longleftrightarrow> (\<forall>n. bit f n \<longrightarrow> 6 \<le> n \<and> n < 14) \<and> (needs_plt f \<longrightarrow> needs_got f)"

lemma relocation_needs_addable:
  assumes "relocation_needs C kind flags is_alloc wr dbg offset sizes = ok (fl, sizes')"
  shows "addable fl"
proof -
  have "fl \<in> {relocation_resolution_flags kind, flags_remove (relocation_resolution_flags kind) VF_DIRECT OR (VF_PLT OR VF_GOT),
      relocation_resolution_flags kind OR VF_COPY_RELOCATION}"
    using assms by (auto simp: relocation_needs_def allocate_part_def ok_def fail_def Let_def split: if_splits option.splits)
  then show ?thesis
    using resolution_flags_shape [of kind]
    by (auto simp: addable_def query_bits or_bits flags_remove_def)
qed

text \<open>The new flags of a symbol.\<close>

definition updated_flags :: "OutputKind \<Rightarrow> ValueFlags \<Rightarrow> ValueFlags \<Rightarrow> ValueFlags \<Rightarrow> ValueFlags" where
  "updated_flags kind flags fl bits =
     (bits OR add_ifunc_flags kind flags fl) OR
     (if \<not> has_resolution bits \<and> is_ifunc flags \<and> is_static_executable kind then VF_GOT OR VF_PLT else 0)"

lemma bit_add_ifunc_flags:
  "bit (add_ifunc_flags kind flags fl) n \<longleftrightarrow> bit fl n \<or>
    (is_ifunc flags \<and> \<not> is_static_executable kind \<and> (n = 7 \<or> n = 8)) \<or>
    (is_ifunc flags \<and> needs_got fl \<and> \<not> is_relocatable kind \<and> n = 14)"
  by (auto simp: add_ifunc_flags_def Let_def or_bits flag_bits)

lemma ifunc_gets_plt:
  assumes "flags_ok bits" "is_ifunc flags = is_ifunc bits" "is_ifunc bits"
  shows "needs_plt (updated_flags kind flags fl bits)"
  using assms unfolding flags_ok_def updated_flags_def
  by (auto simp: query_as_bit(8) or_bits flag_bits bit_add_ifunc_flags)

lemma flags_ok_updated:
  assumes "flags_ok bits" "addable fl" "is_ifunc flags = is_ifunc bits"
  shows "flags_ok (updated_flags kind flags fl bits)"
proof -
  let ?r = "updated_flags kind flags fl bits"
  have bits: "bit ?r n \<longleftrightarrow> bit bits n \<or> bit (add_ifunc_flags kind flags fl) n \<or>
      (\<not> has_resolution bits \<and> is_ifunc flags \<and> is_static_executable kind \<and> (n = 7 \<or> n = 8))" for n
    by (auto simp: updated_flags_def or_bits flag_bits)
  have ifunc: "is_ifunc ?r = is_ifunc bits"
    using assms(2) by (auto simp: query_as_bit(3) bits bit_add_ifunc_flags addable_def)
  have got: "needs_plt ?r \<Longrightarrow> needs_got ?r"
    using assms(1,2) by (auto simp: query_as_bit(7,8) bits bit_add_ifunc_flags addable_def flags_ok_def)
  show ?thesis
  proof (cases "is_ifunc bits")
    case True
    then show ?thesis using got ifunc_gets_plt [OF assms(1,3)] by (simp add: flags_ok_def)
  next
    case False
    have "needs_ifunc_got_for_address ?r \<Longrightarrow> needs_plt ?r"
      using assms False by (auto simp: query_as_bit(3,8,14) bits bit_add_ifunc_flags addable_def flags_ok_def)
    then show ?thesis using got ifunc False by (simp add: flags_ok_def)
  qed
qed

lemma add_flags_eq:
  "add_flags kind flags s (add_ifunc_flags kind flags fl) st = Some st' \<Longrightarrow>
    s < length (ss_flags st) \<and> ss_flags st' = (ss_flags st)[s := updated_flags kind flags fl (ss_flags st ! s)] \<and>
    ss_mem_sizes st' = ss_mem_sizes st \<and> ss_uses_tlsld st' = ss_uses_tlsld st"
  by (auto simp: add_flags_def get_def Let_def updated_flags_def split: if_splits option.splits)

lemma list_all_update: "list_all P xs \<Longrightarrow> P x \<Longrightarrow> list_all P (xs[i := x])"
  by (auto simp: list_all_iff dest: set_update_subset_insert [THEN subsetD])

lemma is_ifunc_merge: "is_ifunc (merge_flags f g) = is_ifunc f"
  by (simp add: merge_flags_def query_bits or_bits)

text \<open>One step of the scan, taken apart.\<close>

lemma process_relocation_cases:
  assumes "process_relocation A C rel data sf wr dbg st = ok (m, st')" "rel_symbol rel = Some i"
  defines "s \<equiv> sc_definition C (sc_symbol_id_start C + i)"
  obtains flags info fl sizes where
    "symbol_flags C (sc_symbol_id_start C + i) st = Some flags" "is_ifunc flags = is_ifunc (ss_flags st ! s)"
    "scan_rel_info A C rel data sf flags = ok (info, m)"
    "relocation_needs C (rel_kind info) flags (sf_is_alloc sf) wr dbg (rel_offset rel) (ss_mem_sizes st) = ok (fl, sizes)"
    "s < length (ss_flags st)" "ss_flags st' = (ss_flags st)[s := updated_flags (sc_output_kind C) flags fl (ss_flags st ! s)]"
    "ss_mem_sizes st' = sizes" "ss_uses_tlsld st' \<longleftrightarrow> ss_uses_tlsld st \<or> (sf_is_alloc sf \<and> needs_tlsld (rel_kind info))"
proof -
  obtain f g where fg: "get (ss_flags st) s = Some f" "get (ss_flags st) (sc_symbol_id_start C + i) = Some g"
    and flags: "symbol_flags C (sc_symbol_id_start C + i) st = Some (merge_flags f g)"
    using assms(1,2) by (auto simp: process_relocation_def symbol_flags_def s_def Let_def ok_def split: option.splits)
  obtain info fl sizes where step: "scan_rel_info A C rel data sf (merge_flags f g) = ok (info, m)"
    "relocation_needs C (rel_kind info) (merge_flags f g) (sf_is_alloc sf) wr dbg (rel_offset rel) (ss_mem_sizes st) = ok (fl, sizes)"
    "add_flags (sc_output_kind C) (merge_flags f g) s (add_ifunc_flags (sc_output_kind C) (merge_flags f g) fl)
       (note_tls (sf_is_alloc sf) (rel_kind info) (st\<lparr>ss_mem_sizes := sizes\<rparr>)) = Some st'"
    using assms(1,2) flags by (auto simp: process_relocation_def s_def Let_def rbind_ok split: option.splits)
  have tls: "needs_tlsld k \<Longrightarrow> is_tls k" for k
    by (auto simp: needs_tlsld_def is_tls_def)
  show ?thesis
    using that [OF flags _ step(1,2)] fg add_flags_eq [OF step(3)] tls
    by (auto simp: is_ifunc_merge note_tls_def get_def split: if_splits)
qed

lemma process_relocation_flags_ok:
  assumes "process_relocation A C rel data sf wr dbg st = ok (m, st')" "list_all flags_ok (ss_flags st)"
  shows "list_all flags_ok (ss_flags st')"
proof (cases "rel_symbol rel")
  case None
  then show ?thesis using assms by (simp add: process_relocation_def ok_def)
next
  case (Some i)
  from assms(1) Some show ?thesis
  proof (rule process_relocation_cases, goal_cases)
    case (1 flags info fl sizes)
    then show ?case using assms(2)
      by (simp add: list_all_update flags_ok_updated relocation_needs_addable list_all_length [of _ "ss_flags st"])
  qed
qed

text \<open>
  (C5) Scanning the relocations of a section keeps the flags of all symbols consistent: a symbol with a
  PLT entry has the GOT entry its stub jumps through, and an ifunc that is used at all has a PLT entry.
\<close>

theorem scan_keeps_flags_ok:
  assumes "load_section_relocations A C data sf wr rels m st = ok st'" "list_all flags_ok (ss_flags st)"
  shows "list_all flags_ok (ss_flags st')"
  using assms
  by (induction A C data sf wr rels m st arbitrary: st' rule: load_section_relocations.induct)
    (auto simp: rbind_ok split: if_splits dest: process_relocation_flags_ok)

section \<open>The scan requests what applying the relocation uses\<close>

lemma create_resolution_addresses:
  assumes "create_resolution flags raw_value dsi offsets = Some (res, offsets')"
  shows "rs_flags res = flags" "rs_plt_address res \<noteq> None \<longleftrightarrow> needs_plt flags"
    "rs_got_address res \<noteq> None \<longleftrightarrow> needs_plt flags \<or> flags_is_tls flags \<or> needs_got flags"
  using assms by (auto simp: create_resolution_def Let_def split: if_splits bind_splits prod.splits)

lemma relocation_needs_requested:
  assumes "relocation_needs C kind flags is_alloc wr dbg offset sizes = ok (fl, sizes')"
    "bit (relocation_resolution_flags kind) n" "n \<noteq> 6"
  shows "bit fl n"
proof -
  have "fl \<in> {relocation_resolution_flags kind, flags_remove (relocation_resolution_flags kind) VF_DIRECT OR (VF_PLT OR VF_GOT),
      relocation_resolution_flags kind OR VF_COPY_RELOCATION}"
    using assms by (auto simp: relocation_needs_def allocate_part_def ok_def fail_def Let_def split: if_splits option.splits)
  then show ?thesis using assms(2,3) bit_imp_le_length [OF assms(2)]
    by (auto simp: or_bits flags_remove_def flag_bits)
qed

definition table_free_kind :: "RelocationKind \<Rightarrow> bool" where
  "table_free_kind k \<longleftrightarrow> k \<notin> {RelocationKind.Absolute, RelativeRiscVLow12, Alignment_kind} \<and>
     (\<forall>t. k \<noteq> PairSubtractionULEB128 t)"

text \<open>What the value of a relocation depends on.\<close>

lemma value_with_addend_ok:
  assumes "is_ifunc (rs_flags res) \<longrightarrow> rs_plt_address res \<noteq> None" "el_merged_string_output_address L i addend = ok r"
  shows "\<exists>v. value_with_addend L res addend i = ok v"
  using assms by (auto simp: value_with_addend_def plt_address_def split: option.split)

lemma table_free_value_ok:
  assumes "table_free_kind (rel_kind info)"
    "is_ifunc (rs_flags res) \<Longrightarrow> rs_plt_address res \<noteq> None"
    "bit (relocation_resolution_flags (rel_kind info)) 8 \<Longrightarrow> rs_plt_address res \<noteq> None"
    "\<exists>n \<in> {7, 9, 10, 11}. bit (relocation_resolution_flags (rel_kind info)) n \<Longrightarrow> rs_got_address res \<noteq> None"
    "needs_tlsld (rel_kind info) \<Longrightarrow> el_tlsld_got_entry L \<noteq> None"
    "el_merged_string_output_address L i addend = ok r"
  shows "\<exists>v. table_free_value L info res i p addend = ok v"
proof -
  have v: "\<exists>v. value_with_addend L res addend i = ok v"
    using value_with_addend_ok [of res L i addend] assms(2,6) by blast
  show ?thesis
    using assms(1,3-5) v
    by (cases "rel_kind info")
      (auto simp: table_free_kind_def table_free_value_def flag_bits or_bits needs_tlsld_def rbind_def ok_def or_error_def Let_def
        plt_address_def got_address_def got_address_for_relocation_def tlsgd_got_address_def tls_descriptor_got_address_def)
qed

text \<open>
  (C3) What the scan requested for a relocation is enough to apply it: when the symbol's flags, with
  whatever other relocations added, have been turned into addresses, the value of the relocation can
  be computed, without an error for a missing GOT or PLT address and without a panic.
\<close>

theorem scan_requests_suffice:
  fixes C :: ScanContext
  defines "local_symbol_id \<equiv> \<lambda>i. sc_symbol_id_start C + i"
  assumes scan: "process_relocation A C rel data sf wr dbg st = ok (m, st')" "rel_symbol rel = Some i"
      "list_all flags_ok (ss_flags st)" "sf_is_alloc sf"
    and info: "symbol_flags C (local_symbol_id i) st = Some flags" "scan_rel_info A C rel data sf flags = ok (info, m)"
      "table_free_kind (rel_kind info)"
    and final: "ss_flags st' ! sc_definition C (local_symbol_id i) = requested" "requested AND final = requested"
      "is_ifunc final = is_ifunc requested"
    and created: "create_resolution final raw_value dsi offsets = Some (res, offsets')"
    and layout: "ss_uses_tlsld st' \<longrightarrow> el_tlsld_got_entry L \<noteq> None" "el_merged_string_output_address L i addend = ok r"
  shows "\<exists>v. table_free_value L info (res\<lparr>rs_flags := merge_flags final local_flags\<rparr>) i p addend = ok v"
proof -
  let ?s = "sc_definition C (local_symbol_id i)"
  obtain fl where ifunc: "is_ifunc flags = is_ifunc (ss_flags st ! ?s)" and s: "?s < length (ss_flags st)"
    and needs: "relocation_needs C (rel_kind info) flags (sf_is_alloc sf) wr dbg (rel_offset rel) (ss_mem_sizes st) = ok (fl, ss_mem_sizes st')"
    and flags': "ss_flags st' = (ss_flags st)[?s := updated_flags (sc_output_kind C) flags fl (ss_flags st ! ?s)]"
    and tlsld: "ss_uses_tlsld st' \<longleftrightarrow> ss_uses_tlsld st \<or> needs_tlsld (rel_kind info)"
    using process_relocation_cases [OF scan(1,2)] info scan(4) unfolding local_symbol_id_def
    by (metis (no_types, lifting) ok_eq option.inject prod.inject)
  have requested: "requested = updated_flags (sc_output_kind C) flags fl (ss_flags st ! ?s)"
    using final(1) flags' s by simp
  have bits: "bit requested n \<Longrightarrow> bit final n" for n
    using final(2) by (metis bit_and_iff)
  have asked: "bit (relocation_resolution_flags (rel_kind info)) n \<Longrightarrow> n \<noteq> 6 \<Longrightarrow> bit final n" for n
    using relocation_needs_requested [OF needs, of n]
    by (intro bits) (auto simp: requested updated_flags_def or_bits bit_add_ifunc_flags)
  have ok: "flags_ok (ss_flags st ! ?s)" using scan(3) s by (simp add: list_all_length)
  have is_ifunc: "is_ifunc final = is_ifunc (ss_flags st ! ?s)"
    using final(3) relocation_needs_addable [OF needs]
    by (auto simp: requested updated_flags_def query_as_bit(3) or_bits flag_bits bit_add_ifunc_flags addable_def)
  have plt: "is_ifunc final \<Longrightarrow> needs_plt final"
    using ifunc_gets_plt [OF ok ifunc] is_ifunc bits by (simp add: requested query_as_bit(8))
  show ?thesis
  proof (rule table_free_value_ok [OF info(3)])
    show "is_ifunc (rs_flags (res\<lparr>rs_flags := merge_flags final local_flags\<rparr>)) \<Longrightarrow>
        rs_plt_address (res\<lparr>rs_flags := merge_flags final local_flags\<rparr>) \<noteq> None"
      using plt create_resolution_addresses(2) [OF created] by (simp add: is_ifunc_merge)
    show "bit (relocation_resolution_flags (rel_kind info)) 8 \<Longrightarrow> rs_plt_address (res\<lparr>rs_flags := merge_flags final local_flags\<rparr>) \<noteq> None"
      using asked [of 8] create_resolution_addresses(2) [OF created] by (simp add: query_as_bit(8))
    show "\<exists>n \<in> {7, 9, 10, 11}. bit (relocation_resolution_flags (rel_kind info)) n \<Longrightarrow>
        rs_got_address (res\<lparr>rs_flags := merge_flags final local_flags\<rparr>) \<noteq> None"
      using asked [of 7] asked [of 9] asked [of 10] asked [of 11] create_resolution_addresses(3) [OF created]
      by (auto simp: query_bits)
    show "needs_tlsld (rel_kind info) \<Longrightarrow> el_tlsld_got_entry L \<noteq> None"
      using tlsld layout(1) by simp
  qed (rule layout(2))
qed

section \<open>An example\<close>

text \<open>A call through the PLT in a shared object.\<close>

definition plt32 :: RelocationKindInfo where
  "plt32 = \<lparr>rel_kind = PltRelative, rel_size = ByteSize 4, rel_mask = None, rel_range = AllowedRange_new (- 0x80000000) 0x80000000,
     rel_alignment = 1, rel_bias = 0\<rparr>"

definition scan_arch :: RelocArch where
  "scan_arch = \<lparr>ra_arch = \<lparr>get_dynamic_relocation_type = (\<lambda>_. 0), arch_write_plt_entry = (\<lambda>entry _ _. ok entry),
     get_dtv_offset = 0, object_r_info = (\<lambda>_ _. 0)\<rparr>,
     ra_relocation_from_raw = (\<lambda>r. if r = 4 then Some plt32 else None), ra_new_relaxation = (\<lambda>_ _ _ _ _ _ _ _. Some None),
     ra_high_part_relocations = [], ra_fill_nop_padding = (\<lambda>out _ _. Some out), ra_uleb = (\<lambda>_. [])\<rparr>"

definition scan_context :: ScanContext where
  "scan_context = \<lparr>sc_output_kind = SharedObject, sc_should_relax = True, sc_is_relr_enabled = True,
     sc_copy_relocations_enabled = True, sc_symbol_id_start = 0, sc_definition = (\<lambda>i. i),
     sc_check_for_undefined = (\<lambda>_ _ _. ok ())\<rparr>"

definition scan_state :: "ValueFlags \<Rightarrow> nat list \<Rightarrow> ScanState" where
  "scan_state f requests = \<lparr>ss_mem_sizes = replicate 38 0, ss_has_static_tls = False, ss_uses_tlsld = False, ss_flags = [f],
     ss_symbol_requests = requests, ss_copy_requests = []\<rparr>"

definition call_rel :: Relocation where
  "call_rel = \<lparr>rel_offset = 1, rel_raw_type = 4, rel_symbol = Some 0, rel_addend = - 4\<rparr>"

definition text_flags :: SectionFlags where
  "text_flags = \<lparr>sf_is_alloc = True, sf_is_executable = True\<rparr>"

definition example_layout :: ElfLayout where
  "example_layout = \<lparr>el_output_kind = SharedObject, el_relax = True, el_definition = (\<lambda>i. i), el_resolutions = [],
     el_flags_for_symbol = (\<lambda>_. 0), el_symbol_id_start = 0, el_symbol = (\<lambda>_. ok (None, 0)), el_sections = [],
     el_section_resolutions = [], el_section_relax_deltas = (\<lambda>_. None), el_merged_string_output_address = (\<lambda>_ _. ok None),
     el_got_base = 0, el_tls_start_address = 0, el_tls_end_address = 0, el_tp_offset_start = 0, el_tlsld_got_entry = None\<rparr>"

lemma scan_example:
  "process_relocation scan_arch scan_context call_rel [0xe8, 0, 0, 0, 0] text_flags False False (scan_state 0x20 []) =
    ok (Normal, scan_state 0x1a0 [0])"
  by code_simp

lemma scan_example_info:
  "symbol_flags scan_context 0 (scan_state 0x20 []) = Some 0x20"
  "scan_rel_info scan_arch scan_context call_rel [0xe8, 0, 0, 0, 0] text_flags 0x20 = ok (plt32, Normal)"
  "list_all flags_ok (ss_flags (scan_state 0x20 []))"
  by code_simp+

theorem scan_keeps_flags_ok_witness:
  "load_section_relocations scan_arch scan_context [0xe8, 0, 0, 0, 0] text_flags False [call_rel] Normal (scan_state 0x20 []) =
     ok (scan_state 0x1a0 [0]) \<and> list_all flags_ok (ss_flags (scan_state 0x1a0 [0]))"
  using scan_keeps_flags_ok [of scan_arch scan_context "[0xe8, 0, 0, 0, 0]" text_flags False "[call_rel]" Normal "scan_state 0x20 []"
      "scan_state 0x1a0 [0]"] scan_example_info(3)
  by (simp add: scan_example)

theorem scan_requests_suffice_witness:
  "\<exists>res offsets' v. create_resolution 0x1a0 0 (Some 1) (replicate 38 0x1000) = Some (res, offsets') \<and>
    table_free_value example_layout plt32 (res\<lparr>rs_flags := merge_flags 0x1a0 0\<rparr>) 0 0x2001 (- 4) = ok v"
proof -
  obtain res offsets' where res: "create_resolution 0x1a0 0 (Some 1) (replicate 38 0x1000) = Some (res, offsets')"
    using that by (simp add: create_resolution_def Let_def query_as_bit allocate_plt_def allocate_got_def part_map_increment_def
        part_consts get_def set_at_def bit_numeral_word_iff)
  have "\<exists>v. table_free_value example_layout plt32 (res\<lparr>rs_flags := merge_flags 0x1a0 0\<rparr>) 0 0x2001 (- 4) = ok v"
  proof (rule scan_requests_suffice [OF scan_example _ scan_example_info(3)])
  qed (use res scan_example_info in \<open>auto simp: call_rel_def text_flags_def scan_context_def scan_state_def example_layout_def
      table_free_kind_def plt32_def\<close>)
  then show ?thesis using res by blast
qed

section \<open>Dynamic relocations for data\<close>

text \<open>
  The entries that an absolute relocation in a writable section takes. Where RELR is enabled, the
  table for relative relocations depends on whether the place is even.
\<close>

definition absolute_count :: "OutputKind \<Rightarrow> bool \<Rightarrow> ValueFlags \<Rightarrow> u64 \<Rightarrow> tab \<Rightarrow> nat" where
  "absolute_count kind relr flags p =
     (if is_interposable flags then one TGeneral
      else if is_ifunc flags \<and> is_relocatable kind then one TGeneral
      else only_if (is_relocatable kind \<and> is_address flags) (one (relative_tab (relr \<and> p mod 2 = 0))))"

lemma allocate_part_eq:
  assumes "29 \<le> length sizes"
  shows "allocate_part part_RELA_DYN_GENERAL RELA_ENTRY_SIZE fl sizes = ok (fl, add_amounts (one TGeneral) sizes)"
    "allocate_part part_RELR_DYN RELR_ENTRY_SIZE fl sizes = ok (fl, add_amounts (one TRelr) sizes)"
    "allocate_part part_RELA_DYN_RELATIVE RELA_ENTRY_SIZE fl sizes = ok (fl, add_amounts (one TRelative) sizes)"
  using increment_one [of part_RELA_DYN_GENERAL TGeneral sizes RELA_ENTRY_SIZE] increment_one [of part_RELR_DYN TRelr sizes RELR_ENTRY_SIZE]
    increment_one [of part_RELA_DYN_RELATIVE TRelative sizes RELA_ENTRY_SIZE] assms
  by (simp_all add: allocate_part_def ok_def part_consts)

lemma absolute_counted:
  assumes "29 \<le> length sizes"
  shows "relocation_needs C RelocationKind.Absolute flags True True dbg offset sizes =
    ok (VF_DIRECT, add_amounts (absolute_count (sc_output_kind C) (sc_is_relr_enabled C) flags offset) sizes)"
proof -
  have "needs_direct VF_DIRECT" by (simp add: query_bits)
  then show ?thesis
    by (auto simp: relocation_needs_def is_tls_def Let_def absolute_count_def allocate_part_eq [OF assms] relative_tab_def)
qed

lemma take_relative_at:
  assumes "setting_of w = S" "snd (snd S) \<longrightarrow> relr" "room (one (relative_tab (relr \<and> p mod 2 = 0))) w"
  shows "\<exists>v w'. write_address_relocation A p a w = ok (v, w') \<and> advanced (one (relative_tab (relr \<and> p mod 2 = 0))) w w'"
proof (cases "p mod 2 = 0")
  case True
  then show ?thesis using take_relative [OF assms(1,2), of p A a] assms(3) by simp
next
  case False
  have "tb_taken (tw_rela_dyn_relative w) + 1 \<le> length (tb_entries (tw_rela_dyn_relative w))"
    using assms(3) False unfolding room_def by (drule_tac spec [of _ TRelative]) (simp add: one_def relative_tab_def)
  then show ?thesis
    using False by (auto simp: write_address_relocation_def advanced_simps relative_tab_def split: option.split)
qed

lemma consumes_only:
  assumes "\<And>w. setting_of w = S \<Longrightarrow> room c w \<Longrightarrow> \<exists>v w'. f w = ok (v, w') \<and> advanced c w w'"
  shows "consumes S c (\<lambda>w. rbind (f w) (\<lambda>(v, w). ok w))"
  using consumes_cong [OF consumes_then [OF assms consumes_ok]] by (simp add: plus_count_def)

definition same_nature :: "ValueFlags \<Rightarrow> ValueFlags \<Rightarrow> bool" where
  "same_nature f g \<longleftrightarrow> is_dynamic f = is_dynamic g \<and> is_absolute f = is_absolute g \<and> is_ifunc f = is_ifunc g \<and>
     is_interposable f = is_interposable g"

lemma rbind_unit: "rbind (rbind m (\<lambda>w. ok (x, w))) (\<lambda>(v, w). ok w) = m"
  by (auto simp: rbind_def ok_def split: option.split sum.split)

lemma absolute_consumes:
  assumes sec: "sf_is_alloc (as_section_flags sec)" "as_is_writable sec"
    and res: "is_interposable (rs_flags res) \<longrightarrow> rs_dynamic_symbol_index res \<noteq> None"
      "is_dynamic (rs_flags res) \<longrightarrow> is_interposable (rs_flags res)" "is_ifunc (rs_flags res) \<longrightarrow> rs_plt_address res \<noteq> None"
    and merged: "el_merged_string_output_address L i addend = ok r" and relr: "b \<longrightarrow> relr"
  shows "consumes (kind, tls, b) (absolute_count kind relr (rs_flags res) p)
    (\<lambda>w. rbind (write_absolute_relocation A L sec res i p addend w) (\<lambda>(v, w). ok w))"
proof -
  obtain v where v: "value_with_addend L res addend i = ok v" using value_with_addend_ok [OF res(3) merged] by blast
  let ?flags = "rs_flags res" and ?f = "\<lambda>w. rbind (write_absolute_relocation A L sec res i p addend w) (\<lambda>(v, w). ok w)"
  have address: "is_address ?flags \<longleftrightarrow> \<not> is_ifunc ?flags \<and> \<not> is_dynamic ?flags \<and> \<not> is_absolute ?flags"
    by (simp add: query_bits)
  consider (interposable) "is_interposable ?flags"
  | (ifunc) "\<not> is_interposable ?flags" "is_ifunc ?flags" "is_relocatable kind"
  | (address) "\<not> is_interposable ?flags" "is_address ?flags" "is_relocatable kind"
  | (fixed) "\<not> is_interposable ?flags" "\<not> (is_relocatable kind \<and> (is_ifunc ?flags \<or> is_address ?flags))"
    by blast
  then show ?thesis
  proof cases
    case interposable
    then obtain d where d: "rs_dynamic_symbol_index res = Some d" using res(1) by blast
    have "?f w = write_dynamic_symbol_relocation A p addend d DynamicRelocationKind.Absolute w" for w
      using interposable sec d by (simp add: write_absolute_relocation_def Let_def dynamic_symbol_index_def rbind_unit)
    then show ?thesis using interposable by (simp add: absolute_count_def consumes_general_variants)
  next
    case ifunc
    have "consumes (kind, tls, b) (one TGeneral) ?f"
    proof (rule consumes_setting)
      fix w assume "setting_of w = (kind, tls, b)"
      then show "?f w = write_rela_dyn_general A p 0 (get_dynamic_relocation_type A Irelative) (rs_raw_value res + addend) w"
        using ifunc sec by (simp add: write_absolute_relocation_def Let_def setting_of_def write_ifunc_relocation_for_data_def rbind_unit)
    qed (rule consumes_general)
    then show ?thesis using ifunc by (simp add: absolute_count_def)
  next
    case address
    have "consumes (kind, tls, b) (one (relative_tab (relr \<and> p mod 2 = 0))) ?f"
    proof (rule consumes_setting)
      fix w assume "setting_of w = (kind, tls, b)"
      then show "?f w = rbind (write_address_relocation A p v w) (\<lambda>(v, w). ok w)"
        using address \<open>is_address ?flags \<longleftrightarrow> _\<close> sec v by (simp add: write_absolute_relocation_def Let_def setting_of_def)
    qed (use relr in \<open>auto intro!: consumes_only take_relative_at\<close>)
    then show ?thesis using address \<open>is_address ?flags \<longleftrightarrow> _\<close> by (simp add: absolute_count_def)
  next
    case fixed
    have "consumes (kind, tls, b) (\<lambda>_. 0) ?f"
    proof (rule consumes_setting)
      fix w assume "setting_of w = (kind, tls, b)"
      then show "?f w = ok w"
        using fixed res(2) \<open>is_address ?flags \<longleftrightarrow> _\<close> sec v by (auto simp: write_absolute_relocation_def Let_def setting_of_def)
    qed simp
    then show ?thesis using fixed by (auto simp: absolute_count_def consumes_unless)
  qed
qed

text \<open>
  (C4) The dynamic relocations that the scan counts for an absolute relocation in a writable section are
  those that applying it writes: the sizes grow by entries of one of the tables, or none, and with
  that much room the relocation is applied without an error and takes exactly these entries. The
  offset in the section and the address must both be even or both be odd.
\<close>

theorem absolute_relocations_fit:
  assumes scan: "relocation_needs C RelocationKind.Absolute flags True True dbg offset sizes = ok (fl, sizes')" "29 \<le> length sizes"
    and sec: "sf_is_alloc (as_section_flags sec)" "as_is_writable sec"
    and res: "same_nature (rs_flags res) flags" "is_interposable flags \<longrightarrow> rs_dynamic_symbol_index res \<noteq> None"
      "is_dynamic flags \<longrightarrow> is_interposable flags" "is_ifunc flags \<longrightarrow> rs_plt_address res \<noteq> None"
    and parity: "(as_section_address sec + offset) mod 2 = 0 \<longleftrightarrow> offset mod 2 = 0"
    and merged: "el_merged_string_output_address L i addend = ok r" and relr: "b \<longrightarrow> sc_is_relr_enabled C"
  shows "\<exists>c. sizes' = add_amounts c sizes \<and>
    consumes (sc_output_kind C, tls, b) c
      (\<lambda>w. rbind (write_absolute_relocation A L sec res i (as_section_address sec + offset) addend w) (\<lambda>(v, w). ok w))"
proof -
  let ?p = "as_section_address sec + offset"
  have count: "absolute_count kind relr (rs_flags res) ?p = absolute_count kind relr flags offset" for kind relr
    using res(1) parity by (simp add: absolute_count_def same_nature_def query_as_bit)
  have "sizes' = add_amounts (absolute_count (sc_output_kind C) (sc_is_relr_enabled C) flags offset) sizes"
    using scan absolute_counted [of sizes C flags dbg offset] by simp
  then show ?thesis
    using absolute_consumes [OF sec _ _ _ merged relr, of res "sc_output_kind C" tls ?p A] res count
    by (auto simp: same_nature_def)
qed

theorem absolute_relocations_fit_witness:
  "\<exists>sizes' c. relocation_needs scan_context RelocationKind.Absolute 0x8 True True False 8 (replicate 38 0) = ok (VF_DIRECT, sizes') \<and>
    sizes' = add_amounts c (replicate 38 0) \<and>
    consumes (SharedObject, (0, 0), True) c
      (\<lambda>w. rbind (write_absolute_relocation (ra_arch scan_arch) example_layout
          \<lparr>as_section_address = 0x3000, as_is_writable = True, as_section_flags = text_flags\<rparr>
          \<lparr>rs_raw_value = 0x1000, rs_dynamic_symbol_index = None, rs_got_address = None, rs_plt_address = None, rs_flags = 0x48\<rparr>
          0 (0x3000 + 8) 16 w) (\<lambda>(v, w). ok w))"
proof -
  let ?sec = "\<lparr>as_section_address = 0x3000, as_is_writable = True, as_section_flags = text_flags\<rparr>"
  let ?res = "\<lparr>rs_raw_value = 0x1000, rs_dynamic_symbol_index = None, rs_got_address = None, rs_plt_address = None, rs_flags = 0x48\<rparr>"
  obtain sizes' where sizes: "relocation_needs scan_context RelocationKind.Absolute 0x8 True True False 8 (replicate 38 0) = ok (VF_DIRECT, sizes')"
    using absolute_counted [of "replicate 38 0" scan_context "0x8" False 8] by simp
  have nature: "same_nature (rs_flags ?res) 0x8" "\<not> is_interposable 0x8" "\<not> is_dynamic 0x8" "\<not> is_ifunc 0x8"
    by code_simp+
  show ?thesis
    using absolute_relocations_fit [OF sizes, of ?sec ?res example_layout 0 16 None True "(0, 0)" "ra_arch scan_arch"] nature sizes
    by (simp add: text_flags_def example_layout_def scan_context_def)
qed

end
