(* ===== verification/Apply_Effect.thy ===== *)
theory Apply_Effect
  imports Apply_Reloc Resolution_Alloc
begin

text \<open>
  What applying relocations leaves in the output: differences of labels (the pairs of \<open>ADD\<close> and \<open>SUB\<close>
  relocations of RISC-V and LoongArch, and their 6-bit variants), and PC-relative fields.
\<close>

section \<open>A field of the output\<close>

definition field :: "bytes \<Rightarrow> nat \<Rightarrow> nat \<Rightarrow> u64" where
  "field out offset n = from_le_bytes (take n (drop offset out))"

definition patch :: "bytes \<Rightarrow> nat \<Rightarrow> nat \<Rightarrow> u64 \<Rightarrow> bytes" where
  "patch out offset n v = take offset out @ le_bytes n v @ drop (offset + n) out"

lemma length_patch [simp]: "offset + n \<le> length out \<Longrightarrow> length (patch out offset n v) = length out"
  by (simp add: patch_def)

lemma field_patch [simp]: "offset + n \<le> length out \<Longrightarrow> field (patch out offset n v) offset n = take_bit (8 * n) v"
  by (simp add: field_def patch_def from_le_bytes_le_bytes)

lemma patch_patch [simp]: "offset + n \<le> length out \<Longrightarrow> patch (patch out offset n v) offset n u = patch out offset n u"
  by (simp add: patch_def)

lemma write_at_patch:
  assumes "verify info v = Inr ()" "\<not> is_uleb_pair info" "rel_size info = ByteSize n" "n \<le> 8" "offset + n \<le> length out"
  shows "write_at A info v out offset = ok (patch out offset n v)"
  using assms write_byte_relocation [OF assms(1-4), of "drop offset out" "ra_uleb A"]
  by (simp add: write_at_def patch_def add.commute)

section \<open>Values adjusted in place\<close>

text \<open>
  The kinds that adjust a value in place have no range check and occupy at most eight bytes. The
  bounds of \<open>AllowedRange::no_check\<close> still exclude one value, the largest signed one.
\<close>

definition i64_MAX :: u64 where "i64_MAX = 0x7fffffffffffffff"

definition unchecked_arm :: "RelocationKind \<Rightarrow> RelocationSize \<Rightarrow> AllowedRange option \<Rightarrow> nat \<Rightarrow> bool" where
  "unchecked_arm kind sz rng al \<longleftrightarrow> adjusted_kind kind \<longrightarrow> (\<exists>n \<le> 8. sz = ByteSize n) \<and> rng = Some no_check \<and> al = 1"

lemma riscv_unchecked:
  "list_all (\<lambda>(names, arm). case arm of None \<Rightarrow> True | Some (kind, sz, msk, rng, al) \<Rightarrow> unchecked_arm kind sz rng al) (riscv_arms elf)"
  by (simp add: riscv_arms_defs unchecked_arm_def adjusted_kind_def)

lemma loongarch64_unchecked:
  "list_all (\<lambda>(names, arm). case arm of None \<Rightarrow> True | Some (kind, sz, msk, rng, al, b) \<Rightarrow> unchecked_arm kind sz rng al)
    (loongarch64_arms elf)"
  by (simp add: loongarch64_arms_defs unchecked_arm_def adjusted_kind_def)

lemma adjusted_unchecked:
  assumes "arch_relocation_from_raw a elf r = Some info" "a = Arch_RiscV64 \<or> a = Arch_LoongArch64" "adjusted_kind (rel_kind info)"
  shows "v \<noteq> i64_MAX \<Longrightarrow> verify info v = Inr ()" "\<not> is_uleb_pair info" "rel_size info = ByteSize n \<Longrightarrow> n \<le> 8"
proof -
  have arm: "unchecked_arm (rel_kind info) (rel_size info) (Some (rel_range info)) (rel_alignment info)"
    using assms(1,2)
    by (auto simp: arch_relocation_from_raw_def riscv_relocation_type_from_raw_def loongarch64_relocation_type_from_raw_def
        bind_eq_Some_conv dest!: match_arms_list_all [OF _ riscv_unchecked] match_arms_list_all [OF _ loongarch64_unchecked])
  show "verify info v = Inr ()" if "v \<noteq> i64_MAX"
  proof -
    have "sint v \<noteq> 2 ^ 63 - 1"
    proof
      assume "sint v = 2 ^ 63 - 1"
      then have "(of_int (sint v) :: u64) = of_int (2 ^ 63 - 1)" by simp
      then show False using that by (simp add: i64_MAX_def)
    qed
    then show ?thesis
      using arm assms(3) sint_ge [of v] sint_lt [of v]
      by (simp add: unchecked_arm_def verify_def is_multiple_of_def no_check_def range_contains_def AllowedRange_new_def)
  qed
  show "\<not> is_uleb_pair info"
    using assms(3) by (auto simp: adjusted_kind_def is_uleb_pair_def)
  show "rel_size info = ByteSize n \<Longrightarrow> n \<le> 8"
    using arm assms(3) by (auto simp: unchecked_arm_def)
qed

lemma take_bit_arith:
  fixes x y :: "'a::len word"
  shows "take_bit m (take_bit m x + y) = take_bit m (x + y)" "take_bit m (x + take_bit m y) = take_bit m (x + y)"
    "take_bit m (take_bit m x - y) = take_bit m (x - y)" "take_bit m (x - take_bit m y) = take_bit m (x - y)"
  by (transfer; simp add: take_bit_eq_mod mod_simps min_def)+

text \<open>What a kind makes of the value in place and the value of the symbol.\<close>

definition adjusted_value :: "RelocationKind \<Rightarrow> u64 \<Rightarrow> u64 \<Rightarrow> u64" where
  "adjusted_value kind current v =
     (case kind of
        AbsoluteSetWord6 \<Rightarrow> (v AND LOW6_MASK) OR (current AND NOT LOW6_MASK)
      | AbsoluteAddition \<Rightarrow> current + v
      | AbsoluteAdditionWord6 \<Rightarrow> (((current AND LOW6_MASK) + (v AND LOW6_MASK)) AND LOW6_MASK) OR (current AND NOT LOW6_MASK)
      | AbsoluteSubtraction \<Rightarrow> current - v
      | _ \<Rightarrow> (((current AND LOW6_MASK) - (v AND LOW6_MASK)) AND LOW6_MASK) OR (current AND NOT LOW6_MASK))"

text \<open>A relocation of an adjusting kind, with its symbol and value.\<close>

definition adjusts :: "arch \<Rightarrow> (string \<Rightarrow> u32) \<Rightarrow> RelocArch \<Rightarrow> ElfLayout \<Rightarrow> Relocation \<Rightarrow> RelocationKind \<Rightarrow> nat \<Rightarrow> u64 \<Rightarrow> bool" where
  "adjusts a elf A L rel kind n v \<longleftrightarrow>
     (a = Arch_RiscV64 \<or> a = Arch_LoongArch64) \<and> ra_relocation_from_raw A = arch_relocation_from_raw a elf \<and>
     (\<exists>info. arch_relocation_from_raw a elf (rel_raw_type rel) = Some info \<and> rel_kind info = kind \<and> rel_size info = ByteSize n) \<and>
     ra_new_relaxation A (rel_raw_type rel) = (\<lambda>_ _ _ _ _ _ _. Some None) \<and>
     (\<exists>res s l. get_resolution L rel = ok (res, s, l) \<and> value_with_addend L res (rel_addend rel) s = ok v)"

lemma apply_adjusting:
  assumes "adjusts a elf A L rel kind n v" "adjusted_kind kind" "unat offset + n \<le> length out"
    "adjusted_value kind (field out (unat offset) n) v \<noteq> i64_MAX"
  shows "apply_relocation A L sec offset rel cache rest rds out w =
    ok (Normal, patch out (unat offset) n (adjusted_value kind (field out (unat offset) n) v), w)"
proof -
  obtain info res s l where a: "a = Arch_RiscV64 \<or> a = Arch_LoongArch64" and raw: "ra_relocation_from_raw A = arch_relocation_from_raw a elf"
    and info: "arch_relocation_from_raw a elf (rel_raw_type rel) = Some info" "rel_kind info = kind" "rel_size info = ByteSize n"
    and rx: "ra_new_relaxation A (rel_raw_type rel) = (\<lambda>_ _ _ _ _ _ _. Some None)"
    and res: "get_resolution L rel = ok (res, s, l)" "value_with_addend L res (rel_addend rel) s = ok v"
    using assms(1) unfolding adjusts_def by blast
  note un = adjusted_unchecked [OF info(1) a]
  have kind: "adjusted_kind (rel_kind info)" using assms(2) info(2) by simp
  have "relocation_value A L sec info rel res s p (rel_addend rel) cache rest rds w = ok (v, w)" for p
    using assms(2) info(2) res(2) by (auto simp: adjusted_kind_def relocation_value_def table_free_value_def Let_def)
  moreover have "adjust_relocation_based_on_value v info out (unat offset) = ok (adjusted_value kind (field out (unat offset) n) v)"
    using assms(2,3) info un(3) [OF kind]
    by (auto simp: adjusted_kind_def adjust_relocation_based_on_value_def adjusted_value_def get_range_def field_def Let_def)
  ultimately have "finish_relocation A L sec info rel res s offset (rel_addend rel) cache rest rds out w =
      ok (patch out (unat offset) n (adjusted_value kind (field out (unat offset) n) v), w)"
    using kind un(1) [OF kind assms(4)] un(2) [OF kind] un(3) [OF kind info(3)] assms(3) info(3) by (simp add: finish_relocation_def write_at_patch)
  moreover have "rel_kind info \<noteq> None_kind" "rel_kind info \<noteq> Alignment_kind"
    using kind by (auto simp: adjusted_kind_def)
  ultimately show ?thesis
    using info raw res rx by (simp add: apply_relocation_def chosen_relaxation_def)
qed

lemma apply_two:
  assumes "adjusts a elf A L r1 k1 n v1" "adjusts a elf A L r2 k2 n v2" "adjusted_kind k1" "adjusted_kind k2"
    "rel_offset r2 = rel_offset r1" "unat (rel_offset r1) + n \<le> length out"
    "adjusted_value k1 (field out (unat (rel_offset r1)) n) v1 = u1" "u1 \<noteq> i64_MAX"
    "adjusted_value k2 (take_bit (8 * n) u1) v2 = u2" "u2 \<noteq> i64_MAX"
  shows "apply_relocations_loop A L sec None [Some r1, Some r2] Normal cache None out w =
    ok (patch out (unat (rel_offset r1)) n u2, w)"
  using assms(5-10) by (simp add: apply_adjusting [OF assms(1,3)] apply_adjusting [OF assms(2,4)] Let_def)

text \<open>
  (C7) The difference of two labels: an \<open>ADD\<close> relocation followed by a \<open>SUB\<close> relocation at the same
  place leaves there what was there before plus the first value minus the second, modulo the
  size of the field, and changes no other byte. Neither of the two values that are written may be
  the largest signed one.
\<close>

theorem label_difference:
  assumes "adjusts a elf A L add_rel AbsoluteAddition n v1" "adjusts a elf A L sub_rel AbsoluteSubtraction n v2"
    and "rel_offset add_rel = offset" "rel_offset sub_rel = offset" "unat offset + n \<le> length out"
    and "field out (unat offset) n + v1 \<noteq> i64_MAX" "take_bit (8 * n) (field out (unat offset) n + v1) - v2 \<noteq> i64_MAX"
  shows "\<exists>out'. apply_relocations_loop A L sec None [Some add_rel, Some sub_rel] Normal cache None out w = ok (out', w) \<and>
    field out' (unat offset) n = take_bit (8 * n) (field out (unat offset) n + v1 - v2) \<and>
    length out' = length out \<and> take (unat offset) out' = take (unat offset) out \<and>
    drop (unat offset + n) out' = drop (unat offset + n) out"
proof -
  have "apply_relocations_loop A L sec None [Some add_rel, Some sub_rel] Normal cache None out w =
      ok (patch out (unat offset) n (take_bit (8 * n) (field out (unat offset) n + v1) - v2), w)"
    using apply_two [OF assms(1,2)] assms(3-7) by (simp add: adjusted_kind_def adjusted_value_def)
  then show ?thesis
    using assms(5) by (simp add: take_bit_arith) (simp add: patch_def)
qed

lemma low6: "v AND LOW6_MASK = take_bit 6 v"
  by (simp add: LOW6_MASK_def take_bit_eq_mask mask_eq_exp_minus_1)

lemma bit_LOW6_MASK: "bit LOW6_MASK k \<longleftrightarrow> k < 6"
  using bit_mask_iff [of 6 k, where 'a = u64] by (auto simp: LOW6_MASK_def mask_eq_exp_minus_1)

lemma bit_field_1: "bit (field out offset (Suc 0)) k \<Longrightarrow> k < 8"
  by (auto simp: field_def bit_from_le_bytes min_def split: if_splits)

lemma low6_parts:
  assumes "c = field out offset (Suc 0)"
  shows "take_bit 6 (take_bit 8 (take_bit 6 x OR (c AND NOT LOW6_MASK))) = take_bit 6 x"
    "take_bit 8 (take_bit 6 x OR (c AND NOT LOW6_MASK)) AND NOT LOW6_MASK = c AND NOT LOW6_MASK"
    "take_bit 8 (take_bit 6 x OR (c AND NOT LOW6_MASK)) = take_bit 6 x OR (c AND NOT LOW6_MASK)"
    "c AND NOT LOW6_MASK = c AND 0xc0" "take_bit 6 x OR (c AND NOT LOW6_MASK) \<noteq> i64_MAX"
proof -
  have c: "bit c k \<Longrightarrow> k < 8" for k using bit_field_1 assms by simp
  have high2: "(0xc0 :: u64) = push_bit 6 (mask 2)" by (simp add: mask_eq_exp_minus_1 push_bit_eq_mult)
  have top: "bit (0xc0 :: u64) k \<longleftrightarrow> 6 \<le> k \<and> k < 8" for k
    unfolding high2 by (auto simp: bit_push_bit_iff bit_mask_iff)
  show "take_bit 6 (take_bit 8 (take_bit 6 x OR (c AND NOT LOW6_MASK))) = take_bit 6 x"
    by (rule bit_word_eqI) (auto simp: bit_take_bit_iff bit_or_iff bit_and_iff bit_not_iff_eq bit_LOW6_MASK)
  show "take_bit 8 (take_bit 6 x OR (c AND NOT LOW6_MASK)) AND NOT LOW6_MASK = c AND NOT LOW6_MASK"
    by (rule bit_word_eqI) (auto simp: bit_take_bit_iff bit_or_iff bit_and_iff bit_not_iff_eq bit_LOW6_MASK dest: c)
  show "take_bit 8 (take_bit 6 x OR (c AND NOT LOW6_MASK)) = take_bit 6 x OR (c AND NOT LOW6_MASK)"
    by (rule bit_word_eqI) (auto simp: bit_take_bit_iff bit_or_iff bit_and_iff bit_not_iff_eq bit_LOW6_MASK dest: c)
  show "c AND NOT LOW6_MASK = c AND 0xc0"
    by (rule bit_word_eqI) (unfold bit_and_iff bit_not_iff_eq bit_LOW6_MASK top, use c in auto)
  have "\<not> bit (take_bit 6 x OR (c AND NOT LOW6_MASK)) 8"
    using c [of 8] by (auto simp: bit_take_bit_iff bit_or_iff bit_and_iff bit_not_iff_eq)
  moreover have "bit i64_MAX 8" by (simp add: i64_MAX_def)
  ultimately show "take_bit 6 x OR (c AND NOT LOW6_MASK) \<noteq> i64_MAX" by metis
qed

text \<open>
  (C8) The 6-bit variant, as call frame information uses it: \<open>SET6\<close> (or \<open>ADD6\<close> on LoongArch) followed by
  \<open>SUB6\<close> leaves the difference modulo 64 in the low six bits, keeps the opcode in the high two bits,
  and changes no other byte.
\<close>

theorem label_difference_6:
  assumes "adjusts a elf A L set_rel kind 1 v1" "kind = AbsoluteSetWord6 \<or> kind = AbsoluteAdditionWord6"
    and "adjusts a elf A L sub_rel AbsoluteSubtractionWord6 1 v2"
    and "rel_offset set_rel = offset" "rel_offset sub_rel = offset" "unat offset < length out"
  shows "\<exists>out' v. apply_relocations_loop A L sec None [Some set_rel, Some sub_rel] Normal cache None out w = ok (out', w) \<and>
    v = (if kind = AbsoluteSetWord6 then v1 else field out (unat offset) 1 + v1) \<and>
    field out' (unat offset) 1 = take_bit 6 (v - v2) OR (field out (unat offset) 1 AND 0xc0) \<and>
    length out' = length out \<and> take (unat offset) out' = take (unat offset) out \<and>
    drop (unat offset + 1) out' = drop (unat offset + 1) out"
proof -
  let ?c = "field out (unat offset) 1"
  let ?v = "if kind = AbsoluteSetWord6 then v1 else ?c + v1"
  let ?u1 = "take_bit 6 ?v OR (?c AND NOT LOW6_MASK)" and ?u2 = "take_bit 6 (?v - v2) OR (?c AND NOT LOW6_MASK)"
  note parts = low6_parts [OF refl [of "field out (unat offset) (Suc 0)"]]
  have u1: "adjusted_value kind ?c v1 = ?u1"
    using assms(2) by (auto simp: adjusted_value_def low6 take_bit_arith)
  have u2: "adjusted_value AbsoluteSubtractionWord6 (take_bit 8 ?u1) v2 = ?u2"
    by (simp only: adjusted_value_def RelocationKind.case low6 parts(1,2) take_bit_arith One_nat_def)
  have loop: "apply_relocations_loop A L sec None [Some set_rel, Some sub_rel] Normal cache None out w =
      ok (patch out (unat offset) 1 ?u2, w)"
    using apply_two [OF assms(1,3), of out ?u1 ?u2 sec cache w] assms(2,4-6) u1 u2 parts(5)
    by (auto simp: adjusted_kind_def)
  have "field (patch out (unat offset) 1 ?u2) (unat offset) 1 = take_bit 8 ?u2"
    using assms(6) field_patch [of "unat offset" 1 out ?u2] by simp
  also have "\<dots> = take_bit 6 (?v - v2) OR (?c AND 0xc0)"
    by (simp only: One_nat_def parts(3)) (simp only: parts(4))
  finally have result: "field (patch out (unat offset) 1 ?u2) (unat offset) 1 = take_bit 6 (?v - v2) OR (?c AND 0xc0)" .
  show ?thesis
  proof (intro exI conjI)
    show "apply_relocations_loop A L sec None [Some set_rel, Some sub_rel] Normal cache None out w =
      ok (patch out (unat offset) 1 ?u2, w)" by (rule loop)
    show "field (patch out (unat offset) 1 ?u2) (unat offset) 1 = take_bit 6 (?v - v2) OR (?c AND 0xc0)" by (rule result)
  qed (use assms(6) in \<open>simp_all add: patch_def\<close>)
qed

section \<open>PC-relative fields\<close>


section \<open>Examples\<close>

text \<open>Two labels of a RISC-V object, and a call on x86-64.\<close>

definition label_rel :: "u32 \<Rightarrow> nat \<Rightarrow> Relocation" where
  "label_rel r i = \<lparr>rel_offset = 2, rel_raw_type = r, rel_symbol = Some i, rel_addend = 0\<rparr>"

definition label_elf :: "string \<Rightarrow> u32" where
  "label_elf n = (if n = ''R_RISCV_ADD32'' then 1 else if n = ''R_RISCV_SUB32'' then 2 else if n = ''R_RISCV_SET6'' then 3
     else if n = ''R_RISCV_SUB6'' then 4 else if n = ''R_X86_64_PC32'' then 5 else 0)"

definition label_arch :: "arch \<Rightarrow> RelocArch" where
  "label_arch a = \<lparr>ra_arch = \<lparr>get_dynamic_relocation_type = (\<lambda>_. 0), arch_write_plt_entry = (\<lambda>entry _ _. ok entry),
     get_dtv_offset = 0, object_r_info = (\<lambda>_ _. 0)\<rparr>,
     ra_relocation_from_raw = arch_relocation_from_raw a label_elf, ra_new_relaxation = (\<lambda>_ _ _ _ _ _ _ _. Some None),
     ra_high_part_relocations = [], ra_fill_nop_padding = (\<lambda>out _ _. Some out), ra_uleb = (\<lambda>_. [])\<rparr>"

definition label_resolution :: "nat \<Rightarrow> Resolution" where
  "label_resolution i = \<lparr>rs_raw_value = [0x1010, 0x1030] ! i, rs_dynamic_symbol_index = None, rs_got_address = None,
     rs_plt_address = None, rs_flags = 0x40\<rparr>"

definition label_layout :: ElfLayout where
  "label_layout = \<lparr>el_output_kind = SharedObject, el_relax = True, el_definition = (\<lambda>i. i),
     el_resolutions = [Some (label_resolution 0), Some (label_resolution 1)],
     el_flags_for_symbol = (\<lambda>_. 0x40), el_symbol_id_start = 0, el_symbol = (\<lambda>_. ok (None, 0)), el_sections = [],
     el_section_resolutions = [], el_section_relax_deltas = (\<lambda>_. None), el_merged_string_output_address = (\<lambda>_ _. ok None),
     el_got_base = 0, el_tls_start_address = 0, el_tls_end_address = 0, el_tp_offset_start = 0, el_tlsld_got_entry = None\<rparr>"

definition label_section :: ApplySection where
  "label_section = \<lparr>as_section_address = 0x2000, as_is_writable = False, as_section_flags = \<lparr>sf_is_alloc = True, sf_is_executable = True\<rparr>\<rparr>"

lemma label_values:
  assumes "i < 2"
  shows "get_resolution label_layout (label_rel r i) = ok (label_resolution i, i, i)"
    "value_with_addend label_layout (label_resolution i) 0 i = ok ([0x1010, 0x1030] ! i)"
proof -
  have flags: "\<not> is_ifunc (0x40 :: u16)" "merge_flags 0x40 0x40 = (0x40 :: u16)" by code_simp+
  show "get_resolution label_layout (label_rel r i) = ok (label_resolution i, i, i)"
    using assms flags by (auto simp: get_resolution_def label_rel_def label_layout_def find_resolution_def merged_symbol_resolution_def
        get_def less_2_cases_iff label_resolution_def)
  show "value_with_addend label_layout (label_resolution i) 0 i = ok ([0x1010, 0x1030] ! i)"
    using assms flags by (auto simp: value_with_addend_def less_2_cases_iff label_resolution_def)
qed

lemma riscv_label_infos:
  "arch_relocation_from_raw Arch_RiscV64 label_elf 1 = Some \<lparr>rel_kind = AbsoluteAddition, rel_size = ByteSize 4, rel_mask = None,
     rel_range = no_check, rel_alignment = 1, rel_bias = 0\<rparr>"
  "arch_relocation_from_raw Arch_RiscV64 label_elf 2 = Some \<lparr>rel_kind = AbsoluteSubtraction, rel_size = ByteSize 4, rel_mask = None,
     rel_range = no_check, rel_alignment = 1, rel_bias = 0\<rparr>"
  "arch_relocation_from_raw Arch_RiscV64 label_elf 3 = Some \<lparr>rel_kind = AbsoluteSetWord6, rel_size = ByteSize 1, rel_mask = None,
     rel_range = no_check, rel_alignment = 1, rel_bias = 0\<rparr>"
  "arch_relocation_from_raw Arch_RiscV64 label_elf 4 = Some \<lparr>rel_kind = AbsoluteSubtractionWord6, rel_size = ByteSize 1, rel_mask = None,
     rel_range = no_check, rel_alignment = 1, rel_bias = 0\<rparr>"
  by (simp_all add: arch_relocation_from_raw_def riscv_relocation_type_from_raw_def match_arms_def riscv_arms_defs label_elf_def)

lemma label_adjusts:
  assumes "i < 2" "r \<in> {1, 2, 3, 4}"
  shows "adjusts Arch_RiscV64 label_elf (label_arch Arch_RiscV64) label_layout (label_rel r i)
    (if r = 1 then AbsoluteAddition else if r = 2 then AbsoluteSubtraction else if r = 3 then AbsoluteSetWord6 else AbsoluteSubtractionWord6)
    (if r \<le> 2 then 4 else 1) ([0x1010, 0x1030] ! i)"
  using assms riscv_label_infos label_values(1) [OF assms(1), of r] label_values(2) [OF assms(1)]
  by (auto simp: adjusts_def label_arch_def) (auto simp: label_rel_def)

theorem label_difference_witness:
  "\<forall>w. \<exists>out'. apply_relocations_loop (label_arch Arch_RiscV64) label_layout label_section None [Some (label_rel 1 1), Some (label_rel 2 0)]
      Normal empty_cache None [1, 2, 0, 0, 0, 0, 7] w = ok (out', w) \<and> field out' 2 4 = 0x20" (is "\<forall>w. ?P w")
proof
  fix w
  have "adjusts Arch_RiscV64 label_elf (label_arch Arch_RiscV64) label_layout (label_rel 1 1) AbsoluteAddition 4 0x1030"
    "adjusts Arch_RiscV64 label_elf (label_arch Arch_RiscV64) label_layout (label_rel 2 0) AbsoluteSubtraction 4 0x1010"
    using label_adjusts [of 1 1] label_adjusts [of 0 2] by simp_all
  from label_difference [OF this, of 2 "[1, 2, 0, 0, 0, 0, 7]" label_section empty_cache w]
  show "?P w" by (auto simp: label_rel_def field_def i64_MAX_def)
qed

theorem label_difference_6_witness:
  "\<forall>w. \<exists>out'. apply_relocations_loop (label_arch Arch_RiscV64) label_layout label_section None [Some (label_rel 3 1), Some (label_rel 4 0)]
      Normal empty_cache None [1, 2, 0x41, 7] w = ok (out', w) \<and> field out' 2 1 = 0x60" (is "\<forall>w. ?P w")
proof
  fix w
  have "adjusts Arch_RiscV64 label_elf (label_arch Arch_RiscV64) label_layout (label_rel 3 1) AbsoluteSetWord6 1 0x1030"
    "adjusts Arch_RiscV64 label_elf (label_arch Arch_RiscV64) label_layout (label_rel 4 0) AbsoluteSubtractionWord6 1 0x1010"
    using label_adjusts [of 1 3] label_adjusts [of 0 4] by simp_all
  from label_difference_6 [OF this(1) _ this(2), of 2 "[1, 2, 0x41, 7]" label_section empty_cache w]
  show "?P w" by (auto simp: label_rel_def field_def)
qed


end
