(* ===== verification/New_Relaxation.thy ===== *)
theory New_Relaxation
  imports Apply_Reloc Plt_Entry
begin

text \<open>
  Model of \<open>new_relaxation\<close> of \<open>libwild/src/elf_x86_64.rs\<close>, \<open>elf_aarch64.rs\<close>, \<open>elf_riscv64.rs\<close> and
  \<open>elf_loongarch64.rs\<close>: from the type of a relocation, the flags of its symbol, the kind of output and the
  bytes of the instruction they choose a rewrite and the relocation to apply instead. With it, the four
  architectures as \<open>apply_relocation\<close> and \<open>process_relocation\<close> see them (\<open>elf_reloc_arch\<close>).

  The outer \<^const>\<open>None\<close> is a panic. The macro \<open>rel_info_from_type!\<close> looks up the table of relocation types
  when the linker is compiled.
\<close>

section \<open>Relaxations\<close>

record 'k Relaxation =
  rlx_kind :: 'k
  rlx_rel_info :: RelocationKindInfo
  rlx_mandatory :: bool

type_synonym 'k relaxation_choice = "'k Relaxation option option"

abbreviation no_relaxation :: "'k relaxation_choice" where
  "no_relaxation \<equiv> Some None"

definition relax :: "RelocationKindInfo option \<Rightarrow> 'k \<Rightarrow> bool \<Rightarrow> 'k relaxation_choice" where
  "relax info k mandatory =
     map_option (\<lambda>info. Some \<lparr>rlx_kind = k, rlx_rel_info = info, rlx_mandatory = mandatory\<rparr>) info"

section \<open>x86-64\<close>

text \<open>\<open>section_bytes.get(offset - n..offset - m)\<close>: the subtractions wrap around, and the range is then empty.\<close>

definition get_back_range :: "bytes \<Rightarrow> nat \<Rightarrow> nat \<Rightarrow> nat \<Rightarrow> bytes option" where
  "get_back_range b offset n m = (if n \<le> offset then get_range b (offset - n) (offset - m) else None)"

datatype TlsGdForm = Regular | Large

definition TlsGdForm_identify :: "bytes \<Rightarrow> nat \<Rightarrow> TlsGdForm option" where
  "TlsGdForm_identify b offset =
     (if get_back_range b offset 4 0 = Some [0x66, 0x48, 0x8d, 0x3d] \<and>
         get_range b (offset + 4) (offset + 8) = Some [0x66, 0x66, 0x48, 0xe8] then Some Regular
      else if get_back_range b offset 3 0 = Some [0x48, 0x8d, 0x3d] \<and>
         get_range b (offset + 4) (offset + 6) = Some [0x48, 0xb8] \<and>
         get_range b (offset + 14) (offset + 19) = Some [0x48, 0x01, 0xd8, 0xff, 0xd0] then Some Large
      else None)"

text \<open>The guard of the types with a REX2 variant: the test of the prefix and the length.\<close>

definition code_4_guard :: "bool \<Rightarrow> bytes \<Rightarrow> nat \<Rightarrow> bool option" where
  "code_4_guard is_code_4 b offset =
     do {
       prefixed \<leftarrow> (if is_code_4 \<and> 4 \<le> offset then map_option (\<lambda>x. x = 0xd5) (get b (offset - 4)) else Some False);
       Some (prefixed \<or> 3 \<le> offset)
     }"

definition x86_64_rex_gotpcrelx ::
    "(string \<Rightarrow> RelocationKindInfo option) \<Rightarrow> bool \<Rightarrow> bytes \<Rightarrow> nat \<Rightarrow> ValueFlags \<Rightarrow> OutputKind \<Rightarrow> X86_64.RelaxationKind relaxation_choice" where
  "x86_64_rex_gotpcrelx info is_code_4 b offset flags output_kind =
     do {
       b1 \<leftarrow> get_back b offset 2;
       rex \<leftarrow> get_back b offset 3;
       let is_absolute = is_absolute flags \<and> \<not> is_dynamic flags;
       let is_absolute_address = is_address flags \<and> \<not> is_relocatable output_kind;
       let inst_offset = (if is_code_4 then 4 else 3);
       let mandatory = is_static_executable output_kind;
       if rex \<noteq> 0x48 \<and> rex \<noteq> 0x4c then no_relaxation
       else if is_absolute \<or> is_absolute_address then
         (if b1 = 0x8b then relax (info ''R_X86_64_32'') (RexMovIndirectToAbsolute inst_offset) mandatory
          else if b1 = 0x2b then relax (info ''R_X86_64_32'') (RexSubIndirectToAbsolute inst_offset) mandatory
          else if b1 = 0x3b then relax (info ''R_X86_64_32'') (RexCmpIndirectToAbsolute inst_offset) mandatory
          else no_relaxation)
       else if \<not> is_interposable flags then
         (if b1 = 0x8b then relax (info ''R_X86_64_PC32'') MovIndirectToLea mandatory else no_relaxation)
       else no_relaxation
     }"

definition x86_64_gotpcrelx ::
    "(string \<Rightarrow> RelocationKindInfo option) \<Rightarrow> bytes \<Rightarrow> nat \<Rightarrow> ValueFlags \<Rightarrow> OutputKind \<Rightarrow> X86_64.RelaxationKind relaxation_choice" where
  "x86_64_gotpcrelx info b offset flags output_kind =
     (let is_absolute = is_absolute flags \<and> \<not> is_dynamic flags;
          is_absolute_address = is_address flags \<and> \<not> is_relocatable output_kind;
          mandatory = is_static_executable output_kind in
      case get_back b offset 2 of
        None \<Rightarrow> no_relaxation
      | Some opcode \<Rightarrow>
          if opcode = 0x8b \<and> (is_absolute \<or> is_absolute_address) then
            relax (info ''R_X86_64_32'') MovIndirectToAbsolute mandatory
          else if opcode = 0x8b \<and> \<not> is_interposable flags then
            relax (info ''R_X86_64_PC32'') MovIndirectToLea mandatory
          else if \<not> is_interposable flags then
            (case get_back_range b offset 2 0 of
               None \<Rightarrow> no_relaxation
             | Some bs \<Rightarrow>
                 if bs = [0xff, 0x15] then relax (info ''R_X86_64_PC32'') CallIndirectToRelative mandatory
                 else if bs = [0xff, 0x25] then relax (info ''R_X86_64_PC32'') JmpIndirectToRelative mandatory
                 else no_relaxation)
          else no_relaxation)"

definition x86_64_gottpoff ::
    "(string \<Rightarrow> RelocationKindInfo option) \<Rightarrow> bool \<Rightarrow> bytes \<Rightarrow> nat \<Rightarrow> X86_64.RelaxationKind relaxation_choice" where
  "x86_64_gottpoff info is_code_4 b offset =
     (let inst_offset = (if is_code_4 then 4 else 3) in
      case get_back_range b offset 3 1 of
        Some [rex, opcode] \<Rightarrow>
          if (rex = 0x48 \<or> rex = 0x4c) \<and> opcode = 0x8b then
            relax (info ''R_X86_64_TPOFF32'') (RexMovIndirectToAbsolute inst_offset) False
          else if (rex = 0x48 \<or> rex = 0x4c) \<and> opcode = 0x03 then
            relax (info ''R_X86_64_TPOFF32'') (RexAddIndirectToAbsolute inst_offset) False
          else no_relaxation
      | _ \<Rightarrow> no_relaxation)"

definition x86_64_code_6_gottpoff ::
    "(string \<Rightarrow> RelocationKindInfo option) \<Rightarrow> bytes \<Rightarrow> nat \<Rightarrow> OutputKind \<Rightarrow> X86_64.RelaxationKind relaxation_choice" where
  "x86_64_code_6_gottpoff info b offset output_kind =
     (case get_back_range b offset 6 1 of
        Some [x, l5, l4, l3, y] \<Rightarrow>
          if x = 0x62 \<and> (y = 1 \<or> y = 3) \<and> l5 AND 0x47 = 0x44 \<and> l4 AND 0x87 = 0x84 \<and> l3 AND 0x14 \<noteq> 0 then
            relax (info ''R_X86_64_TPOFF32'') (RexAddIndirectToAbsolute 6) (is_static_executable output_kind)
          else no_relaxation
      | _ \<Rightarrow> no_relaxation)"

definition x86_64_tlsgd ::
    "(string \<Rightarrow> RelocationKindInfo option) \<Rightarrow> bytes \<Rightarrow> nat \<Rightarrow> ValueFlags \<Rightarrow> OutputKind \<Rightarrow> X86_64.RelaxationKind relaxation_choice" where
  "x86_64_tlsgd info b offset flags output_kind =
     (case TlsGdForm_identify b offset of
        None \<Rightarrow> no_relaxation
      | Some form \<Rightarrow>
          if \<not> is_interposable flags then
            relax (info ''R_X86_64_TPOFF32'')
              (case form of Regular \<Rightarrow> TlsGdToLocalExec | Large \<Rightarrow> TlsGdToLocalExecLarge) (is_static_executable output_kind)
          else (case form of
              Regular \<Rightarrow> relax (info ''R_X86_64_GOTTPOFF'') TlsGdToInitialExec False
            | Large \<Rightarrow> no_relaxation))"

definition x86_64_tlsld ::
    "(string \<Rightarrow> RelocationKindInfo option) \<Rightarrow> bytes \<Rightarrow> nat \<Rightarrow> OutputKind \<Rightarrow> X86_64.RelaxationKind relaxation_choice" where
  "x86_64_tlsld info b offset output_kind =
     (if get_back_range b offset 3 0 = Some [0x48, 0x8d, 0x3d] then
        (case get_range b (offset + 4) (offset + 6) of
           Some [x, y] \<Rightarrow>
             if x = 0xe8 then relax (info ''R_X86_64_NONE'') TlsLdToLocalExec (is_static_executable output_kind)
             else if x = 0x48 \<and> y = 0xb8 then relax (info ''R_X86_64_NONE'') TlsLdToLocalExec64 False
             else if x = 0xff \<and> y = 0x15 then
               relax (info ''R_X86_64_NONE'') TlsLdToLocalExecNoPlt (is_static_executable output_kind)
             else no_relaxation
         | _ \<Rightarrow> no_relaxation)
      else no_relaxation)"

definition is_lea :: "bytes \<Rightarrow> nat \<Rightarrow> bool" where
  "is_lea b offset \<longleftrightarrow> get_back_range b offset 3 1 = Some [0x48, 0x8d] \<or> get_back_range b offset 3 1 = Some [0x4c, 0x8d]"

definition x86_64_tlsdesc ::
    "(string \<Rightarrow> RelocationKindInfo option) \<Rightarrow> bool \<Rightarrow> bytes \<Rightarrow> nat \<Rightarrow> ValueFlags \<Rightarrow> OutputKind \<Rightarrow> X86_64.RelaxationKind relaxation_choice" where
  "x86_64_tlsdesc info is_code_4 b offset flags output_kind =
     (let mandatory = is_static_executable output_kind;
          to_initial_exec =
            (if \<not> is_code_4 \<and> is_executable output_kind \<and> is_lea b offset
             then relax (info ''R_X86_64_GOTTPOFF'') TlsDescToInitialExec mandatory else no_relaxation) in
      if \<not> is_interposable flags \<and> is_executable output_kind then
        (case code_4_guard is_code_4 b offset of
           None \<Rightarrow> None
         | Some True \<Rightarrow>
             if is_lea b offset
             then relax (info ''R_X86_64_TPOFF32'') (TlsDescToLocalExec (if is_code_4 then 4 else 3)) mandatory
             else no_relaxation
         | Some False \<Rightarrow> to_initial_exec)
      else to_initial_exec)"

definition x86_64_new_relaxation ::
    "(string \<Rightarrow> u32) \<Rightarrow> u32 \<Rightarrow> bytes \<Rightarrow> u64 \<Rightarrow> ValueFlags \<Rightarrow> OutputKind \<Rightarrow> SectionFlags \<Rightarrow> bool \<Rightarrow> SectionDeltas option \<Rightarrow>
      X86_64.RelaxationKind relaxation_choice" where
  "x86_64_new_relaxation elf r b offset_in_section flags output_kind section_flags non_zero_address relax_deltas =
     (let info = (\<lambda>name. relocation_from_raw elf (elf name)); offset = unat offset_in_section;
          interposable = is_interposable flags; executable = is_executable output_kind;
          mandatory = is_static_executable output_kind in
      if is_ifunc flags then
        (if r = elf ''R_X86_64_PC32'' then relax (info ''R_X86_64_PLT32'') X86_64.NoOp True else no_relaxation)
      else if \<not> sf_is_executable section_flags then no_relaxation
      else if r = elf ''R_X86_64_REX_GOTPCRELX'' \<or> r = elf ''R_X86_64_CODE_4_GOTPCRELX'' then
        (let is_code_4 = (r \<noteq> elf ''R_X86_64_REX_GOTPCRELX'') in
         case code_4_guard is_code_4 b offset of
           None \<Rightarrow> None
         | Some True \<Rightarrow> x86_64_rex_gotpcrelx info is_code_4 b offset flags output_kind
         | Some False \<Rightarrow> no_relaxation)
      else if r = elf ''R_X86_64_GOTPCRELX'' then x86_64_gotpcrelx info b offset flags output_kind
      else if r = elf ''R_X86_64_GOTPCREL'' then
        (if \<not> interposable \<and> 2 \<le> offset \<and> get_back b offset 2 = Some 0x8b
         then relax (info ''R_X86_64_PC32'') MovIndirectToLea False else no_relaxation)
      else if r = elf ''R_X86_64_GOTTPOFF'' \<or> r = elf ''R_X86_64_CODE_4_GOTTPOFF'' then
        (let is_code_4 = (r \<noteq> elf ''R_X86_64_GOTTPOFF'') in
         if executable \<and> \<not> interposable then
           (case code_4_guard is_code_4 b offset of
              None \<Rightarrow> None
            | Some True \<Rightarrow> x86_64_gottpoff info is_code_4 b offset
            | Some False \<Rightarrow> no_relaxation)
         else no_relaxation)
      else if r = elf ''R_X86_64_CODE_6_GOTTPOFF'' then
        (if executable \<and> \<not> interposable \<and> 6 \<le> offset then x86_64_code_6_gottpoff info b offset output_kind else no_relaxation)
      else if r = elf ''R_X86_64_PLT32'' then
        (if \<not> interposable then relax (info ''R_X86_64_PC32'') X86_64.NoOp mandatory else no_relaxation)
      else if r = elf ''R_X86_64_PLTOFF64'' then
        (if \<not> interposable then relax (info ''R_X86_64_GOTOFF64'') X86_64.NoOp mandatory else no_relaxation)
      else if r = elf ''R_X86_64_TLSGD'' then
        (if executable then x86_64_tlsgd info b offset flags output_kind else no_relaxation)
      else if r = elf ''R_X86_64_TLSLD'' then
        (if executable then x86_64_tlsld info b offset output_kind else no_relaxation)
      else if r = elf ''R_X86_64_GOTPC32_TLSDESC'' \<or> r = elf ''R_X86_64_CODE_4_GOTPC32_TLSDESC'' then
        x86_64_tlsdesc info (r \<noteq> elf ''R_X86_64_GOTPC32_TLSDESC'') b offset flags output_kind
      else if r = elf ''R_X86_64_TLSDESC_CALL'' then
        (if executable then relax (info ''R_X86_64_NONE'') SkipTlsDescCall mandatory else no_relaxation)
      else no_relaxation)"

section \<open>AArch64\<close>

definition aarch64_new_relaxation ::
    "(string \<Rightarrow> u32) \<Rightarrow> u32 \<Rightarrow> bytes \<Rightarrow> u64 \<Rightarrow> ValueFlags \<Rightarrow> OutputKind \<Rightarrow> SectionFlags \<Rightarrow> bool \<Rightarrow> SectionDeltas option \<Rightarrow>
      AArch64.RelaxationKind relaxation_choice" where
  "aarch64_new_relaxation elf r b offset_in_section flags output_kind section_flags non_zero_address relax_deltas =
     do {
       relocation \<leftarrow> aarch64_relocation_type_from_raw elf r;
       let info = (\<lambda>name. aarch64_relocation_type_from_raw elf (elf name));
       let interposable = is_interposable flags;
       let executable = is_executable output_kind;
       let mandatory = is_static_executable output_kind;
       let is_branch = (r = elf ''R_AARCH64_CALL26'' \<or> r = elf ''R_AARCH64_JUMP26'');
       if is_ifunc flags then
         (if is_branch then relax (Some (relocation\<lparr>rel_kind := PltRelative\<rparr>)) AArch64.NoOp True else no_relaxation)
       else if \<not> sf_is_executable section_flags then no_relaxation
       else if is_branch \<and> \<not> interposable then
         relax (Some (relocation\<lparr>rel_kind := RelocationKind.Relative\<rparr>)) AArch64.NoOp mandatory
       else if r = elf ''R_AARCH64_TLSDESC_ADR_PAGE21'' \<and> executable \<and> \<not> interposable then
         relax (info ''R_AARCH64_NONE'') AArch64.ReplaceWithNop mandatory
       else if r = elf ''R_AARCH64_TLSDESC_LD64_LO12'' \<and> executable \<and> \<not> interposable then
         relax (info ''R_AARCH64_NONE'') AArch64.ReplaceWithNop mandatory
       else if r = elf ''R_AARCH64_TLSDESC_ADD_LO12'' \<and> executable \<and> \<not> interposable then
         relax (info ''R_AARCH64_TLSLE_MOVW_TPREL_G1'') MovzX0Lsl16 mandatory
       else if r = elf ''R_AARCH64_TLSDESC_CALL'' \<and> executable \<and> \<not> interposable then
         relax (info ''R_AARCH64_TLSLE_MOVW_TPREL_G0_NC'') MovkX0 mandatory
       else if r = elf ''R_AARCH64_TLSDESC_ADR_PAGE21'' \<and> executable then
         relax (info ''R_AARCH64_NONE'') AArch64.ReplaceWithNop mandatory
       else if r = elf ''R_AARCH64_TLSDESC_LD64_LO12'' \<and> executable then
         relax (info ''R_AARCH64_NONE'') AArch64.ReplaceWithNop mandatory
       else if r = elf ''R_AARCH64_TLSDESC_ADD_LO12'' \<and> executable then
         relax (info ''R_AARCH64_TLSIE_ADR_GOTTPREL_PAGE21'') AdrpX0 mandatory
       else if r = elf ''R_AARCH64_TLSDESC_CALL'' \<and> executable then
         relax (info ''R_AARCH64_TLSIE_LD64_GOTTPREL_LO12_NC'') LdrX0 mandatory
       else if r = elf ''R_AARCH64_TLSIE_ADR_GOTTPREL_PAGE21'' \<and> executable \<and> \<not> interposable then
         relax (info ''R_AARCH64_TLSLE_MOVW_TPREL_G1'') MovzXnLsl16 False
       else if r = elf ''R_AARCH64_TLSIE_LD64_GOTTPREL_LO12_NC'' \<and> executable \<and> \<not> interposable then
         relax (info ''R_AARCH64_TLSLE_MOVW_TPREL_G0_NC'') MovkXn False
       else no_relaxation
     }"

section \<open>RISC-V\<close>

definition is_jalr_deleted :: "bytes \<Rightarrow> nat \<Rightarrow> bool" where
  "is_jalr_deleted b offset =
     (if length b < offset + 8 then True
      else let auipc_rd = drop_bit 7 (word_at b offset) AND 0x1f; next_word = word_at b (offset + 4) in
        \<not> (next_word AND 0x7f = 0x67 \<and> drop_bit 15 next_word AND 0x1f = auipc_rd))"

definition riscv_new_relaxation ::
    "(string \<Rightarrow> u32) \<Rightarrow> u32 \<Rightarrow> bytes \<Rightarrow> u64 \<Rightarrow> ValueFlags \<Rightarrow> OutputKind \<Rightarrow> SectionFlags \<Rightarrow> bool \<Rightarrow> SectionDeltas option \<Rightarrow>
      RiscV64.RelaxationKind relaxation_choice" where
  "riscv_new_relaxation elf r b offset_in_section flags output_kind section_flags non_zero_address relax_deltas =
     do {
       relocation \<leftarrow> riscv_relocation_type_from_raw elf r;
       let info = (\<lambda>name. riscv_relocation_type_from_raw elf (elf name));
       let offset = unat offset_in_section;
       let mandatory = is_static_executable output_kind;
       if \<not> sf_is_executable section_flags then no_relaxation
       else if (r = elf ''R_RISCV_CALL'' \<or> r = elf ''R_RISCV_CALL_PLT'') \<and> \<not> is_interposable flags then
         (if non_zero_address then
            (if is_jalr_deleted b offset then relax (info ''R_RISCV_JAL'') CallToJal mandatory
             else relax (Some (relocation\<lparr>rel_kind := RelocationKind.Relative\<rparr>)) RiscV64.NoOp mandatory)
          else relax (info ''R_RISCV_NONE'') RiscV64.ReplaceWithNop mandatory)
       else if r = elf ''R_RISCV_HI20'' then
         (case relax_deltas of
            None \<Rightarrow> no_relaxation
          | Some ds \<Rightarrow>
              let input_offset = output_to_input_offset ds offset_in_section in
              if has_delta_at ds input_offset then relax (info ''R_RISCV_NONE'') Hi20Delete False
              else if has_delta_at ds (input_offset + 2) then relax (Some clui_rel_info) Hi20ToCLui False
              else no_relaxation)
       else if r = elf ''R_RISCV_LO12_I'' \<or> r = elf ''R_RISCV_LO12_S'' then
         (case relax_deltas of
            None \<Rightarrow> no_relaxation
          | Some ds \<Rightarrow>
              let input_offset = output_to_input_offset ds offset_in_section; word = word_at b offset in
              if 4 \<le> input_offset \<and> delta_at ds (input_offset - 4) = 4 \<and> offset + 4 \<le> length b \<and>
                 drop_bit 7 word AND 0x1f = drop_bit 15 word AND 0x1f
              then relax (Some relocation) Lo12Rs1ToZero False else no_relaxation)
       else no_relaxation
     }"

definition riscv_high_part_names :: "string list" where
  "riscv_high_part_names =
     [''R_RISCV_HI20'', ''R_RISCV_PCREL_HI20'', ''R_RISCV_GOT_HI20'', ''R_RISCV_TLS_GOT_HI20'', ''R_RISCV_TLS_GD_HI20'', ''R_RISCV_TPREL_HI20'']"

text \<open>The loop of \<open>fill_nop_padding\<close>, from the counter \<open>i\<close> on.\<close>

function riscv_fill_nops :: "bytes \<Rightarrow> nat \<Rightarrow> nat \<Rightarrow> nat \<Rightarrow> bytes option" where
  "riscv_fill_nops buf offset len i =
     (if i + 4 \<le> len then do {
        buf \<leftarrow> copy_at buf (offset + i) (le_bytes 4 (0x13 :: u32));
        riscv_fill_nops buf offset len (i + 4) }
      else if i + 2 \<le> len then copy_at buf (offset + i) (le_bytes 2 (1 :: u16))
      else Some buf)"
  by pat_completeness auto
termination by (relation "measure (\<lambda>(buf, offset, len, i). len - i)") auto

definition riscv_fill_nop_padding :: "bytes \<Rightarrow> nat \<Rightarrow> nat \<Rightarrow> bytes option" where
  "riscv_fill_nop_padding buf offset len = riscv_fill_nops buf offset len 0"

section \<open>LoongArch\<close>

definition loongarch64_new_relaxation ::
    "(string \<Rightarrow> u32) \<Rightarrow> u32 \<Rightarrow> bytes \<Rightarrow> u64 \<Rightarrow> ValueFlags \<Rightarrow> OutputKind \<Rightarrow> SectionFlags \<Rightarrow> bool \<Rightarrow> SectionDeltas option \<Rightarrow>
      LoongArch64.RelaxationKind relaxation_choice" where
  "loongarch64_new_relaxation elf r b offset_in_section flags output_kind section_flags non_zero_address relax_deltas =
     do {
       relocation \<leftarrow> loongarch64_relocation_type_from_raw elf r;
       if \<not> sf_is_executable section_flags then no_relaxation
       else if r = elf ''R_LARCH_B26'' \<and> \<not> is_interposable flags then
         relax (Some (relocation\<lparr>rel_kind := RelocationKind.Relative\<rparr>)) LoongArch64.NoOp True
       else no_relaxation
     }"

section \<open>The architectures\<close>

text \<open>
  The trait \<open>Relaxation\<close> for the four types: only the rewrites of x86-64 move the offset or change
  the addend.
\<close>

definition relaxation_ops ::
    "('k \<Rightarrow> bytes \<Rightarrow> nat \<Rightarrow> i64 \<Rightarrow> (bytes \<times> nat \<times> i64) option) \<Rightarrow> ('k \<Rightarrow> RelocationModifier) \<Rightarrow> 'k Relaxation \<Rightarrow> RelaxationOps" where
  "relaxation_ops apply_kind next_modifier x =
     \<lparr>rx_apply = (\<lambda>b offset addend.
        map_option (\<lambda>(b, offset, addend). (b, of_nat offset, addend)) (apply_kind (rlx_kind x) b (unat offset) addend)),
      rx_rel_info = rlx_rel_info x, rx_next_modifier = next_modifier (rlx_kind x), rx_is_mandatory = rlx_mandatory x\<rparr>"

definition in_place :: "('k \<Rightarrow> bytes \<Rightarrow> nat \<Rightarrow> bytes option) \<Rightarrow> 'k \<Rightarrow> bytes \<Rightarrow> nat \<Rightarrow> i64 \<Rightarrow> (bytes \<times> nat \<times> i64) option" where
  "in_place f k b offset addend = map_option (\<lambda>b. (b, offset, addend)) (f k b offset)"

definition elf_new_relaxation ::
    "arch \<Rightarrow> (string \<Rightarrow> u32) \<Rightarrow> u32 \<Rightarrow> bytes \<Rightarrow> u64 \<Rightarrow> ValueFlags \<Rightarrow> OutputKind \<Rightarrow> SectionFlags \<Rightarrow> bool \<Rightarrow> SectionDeltas option \<Rightarrow>
      RelaxationOps option option" where
  "elf_new_relaxation a elf r b offset flags kind sf nz ds =
     (case a of
        Arch_X86_64 \<Rightarrow> map_option (map_option (relaxation_ops x86_64_apply x86_64_next_modifier))
          (x86_64_new_relaxation elf r b offset flags kind sf nz ds)
      | Arch_AArch64 \<Rightarrow> map_option (map_option (relaxation_ops (in_place aarch64_apply) aarch64_next_modifier))
          (aarch64_new_relaxation elf r b offset flags kind sf nz ds)
      | Arch_RiscV64 \<Rightarrow> map_option (map_option (relaxation_ops (in_place riscv_apply) riscv_next_modifier))
          (riscv_new_relaxation elf r b offset flags kind sf nz ds)
      | Arch_LoongArch64 \<Rightarrow> map_option (map_option (relaxation_ops (in_place loongarch64_apply) loongarch64_next_modifier))
          (loongarch64_new_relaxation elf r b offset flags kind sf nz ds))"

definition elf_reloc_arch :: "arch \<Rightarrow> (string \<Rightarrow> u32) \<Rightarrow> (u32 \<Rightarrow> u32 \<Rightarrow> u64) \<Rightarrow> (u64 \<Rightarrow> bytes) \<Rightarrow> RelocArch" where
  "elf_reloc_arch a elf r_info uleb =
     \<lparr>ra_arch = elf_arch a elf r_info,
      ra_relocation_from_raw = arch_relocation_from_raw a elf,
      ra_new_relaxation = elf_new_relaxation a elf,
      ra_high_part_relocations = (if a = Arch_RiscV64 then map elf riscv_high_part_names else []),
      ra_fill_nop_padding = (if a = Arch_RiscV64 then riscv_fill_nop_padding else (\<lambda>buf _ _. Some buf)),
      ra_uleb = uleb\<rparr>"

end
