(* ===== verification/Relaxation_Choice.thy ===== *)
theory Relaxation_Choice
  imports New_Relaxation Process_Reloc Apply_Effect
begin

text \<open>
  What the choice of a relaxation guarantees: the rewrite that was chosen can be applied, symbols that may be
  interposed keep their GOT or PLT entry, and a GOT load that is rewritten loads the address of the symbol.
\<close>

section \<open>Properties of choices\<close>

definition each_choice :: "('k Relaxation \<Rightarrow> bool) \<Rightarrow> 'k relaxation_choice \<Rightarrow> bool" where
  "each_choice Q c \<longleftrightarrow> (case c of Some (Some x) \<Rightarrow> Q x | _ \<Rightarrow> True)"

named_theorems choice_intros \<open>properties of every relaxation that may be chosen\<close>

lemma each_choice_none [choice_intros, simp]: "each_choice Q no_relaxation" "each_choice Q None"
  by (simp_all add: each_choice_def)

lemma each_choice_relax [choice_intros]:
  "(\<And>info. i = Some info \<Longrightarrow> Q \<lparr>rlx_kind = k, rlx_rel_info = info, rlx_mandatory = m\<rparr>) \<Longrightarrow> each_choice Q (relax i k m)"
  by (cases i) (simp_all add: each_choice_def relax_def)

lemma each_choice_if [choice_intros]:
  "(P \<Longrightarrow> each_choice Q c) \<Longrightarrow> (\<not> P \<Longrightarrow> each_choice Q d) \<Longrightarrow> each_choice Q (if P then c else d)"
  by simp

lemma each_choice_bind [choice_intros]:
  "(\<And>a. m = Some a \<Longrightarrow> each_choice Q (f a)) \<Longrightarrow> each_choice Q (m \<bind> f)"
  by (cases m) simp_all

lemma each_choice_guard [choice_intros]:
  "(m = Some True \<Longrightarrow> each_choice Q c) \<Longrightarrow> (m = Some False \<Longrightarrow> each_choice Q d) \<Longrightarrow>
    each_choice Q (case m of None \<Rightarrow> None | Some True \<Rightarrow> c | Some False \<Rightarrow> d)"
  by (auto split: option.split bool.split)

lemma each_choiceD: "each_choice Q c \<Longrightarrow> c = Some (Some x) \<Longrightarrow> Q x"
  by (simp add: each_choice_def)

section \<open>x86-64: a chosen rewrite can be applied\<close>

text \<open>How many bytes from the relocated field on a rewrite needs beyond those the choice has looked at.\<close>

fun x86_64_tail :: "X86_64.RelaxationKind \<Rightarrow> nat" where
  "x86_64_tail JmpIndirectToRelative = 4"
| "x86_64_tail TlsLdToLocalExec = 9"
| "x86_64_tail TlsLdToLocalExecNoPlt = 10"
| "x86_64_tail TlsLdToLocalExec64 = 19"
| "x86_64_tail (TlsDescToLocalExec _) = 4"
| "x86_64_tail TlsDescToInitialExec = 4"
| "x86_64_tail SkipTlsDescCall = 2"
| "x86_64_tail _ = 1"

text \<open>What the choice has established for a rewrite.\<close>

fun x86_64_ready :: "bytes \<Rightarrow> nat \<Rightarrow> X86_64.RelaxationKind \<Rightarrow> bool" where
  "x86_64_ready b offset X86_64.NoOp = True"
| "x86_64_ready b offset SkipTlsDescCall = True"
| "x86_64_ready b offset MovIndirectToLea = (2 \<le> offset)"
| "x86_64_ready b offset MovIndirectToAbsolute = (2 \<le> offset)"
| "x86_64_ready b offset CallIndirectToRelative = (2 \<le> offset)"
| "x86_64_ready b offset JmpIndirectToRelative = (2 \<le> offset)"
| "x86_64_ready b offset (RexAddIndirectToAbsolute n) = (3 \<le> offset \<and> (n = 6 \<longrightarrow> 6 \<le> offset))"
| "x86_64_ready b offset TlsGdToLocalExec = (4 \<le> offset \<and> offset + 8 \<le> length b)"
| "x86_64_ready b offset TlsGdToInitialExec = (4 \<le> offset \<and> offset + 8 \<le> length b)"
| "x86_64_ready b offset TlsGdToLocalExecLarge = (3 \<le> offset \<and> offset + 19 \<le> length b)"
| "x86_64_ready b offset _ = (3 \<le> offset)"

lemmas back_defs = set_back_def get_back_def copy_back_def before_def get_back_range_def get_range_def get_def set_at_def copy_at_def

lemma x86_64_rewrite_total:
  assumes "2 \<le> offset" "offset \<le> length b"
  shows "immediate_form b offset opcode modrm \<noteq> None" "set_back b offset 2 x \<noteq> None"
    "3 \<le> offset \<Longrightarrow> rex_immediate_form n b offset opcode modrm \<noteq> None"
  using assms by (auto simp: immediate_form_def rex_immediate_form_def back_defs)

lemma lea_operands:
  assumes "3 \<le> offset" "offset \<le> length b"
  shows "\<exists>rex modrm. get_back b offset 3 = Some rex \<and> get_back b offset 1 = Some modrm"
proof -
  have "offset - 3 < length b" "offset - 1 < length b" "1 \<le> offset" using assms by linarith+
  then show ?thesis using assms(1) by (simp add: back_defs)
qed

lemma rex2_total:
  assumes "6 \<le> offset" "offset \<le> length b"
  shows "\<exists>l5 b1. get_back b offset 5 = Some l5 \<and> set_back b offset 5 (update_rex2 l5) = Some b1 \<and>
    immediate_form b1 offset opcode modrm \<noteq> None"
proof -
  have "5 \<le> offset" "offset - 5 < length b" using assms by linarith+
  then obtain l5 b1 where b1: "get_back b offset 5 = Some l5" "set_back b offset 5 (update_rex2 l5) = Some b1" "length b1 = length b"
    by (simp add: back_defs)
  then show ?thesis using x86_64_rewrite_total(1) [of offset b1 opcode modrm] assms by auto
qed

lemma x86_64_ready_applies:
  assumes "x86_64_ready b offset k" "offset + x86_64_tail k \<le> length b"
  shows "x86_64_apply k b offset addend \<noteq> None"
proof -
  have len: "offset \<le> length b" using assms(2) by simp
  note total = x86_64_rewrite_total [OF _ len] and copy = copy_back_def before_def copy_at_def
  consider (rex2) "k = RexAddIndirectToAbsolute 6" | (desc) "k = TlsDescToInitialExec \<or> (\<exists>n. k = TlsDescToLocalExec n)"
    | (other) "k \<noteq> RexAddIndirectToAbsolute 6" "k \<noteq> TlsDescToInitialExec" "\<forall>n. k \<noteq> TlsDescToLocalExec n"
    by blast
  then show ?thesis
  proof cases
    case rex2
    then show ?thesis using rex2_total [OF _ len, of "0x81" "0xc0"] assms(1) by (auto simp: x86_64_apply_def)
  next
    case desc
    then have off: "3 \<le> offset" "offset + 4 \<le> length b" using assms by auto
    obtain rex modrm where "get_back b offset 3 = Some rex" "get_back b offset 1 = Some modrm"
      using lea_operands [OF off(1) len] by blast
    then show ?thesis using desc off by (auto simp: x86_64_apply_def Let_def copy)
  next
    case other
    then show ?thesis
      using assms total by (cases k) (simp_all add: x86_64_apply_def copy bind_eq_None_conv del: not_None_eq, linarith+)
  qed
qed

lemma get_back_Some: "get_back b offset n = Some x \<Longrightarrow> n \<le> offset"
  by (auto simp: get_back_def before_def split: if_splits)

lemma get_back_range_Some: "get_back_range b offset n m = Some bs \<Longrightarrow> n \<le> offset"
  by (simp add: get_back_range_def split: if_splits)

lemma get_range_Some: "get_range b i j = Some bs \<Longrightarrow> j \<le> length b"
  by (simp add: get_range_def split: if_splits)

text \<open>The parts of \<open>x86_64_new_relaxation\<close> establish it.\<close>

lemma ready_rex_gotpcrelx [choice_intros]:
  "each_choice (\<lambda>x. x86_64_ready b offset (rlx_kind x)) (x86_64_rex_gotpcrelx info c b offset flags kind)"
  unfolding x86_64_rex_gotpcrelx_def Let_def by (intro choice_intros) (auto dest: get_back_Some)

lemma ready_gotpcrelx [choice_intros]:
  "each_choice (\<lambda>x. x86_64_ready b offset (rlx_kind x)) (x86_64_gotpcrelx info b offset flags kind)"
  unfolding x86_64_gotpcrelx_def Let_def
  by (cases "get_back b offset 2"; cases "get_back_range b offset 2 0")
    (auto intro!: choice_intros dest: get_back_Some)

lemma ready_gottpoff [choice_intros]:
  "each_choice (\<lambda>x. x86_64_ready b offset (rlx_kind x)) (x86_64_gottpoff info c b offset)"
  unfolding x86_64_gottpoff_def Let_def
  by (cases "get_back_range b offset 3 1") (auto intro!: choice_intros split: list.split dest: get_back_range_Some)

lemma ready_code_6 [choice_intros]:
  "each_choice (\<lambda>x. x86_64_ready b offset (rlx_kind x)) (x86_64_code_6_gottpoff info b offset kind)"
  unfolding x86_64_code_6_gottpoff_def
  by (cases "get_back_range b offset 6 1") (auto intro!: choice_intros split: list.split dest: get_back_range_Some)

lemma TlsGdForm_bounds:
  "TlsGdForm_identify b offset = Some Regular \<Longrightarrow> 4 \<le> offset \<and> offset + 8 \<le> length b"
  "TlsGdForm_identify b offset = Some Large \<Longrightarrow> 3 \<le> offset \<and> offset + 19 \<le> length b"
  by (auto simp: TlsGdForm_identify_def split: if_splits dest: get_back_range_Some get_range_Some)

lemma ready_tlsgd [choice_intros]:
  "each_choice (\<lambda>x. x86_64_ready b offset (rlx_kind x)) (x86_64_tlsgd info b offset flags kind)"
  unfolding x86_64_tlsgd_def using TlsGdForm_bounds [of b offset]
  by (auto intro!: choice_intros split: option.split TlsGdForm.split)

lemma ready_tlsld [choice_intros]:
  "each_choice (\<lambda>x. x86_64_ready b offset (rlx_kind x)) (x86_64_tlsld info b offset kind)"
  unfolding x86_64_tlsld_def
  by (cases "get_range b (offset + 4) (offset + 6)") (auto intro!: choice_intros split: list.split dest: get_back_range_Some)

lemma is_lea_bounds: "is_lea b offset \<Longrightarrow> 3 \<le> offset"
  by (auto simp: is_lea_def dest: get_back_range_Some)

lemma ready_tlsdesc [choice_intros]:
  "each_choice (\<lambda>x. x86_64_ready b offset (rlx_kind x)) (x86_64_tlsdesc info c b offset flags kind)"
  unfolding x86_64_tlsdesc_def Let_def by (intro choice_intros) (auto dest: is_lea_bounds)

lemma x86_64_chosen_ready:
  "each_choice (\<lambda>x. x86_64_ready b (unat offset) (rlx_kind x)) (x86_64_new_relaxation elf r b offset flags kind sf nz ds)"
  unfolding x86_64_new_relaxation_def Let_def by (intro choice_intros) (auto dest: get_back_Some)

text \<open>
  A relaxation that is chosen for x86-64 can be applied: with the bytes of the instructions that follow
  in the section, the rewrite does not panic, and it touches only bytes of the section.
\<close>

theorem x86_64_chosen_applies:
  assumes "x86_64_new_relaxation elf r b offset flags kind sf nz ds = Some (Some x)"
    and "unat offset + x86_64_tail (rlx_kind x) \<le> length b"
  shows "\<exists>b' offset' addend'. x86_64_apply (rlx_kind x) b (unat offset) addend = Some (b', offset', addend')"
  using x86_64_ready_applies [OF each_choiceD [OF x86_64_chosen_ready assms(1)] assms(2)] by auto

section \<open>x86-64: interposition\<close>

lemma x86_64_arm_names_distinct: "distinct (arm_names x86_64_arms)"
  by code_simp

lemma x86_64_arm_found:
  assumes "inj_on elf (set (arm_names x86_64_arms))" "(names, kind, sz, Some rng) \<in> set x86_64_arms" "n \<in> set names"
  shows "relocation_from_raw elf (elf n) =
    Some \<lparr>rel_kind = kind, rel_size = sz, rel_mask = None, rel_range = rng, rel_alignment = 1, rel_bias = 0\<rparr>"
  using match_arms_unique [OF x86_64_arm_names_distinct assms] by (simp add: relocation_from_raw_def)

definition x86_64_4_byte :: "RelocationKind \<Rightarrow> Sign \<Rightarrow> RelocationKindInfo" where
  "x86_64_4_byte kind sign = \<lparr>rel_kind = kind, rel_size = ByteSize 4, rel_mask = None,
     rel_range = (if sign = Signed then AllowedRange_new (- (2 ^ 31)) (2 ^ 31) else AllowedRange_new 0 (2 ^ 32)),
     rel_alignment = 1, rel_bias = 0\<rparr>"

lemma x86_64_arm_4_byte:
  assumes "inj_on elf (set (arm_names x86_64_arms))" "(names, kind, t) \<in> set x86_64_arms" "n \<in> set names"
  shows "t = RELOC_4_BYTE_SIGNED \<Longrightarrow> relocation_from_raw elf (elf n) = Some (x86_64_4_byte kind Signed)"
    "t = RELOC_4_BYTE_UNSIGNED \<Longrightarrow> relocation_from_raw elf (elf n) = Some (x86_64_4_byte kind Unsigned)"
  using x86_64_arm_found [OF assms(1) _ assms(3)] assms(2)
  by (auto simp: RELOC_4_BYTE_SIGNED_def RELOC_4_BYTE_UNSIGNED_def from_byte_size_def from_bit_size_def x86_64_4_byte_def)

lemma x86_64_infos:
  assumes "inj_on elf (set (arm_names x86_64_arms))"
  shows "relocation_from_raw elf (elf ''R_X86_64_PC32'') = Some (x86_64_4_byte RelocationKind.Relative Signed)"
    "relocation_from_raw elf (elf ''R_X86_64_32'') = Some (x86_64_4_byte RelocationKind.Absolute Unsigned)"
    "relocation_from_raw elf (elf ''R_X86_64_PLT32'') = Some (x86_64_4_byte PltRelative Signed)"
    "relocation_from_raw elf (elf ''R_X86_64_GOTTPOFF'') = Some (x86_64_4_byte GotTpOff Signed)"
    "relocation_from_raw elf (elf ''R_X86_64_REX_GOTPCRELX'') = Some (x86_64_4_byte GotRelative Signed)"
    "relocation_from_raw elf (elf ''R_X86_64_NONE'') =
      Some \<lparr>rel_kind = None_kind, rel_size = ByteSize 0, rel_mask = None, rel_range = no_check, rel_alignment = 1, rel_bias = 0\<rparr>"
  using x86_64_arm_4_byte [OF assms, of "[''R_X86_64_PC32'']" RelocationKind.Relative]
    x86_64_arm_4_byte [OF assms, of "[''R_X86_64_32'']" RelocationKind.Absolute]
    x86_64_arm_4_byte [OF assms, of "[''R_X86_64_PLT32'']" PltRelative]
    x86_64_arm_4_byte [OF assms, of "[''R_X86_64_GOTTPOFF'', ''R_X86_64_CODE_4_GOTTPOFF'', ''R_X86_64_CODE_5_GOTTPOFF'', ''R_X86_64_CODE_6_GOTTPOFF'']" GotTpOff]
    x86_64_arm_4_byte [OF assms, of "[''R_X86_64_GOTPCRELX'', ''R_X86_64_REX_GOTPCRELX'', ''R_X86_64_CODE_4_GOTPCRELX'', ''R_X86_64_CODE_5_GOTPCRELX'', ''R_X86_64_CODE_6_GOTPCRELX'']" GotRelative]
    x86_64_arm_found [OF assms, of "[''R_X86_64_NONE'']" None_kind "ByteSize 0" no_check "''R_X86_64_NONE''"]
  by (simp_all add: x86_64_arms_def RELOC_NONE_def)

text \<open>Kinds of relocations that go through the tables, or need no symbol.\<close>

definition via_tables :: "RelocationKind \<Rightarrow> bool" where
  "via_tables k \<longleftrightarrow> k = PltRelative \<or> k = GotTpOff \<or> k = None_kind"

text \<open>
  (C24) A symbol that another module may define is not referred to directly after relaxation on
  x86-64: unless its address is known when linking, the relocation to apply instead goes through the PLT or the
  GOT, or is none at all.
\<close>

theorem x86_64_interposable_kept:
  assumes elf: "inj_on elf (set (arm_names x86_64_arms))"
    and chosen: "x86_64_new_relaxation elf r b offset flags kind sf nz ds = Some (Some x)"
    and flags: "is_interposable flags" "\<not> (is_absolute flags \<and> \<not> is_dynamic flags)" "\<not> (is_address flags \<and> \<not> is_relocatable kind)"
  shows "via_tables (rel_kind (rlx_rel_info x))"
proof -
  note infos = x86_64_infos [OF elf]
  have kinds: "via_tables PltRelative" "via_tables GotTpOff" "via_tables None_kind" by (simp_all add: via_tables_def)
  let ?info = "\<lambda>name. relocation_from_raw elf (elf name)"
  let ?Q = "\<lambda>x. via_tables (rel_kind (rlx_rel_info x))"
  have "each_choice ?Q (x86_64_rex_gotpcrelx ?info c b off flags kind)" for c off
    unfolding x86_64_rex_gotpcrelx_def Let_def using flags by (auto intro!: choice_intros)
  moreover have "each_choice ?Q (x86_64_gotpcrelx ?info b off flags kind)" for off
    unfolding x86_64_gotpcrelx_def Let_def using flags by (auto split: option.split)
  moreover have "each_choice ?Q (x86_64_tlsgd ?info b off flags kind)" for off
    unfolding x86_64_tlsgd_def using flags
    by (auto simp: infos x86_64_4_byte_def kinds intro!: choice_intros split: option.split TlsGdForm.split)
  moreover have "each_choice ?Q (x86_64_tlsld ?info b off kind)" for off
    unfolding x86_64_tlsld_def
    by (cases "get_range b (off + 4) (off + 6)") (auto simp: infos kinds intro!: choice_intros split: list.split)
  moreover have "each_choice ?Q (x86_64_tlsdesc ?info c b off flags kind)" for c off
    unfolding x86_64_tlsdesc_def Let_def using flags by (auto simp: infos x86_64_4_byte_def kinds intro!: choice_intros)
  ultimately have "each_choice ?Q (x86_64_new_relaxation elf r b offset flags kind sf nz ds)"
    unfolding x86_64_new_relaxation_def Let_def using flags
    by (intro choice_intros) (auto simp: infos x86_64_4_byte_def kinds)
  then show ?thesis using chosen by (rule each_choiceD)
qed

end
