(* ===== verification/Got_Load.thy ===== *)
theory Got_Load
  imports Relaxation_Choice
begin

text \<open>
  Loads of GOT entries on x86-64 (\<open>R_X86_64_REX_GOTPCRELX\<close>) from the choice of the relaxation
  (\<open>new_relaxation\<close> of \<open>libwild/src/elf_x86_64.rs\<close>) over the rewrite to the relocation that is applied: what
  the processor loads afterwards.
\<close>

section \<open>x86-64: GOT loads\<close>

text \<open>
  The two instructions that a load of a GOT entry is rewritten to: \<open>lea disp(%rip), reg\<close> and \<open>mov $imm, reg\<close>
  with a REX prefix for 64-bit operands, where the processor extends the immediate with its sign. The
  decoder returns the register and the value it gets.
\<close>

definition x86_64_decode_load :: "bytes \<Rightarrow> nat \<Rightarrow> u64 \<Rightarrow> (u8 \<times> u64) option" where
  "x86_64_decode_load b i next_insn =
     (case drop i b of
        rex # opcode # modrm # rest \<Rightarrow>
          let imm = signed_take_bit 31 (from_le_bytes (take 4 rest)) in
          if rex AND 0xf8 = 0x48 \<and> opcode = 0x8d \<and> modrm AND 0xc7 = 0x05 then Some (reg_operand rex modrm, next_insn + imm)
          else if rex AND 0xf8 = 0x48 \<and> opcode = 0xc7 \<and> modrm AND 0xf8 = 0xc0 then Some (rm_operand rex modrm, imm)
          else None
      | _ \<Rightarrow> None)"

lemma rewritten_load:
  assumes "length fld = 4"
  shows "x86_64_apply MovIndirectToLea (pre @ [rex, 0x8b, modrm] @ fld @ post) (length pre + 3) addend =
      Some (pre @ [rex, 0x8d, modrm] @ fld @ post, length pre + 3, addend)"
    "x86_64_apply (RexMovIndirectToAbsolute 3) (pre @ [rex, 0x8b, modrm] @ fld @ post) (length pre + 3) addend =
      Some (pre @ [move_rex 3 rex, 0xc7, (drop_bit 3 modrm AND 0x7) OR 0xc0] @ fld @ post, length pre + 3, 0)"
  by (simp_all add: x86_64_apply_def rex_immediate_form_def immediate_form_def set_back_def get_back_def before_def get_def set_at_def
      nth_append list_update_append)

lemma rewritten_registers:
  assumes "rex = 0x48 \<or> rex = 0x4c"
  shows "rex AND 0xf8 = 0x48" "move_rex 3 rex AND 0xf8 = 0x48"
    "((drop_bit 3 modrm AND 0x7) OR 0xc0) AND 0xf8 = (0xc0 :: u8)"
    "rm_operand (move_rex 3 rex) ((drop_bit 3 modrm AND 0x7) OR 0xc0) = reg_operand rex modrm"
proof -
  show "rex AND 0xf8 = 0x48" "move_rex 3 rex AND 0xf8 = 0x48" using assms by (auto simp: move_rex_def)
  have "(x AND 0x7) AND 0xf8 = 0" for x :: u8
    by (simp add: and.assoc)
  then show "((drop_bit 3 modrm AND 0x7) OR 0xc0) AND 0xf8 = (0xc0 :: u8)"
    by (simp add: bit.conj_disj_distrib2)
  have "\<not> bit rex 0" using assms by auto
  then show "rm_operand (move_rex 3 rex) ((drop_bit 3 modrm AND 0x7) OR 0xc0) = reg_operand rex modrm"
    by (rule rm_operand_moved) simp
qed

text \<open>The address of the symbol is known when linking.\<close>

definition known_address :: "ValueFlags \<Rightarrow> OutputKind \<Rightarrow> bool" where
  "known_address flags kind \<longleftrightarrow> is_absolute flags \<and> \<not> is_dynamic flags \<or> is_address flags \<and> \<not> is_relocatable kind"

lemma chosen_load:
  assumes elf: "inj_on elf (set (arm_names x86_64_arms))" and insn: "rex = 0x48 \<or> rex = 0x4c" "unat offset = length pre + 3"
    and sf: "sf_is_executable sf" and flags: "\<not> is_ifunc flags"
  shows "known_address flags kind \<Longrightarrow> x86_64_new_relaxation elf (elf ''R_X86_64_REX_GOTPCRELX'') (pre @ [rex, 0x8b, modrm] @ fld @ post) offset flags kind sf nz ds =
      Some (Some \<lparr>rlx_kind = RexMovIndirectToAbsolute 3, rlx_rel_info = x86_64_4_byte RelocationKind.Absolute Unsigned,
        rlx_mandatory = is_static_executable kind\<rparr>)"
    "\<not> known_address flags kind \<Longrightarrow> \<not> is_interposable flags \<Longrightarrow>
      x86_64_new_relaxation elf (elf ''R_X86_64_REX_GOTPCRELX'') (pre @ [rex, 0x8b, modrm] @ fld @ post) offset flags kind sf nz ds =
      Some (Some \<lparr>rlx_kind = MovIndirectToLea, rlx_rel_info = x86_64_4_byte RelocationKind.Relative Signed,
        rlx_mandatory = is_static_executable kind\<rparr>)"
  using insn flags sf
  by (auto simp: x86_64_new_relaxation_def code_4_guard_def x86_64_rex_gotpcrelx_def get_back_def before_def get_def nth_append
      x86_64_infos [OF elf] relax_def Let_def known_address_def)

lemma patched_load:
  assumes "length fld = 4" "unat offset = length pre + 3" "verify info v = Inr ()" "rel_size info = ByteSize 4" "\<not> is_uleb_pair info"
  shows "write_at A info v (pre @ [x, y, z] @ fld @ post) (unat offset) = ok (pre @ [x, y, z] @ le_bytes 4 v @ post)"
  using write_at_patch [of info v 4 "unat offset" "pre @ [x, y, z] @ fld @ post" A] assms
  by (simp add: patch_def)

lemma value_known:
  assumes "\<not> is_ifunc (rs_flags res)" "rs_raw_value res \<noteq> 0"
  shows "value_with_addend L res a i = ok (rs_raw_value res + a)"
  using assms by (simp add: value_with_addend_def)

lemma absolute_known:
  assumes "known_address (rs_flags res) (tw_output_kind w)" "\<not> is_ifunc (rs_flags res)" "rs_raw_value res \<noteq> 0" "\<not> as_is_writable sec"
  shows "write_absolute_relocation A L sec res i p 0 w = ok (rs_raw_value res, w)"
  using assms value_known [OF assms(2,3), of L 0 i]
  by (auto simp: write_absolute_relocation_def known_address_def Let_def query_bits)

lemma apply_relaxed:
  assumes "ra_relocation_from_raw A (rel_raw_type rel) = Some info" "rel_kind info \<noteq> None_kind" "rel_kind info \<noteq> Alignment_kind"
    and "get_resolution L rel = ok (res, i, local_symbol_id)"
    and "chosen_relaxation A L sec rel res local_symbol_id offset rds out = Some (Some x)"
    and "rx_apply x out offset (rel_addend rel) = Some (out1, offset1, addend1)"
    and "relocation_value A L sec (rx_rel_info x) rel res i (as_section_address sec + offset1) addend1 cache rest rds w = ok (v, w)"
    and "\<not> adjusted_kind (rel_kind (rx_rel_info x))" "write_at A (rx_rel_info x) v out1 (unat offset1) = ok out2"
  shows "apply_relocation A L sec offset rel cache rest rds out w = ok (rx_next_modifier x, out2, w)"
  using assms by (simp add: apply_relocation_def finish_relocation_def)

lemma chosen_x86_64:
  assumes "x86_64_new_relaxation elf (rel_raw_type rel) out offset (el_flags_for_symbol L local_symbol_id) (el_output_kind L)
      (as_section_flags sec) (rs_raw_value res \<noteq> 0) rds = Some (Some y)" "el_relax L"
  shows "chosen_relaxation (elf_reloc_arch Arch_X86_64 elf r_info uleb) L sec rel res local_symbol_id offset rds out =
    Some (Some (relaxation_ops x86_64_apply x86_64_next_modifier y))"
  using assms by (simp add: chosen_relaxation_def elf_reloc_arch_def elf_new_relaxation_def)

lemma relaxed_field:
  assumes info: "ra_relocation_from_raw (elf_reloc_arch Arch_X86_64 elf r_info uleb) (rel_raw_type rel) = Some (x86_64_4_byte GotRelative Signed)"
    and res: "get_resolution L rel = ok (res, i, local_symbol_id)" "el_relax L"
    and chosen: "x86_64_new_relaxation elf (rel_raw_type rel) (pre @ old @ fld @ post) offset (el_flags_for_symbol L local_symbol_id)
      (el_output_kind L) (as_section_flags sec) (rs_raw_value res \<noteq> 0) rds = Some (Some y)"
    and y: "rlx_rel_info y = x86_64_4_byte kind sign" "kind = RelocationKind.Absolute \<or> kind = RelocationKind.Relative"
    and applied: "x86_64_apply (rlx_kind y) (pre @ old @ fld @ post) (unat offset) (rel_addend rel) =
      Some (pre @ new @ fld @ post, unat offset, addend)"
    and v: "relocation_value (elf_reloc_arch Arch_X86_64 elf r_info uleb) L sec (rlx_rel_info y) rel res i (as_section_address sec + offset)
      addend cache rest rds w = ok (v, w)" "verify (rlx_rel_info y) v = Inr ()"
    and len: "length new = 3" "length fld = 4" "unat offset = length pre + 3"
  shows "apply_relocation (elf_reloc_arch Arch_X86_64 elf r_info uleb) L sec offset rel cache rest rds (pre @ old @ fld @ post) w =
    ok (x86_64_next_modifier (rlx_kind y), pre @ new @ le_bytes 4 v @ post, w)"
proof -
  let ?A = "elf_reloc_arch Arch_X86_64 elf r_info uleb" and ?x = "relaxation_ops x86_64_apply x86_64_next_modifier y"
  have "write_at ?A (rlx_rel_info y) v (pre @ new @ fld @ post) (unat offset) = ok (patch (pre @ new @ fld @ post) (unat offset) 4 v)"
    using v(2) y len by (intro write_at_patch) (auto simp: x86_64_4_byte_def is_uleb_pair_def)
  also have "patch (pre @ new @ fld @ post) (unat offset) 4 v = pre @ new @ le_bytes 4 v @ post"
    using len by (simp add: patch_def)
  finally have "write_at ?A (rlx_rel_info y) v (pre @ new @ fld @ post) (unat offset) = ok (pre @ new @ le_bytes 4 v @ post)" .
  then have "apply_relocation ?A L sec offset rel cache rest rds (pre @ old @ fld @ post) w =
      ok (rx_next_modifier ?x, pre @ new @ le_bytes 4 v @ post, w)"
    using v(1) y applied
    by (intro apply_relaxed [OF info _ _ res(1) chosen_x86_64 [OF chosen res(2)]])
      (auto simp: relaxation_ops_def x86_64_4_byte_def adjusted_kind_def)
  then show ?thesis by (simp add: relaxation_ops_def)
qed

lemma field_sign_extended:
  assumes "- (2 ^ 31) \<le> sint v" "sint v < 2 ^ 31"
  shows "signed_take_bit 31 (from_le_bytes (le_bytes 4 v)) = (v :: u64)"
  using assms by (simp add: from_le_bytes_le_bytes signed_take_bit_take_bit signed_take_bit_fits)

lemma verify_4_byte:
  "verify (x86_64_4_byte kind Signed) v = Inr () \<longleftrightarrow> - (2 ^ 31) \<le> sint v \<and> sint v < 2 ^ 31"
  "verify (x86_64_4_byte kind Unsigned) v = Inr () \<longleftrightarrow> 0 \<le> sint v \<and> sint v < 2 ^ 32"
  by (auto simp: verify_def is_multiple_of_def range_contains_def AllowedRange_new_def x86_64_4_byte_def)

text \<open>The values of the two relocations that are applied instead.\<close>

lemma relaxed_values:
  assumes res: "rs_raw_value res = address" "address \<noteq> 0" "\<not> is_ifunc (rs_flags res)"
  shows "relocation_value A L sec (x86_64_4_byte RelocationKind.Relative Signed) rel res i p a cache rest rds w = ok (address + a - p, w)"
    "known_address (rs_flags res) (tw_output_kind w) \<Longrightarrow> \<not> as_is_writable sec \<Longrightarrow>
      relocation_value A L sec (x86_64_4_byte RelocationKind.Absolute Unsigned) rel res i p 0 cache rest rds w = ok (address, w)"
  using res absolute_known [of res w sec "ra_arch A" L i p] value_known [of res L a i]
  by (auto simp: relocation_value_def table_free_value_def x86_64_4_byte_def Let_def get_page_mask_def PageMaskValue_default_def)

text \<open>
  A relocated load of the GOT entry of a symbol: a \<open>mov\<close> with the prefix \<open>0x48\<close> or \<open>0x4c\<close>, relative to the
  instruction pointer, with the field \<open>fld\<close> at the offset \<open>offset\<close> and the addend \<open>-4\<close> that assemblers write.
\<close>

definition got_load :: "(string \<Rightarrow> u32) \<Rightarrow> ElfLayout \<Rightarrow> ApplySection \<Rightarrow> Relocation \<Rightarrow> Resolution \<Rightarrow> ValueFlags \<Rightarrow> TableWriter \<Rightarrow> bool" where
  "got_load elf L sec rel res flags w \<longleftrightarrow>
     rel_raw_type rel = elf ''R_X86_64_REX_GOTPCRELX'' \<and> rel_addend rel = - 4 \<and>
     sf_is_executable (as_section_flags sec) \<and> \<not> as_is_writable sec \<and> el_relax L \<and> rs_raw_value res \<noteq> 0 \<and>
     same_nature (rs_flags res) flags \<and> \<not> is_ifunc flags \<and> tw_output_kind w = el_output_kind L"

lemma got_load_constant:
  fixes L :: ElfLayout and local_symbol_id :: nat
  defines "flags \<equiv> el_flags_for_symbol L local_symbol_id"
  assumes elf: "inj_on elf (set (arm_names x86_64_arms))"
    and insn: "rex = 0x48 \<or> rex = 0x4c" "length fld = 4" "unat offset = length pre + 3"
    and load: "got_load elf L sec rel res flags w" "get_resolution L rel = ok (res, i, local_symbol_id)"
    and known: "known_address flags (el_output_kind L)" "0 \<le> sint (rs_raw_value res)" "sint (rs_raw_value res) < 2 ^ 32"
  shows "apply_relocation (elf_reloc_arch Arch_X86_64 elf r_info uleb) L sec offset rel cache rest rds
      (pre @ [rex, 0x8b, modrm] @ fld @ post) w =
    ok (Normal, pre @ [move_rex 3 rex, 0xc7, (drop_bit 3 modrm AND 0x7) OR 0xc0] @ le_bytes 4 (rs_raw_value res) @ post, w)"
proof -
  let ?new = "[move_rex 3 rex, 0xc7, (drop_bit 3 modrm AND 0x7) OR 0xc0]"
  have facts: "rel_raw_type rel = elf ''R_X86_64_REX_GOTPCRELX''" "el_relax L" "sf_is_executable (as_section_flags sec)" "\<not> is_ifunc flags"
    "rs_raw_value res \<noteq> 0" "\<not> is_ifunc (rs_flags res)" "\<not> as_is_writable sec" "known_address (rs_flags res) (tw_output_kind w)"
    using load known(1) by (auto simp: got_load_def same_nature_def known_address_def query_bits)
  have start: "ra_relocation_from_raw (elf_reloc_arch Arch_X86_64 elf r_info uleb) (rel_raw_type rel) = Some (x86_64_4_byte GotRelative Signed)"
    by (simp add: elf_reloc_arch_def arch_relocation_from_raw_def facts(1) x86_64_infos [OF elf])
  have "relocation_value (elf_reloc_arch Arch_X86_64 elf r_info uleb) L sec (x86_64_4_byte RelocationKind.Absolute Unsigned) rel res i
      (as_section_address sec + offset) 0 cache rest rds w = ok (rs_raw_value res, w)"
    using relaxed_values(2) [OF refl facts(5,6,8,7)] .
  then show ?thesis
    using relaxed_field [OF start load(2) facts(2)
        chosen_load(1) [OF elf insn(1,3) facts(3,4) known(1), unfolded facts(1) [symmetric], unfolded flags_def],
        of RelocationKind.Absolute Unsigned modrm fld post ?new 0 cache rest rds w "rs_raw_value res"]
      rewritten_load(2) [OF insn(2), of pre rex modrm post "rel_addend rel"] insn(2,3) known(2,3)
    by (simp add: verify_4_byte x86_64_next_modifier_def)
qed

lemma got_load_lea:
  fixes L :: ElfLayout and local_symbol_id :: nat
  defines "flags \<equiv> el_flags_for_symbol L local_symbol_id"
  assumes elf: "inj_on elf (set (arm_names x86_64_arms))"
    and insn: "rex = 0x48 \<or> rex = 0x4c" "length fld = 4" "unat offset = length pre + 3"
    and load: "got_load elf L sec rel res flags w" "get_resolution L rel = ok (res, i, local_symbol_id)"
    and known: "\<not> known_address flags (el_output_kind L)" "\<not> is_interposable flags"
    and v: "v = rs_raw_value res - 4 - (as_section_address sec + offset)" "- (2 ^ 31) \<le> sint v" "sint v < 2 ^ 31"
  shows "apply_relocation (elf_reloc_arch Arch_X86_64 elf r_info uleb) L sec offset rel cache rest rds
      (pre @ [rex, 0x8b, modrm] @ fld @ post) w = ok (Normal, pre @ [rex, 0x8d, modrm] @ le_bytes 4 v @ post, w)"
proof -
  have facts: "rel_raw_type rel = elf ''R_X86_64_REX_GOTPCRELX''" "el_relax L" "sf_is_executable (as_section_flags sec)" "\<not> is_ifunc flags"
    "rs_raw_value res \<noteq> 0" "\<not> is_ifunc (rs_flags res)" "rel_addend rel = - 4"
    using load by (auto simp: got_load_def same_nature_def)
  have start: "ra_relocation_from_raw (elf_reloc_arch Arch_X86_64 elf r_info uleb) (rel_raw_type rel) = Some (x86_64_4_byte GotRelative Signed)"
    by (simp add: elf_reloc_arch_def arch_relocation_from_raw_def facts(1) x86_64_infos [OF elf])
  have "relocation_value (elf_reloc_arch Arch_X86_64 elf r_info uleb) L sec (x86_64_4_byte RelocationKind.Relative Signed) rel res i
      (as_section_address sec + offset) (- 4) cache rest rds w = ok (v, w)"
    using relaxed_values(1) [OF refl facts(5,6)] by (simp add: v(1))
  then show ?thesis
    using relaxed_field [OF start load(2) facts(2)
        chosen_load(2) [OF elf insn(1,3) facts(3,4) known, unfolded facts(1) [symmetric], unfolded flags_def],
        of RelocationKind.Relative Signed modrm fld post "[rex, 0x8d, modrm]" "- 4" cache rest rds w v]
      rewritten_load(1) [OF insn(2), of pre rex modrm post "rel_addend rel"] insn(2,3) v(2,3) facts(7)
    by (simp add: verify_4_byte x86_64_next_modifier_def)
qed

text \<open>
  (C23) A load of a GOT entry that is relaxed on x86-64 leaves the address of the symbol in the same
  register: for a symbol that is not interposable or whose address is known, applying the relocation
  \<open>R_X86_64_REX_GOTPCRELX\<close> of a \<open>mov\<close> rewrites the instruction to \<open>lea\<close> or to a \<open>mov\<close> of a constant, the
  processor computes the address, and no other byte changes. The symbol is in reach of the instruction, and a
  constant is below \<open>2\<^sup>3\<^sup>1\<close>.
\<close>

theorem x86_64_got_load_relaxed:
  fixes L :: ElfLayout and local_symbol_id :: nat
  defines "flags \<equiv> el_flags_for_symbol L local_symbol_id"
  assumes elf: "inj_on elf (set (arm_names x86_64_arms))"
    and insn: "rex = 0x48 \<or> rex = 0x4c" "modrm AND 0xc7 = 0x05" "length fld = 4" "unat offset = length pre + 3"
    and load: "got_load elf L sec rel res flags w" "get_resolution L rel = ok (res, i, local_symbol_id)"
    and direct: "known_address flags (el_output_kind L) \<or> \<not> is_interposable flags"
    and reach: "let v = rs_raw_value res - 4 - (as_section_address sec + offset) in
      if known_address flags (el_output_kind L) then 0 \<le> sint (rs_raw_value res) \<and> sint (rs_raw_value res) < 2 ^ 31
      else - (2 ^ 31) \<le> sint v \<and> sint v < 2 ^ 31"
  shows "\<exists>out'. apply_relocation (elf_reloc_arch Arch_X86_64 elf r_info uleb) L sec offset rel cache rest rds
        (pre @ [rex, 0x8b, modrm] @ fld @ post) w = ok (Normal, out', w) \<and>
      x86_64_decode_load out' (length pre) (as_section_address sec + offset + 4) = Some (reg_operand rex modrm, rs_raw_value res) \<and>
      length out' = length pre + 7 + length post \<and> take (length pre) out' = pre \<and> drop (length pre + 7) out' = post"
proof (cases "known_address flags (el_output_kind L)")
  case True
  then show ?thesis
    using got_load_constant [OF elf insn(1,3,4) load [unfolded flags_def], of r_info uleb cache rest rds modrm post]
      rewritten_registers [OF insn(1)] reach field_sign_extended [of "rs_raw_value res"]
    by (simp add: flags_def x86_64_decode_load_def Let_def)
next
  case False
  let ?v = "rs_raw_value res - 4 - (as_section_address sec + offset)"
  show ?thesis
    using got_load_lea [OF elf insn(1,3,4) load [unfolded flags_def], of ?v r_info uleb cache rest rds modrm post]
      False direct rewritten_registers [OF insn(1)] insn(2) reach field_sign_extended [of ?v]
    by (simp add: flags_def x86_64_decode_load_def Let_def)
qed

text \<open>
  (C34) A constant at or above \<open>2\<^sup>3\<^sup>1\<close> is loaded wrongly: the relaxation of a GOT load replaces the relocation
  by \<open>R_X86_64_32\<close>, whose range is unsigned, but the rewritten \<open>mov\<close> has a REX.W prefix, so the
  processor extends its immediate with the sign. For every known address from \<open>2\<^sup>3\<^sup>1\<close> to \<open>2\<^sup>3\<^sup>2\<close> the
  relocation is applied without an error and the register gets \<open>2\<^sup>3\<^sup>2\<close> less than the address.
\<close>

theorem x86_64_got_load_constant_wrong:
  fixes L :: ElfLayout and local_symbol_id :: nat
  defines "flags \<equiv> el_flags_for_symbol L local_symbol_id"
  assumes elf: "inj_on elf (set (arm_names x86_64_arms))"
    and insn: "rex = 0x48 \<or> rex = 0x4c" "length fld = 4" "unat offset = length pre + 3"
    and load: "got_load elf L sec rel res flags w" "get_resolution L rel = ok (res, i, local_symbol_id)"
    and known: "known_address flags (el_output_kind L)" "2 ^ 31 \<le> sint (rs_raw_value res)" "sint (rs_raw_value res) < 2 ^ 32"
  shows "\<exists>out'. apply_relocation (elf_reloc_arch Arch_X86_64 elf r_info uleb) L sec offset rel cache rest rds
        (pre @ [rex, 0x8b, modrm] @ fld @ post) w = ok (Normal, out', w) \<and>
      x86_64_decode_load out' (length pre) next_insn = Some (reg_operand rex modrm, rs_raw_value res - 2 ^ 32)"
proof -
  have "signed_take_bit 31 (rs_raw_value res) = rs_raw_value res - 2 ^ 32"
  proof (rule signed_word_eqI)
    let ?a = "sint (rs_raw_value res)"
    have "sint (signed_take_bit 31 (rs_raw_value res)) = signed_take_bit 31 (?a - 2 ^ 32)"
      by (simp add: sint_signed_take_bit signed_take_bit_eq_take_bit_shift take_bit_eq_mod mod_eq_dvd_iff)
    also have "\<dots> = ?a - 2 ^ 32" using known(2,3) by (intro signed_take_bit_int_eq_self) simp_all
    also have "\<dots> = sint (rs_raw_value res - 2 ^ 32)"
      using known(2,3) sint_of_int_small [of "?a - 2 ^ 32"] by simp
    finally show "sint (signed_take_bit 31 (rs_raw_value res)) = sint (rs_raw_value res - 2 ^ 32)" .
  qed
  then have "signed_take_bit 31 (from_le_bytes (le_bytes 4 (rs_raw_value res))) = rs_raw_value res - 2 ^ 32"
    by (simp add: from_le_bytes_le_bytes signed_take_bit_take_bit)
  then show ?thesis
    using got_load_constant [OF elf insn load [unfolded flags_def], of r_info uleb cache rest rds modrm post] known
      rewritten_registers [OF insn(1)]
    by (simp add: flags_def x86_64_decode_load_def Let_def)
qed

section \<open>Examples\<close>

text \<open>A load of the GOT entry of a symbol of a shared object, and of an absolute symbol.\<close>

definition load_elf :: "string \<Rightarrow> u32" where
  "load_elf = numbered (arm_names x86_64_arms)"

lemma load_elf_inj: "inj_on load_elf (set (arm_names x86_64_arms))"
  unfolding load_elf_def by (rule inj_on_numbered) (simp add: arm_names_def x86_64_arms_def)

definition load_rel :: Relocation where
  "load_rel = \<lparr>rel_offset = 3, rel_raw_type = load_elf ''R_X86_64_REX_GOTPCRELX'', rel_symbol = Some 0, rel_addend = - 4\<rparr>"

definition load_symbol :: "ValueFlags \<Rightarrow> u64 \<Rightarrow> Resolution" where
  "load_symbol flags address = label_resolution 0\<lparr>rs_raw_value := address, rs_flags := flags\<rparr>"

definition load_layout :: "ValueFlags \<Rightarrow> u64 \<Rightarrow> ElfLayout" where
  "load_layout flags address = label_layout\<lparr>el_resolutions := [Some (load_symbol flags address)], el_flags_for_symbol := (\<lambda>_. flags)\<rparr>"

lemma load_resolution:
  assumes "merge_flags flags flags = flags"
  shows "get_resolution (load_layout flags address) load_rel = ok (load_symbol flags address, 0, 0)"
  using assms by (auto simp: get_resolution_def load_rel_def load_layout_def label_layout_def find_resolution_def
      merged_symbol_resolution_def get_def label_resolution_def load_symbol_def)

lemma load_flags:
  "\<not> is_ifunc 0x48" "\<not> is_ifunc 0x49" "is_absolute 0x49" "\<not> is_dynamic 0x49" "\<not> is_absolute 0x48" "\<not> is_interposable 0x48"
  "\<not> known_address 0x48 SharedObject" "known_address 0x49 SharedObject" "merge_flags 0x48 0x48 = 0x48" "merge_flags 0x49 0x49 = 0x49"
  by code_simp+

lemma load_example:
  assumes "tw_output_kind w = SharedObject" "\<not> is_ifunc flags" "address \<noteq> 0"
  shows "got_load load_elf (load_layout flags address) label_section load_rel (load_symbol flags address)
    (el_flags_for_symbol (load_layout flags address) 0) w"
  using assms by (simp add: got_load_def load_layout_def load_symbol_def label_layout_def label_section_def load_rel_def same_nature_def)

theorem x86_64_got_load_relaxed_witness:
  "\<forall>w. (\<exists>out'. apply_relocation (elf_reloc_arch Arch_X86_64 load_elf (\<lambda>_ _. 0) (\<lambda>_. [])) (load_layout 0x48 0x1010) label_section 3 load_rel
        empty_cache [] None [0x48, 0x8b, 0x05, 0, 0, 0, 0, 0xc3]
        (w\<lparr>tw_output_kind := SharedObject\<rparr>) = ok (Normal, out', w\<lparr>tw_output_kind := SharedObject\<rparr>) \<and>
      x86_64_decode_load out' 0 0x2007 = Some (0, 0x1010))" (is "\<forall>w. ?P w")
proof
  fix w :: TableWriter
  let ?w = "w\<lparr>tw_output_kind := SharedObject\<rparr>"
  from load_example [of ?w "0x48" "0x1010"] load_flags
  have load: "got_load load_elf (load_layout 0x48 0x1010) label_section load_rel (load_symbol 0x48 0x1010)
      (el_flags_for_symbol (load_layout 0x48 0x1010) 0) ?w" by simp
  show "?P w"
    using x86_64_got_load_relaxed [OF load_elf_inj _ _ _ _ load load_resolution, of "0x48" "0x05" "[0, 0, 0, 0]" 3 "[]"
        "\<lambda>_ _. 0" "\<lambda>_. []" empty_cache "[]" None "[0xc3]"] load_flags
    by (auto simp: load_layout_def load_symbol_def label_layout_def label_section_def reg_operand_def)
qed

theorem x86_64_got_load_constant_wrong_witness:
  "\<forall>w. (\<exists>out'. apply_relocation (elf_reloc_arch Arch_X86_64 load_elf (\<lambda>_ _. 0) (\<lambda>_. [])) (load_layout 0x49 0x80000000) label_section 3 load_rel
        empty_cache [] None [0x48, 0x8b, 0x05, 0, 0, 0, 0, 0xc3]
        (w\<lparr>tw_output_kind := SharedObject\<rparr>) = ok (Normal, out', w\<lparr>tw_output_kind := SharedObject\<rparr>) \<and>
      x86_64_decode_load out' 0 0x2007 = Some (0, 0xffffffff80000000))" (is "\<forall>w. ?P w")
proof
  fix w :: TableWriter
  let ?w = "w\<lparr>tw_output_kind := SharedObject\<rparr>"
  from load_example [of ?w "0x49" "0x80000000"] load_flags
  have load: "got_load load_elf (load_layout 0x49 0x80000000) label_section load_rel (load_symbol 0x49 0x80000000)
      (el_flags_for_symbol (load_layout 0x49 0x80000000) 0) ?w" by simp
  show "?P w"
    using x86_64_got_load_constant_wrong [OF load_elf_inj _ _ _ load load_resolution, of "0x48" "[0, 0, 0, 0]" 3 "[]"
        "\<lambda>_ _. 0" "\<lambda>_. []" empty_cache "[]" None "0x05" "[0xc3]" "0x2007"] load_flags
    by (auto simp: load_layout_def load_symbol_def label_layout_def label_section_def reg_operand_def)
qed

text \<open>A \<open>mov\<close> from the GOT with a symbol of this module, and the address of a thread-local symbol that may be interposed.\<close>

theorem x86_64_chosen_applies_witness:
  "\<exists>b' offset' addend'. x86_64_apply MovIndirectToLea [0x48, 0x8b, 0x05, 0, 0, 0, 0] 3 (- 4) = Some (b', offset', addend')"
  using x86_64_chosen_applies [OF chosen_load(2) [OF load_elf_inj, of "0x48" 3 "[]" "\<lparr>sf_is_alloc = True, sf_is_executable = True\<rparr>" "0x48"
      SharedObject "0x05" "[0, 0, 0, 0]" "[]" True None], of "- 4"] load_flags
  by simp

lemma tlsgd_example:
  "x86_64_new_relaxation load_elf (load_elf ''R_X86_64_TLSGD'')
      [0x66, 0x48, 0x8d, 0x3d, 0, 0, 0, 0, 0x66, 0x66, 0x48, 0xe8, 0, 0, 0, 0] 4 0 (DynamicExecutable Relocatable)
      \<lparr>sf_is_alloc = True, sf_is_executable = True\<rparr> True None =
    Some (Some \<lparr>rlx_kind = TlsGdToInitialExec, rlx_rel_info = x86_64_4_byte GotTpOff Signed, rlx_mandatory = False\<rparr>)"
  by code_simp

theorem x86_64_interposable_kept_witness:
  "\<exists>x. x86_64_new_relaxation load_elf (load_elf ''R_X86_64_TLSGD'')
      [0x66, 0x48, 0x8d, 0x3d, 0, 0, 0, 0, 0x66, 0x66, 0x48, 0xe8, 0, 0, 0, 0] 4 0 (DynamicExecutable Relocatable)
      \<lparr>sf_is_alloc = True, sf_is_executable = True\<rparr> True None = Some (Some x) \<and> via_tables (rel_kind (rlx_rel_info x))"
proof -
  have "is_interposable 0" "\<not> (is_absolute 0 \<and> \<not> is_dynamic 0)" "\<not> (is_address 0 \<and> \<not> is_relocatable (DynamicExecutable Relocatable))"
    by code_simp+
  then show ?thesis
    using x86_64_interposable_kept [OF load_elf_inj tlsgd_example] tlsgd_example by auto
qed

end
