(* ===== verification/Pcrel_Pair.thy ===== *)
theory Pcrel_Pair
  imports Apply_Effect New_Relaxation
begin

text \<open>
  RISC-V pairs of PC-relative relocations (\<open>apply_relocations\<close> and the kind \<open>RelativeRiscVLow12\<close> of
  \<open>libwild/src/elf_writer.rs\<close>): the relocation of the low part refers to the label of the instruction with the high
  part. It is found among the relocations of the section, and the two instructions compute the address.
\<close>

section \<open>The relocation of the high part\<close>

text \<open>The cache behind the relocations \<open>seen\<close>, as the loop of \<open>apply_relocations\<close> builds it.\<close>

definition note_relocation :: "RelocArch \<Rightarrow> SectionDeltas option \<Rightarrow> Relocation \<Rightarrow> RelocationCache \<Rightarrow> RelocationCache" where
  "note_relocation A rds rel cache = (note_high_part A rds rel cache)\<lparr>rc_previous := Some rel\<rparr>"

definition cache_after :: "RelocArch \<Rightarrow> SectionDeltas option \<Rightarrow> Relocation list \<Rightarrow> RelocationCache" where
  "cache_after A rds seen = fold (note_relocation A rds) seen empty_cache"

lemma rbind_eq_ok: "rbind m f = ok r \<longleftrightarrow> (\<exists>x. m = ok x \<and> f x = ok r)"
  by (auto simp: rbind_def ok_def split: option.split sum.split)

lemma loop_reaches:
  "apply_relocations_loop A L sec rds (map Some seen @ rels) m cache cur out w = ok r \<Longrightarrow>
    \<exists>m' cur' out' w'. apply_relocations_loop A L sec rds rels m' (fold (note_relocation A rds) seen cache) cur' out' w' = ok r"
proof (induction seen arbitrary: m cache cur out w)
  case (Cons rel seen)
  from Cons.prems obtain m' cur' out' w' where
    "apply_relocations_loop A L sec rds (map Some seen @ rels) m' (note_relocation A rds rel cache) cur' out' w' = ok r"
    by (cases "m = SkipNextRelocation") (auto simp: Let_def note_relocation_def rbind_eq_ok split: prod.splits)
  from Cons.IH [OF this] show ?case by simp
qed auto

definition high_part_at :: "RelocArch \<Rightarrow> SectionDeltas option \<Rightarrow> u64 \<Rightarrow> Relocation \<Rightarrow> bool" where
  "high_part_at A rds offset r \<longleftrightarrow> rel_raw_type r \<in> set (ra_high_part_relocations A) \<and> opt_input_to_output rds (rel_offset r) = offset"

lemma noted_high_part:
  "rc_high_part_symbols (note_high_part A rds rel cache) offset =
    (if high_part_at A rds offset rel then Some rel else rc_high_part_symbols cache offset)"
  by (auto simp: note_high_part_def high_part_at_def)

lemma fold_high_part:
  "rc_high_part_symbols (fold (note_relocation A rds) seen cache) offset =
    (case filter (high_part_at A rds offset) (rev seen) of [] \<Rightarrow> rc_high_part_symbols cache offset | r # _ \<Rightarrow> Some r)"
  by (induction seen arbitrary: cache) (auto simp: note_relocation_def noted_high_part split: list.split)

lemma set_present: "set (map the (filter (\<lambda>r. r \<noteq> None) rest)) = {r. Some r \<in> set rest}"
  by (force simp: image_iff)

lemma find_high_part_eq: "find_high_part A rds offset rest = find (high_part_at A rds offset) (map the (filter (\<lambda>r. r \<noteq> None) rest))"
  by (induction rest) (auto simp: high_part_at_def split: option.split)

lemma find_high_part_Some: "find_high_part A rds offset rest = Some r \<Longrightarrow> Some r \<in> set rest \<and> high_part_at A rds offset r"
  by (induction rest) (auto simp: high_part_at_def split: option.splits if_splits)

text \<open>The lookup of a low part with the relocations \<open>seen\<close> before it and \<open>rest\<close> behind it.\<close>

lemma high_part_found:
  assumes "Some hi \<in> set (map Some seen @ Some lo # rest)" "high_part_at A rds offset hi"
    and "\<And>r. Some r \<in> set (map Some seen @ Some lo # rest) \<Longrightarrow> high_part_at A rds offset r \<Longrightarrow> r = hi"
  shows "(case rc_high_part_symbols (note_high_part A rds lo (cache_after A rds seen)) offset of
    Some r \<Rightarrow> Some r | None \<Rightarrow> find_high_part A rds offset rest) = Some hi"
proof (cases "\<exists>r. r \<in> set (seen @ [lo]) \<and> high_part_at A rds offset r")
  case True
  have only: "r \<in> set (seen @ [lo]) \<Longrightarrow> high_part_at A rds offset r \<Longrightarrow> r = hi" for r
    using assms(3) [of r] by auto
  have "rc_high_part_symbols (note_high_part A rds lo (cache_after A rds seen)) offset = Some hi"
  proof (cases "high_part_at A rds offset lo")
    case False
    then have "filter (high_part_at A rds offset) (rev seen) \<noteq> []" using True by (auto simp: filter_empty_conv)
    then obtain r rs where r: "filter (high_part_at A rds offset) (rev seen) = r # rs" by (cases "filter (high_part_at A rds offset) (rev seen)") auto
    then have "r \<in> set seen \<and> high_part_at A rds offset r" by (auto dest!: filter_eq_ConsD) (metis in_set_conv_decomp set_rev)
    then have "r = hi" using only [of r] by simp
    then show ?thesis using False r by (simp add: noted_high_part cache_after_def fold_high_part)
  qed (use only in \<open>simp add: noted_high_part\<close>)
  then show ?thesis by simp
next
  case False
  then have "filter (high_part_at A rds offset) (rev seen) = []" "\<not> high_part_at A rds offset lo"
    by (auto simp: filter_empty_conv)
  then have "rc_high_part_symbols (note_high_part A rds lo (cache_after A rds seen)) offset = None"
    by (simp add: noted_high_part cache_after_def fold_high_part empty_cache_def)
  moreover have "Some hi \<in> set rest" using assms(1,2) False by auto
  then have "find (high_part_at A rds offset) (map the (filter (\<lambda>r. r \<noteq> None) rest)) \<noteq> None"
    unfolding find_None_iff set_present using assms(2) by blast
  then obtain r where "find_high_part A rds offset rest = Some r" unfolding find_high_part_eq by blast
  moreover from this have "Some r \<in> set rest" "high_part_at A rds offset r"
    using find_high_part_Some by auto
  ultimately show ?thesis using assms(3) [of r] by simp
qed

text \<open>The value of a low part with the resolution of its high part.\<close>

definition high_part_value :: "ElfLayout \<Rightarrow> RelocationKindInfo \<Rightarrow> Resolution \<Rightarrow> nat \<Rightarrow> u64 \<Rightarrow> i64 \<Rightarrow> u64 \<Rightarrow> u64 write_result" where
  "high_part_value L hi_info hi_res hi_symbol p hi_addend bias =
     (case rel_kind hi_info of
        RelocationKind.Relative \<Rightarrow> rbind (value_with_addend L hi_res hi_addend hi_symbol) (\<lambda>v. ok (v + bias - p))
      | GotRelative \<Rightarrow> rbind (got_address_for_relocation hi_res) (\<lambda>v. ok (v + hi_addend + bias - p))
      | TlsGd \<Rightarrow> rbind (tlsgd_got_address hi_res) (\<lambda>v. ok (v + hi_addend + bias - p))
      | TlsLd \<Rightarrow> map_option (\<lambda>v. Inr (v + hi_addend + bias - p)) (el_tlsld_got_entry L)
      | GotTpOff \<Rightarrow> rbind (got_address hi_res) (\<lambda>v. ok (v + hi_addend + bias - p))
      | _ \<Rightarrow> fail Unsupported_High_Part)"

lemma low_part_value_found:
  assumes "value_with_addend L res 0 i = ok (as_section_address sec + offset)"
    and "(case rc_high_part_symbols cache offset of Some r \<Rightarrow> Some r | None \<Rightarrow> find_high_part A rds offset rest) = Some hi"
    and "ra_relocation_from_raw A (rel_raw_type hi) = Some hi_info" "get_resolution L hi = ok (hi_res, hi_symbol, s)"
  shows "low_part_value A L sec res i 0 bias cache rest rds =
    high_part_value L hi_info hi_res hi_symbol (as_section_address sec + offset) (rel_addend hi) bias"
  by (simp only: low_part_value_def high_part_value_def assms Let_def rbind_simps or_error_simps add_diff_cancel_left' if_False
      simp_thms prod.case)

text \<open>
  On RISC-V the low part of a PC-relative pair takes the value of its high part: with one high part
  at the place that the label of the low part denotes, among the relocations before and behind it, the
  value of the low part is exactly the value (or the error) that applying that high part at its place gives,
  whether it refers to the symbol, its GOT entry or one of its TLS entries; with no high part there, the
  low part is an error.
\<close>

theorem low_part_matches_high_part:
  fixes seen :: "Relocation list" and lo :: Relocation and rest :: "Relocation option list" and A :: RelocArch and rds :: "SectionDeltas option"
  defines "rels \<equiv> map Some seen @ Some lo # rest" and "cache \<equiv> note_high_part A rds lo (cache_after A rds seen)"
  assumes label: "value_with_addend L res 0 i = ok (as_section_address sec + offset)"
    and one: "\<And>r. Some r \<in> set rels \<Longrightarrow> high_part_at A rds offset r \<Longrightarrow>
      r = hi \<and> get_resolution L hi = ok (hi_res, hi_symbol, local_symbol_id) \<and> ra_relocation_from_raw A (rel_raw_type hi) = Some hi_info \<and>
      rel_mask hi_info = None \<and> rel_bias hi_info = bias \<and> rel_kind hi_info \<in> {RelocationKind.Relative, GotRelative, TlsGd, TlsLd, GotTpOff}"
  shows "low_part_value A L sec res i 0 bias cache rest rds =
    (if \<exists>r. Some r \<in> set rels \<and> high_part_at A rds offset r
     then table_free_value L hi_info hi_res hi_symbol (as_section_address sec + offset) (rel_addend hi)
     else fail Missing_High_Part)"
proof (cases "\<exists>r. Some r \<in> set rels \<and> high_part_at A rds offset r")
  case True
  then have hi: "Some hi \<in> set rels" "high_part_at A rds offset hi" using one by blast+
  note facts = one [OF hi]
  have "(case rc_high_part_symbols cache offset of Some r \<Rightarrow> Some r | None \<Rightarrow> find_high_part A rds offset rest) = Some hi"
    unfolding cache_def
    by (rule high_part_found [OF hi [unfolded rels_def]]) (rule conjunct1 [OF one], simp_all only: rels_def)
  from low_part_value_found [OF label this] facts have "low_part_value A L sec res i 0 bias cache rest rds =
      high_part_value L hi_info hi_res hi_symbol (as_section_address sec + offset) (rel_addend hi) bias" by simp
  then show ?thesis
    using facts True
    by (auto simp: high_part_value_def table_free_value_def get_page_mask_def PageMaskValue_default_def Let_def algebra_simps
        rbind_def ok_def split: option.split)
next
  case False
  then have "filter (high_part_at A rds offset) (rev seen) = []" "\<not> high_part_at A rds offset lo"
      "find (high_part_at A rds offset) (map the (filter (\<lambda>r. r \<noteq> None) rest)) = None"
    unfolding find_None_iff set_present by (auto simp: filter_empty_conv rels_def)
  then have "rc_high_part_symbols cache offset = None" "find_high_part A rds offset rest = None"
    by (simp_all add: cache_def noted_high_part cache_after_def fold_high_part empty_cache_def find_high_part_eq)
  then show ?thesis using False label by (auto simp: low_part_value_def)
qed

section \<open>The two instructions\<close>

definition pair_info :: "RelocationKind \<Rightarrow> RiscVInstruction \<Rightarrow> RelocationKindInfo" where
  "pair_info kind insn = \<lparr>rel_kind = kind, rel_size = bit_mask_riscv 0 32 insn, rel_mask = None,
     rel_range = AllowedRange_new (- (2 ^ 31)) (2 ^ 32), rel_alignment = 1, rel_bias = 0\<rparr>"

lemma pair_infos:
  assumes "inj_on elf (set (arm_names (riscv_arms elf)))"
  shows "riscv_relocation_type_from_raw elf (elf ''R_RISCV_PCREL_HI20'') = Some (pair_info RelocationKind.Relative UType)"
    "riscv_relocation_type_from_raw elf (elf ''R_RISCV_PCREL_LO12_I'') = Some (pair_info RelativeRiscVLow12 IType)"
    "riscv_relocation_type_from_raw elf (elf ''R_RISCV_PCREL_LO12_S'') = Some (pair_info RelativeRiscVLow12 SType)"
  using riscv_arm_found [OF assms, of "[''R_RISCV_PCREL_HI20'']" _ _ _ _ _ "''R_RISCV_PCREL_HI20''"]
    riscv_arm_found [OF assms, of "[''R_RISCV_PCREL_LO12_I'']" _ _ _ _ _ "''R_RISCV_PCREL_LO12_I''"]
    riscv_arm_found [OF assms, of "[''R_RISCV_PCREL_LO12_S'']" _ _ _ _ _ "''R_RISCV_PCREL_LO12_S''"]
  by (simp_all add: riscv_arms_defs pair_info_def)

lemma pair_not_relaxed:
  assumes "inj_on elf (set (arm_names (riscv_arms elf)))"
    and "rel_raw_type rel = elf n" "n \<in> {''R_RISCV_PCREL_HI20'', ''R_RISCV_PCREL_LO12_I'', ''R_RISCV_PCREL_LO12_S''}"
  shows "chosen_relaxation (elf_reloc_arch Arch_RiscV64 elf r_info uleb) L sec rel res s offset rds out = Some None"
proof -
  have neq: "elf n \<noteq> elf m" if "m \<in> {''R_RISCV_CALL'', ''R_RISCV_CALL_PLT'', ''R_RISCV_HI20'', ''R_RISCV_LO12_I'', ''R_RISCV_LO12_S''}" for m
  proof -
    have "m \<in> set (arm_names (riscv_arms elf))" "n \<in> set (arm_names (riscv_arms elf))" "m \<noteq> n"
      using that assms(3) by (auto simp: arm_names_def riscv_arms_defs)
    then show ?thesis using assms(1) by (metis inj_onD)
  qed
  obtain info where "riscv_relocation_type_from_raw elf (elf n) = Some info"
    using assms(3) pair_infos [OF assms(1)] by auto
  then have "riscv_new_relaxation elf (rel_raw_type rel) out offset flags kind sf nz ds = no_relaxation" for flags kind sf nz ds
    using neq [of "''R_RISCV_CALL''"] neq [of "''R_RISCV_CALL_PLT''"] neq [of "''R_RISCV_HI20''"] neq [of "''R_RISCV_LO12_I''"]
      neq [of "''R_RISCV_LO12_S''"]
    by (simp add: riscv_new_relaxation_def assms(2) Let_def)
  then show ?thesis
    by (simp add: chosen_relaxation_def elf_reloc_arch_def elf_new_relaxation_def)
qed

lemma pair_written:
  assumes "verify (pair_info kind insn) v = Inr ()" "kind = RelocationKind.Relative \<or> kind = RelativeRiscVLow12"
    "insn = UType \<or> insn = IType \<or> insn = SType" "offset + 4 \<le> length out"
  shows "write_at A (pair_info kind insn) v out offset =
    ok (take offset out @ le_bytes 4 (riscv_word32 insn (word_at out offset) (take_bit 32 v)) @ drop (offset + 4) out)"
proof -
  have "riscv_write_to_value insn (take_bit 32 v) (sint v < 0) (drop offset out) =
      Some (le_bytes 4 (riscv_word32 insn (word_at out offset) (take_bit 32 v)) @ drop (offset + 4) out)"
    using assms(3,4) riscv_write_word32' [of insn "drop offset out" "take_bit 32 v" "sint v < 0"]
    by (auto simp: riscv_compressed_def word_at_def add.commute)
  then show ?thesis
    using assms by (auto simp: write_at_def write_relocation_to_buffer_def pair_info_def bit_mask_riscv_def BitMask_new_def
        insn_write_to_value_def extract_bit_range_eq)
qed

lemma bit_scast_32: "n < 64 \<Longrightarrow> bit (scast (x :: u32) :: u64) n = bit x (min n 31)"
  by (cases "n < 31") (auto simp: bit_simps min_def)

text \<open>\<open>auipc\<close> adds its upper immediate, extended with its sign, to its own address.\<close>

lemma pair_sum:
  fixes d v :: u64
  assumes "- (2 ^ 31) \<le> sint d" "sint d < 2 ^ 31 - 0x800" "take_bit 32 v = take_bit 32 d"
  shows "scast (riscv_upper (riscv_word32 UType w v)) + signed_take_bit 11 v = d"
proof -
  let ?e = "d + 0x800"
  have "sint ?e = sint d + 0x800"
    using assms sint_of_int_small [of "sint d + 0x800"] by simp
  then have "signed_take_bit 31 ?e = ?e" using assms by (intro signed_take_bit_fits) simp_all
  then have e: "bit ?e n \<longleftrightarrow> bit ?e (min n 31)" if "n < 64" for n
    using that bit_signed_take_bit_iff [of 31 ?e n] by (simp add: min.commute)
  have "(ucast v :: u32) = ucast (take_bit 32 v)" by (rule bit_word_eqI) (simp add: bit_simps)
  also have "\<dots> = ucast d" unfolding assms(3) by (rule bit_word_eqI) (simp add: bit_simps)
  finally have "(ucast v :: u32) + 0x800 = ucast ?e" by (simp add: ucast_add_down)
  then have "scast (riscv_upper (riscv_word32 UType w v)) = push_bit 12 (drop_bit 12 ?e)"
  proof (simp only: riscv_upper_utype, intro bit_word_eqI)
    fix n assume "n < LENGTH(64)"
    then have n: "n < 64" "min n 31 < 32" "12 \<le> min n 31 \<longleftrightarrow> 12 \<le> n" by simp_all
    have "bit (scast (push_bit 12 (drop_bit 12 (ucast ?e :: u32))) :: u64) n = bit (push_bit 12 (drop_bit 12 (ucast ?e :: u32))) (min n 31)"
      using n(1) by (rule bit_scast_32)
    also have "\<dots> \<longleftrightarrow> 12 \<le> n \<and> bit ?e (min n 31)" using n by (auto simp: bit_simps)
    also have "\<dots> \<longleftrightarrow> 12 \<le> n \<and> bit ?e n" using e [OF n(1)] by simp
    also have "\<dots> \<longleftrightarrow> bit (push_bit 12 (drop_bit 12 ?e)) n" using n(1) by (auto simp: bit_simps)
    finally show "bit (scast (push_bit 12 (drop_bit 12 (ucast ?e :: u32))) :: u64) n \<longleftrightarrow> bit (push_bit 12 (drop_bit 12 ?e)) n" .
  qed
  moreover have "signed_take_bit 11 v = signed_take_bit 11 d"
    using arg_cong [OF assms(3), of "signed_take_bit 11"] by (simp add: signed_take_bit_take_bit)
  ultimately show ?thesis using hi_lo_split [of 11 d] by simp
qed

lemma pair_applied:
  assumes elf: "inj_on elf (set (arm_names (riscv_arms elf)))"
    and rel: "rel_raw_type rel = elf n" "(n, kind, insn) \<in> {(''R_RISCV_PCREL_HI20'', RelocationKind.Relative, UType),
      (''R_RISCV_PCREL_LO12_I'', RelativeRiscVLow12, IType), (''R_RISCV_PCREL_LO12_S'', RelativeRiscVLow12, SType)}"
    and res: "get_resolution L rel = ok (res, i, s)"
    and v: "relocation_value (elf_reloc_arch Arch_RiscV64 elf r_info uleb) L sec (pair_info kind insn) rel res i
      (as_section_address sec + offset) (rel_addend rel) cache rest rds w = ok (v, w)" "verify (pair_info kind insn) v = Inr ()"
    and fits: "unat offset + 4 \<le> length out"
  shows "apply_relocation (elf_reloc_arch Arch_RiscV64 elf r_info uleb) L sec offset rel cache rest rds out w =
    ok (Normal, take (unat offset) out @ le_bytes 4 (riscv_word32 insn (word_at out (unat offset)) (take_bit 32 v)) @
      drop (unat offset + 4) out, w)"
proof -
  have "riscv_relocation_type_from_raw elf (elf n) = Some (pair_info kind insn)"
    using rel(2) pair_infos [OF elf] by auto
  then have info: "ra_relocation_from_raw (elf_reloc_arch Arch_RiscV64 elf r_info uleb) (rel_raw_type rel) = Some (pair_info kind insn)"
    by (simp add: elf_reloc_arch_def arch_relocation_from_raw_def rel(1))
  have "chosen_relaxation (elf_reloc_arch Arch_RiscV64 elf r_info uleb) L sec rel res s offset rds out = Some None"
    using rel(2) by (intro pair_not_relaxed [OF elf rel(1)]) auto
  moreover have "kind = RelocationKind.Relative \<or> kind = RelativeRiscVLow12" "insn = UType \<or> insn = IType \<or> insn = SType"
    using rel(2) by auto
  moreover from this have "\<not> adjusted_kind (rel_kind (pair_info kind insn))" "rel_kind (pair_info kind insn) \<noteq> None_kind"
      "rel_kind (pair_info kind insn) \<noteq> Alignment_kind"
    by (auto simp: pair_info_def adjusted_kind_def)
  ultimately show ?thesis
    using info res v fits pair_written [OF v(2) _ _ fits] by (simp add: apply_relocation_def finish_relocation_def)
qed

text \<open>
  (C9) A RISC-V pair of PC-relative relocations computes the address of its symbol: after
  \<open>R_RISCV_PCREL_HI20\<close> is applied to an \<open>auipc\<close> and \<open>R_RISCV_PCREL_LO12_I\<close> or \<open>R_RISCV_PCREL_LO12_S\<close>, which
  refers to the label of that \<open>auipc\<close>, to another instruction, anywhere in the section and before or
  after it, the address of the \<open>auipc\<close> plus its upper immediate plus the low immediate is the address of the symbol plus
  the addend of the high part. Only the two instructions change. The distance is from \<open>-2\<^sup>3\<^sup>1\<close> to \<open>2\<^sup>3\<^sup>1 - 2048\<close>, which is what
  the two immediates can express; the range check of the code accepts distances up to \<open>2\<^sup>3\<^sup>2\<close>.
\<close>

theorem pcrel_pair_reaches:
  fixes seen :: "Relocation list" and lo :: Relocation and rest :: "Relocation option list" and elf :: "string \<Rightarrow> u32"
    and rds :: "SectionDeltas option" and hi :: Relocation and r_info :: "u32 \<Rightarrow> u32 \<Rightarrow> u64" and uleb :: "u64 \<Rightarrow> bytes"
  defines "A \<equiv> elf_reloc_arch Arch_RiscV64 elf r_info uleb" and "rels \<equiv> map Some seen @ Some lo # rest"
    and "hi_offset \<equiv> opt_input_to_output rds (rel_offset hi)"
  assumes elf: "inj_on elf (set (arm_names (riscv_arms elf)))"
    and hi: "rel_raw_type hi = elf ''R_RISCV_PCREL_HI20''" "get_resolution L hi = ok (hi_res, hi_symbol, s)"
      "value_with_addend L hi_res (rel_addend hi) hi_symbol = ok target"
    and lo: "(rel_raw_type lo, insn) \<in> {(elf ''R_RISCV_PCREL_LO12_I'', IType), (elf ''R_RISCV_PCREL_LO12_S'', SType)}"
      "rel_addend lo = 0" "get_resolution L lo = ok (res, i, t)" "value_with_addend L res 0 i = ok (as_section_address sec + hi_offset)"
    and listed: "Some hi \<in> set rels" "\<And>r. Some r \<in> set rels \<Longrightarrow> high_part_at A rds hi_offset r \<Longrightarrow> r = hi"
    and fits: "unat hi_offset + 4 \<le> length out" "unat offset + 4 \<le> length out'"
    and reach: "- (2 ^ 31) \<le> sint (target - (as_section_address sec + hi_offset))"
      "sint (target - (as_section_address sec + hi_offset)) < 2 ^ 31 - 0x800"
  shows "\<exists>h l x neg. apply_relocation A L sec hi_offset hi cache rest' rds out w = ok (Normal, h, w) \<and>
    apply_relocation A L sec offset lo (note_high_part A rds lo (cache_after A rds seen)) rest rds out' w' = ok (Normal, l, w') \<and>
    riscv_read_value insn (drop (unat offset) l) = Some (x, neg) \<and>
    as_section_address sec + hi_offset + scast (riscv_upper (word_at h (unat hi_offset))) + x = target \<and>
    take (unat hi_offset) h = take (unat hi_offset) out \<and> drop (unat hi_offset + 4) h = drop (unat hi_offset + 4) out \<and>
    take (unat offset) l = take (unat offset) out' \<and> drop (unat offset + 4) l = drop (unat offset + 4) out'"
proof -
  let ?p = "as_section_address sec + hi_offset"
  let ?d = "target - ?p" and ?cache = "note_high_part A rds lo (cache_after A rds seen)"
  have ok: "verify (pair_info k insn) ?d = Inr ()" for k insn
    using reach by (simp add: verify_def is_multiple_of_def range_contains_def AllowedRange_new_def pair_info_def)
  have "relocation_value A L sec (pair_info RelocationKind.Relative UType) hi hi_res hi_symbol ?p (rel_addend hi) cache rest' rds w = ok (?d, w)"
    using hi(3)
    by (simp add: relocation_value_def table_free_value_def Let_def get_page_mask_def PageMaskValue_default_def pair_info_def)
  from pair_applied [OF elf hi(1) _ hi(2) this [unfolded A_def] ok fits(1)]
  have 1: "apply_relocation A L sec hi_offset hi cache rest' rds out w =
      ok (Normal, take (unat hi_offset) out @ le_bytes 4 (riscv_word32 UType (word_at out (unat hi_offset)) (take_bit 32 ?d)) @
        drop (unat hi_offset + 4) out, w)"
    by (simp add: A_def)
  have "high_part_at A rds hi_offset hi"
    by (simp add: high_part_at_def A_def elf_reloc_arch_def riscv_high_part_names_def hi(1) hi_offset_def)
  note found = high_part_found [OF listed(1) [unfolded rels_def] this listed(2) [unfolded rels_def]]
  have "ra_relocation_from_raw A (rel_raw_type hi) = Some (pair_info RelocationKind.Relative UType)"
    using pair_infos(1) [OF elf] by (simp add: A_def elf_reloc_arch_def arch_relocation_from_raw_def hi(1))
  from low_part_value_found [OF lo(4) found this hi(2)] have "low_part_value A L sec res i 0 0 ?cache rest rds = ok ?d"
    by (simp add: high_part_value_def pair_info_def hi(3))
  then have "relocation_value A L sec (pair_info RelativeRiscVLow12 insn) lo res i q (rel_addend lo) ?cache rest rds w' = ok (?d, w')" for q
    by (simp add: relocation_value_def pair_info_def lo(2))
  then have 2: "apply_relocation A L sec offset lo ?cache rest rds out' w' =
      ok (Normal, take (unat offset) out' @ le_bytes 4 (riscv_word32 insn (word_at out' (unat offset)) (take_bit 32 ?d)) @
        drop (unat offset + 4) out', w')"
    using lo(1) pair_applied [OF elf _ _ lo(3) _ ok fits(2)] by (auto simp: A_def)
  have "riscv_read_value insn (le_bytes 4 (riscv_word32 insn u (take_bit 32 ?d)) @ bs) =
      Some (signed_take_bit 11 (take_bit 32 ?d), bit (take_bit 32 ?d) 11)" for u bs
    using lo(1) riscv_read_itype riscv_read_stype by (auto simp: riscv_read_value_def)
  then show ?thesis
    using 1 2 fits pair_sum [OF reach, of "take_bit 32 ?d" "word_at out (unat hi_offset)"]
    by (simp add: word_at_def from_le_bytes_le_bytes take_bit_word_eq_self algebra_simps)
qed

section \<open>Examples\<close>

text \<open>An \<open>auipc\<close> at offset 16 of a section at \<open>0x1000\<close>, and an \<open>addi\<close> behind it that refers to its label.\<close>

definition pair_elf :: "string \<Rightarrow> u32" where
  "pair_elf = numbered (arm_names (riscv_arms (\<lambda>_. 0)))"

lemma pair_elf_inj: "inj_on pair_elf (set (arm_names (riscv_arms elf)))"
  unfolding pair_elf_def by (rule riscv_numbered)

definition pair_hi :: Relocation where
  "pair_hi = \<lparr>rel_offset = 0x10, rel_raw_type = pair_elf ''R_RISCV_PCREL_HI20'', rel_symbol = Some 1, rel_addend = 0\<rparr>"

definition pair_lo :: Relocation where
  "pair_lo = \<lparr>rel_offset = 0x14, rel_raw_type = pair_elf ''R_RISCV_PCREL_LO12_I'', rel_symbol = Some 0, rel_addend = 0\<rparr>"

definition pair_section :: ApplySection where
  "pair_section = label_section\<lparr>as_section_address := 0x1000\<rparr>"

lemma pair_resolutions:
  "get_resolution label_layout pair_hi = ok (label_resolution 1, 1, 1)" "get_resolution label_layout pair_lo = ok (label_resolution 0, 0, 0)"
  using label_values(1) [of 1 0] label_values(1) [of 0 0] by (simp_all add: get_resolution_def pair_hi_def pair_lo_def label_rel_def)

lemma pair_lo_no_high_part: "\<not> high_part_at (elf_reloc_arch Arch_RiscV64 pair_elf r_info uleb) None offset pair_lo"
proof -
  have "pair_elf ''R_RISCV_PCREL_LO12_I'' \<notin> set (map pair_elf riscv_high_part_names)" by code_simp
  then show ?thesis by (simp add: high_part_at_def elf_reloc_arch_def pair_lo_def)
qed

theorem pcrel_pair_reaches_witness:
  "\<forall>w. \<exists>h l x neg. apply_relocation (elf_reloc_arch Arch_RiscV64 pair_elf (\<lambda>_ _. 0) (\<lambda>_. [])) label_layout pair_section 0x10 pair_hi empty_cache
        [Some pair_lo] None (replicate 24 0) w = ok (Normal, h, w) \<and>
      apply_relocation (elf_reloc_arch Arch_RiscV64 pair_elf (\<lambda>_ _. 0) (\<lambda>_. [])) label_layout pair_section 0x14 pair_lo
        (note_high_part (elf_reloc_arch Arch_RiscV64 pair_elf (\<lambda>_ _. 0) (\<lambda>_. [])) None pair_lo
          (cache_after (elf_reloc_arch Arch_RiscV64 pair_elf (\<lambda>_ _. 0) (\<lambda>_. [])) None [pair_hi])) [] None (replicate 24 0) w = ok (Normal, l, w) \<and>
      riscv_read_value IType (drop 0x14 l) = Some (x, neg) \<and> 0x1010 + scast (riscv_upper (word_at h 0x10)) + x = 0x1030"
    (is "\<forall>w. ?P w")
proof
  fix w :: TableWriter
  let ?A = "elf_reloc_arch Arch_RiscV64 pair_elf (\<lambda>_ _. 0) (\<lambda>_. [])"
  have o: "opt_input_to_output None (rel_offset pair_hi) = 0x10" by (simp add: opt_input_to_output_def pair_hi_def)
  have only: "\<And>r. Some r \<in> set (map Some [pair_hi] @ Some pair_lo # []) \<Longrightarrow> high_part_at ?A None 0x10 r \<Longrightarrow> r = pair_hi"
    using pair_lo_no_high_part [of "\<lambda>_ _. 0" "\<lambda>_. []" "0x10"] by auto
  have hi: "rel_raw_type pair_hi = pair_elf ''R_RISCV_PCREL_HI20''" "value_with_addend label_layout (label_resolution 1) (rel_addend pair_hi) 1 = ok 0x1030"
    and lo: "(rel_raw_type pair_lo, IType) \<in> {(pair_elf ''R_RISCV_PCREL_LO12_I'', IType), (pair_elf ''R_RISCV_PCREL_LO12_S'', SType)}"
      "rel_addend pair_lo = 0" "value_with_addend label_layout (label_resolution 0) 0 0 = ok (as_section_address pair_section + 0x10)"
    using label_values(2) [of 0] label_values(2) [of 1] by (simp_all add: pair_hi_def pair_lo_def pair_section_def)
  have p: "as_section_address pair_section + 0x10 = 0x1010" by (simp add: pair_section_def)
  have listed: "Some pair_hi \<in> set (map Some [pair_hi] @ Some pair_lo # [])" by simp
  have fits: "unat (0x10 :: u64) + 4 \<le> length (replicate 24 (0 :: u8))" "unat (0x14 :: u64) + 4 \<le> length (replicate 24 (0 :: u8))" by simp_all
  have reach: "- (2 ^ 31) \<le> sint (0x1030 - 0x1010 :: u64)" "sint (0x1030 - 0x1010 :: u64) < 2 ^ 31 - 0x800" by simp_all
  have u: "unat (0x10 :: u64) = 0x10" "unat (0x14 :: u64) = 0x14" by simp_all
  show "?P w"
    using pcrel_pair_reaches [OF pair_elf_inj hi(1) pair_resolutions(1) hi(2) lo(1,2) pair_resolutions(2), of pair_section None "[pair_hi]" "[]"
        "\<lambda>_ _. 0" "\<lambda>_. []" "replicate 24 0" "0x14" "replicate 24 0" empty_cache "[Some pair_lo]" w w, unfolded o,
        OF lo(3) listed only fits, unfolded p, OF _ _ reach, unfolded u]
    by blast
qed

theorem low_part_matches_high_part_witness:
  "low_part_value (elf_reloc_arch Arch_RiscV64 pair_elf (\<lambda>_ _. 0) (\<lambda>_. [])) label_layout pair_section (label_resolution 0) 0 0 0
      (note_high_part (elf_reloc_arch Arch_RiscV64 pair_elf (\<lambda>_ _. 0) (\<lambda>_. [])) None pair_lo
        (cache_after (elf_reloc_arch Arch_RiscV64 pair_elf (\<lambda>_ _. 0) (\<lambda>_. [])) None [pair_hi])) [] None = ok 0x20"
proof -
  let ?A = "elf_reloc_arch Arch_RiscV64 pair_elf (\<lambda>_ _. 0) (\<lambda>_. [])" and ?info = "pair_info RelocationKind.Relative UType"
  have label: "value_with_addend label_layout (label_resolution 0) 0 0 = ok (as_section_address pair_section + 0x10)"
    using label_values(2) [of 0] by (simp add: pair_section_def)
  have info: "ra_relocation_from_raw ?A (rel_raw_type pair_hi) = Some ?info"
    using pair_infos(1) [OF pair_elf_inj] by (simp add: elf_reloc_arch_def arch_relocation_from_raw_def pair_hi_def)
  have hi: "high_part_at ?A None 0x10 pair_hi"
    by (simp add: high_part_at_def elf_reloc_arch_def riscv_high_part_names_def opt_input_to_output_def pair_hi_def)
  have "low_part_value ?A label_layout pair_section (label_resolution 0) 0 0 0 (note_high_part ?A None pair_lo (cache_after ?A None [pair_hi])) [] None =
      (if \<exists>r. Some r \<in> set (map Some [pair_hi] @ Some pair_lo # []) \<and> high_part_at ?A None 0x10 r
       then table_free_value label_layout ?info (label_resolution 1) 1 (as_section_address pair_section + 0x10) (rel_addend pair_hi)
       else fail Missing_High_Part)"
    using pair_lo_no_high_part [of "\<lambda>_ _. 0" "\<lambda>_. []" "0x10"] info pair_resolutions(1)
    by (intro low_part_matches_high_part [OF label]) (auto simp: pair_info_def)
  also have "\<dots> = ok 0x20"
    using hi label_values(2) [of 1]
    by (auto simp: table_free_value_def get_page_mask_def PageMaskValue_default_def Let_def pair_info_def pair_hi_def pair_section_def)
  finally show ?thesis .
qed

end
