(* ===== verification/Riscv_Call.thy ===== *)
theory Riscv_Call
  imports Pcrel_Pair
begin

text \<open>
  Calls of RISC-V (\<open>R_RISCV_CALL_PLT\<close>): the pair of \<open>auipc\<close> and \<open>jalr\<close> that the relocation patches, and the \<open>jal\<close>
  that replaces it when the relaxation deletes the \<open>jalr\<close> (\<open>CallToJal\<close> of \<open>linker-utils/src/riscv64.rs\<close>), run on
  the registers of the processor.
\<close>

section \<open>Running the instructions\<close>

type_synonym registers = "u32 \<Rightarrow> u64"

definition riscv_rd :: "u32 \<Rightarrow> u32" where
  "riscv_rd w = take_bit 5 (drop_bit 7 w)"

definition riscv_rs1 :: "u32 \<Rightarrow> u32" where
  "riscv_rs1 w = take_bit 5 (drop_bit 15 w)"

definition set_register :: "registers \<Rightarrow> u32 \<Rightarrow> u64 \<Rightarrow> registers" where
  "set_register regs r v = (if r = 0 then regs else regs(r := v))"

text \<open>\<open>auipc\<close> at the address \<open>p\<close> followed by \<open>jalr\<close>, with the register file and the address that is jumped to.\<close>

definition run_auipc_jalr :: "u64 \<Rightarrow> registers \<Rightarrow> u32 \<Rightarrow> u32 \<Rightarrow> registers \<times> u64" where
  "run_auipc_jalr p regs auipc jalr =
     (let regs1 = set_register regs (riscv_rd auipc) (p + scast (riscv_upper auipc));
          target = (regs1 (riscv_rs1 jalr) + signed_take_bit 11 (ucast (drop_bit 20 jalr))) AND NOT 1
      in (set_register regs1 (riscv_rd jalr) (p + 8), target))"

definition run_jal :: "u64 \<Rightarrow> registers \<Rightarrow> u32 \<Rightarrow> u64 \<Rightarrow> registers \<times> u64" where
  "run_jal p regs jal distance = (set_register regs (riscv_rd jal) (p + 4), p + distance)"

lemma utype_rd: "riscv_rd (riscv_word32 UType w v) = riscv_rd w"
  unfolding riscv_rd_def by (rule bit_word_eqI) (auto simp: riscv_bit_simps)

lemma itype_registers: "riscv_rd (riscv_word32 IType w v) = riscv_rd w" "riscv_rs1 (riscv_word32 IType w v) = riscv_rs1 w"
  unfolding riscv_rd_def riscv_rs1_def by (rule bit_word_eqI; auto simp: riscv_bit_simps)+

lemma itype_imm: "signed_take_bit 11 (ucast (drop_bit 20 (riscv_word32 IType w v))) = signed_take_bit 11 v"
proof (rule bit_word_eqI)
  fix n assume "n < LENGTH(64)"
  moreover have "min n 11 < 12" by (simp add: min_def)
  ultimately show "bit (signed_take_bit 11 (ucast (drop_bit 20 (riscv_word32 IType w v))) :: u64) n \<longleftrightarrow> bit (signed_take_bit 11 v) n"
    using riscv_itype_bits [of "20 + min n 11" w v] by (simp add: bit_signed_take_bit_iff bit_simps min.commute)
qed

lemma uitype_written:
  assumes "8 \<le> length dest"
  shows "riscv_write_to_value UiType v negative dest =
    Some (le_bytes 4 (riscv_word32 UType (word_at dest 0) v) @ le_bytes 4 (riscv_word32 IType (word_at dest 4) v) @ drop 8 dest)"
  using assms riscv_write_word32 [of UType "take 4 dest" v] riscv_write_word32 [of IType "drop 4 dest" v]
  by (simp add: riscv_write_to_value_def get_range_def get_from_def riscv_word32_def word_at_def riscv_compressed_def)

section \<open>A relaxed call\<close>

text \<open>What \<open>CallToJal\<close> and the relocation \<open>R_RISCV_JAL\<close> that it chooses write.\<close>

lemma call_to_jal_written:
  assumes "offset + 4 \<le> length bytes" "distance_fits_jal distance" "unat distance mod 2 = 0"
  shows "\<exists>s d. riscv_apply CallToJal bytes offset = Some s \<and> same_outside offset (offset + 4) bytes s \<and>
    riscv_write_to_value JType distance negative (drop offset s) = Some d \<and> riscv_read_value JType d = Some (distance, sint distance < 0) \<and>
    take_bit 7 (word_at d 0) = 0x6f \<and> riscv_rd (word_at d 0) = riscv_rd (word_at bytes offset)"
proof -
  let ?w = "word_at bytes offset"
  let ?jal = "0x6f OR push_bit 7 (drop_bit 7 ?w AND 0x1f) :: u32"
  define s where "s = take offset bytes @ le_bytes 4 ?jal @ drop (offset + 4) bytes"
  have applied: "riscv_apply CallToJal bytes offset = Some s"
    using assms(1) by (simp add: riscv_apply_def get_from_def u32_from_slice_def copy_at_def s_def word_at_def)
  have same: "same_outside offset (offset + 4) bytes s"
    using assms(1) by (simp add: same_outside_def s_def)
  have s4: "drop offset s = le_bytes 4 ?jal @ drop (offset + 4) bytes"
    using assms(1) by (simp add: s_def)
  let ?w' = "riscv_word32 JType ?jal distance"
  have d: "riscv_write_to_value JType distance negative (drop offset s) = Some (le_bytes 4 ?w' @ drop (offset + 4) bytes)"
    by (simp add: s4 riscv_write_word32' riscv_compressed_def)
  have "signed_take_bit 20 distance = distance"
    using assms(2) by (intro signed_take_bit_fits) (simp_all add: distance_fits_jal_def JAL_RANGE_def)
  then have "riscv_read_value JType (le_bytes 4 ?w' @ drop (offset + 4) bytes) = Some (distance, sint distance < 0)"
    using riscv_read_jtype [of ?jal distance] even_value [OF assms(3)] signed_fits_sign [of 20 distance]
    by (simp add: riscv_read_value_def)
  moreover have low: "take_bit 12 ?w' = take_bit 12 ?jal" by (rule riscv_jtype_low)
  have "take_bit 7 ?w' = 0x6f"
    using arg_cong [OF low, of "take_bit 7"] by (simp add: take_bit_push_bit)
  moreover have "riscv_rd ?w' = riscv_rd ?jal"
    using arg_cong [OF low, of "drop_bit 7"] by (simp add: drop_bit_take_bit riscv_rd_def)
  then have "riscv_rd ?w' = riscv_rd ?w"
    unfolding riscv_rd_def by (simp add: AND_low_mask) (auto intro!: bit_word_eqI simp: bit_simps)
  ultimately show ?thesis
    using applied same d by (simp add: word_at_def take_bit_word_eq_self)
qed

lemma even_target:
  assumes "unat (p :: u64) mod 2 = 0" "unat distance mod 2 = 0"
  shows "(p + distance) AND NOT 1 = p + distance"
proof (rule even_value)
  have "unat (p + distance) mod 2 = (unat p + unat distance) mod 2"
    by (simp add: unat_word_ariths mod_mod_cancel)
  then show "unat (p + distance) mod 2 = 0" using assms by presburger
qed

text \<open>
  (C29) A relaxed call goes where the unrelaxed one goes: the relocation of a call patches \<open>auipc\<close> and \<open>jalr\<close>,
  relaxation replaces the \<open>auipc\<close> by \<open>jal\<close> and patches that. For an even distance that fits \<open>jal\<close> both
  jump to the address \<open>p + distance\<close>. The \<open>jal\<close> links into the register of the \<open>auipc\<close>: for a call that is
  the register that \<open>jalr\<close> links into, and it gets the address behind the instruction that is left; for a tail call, whose
  \<open>jalr\<close> links into the zero register, it is a scratch register, which \<open>auipc\<close> overwrites as well. No other
  register differs.
\<close>

theorem riscv_call_relaxed:
  fixes b :: bytes and offset :: nat
  defines "auipc \<equiv> word_at b offset" and "jalr \<equiv> word_at b (offset + 4)"
  assumes b: "offset + 8 \<le> length b" and distance: "distance_fits_jal distance" "unat distance mod 2 = 0" "unat p mod 2 = 0"
    and pair: "riscv_rd auipc \<noteq> 0" "riscv_rs1 jalr = riscv_rd auipc"
  shows "\<exists>c s d regs1 regs2.
    riscv_write_to_value UiType distance negative (drop offset b) = Some c \<and>
    run_auipc_jalr p regs (word_at c 0) (word_at c 4) = (regs1, p + distance) \<and>
    riscv_apply CallToJal b offset = Some s \<and> riscv_write_to_value JType distance negative (drop offset s) = Some d \<and>
    riscv_read_value JType d = Some (distance, sint distance < 0) \<and> take_bit 7 (word_at d 0) = 0x6f \<and>
    run_jal p regs (word_at d 0) distance = (regs2, p + distance) \<and>
    regs2 (riscv_rd auipc) = p + 4 \<and> (riscv_rd jalr \<noteq> 0 \<longrightarrow> regs1 (riscv_rd jalr) = p + 8) \<and>
    (\<forall>r. r \<noteq> riscv_rd auipc \<and> r \<noteq> riscv_rd jalr \<longrightarrow> regs1 r = regs2 r) \<and> (riscv_rd jalr = 0 \<longrightarrow> regs1 0 = regs2 0)"
proof -
  obtain s d where jal: "riscv_apply CallToJal b offset = Some s" "riscv_write_to_value JType distance negative (drop offset s) = Some d"
      "riscv_read_value JType d = Some (distance, sint distance < 0)" "take_bit 7 (word_at d 0) = 0x6f" "riscv_rd (word_at d 0) = riscv_rd auipc"
    using call_to_jal_written [OF _ distance(1,2), of offset b negative] b by (auto simp: auipc_def)
  define c where "c = le_bytes 4 (riscv_word32 UType auipc distance) @ le_bytes 4 (riscv_word32 IType jalr distance) @ drop 8 (drop offset b)"
  have c: "riscv_write_to_value UiType distance negative (drop offset b) = Some c"
    using uitype_written [of "drop offset b" distance negative] b by (simp add: c_def auipc_def jalr_def word_at_def add.commute)
  have words: "word_at c 0 = riscv_word32 UType auipc distance" "word_at c 4 = riscv_word32 IType jalr distance"
    by (simp_all add: c_def word_at_def take_bit_word_eq_self)
  have "p + scast (riscv_upper (riscv_word32 UType auipc distance)) + signed_take_bit 11 distance = p + distance"
    using distance(1) pair_sum [of distance distance auipc] by (simp add: distance_fits_jal_def JAL_RANGE_def add.assoc)
  then have "run_auipc_jalr p regs (word_at c 0) (word_at c 4) =
      (set_register (set_register regs (riscv_rd auipc) (p + scast (riscv_upper (word_at c 0)))) (riscv_rd jalr) (p + 8), p + distance)"
    using pair even_target [OF distance(3,2)]
    by (simp add: run_auipc_jalr_def words utype_rd itype_registers itype_imm set_register_def add.assoc)
  then show ?thesis
    using jal c pair(1) by (simp add: run_jal_def set_register_def)
qed

theorem riscv_call_relaxed_witness:
  "\<exists>c s d. riscv_write_to_value UiType 64 False [0x97, 0, 0, 0, 0xe7, 0x80, 0, 0] = Some c \<and>
    snd (run_auipc_jalr 0x1000 (\<lambda>_. 0) (word_at c 0) (word_at c 4)) = 0x1040 \<and>
    riscv_apply CallToJal [0x97, 0, 0, 0, 0xe7, 0x80, 0, 0] 0 = Some s \<and> riscv_write_to_value JType 64 False s = Some d \<and>
    riscv_read_value JType d = Some (64, False) \<and> fst (run_jal 0x1000 (\<lambda>_. 0) (word_at d 0) 64) 1 = 0x1004"
proof -
  let ?b = "[0x97, 0, 0, 0, 0xe7, 0x80, 0, 0] :: bytes"
  have "word_at ?b 0 = 0x97" "word_at ?b 4 = 0x80e7" by (simp_all add: word_at_def)
  then have rd: "riscv_rd (word_at ?b 0) = 1" "riscv_rs1 (word_at ?b (0 + 4)) = riscv_rd (word_at ?b 0)"
    by (simp_all add: riscv_rd_def riscv_rs1_def)
  then show ?thesis
    using riscv_call_relaxed [of 0 ?b 64 "0x1000" False "\<lambda>_. 0"] by (auto simp: distance_fits_jal_def JAL_RANGE_def)
qed

end
