(* ===== verification/Wasm_Grammar.thy ===== *)
theory Wasm_Grammar
  imports Opcode
begin

text \<open>
  The binary format of WebAssembly instructions, as the core specification gives it (with bulk memory, reference
  types, multiple memories and garbage collection), as a grammar of byte strings, stated without the
  decoder; and that the walker of \<open>wilt/src/opcode.rs\<close> finds exactly the instructions of a body that follows the
  grammar.
\<close>

section \<open>Integers\<close>

text \<open>The bytes of a LEB128 number: every byte but the last has the continuation bit. Padding is allowed.\<close>

definition leb :: "nat \<Rightarrow> bytes \<Rightarrow> bool" where
  "leb n d \<longleftrightarrow> d \<noteq> [] \<and> length d \<le> n \<and> last d < 0x80 \<and> (\<forall>b\<in>set (butlast d). 0x80 \<le> b)"

fun leb_value :: "bytes \<Rightarrow> nat" where
  "leb_value [] = 0"
| "leb_value (b # d) = unat b mod 128 + 128 * leb_value d"

definition u32_imm :: "nat \<Rightarrow> bytes \<Rightarrow> bool" where
  "u32_imm n d \<longleftrightarrow> leb 5 d \<and> leb_value d = n \<and> n < 2 ^ 32"

definition index :: "bytes \<Rightarrow> bool" where
  "index d \<longleftrightarrow> (\<exists>n. u32_imm n d)"

lemma leb_Cons: "leb (Suc n) (b # d) \<longleftrightarrow> (if d = [] then b < 0x80 else 0x80 \<le> b \<and> leb n d)"
  by (cases d) (auto simp: leb_def)

lemma skip_len_loop_leb: "leb n d \<Longrightarrow> skip_len_loop n i (d @ r) = Some (i + length d)"
proof (induction n arbitrary: i d)
  case (Suc n)
  then obtain b d' where d: "d = b # d'" by (cases d) (auto simp: leb_def)
  show ?case using Suc.IH [of d' "Suc i"] Suc.prems by (auto simp: d leb_Cons not_less split: if_splits)
qed (simp add: leb_def)

lemma skip_len_leb: "leb 10 d \<Longrightarrow> skip_len (d @ r) = Some (length d)"
  using skip_len_loop_leb [of 10 d 0 r] by (simp add: skip_len_def)

lemma low_bits_join:
  assumes "m < 128" "m + 128 * x < 2 ^ 32"
  shows "take_bit 7 (of_nat (m + 128 * x) :: u32) = of_nat m" "drop_bit 7 (of_nat (m + 128 * x) :: u32) = of_nat x"
proof -
  have u: "unat (of_nat (m + 128 * x) :: u32) = m + 128 * x" "unat (of_nat m :: u32) = m" "unat (of_nat x :: u32) = x"
    using assms by (simp_all add: unsigned_of_nat take_bit_nat_eq_self del: of_nat_add of_nat_mult)
  have "(m + 128 * x) div 128 = x" using assms(1) by simp
  then show "drop_bit 7 (of_nat (m + 128 * x) :: u32) = of_nat x"
    by (intro word_unat_eq_iff [THEN iffD2]) (simp only: unat_drop_bit_7 u)
  have "unat (take_bit 7 (of_nat (m + 128 * x) :: u32)) = (m + 128 * x) mod 2 ^ 7"
    unfolding unsigned_take_bit_eq u(1) by (rule take_bit_eq_mod)
  also have "\<dots> = m" using assms(1) by simp
  finally show "take_bit 7 (of_nat (m + 128 * x) :: u32) = of_nat m"
    by (intro word_unat_eq_iff [THEN iffD2]) (simp only: u)
qed

lemma read_u32_loop_leb:
  "leb n d \<Longrightarrow> k + n = 5 \<Longrightarrow> leb_value d < 2 ^ 32 \<Longrightarrow>
    read_u32_loop acc (7 * k) i (d @ r) = Some (acc OR push_bit (7 * k) (of_nat (leb_value d)), i + length d)"
proof (induction n arbitrary: acc k i d)
  case (Suc n)
  then obtain b d' where d: "d = b # d'" by (cases d) (auto simp: leb_def)
  let ?v = "of_nat (leb_value d) :: u32"
  have "unat (b AND 0x7F) = unat b mod 128" by (simp add: low7 unsigned_take_bit_eq, simp add: take_bit_eq_mod)
  then have b: "(ucast (b AND 0x7F) :: u32) = of_nat (unat b mod 128)" by (metis of_nat_unat)
  have split: "take_bit 7 ?v = ucast (b AND 0x7F)" "drop_bit 7 ?v = of_nat (leb_value d')"
    using low_bits_join [of "unat b mod 128" "leb_value d'"] Suc.prems(3) by (simp_all add: d b)
  show ?case
  proof (cases "d' = []")
    case True
    then show ?thesis using Suc.prems(1) split by (simp add: d leb_Cons b)
  next
    case False
    then have "leb n d'" "0x80 \<le> b" using Suc.prems(1) by (simp_all add: d leb_Cons)
    moreover from this have "k < 4" using Suc.prems(2) False by (cases n) (auto simp: leb_def)
    ultimately show ?thesis
      using Suc.IH [of d' "Suc k" "acc OR push_bit (7 * k) (ucast (b AND 0x7F))" "Suc i"] Suc.prems(2,3) split push_bit_split(1) [of "7 * k" ?v]
      by (auto simp: d not_less or.assoc algebra_simps Let_def)
  qed
qed (simp add: leb_def)

lemma read_u32_leb: "leb 5 d \<Longrightarrow> leb_value d < 2 ^ 32 \<Longrightarrow> read_u32 (d @ r) = Some (of_nat (leb_value d), length d)"
  using read_u32_loop_leb [of 5 d 0 0 0 r] by (simp add: read_u32_def)

text \<open>The decoder reads every LEB128 number of at most five bytes with the unsigned reader, for its length.\<close>

lemma read_u32_length: "leb 5 d \<Longrightarrow> \<exists>v. read_u32 (d @ r) = Some (v, length d)"
proof -
  have "leb n d \<Longrightarrow> k + n = 5 \<Longrightarrow> \<exists>v. read_u32_loop acc (7 * k) i (d @ r) = Some (v, i + length d)" for n k acc i
  proof (induction n arbitrary: acc k i d)
    case (Suc n)
    then obtain b d' where d: "d = b # d'" by (cases d) (auto simp: leb_def)
    show ?case
    proof (cases "d' = []")
      case False
      then have "leb n d'" "0x80 \<le> b" using Suc.prems(1) by (simp_all add: d leb_Cons)
      moreover from this have "k < 4" using Suc.prems(2) False by (cases n) (auto simp: leb_def)
      ultimately show ?thesis
        using Suc.IH [of d' "Suc k" "acc OR push_bit (7 * k) (ucast (b AND 0x7F))" "Suc i"] Suc.prems(2)
        by (auto simp: d not_less Let_def add.commute)
    qed (use Suc.prems(1) in \<open>simp add: d leb_Cons\<close>)
  qed (simp add: leb_def)
  from this [of 5 0 0 0] show "leb 5 d \<Longrightarrow> \<exists>v. read_u32 (d @ r) = Some (v, length d)" by (simp add: read_u32_def)
qed

lemma skip_lebs_concat:
  "\<forall>d\<in>set ds. leb 5 d \<Longrightarrow>
    skip_lebs (length ds) (pre @ concat ds @ post) (length pre) = Some (length pre + length (concat ds))"
proof (induction ds arbitrary: pre)
  case (Cons d ds)
  obtain v where "read_u32 (d @ concat ds @ post) = Some (v, length d)" using Cons.prems read_u32_length [of d "concat ds @ post"] by auto
  then have "leb_at (pre @ d @ concat ds @ post) (length pre) = Some (v, length d)" by (simp add: leb_at_def get_from_def)
  then show ?case using Cons.IH [of "pre @ d"] Cons.prems by (simp add: add.assoc)
qed simp

lemmas skip_lebs_front = skip_lebs_concat [where pre = "[]", simplified]

lemma skip_one: "leb 5 d \<Longrightarrow> skip_lebs (Suc 0) (d @ post) 0 = Some (length d)"
  using skip_lebs_front [of "[d]" post] by simp

lemma skip_two: "leb 5 d \<Longrightarrow> leb 5 e \<Longrightarrow> skip_lebs 2 (d @ e @ post) 0 = Some (length d + length e)"
  using skip_lebs_front [of "[d, e]" post] by (simp add: numeral_2_eq_2)

lemma skip_three:
  "leb 5 d \<Longrightarrow> leb 5 e \<Longrightarrow> leb 5 f \<Longrightarrow> skip_lebs 3 (b # d @ e @ f) 1 = Some (Suc (length d + length e + length f))"
  using skip_lebs_concat [of "[d, e, f]" "[b]" "[]"] by (simp add: numeral_3_eq_3 del: skip_lebs.simps)

section \<open>Instructions\<close>

definition valtype :: "u8 \<Rightarrow> bool" where
  "valtype b \<longleftrightarrow> b \<in> {0x7F, 0x7E, 0x7D, 0x7C, 0x7B, 0x70, 0x6F}"

text \<open>A block has no type, a value type, or the index of a function type as a signed number of 33 bits.\<close>

definition blocktype :: "bytes \<Rightarrow> bool" where
  "blocktype d \<longleftrightarrow> d = [0x40] \<or> (\<exists>b. d = [b] \<and> valtype b) \<or> leb 5 d"

text \<open>An abstract heap type, or the index of a type.\<close>

definition heaptype :: "bytes \<Rightarrow> bool" where
  "heaptype d \<longleftrightarrow> (\<exists>b. d = [b] \<and> 0x69 \<le> b \<and> b \<le> 0x74) \<or> leb 5 d"

text \<open>The alignment and the offset of a memory access, with the index of the memory if bit 6 of the alignment is set.\<close>

definition memarg :: "bytes \<Rightarrow> bool" where
  "memarg d \<longleftrightarrow> (\<exists>n a off. d = a @ off \<and> u32_imm n a \<and> n < 64 \<and> index off) \<or>
     (\<exists>n a x off. d = a @ x @ off \<and> u32_imm n a \<and> 64 \<le> n \<and> n < 128 \<and> index x \<and> index off)"

text \<open>Sub-opcodes behind the prefix \<open>0xFC\<close>, with their immediates.\<close>

inductive bulk_instruction :: "nat \<Rightarrow> bytes \<Rightarrow> bool" where
  trunc_sat: "n \<le> 7 \<Longrightarrow> bulk_instruction n []"
| memory_init: "index x \<Longrightarrow> bulk_instruction 8 (x @ [0x00])"
| data_drop: "index x \<Longrightarrow> bulk_instruction 9 x"
| memory_copy: "index x \<Longrightarrow> index y \<Longrightarrow> bulk_instruction 10 (x @ y)"
| memory_fill: "index x \<Longrightarrow> bulk_instruction 11 x"
| table_init: "index y \<Longrightarrow> index x \<Longrightarrow> bulk_instruction 12 (y @ x)"
| elem_drop: "index x \<Longrightarrow> bulk_instruction 13 x"
| table_copy: "index x \<Longrightarrow> index y \<Longrightarrow> bulk_instruction 14 (x @ y)"
| table_grow: "index x \<Longrightarrow> bulk_instruction 15 x"
| table_size: "index x \<Longrightarrow> bulk_instruction 16 x"
| table_fill: "index x \<Longrightarrow> bulk_instruction 17 x"

text \<open>Sub-opcodes behind the prefix \<open>0xFB\<close>: structures, arrays, casts and \<open>i31\<close>.\<close>

inductive gc_instruction :: "nat \<Rightarrow> bytes \<Rightarrow> bool" where
  struct_new: "index x \<Longrightarrow> n \<in> {0, 1} \<Longrightarrow> gc_instruction n x"
| struct_access: "index x \<Longrightarrow> index i \<Longrightarrow> n \<in> {2, 3, 4, 5} \<Longrightarrow> gc_instruction n (x @ i)"
| array_new: "index x \<Longrightarrow> n \<in> {6, 7} \<Longrightarrow> gc_instruction n x"
| array_new_from: "index x \<Longrightarrow> index y \<Longrightarrow> n \<in> {8, 9, 10} \<Longrightarrow> gc_instruction n (x @ y)"
| array_access: "index x \<Longrightarrow> n \<in> {11, 12, 13, 14} \<Longrightarrow> gc_instruction n x"
| array_len: "gc_instruction 15 []"
| array_fill: "index x \<Longrightarrow> gc_instruction 16 x"
| array_copy: "index x \<Longrightarrow> index y \<Longrightarrow> n \<in> {17, 18, 19} \<Longrightarrow> gc_instruction n (x @ y)"
| ref_test_cast: "heaptype h \<Longrightarrow> n \<in> {20, 21, 22, 23} \<Longrightarrow> gc_instruction n h"
| br_on_cast: "index l \<Longrightarrow> heaptype h1 \<Longrightarrow> heaptype h2 \<Longrightarrow> n \<in> {24, 25} \<Longrightarrow> gc_instruction n ([flags] @ l @ h1 @ h2)"
| convert: "n \<in> {26, 27} \<Longrightarrow> gc_instruction n []"
| i31: "n \<in> {28, 29, 30} \<Longrightarrow> gc_instruction n []"

inductive instruction :: "bytes \<Rightarrow> bool" where
  control: "op \<in> {0x00, 0x01, 0x05, 0x0B, 0x0F} \<Longrightarrow> instruction [op]"
| block: "op \<in> {0x02, 0x03, 0x04} \<Longrightarrow> blocktype t \<Longrightarrow> instruction (op # t)"
| branch: "op \<in> {0x0C, 0x0D, 0xD5, 0xD6} \<Longrightarrow> index l \<Longrightarrow> instruction (op # l)"
| br_table: "u32_imm (length ls) n \<Longrightarrow> \<forall>l\<in>set ls. index l \<Longrightarrow> index l \<Longrightarrow> instruction (0x0E # n @ concat ls @ l)"
| call: "index x \<Longrightarrow> instruction (0x10 # x)"
| call_indirect: "index y \<Longrightarrow> index x \<Longrightarrow> instruction (0x11 # y @ x)"
| ref_null: "heaptype t \<Longrightarrow> instruction (0xD0 # t)"
| ref_plain: "op \<in> {0xD1, 0xD3, 0xD4} \<Longrightarrow> instruction [op]"
| ref_func: "index x \<Longrightarrow> instruction (0xD2 # x)"
| drop_select: "op \<in> {0x1A, 0x1B} \<Longrightarrow> instruction [op]"
| select_typed: "u32_imm (length ts) n \<Longrightarrow> \<forall>t\<in>set ts. valtype t \<Longrightarrow> instruction (0x1C # n @ ts)"
| variable_access: "op \<in> {0x20, 0x21, 0x22, 0x23, 0x24} \<Longrightarrow> index x \<Longrightarrow> instruction (op # x)"
| table_access: "op \<in> {0x25, 0x26} \<Longrightarrow> index x \<Longrightarrow> instruction (op # x)"
| memory_access: "0x28 \<le> op \<Longrightarrow> op \<le> 0x3E \<Longrightarrow> memarg m \<Longrightarrow> instruction (op # m)"
| memory_size_grow: "op \<in> {0x3F, 0x40} \<Longrightarrow> instruction [op, 0x00]"
| i32_const: "leb 5 d \<Longrightarrow> instruction (0x41 # d)"
| i64_const: "leb 10 d \<Longrightarrow> instruction (0x42 # d)"
| f32_const: "length z = 4 \<Longrightarrow> instruction (0x43 # z)"
| f64_const: "length z = 8 \<Longrightarrow> instruction (0x44 # z)"
| numeric: "0x45 \<le> op \<Longrightarrow> op \<le> 0xC4 \<Longrightarrow> instruction [op]"
| bulk: "u32_imm n s \<Longrightarrow> bulk_instruction n imm \<Longrightarrow> instruction (0xFC # s @ imm)"
| gc: "u32_imm n s \<Longrightarrow> gc_instruction n imm \<Longrightarrow> instruction (0xFB # s @ imm)"

section \<open>The decoder and the grammar\<close>

lemma complete_Cons: "complete_instr (op # rest) \<longleftrightarrow> instr_imm op rest = Some (length rest)"
  by (cases "instr_imm op rest") (auto simp: instr_len_def get_def get_from_def)

lemma immediates_leb:
  "index d \<Longrightarrow> leb 5 d" "blocktype d \<Longrightarrow> leb 5 d" "heaptype d \<Longrightarrow> leb 5 d" "u32_imm n d \<Longrightarrow> leb 5 d"
  by (auto simp: index_def u32_imm_def blocktype_def heaptype_def leb_def valtype_def word_less_nat_alt word_le_nat_alt)

lemma read_imm: "u32_imm n d \<Longrightarrow> read_u32 (d @ r) = Some (of_nat n, length d)"
  using read_u32_leb [of d r] by (simp add: u32_imm_def)

lemma skip_valtypes_all:
  "\<forall>t\<in>set ts. valtype t \<Longrightarrow> skip_valtypes (length ts) (pre @ ts) (length pre) = Some (length pre + length ts)"
proof (induction ts arbitrary: pre)
  case (Cons t ts)
  have "valtype_len (pre @ t # ts) (length pre) = Some 1"
    using Cons.prems by (auto simp: valtype_len_def get_def valtype_def)
  then show ?case using Cons.IH [of "pre @ [t]"] Cons.prems by simp
qed simp

lemma memarg_complete: "memarg d \<Longrightarrow> memarg_imm d = Some (length d)"
proof -
  have low: "(of_nat n :: u32) AND 0x40 = 0 \<longleftrightarrow> n < 64" if "n < 128" for n
  proof -
    have "(of_nat n :: u32) AND 0x40 = 0 \<longleftrightarrow> \<not> bit (of_nat n :: u32) 6"
      using and_exp_eq_0_iff_not_bit [of "of_nat n :: u32" 6] by simp
    also have "\<dots> \<longleftrightarrow> \<not> bit n 6" by (simp add: bit_of_nat_iff)
    also have "\<dots> \<longleftrightarrow> n < 64"
    proof -
      have "n div 64 = (if n < 64 then 0 else 1)" using that by auto
      then show ?thesis by (simp add: bit_iff_odd)
    qed
    finally show ?thesis .
  qed
  assume "memarg d"
  then consider (plain) n a off where "d = a @ off" "u32_imm n a" "n < 64" "index off"
    | (memory) n a x off where "d = a @ x @ off" "u32_imm n a" "64 \<le> n" "n < 128" "index x" "index off"
    unfolding memarg_def by blast
  then show ?thesis
  proof cases
    case plain
    then show ?thesis
      using read_imm [of n a off] low [of n] skip_lebs_concat [of "[off]" a "[]"] immediates_leb(1) by (simp add: memarg_imm_def)
  next
    case memory
    then show ?thesis
      using read_imm [of n a "x @ off"] low [of n] skip_lebs_concat [of "[x, off]" a "[]"] immediates_leb(1)
      unfolding memarg_imm_def memarg_rest_lebs by (simp add: numeral_2_eq_2 del: skip_lebs.simps)
  qed
qed

lemma prefixed_complete:
  assumes "u32_imm n s" "extra_of (of_nat n) imm = Some (length imm)"
  shows "prefixed extra_of (s @ imm) = Some (length (s @ imm))"
  using assms read_imm [OF assms(1), of imm] by (simp add: prefixed_def get_from_def)

lemma bulk_complete: "bulk_instruction n imm \<Longrightarrow> fc_extra (of_nat n) imm = Some (length imm)"
proof (induction rule: bulk_instruction.induct)
  case (trunc_sat n)
  then have "(of_nat n :: u32) \<le> 7" by (simp add: word_le_nat_alt unsigned_of_nat take_bit_nat_eq_self)
  then show ?case by (simp add: fc_extra_def)
next
  case (memory_init x)
  then obtain v where "read_u32 (x @ [0x00]) = Some (v, length x)" using read_u32_length immediates_leb(1) by blast
  then show ?case by (simp add: fc_extra_def)
qed (use immediates_leb(1) skip_one [of _ "[]"] skip_two [of _ _ "[]"] in \<open>simp_all add: fc_extra_def\<close>)

lemma fb_extra_cases:
  "n \<in> {0, 1, 6, 7, 11, 12, 13, 14, 16, 20, 21, 22, 23} \<Longrightarrow> fb_extra (of_nat n) = (\<lambda>imm. skip_lebs 1 imm 0)"
  "n \<in> {2, 3, 4, 5, 8, 9, 10, 17, 18, 19} \<Longrightarrow> fb_extra (of_nat n) = (\<lambda>imm. skip_lebs 2 imm 0)"
  "n \<in> {24, 25} \<Longrightarrow> fb_extra (of_nat n) = (\<lambda>imm. skip_lebs 3 imm 1)"
  "n \<in> {15, 26, 27, 28, 29, 30} \<Longrightarrow> fb_extra (of_nat n) = (\<lambda>imm. Some 0)"
  by (elim insertE; simp add: fb_extra_def [abs_def] del: skip_lebs.simps)+

lemma gc_complete: "gc_instruction n imm \<Longrightarrow> fb_extra (of_nat n) imm = Some (length imm)"
proof (induction rule: gc_instruction.induct)
  case (br_on_cast l h1 h2 n flags)
  then have "skip_lebs 3 (flags # l @ h1 @ h2) 1 = Some (Suc (length l + length h1 + length h2))"
    by (intro skip_three immediates_leb)
  then show ?case using fb_extra_cases(3) [OF br_on_cast(4)] by simp
next
  case (struct_access x i n)
  then show ?case using fb_extra_cases(2) [of n] skip_two [of x i "[]"] immediates_leb(1) by auto
next
  case (array_new_from x y n)
  then show ?case using fb_extra_cases(2) [of n] skip_two [of x y "[]"] immediates_leb(1) by auto
next
  case (array_copy x y n)
  then show ?case using fb_extra_cases(2) [of n] skip_two [of x y "[]"] immediates_leb(1) by auto
next
  case (struct_new x n)
  then show ?case using fb_extra_cases(1) [of n] skip_one [of x "[]"] immediates_leb(1) by auto
next
  case (array_new x n)
  then show ?case using fb_extra_cases(1) [of n] skip_one [of x "[]"] immediates_leb(1) by auto
next
  case (array_access x n)
  then show ?case using fb_extra_cases(1) [of n] skip_one [of x "[]"] immediates_leb(1) by auto
next
  case (array_fill x)
  then show ?case using fb_extra_cases(1) [of 16] skip_one [of x "[]"] immediates_leb(1) by auto
next
  case (ref_test_cast h n)
  then show ?case using fb_extra_cases(1) [of n] skip_one [of h "[]"] immediates_leb(3) by auto
next
  case array_len
  then show ?case using fb_extra_cases(4) [of 15] by simp
next
  case (convert n)
  then show ?case using fb_extra_cases(4) [of n] by auto
next
  case (i31 n)
  then show ?case using fb_extra_cases(4) [of n] by auto
qed

text \<open>The opcodes by the shape of their immediates.\<close>

lemma instr_imm_plain: "op \<in> {0x00, 0x01, 0x05, 0x0B, 0x0F, 0x1A, 0x1B, 0xD1, 0xD3, 0xD4} \<or> 0x45 \<le> op \<and> op \<le> 0xC4 \<Longrightarrow> instr_imm op rest = Some 0"
  unfolding instr_imm_def by (rule if_P) blast

lemma instr_imm_one:
  "op \<in> {0x02, 0x03, 0x04, 0x0C, 0x0D, 0x10, 0x20, 0x21, 0x22, 0x23, 0x24, 0x25, 0x26, 0xD0, 0xD2, 0xD5, 0xD6} \<Longrightarrow>
    instr_imm op rest = skip_lebs 1 rest 0"
  by (elim insertE; simp add: instr_imm_def del: skip_lebs.simps)

lemma instr_imm_other:
  "instr_imm 0x0E rest = br_table_imm rest" "instr_imm 0x11 rest = skip_lebs 2 rest 0" "instr_imm 0x1C rest = select_imm rest"
  "instr_imm 0x3F rest = Some 1" "instr_imm 0x40 rest = Some 1" "instr_imm 0x41 rest = skip_len rest" "instr_imm 0x42 rest = skip_len rest"
  "instr_imm 0x43 rest = Some 4" "instr_imm 0x44 rest = Some 8"
  "instr_imm 0xFC rest = prefixed fc_extra rest" "instr_imm 0xFB rest = prefixed fb_extra rest"
  by (simp_all add: instr_imm_def del: skip_lebs.simps)

lemma instr_imm_memory:
  assumes "0x28 \<le> op" "op \<le> 0x3E"
  shows "instr_imm op rest = memarg_imm rest"
proof -
  have "40 \<le> unat op" "unat op \<le> 62" using assms by (simp_all add: word_le_nat_alt)
  then have "unat op \<in> set [40..<63]" unfolding set_upt atLeastLessThan_iff by linarith
  then have "op \<in> set (map of_nat [40..<63])" by (metis image_eqI list.set_map of_nat_unat ucast_id)
  then show ?thesis
    by (simp add: upt_conv_Cons) (elim disjE; simp add: instr_imm_def)
qed

lemma instruction_complete: "instruction b \<Longrightarrow> complete_instr b"
proof (induction rule: instruction.induct)
  case (br_table ls n l)
  have n: "unat (of_nat (length ls) :: u32) = length ls"
    using br_table(1) by (simp add: u32_imm_def unsigned_of_nat take_bit_nat_eq_self)
  have "skip_lebs (Suc (length ls)) (n @ concat ls @ l) (length n) = Some (length n + length (concat ls) + length l)"
    using skip_lebs_concat [of "ls @ [l]" n "[]"] br_table(2,3) immediates_leb(1) by (simp del: skip_lebs.simps)
  then show ?case
    unfolding complete_Cons
    using read_imm [OF br_table(1), of "concat ls @ l"] by (simp add: instr_imm_other br_table_imm_def n del: skip_lebs.simps)
next
  case (select_typed ts n)
  have "unat (of_nat (length ts) :: u32) = length ts"
    using select_typed(1) by (simp add: u32_imm_def unsigned_of_nat take_bit_nat_eq_self)
  then show ?case
    using read_imm [OF select_typed(1), of ts] skip_valtypes_all [OF select_typed(2), of n]
    unfolding complete_Cons by (simp add: instr_imm_other select_imm_def)
next
  case (call_indirect y x)
  then show ?case using skip_two [of y x "[]"] immediates_leb(1) unfolding complete_Cons by (simp add: instr_imm_other)
next
  case (memory_access op m)
  then show ?case unfolding complete_Cons by (simp add: instr_imm_memory memarg_complete)
next
  case (i32_const d)
  then have "leb 10 d" by (simp add: leb_def)
  then show ?case using skip_len_leb [of d "[]"] unfolding complete_Cons by (simp add: instr_imm_other)
next
  case (i64_const d)
  then show ?case using skip_len_leb [of d "[]"] unfolding complete_Cons by (simp add: instr_imm_other)
next
  case (bulk n s imm)
  then show ?case using prefixed_complete [of n s fc_extra imm] bulk_complete unfolding complete_Cons by (simp add: instr_imm_other)
next
  case (gc n s imm)
  then show ?case using prefixed_complete [of n s fb_extra imm] gc_complete unfolding complete_Cons by (simp add: instr_imm_other)
next
  case (numeric op)
  then show ?case unfolding complete_Cons by (simp add: instr_imm_plain)
next
  case (memory_size_grow op)
  then show ?case unfolding complete_Cons by (auto simp: instr_imm_other)
qed (unfold complete_Cons, auto simp: instr_imm_plain instr_imm_other instr_imm_one intro!: skip_one [of _ "[]", simplified] intro: immediates_leb)

text \<open>
  (C36) The walker finds the instructions of a body: if the code from \<open>start\<close> on is a sequence of instructions that follow the
  binary format of WebAssembly, the walk succeeds and returns exactly their offsets and lengths, in order. The format
  covers the instructions with opcodes that the decoder handles, with value types of one byte and the memory
  instructions without a LEB128 memory index on memory 0.
\<close>

theorem walk_finds_instructions:
  assumes "\<forall>b\<in>set instrs. instruction b"
  shows "walk (pre @ concat instrs) (length pre) = Some (offsets (length pre) instrs)"
  using walk_loop_concat [of instrs pre] assms instruction_complete by (simp add: walk_def instr_iter_new_def)

theorem walk_finds_instructions_witness:
  "walk [0, 0x41, 5, 0x0E, 1, 0x80, 0, 1, 0x0B] 1 = Some [(1, 2), (3, 5), (8, 1)]"
proof -
  have "u32_imm (length [[0x80, 0]]) [1]" "index [0x80, 0]" "index [1]"
    by (auto simp: u32_imm_def leb_def index_def)
  then have "instruction (0x0E # [1] @ concat [[0x80, 0]] @ [1])" by (intro instruction.br_table) simp_all
  moreover have "instruction (0x41 # [5])" by (rule instruction.i32_const) (simp add: leb_def)
  moreover have "instruction [0x0B]" by (rule instruction.control) simp
  ultimately show ?thesis
    using walk_finds_instructions [of "[[0x41, 5], [0x0E, 1, 0x80, 0, 1], [0x0B]]" "[0]"] by simp
qed

end
