(* ===== verification/Spec2Isabelle.thy ===== *)
theory Spec2Isabelle
  imports Write_Reloc Scan Remap Const_Fold Suffix_Share Expression_Eval Layout_Place Layout_Segments
    Resolution_Plt Process_Reloc Apply_Effect Got_Load Riscv_Call Wasm_Grammar
begin

text \<open>
  \<^bold>\<open>A model of the Wild linker.\<close> Wild links object files of several platforms into an
  executable. It resolves symbols, lays out sections, copies their bytes to the output, and
  applies relocations: for each place that refers to a symbol it computes a value, checks that it
  fits, and patches it into the instruction or datum. Relaxation may rewrite or delete
  instructions, which moves everything behind them.

  \<^bold>\<open>Parts modelled, in the order of the theories.\<close>
  \<^item> \<open>Prelude\<close>: machine integers, slices with panics as \<^const>\<open>None\<close>, little-endian bytes,
    searching sorted slices, the interface \<open>keyed_store\<close>.
  \<^item> \<open>Alignment\<close>: \<open>libwild/src/alignment.rs\<close>. An alignment is an exponent; rounding up, rounding
    down and rounding up to a congruence are related to multiples.
  \<^item> \<open>Bit_Misc\<close>: \<open>linker-utils/src/bit_misc.rs\<close> and \<open>utils.rs\<close>. Bit extraction is related to
    \<^const>\<open>take_bit\<close>, \<^const>\<open>drop_bit\<close> and \<^const>\<open>signed_take_bit\<close>; patching a byte slice to a
    bitwise operation on the word it holds.
  \<^item> \<open>Elf_Reloc\<close>: the relocation vocabulary of \<open>linker-utils/src/elf.rs\<close>: kinds, sizes, page
    masks, allowed ranges and \<open>verify\<close>. The ELF constants of the \<open>object\<close> crate are a parameter
    \<open>elf\<close> from names to numbers; where a property needs them to be different from each other,
    this is a hypothesis (\<^const>\<open>inj_on\<close>).
  \<^item> \<open>Insn_Codec\<close>: the interface \<open>insn_writer\<close> between the relocation writer and the encoders.
    It promises that an encoder fails exactly on buffers shorter than its window and that, for
    values no wider than the immediate, it changes only the bits of the immediate.
  \<^item> \<open>AArch64\<close>, \<open>RiscV64\<close>, \<open>LoongArch64\<close>, \<open>X86_64\<close>: the files of the same name in
    \<open>linker-utils/src\<close>. Each has the instruction rewrites (\<open>RelaxationKind::apply\<close>), the
    relocation table arm by arm, and the encoders (\<open>write_to_value\<close>, \<open>read_value\<close>), brought into
    the form of a patch of one instruction word and shown to satisfy \<open>insn_writer\<close>.
  \<^item> \<open>Relaxation\<close>: \<open>linker-utils/src/relaxation.rs\<close>: the adjustments of a section, the
    translation of offsets in both directions, the cursor, and the map from section indices.
  \<^item> \<open>Write_Reloc\<close>: the dispatch over architectures in \<open>elf.rs\<close> and \<open>get_page_mask\<close>,
    \<open>write_relocation_to_buffer\<close> of \<open>libwild/src/elf.rs\<close>.
  \<^item> \<open>Leb128\<close>: \<open>wilt/src/leb128.rs\<close>: reading and writing of unsigned, signed and padded LEB128.
    The interface \<open>prefix_code\<close> gives the reading of a sequence from the reading of one item.
  \<^item> \<open>Opcode\<close>: \<open>wilt/src/opcode.rs\<close>: the length of an instruction, the iterator and the walk over a
    function body, on the interface \<open>self_delimiting\<close>. \<open>Wasm_Grammar\<close> states the binary format of
    instructions independently of the decoder, as an inductive predicate.
  \<^item> \<open>Wasm_Module\<close>: \<open>wilt/src/module.rs\<close> and \<open>emit.rs\<close>: sections, the views of their payloads, and
    writing a module back with some sections replaced or dropped.
  \<^item> \<open>Remap\<close>: \<open>wilt/src/remap.rs\<close>: the renumbering of functions over several passes, on the interface
    \<open>renumbering\<close>.
  \<^item> \<open>Scan\<close>: \<open>wilt/src/scan.rs\<close>: the call graph read off the bytes and what is reachable in it.
  \<^item> \<open>Provenance\<close>: \<open>wilt/src/provenance.rs\<close>: edits of a body, their application and composition.
  \<^item> \<open>Const_Fold\<close>: \<open>wilt/src/passes/const_fold.rs\<close>: the pass that replaces two constants and an
    operation by one constant.
  \<^item> \<open>Suffix_Share\<close>: \<open>libwild/src/suffix_share.rs\<close>: the packing of strings that are suffixes of other strings.
  \<^item> \<open>Output_Section\<close>: \<open>libwild/src/part_id.rs\<close>, \<open>output_section_id.rs\<close>, \<open>output_section_map.rs\<close> and
    \<open>output_section_part_map.rs\<close>: the numbers of sections and of their parts, one part for each
    alignment, and the tables of output sections. The traits of the platform are the record \<open>Platform\<close>.
  \<^item> \<open>Output_Order\<close>: \<open>output_kind.rs\<close>, \<open>program_segments.rs\<close> and the builder of the output order in
    \<open>output_section_id.rs\<close>: sections one after the other, with the starts and ends of segments.
  \<^item> \<open>Layout\<close>: from \<open>libwild/src/layout.rs\<close>, the placement of parts (\<open>layout_section_parts\<close>), the layouts
    of sections and segments computed from it, and the memory each group of input files gets.
    \<open>Layout_Place\<close> has the theorems on the placement, on the interface \<open>bump_allocator\<close>, which is
    interpreted four times: for the file and for memory, over the parts of a section and over the
    whole order. \<open>Layout_Segments\<close> has those on sections, segments and groups.
  \<^item> \<open>Value_Flags\<close>: \<open>libwild/src/value_flags.rs\<close>: the flags that say what a symbol needs. Threads add
    flags to a shared word; \<open>AtomicValueFlags::fetch_or\<close>, whose first load may be stale, is a step
    relation between the calls.
  \<^item> \<open>Resolution\<close>: the tables for symbols that need entries in the GOT, the PLT or among the dynamic
    relocations: the layout counts the entries (\<open>allocate_resolution\<close> of \<open>libwild/src/elf.rs\<close>), gives
    them addresses (\<open>create_resolution\<close>), and the writer fills them (\<open>TableWriter\<close> of
    \<open>elf_writer.rs\<close>). \<open>Resolution_Alloc\<close> counts what each operation uses, \<open>Resolution_Tables\<close> adds it up
    on the interface \<open>counted_writer\<close>, \<open>Resolution_Slots\<close> follows the contents on the interface
    \<open>filled_table\<close>, which is interpreted for the GOT and, in \<open>Resolution_Plt\<close>, for the PLT.
  \<^item> \<open>Plt_Entry\<close>: \<open>write_plt_entry\<close> of \<open>libwild/src/elf_x86_64.rs\<close>, \<open>elf_aarch64.rs\<close>,
    \<open>elf_riscv64.rs\<close> and \<open>elf_loongarch64.rs\<close>, and a decoder for the stubs.
  \<^item> \<open>Process_Reloc\<close>: \<open>process_relocation\<close> of \<open>libwild/src/elf.rs\<close>: the scan over the relocations of a loaded
    section, which adds flags to the symbols and counts dynamic relocations.
  \<^item> \<open>Apply_Reloc\<close>: \<open>apply_relocation\<close> of \<open>libwild/src/elf_writer.rs\<close> with what it calls, the loop over the
    relocations of a section, and the variant for debug sections; the objects and the architecture
    are arguments. \<open>Apply_Effect\<close> has theorems on the bytes that result.
  \<^item> \<open>New_Relaxation\<close>: \<open>new_relaxation\<close> of the four architectures (\<open>libwild/src/elf_x86_64.rs\<close>,
    \<open>elf_aarch64.rs\<close>, \<open>elf_riscv64.rs\<close>, \<open>elf_loongarch64.rs\<close>): which rewrite is chosen for a relocation,
    from the flags of the symbol and the bytes of the instruction. \<open>elf_reloc_arch\<close> is the architecture that
    the application of relocations takes. \<open>Relaxation_Choice\<close> and \<open>Got_Load\<close> have theorems on the choice for x86-64, \<open>Pcrel_Pair\<close>
    and \<open>Riscv_Call\<close> on the pairs of RISC-V instructions.
  \<^item> \<open>Expression_Eval\<close>: \<open>libwild/src/expression_eval.rs\<close>: expressions of linker scripts and the
    check of their assertions.
  \<^item> This theory: what spans the components.

  \<^bold>\<open>What the theorems show.\<close> Applying a relocation of any table is total and local: no panic, the
  error of \<open>verify\<close> and nothing else, and no bit changes but those the encoder may write (with two arms
  of the AArch64 table excepted). Values that pass
  the check are what the patched instruction decodes to: branches and PC-relative addresses of the
  three RISC architectures, address pairs with a signed low part (RISC-V \<open>HI20\<close>/\<open>LO12\<close>, the
  LoongArch long call), data relocations of x86-64. A relaxed RISC-V call jumps where the pair of
  instructions jumps; a relaxed x86-64 GOT load leaves the address of the symbol in its register, and
  symbols that may be interposed keep their indirection. Offset translation refines the sum of the
  adjustments in front of an offset, is injective and invertible on surviving bytes, and the
  cursor agrees with it.

  For the layout, the order of the output is well bracketed and every section lies in exactly the
  segments that ask for it; parts are aligned and do not overlap, in the file and in memory, as
  long as the sizes with their padding fit into 64 bits; inside a load segment, file offset and
  address of a part with file contents are congruent modulo the alignment of the segment, so the segment can be mapped;
  the layout of segments does not panic and segments cover their sections; groups of
  input files get ranges that do not overlap and use up the part.

  For symbols, the three phases agree: the entries that are counted are those that are written, in
  every table, and the addresses given out are those of the entries that are filled. A call through
  the PLT, decoded as the processor executes it, jumps through the GOT entry of its symbol, which
  holds the address or has the dynamic relocation for it. The hypotheses are that the flags of each
  symbol are consistent (\<open>symbol_consistent\<close>) and that the PLT is in reach of the GOT. Of the threads
  that request a symbol exactly one is told that it was the first. The scan over relocations keeps the
  flags consistent, requests all that applying the relocations uses, and counts the dynamic
  relocations for data as they are written. Applied to a section, PC-relative relocations lead to
  their symbol, pairs of \<open>ADD\<close> and \<open>SUB\<close> leave the difference of their labels, and a RISC-V pair whose low part
  refers to the label of its high part computes the address of the symbol, wherever in the section the high part is.

  For WebAssembly, integers and modules survive the round trip through their encoding; the walk
  visits exactly the instructions of a body that follows the grammar; the views of a
  module are total on every input but one that is named; renumberings compose; the scan finds what
  is reachable over the edges it reads; constant folding keeps the meaning of a body. Packed strings
  are found at their offsets and the size of the pack is the one announced. The evaluation of a
  linker script expression returns whenever the regions do not refer to each other in a cycle.

  Some theorems record where the code falls short: arms of the tables that overflow their
  immediate, 64-bit relocations that store four bytes, a range check that is too wide, PLT stubs
  that are emitted out of reach, constants that a relaxed load extends with the wrong sign, a composition of edits that cannot be applied.

  \<^bold>\<open>Conventions.\<close> Integers wrap as in the release profile and \<open>debug_assert!\<close> is not evaluated;
  its conditions appear as hypotheses where a property needs them. Loops are structural recursions
  or have a termination measure; no fuel is used. Two recursions of the code need not end,
  \<open>find_owner\<close> of \<open>Suffix_Share\<close> and \<open>evaluate_expression\<close> of \<open>Expression_Eval\<close>: they are partial
  functions, for which not to return is \<^const>\<open>None\<close>, and that they do return is proved.

  \<^bold>\<open>Not modelled.\<close> The parallel traversal that decides what is linked and what each symbol needs (the
  rest of the layout), symbol resolution, the search for bytes to delete on RISC-V
  (\<open>collect_relaxation_deltas\<close>), the output writers other than
  the table writer and the application of relocations, the parser of linker scripts, the merging of
  string sections, Mach-O and WebAssembly linking, the passes of the WebAssembly
  optimiser other than constant folding, caches, the command line and the diagnostic tools.
\<close>

section \<open>Dynamic relocation types\<close>

text \<open>The numbers of the dynamic relocation types in the psABIs of the four architectures.\<close>

definition psabi_dynamic_types :: "(string \<times> u32) list" where
  "psabi_dynamic_types =
     [(''R_X86_64_64'', 1), (''R_X86_64_COPY'', 5), (''R_X86_64_GLOB_DAT'', 6), (''R_X86_64_JUMP_SLOT'', 7), (''R_X86_64_RELATIVE'', 8),
      (''R_X86_64_DTPMOD64'', 16), (''R_X86_64_DTPOFF64'', 17), (''R_X86_64_TPOFF64'', 18), (''R_X86_64_TLSDESC'', 36),
      (''R_X86_64_IRELATIVE'', 37),
      (''R_AARCH64_ABS64'', 257), (''R_AARCH64_COPY'', 1024), (''R_AARCH64_GLOB_DAT'', 1025), (''R_AARCH64_JUMP_SLOT'', 1026),
      (''R_AARCH64_RELATIVE'', 1027), (''R_AARCH64_TLS_DTPMOD'', 1028), (''R_AARCH64_TLS_DTPREL'', 1029), (''R_AARCH64_TLS_TPREL'', 1030),
      (''R_AARCH64_TLSDESC'', 1031), (''R_AARCH64_IRELATIVE'', 1032),
      (''R_RISCV_64'', 2), (''R_RISCV_RELATIVE'', 3), (''R_RISCV_COPY'', 4), (''R_RISCV_JUMP_SLOT'', 5), (''R_RISCV_TLS_DTPMOD64'', 7),
      (''R_RISCV_TLS_DTPREL64'', 9), (''R_RISCV_TLS_TPREL64'', 11), (''R_RISCV_TLSDESC'', 12), (''R_RISCV_IRELATIVE'', 58),
      (''R_LARCH_64'', 2), (''R_LARCH_RELATIVE'', 3), (''R_LARCH_COPY'', 4), (''R_LARCH_JUMP_SLOT'', 5), (''R_LARCH_TLS_DTPMOD64'', 7),
      (''R_LARCH_TLS_DTPREL64'', 9), (''R_LARCH_TLS_TPREL64'', 11), (''R_LARCH_IRELATIVE'', 12), (''R_LARCH_TLS_DESC64'', 14)]"

definition psabi :: "string \<Rightarrow> u32" where
  "psabi n = (case map_of psabi_dynamic_types n of Some t \<Rightarrow> t | None \<Rightarrow> 0)"

lemma psabi_inj:
  "inj_on psabi (set (arm_names aarch64_dynamic_arms))" "inj_on psabi (set (arm_names x86_64_dynamic_arms))"
  "inj_on psabi (set (arm_names riscv_dynamic_arms))" "inj_on psabi (set (arm_names loongarch64_dynamic_arms))"
proof -
  have "distinct (map psabi (arm_names aarch64_dynamic_arms))" "distinct (map psabi (arm_names x86_64_dynamic_arms))"
    "distinct (map psabi (arm_names riscv_dynamic_arms))" "distinct (map psabi (arm_names loongarch64_dynamic_arms))"
    by code_simp+
  then show "inj_on psabi (set (arm_names aarch64_dynamic_arms))" "inj_on psabi (set (arm_names x86_64_dynamic_arms))"
    "inj_on psabi (set (arm_names riscv_dynamic_arms))" "inj_on psabi (set (arm_names loongarch64_dynamic_arms))"
    by (simp_all add: distinct_map)
qed

text \<open>
  (C30) Dynamic relocation types survive the round trip on every architecture: when the ELF
  constants of each architecture are distinct among themselves, the raw type emitted for a dynamic relocation kind is
  read back as this kind, except that RISC-V and LoongArch, which have no type of their own for GOT entries, read a
  GOT entry back as an absolute relocation.
\<close>

theorem dynamic_reloc_roundtrip:
  assumes "inj_on elf (set (arm_names aarch64_dynamic_arms))" "inj_on elf (set (arm_names x86_64_dynamic_arms))"
    and "inj_on elf (set (arm_names riscv_dynamic_arms))" "inj_on elf (set (arm_names loongarch64_dynamic_arms))"
  shows "from_aarch64_r_type elf (aarch64_r_type elf k) = Some k \<and>
    from_x86_64_r_type elf (x86_64_r_type elf k) = Some k \<and>
    from_riscv64_r_type elf (riscv64_r_type elf k) =
      Some (if k = GotEntry then DynamicRelocationKind.Absolute else k) \<and>
    from_loongarch64_r_type elf (loongarch64_r_type elf k) =
      Some (if k = GotEntry then DynamicRelocationKind.Absolute else k)"
  using aarch64_dynamic [OF assms(1)] x86_64_dynamic [OF assms(2)] riscv_dynamic [OF assms(3)] loongarch64_dynamic [OF assms(4)]
  by blast

theorem dynamic_reloc_roundtrip_witness:
  "from_aarch64_r_type psabi (aarch64_r_type psabi JumpSlot) = Some JumpSlot \<and>
    from_riscv64_r_type psabi (riscv64_r_type psabi GotEntry) = Some DynamicRelocationKind.Absolute \<and> riscv64_r_type psabi GotEntry = 2"
  using dynamic_reloc_roundtrip [OF psabi_inj, of JumpSlot] dynamic_reloc_roundtrip [OF psabi_inj, of GotEntry]
  by (simp add: riscv64_r_type_def riscv64_r_name_def psabi_def psabi_dynamic_types_def)

end
